(* ===== verification/FP_Prelude.thy ===== *)
theory FP_Prelude
  imports Main "HOL-Library.Word" "HOL-Library.Multiset"
begin

text \<open>
  Shared material of the development.

  \<^item> The Go string functions the components use (\<^verbatim>\<open>strings.HasPrefix\<close>, \<^verbatim>\<open>HasSuffix\<close>,
    \<^verbatim>\<open>Index\<close>, \<^verbatim>\<open>LastIndex\<close>, \<^verbatim>\<open>Contains\<close>, \<^verbatim>\<open>Split\<close>, \<^verbatim>\<open>Replace\<close> with count 1,
    \<^verbatim>\<open>TrimSpace\<close>, \<^verbatim>\<open>TrimPrefix\<close>, \<^verbatim>\<open>TrimSuffix\<close>, \<^verbatim>\<open>ToLower\<close>, \<^verbatim>\<open>ToUpper\<close>) and decimal numbers
    (\<^verbatim>\<open>strconv.ParseUint\<close>). A Go string is its list of bytes, here a HOL \<open>string\<close>; the case
    and space functions are those of Go on ASCII bytes.
  \<^item> Go maps. A map is a HOL map; a \<^verbatim>\<open>range\<close> loop over a map visits the entries in an order
    the language does not fix, so a loop is a recursion over a list that enumerates the map
    once (predicate \<open>enumerates\<close>), and what must not depend on the order is proved for every
    such list (locale \<open>range_loop\<close>).
  \<^item> The collections \<open>fp_defs\<close> (definitions unfolded in component proofs) and \<open>fp_splits\<close>.
\<close>

named_theorems fp_defs

text \<open>A Go function with results \<open>(T, error)\<close> is a function into \<open>'e result_of\<close>: \<open>Inl\<close> is the
  error.\<close>

type_synonym ('e, 'a) res = "'e + 'a"

definition bind_res :: "('e, 'a) res \<Rightarrow> ('a \<Rightarrow> ('e, 'b) res) \<Rightarrow> ('e, 'b) res" where
  "bind_res r f = (case r of Inl e \<Rightarrow> Inl e | Inr x \<Rightarrow> f x)"

lemma bind_res_simps [simp]:
  "bind_res (Inl e) f = Inl e"
  "bind_res (Inr x) f = f x"
  by (simp_all add: bind_res_def)

lemma bind_res_Inr_iff:
  "bind_res r f = Inr y \<longleftrightarrow> (\<exists>x. r = Inr x \<and> f x = Inr y)"
  by (cases r) auto

lemma map_sum_Inr_iff: "map_sum f g r = Inr y \<longleftrightarrow> (\<exists>x. r = Inr x \<and> y = g x)"
  by (cases r) auto

lemma bind_res_Inl_iff:
  "bind_res r f = Inl e \<longleftrightarrow> r = Inl e \<or> (\<exists>x. r = Inr x \<and> f x = Inl e)"
  by (cases r) auto


section \<open>Strings\<close>

definition hasPrefix :: "string \<Rightarrow> string \<Rightarrow> bool" where
  "hasPrefix s p \<longleftrightarrow> take (length p) s = p"

definition hasSuffix :: "string \<Rightarrow> string \<Rightarrow> bool" where
  "hasSuffix s p \<longleftrightarrow> length p \<le> length s \<and> drop (length s - length p) s = p"

definition trimPrefix :: "string \<Rightarrow> string \<Rightarrow> string" where
  "trimPrefix s p = (if hasPrefix s p then drop (length p) s else s)"

definition trimSuffix :: "string \<Rightarrow> string \<Rightarrow> string" where
  "trimSuffix s p = (if hasSuffix s p then take (length s - length p) s else s)"

text \<open>\<^verbatim>\<open>strings.Index\<close>: \<open>None\<close> is Go's \<open>-1\<close>.\<close>

fun str_index :: "string \<Rightarrow> string \<Rightarrow> nat option" where
  "str_index [] p = (if p = [] then Some 0 else None)"
| "str_index (c # s) p =
     (if hasPrefix (c # s) p then Some 0 else map_option Suc (str_index s p))"

definition str_contains :: "string \<Rightarrow> string \<Rightarrow> bool" where
  "str_contains s p \<longleftrightarrow> str_index s p \<noteq> None"

text \<open>\<^verbatim>\<open>strings.LastIndex\<close>.\<close>

fun str_last_index :: "string \<Rightarrow> string \<Rightarrow> nat option" where
  "str_last_index [] p = (if p = [] then Some 0 else None)"
| "str_last_index (c # s) p =
     (case str_last_index s p of
        Some i \<Rightarrow> Some (Suc i)
      | None \<Rightarrow> (if hasPrefix (c # s) p then Some 0 else None))"

text \<open>\<^verbatim>\<open>strings.Split\<close> at a one-byte separator: always at least one field.\<close>

fun str_split :: "char \<Rightarrow> string \<Rightarrow> string list" where
  "str_split d [] = [[]]"
| "str_split d (c # s) =
     (if c = d then [] # str_split d s
      else (case str_split d s of [] \<Rightarrow> [[c]] | w # ws \<Rightarrow> (c # w) # ws))"

text \<open>\<^verbatim>\<open>strings.Join\<close>.\<close>

fun str_join :: "string \<Rightarrow> string list \<Rightarrow> string" where
  "str_join sep [] = []"
| "str_join sep [w] = w"
| "str_join sep (w # ws) = w @ sep @ str_join sep ws"

text \<open>\<^verbatim>\<open>strings.Replace(s, old, new, 1)\<close> for a non-empty \<open>old\<close>.\<close>

fun str_replace1 :: "string \<Rightarrow> string \<Rightarrow> string \<Rightarrow> string" where
  "str_replace1 [] old new = []"
| "str_replace1 (c # s) old new =
     (if hasPrefix (c # s) old then new @ drop (length old) (c # s)
      else c # str_replace1 s old new)"

abbreviation code :: "char \<Rightarrow> nat" where
  "code c \<equiv> of_char c"

definition is_space :: "char \<Rightarrow> bool" where
  "is_space c \<longleftrightarrow> c = CHR '' '' \<or> (9 \<le> code c \<and> code c \<le> 13)"

definition trimSpace :: "string \<Rightarrow> string" where
  "trimSpace s = rev (dropWhile is_space (rev (dropWhile is_space s)))"

definition ascii_lower :: "char \<Rightarrow> char" where
  "ascii_lower c = (if 65 \<le> code c \<and> code c \<le> 90 then char_of (code c + 32) else c)"

definition ascii_upper :: "char \<Rightarrow> char" where
  "ascii_upper c = (if 97 \<le> code c \<and> code c \<le> 122 then char_of (code c - 32) else c)"

definition toLower :: "string \<Rightarrow> string" where
  "toLower s = map ascii_lower s"

definition toUpper :: "string \<Rightarrow> string" where
  "toUpper s = map ascii_upper s"

lemma hasPrefix_Nil [simp]: "hasPrefix s []"
  by (simp add: hasPrefix_def)

lemma hasPrefix_append [simp]: "hasPrefix (p @ s) p"
  by (simp add: hasPrefix_def)

lemma hasPrefix_iff: "hasPrefix s p \<longleftrightarrow> (\<exists>t. s = p @ t)"
  unfolding hasPrefix_def by (metis append_eq_conv_conj append_take_drop_id)

lemma hasSuffix_iff: "hasSuffix s p \<longleftrightarrow> (\<exists>t. s = t @ p)"
  unfolding hasSuffix_def by (metis append_take_drop_id diff_add_inverse2 drop_append
      length_append length_drop append_Nil drop_all le_add2 order_refl diff_self_eq_0 drop0)

lemma str_index_Some:
  "str_index s p = Some i \<Longrightarrow> \<exists>u v. s = u @ p @ v \<and> length u = i"
proof (induction s arbitrary: i)
  case Nil
  then show ?case by (auto split: if_splits)
next
  case (Cons c s)
  show ?case
  proof (cases "hasPrefix (c # s) p")
    case True
    with Cons.prems show ?thesis by (auto simp: hasPrefix_iff)
  next
    case False
    with Cons.prems obtain j where j: "str_index s p = Some j" "i = Suc j" by auto
    from Cons.IH [OF j(1)] obtain u v where "s = u @ p @ v" "length u = j" by blast
    with j(2) have "c # s = (c # u) @ p @ v \<and> length (c # u) = i" by simp
    then show ?thesis by blast
  qed
qed

lemma str_index_None: "str_index s p = None \<Longrightarrow> s \<noteq> u @ p @ v"
proof (induction s arbitrary: u)
  case Nil
  then show ?case by (auto split: if_splits)
next
  case (Cons c s)
  then have no: "\<not> hasPrefix (c # s) p" and none: "str_index s p = None"
    by (auto split: if_splits)
  show ?case
  proof (cases u)
    case Nil
    with no show ?thesis by (auto simp: hasPrefix_iff)
  next
    case (Cons x u')
    with Cons.IH [OF none, of u'] show ?thesis by auto
  qed
qed

text \<open>\<^verbatim>\<open>strings.Contains\<close> is "is a contiguous part of".\<close>

lemma str_contains_iff: "str_contains s p \<longleftrightarrow> (\<exists>u v. s = u @ p @ v)"
proof
  assume "str_contains s p"
  then show "\<exists>u v. s = u @ p @ v"
    unfolding str_contains_def using str_index_Some by blast
next
  assume "\<exists>u v. s = u @ p @ v"
  then show "str_contains s p"
    unfolding str_contains_def using str_index_None by blast
qed

lemma str_last_index_Some:
  "str_last_index s p = Some i \<Longrightarrow> \<exists>u v. s = u @ p @ v \<and> length u = i"
proof (induction s arbitrary: i)
  case Nil
  then show ?case by (auto split: if_splits)
next
  case (Cons c s)
  show ?case
  proof (cases "str_last_index s p")
    case None
    with Cons.prems show ?thesis by (auto simp: hasPrefix_iff split: if_splits)
  next
    case (Some j)
    from Cons.IH [OF Some] obtain u v where "s = u @ p @ v" "length u = j" by blast
    moreover from Cons.prems Some have "i = Suc j" by simp
    ultimately have "c # s = (c # u) @ p @ v \<and> length (c # u) = i" by simp
    then show ?thesis by blast
  qed
qed

lemma str_last_index_None: "str_last_index s p = None \<Longrightarrow> s \<noteq> u @ p @ v"
proof (induction s arbitrary: u)
  case Nil
  then show ?case by (auto split: if_splits)
next
  case (Cons c s)
  then have no: "\<not> hasPrefix (c # s) p" and none: "str_last_index s p = None"
    by (auto split: if_splits option.splits)
  show ?case
  proof (cases u)
    case Nil
    with no show ?thesis by (auto simp: hasPrefix_iff)
  next
    case (Cons x u')
    with Cons.IH [OF none, of u'] show ?thesis by auto
  qed
qed

lemma str_last_index_max:
  "str_last_index s p = Some i \<Longrightarrow> s = u @ p @ v \<Longrightarrow> length u \<le> i"
proof (induction s arbitrary: i u)
  case Nil
  then show ?case by simp
next
  case (Cons c s)
  show ?case
  proof (cases u)
    case Nil
    then show ?thesis by simp
  next
    case (Cons x u')
    with Cons.prems have s: "s = u' @ p @ v" by simp
    with str_last_index_None obtain j where j: "str_last_index s p = Some j" by blast
    from Cons.IH [OF j s] have "length u' \<le> j" .
    with Cons.prems j Cons show ?thesis by simp
  qed
qed

lemma str_split_neq_Nil [simp]: "str_split d s \<noteq> []"
  by (induction s) (auto split: list.splits)

lemma str_join_Cons_char [simp]: "str_join sep ((c # w) # ws) = c # str_join sep (w # ws)"
  by (cases ws) auto

lemma str_join_Nil_Cons [simp]: "ws \<noteq> [] \<Longrightarrow> str_join sep ([] # ws) = sep @ str_join sep ws"
  by (cases ws) auto

lemma str_join_split: "str_join [d] (str_split d s) = s"
proof (induction s)
  case Nil
  then show ?case by simp
next
  case (Cons c s)
  then show ?case
    by (auto split: list.splits)
qed

lemma str_split_no_sep: "w \<in> set (str_split d s) \<Longrightarrow> d \<notin> set w"
  by (induction s arbitrary: w) (auto split: if_splits list.splits)

lemma length_str_split: "length (str_split d s) = Suc (count_list s d)"
proof (induction s)
  case Nil
  then show ?case by simp
next
  case (Cons c s)
  then show ?case by (cases "str_split d s") auto
qed


section \<open>Decimal numbers\<close>

definition is_digit :: "char \<Rightarrow> bool" where
  "is_digit c \<longleftrightarrow> 48 \<le> code c \<and> code c \<le> 57"

definition digit_val :: "char \<Rightarrow> nat" where
  "digit_val c = code c - 48"

definition digit_char :: "nat \<Rightarrow> char" where
  "digit_char n = ''0123456789'' ! n"

fun dec :: "nat \<Rightarrow> string" where
  "dec n = (if n < 10 then [digit_char n] else dec (n div 10) @ [digit_char (n mod 10)])"

declare dec.simps [simp del]

definition dec_value :: "string \<Rightarrow> nat" where
  "dec_value s = foldl (\<lambda>a c. 10 * a + digit_val c) 0 s"

text \<open>\<^verbatim>\<open>strconv.ParseUint(s, 10, 64)\<close>: non-empty, digits only, at most \<open>2 ^ 64 - 1\<close>.\<close>

definition parseUint64 :: "string \<Rightarrow> (64 word) option" where
  "parseUint64 s =
     (if s \<noteq> [] \<and> list_all is_digit s \<and> int (dec_value s) < 18446744073709551616 then Some (of_nat (dec_value s)) else None)"

lemma of_char_digit_char [simp]: "n < 10 \<Longrightarrow> code (digit_char n) = 48 + n"
proof -
  have "list_all (\<lambda>n. code (digit_char n) = 48 + n) [0..<10]" by code_simp
  then show "n < 10 \<Longrightarrow> code (digit_char n) = 48 + n" by (simp add: list_all_iff)
qed

lemma is_digit_digit_char [simp]: "n < 10 \<Longrightarrow> is_digit (digit_char n)"
  by (simp add: is_digit_def)

lemma digit_val_digit_char [simp]: "n < 10 \<Longrightarrow> digit_val (digit_char n) = n"
  by (simp add: digit_val_def)

lemma dec_neq_Nil [simp]: "dec n \<noteq> []"
  by (subst dec.simps) simp

lemma dec_digits: "list_all is_digit (dec n)"
proof (induction n rule: dec.induct)
  case (1 n)
  then show ?case by (subst dec.simps) (simp add: list_all_iff)
qed

lemma dec_value_dec [simp]: "dec_value (dec n) = n"
proof (induction n rule: dec.induct)
  case (1 n)
  then show ?case
    by (subst dec.simps) (simp add: dec_value_def)
qed

lemma parseUint64_dec: "n < 2 ^ 64 \<Longrightarrow> parseUint64 (dec n) = Some (of_nat n)"
  by (simp add: parseUint64_def dec_digits)

lemma dec_inject [simp]: "dec m = dec n \<longleftrightarrow> m = n"
  by (metis dec_value_dec)


section \<open>Go maps and range loops\<close>

definition enumerates :: "('k \<times> 'v) list \<Rightarrow> ('k \<rightharpoonup> 'v) \<Rightarrow> bool" where
  "enumerates xs m \<longleftrightarrow> distinct (map fst xs) \<and> map_of xs = m"

lemma enumerates_set: "enumerates xs m \<Longrightarrow> set xs = {(k, v). m k = Some v}"
  unfolding enumerates_def by (auto simp: map_of_eq_Some_iff)

lemma enumerates_mset:
  assumes "enumerates xs m" and "enumerates ys m"
  shows "mset xs = mset ys"
proof -
  have "distinct xs" "distinct ys"
    using assms unfolding enumerates_def by (auto simp: distinct_map)
  moreover have "set xs = set ys"
    using assms by (simp add: enumerates_set)
  ultimately show ?thesis
    by (simp add: set_eq_iff_mset_eq_distinct)
qed

text \<open>A \<^verbatim>\<open>range\<close> loop whose steps commute on the entries \<open>A\<close> it may meet: the loop's result is the
  same for every order in which the runtime enumerates the map.\<close>

locale range_loop =
  fixes step :: "'e \<Rightarrow> 's \<Rightarrow> 's" and A :: "'e set"
  assumes commute: "x \<in> A \<Longrightarrow> y \<in> A \<Longrightarrow> step x (step y s) = step y (step x s)"
begin

lemma order_irrelevant: "mset xs = mset ys \<Longrightarrow> set xs \<subseteq> A \<Longrightarrow> fold step xs s = fold step ys s"
proof -
  assume "mset xs = mset ys" and sub: "set xs \<subseteq> A"
  moreover have "step x \<circ> step y = step y \<circ> step x" if "x \<in> set xs" "y \<in> set xs" for x y
    using that sub commute [of x y] by (auto simp: fun_eq_iff)
  ultimately show "fold step xs s = fold step ys s"
    using fold_multiset_equiv [of xs step ys] by simp
qed

end

text \<open>Counting loops and selecting loops over lists.\<close>

lemma length_filter_less_iff:
  "length (filter P xs) < length xs \<longleftrightarrow> (\<exists>x \<in> set xs. \<not> P x)"
  by (metis length_filter_less filter_id_conv less_irrefl length_filter_le)

lemma length_filter_eq_iff:
  "length (filter P xs) = length xs \<longleftrightarrow> (\<forall>x \<in> set xs. P x)"
  by (metis filter_id_conv filter_is_subset length_filter_less less_irrefl)

lemma length_filter_pos_iff:
  "0 < length (filter P xs) \<longleftrightarrow> (\<exists>x \<in> set xs. P x)"
  by (auto simp: filter_empty_conv)

end
