(* ===== verification/Go_Net.thy ===== *)
theory Go_Net
  imports FP_Prelude
begin

text \<open>
  The part of Go's standard packages \<^verbatim>\<open>net\<close>, \<^verbatim>\<open>net/netip\<close>, \<^verbatim>\<open>math/big\<close> and
  \<^verbatim>\<open>encoding/binary\<close> that \<^verbatim>\<open>internal/iputil\<close> relies on.

  A byte is an \<open>8 word\<close>; a \<^verbatim>\<open>net.IP\<close> or a \<^verbatim>\<open>net.HardwareAddr\<close> is its byte list, and the nil
  slice is the empty list. \<open>parseAddr\<close> follows \<^verbatim>\<open>netip.ParseAddr\<close> (dotted decimal with no
  leading zeros, IPv6 with one ellipsis, an embedded IPv4 tail and a zone), \<open>ip_string\<close> follows
  \<^verbatim>\<open>net.IP.String\<close>. The big-endian codec \<open>be_to_nat\<close>/\<open>nat_to_be\<close> is \<^verbatim>\<open>big.Int.SetBytes\<close> and
  \<^verbatim>\<open>big.Int.FillBytes\<close>.

  The lemmas: the codec is a bijection between byte lists of a length and the numbers below
  \<open>256 ^ length\<close>, and printing an IPv4 address then parsing it gives the address back.
\<close>

type_synonym byte = "8 word"
type_synonym bytes = "byte list"


section \<open>Big-endian numbers\<close>

definition be_to_nat :: "bytes \<Rightarrow> nat" where
  "be_to_nat bs = foldl (\<lambda>a b. 256 * a + unat b) 0 bs"

primrec nat_to_be :: "nat \<Rightarrow> nat \<Rightarrow> bytes" where
  "nat_to_be 0 n = []"
| "nat_to_be (Suc k) n = nat_to_be k (n div 256) @ [of_nat (n mod 256)]"

lemma length_nat_to_be [simp]: "length (nat_to_be k n) = k"
  by (induction k arbitrary: n) auto

lemma be_to_nat_simps [simp]:
  "be_to_nat [] = 0"
  "be_to_nat (bs @ [b]) = 256 * be_to_nat bs + unat b"
  by (simp_all add: be_to_nat_def)

lemma unat_byte_less [simp]: "unat (b :: byte) < 256"
  using unsigned_less [of b] by simp

lemma unat_of_nat_byte: "unat (of_nat (n mod 256) :: byte) = n mod 256"
  by (simp add: unat_of_nat)

lemma be_to_nat_less: "be_to_nat bs < 256 ^ length bs"
proof (induction bs rule: rev_induct)
  case Nil
  then show ?case by simp
next
  case (snoc b bs)
  have "unat b < 256" by simp
  with snoc have "256 * be_to_nat bs + unat b < 256 * 256 ^ length bs" by linarith
  then show ?case by simp
qed

lemma be_to_nat_nat_to_be: "be_to_nat (nat_to_be k n) = n mod 256 ^ k"
proof (induction k arbitrary: n)
  case 0
  then show ?case by simp
next
  case (Suc k)
  have "n mod 256 ^ Suc k = 256 * (n div 256 mod 256 ^ k) + n mod 256"
    by (simp add: mod_mult2_eq)
  then show ?case by (simp add: Suc unat_of_nat_byte)
qed

lemma nat_to_be_be_to_nat: "nat_to_be (length bs) (be_to_nat bs) = bs"
proof (induction bs rule: rev_induct)
  case Nil
  then show ?case by simp
next
  case (snoc b bs)
  have "(256 * be_to_nat bs + unat b) div 256 = be_to_nat bs"
    by (simp add: unat_byte_less div_mult_self4 less_imp_le)
  moreover have "(256 * be_to_nat bs + unat b) mod 256 = unat b" by simp
  ultimately show ?case using snoc by simp
qed

lemma nat_to_be_inj:
  "m < 256 ^ k \<Longrightarrow> n < 256 ^ k \<Longrightarrow> nat_to_be k m = nat_to_be k n \<Longrightarrow> m = n"
  by (metis be_to_nat_nat_to_be mod_less)

lemma be_to_nat_inj: "length bs = length cs \<Longrightarrow> be_to_nat bs = be_to_nat cs \<Longrightarrow> bs = cs"
  by (metis nat_to_be_be_to_nat)

lemma be_to_nat_append: "be_to_nat (bs @ cs) = be_to_nat bs * 256 ^ length cs + be_to_nat cs"
  by (induction cs rule: rev_induct)
    (simp_all flip: append_assoc add: algebra_simps)

text \<open>\<^verbatim>\<open>binary.BigEndian.Uint32\<close> reads the first four bytes (the callers pass at least four);
  \<^verbatim>\<open>PutUint32\<close> writes four.\<close>

definition beUint32 :: "bytes \<Rightarrow> 32 word" where
  "beUint32 bs = of_nat (be_to_nat (take 4 bs))"

definition putUint32 :: "32 word \<Rightarrow> bytes" where
  "putUint32 w = nat_to_be 4 (unat w)"

lemma length_putUint32 [simp]: "length (putUint32 w) = 4"
  by (simp add: putUint32_def)

lemma be_to_nat_putUint32: "be_to_nat (putUint32 w) = unat w"
proof -
  have "unat w < 256 ^ 4" using unsigned_less [of w, where ?'a = nat] by simp
  then show ?thesis by (simp add: putUint32_def be_to_nat_nat_to_be)
qed

lemma putUint32_inject [simp]: "putUint32 v = putUint32 w \<longleftrightarrow> v = w"
  by (metis be_to_nat_putUint32 word_unat_eq_iff)

lemma beUint32_putUint32 [simp]: "beUint32 (putUint32 w) = w"
  by (simp add: beUint32_def be_to_nat_putUint32)

lemma unat_beUint32: "length bs = 4 \<Longrightarrow> unat (beUint32 bs) = be_to_nat bs"
  using be_to_nat_less [of bs] by (simp add: beUint32_def unat_of_nat)


section \<open>Address forms\<close>

definition v4InV6Prefix :: bytes where
  "v4InV6Prefix = replicate 10 0 @ [255, 255]"

definition To4 :: "bytes \<Rightarrow> bytes" where
  "To4 ip =
     (if length ip = 4 then ip
      else if length ip = 16 \<and> take 12 ip = v4InV6Prefix then drop 12 ip
      else [])"

definition To16 :: "bytes \<Rightarrow> bytes" where
  "To16 ip =
     (if length ip = 4 then v4InV6Prefix @ ip
      else if length ip = 16 then ip
      else [])"

lemma length_v4InV6Prefix [simp]: "length v4InV6Prefix = 12"
  by (simp add: v4InV6Prefix_def)

lemma length_To4: "To4 ip \<noteq> [] \<Longrightarrow> length (To4 ip) = 4"
  by (auto simp: To4_def split: if_splits)

lemma length_To16: "To16 ip \<noteq> [] \<Longrightarrow> length (To16 ip) = 16"
  by (auto simp: To16_def split: if_splits)

lemma To4_To16: "length ip = 4 \<Longrightarrow> To4 (To16 ip) = ip"
  by (simp add: To4_def To16_def)

datatype addr = Addr4 bytes | Addr6 bytes string

fun As16 :: "addr \<Rightarrow> bytes" where
  "As16 (Addr4 b) = v4InV6Prefix @ b"
| "As16 (Addr6 b z) = b"

fun Zone :: "addr \<Rightarrow> string" where
  "Zone (Addr4 b) = []"
| "Zone (Addr6 b z) = z"

fun BitLen :: "addr \<Rightarrow> nat" where
  "BitLen (Addr4 b) = 32"
| "BitLen (Addr6 b z) = 128"


section \<open>Parsing addresses\<close>

text \<open>The loop of \<^verbatim>\<open>parseIPv4Fields\<close>: the current field's value and number of digits, and the
  fields read so far.\<close>

fun parseIPv4Fields :: "string \<Rightarrow> nat \<Rightarrow> nat \<Rightarrow> bytes \<Rightarrow> bytes option" where
  "parseIPv4Fields [] val digLen fields =
     (if length fields < 3 then None else Some (fields @ [of_nat val]))"
| "parseIPv4Fields (c # s) val digLen fields =
     (if is_digit c then
        (if digLen = 1 \<and> val = 0 then None
         else let val' = val * 10 + digit_val c in
           if val' > 255 then None else parseIPv4Fields s val' (Suc digLen) fields)
      else if c = CHR ''.'' then
        (if digLen = 0 \<or> s = [] then None
         else if length fields = 3 then None
         else parseIPv4Fields s 0 0 (fields @ [of_nat val]))
      else None)"

definition hex_val :: "char \<Rightarrow> nat option" where
  "hex_val c =
     (if 48 \<le> code c \<and> code c \<le> 57 then Some (code c - 48)
      else if 97 \<le> code c \<and> code c \<le> 102 then Some (code c - 87)
      else if 65 \<le> code c \<and> code c \<le> 70 then Some (code c - 55)
      else None)"

text \<open>One hexadecimal group: its value, and the rest of the string. \<open>None\<close> for no digit or more
  than four.\<close>

fun hex_group :: "string \<Rightarrow> nat \<Rightarrow> nat \<Rightarrow> (nat \<times> nat \<times> string) option" where
  "hex_group [] off acc = Some (off, acc, [])"
| "hex_group (c # s) off acc =
     (case hex_val c of
        None \<Rightarrow> Some (off, acc, c # s)
      | Some d \<Rightarrow> (if off > 3 then None else hex_group s (Suc off) (16 * acc + d)))"

text \<open>The loop of \<^verbatim>\<open>parseIPv6\<close>; \<open>ip\<close> holds the bytes read so far and \<open>ell\<close> the position of the
  ellipsis. Its fuel is the number of groups that may still be read, so it is structural. The
  result is the bytes read, the ellipsis and the unread rest.\<close>

fun parseIPv6_loop :: "nat \<Rightarrow> string \<Rightarrow> bytes \<Rightarrow> nat option \<Rightarrow> (bytes \<times> nat option \<times> string) option" where
  "parseIPv6_loop 0 s ip ell = Some (ip, ell, s)"
| "parseIPv6_loop (Suc n) s ip ell =
     (case hex_group s 0 0 of
        None \<Rightarrow> None
      | Some (off, acc, rest) \<Rightarrow>
          (if off = 0 then None
           else if rest \<noteq> [] \<and> hd rest = CHR ''.'' then
             (if ell = None \<and> length ip \<noteq> 12 then None
              else if length ip + 4 > 16 then None
              else map_option (\<lambda>fs. (ip @ fs, ell, [])) (parseIPv4Fields s 0 0 []))
           else
             let ip' = ip @ nat_to_be 2 acc in
             (case rest of
                [] \<Rightarrow> Some (ip', ell, [])
              | c # r \<Rightarrow>
                  (if c \<noteq> CHR '':'' \<or> r = [] then None
                   else if hd r = CHR '':'' then
                     (if ell \<noteq> None then None
                      else if tl r = [] then Some (ip', Some (length ip'), [])
                      else parseIPv6_loop n (tl r) ip' (Some (length ip')))
                   else parseIPv6_loop n r ip' ell))))"

definition expand_ellipsis :: "bytes \<times> nat option \<times> string \<Rightarrow> bytes option" where
  "expand_ellipsis p =
     (case p of (ip, ell, rest) \<Rightarrow>
        if rest \<noteq> [] then None
        else if length ip < 16 then
          map_option (\<lambda>e. take e ip @ replicate (16 - length ip) 0 @ drop e ip) ell
        else if ell \<noteq> None then None
        else Some ip)"

definition parseIPv6_bytes :: "string \<Rightarrow> bytes option" where
  "parseIPv6_bytes s =
     (if hasPrefix s ''::'' then
        (if length s = 2 then Some (replicate 16 0)
         else Option.bind (parseIPv6_loop 8 (drop 2 s) [] (Some 0)) expand_ellipsis)
      else Option.bind (parseIPv6_loop 8 s [] None) expand_ellipsis)"

definition parseIPv6 :: "string \<Rightarrow> addr option" where
  "parseIPv6 s =
     (case str_index s ''%'' of
        None \<Rightarrow> map_option (\<lambda>b. Addr6 b []) (parseIPv6_bytes s)
      | Some i \<Rightarrow>
          (if drop (Suc i) s = [] then None
           else map_option (\<lambda>b. Addr6 b (drop (Suc i) s)) (parseIPv6_bytes (take i s))))"

fun parseAddr_scan :: "string \<Rightarrow> string \<Rightarrow> addr option" where
  "parseAddr_scan [] s = None"
| "parseAddr_scan (c # r) s =
     (if c = CHR ''.'' then map_option Addr4 (parseIPv4Fields s 0 0 [])
      else if c = CHR '':'' then parseIPv6 s
      else if c = CHR ''%'' then None
      else parseAddr_scan r s)"

definition parseAddr :: "string \<Rightarrow> addr option" where
  "parseAddr s = parseAddr_scan s s"

definition ParseIP :: "string \<Rightarrow> bytes" where
  "ParseIP s =
     (case parseAddr s of
        None \<Rightarrow> []
      | Some a \<Rightarrow> (if Zone a \<noteq> [] then [] else As16 a))"


section \<open>CIDR blocks\<close>

record IPNet =
  netIP :: bytes
  netMask :: bytes

text \<open>\<^verbatim>\<open>CIDRMask(ones, bits)\<close>: the first \<open>ones\<close> bits set.\<close>

definition CIDRMask :: "nat \<Rightarrow> nat \<Rightarrow> bytes" where
  "CIDRMask ones bits = nat_to_be (bits div 8) (2 ^ bits - 2 ^ (bits - ones))"

definition maskIP :: "bytes \<Rightarrow> bytes \<Rightarrow> bytes" where
  "maskIP ip msk =
     (let ip' = (if length msk = 4 \<and> length ip = 16 \<and> take 12 ip = v4InV6Prefix then drop 12 ip else ip)
      in if length ip' \<noteq> length msk then [] else map2 (\<lambda>a b. and a b) ip' msk)"

text \<open>The prefix length after the slash: decimal digits only, as \<^verbatim>\<open>dtoi\<close> reads them.\<close>

definition parse_plen :: "string \<Rightarrow> nat option" where
  "parse_plen m = (if m \<noteq> [] \<and> list_all is_digit m \<and> dec_value m < 16777215 then Some (dec_value m) else None)"

definition ParseCIDR :: "string \<Rightarrow> (bytes \<times> IPNet) option" where
  "ParseCIDR s =
     (case str_index s ''/'' of
        None \<Rightarrow> None
      | Some i \<Rightarrow>
          (case parseAddr (take i s) of
             None \<Rightarrow> None
           | Some a \<Rightarrow>
               (if Zone a \<noteq> [] then None
                else case parse_plen (drop (Suc i) s) of
                  None \<Rightarrow> None
                | Some n \<Rightarrow>
                    (if n > BitLen a then None
                     else let m = CIDRMask n (BitLen a) in
                       Some (As16 a, \<lparr>netIP = maskIP (As16 a) m, netMask = m\<rparr>)))))"


section \<open>Printing addresses\<close>

definition ipv4_string :: "bytes \<Rightarrow> string" where
  "ipv4_string bs = str_join ''.'' (map (\<lambda>b. dec (unat b)) bs)"

definition hex_digit :: "nat \<Rightarrow> char" where
  "hex_digit n = ''0123456789abcdef'' ! n"

fun hex :: "nat \<Rightarrow> string" where
  "hex n = (if n < 16 then [hex_digit n] else hex (n div 16) @ [hex_digit (n mod 16)])"

declare hex.simps [simp del]

definition hex2 :: "nat \<Rightarrow> string" where
  "hex2 n = [hex_digit (n div 16), hex_digit (n mod 16)]"

fun groups16 :: "bytes \<Rightarrow> nat list" where
  "groups16 (a # b # bs) = (256 * unat a + unat b) # groups16 bs"
| "groups16 bs = []"

text \<open>The run of zero groups that \<^verbatim>\<open>appendTo6\<close> replaces: the first longest run of length two or
  more, as the pair of its start and end (both 255 when there is none).\<close>

fun zero_run :: "nat list \<Rightarrow> nat" where
  "zero_run (g # gs) = (if g = 0 then Suc (zero_run gs) else 0)"
| "zero_run [] = 0"

fun longest_zero_run :: "nat list \<Rightarrow> nat \<Rightarrow> nat \<times> nat \<Rightarrow> nat \<times> nat" where
  "longest_zero_run [] i best = best"
| "longest_zero_run (g # gs) i best =
     (let l = zero_run (g # gs) in
      longest_zero_run gs (Suc i)
        (if l \<ge> 2 \<and> l > snd best - fst best then (i, i + l) else best))"

definition ipv6_string :: "bytes \<Rightarrow> string" where
  "ipv6_string bs =
     (let gs = groups16 bs; (zs, ze) = longest_zero_run gs 0 (255, 255) in
      if zs = 255 then str_join '':'' (map hex gs)
      else str_join '':'' (map hex (take zs gs)) @ ''::'' @ str_join '':'' (map hex (drop ze gs)))"

definition hexString :: "bytes \<Rightarrow> string" where
  "hexString bs = concat (map (\<lambda>b. hex2 (unat b)) bs)"

definition ip_string :: "bytes \<Rightarrow> string" where
  "ip_string ip =
     (if ip = [] then ''<nil>''
      else if length ip \<noteq> 4 \<and> length ip \<noteq> 16 then ''?'' @ hexString ip
      else if To4 ip \<noteq> [] then ipv4_string (To4 ip)
      else ipv6_string ip)"


section \<open>MAC addresses\<close>

text \<open>\<^verbatim>\<open>xtoi2(s, e)\<close>: two hexadecimal digits, followed by \<open>e\<close> if anything follows.\<close>

definition xtoi2 :: "string \<Rightarrow> char \<Rightarrow> byte option" where
  "xtoi2 s e =
     (if length s > 2 \<and> s ! 2 \<noteq> e then None
      else case s of
        a # b # _ \<Rightarrow>
          (case (hex_val a, hex_val b) of
             (Some x, Some y) \<Rightarrow> Some (of_nat (16 * x + y))
           | _ \<Rightarrow> None)
      | _ \<Rightarrow> None)"

primrec mac_fields :: "nat \<Rightarrow> string \<Rightarrow> char \<Rightarrow> bytes option" where
  "mac_fields 0 s e = Some []"
| "mac_fields (Suc n) s e =
     (case xtoi2 s e of
        None \<Rightarrow> None
      | Some b \<Rightarrow> map_option (\<lambda>bs. b # bs) (mac_fields n (drop 3 s) e))"

primrec mac_dotted :: "nat \<Rightarrow> string \<Rightarrow> bytes option" where
  "mac_dotted 0 s = Some []"
| "mac_dotted (Suc n) s =
     (case (xtoi2 (take 2 s) (CHR 0x00), xtoi2 (drop 2 s) (CHR ''.'')) of
        (Some a, Some b) \<Rightarrow> map_option (\<lambda>bs. a # b # bs) (mac_dotted n (drop 5 s))
      | _ \<Rightarrow> None)"

definition ParseMAC :: "string \<Rightarrow> bytes option" where
  "ParseMAC s =
     (if length s < 14 then None
      else if s ! 2 = CHR '':'' \<or> s ! 2 = CHR ''-'' then
        (let n = (length s + 1) div 3 in
         if (length s + 1) mod 3 \<noteq> 0 \<or> n \<notin> {6, 8, 20} then None else mac_fields n s (s ! 2))
      else if s ! 4 = CHR ''.'' then
        (let n = 2 * (length s + 1) div 5 in
         if (length s + 1) mod 5 \<noteq> 0 \<or> n \<notin> {6, 8, 20} then None else mac_dotted (n div 2) s)
      else None)"

definition mac_string :: "bytes \<Rightarrow> string" where
  "mac_string bs = str_join '':'' (map (\<lambda>b. hex2 (unat b)) bs)"


section \<open>Round trip of IPv4 text\<close>

text \<open>The parser's loop over the decimal digits of one octet.\<close>

lemma parseIPv4_octet:
  assumes "n < 256"
  shows "parseIPv4Fields (dec n @ s) 0 0 flds = parseIPv4Fields s n (length (dec n)) flds"
proof (cases "n < 10")
  case True
  then have "dec n = [digit_char n]" by (simp add: dec.simps [of n])
  with True show ?thesis by simp
next
  case False
  show ?thesis
  proof (cases "n < 100")
    case True
    with False have d: "dec n = [digit_char (n div 10), digit_char (n mod 10)]"
      by (simp add: dec.simps [of n] dec.simps [of "n div 10"])
    from True False have "0 < n div 10" "n div 10 < 10" "n div 10 \<le> 255" by auto
    moreover have "n div 10 * 10 + n mod 10 = n" by simp
    ultimately show ?thesis using True by (simp add: d Let_def) arith
  next
    case big: False
    have "n div 10 div 10 = n div 100" by (simp add: div_mult2_eq [symmetric])
    with big assms have d: "dec n = [digit_char (n div 100), digit_char (n div 10 mod 10), digit_char (n mod 10)]"
      by (simp add: dec.simps [of n] dec.simps [of "n div 10"] dec.simps [of "n div 100"]) arith
    have b: "0 < n div 100" "n div 100 < 10" "n div 10 mod 10 < 10" "n mod 10 < 10"
      using big assms by auto
    have e1: "n div 100 * 10 + n div 10 mod 10 = n div 10"
      using \<open>n div 10 div 10 = n div 100\<close> by (metis div_mult_mod_eq mult.commute)
    have e2: "n div 10 * 10 + n mod 10 = n" by simp
    have "n div 10 \<le> 25" using assms by auto
    then show ?thesis using assms b e1 e2 by (simp add: d Let_def) arith
  qed
qed

lemma dot_not_digit [simp]: "\<not> is_digit (CHR ''.'')"
  by (simp add: is_digit_def)

lemma parseIPv4_string:
  "parseIPv4Fields (ipv4_string [a, b, c, d]) 0 0 [] = Some [a, b, c, d]"
  using dec_neq_Nil
  by (simp add: ipv4_string_def parseIPv4_octet parseIPv4_octet [of _ "[]", simplified])

lemma parseAddr_scan_digits:
  "list_all is_digit ds \<Longrightarrow> parseAddr_scan (ds @ CHR ''.'' # r) s = map_option Addr4 (parseIPv4Fields s 0 0 [])"
proof (induction ds)
  case (Cons c ds)
  then have "c \<noteq> CHR ''.''" "c \<noteq> CHR '':''" "c \<noteq> CHR ''%''"
    by (auto simp: is_digit_def)
  with Cons show ?case by simp
qed simp

lemma length_4_iff: "length bs = 4 \<longleftrightarrow> (\<exists>a b c d. bs = [a, b, c, d])"
  by (auto simp: eval_nat_numeral length_Suc_conv)

theorem parseAddr_ipv4_string:
  assumes "length bs = 4"
  shows "parseAddr (ipv4_string bs) = Some (Addr4 bs)"
proof -
  obtain a b c d where bs: "bs = [a, b, c, d]" using assms by (auto simp: length_4_iff)
  have "ipv4_string bs = dec (unat a) @ CHR ''.'' # (dec (unat b) @ CHR ''.'' # dec (unat c) @ CHR ''.'' # dec (unat d))"
    by (simp add: bs ipv4_string_def)
  then have "parseAddr (ipv4_string bs) = map_option Addr4 (parseIPv4Fields (ipv4_string bs) 0 0 [])"
    unfolding parseAddr_def by (metis parseAddr_scan_digits dec_digits)
  then show ?thesis by (simp add: bs parseIPv4_string)
qed

lemma ParseIP_ipv4_string: "length bs = 4 \<Longrightarrow> ParseIP (ipv4_string bs) = v4InV6Prefix @ bs"
  by (simp add: ParseIP_def parseAddr_ipv4_string)

lemma To4_ParseIP_ipv4_string: "length bs = 4 \<Longrightarrow> To4 (ParseIP (ipv4_string bs)) = bs"
  by (simp add: ParseIP_ipv4_string To4_def)

lemma ipv4_string_inj:
  "length bs = 4 \<Longrightarrow> length cs = 4 \<Longrightarrow> ipv4_string bs = ipv4_string cs \<Longrightarrow> bs = cs"
  by (metis parseAddr_ipv4_string option.inject addr.inject(1))

lemma ip_string_4: "length bs = 4 \<Longrightarrow> ip_string bs = ipv4_string bs"
  by (auto simp: ip_string_def To4_def)


section \<open>Round trip of MAC text\<close>

lemma hex_val_hex_digit: "n < 16 \<Longrightarrow> hex_val (hex_digit n) = Some n"
proof -
  have "list_all (\<lambda>n. hex_val (hex_digit n) = Some n) [0..<16]" by code_simp
  then show "n < 16 \<Longrightarrow> hex_val (hex_digit n) = Some n" by (simp add: list_all_iff)
qed

lemma hex_digit_inj: "m < 16 \<Longrightarrow> n < 16 \<Longrightarrow> hex_digit m = hex_digit n \<Longrightarrow> m = n"
  by (metis hex_val_hex_digit option.inject)

lemma hex2_inj: "m < 256 \<Longrightarrow> n < 256 \<Longrightarrow> hex2 m = hex2 n \<Longrightarrow> m = n"
proof -
  assume m: "m < 256" and n: "n < 256" and e: "hex2 m = hex2 n"
  then have "m div 16 = n div 16" "m mod 16 = n mod 16"
    by (auto simp: hex2_def intro!: hex_digit_inj)
  then show "m = n" by (metis div_mult_mod_eq)
qed

lemma xtoi2_hex2:
  "n < 256 \<Longrightarrow> r = [] \<or> hd r = e \<Longrightarrow> xtoi2 (hex2 n @ r) e = Some (of_nat n)"
  by (cases r) (auto simp: xtoi2_def hex2_def hex_val_hex_digit)

lemma mac_fields_string:
  "mac_fields (length bs) (mac_string bs) (CHR '':'') = Some bs"
proof (induction bs)
  case Nil
  then show ?case by simp
next
  case (Cons b bs)
  show ?case
  proof (cases bs)
    case Nil
    then show ?thesis using xtoi2_hex2 [of "unat b" "[]"] by (simp add: mac_string_def)
  next
    case (Cons c cs)
    then have s: "mac_string (b # bs) = hex2 (unat b) @ CHR '':'' # mac_string bs"
      by (simp add: mac_string_def)
    have "drop 3 (mac_string (b # bs)) = mac_string bs"
      unfolding s by (simp add: hex2_def)
    then show ?thesis using Cons.IH xtoi2_hex2 [of "unat b" "CHR '':'' # mac_string bs" "CHR '':''"]
      by (simp add: s)
  qed
qed

lemma length_mac_string: "bs \<noteq> [] \<Longrightarrow> length (mac_string bs) + 1 = 3 * length bs"
proof (induction bs)
  case (Cons b bs)
  then show ?case by (cases bs) (auto simp: mac_string_def hex2_def)
qed simp

text \<open>Every six-byte address is read back from its text.\<close>

theorem ParseMAC_mac_string:
  assumes "length bs = 6"
  shows "ParseMAC (mac_string bs) = Some bs"
proof -
  from assms obtain a b cs where bs: "bs = a # b # cs"
    by (auto simp: eval_nat_numeral length_Suc_conv)
  have l: "length (mac_string bs) = 17"
    using length_mac_string [of bs] assms bs by simp
  have "mac_string bs ! 2 = CHR '':''"
    by (simp add: bs mac_string_def hex2_def)
  then show ?thesis using l mac_fields_string [of bs] assms by (simp add: ParseMAC_def)
qed

lemma mac_string_inj:
  "length bs = 6 \<Longrightarrow> length cs = 6 \<Longrightarrow> mac_string bs = mac_string cs \<Longrightarrow> bs = cs"
  by (metis ParseMAC_mac_string option.inject)

text \<open>Evaluation of the IPv6 parser and of paddings of a given length.\<close>

lemmas parseIPv6_loop_numeral = parseIPv6_loop.simps(2) [of "pred_numeral k" for k, folded numeral_eq_Suc]
lemmas replicate_numeral = replicate_Suc [of "pred_numeral k" for k, folded numeral_eq_Suc]

end
