(* ===== verification/Iputil.thy ===== *)
theory Iputil
  imports Go_Net
begin

text \<open>
  \<^verbatim>\<open>internal/iputil/iputil.go\<close>: the address and MAC generators the tests and the scale
  configurations use.

  Each Go function is one definition here with the same branches; an \<^verbatim>\<open>error\<close> result is \<open>Inl\<close>
  of the constructor that names its message. \<^verbatim>\<open>uint32\<close> and \<^verbatim>\<open>uint64\<close> arithmetic is word
  arithmetic; \<^verbatim>\<open>big.Int\<close> arithmetic is \<open>nat\<close> arithmetic.

  The locale \<open>address_text\<close> is what the generators rely on from the textual form of addresses
  (different numbers below the size of the address space have different texts); it is interpreted
  for IPv4 and for MAC addresses.
\<close>

unbundle bit_operations_syntax

datatype ip_error =
    NegativeCount | InvalidStart | InvalidStep | StepIsZero | StepOverflow | CountOverflow
  | OverflowIPv6 | InvalidIPv6 | NotIPv6 | ParsedCIDRNil | IPv4Given | BadMask
  | InvalidIP | NotIPv4 | MACFailed | MakeSlicePanic


section \<open>Definitions\<close>

text \<open>The loop of \<^verbatim>\<open>GenerateIPs\<close>: \<^verbatim>\<open>for i := firstIP; i <= lastIP && n > 0; i++\<close>, with
  \<^verbatim>\<open>i\<close> a \<^verbatim>\<open>uint32\<close>.\<close>

fun genIPs_loop :: "32 word \<Rightarrow> 32 word \<Rightarrow> nat \<Rightarrow> string list" where
  "genIPs_loop i lastIP 0 = []"
| "genIPs_loop i lastIP (Suc n) =
     (if i \<le> lastIP then ip_string (putUint32 i) # genIPs_loop (i + 1) lastIP n else [])"

definition lastIP_of :: "32 word \<Rightarrow> 32 word \<Rightarrow> 32 word" where
  "lastIP_of firstIP mask32 = (firstIP AND mask32) OR (mask32 XOR 0xffffffff)"

definition GenerateIPs :: "string \<Rightarrow> int \<Rightarrow> string list" where
  "GenerateIPs ipBlock n =
     (case ParseCIDR ipBlock of
        None \<Rightarrow> []
      | Some (_, netCIDR) \<Rightarrow>
          let mask32 = beUint32 (netMask netCIDR);
              firstIP = beUint32 (netIP netCIDR)
          in genIPs_loop firstIP (lastIP_of firstIP mask32) (nat n))"

definition GenerateIPsWithStep :: "string \<Rightarrow> int \<Rightarrow> string \<Rightarrow> (ip_error, string list) res" where
  "GenerateIPsWithStep startIP cnt stepIP =
     (if cnt < 0 then Inl NegativeCount
      else if cnt = 0 then Inr []
      else let ip = To4 (ParseIP startIP); stp = To4 (ParseIP stepIP) in
        if ip = [] then Inl InvalidStart
        else if stp = [] then Inl InvalidStep
        else let start = beUint32 ip; stepVal = beUint32 stp in
          if stepVal = 0 then Inl StepIsZero
          else if start + stepVal < start then Inl StepOverflow
          else if (ucast start :: 64 word) + ucast stepVal * word_of_int (cnt - 1) > 0xffffffff
            then Inl CountOverflow
          else Inr (map (\<lambda>i. ip_string (putUint32 (start + of_nat i * stepVal))) [0..<nat cnt]))"

definition ipToBigInt :: "bytes \<Rightarrow> nat" where
  "ipToBigInt ip = be_to_nat (To16 ip)"

text \<open>\<^verbatim>\<open>big.Int.Bytes\<close> is the shortest big-endian form, padded to 16 bytes; a longer number keeps
  its length.\<close>

fun big_len :: "nat \<Rightarrow> nat" where
  "big_len n = (if n = 0 then 0 else Suc (big_len (n div 256)))"

declare big_len.simps [simp del]

definition bigIntToIP :: "nat \<Rightarrow> bytes" where
  "bigIntToIP n = nat_to_be (max 16 (big_len n)) n"

definition GenerateIPv6sWithStep :: "string \<Rightarrow> int \<Rightarrow> string \<Rightarrow> (ip_error, string list) res" where
  "GenerateIPv6sWithStep startIP cnt stepIP =
     (if cnt < 0 then Inl NegativeCount
      else if cnt = 0 then Inr []
      else let ip = To16 (ParseIP startIP) in
        if ip = [] \<or> To4 ip \<noteq> [] then Inl InvalidStart
        else let stp = To16 (ParseIP stepIP) in
        if stp = [] \<or> To4 stp \<noteq> [] then Inl InvalidStep
        else let ipInt = ipToBigInt ip; stepInt = ipToBigInt stp in
          if stepInt = 0 then Inl StepIsZero
          else if ipInt + stepInt * nat (cnt - 1) \<ge> 2 ^ 128 then Inl OverflowIPv6
          else Inr (map (\<lambda>i. ip_string (bigIntToIP (ipInt + stepInt * i))) [0..<nat cnt]))"

definition GenerateMACs :: "string \<Rightarrow> int \<Rightarrow> string \<Rightarrow> string list" where
  "GenerateMACs startMAC cnt stepMACStr =
     (if cnt < 0 then []
      else if cnt = 0 then []
      else case ParseMAC startMAC of
        None \<Rightarrow> []
      | Some baseMAC \<Rightarrow>
          (if length baseMAC \<noteq> 6 then []
           else case ParseMAC stepMACStr of
             None \<Rightarrow> []
           | Some stepMAC \<Rightarrow>
               (if length stepMAC \<noteq> 6 then []
                else let baseInt = be_to_nat baseMAC; stepInt = be_to_nat stepMAC in
                  if baseInt + stepInt * nat (cnt - 1) > 2 ^ 48 - 1 then []
                  else map (\<lambda>i. mac_string (nat_to_be 6 (baseInt + stepInt * i))) [0..<nat cnt])))"

text \<open>The function literal of \<^verbatim>\<open>NextIPMultiSteps\<close>: the loop runs from the last byte to the first
  and stops at the first byte that does not wrap; here over the reversed bytes.\<close>

fun inc_le :: "bytes \<Rightarrow> bytes" where
  "inc_le [] = []"
| "inc_le (b # bs) = (if b + 1 > 0 then (b + 1) # bs else (b + 1) # inc_le bs)"

definition nextIP :: "bytes \<Rightarrow> bytes" where
  "nextIP ip = rev (inc_le (rev ip))"

definition NextIPMultiSteps :: "bytes \<Rightarrow> int \<Rightarrow> bytes" where
  "NextIPMultiSteps ip cnt = (nextIP ^^ nat cnt) ip"

definition GenerateIPv6s :: "bytes \<Rightarrow> int \<Rightarrow> (ip_error, string list) res" where
  "GenerateIPv6s baseIP n =
     (if n < 0 then Inl MakeSlicePanic
      else if baseIP = [] then Inl InvalidIPv6
      else let ip = To16 baseIP in
        if ip = [] \<or> To4 baseIP \<noteq> [] then Inl NotIPv6
        else let baseInt = be_to_nat ip in
          Inr (map (\<lambda>i. ip_string (nat_to_be 16 ((baseInt + i) mod 2 ^ 128))) [0..<nat n]))"

definition IncrementMAC :: "string \<Rightarrow> int \<Rightarrow> (ip_error, string) res" where
  "IncrementMAC startMAC i =
     (case GenerateMACs startMAC i ''00:00:00:00:00:01'' of
        [] \<Rightarrow> Inl MACFailed
      | m # _ \<Rightarrow> Inr m)"

definition IPEqual :: "string \<Rightarrow> string \<Rightarrow> bool" where
  "IPEqual got want =
     (case (parseAddr got, parseAddr want) of
        (Some gotIP, Some wantIP) \<Rightarrow> gotIP = wantIP
      | _ \<Rightarrow> got = want)"

text \<open>\<^verbatim>\<open>IPMask.Size\<close>: the number of leading ones, \<open>None\<close> when a zero bit precedes a one bit.\<close>

fun byte_ones :: "nat \<Rightarrow> byte \<Rightarrow> (nat \<times> byte)" where
  "byte_ones 0 v = (0, v)"
| "byte_ones (Suc k) v =
     (if v AND 0x80 \<noteq> 0 then (let (n, r) = byte_ones k (push_bit 1 v) in (Suc n, r)) else (0, v))"

fun mask_ones :: "bytes \<Rightarrow> nat option" where
  "mask_ones [] = Some 0"
| "mask_ones (v # m) =
     (if v = 0xff then map_option ((+) 8) (mask_ones m)
      else let (n, r) = byte_ones 8 v in
        if r \<noteq> 0 \<or> (\<exists>b \<in> set m. b \<noteq> 0) then None else Some n)"

definition GenerateIPv6 :: "string \<Rightarrow> 64 word \<Rightarrow> (ip_error, string list) res" where
  "GenerateIPv6 startIP cnt =
     (if startIP = [] then Inl InvalidIPv6
      else case ParseCIDR startIP of
        None \<Rightarrow> Inl ParsedCIDRNil
      | Some (_, netCIDR) \<Rightarrow>
          let ipBytes = To16 (netIP netCIDR) in
          if ipBytes = [] \<or> To4 (netIP netCIDR) \<noteq> [] then Inl IPv4Given
          else case mask_ones (netMask netCIDR) of
            None \<Rightarrow> Inl BadMask
          | Some maskSize \<Rightarrow>
              (if 8 * length (netMask netCIDR) \<noteq> 128 then Inl BadMask
               else
                 let networkIP = be_to_nat ipBytes AND be_to_nat (netMask netCIDR);
                     stp = 2 ^ (128 - maskSize);
                     k = (if cnt = 0 then 1 else unat cnt)
                 in Inr (map (\<lambda>i. ip_string (nat_to_be 16 ((i * stp + networkIP + 1) mod 2 ^ 128))) [0..<k])))"

definition upper_hex2 :: "byte \<Rightarrow> string" where
  "upper_hex2 b = toUpper (hex2 (unat b))"

definition IPv4ToHex :: "string \<Rightarrow> (ip_error, string) res" where
  "IPv4ToHex ipStr =
     (let ip = ParseIP (trimSpace ipStr) in
      if ip = [] then Inl InvalidIP
      else let ip4 = To4 ip in
        if ip4 = [] then Inl NotIPv4
        else Inr (upper_hex2 (ip4 ! 0) @ upper_hex2 (ip4 ! 1) @ upper_hex2 (ip4 ! 2) @ upper_hex2 (ip4 ! 3)))"


section \<open>The text of addresses\<close>

locale address_text =
  fixes render :: "nat \<Rightarrow> string" and space :: nat
  assumes render_inj: "m < space \<Longrightarrow> n < space \<Longrightarrow> render m = render n \<Longrightarrow> m = n"
begin

lemma distinct_sequence:
  assumes "0 < d" and "a + d * (k - 1) < space"
  shows "distinct (map (\<lambda>i. render (a + d * i)) [0..<k])"
proof -
  have small: "a + d * i < space" if "i < k" for i
  proof -
    have "d * i \<le> d * (k - 1)" using that by (intro mult_le_mono) auto
    with assms(2) show ?thesis by linarith
  qed
  have "inj_on (\<lambda>i. render (a + d * i)) {0..<k}"
  proof (rule inj_onI)
    fix i j
    assume "i \<in> {0..<k}" "j \<in> {0..<k}" "render (a + d * i) = render (a + d * j)"
    then have "a + d * i = a + d * j"
      using render_inj small by (meson atLeastLessThan_iff)
    with assms(1) show "i = j" by simp
  qed
  then show ?thesis by (simp add: distinct_map)
qed

lemma distinct_block:
  assumes "b \<le> space"
  shows "distinct (map render [a..<b])"
proof -
  have "inj_on render {a..<b}"
    using assms by (intro inj_onI render_inj) auto
  then show ?thesis by (simp add: distinct_map)
qed

end

interpretation ipv4_text: address_text "\<lambda>n. ip_string (nat_to_be 4 n)" "2 ^ 32"
proof unfold_locales
  fix m n :: nat
  assume m: "m < 2 ^ 32" and n: "n < 2 ^ 32"
    and e: "ip_string (nat_to_be 4 m) = ip_string (nat_to_be 4 n)"
  then have "nat_to_be 4 m = nat_to_be 4 n"
    by (auto simp: ip_string_4 intro: ipv4_string_inj)
  with m n show "m = n" using nat_to_be_inj [of m 4 n] by simp
qed

interpretation mac_text: address_text "\<lambda>n. mac_string (nat_to_be 6 n)" "2 ^ 48"
proof unfold_locales
  fix m n :: nat
  assume m: "m < 2 ^ 48" and n: "n < 2 ^ 48"
    and e: "mac_string (nat_to_be 6 m) = mac_string (nat_to_be 6 n)"
  then have "nat_to_be 6 m = nat_to_be 6 n"
    by (auto intro: mac_string_inj)
  with m n show "m = n" using nat_to_be_inj [of m 6 n] by simp
qed


section \<open>IPv4 blocks\<close>

lemma putUint32_eq: "putUint32 w = nat_to_be 4 (unat w)"
  by (simp add: putUint32_def)

lemma genIPs_loop_bounded:
  assumes "l \<noteq> 0xffffffff"
  shows "genIPs_loop i l n =
    map (\<lambda>k. ip_string (nat_to_be 4 k)) [unat i..<min (unat i + n) (unat l + 1)]"
proof (induction n arbitrary: i)
  case 0
  then show ?case by simp
next
  case (Suc n)
  show ?case
  proof (cases "i \<le> l")
    case True
    from True have le: "unat i \<le> unat l" by (simp add: word_le_nat_alt)
    have "unat l \<noteq> unat (0xffffffff :: 32 word)"
      using assms by (metis word_unat_eq_iff)
    then have "unat l < 4294967295"
      using unsigned_less [of l, where ?'a = nat] by simp
    with le have u: "unat (i + 1) = Suc (unat i)"
      by (simp add: unat_word_ariths)
    from le have "[unat i..<min (unat i + Suc n) (unat l + 1)] =
      unat i # [Suc (unat i)..<min (Suc (unat i) + n) (unat l + 1)]"
      by (subst upt_conv_Cons) auto
    then show ?thesis using True Suc [of "i + 1"] by (simp add: u putUint32_eq)
  next
    case False
    then have "unat l < unat i" by (simp add: word_le_nat_alt)
    with False show ?thesis by simp
  qed
qed

lemma genIPs_loop_full:
  "genIPs_loop i 0xffffffff n = map (\<lambda>k. ip_string (putUint32 (i + of_nat k))) [0..<n]"
proof (induction n arbitrary: i)
  case 0
  then show ?case by simp
next
  case (Suc n)
  have "i \<le> 0xffffffff" 
    using unsigned_less [of i, where ?'a = nat] by (simp add: word_le_nat_alt)
  moreover have "map (\<lambda>k. ip_string (putUint32 (i + of_nat k))) [0..<Suc n] =
    ip_string (putUint32 i) # map (\<lambda>k. ip_string (putUint32 (i + 1 + of_nat k))) [0..<n]"
    by (simp add: upt_conv_Cons map_Suc_upt [symmetric] add.assoc del: upt_Suc)
  ultimately show ?case using Suc [of "i + 1"] by (simp del: upt_Suc)
qed


text \<open>For a parsed block whose last address is not 255.255.255.255, \<^verbatim>\<open>GenerateIPs\<close>
  returns exactly the first \<open>n\<close> addresses of the block in increasing order, all of them when
  the block has fewer, and no address twice.\<close>

theorem GenerateIPs_block:
  assumes "ParseCIDR blk = Some (ip, net)"
    and "f = beUint32 (netIP net)" and "l = lastIP_of f (beUint32 (netMask net))"
    and "l \<noteq> 0xffffffff"
  shows "GenerateIPs blk n =
      map (\<lambda>k. ip_string (nat_to_be 4 k)) [unat f..<min (unat f + nat n) (unat l + 1)]
    \<and> distinct (GenerateIPs blk n)"
proof -
  have eq: "GenerateIPs blk n =
      map (\<lambda>k. ip_string (nat_to_be 4 k)) [unat f..<min (unat f + nat n) (unat l + 1)]"
    using assms by (simp add: GenerateIPs_def genIPs_loop_bounded Let_def)
  have "unat l + 1 \<le> 2 ^ 32" using unsigned_less [of l, where ?'a = nat] by simp
  then have "min (unat f + nat n) (unat l + 1) \<le> 2 ^ 32" by simp
  then have "distinct (GenerateIPs blk n)"
    unfolding eq by (rule ipv4_text.distinct_block)
  with eq show ?thesis by blast
qed

text \<open>Evaluation of the address functions on concrete texts.\<close>

lemma nat_to_be_numeral:
  "nat_to_be (numeral k) n = nat_to_be (pred_numeral k) (n div 256) @ [of_nat (n mod 256)]"
  by (simp only: numeral_eq_Suc [of k] nat_to_be.simps)

lemmas ip_eval = ParseCIDR_def parseAddr_def ParseIP_def hasPrefix_def is_digit_def digit_val_def
  parse_plen_def dec_value_def CIDRMask_def maskIP_def v4InV6Prefix_def To4_def To16_def
  beUint32_def putUint32_def be_to_nat_def lastIP_of_def ip_string_def ipv4_string_def
  dec.simps digit_char_def nat_to_be_numeral Let_def

lemma ParseCIDR_ex1:
  "ParseCIDR ''192.0.2.4/30'' = Some (v4InV6Prefix @ [192, 0, 2, 4], \<lparr>netIP = [192, 0, 2, 4], netMask = [255, 255, 255, 252]\<rparr>)"
  by (simp add: ip_eval)

theorem GenerateIPs_block_witness:
  "GenerateIPs ''192.0.2.4/30'' 3 = [''192.0.2.4'', ''192.0.2.5'', ''192.0.2.6'']"
proof -
  have "lastIP_of (beUint32 [192, 0, 2, 4]) (beUint32 [255, 255, 255, 252]) = 3221225991"
    by (simp add: ip_eval)
  moreover have "beUint32 [192, 0, 2, 4] = 3221225988" by (simp add: ip_eval)
  ultimately have "GenerateIPs ''192.0.2.4/30'' 3 =
      map (\<lambda>k. ip_string (nat_to_be 4 k)) [3221225988..<3221225991]"
    using GenerateIPs_block [OF ParseCIDR_ex1 refl refl, of 3] by simp
  moreover have "[3221225988..<3221225991] = [3221225988, 3221225989, 3221225990 :: nat]"
    by (simp add: upt_conv_Cons)
  moreover have "map (\<lambda>k. ip_string (nat_to_be 4 k)) [3221225988, 3221225989, 3221225990] =
      [''192.0.2.4'', ''192.0.2.5'', ''192.0.2.6'']"
    by (simp add: ip_eval)
  ultimately show ?thesis by simp
qed

text \<open>When the block ends at 255.255.255.255 the loop's upper bound is never exceeded: the
  \<^verbatim>\<open>uint32\<close> counter wraps and \<^verbatim>\<open>GenerateIPs\<close> returns as many entries as asked for, continuing at
  0.0.0.0 outside the block.\<close>

theorem GenerateIPs_wraps:
  assumes "ParseCIDR blk = Some (ip, net)"
    and "f = beUint32 (netIP net)" and "lastIP_of f (beUint32 (netMask net)) = 0xffffffff"
  shows "GenerateIPs blk n = map (\<lambda>k. ip_string (putUint32 (f + of_nat k))) [0..<nat n]"
  using assms by (simp add: GenerateIPs_def genIPs_loop_full Let_def)

lemma ParseCIDR_ex2:
  "ParseCIDR ''255.255.255.254/31'' = Some (v4InV6Prefix @ [255, 255, 255, 254], \<lparr>netIP = [255, 255, 255, 254], netMask = [255, 255, 255, 254]\<rparr>)"
  by (simp add: ip_eval)

theorem GenerateIPs_wraps_witness:
  "GenerateIPs ''255.255.255.254/31'' 3 = [''255.255.255.254'', ''255.255.255.255'', ''0.0.0.0'']"
proof -
  have "lastIP_of (beUint32 [255, 255, 255, 254]) (beUint32 [255, 255, 255, 254]) = 0xffffffff"
    by (simp add: ip_eval)
  then have "GenerateIPs ''255.255.255.254/31'' 3 =
      map (\<lambda>k. ip_string (putUint32 (beUint32 [255, 255, 255, 254] + of_nat k))) [0..<nat 3]"
    using GenerateIPs_wraps [OF ParseCIDR_ex2 refl, of 3] by simp
  also have "[0..<nat 3] = [0, 1, 2]" by code_simp
  also have "map (\<lambda>k. ip_string (putUint32 (beUint32 [255, 255, 255, 254] + of_nat k))) [0, 1, 2] = [''255.255.255.254'', ''255.255.255.255'', ''0.0.0.0'']"
    by (simp add: ip_eval)
  finally show ?thesis .
qed


section \<open>IPv4 sequences with a step\<close>

lemma ucast_word_64: "unat (ucast (w :: 32 word) :: 64 word) = unat w"
proof -
  have "unat w < 2 ^ 64" using unsigned_less [of w, where ?'a = nat] by simp
  then show ?thesis by (simp add: unsigned_ucast_eq take_bit_nat_eq_self)
qed

text \<open>The \<^verbatim>\<open>uint64\<close> sum of the overflow check does not wrap for at most \<open>2 ^ 32\<close> addresses.\<close>

lemma count_check_unat:
  assumes "0 < k" and "k \<le> 2 ^ 32"
  shows "unat ((ucast (a :: 32 word) :: 64 word) + ucast (d :: 32 word) * word_of_int (k - 1)) =
    unat a + unat d * nat (k - 1)"
proof -
  have kn: "nat (k - 1) < 2 ^ 32" using assms by simp
  have "0 \<le> k - 1" "k - 1 < 2 ^ 64" using assms by simp_all
  then have u: "unat (word_of_int (k - 1) :: 64 word) = nat (k - 1)"
    unfolding unsigned_of_int by (simp add: take_bit_int_eq_self_iff [THEN iffD2] del: of_int_diff)
  have a: "unat a < 2 ^ 32" "unat d < 2 ^ 32"
    using unsigned_less [of a, where ?'a = nat] unsigned_less [of d, where ?'a = nat] by simp_all
  have "unat d * nat (k - 1) \<le> (2 ^ 32 - 1) * (2 ^ 32 - 1)"
    using a(2) kn by (intro mult_le_mono) auto
  then have m: "unat d * nat (k - 1) < 2 ^ 64" "unat a + unat d * nat (k - 1) < 2 ^ 64"
    using a(1) by auto
  then have "unat (ucast d * word_of_int (k - 1) :: 64 word) = unat d * nat (k - 1)"
    by (simp add: unat_word_ariths ucast_word_64 u del: of_int_diff)
  with m show ?thesis by (simp add: unat_word_ariths ucast_word_64 del: of_int_diff)
qed

lemma unat_step:
  assumes "unat a + unat d * i < 2 ^ 32" and "i < 2 ^ 32"
  shows "unat ((a :: 32 word) + of_nat i * d) = unat a + unat d * i"
proof -
  have "unat (of_nat i :: 32 word) = i" using assms(2) by (simp add: unat_of_nat)
  then have "unat (of_nat i * d :: 32 word) = unat d * i"
    using assms(1) by (simp add: unat_word_ariths mult.commute)
  then show ?thesis using assms(1) by (simp add: unat_word_ariths)
qed

lemma step_overflow_iff:
  "(a :: 32 word) + d < a \<longleftrightarrow> 2 ^ 32 \<le> unat a + unat d"
proof -
  have b: "unat a < 2 ^ 32" "unat d < 2 ^ 32"
    using unsigned_less [of a, where ?'a = nat] unsigned_less [of d, where ?'a = nat] by simp_all
  show ?thesis
  proof (cases "unat a + unat d < 2 ^ 32")
    case True
    then show ?thesis by (simp add: word_less_nat_alt unat_word_ariths)
  next
    case False
    then have "(unat a + unat d) mod 2 ^ 32 = unat a + unat d - 2 ^ 32"
      using b by (simp add: mod_if)
    with False b show ?thesis by (simp add: word_less_nat_alt unat_word_ariths)
  qed
qed


text \<open>The numbers the two texts stand for.\<close>

definition v4_value :: "string \<Rightarrow> nat" where
  "v4_value s = be_to_nat (To4 (ParseIP s))"

lemma unat_beUint32_To4: "To4 (ParseIP s) \<noteq> [] \<Longrightarrow> unat (beUint32 (To4 (ParseIP s))) = v4_value s"
  by (simp add: v4_value_def unat_beUint32 length_To4)

lemma GenerateIPsWithStep_eq:
  assumes "0 < k" and "k \<le> 2 ^ 32" and "To4 (ParseIP s) \<noteq> []" and "To4 (ParseIP t) \<noteq> []"
    and "v4_value t \<noteq> 0" and "v4_value s + v4_value t < 2 ^ 32"
    and "v4_value s + v4_value t * nat (k - 1) < 2 ^ 32"
  shows "GenerateIPsWithStep s k t =
    Inr (map (\<lambda>i. ip_string (nat_to_be 4 (v4_value s + v4_value t * i))) [0..<nat k])"
proof -
  let ?a = "beUint32 (To4 (ParseIP s))" and ?d = "beUint32 (To4 (ParseIP t))"
  have ua: "unat ?a = v4_value s" and ud: "unat ?d = v4_value t"
    using assms(3,4) by (simp_all add: unat_beUint32_To4)
  have nz: "?d \<noteq> 0" using ud assms(5) by auto
  have so: "\<not> ?a + ?d < ?a" using assms(6) by (simp add: step_overflow_iff ua ud)
  have co: "\<not> (ucast ?a :: 64 word) + ucast ?d * word_of_int (k - 1) > 0xffffffff"
    using assms(7) by (simp add: word_less_nat_alt count_check_unat [OF assms(1,2)] ua ud del: of_int_diff)
  have step: "ip_string (putUint32 (?a + of_nat i * ?d)) = ip_string (nat_to_be 4 (v4_value s + v4_value t * i))"
    if "i < nat k" for i
  proof -
    have "v4_value t * i \<le> v4_value t * nat (k - 1)" using that by (intro mult_le_mono) auto
    with assms(7) have "v4_value s + v4_value t * i < 2 ^ 32" by linarith
    moreover have "i < 2 ^ 32" using that assms(2) by simp
    ultimately have "unat (?a + of_nat i * ?d) = v4_value s + v4_value t * i"
      using unat_step [of ?a ?d i] by (simp add: ua ud)
    then show ?thesis by (simp add: putUint32_eq)
  qed
  then have "map (\<lambda>i. ip_string (putUint32 (?a + of_nat i * ?d))) [0..<nat k] =
    map (\<lambda>i. ip_string (nat_to_be 4 (v4_value s + v4_value t * i))) [0..<nat k]"
    by (intro map_cong) auto
  with assms(1,3,4) nz so co show ?thesis
    by (simp add: GenerateIPsWithStep_def Let_def del: of_int_diff)
qed

lemma GenerateIPsWithStep_total:
  assumes "0 < k" "k \<le> 2 ^ 32" "v4_value s \<noteq> 0" "v4_value t \<noteq> 0" "v4_value s + v4_value t < 2 ^ 32"
    "v4_value s + v4_value t * nat (k - 1) < 2 ^ 32"
  shows "\<exists>l. GenerateIPsWithStep s k t = Inr l \<and> length l = nat k"
proof -
  have "To4 (ParseIP s) \<noteq> []" "To4 (ParseIP t) \<noteq> []" using assms(3,4) by (auto simp: v4_value_def)
  then show ?thesis using GenerateIPsWithStep_eq [of k s t] assms by simp
qed

lemma GenerateIPsWithStep_Inr:
  assumes "0 < k" and "k \<le> 2 ^ 32" and "GenerateIPsWithStep s k t = Inr ips"
  shows "To4 (ParseIP s) \<noteq> []" and "To4 (ParseIP t) \<noteq> []" and "v4_value t \<noteq> 0"
    and "v4_value s + v4_value t < 2 ^ 32" and "v4_value s + v4_value t * nat (k - 1) < 2 ^ 32"
proof -
  let ?a = "beUint32 (To4 (ParseIP s))" and ?d = "beUint32 (To4 (ParseIP t))"
  from assms(1,3) show s: "To4 (ParseIP s) \<noteq> []" and t: "To4 (ParseIP t) \<noteq> []"
    by (auto simp: GenerateIPsWithStep_def Let_def split: if_splits)
  have ua: "unat ?a = v4_value s" and ud: "unat ?d = v4_value t"
    using s t by (simp_all add: unat_beUint32_To4)
  from assms(1,3) s t have nz: "?d \<noteq> 0" and so: "\<not> ?a + ?d < ?a"
    and co: "\<not> (ucast ?a :: 64 word) + ucast ?d * word_of_int (k - 1) > 0xffffffff"
    by (simp_all add: GenerateIPsWithStep_def Let_def split: if_splits del: of_int_diff)
  from nz ud show "v4_value t \<noteq> 0" by (metis unat_eq_zero)
  from so show "v4_value s + v4_value t < 2 ^ 32" by (simp add: step_overflow_iff ua ud)
  from co show "v4_value s + v4_value t * nat (k - 1) < 2 ^ 32"
    by (simp add: word_less_nat_alt count_check_unat [OF assms(1,2)] ua ud del: of_int_diff)
qed

text \<open>C40: \<^verbatim>\<open>GenerateIPsWithStep\<close> for up to \<open>2 ^ 32\<close> addresses: it succeeds exactly when both texts
  are IPv4 addresses, the step is not zero and neither the first nor the last increment leaves the
  IPv4 space; then entry \<open>i\<close> is the text of \<open>start + i * step\<close>, parses back to that address, and no
  entry occurs twice.\<close>

theorem GenerateIPsWithStep_correct:
  assumes "0 < k" and "k \<le> 2 ^ 32"
  shows "(case GenerateIPsWithStep s k t of
      Inl e \<Rightarrow> To4 (ParseIP s) = [] \<or> To4 (ParseIP t) = [] \<or> v4_value t = 0
        \<or> v4_value s + v4_value t \<ge> 2 ^ 32 \<or> v4_value s + v4_value t * nat (k - 1) \<ge> 2 ^ 32
    | Inr ips \<Rightarrow> To4 (ParseIP s) \<noteq> [] \<and> To4 (ParseIP t) \<noteq> [] \<and> v4_value t \<noteq> 0
        \<and> v4_value s + v4_value t < 2 ^ 32 \<and> v4_value s + v4_value t * nat (k - 1) < 2 ^ 32
        \<and> length ips = nat k \<and> distinct ips
        \<and> list_all (\<lambda>i. v4_value s + v4_value t * i < 2 ^ 32
              \<and> To4 (ParseIP (ips ! i)) = nat_to_be 4 (v4_value s + v4_value t * i)) [0..<nat k])"
proof (cases "GenerateIPsWithStep s k t")
  case (Inl e)
  then show ?thesis using GenerateIPsWithStep_eq [OF assms, of s t] by (auto simp flip: not_less)
next
  case (Inr ips)
  note ok = GenerateIPsWithStep_Inr [OF assms Inr]
  have ips: "ips = map (\<lambda>i. ip_string (nat_to_be 4 (v4_value s + v4_value t * i))) [0..<nat k]"
    using GenerateIPsWithStep_eq [OF assms ok] Inr by simp
  have d: "distinct ips"
    unfolding ips by (rule ipv4_text.distinct_sequence) (use ok assms in \<open>auto simp: nat_diff_distrib\<close>)
  have small: "v4_value s + v4_value t * i < 2 ^ 32" if "i < nat k" for i
  proof -
    have "v4_value t * i \<le> v4_value t * nat (k - 1)" using that by (intro mult_le_mono) auto
    with ok(5) show ?thesis by linarith
  qed
  with d ok show ?thesis
    by (simp add: Inr ips list_all_iff ip_string_4 To4_ParseIP_ipv4_string)
qed

theorem GenerateIPsWithStep_correct_witness:
  "(0::int) < 3 \<and> (3::int) \<le> 2 ^ 32 \<and>
   (case GenerateIPsWithStep ''10.0.0.1'' 3 ''0.0.1.0'' of
      Inl e \<Rightarrow> False
    | Inr ips \<Rightarrow> length ips = 3 \<and> distinct ips)"
proof -
  have v: "v4_value ''10.0.0.1'' = 167772161" "v4_value ''0.0.1.0'' = 256"
    "To4 (ParseIP ''10.0.0.1'') \<noteq> []" "To4 (ParseIP ''0.0.1.0'') \<noteq> []"
    by (simp_all add: v4_value_def ip_eval)
  show ?thesis
    using GenerateIPsWithStep_correct [of 3 "''10.0.0.1''" "''0.0.1.0''"] v
    by (simp split: sum.splits)
qed

text \<open>The \<^verbatim>\<open>uint64\<close> product of the count check wraps: with step 128.0.0.0 and \<open>2 ^ 33 + 1\<close>
  addresses the last address is \<open>2 ^ 64\<close>, far outside IPv4, and yet the call does not report an
  overflow.\<close>

theorem GenerateIPsWithStep_count_check_wraps:
  "v4_value ''0.0.0.0'' + v4_value ''128.0.0.0'' * 8589934592 = 2 ^ 64
   \<and> (\<exists>ips. GenerateIPsWithStep ''0.0.0.0'' 8589934593 ''128.0.0.0'' = Inr ips)"
  by (simp add: v4_value_def GenerateIPsWithStep_def ip_eval)


section \<open>Incrementing an address\<close>

definition le_to_nat :: "bytes \<Rightarrow> nat" where
  "le_to_nat bs = be_to_nat (rev bs)"

lemma le_to_nat_simps [simp]:
  "le_to_nat [] = 0"
  "le_to_nat (b # bs) = unat b + 256 * le_to_nat bs"
  by (simp_all add: le_to_nat_def)

lemma unat_byte_inc:
  "(b :: byte) + 1 > 0 \<Longrightarrow> unat (b + 1) = unat b + 1"
  "\<not> (b :: byte) + 1 > 0 \<Longrightarrow> unat (b + 1) = 0 \<and> unat b = 255"
proof -
  have b: "unat b < 256" by simp
  have u: "unat (b + 1) = (unat b + 1) mod 256" by (simp add: unat_word_ariths)
  have m: "(unat b + 1) mod 256 = unat b + 1" if "unat b \<noteq> 255"
    using that b by (intro mod_less) linarith
  show "b + 1 > 0 \<Longrightarrow> unat (b + 1) = unat b + 1"
    using u m by (cases "unat b = 255") (auto simp: word_neq_0_conv [symmetric] unat_eq_zero [symmetric])
  show "\<not> b + 1 > 0 \<Longrightarrow> unat (b + 1) = 0 \<and> unat b = 255"
    using u m by (cases "unat b = 255") (auto simp: word_neq_0_conv [symmetric] unat_eq_zero [symmetric])
qed

lemma length_inc_le [simp]: "length (inc_le bs) = length bs"
  by (induction bs) auto

lemma le_to_nat_less: "le_to_nat bs < 256 ^ length bs"
  using be_to_nat_less [of "rev bs"] by (simp add: le_to_nat_def)

lemma le_to_nat_inc_le: "le_to_nat (inc_le bs) = (le_to_nat bs + 1) mod 256 ^ length bs"
proof (induction bs)
  case Nil
  then show ?case by simp
next
  case (Cons b bs)
  have bs: "le_to_nat bs < 256 ^ length bs" by (rule le_to_nat_less)
  show ?case
  proof (cases "b + 1 > 0")
    case True
    have "unat (b + 1) < 256" by simp
    with unat_byte_inc(1) [OF True] bs have "unat b + 256 * le_to_nat bs + 1 < 256 ^ length (b # bs)"
      by simp
    with True unat_byte_inc(1) [OF True] show ?thesis by simp
  next
    case False
    from unat_byte_inc(2) [OF False]
    have "unat b + 256 * le_to_nat bs + 1 = 256 * (le_to_nat bs + 1)" by simp
    with False unat_byte_inc(2) [OF False] Cons show ?thesis
      by (simp add: mult_mod_right)
  qed
qed

lemma be_to_nat_nextIP: "be_to_nat (nextIP ip) = (be_to_nat ip + 1) mod 256 ^ length ip"
  using le_to_nat_inc_le [of "rev ip"] by (simp add: nextIP_def le_to_nat_def)

lemma length_nextIP [simp]: "length (nextIP ip) = length ip"
  by (simp add: nextIP_def)

text \<open>The byte-wise carry loop of \<^verbatim>\<open>NextIPMultiSteps\<close> is addition: the result has the same
  length and its big-endian value is the input's plus \<open>count\<close>, modulo the size of the address
  space (a negative count adds nothing).\<close>

theorem NextIPMultiSteps_adds:
  "length (NextIPMultiSteps ip k) = length ip
   \<and> be_to_nat (NextIPMultiSteps ip k) = (be_to_nat ip + nat k) mod 256 ^ length ip"
proof -
  have "length ((nextIP ^^ n) ip) = length ip
    \<and> be_to_nat ((nextIP ^^ n) ip) = (be_to_nat ip + n) mod 256 ^ length ip" for n
  proof (induction n)
    case 0
    then show ?case using be_to_nat_less [of ip] by simp
  next
    case (Suc n)
    then show ?case by (simp add: be_to_nat_nextIP mod_Suc_eq)
  qed
  then show ?thesis by (simp add: NextIPMultiSteps_def)
qed


section \<open>MAC sequences\<close>

lemma GenerateMACs_eq:
  assumes "0 < k" and "ParseMAC s = Some b" and "length b = 6" and "ParseMAC t = Some d" and "length d = 6"
  shows "GenerateMACs s k t =
      (if be_to_nat b + be_to_nat d * nat (k - 1) < 2 ^ 48
       then map (\<lambda>i. mac_string (nat_to_be 6 (be_to_nat b + be_to_nat d * i))) [0..<nat k] else [])"
  using assms by (auto simp: GenerateMACs_def Let_def)

text \<open>\<^verbatim>\<open>GenerateMACs\<close> on two six-byte addresses and a positive count: the result is empty
  exactly when the last address would exceed 48 bits; otherwise entry \<open>i\<close> is the canonical text of
  \<open>start + i * step\<close>, parses back to it, and the entries are distinct when the step is not zero.\<close>

theorem GenerateMACs_correct:
  assumes "0 < k" and "ParseMAC s = Some b" and "length b = 6" and "ParseMAC t = Some d" and "length d = 6"
  shows "GenerateMACs s k t =
      (if be_to_nat b + be_to_nat d * nat (k - 1) < 2 ^ 48
       then map (\<lambda>i. mac_string (nat_to_be 6 (be_to_nat b + be_to_nat d * i))) [0..<nat k] else [])
    \<and> list_all (\<lambda>m. \<exists>i<nat k. ParseMAC m = Some (nat_to_be 6 (be_to_nat b + be_to_nat d * i))) (GenerateMACs s k t)
    \<and> (be_to_nat d \<noteq> 0 \<longrightarrow> distinct (GenerateMACs s k t))"
proof -
  note eq = GenerateMACs_eq [OF assms]
  have "list_all (\<lambda>m. \<exists>i<nat k. ParseMAC m = Some (nat_to_be 6 (be_to_nat b + be_to_nat d * i))) (GenerateMACs s k t)"
    unfolding eq by (auto simp: list_all_iff ParseMAC_mac_string)
  moreover have "distinct (GenerateMACs s k t)" if "be_to_nat d \<noteq> 0"
  proof (cases "be_to_nat b + be_to_nat d * nat (k - 1) < 2 ^ 48")
    case True
    with that have "distinct (map (\<lambda>i. mac_string (nat_to_be 6 (be_to_nat b + be_to_nat d * i))) [0..<nat k])"
      using assms(1) by (intro mac_text.distinct_sequence) (auto simp: nat_diff_distrib)
    with True show ?thesis unfolding eq by simp
  next
    case False
    then show ?thesis unfolding eq by simp
  qed
  ultimately show ?thesis using eq by blast
qed

lemmas mac_eval = ParseMAC_def xtoi2_def hex_val_def be_to_nat_def mac_string_def hex2_def hex_digit_def
  nat_to_be_numeral

lemma ParseMAC_ex1: "ParseMAC ''02:00:00:00:00:fe'' = Some [2, 0, 0, 0, 0, 254]"
  by code_simp

lemma ParseMAC_ex2: "ParseMAC ''00:00:00:00:00:01'' = Some [0, 0, 0, 0, 0, 1]"
  by code_simp

theorem GenerateMACs_correct_witness:
  "GenerateMACs ''02:00:00:00:00:fe'' 3 ''00:00:00:00:00:01'' =
    [''02:00:00:00:00:fe'', ''02:00:00:00:00:ff'', ''02:00:00:00:01:00'']"
proof -
  have v: "be_to_nat [2, 0, 0, 0, 0, 254] = 2199023255806" "be_to_nat [0, 0, 0, 0, 0, 1] = 1"
    by (simp_all add: be_to_nat_def)
  have n: "[0..<3] = [0, 1, 2 :: nat]" by code_simp
  have "GenerateMACs ''02:00:00:00:00:fe'' 3 ''00:00:00:00:00:01'' =
      map (\<lambda>i. mac_string (nat_to_be 6 (2199023255806 + 1 * i))) [0, 1, 2]"
    using GenerateMACs_correct [OF _ ParseMAC_ex1 _ ParseMAC_ex2, of 3, THEN conjunct1]
    by (simp add: v n)
  also have "\<dots> = [''02:00:00:00:00:fe'', ''02:00:00:00:00:ff'', ''02:00:00:00:01:00'']"
    by (simp add: mac_eval)
  finally show ?thesis .
qed

lemma IncrementMAC_start:
  assumes "IncrementMAC s i = Inr m"
  shows "\<exists>b. ParseMAC s = Some b \<and> m = mac_string b"
proof -
  from assms have ne: "GenerateMACs s i ''00:00:00:00:00:01'' \<noteq> []"
    and hd: "m = hd (GenerateMACs s i ''00:00:00:00:00:01'')"
    by (auto simp: IncrementMAC_def split: list.splits)
  from ne obtain b where i: "0 < i" and b: "ParseMAC s = Some b" "length b = 6"
    by (auto simp: GenerateMACs_def split: if_splits option.splits)
  from GenerateMACs_eq [OF i b ParseMAC_ex2] ne
  have "GenerateMACs s i ''00:00:00:00:00:01'' =
      map (\<lambda>j. mac_string (nat_to_be 6 (be_to_nat b + be_to_nat [0, 0, 0, 0, 0, 1] * j))) [0..<nat i]"
    by (auto split: if_splits)
  with hd i have "m = mac_string (nat_to_be 6 (be_to_nat b))"
    by (simp add: hd_map upt_conv_Cons)
  with b show ?thesis using nat_to_be_be_to_nat [of b] by simp
qed

text \<open>\<^verbatim>\<open>IncrementMAC\<close> never increments: whenever it succeeds, for whatever \<open>i\<close>, its result is
  the start address in canonical text, because it returns the first and not the last generated
  entry.\<close>

theorem IncrementMAC_returns_start:
  assumes "IncrementMAC s i = Inr m"
  shows "\<exists>b. ParseMAC s = Some b \<and> m = mac_string b"
  by (rule IncrementMAC_start [OF assms])

theorem IncrementMAC_returns_start_witness:
  "IncrementMAC ''02:00:00:00:00:fe'' 5 = Inr ''02:00:00:00:00:fe''"
proof -
  have "GenerateMACs ''02:00:00:00:00:fe'' 5 ''00:00:00:00:00:01'' \<noteq> []"
    using GenerateMACs_eq [OF _ ParseMAC_ex1 _ ParseMAC_ex2, of 5]
    by (simp add: be_to_nat_def)
  then obtain m where m: "IncrementMAC ''02:00:00:00:00:fe'' 5 = Inr m"
    by (auto simp: IncrementMAC_def neq_Nil_conv)
  from IncrementMAC_returns_start [OF m] have "m = mac_string [2, 0, 0, 0, 0, 254]"
    by (simp add: ParseMAC_ex1)
  with m show ?thesis by (simp add: mac_eval)
qed


section \<open>Consecutive IPv6 addresses and hexadecimal text\<close>

lemma NextIPMultiSteps_16:
  assumes "length ip = 16"
  shows "NextIPMultiSteps ip (int i) = nat_to_be 16 ((be_to_nat ip + i) mod 2 ^ 128)"
proof -
  have step: "length ((nextIP ^^ n) ip) = 16 \<and> be_to_nat ((nextIP ^^ n) ip) = (be_to_nat ip + n) mod 2 ^ 128" for n
  proof (induction n)
    case 0
    then show ?case using be_to_nat_less [of ip] assms by simp
  next
    case (Suc n)
    then show ?case by (simp add: be_to_nat_nextIP mod_Suc_eq)
  qed
  then have l: "length ((nextIP ^^ i) ip) = 16"
    and v: "be_to_nat ((nextIP ^^ i) ip) = (be_to_nat ip + i) mod 2 ^ 128" by blast+
  have "nat_to_be 16 (be_to_nat ((nextIP ^^ i) ip)) = (nextIP ^^ i) ip"
    using nat_to_be_be_to_nat [of "(nextIP ^^ i) ip"] l by simp
  then show ?thesis unfolding v by (simp add: NextIPMultiSteps_def)
qed

text \<open>The two IPv6 enumerations of the package agree: entry \<open>i\<close> of \<^verbatim>\<open>GenerateIPv6s\<close> (big
  integer arithmetic modulo \<open>2 ^ 128\<close>) is the text of \<^verbatim>\<open>NextIPMultiSteps\<close> (byte-wise carry) applied
  \<open>i\<close> times to the base address, and there are exactly \<open>n\<close> entries.\<close>

theorem GenerateIPv6s_is_NextIP:
  assumes "GenerateIPv6s baseIP n = Inr ips"
  shows "ips = map (\<lambda>i. ip_string (NextIPMultiSteps (To16 baseIP) (int i))) [0..<nat n]"
proof -
  from assms have "To16 baseIP \<noteq> []"
    and ips: "ips = map (\<lambda>i. ip_string (nat_to_be 16 ((be_to_nat (To16 baseIP) + i) mod 2 ^ 128))) [0..<nat n]"
    by (auto simp: GenerateIPv6s_def Let_def split: if_splits)
  then show ?thesis
    by (simp add: NextIPMultiSteps_16 length_To16)
qed

theorem GenerateIPv6s_is_NextIP_witness:
  "\<exists>ips. GenerateIPv6s [32, 1, 13, 184, 0, 0, 0, 0, 0, 0, 0, 0, 0, 0, 0, 255] 2 = Inr ips
     \<and> ips = map (\<lambda>i. ip_string (NextIPMultiSteps (To16 [32, 1, 13, 184, 0, 0, 0, 0, 0, 0, 0, 0, 0, 0, 0, 255]) (int i))) [0..<nat 2]"
proof -
  have "To16 [32, 1, 13, 184, 0, 0, 0, 0, 0, 0, 0, 0, 0, 0, 0, 255] \<noteq> []" "To4 [32, 1, 13, 184, 0, 0, 0, 0, 0, 0, 0, 0, 0, 0, 0, 255] = []"
    by (simp_all add: To16_def To4_def v4InV6Prefix_def)
  then obtain ips where ips: "GenerateIPv6s [32, 1, 13, 184, 0, 0, 0, 0, 0, 0, 0, 0, 0, 0, 0, 255] 2 = Inr ips"
    by (simp add: GenerateIPv6s_def Let_def)
  with GenerateIPv6s_is_NextIP [OF ips] show ?thesis by blast
qed

lemma trimSpace_id: "list_all (\<lambda>c. \<not> is_space c) s \<Longrightarrow> trimSpace s = s"
  unfolding trimSpace_def
  by (metis (no_types, lifting) dropWhile_eq_self_iff hd_in_set list_all_iff rev_rev_ident set_rev)

lemma digit_not_space: "is_digit c \<Longrightarrow> \<not> is_space c"
  by (auto simp: is_digit_def is_space_def)

lemma dec_not_space: "list_all (\<lambda>c. \<not> is_space c) (dec n)"
  using dec_digits [of n] digit_not_space by (auto simp: list_all_iff)

lemma ipv4_string_not_space: "length bs = 4 \<Longrightarrow> list_all (\<lambda>c. \<not> is_space c) (ipv4_string bs)"
  by (auto simp: length_4_iff ipv4_string_def dec_not_space) (simp_all add: is_space_def)

lemma upper_hex2_inj: "upper_hex2 a = upper_hex2 b \<Longrightarrow> a = b"
proof -
  have "list_all (\<lambda>m. list_all (\<lambda>n. ascii_upper (hex_digit m) = ascii_upper (hex_digit n) \<longrightarrow> m = n) [0..<16]) [0..<16]"
    by code_simp
  then have inj: "m = n" if "ascii_upper (hex_digit m) = ascii_upper (hex_digit n)" "m < 16" "n < 16" for m n
    using that by (simp add: list_all_iff)
  assume "upper_hex2 a = upper_hex2 b"
  then have "unat a div 16 = unat b div 16" "unat a mod 16 = unat b mod 16"
    by (auto simp: upper_hex2_def hex2_def toUpper_def intro!: inj)
      (use unat_byte_less [of a] unat_byte_less [of b] in linarith)+
  then have "unat a = unat b" by (metis div_mult_mod_eq)
  then show "a = b" by (simp add: word_unat_eq_iff)
qed

text \<open>\<^verbatim>\<open>IPv4ToHex\<close> on the dotted text of any IPv4 address gives its eight hexadecimal digits,
  and different addresses give different digits.\<close>

theorem IPv4ToHex_faithful:
  assumes "length bs = 4" and "length cs = 4"
  shows "IPv4ToHex (ipv4_string bs) = Inr (concat (map upper_hex2 bs))
    \<and> (IPv4ToHex (ipv4_string bs) = IPv4ToHex (ipv4_string cs) \<longrightarrow> bs = cs)"
proof -
  have eq: "IPv4ToHex (ipv4_string ds) = Inr (concat (map upper_hex2 ds))" if "length ds = 4" for ds
  proof -
    have "trimSpace (ipv4_string ds) = ipv4_string ds"
      using that by (intro trimSpace_id ipv4_string_not_space)
    moreover have "To4 (v4InV6Prefix @ ds) = ds" using that by (simp add: To4_def)
    moreover have "ds \<noteq> []" using that by auto
    ultimately show ?thesis
      using that by (auto simp: IPv4ToHex_def ParseIP_ipv4_string length_4_iff)
  qed
  have "bs = cs" if "concat (map upper_hex2 bs) = concat (map upper_hex2 cs)"
  proof -
    have "length (upper_hex2 x) = 2" for x by (simp add: upper_hex2_def toUpper_def hex2_def)
    with that assms show ?thesis
      by (auto simp: length_4_iff append_eq_append_conv dest!: upper_hex2_inj)
  qed
  with assms show ?thesis by (simp add: eq)
qed

theorem IPv4ToHex_faithful_witness: "IPv4ToHex ''192.168.0.1'' = Inr ''C0A80001''"
proof -
  have "ipv4_string [192, 168, 0, 1] = ''192.168.0.1''"
    by (simp add: ipv4_string_def dec.simps digit_char_def)
  moreover have "concat (map upper_hex2 [192, 168, 0, 1]) = ''C0A80001''"
    by code_simp
  ultimately show ?thesis using IPv4ToHex_faithful [of "[192, 168, 0, 1]" "[192, 168, 0, 1]"] by simp
qed

end
