(* ===== verification/Gnmi_Schema.thy ===== *)
theory Gnmi_Schema
  imports FP_Prelude
begin

text \<open>
  \<^verbatim>\<open>internal/telemetry/schema/schema.go\<close>, and the shape of the gNMI messages it reads.

  The records mirror the fields of the gNMI protobuf messages the code touches. A missing message
  field is \<open>None\<close> and its generated getters return the zero value, so \<open>getElem None = []\<close>. The
  key map of a path element is the list of its entries in the order a \<^verbatim>\<open>range\<close> loop meets them.
\<close>

record path_elem =
  el_name :: string
  el_key :: "(string \<times> string) list"

record gpath =
  p_origin :: string
  p_target :: string
  p_elem :: "path_elem list"

datatype typed_value = UintVal "64 word" | StringVal string | OtherVal

record gupdate =
  u_path :: gpath
  u_val :: typed_value

record notification =
  n_prefix :: "gpath option"
  n_update :: "gupdate list"
  n_delete :: "gpath list"
  n_atomic :: bool

datatype subscribe_response =
    SyncResponse bool
  | UpdateResponse notification
  | NoResponse

fun getElem :: "gpath option \<Rightarrow> path_elem list" where
  "getElem None = []"
| "getElem (Some p) = p_elem p"

fun getUintVal :: "typed_value \<Rightarrow> 64 word" where
  "getUintVal (UintVal n) = n"
| "getUintVal v = 0"

fun getStringVal :: "typed_value \<Rightarrow> string" where
  "getStringVal (StringVal s) = s"
| "getStringVal v = []"

fun getUpdate :: "subscribe_response \<Rightarrow> notification option" where
  "getUpdate (UpdateResponse n) = Some n"
| "getUpdate r = None"

fun getSyncResponse :: "subscribe_response \<Rightarrow> bool" where
  "getSyncResponse (SyncResponse b) = b"
| "getSyncResponse r = False"

record point =
  Path :: "path_elem list"
  Val :: typed_value

text \<open>The loop appends one point per update, its path the prefix elements then the update's.\<close>

definition NotificationToPoints :: "notification option \<Rightarrow> point list" where
  "NotificationToPoints n =
     (case n of
        None \<Rightarrow> []
      | Some n \<Rightarrow>
          map (\<lambda>u. \<lparr>Path = getElem (n_prefix n) @ p_elem (u_path u), Val = u_val u\<rparr>) (n_update n))"

lemma NotificationToPoints_Some:
  "NotificationToPoints (Some n) =
     map (\<lambda>u. \<lparr>Path = getElem (n_prefix n) @ p_elem (u_path u), Val = u_val u\<rparr>) (n_update n)"
  by (simp add: NotificationToPoints_def)

end
