(* ===== verification/Aft_Data.thy ===== *)
theory Aft_Data
  imports Gnmi_Schema
begin

text \<open>
  \<^verbatim>\<open>internal/telemetry/aftcache/aft_cache.go\<close>, the AFT data model: \<^verbatim>\<open>AFTData\<close>,
  \<^verbatim>\<open>FilterByPrefixes\<close>, \<^verbatim>\<open>isCNHG\<close>, \<^verbatim>\<open>resolveRoute\<close> and \<^verbatim>\<open>resolveRouteCBF\<close>.

  The three Go maps of \<^verbatim>\<open>AFTData\<close> are HOL maps; identifiers are \<open>64 word\<close>, DSCP values \<open>8 word\<close>.
  The \<^verbatim>\<open>for\<close> loop of \<^verbatim>\<open>resolveRouteCBF\<close> has no bound of its own, so it is a
  \<^theory_text>\<open>partial_function (option)\<close> whose \<open>None\<close> means "does not return"; \<open>resolve_loop_returns\<close>
  shows that it returns on every finite table because of the visited set.

  The specification of a route is the inductive relation \<open>aft_route\<close>: follow the single conditional
  that applies until a group without conditionals is reached. The theorems: resolution terminates,
  computes exactly \<open>aft_route\<close>, and filtering a table by prefixes keeps the resolution of those
  prefixes.
\<close>

record aftNextHop =
  IntfName :: string
  IP :: string
  LSPName :: string

record aftNextHopGroupConditional =
  DSCP :: "8 word list"
  NHGID :: "64 word"

record aftNextHopGroup =
  NHIDs :: "64 word list"
  NHWeights :: "64 word \<rightharpoonup> 64 word"
  Conditionals :: "aftNextHopGroupConditional list"

record AFTData =
  Prefixes :: "string \<rightharpoonup> 64 word"
  NextHopGroups :: "64 word \<rightharpoonup> aftNextHopGroup"
  NextHops :: "64 word \<rightharpoonup> aftNextHop"

definition newAFT :: AFTData where
  "newAFT = \<lparr>Prefixes = Map.empty, NextHopGroups = Map.empty, NextHops = Map.empty\<rparr>"

text \<open>The errors of the package; \<open>isErrNotExist\<close> and \<open>isErrUnsupported\<close> are \<^verbatim>\<open>errors.Is\<close> against
  the two exported values, true for the messages that wrap them with \<^verbatim>\<open>%w\<close>.\<close>

datatype aft_error =
    MissingPrefix string
  | MissingNHG string "64 word"
  | MissingNH string "64 word"
  | ErrorReadingNHG string "64 word"
  | CircularReference string "64 word"
  | MultipleConditionals string
  | NotEnoughElements
  | KeyMissing string
  | BadUint string
  | BadPath
  | ValuesMismatch
  | MissingWeights
  | NoNextHopFields
  | ConditionalNHG
  | MissingUpdates
  | InvalidPrefixPath
  | PrefixMismatch
  | MissingRequiredFields
  | IndexPanic
  | NotANotification
  | CacheError string
  | NHCheckFails
  | NotificationTimeout
  | NoReturn

fun isErrNotExist :: "aft_error \<Rightarrow> bool" where
  "isErrNotExist (MissingPrefix p) = True"
| "isErrNotExist (MissingNHG p n) = True"
| "isErrNotExist (MissingNH p n) = True"
| "isErrNotExist NoNextHopFields = True"
| "isErrNotExist e = False"

fun isErrUnsupported :: "aft_error \<Rightarrow> bool" where
  "isErrUnsupported ConditionalNHG = True"
| "isErrUnsupported e = False"


section \<open>Filtering by prefixes\<close>

definition filterPrefixes_step ::
  "AFTData \<Rightarrow> string \<Rightarrow> (string \<rightharpoonup> 64 word) \<times> 64 word list \<Rightarrow> (string \<rightharpoonup> 64 word) \<times> 64 word list" where
  "filterPrefixes_step a prefix s =
     (case Prefixes a prefix of
        Some nhgID \<Rightarrow> ((fst s)(prefix \<mapsto> nhgID), List.insert nhgID (snd s))
      | None \<Rightarrow> s)"

definition filterNHGs_step ::
  "AFTData \<Rightarrow> 64 word \<Rightarrow> (64 word \<rightharpoonup> aftNextHopGroup) \<times> 64 word list \<Rightarrow> (64 word \<rightharpoonup> aftNextHopGroup) \<times> 64 word list" where
  "filterNHGs_step a nhgID s =
     (case NextHopGroups a nhgID of
        Some nhg \<Rightarrow> ((fst s)(nhgID \<mapsto> nhg), fold List.insert (NHIDs nhg) (snd s))
      | None \<Rightarrow> s)"

definition filterNHs_step ::
  "AFTData \<Rightarrow> 64 word \<Rightarrow> (64 word \<rightharpoonup> aftNextHop) \<Rightarrow> (64 word \<rightharpoonup> aftNextHop)" where
  "filterNHs_step a nhID m =
     (case NextHops a nhID of Some nh \<Rightarrow> m(nhID \<mapsto> nh) | None \<Rightarrow> m)"

text \<open>The maps \<^verbatim>\<open>usedNHGIDs\<close> and \<^verbatim>\<open>usedNHIDs\<close> are sets of keys, here duplicate-free lists; \<open>ord\<close> is
  the order in which the runtime enumerates such a set.\<close>

definition FilterByPrefixes ::
  "(64 word list \<Rightarrow> 64 word list) \<Rightarrow> AFTData \<Rightarrow> string list \<Rightarrow> AFTData" where
  "FilterByPrefixes ord a wantPrefixes =
     (let (filteredPrefixes, usedNHGIDs) = fold (filterPrefixes_step a) wantPrefixes (Map.empty, []);
          (filteredNHGs, usedNHIDs) = fold (filterNHGs_step a) (ord usedNHGIDs) (Map.empty, []);
          filteredNHs = fold (filterNHs_step a) (ord usedNHIDs) Map.empty
      in \<lparr>Prefixes = filteredPrefixes, NextHopGroups = filteredNHGs, NextHops = filteredNHs\<rparr>)"


section \<open>Resolving routes\<close>

text \<open>\<^verbatim>\<open>isCNHG\<close>; the caller has checked that the group exists. \<open>None\<close> is its error.\<close>

definition isCNHG :: "aftNextHopGroup \<Rightarrow> bool option" where
  "isCNHG nhg =
     (if NHIDs nhg \<noteq> [] \<and> Conditionals nhg \<noteq> [] then None
      else if Conditionals nhg \<noteq> [] then Some True
      else Some False)"

text \<open>The two nested loops over the conditionals and their DSCP values. The state is the target of
  the conditional matched so far; a second match is the error branch, \<open>None\<close>.\<close>

fun match_conditionals ::
  "8 word \<Rightarrow> aftNextHopGroupConditional list \<Rightarrow> 64 word option \<Rightarrow> 64 word option option" where
  "match_conditionals dscp [] matched = Some matched"
| "match_conditionals dscp (c # cs) matched =
     (if dscp \<in> set (DSCP c) then
        (if matched \<noteq> None then None else match_conditionals dscp cs (Some (NHGID c)))
      else match_conditionals dscp cs matched)"

text \<open>The final loop that collects the next hops of the leaf group.\<close>

fun collect_nhs :: "AFTData \<Rightarrow> string \<Rightarrow> 64 word list \<Rightarrow> (aft_error, aftNextHop list) res" where
  "collect_nhs a prefix [] = Inr []"
| "collect_nhs a prefix (nhID # ids) =
     (case NextHops a nhID of
        None \<Rightarrow> Inl (MissingNH prefix nhID)
      | Some nh \<Rightarrow> bind_res (collect_nhs a prefix ids) (\<lambda>nhs. Inr (nh # nhs)))"

partial_function (option) resolve_loop ::
  "AFTData \<Rightarrow> string \<Rightarrow> 8 word \<Rightarrow> 64 word \<Rightarrow> 64 word set \<Rightarrow> (aft_error, aftNextHop list) res option" where
  "resolve_loop a prefix dscp nhgID visited =
     (case NextHopGroups a nhgID of
        None \<Rightarrow> Some (Inl (MissingNHG prefix nhgID))
      | Some nhg \<Rightarrow>
          (case isCNHG nhg of
             None \<Rightarrow> Some (Inl (ErrorReadingNHG prefix nhgID))
           | Some cond \<Rightarrow>
               (if \<not> cond then Some (collect_nhs a prefix (NHIDs nhg))
                else if nhgID \<in> visited then Some (Inl (CircularReference prefix nhgID))
                else case match_conditionals dscp (Conditionals nhg) None of
                  None \<Rightarrow> Some (Inl (MultipleConditionals prefix))
                | Some None \<Rightarrow> Some (Inr [])
                | Some (Some nhgID') \<Rightarrow> resolve_loop a prefix dscp nhgID' (insert nhgID visited))))"

definition resolveRouteCBF ::
  "AFTData \<Rightarrow> string \<Rightarrow> 8 word \<Rightarrow> (aft_error, aftNextHop list) res option" where
  "resolveRouteCBF a prefix dscp =
     (case Prefixes a prefix of
        None \<Rightarrow> Some (Inl (MissingPrefix prefix))
      | Some nhgID \<Rightarrow> resolve_loop a prefix dscp nhgID {})"

definition resolveRoute :: "AFTData \<Rightarrow> string \<Rightarrow> (aft_error, aftNextHop list) res option" where
  "resolveRoute a prefix = resolveRouteCBF a prefix 0"


section \<open>Resolution terminates\<close>

lemma resolve_loop_returns_aux:
  assumes "finite (dom (NextHopGroups a))" and "card (dom (NextHopGroups a) - visited) \<le> n"
  shows "\<exists>r. resolve_loop a prefix dscp nhgID visited = Some r"
  using assms(2)
proof (induction n arbitrary: nhgID visited)
  case 0
  then have "dom (NextHopGroups a) - visited = {}" using assms(1) by simp
  then have "NextHopGroups a nhgID \<noteq> None \<Longrightarrow> nhgID \<in> visited" by blast
  then show ?case
    by (subst resolve_loop.simps) (auto split: option.splits)
next
  case (Suc n)
  show ?case
  proof (cases "nhgID \<in> visited \<or> nhgID \<notin> dom (NextHopGroups a)")
    case True
    then show ?thesis
      by (subst resolve_loop.simps) (auto split: option.splits)
  next
    case False
    then have "card (dom (NextHopGroups a) - insert nhgID visited) < card (dom (NextHopGroups a) - visited)"
      using assms(1) by (intro psubset_card_mono) auto
    with Suc.prems have "card (dom (NextHopGroups a) - insert nhgID visited) \<le> n" by linarith
    then have "\<exists>r. resolve_loop a prefix dscp g (insert nhgID visited) = Some r" for g
      by (rule Suc.IH)
    then show ?thesis
      by (subst resolve_loop.simps) (auto split: option.splits)
  qed
qed

lemma resolve_loop_returns:
  "finite (dom (NextHopGroups a)) \<Longrightarrow> \<exists>r. resolve_loop a prefix dscp nhgID visited = Some r"
  using resolve_loop_returns_aux by blast

text \<open>C3: Route resolution always returns: on a table with finitely many next hop groups, whatever
  references they hold (self references and cycles of conditional groups included), \<^verbatim>\<open>resolveRouteCBF\<close>
  ends with a list of next hops or an error.\<close>

theorem resolveRouteCBF_terminates:
  assumes "finite (dom (NextHopGroups a))"
  shows "\<exists>r. resolveRouteCBF a prefix dscp = Some r"
  using resolve_loop_returns [OF assms] by (simp add: resolveRouteCBF_def split: option.splits)


section \<open>Resolution computes the route\<close>

text \<open>The targets of the conditionals that list the DSCP value.\<close>

definition applicable :: "8 word \<Rightarrow> aftNextHopGroup \<Rightarrow> 64 word list" where
  "applicable dscp nhg = map NHGID (filter (\<lambda>c. dscp \<in> set (DSCP c)) (Conditionals nhg))"

lemma match_conditionals_iff:
  "match_conditionals dscp cs m =
     (case (m, map NHGID (filter (\<lambda>c. dscp \<in> set (DSCP c)) cs)) of
        (m, []) \<Rightarrow> Some m
      | (None, [g]) \<Rightarrow> Some (Some g)
      | _ \<Rightarrow> None)"
  by (induction cs arbitrary: m) (auto split: list.splits option.splits)

lemma match_conditionals_None:
  "match_conditionals dscp (Conditionals nhg) None =
     (case applicable dscp nhg of [] \<Rightarrow> Some None | [g] \<Rightarrow> Some (Some g) | _ \<Rightarrow> None)"
  unfolding applicable_def by (auto simp: match_conditionals_iff split: list.splits)

lemma collect_nhs_Inr:
  "collect_nhs a p ids = Inr nhs \<longleftrightarrow> map (NextHops a) ids = map Some nhs"
proof (induction ids arbitrary: nhs)
  case Nil
  then show ?case by auto
next
  case (Cons i ids)
  then show ?case by (cases nhs) (auto simp: bind_res_Inr_iff split: option.splits)
qed

text \<open>A route of \<open>n\<close> conditional hops from group \<open>g\<close>.\<close>

inductive aft_route :: "AFTData \<Rightarrow> 8 word \<Rightarrow> nat \<Rightarrow> 64 word \<Rightarrow> aftNextHop list \<Rightarrow> bool"
  for a dscp where
  leaf: "NextHopGroups a g = Some nhg \<Longrightarrow> Conditionals nhg = [] \<Longrightarrow>
    map (NextHops a) (NHIDs nhg) = map Some nhs \<Longrightarrow> aft_route a dscp 0 g nhs"
| no_match: "NextHopGroups a g = Some nhg \<Longrightarrow> Conditionals nhg \<noteq> [] \<Longrightarrow> NHIDs nhg = [] \<Longrightarrow>
    applicable dscp nhg = [] \<Longrightarrow> aft_route a dscp 0 g []"
| hop: "NextHopGroups a g = Some nhg \<Longrightarrow> Conditionals nhg \<noteq> [] \<Longrightarrow> NHIDs nhg = [] \<Longrightarrow>
    applicable dscp nhg = [g'] \<Longrightarrow> aft_route a dscp n g' nhs \<Longrightarrow> aft_route a dscp (Suc n) g nhs"

inductive_cases aft_routeE: "aft_route a dscp n g nhs"

lemma map_Some_inj: "map Some xs = map Some ys \<Longrightarrow> xs = ys"
  by (metis inj_Some map_injective)

lemma aft_route_unique:
  "aft_route a dscp n g nhs \<Longrightarrow> aft_route a dscp m g nhs' \<Longrightarrow> n = m \<and> nhs = nhs'"
proof (induction arbitrary: m nhs' rule: aft_route.induct)
  case (leaf g nhg nhs)
  from leaf.prems leaf.hyps show ?case
    by (cases rule: aft_route.cases) (auto dest: map_Some_inj)
next
  case (no_match g nhg)
  from no_match.prems no_match.hyps show ?case
    by (cases rule: aft_route.cases) auto
next
  case (hop g nhg g' n nhs)
  from hop.prems hop.hyps(1-4) obtain m' where "m = Suc m'" "aft_route a dscp m' g' nhs'"
    by (cases rule: aft_route.cases) auto
  with hop.IH show ?case by blast
qed

lemma resolve_loop_route:
  "aft_route a dscp n g nhs \<Longrightarrow>
   (\<And>v. v \<in> visited \<Longrightarrow> \<exists>m nhs'. n < m \<and> aft_route a dscp m v nhs') \<Longrightarrow>
   resolve_loop a p dscp g visited = Some (Inr nhs)"
proof (induction arbitrary: visited rule: aft_route.induct)
  case (leaf g nhg nhs)
  then show ?case
    by (subst resolve_loop.simps) (simp add: isCNHG_def collect_nhs_Inr)
next
  case (no_match g nhg)
  have "aft_route a dscp 0 g []" using no_match.hyps by (rule aft_route.no_match)
  then have "g \<notin> visited" using no_match.prems aft_route_unique by blast
  then show ?case
    by (subst resolve_loop.simps) (simp add: isCNHG_def no_match match_conditionals_None)
next
  case (hop g nhg g' n nhs)
  have r: "aft_route a dscp (Suc n) g nhs" using hop.hyps by (rule aft_route.hop)
  then have "g \<notin> visited" using hop.prems aft_route_unique by blast
  moreover have "resolve_loop a p dscp g' (insert g visited) = Some (Inr nhs)"
  proof (rule hop.IH)
    fix v
    assume "v \<in> insert g visited"
    then consider "v = g" | "v \<in> visited" by blast
    then show "\<exists>m nhs'. n < m \<and> aft_route a dscp m v nhs'"
    proof cases
      case 1
      with r show ?thesis using lessI by blast
    next
      case 2
      from hop.prems [OF this] show ?thesis by (blast intro: Suc_lessD)
    qed
  qed
  ultimately show ?case
    by (subst resolve_loop.simps) (simp add: isCNHG_def hop match_conditionals_None)
qed

lemma resolve_loop_Inr:
  assumes "resolve_loop a p dscp g visited = Some r"
  shows "\<forall>nhs. r = Inr nhs \<longrightarrow> (\<exists>n. aft_route a dscp n g nhs)"
proof (rule resolve_loop.raw_induct
    [where P = "\<lambda>a p dscp g vis r. \<forall>nhs. r = Inr nhs \<longrightarrow> (\<exists>n. aft_route a dscp n g nhs)", OF _ assms])
  fix f :: "AFTData \<Rightarrow> string \<Rightarrow> 8 word \<Rightarrow> 64 word \<Rightarrow> 64 word set \<Rightarrow> (aft_error, aftNextHop list) res option"
    and a p dscp g vis and r :: "(aft_error, aftNextHop list) res"
  assume IH: "\<And>a p dscp g vis r. f a p dscp g vis = Some r \<Longrightarrow>
      \<forall>nhs. r = Inr nhs \<longrightarrow> (\<exists>n. aft_route a dscp n g nhs)"
  assume eq: "(case NextHopGroups a g of
        None \<Rightarrow> Some (Inl (MissingNHG p g))
      | Some nhg \<Rightarrow>
          (case isCNHG nhg of
             None \<Rightarrow> Some (Inl (ErrorReadingNHG p g))
           | Some cond \<Rightarrow>
               (if \<not> cond then Some (collect_nhs a p (NHIDs nhg))
                else if g \<in> vis then Some (Inl (CircularReference p g))
                else case match_conditionals dscp (Conditionals nhg) None of
                  None \<Rightarrow> Some (Inl (MultipleConditionals p))
                | Some None \<Rightarrow> Some (Inr [])
                | Some (Some g') \<Rightarrow> f a p dscp g' (insert g vis)))) = Some r"
  show "\<forall>nhs. r = Inr nhs \<longrightarrow> (\<exists>n. aft_route a dscp n g nhs)"
  proof (intro allI impI)
    fix nhs
    assume r: "r = Inr nhs"
    obtain nhg where nhg: "NextHopGroups a g = Some nhg"
      using eq r by (auto split: option.splits)
    show "\<exists>n. aft_route a dscp n g nhs"
    proof (cases "Conditionals nhg = []")
      case True
      with eq r nhg have "map (NextHops a) (NHIDs nhg) = map Some nhs"
        by (auto simp: isCNHG_def collect_nhs_Inr)
      with nhg True show ?thesis by (blast intro: aft_route.leaf)
    next
      case False
      with eq r nhg have nh: "NHIDs nhg = []"
        by (auto simp: isCNHG_def split: if_splits)
      show ?thesis
      proof (cases "applicable dscp nhg")
        case Nil
        with eq r nhg False nh have "nhs = []"
          by (auto simp: isCNHG_def match_conditionals_None split: if_splits)
        with nhg False nh Nil show ?thesis by (blast intro: aft_route.no_match)
      next
        case (Cons g' gs)
        with eq r nhg False nh have "gs = []" and "f a p dscp g' (insert g vis) = Some (Inr nhs)"
          by (auto simp: isCNHG_def match_conditionals_None split: if_splits list.splits)
        moreover from IH [OF this(2)] obtain n where "aft_route a dscp n g' nhs" by blast
        ultimately show ?thesis using nhg False nh Cons by (blast intro: aft_route.hop)
      qed
    qed
  qed
qed

text \<open>C1: \<^verbatim>\<open>resolveRouteCBF\<close> returns the next hops \<open>nhs\<close> exactly when the prefix is in the table
  and \<open>nhs\<close> are the next hops of the group reached from the prefix's group by following, at each
  group with conditionals, the one conditional that lists the DSCP value (no next hops when none
  does): the visited set never rejects a route that exists.\<close>

theorem resolveRouteCBF_correct:
  "resolveRouteCBF a prefix dscp = Some (Inr nhs) \<longleftrightarrow>
     (\<exists>g n. Prefixes a prefix = Some g \<and> aft_route a dscp n g nhs)"
proof
  assume "resolveRouteCBF a prefix dscp = Some (Inr nhs)"
  then obtain g where "Prefixes a prefix = Some g" "resolve_loop a prefix dscp g {} = Some (Inr nhs)"
    by (auto simp: resolveRouteCBF_def split: option.splits)
  then show "\<exists>g n. Prefixes a prefix = Some g \<and> aft_route a dscp n g nhs"
    using resolve_loop_Inr by blast
next
  assume "\<exists>g n. Prefixes a prefix = Some g \<and> aft_route a dscp n g nhs"
  then show "resolveRouteCBF a prefix dscp = Some (Inr nhs)"
    using resolve_loop_route [of a dscp _ _ nhs "{}"] by (auto simp: resolveRouteCBF_def)
qed


section \<open>Filtering keeps the routes of the wanted prefixes\<close>

lemma filterPrefixes_fold:
  "fold (filterPrefixes_step a) ps (m, used) =
    (\<lambda>p. if p \<in> set ps \<and> Prefixes a p \<noteq> None then Prefixes a p else m p,
     fold List.insert (List.map_filter (Prefixes a) ps) used)"
proof (induction ps arbitrary: m used)
  case Nil
  then show ?case by (simp add: List.map_filter_def)
next
  case (Cons p ps)
  then show ?case
    by (auto simp: filterPrefixes_step_def List.map_filter_def fun_eq_iff split: option.splits)
qed

lemma filterNHGs_fold:
  "fst (fold (filterNHGs_step a) gs (m, used)) =
    (\<lambda>g. if g \<in> set gs \<and> NextHopGroups a g \<noteq> None then NextHopGroups a g else m g)"
  "set (snd (fold (filterNHGs_step a) gs (m, used))) =
    set used \<union> (\<Union>nhg \<in> {nhg. \<exists>g \<in> set gs. NextHopGroups a g = Some nhg}. set (NHIDs nhg))"
proof -
  have ins: "set (fold List.insert xs ys) = set xs \<union> set ys" for xs ys :: "64 word list"
    by (induction xs arbitrary: ys) auto
  show "fst (fold (filterNHGs_step a) gs (m, used)) =
    (\<lambda>g. if g \<in> set gs \<and> NextHopGroups a g \<noteq> None then NextHopGroups a g else m g)"
    by (induction gs arbitrary: m used) (auto simp: filterNHGs_step_def fun_eq_iff split: option.splits)
  show "set (snd (fold (filterNHGs_step a) gs (m, used))) =
    set used \<union> (\<Union>nhg \<in> {nhg. \<exists>g \<in> set gs. NextHopGroups a g = Some nhg}. set (NHIDs nhg))"
    by (induction gs arbitrary: m used) (auto simp: filterNHGs_step_def ins split: option.splits)
qed

lemma filterNHs_fold:
  "fold (filterNHs_step a) ids m =
    (\<lambda>i. if i \<in> set ids \<and> NextHops a i \<noteq> None then NextHops a i else m i)"
  by (induction ids arbitrary: m) (auto simp: filterNHs_step_def fun_eq_iff split: option.splits)

text \<open>What the filtered table is: a restriction of each of the three maps.\<close>

definition wanted_nhgs :: "AFTData \<Rightarrow> string set \<Rightarrow> 64 word set" where
  "wanted_nhgs a ps = {g. \<exists>p \<in> ps. Prefixes a p = Some g}"

definition wanted_nhs :: "AFTData \<Rightarrow> 64 word set \<Rightarrow> 64 word set" where
  "wanted_nhs a gs = {i. \<exists>g \<in> gs. \<exists>nhg. NextHopGroups a g = Some nhg \<and> i \<in> set (NHIDs nhg)}"

lemma restrict_map_fun: "(\<lambda>k. if k \<in> S \<and> m k \<noteq> None then m k else Map.empty k) = m |` S"
  by (auto simp: fun_eq_iff restrict_map_def)

lemma set_fold_insert: "set (fold List.insert xs ys) = set xs \<union> set ys"
  by (induction xs arbitrary: ys) auto

lemma FilterByPrefixes_eq:
  assumes "\<And>xs. set (ord xs) = set xs"
  shows "FilterByPrefixes ord a ps =
    \<lparr>Prefixes = Prefixes a |` set ps,
     NextHopGroups = NextHopGroups a |` wanted_nhgs a (set ps),
     NextHops = NextHops a |` wanted_nhs a (wanted_nhgs a (set ps))\<rparr>"
proof -
  let ?used = "fold List.insert (List.map_filter (Prefixes a) ps) []"
  have used: "set (ord ?used) = wanted_nhgs a (set ps)"
    unfolding assms set_fold_insert wanted_nhgs_def by (force simp: List.map_filter_def)
  obtain gm ids where g: "fold (filterNHGs_step a) (ord ?used) (Map.empty, []) = (gm, ids)"
    by (cases "fold (filterNHGs_step a) (ord ?used) (Map.empty, [])")
  have gm: "gm = NextHopGroups a |` wanted_nhgs a (set ps)"
    using filterNHGs_fold(1) [of a "ord ?used" Map.empty "[]"] restrict_map_fun
    by (simp add: g used)
  have "set ids = wanted_nhs a (wanted_nhgs a (set ps))"
    using filterNHGs_fold(2) [of a "ord ?used" Map.empty "[]"]
    by (auto simp: g used wanted_nhs_def)
  then have ids: "set (ord ids) = wanted_nhs a (wanted_nhgs a (set ps))"
    by (simp add: assms)
  show ?thesis
    unfolding FilterByPrefixes_def filterPrefixes_fold
    by (auto simp: g gm filterNHs_fold ids fun_eq_iff restrict_map_def)
qed


definition aft_example :: AFTData where
  "aft_example =
     \<lparr>Prefixes = [''10.0.0.0/8'' \<mapsto> 1, ''2001:db8::/32'' \<mapsto> 2],
      NextHopGroups =
        [1 \<mapsto> \<lparr>NHIDs = [10, 11], NHWeights = [10 \<mapsto> 1, 11 \<mapsto> 1], Conditionals = []\<rparr>,
         2 \<mapsto> \<lparr>NHIDs = [12], NHWeights = [12 \<mapsto> 1], Conditionals = []\<rparr>],
      NextHops =
        [10 \<mapsto> \<lparr>IntfName = ''eth1'', IP = ''192.0.2.1'', LSPName = []\<rparr>,
         11 \<mapsto> \<lparr>IntfName = ''eth2'', IP = ''192.0.2.2'', LSPName = []\<rparr>,
         12 \<mapsto> \<lparr>IntfName = ''eth3'', IP = ''2001:db8::1'', LSPName = []\<rparr>]\<rparr>"


theorem resolveRouteCBF_terminates_witness:
  "finite (dom (NextHopGroups aft_example)) \<and> (\<exists>r. resolveRouteCBF aft_example ''10.0.0.0/8'' 0 = Some r)"
proof -
  have f: "finite (dom (NextHopGroups aft_example))" by (simp add: aft_example_def)
  with resolveRouteCBF_terminates [OF f] show ?thesis by blast
qed

lemma collect_nhs_cong:
  "(\<And>i. i \<in> set ids \<Longrightarrow> NextHops a i = NextHops b i) \<Longrightarrow> collect_nhs a p ids = collect_nhs b p ids"
  by (induction ids) (auto split: option.splits)

lemma resolve_leaf:
  "NextHopGroups a g = Some nhg \<Longrightarrow> Conditionals nhg = [] \<Longrightarrow>
    resolve_loop a p dscp g V = Some (collect_nhs a p (NHIDs nhg))"
  by (subst resolve_loop.simps) (simp add: isCNHG_def)


text \<open>The conditionals of the kept groups lead to kept groups.\<close>

definition keeps_targets :: "AFTData \<Rightarrow> 64 word set \<Rightarrow> bool" where
  "keeps_targets a W \<longleftrightarrow> (\<forall>g\<in>W. \<forall>nhg. NextHopGroups a g = Some nhg \<longrightarrow> NHGID ` set (Conditionals nhg) \<subseteq> W)"

lemma match_conditionals_target:
  "match_conditionals dscp cs m = Some (Some g) \<Longrightarrow> m = Some g \<or> g \<in> NHGID ` set cs"
  by (induction dscp cs m rule: match_conditionals.induct) (auto split: if_splits)

text \<open>The loop takes the same steps in a table restricted to the groups \<open>W\<close>, up to the first group that is dropped.\<close>

lemma restricted_loop:
  assumes b: "NextHopGroups b = NextHopGroups a |` W" "NextHops b = NextHops a |` wanted_nhs a W" and "finite W"
  shows "card (W - V) \<le> n \<Longrightarrow> resolve_loop b p dscp g V = resolve_loop a p dscp g V
      \<or> (\<exists>g'. g' \<notin> W \<and> \<not> (g \<in> W \<and> keeps_targets a W) \<and> resolve_loop b p dscp g V = Some (Inl (MissingNHG p g')))"
proof (induction n arbitrary: g V rule: less_induct)
  case (less n)
  show ?case
  proof (cases "g \<in> W")
    case False
    then have "resolve_loop b p dscp g V = Some (Inl (MissingNHG p g))" by (subst resolve_loop.simps) (simp add: b)
    with False show ?thesis by blast
  next
    case True
    then have g: "NextHopGroups b g = NextHopGroups a g" by (simp add: b)
    show ?thesis
    proof (cases "\<exists>nhg x. NextHopGroups a g = Some nhg \<and> isCNHG nhg = Some True \<and> g \<notin> V \<and> match_conditionals dscp (Conditionals nhg) None = Some (Some x)")
      case step: True
      then obtain nhg x where s: "NextHopGroups a g = Some nhg" "isCNHG nhg = Some True" "g \<notin> V" "match_conditionals dscp (Conditionals nhg) None = Some (Some x)"
        by blast
      have l: "resolve_loop t p dscp g V = resolve_loop t p dscp x (insert g V)" if "NextHopGroups t g = Some nhg" for t
        using s that by (subst resolve_loop.simps) simp
      have "card (W - insert g V) < card (W - V)" using True s(3) assms(3) by (intro psubset_card_mono) auto
      then have "card (W - insert g V) < n" using less.prems by linarith
      note rec = less.IH [OF this order_refl, of x]
      have "x \<in> W" if "keeps_targets a W"
        using that True s(1) match_conditionals_target [OF s(4)] unfolding keeps_targets_def by blast
      then show ?thesis using rec l [OF s(1)] l [of b] g s(1) by auto
    next
      case False
      have "collect_nhs b p (NHIDs nhg) = collect_nhs a p (NHIDs nhg)" if "NextHopGroups a g = Some nhg" for nhg
        by (rule collect_nhs_cong) (use that True in \<open>auto simp: b(2) wanted_nhs_def restrict_map_def\<close>)
      then have "resolve_loop b p dscp g V = resolve_loop a p dscp g V"
        using False g by (subst (1 2) resolve_loop.simps) (auto split: option.split)
      then show ?thesis by simp
    qed
  qed
qed

lemma filter_route:
  assumes "\<And>xs. set (ord xs) = set xs" and "p \<in> set ps"
  shows "resolveRouteCBF (FilterByPrefixes ord a ps) p dscp = resolveRouteCBF a p dscp
    \<or> (\<exists>g. g \<notin> wanted_nhgs a (set ps) \<and> \<not> keeps_targets a (wanted_nhgs a (set ps))
         \<and> resolveRouteCBF (FilterByPrefixes ord a ps) p dscp = Some (Inl (MissingNHG p g)))"
proof (cases "Prefixes a p")
  case None
  then show ?thesis by (simp add: FilterByPrefixes_eq [OF assms(1)] resolveRouteCBF_def restrict_map_def)
next
  case (Some g)
  let ?b = "FilterByPrefixes ord a ps" and ?W = "wanted_nhgs a (set ps)"
  note b = FilterByPrefixes_eq [OF assms(1), of a ps]
  have "?W \<subseteq> (\<lambda>q. the (Prefixes a q)) ` set ps" by (force simp: wanted_nhgs_def)
  then have "finite ?W" by (rule finite_subset) simp
  then have "resolve_loop ?b p dscp g {} = resolve_loop a p dscp g {}
      \<or> (\<exists>g'. g' \<notin> ?W \<and> \<not> (g \<in> ?W \<and> keeps_targets a ?W) \<and> resolve_loop ?b p dscp g {} = Some (Inl (MissingNHG p g')))"
    by (intro restricted_loop) (auto simp: b)
  moreover have "g \<in> ?W" using Some assms(2) by (auto simp: wanted_nhgs_def)
  moreover have "resolveRouteCBF ?b p dscp = resolve_loop ?b p dscp g {}" using Some assms(2) by (simp add: b resolveRouteCBF_def)
  ultimately show ?thesis using Some by (auto simp: resolveRouteCBF_def)
qed

lemma filter_keeps_routes:
  assumes "\<And>xs. set (ord xs) = set xs" and "p \<in> set ps"
    and "\<And>g nhg. NextHopGroups a g = Some nhg \<Longrightarrow> Conditionals nhg = []"
  shows "resolveRoute (FilterByPrefixes ord a ps) p = resolveRoute a p"
proof -
  have "keeps_targets a W" for W using assms(3) by (auto simp: keeps_targets_def)
  with filter_route [OF assms(1,2), of a 0] show ?thesis by (auto simp: resolveRoute_def)
qed

text \<open>C5: A wanted prefix resolves in the filtered table exactly as in the full one, for every DSCP value and errors included, unless the way leads
  through a conditional to a group that no wanted prefix has: the filter drops that group and the result is the error that it is missing. So nothing
  changes when the conditionals of the kept groups lead to kept groups, in particular on a table without conditional groups (the only kind
  \<^verbatim>\<open>ToAFT\<close> builds).\<close>

theorem FilterByPrefixes_keeps_routes:
  assumes "\<And>xs. set (ord xs) = set xs" and "p \<in> set ps"
  shows "(resolveRouteCBF (FilterByPrefixes ord a ps) p dscp = resolveRouteCBF a p dscp
      \<or> (\<exists>g. g \<notin> wanted_nhgs a (set ps) \<and> resolveRouteCBF (FilterByPrefixes ord a ps) p dscp = Some (Inl (MissingNHG p g))))
    \<and> (keeps_targets a (wanted_nhgs a (set ps)) \<longrightarrow> resolveRouteCBF (FilterByPrefixes ord a ps) p dscp = resolveRouteCBF a p dscp)"
  using filter_route [OF assms, of a dscp] by blast

definition cbf_example :: AFTData where
  "cbf_example = aft_example\<lparr>Prefixes := (Prefixes aft_example)(''192.0.2.0/24'' \<mapsto> 3),
     NextHopGroups := (NextHopGroups aft_example)(3 \<mapsto> \<lparr>NHIDs = [], NHWeights = Map.empty, Conditionals = [\<lparr>DSCP = [10], NHGID = 1\<rparr>]\<rparr>)\<rparr>"

text \<open>A conditional group is kept with its target when a prefix of the target is wanted too; without it the route ends in a missing group.\<close>

theorem FilterByPrefixes_keeps_routes_witness:
  "resolveRouteCBF (FilterByPrefixes rev cbf_example [''192.0.2.0/24'', ''10.0.0.0/8'']) ''192.0.2.0/24'' 10 = resolveRouteCBF cbf_example ''192.0.2.0/24'' 10"
proof -
  have "wanted_nhgs cbf_example (set [''192.0.2.0/24'', ''10.0.0.0/8'']) = {1, 3}"
    by (auto simp: wanted_nhgs_def cbf_example_def aft_example_def)
  moreover have "keeps_targets cbf_example {1, 3}" by (auto simp: keeps_targets_def cbf_example_def aft_example_def)
  ultimately show ?thesis
    using FilterByPrefixes_keeps_routes [of rev "''192.0.2.0/24''" "[''192.0.2.0/24'', ''10.0.0.0/8'']" cbf_example 10] by simp
qed

lemma FilterByPrefixes_drops_target:
  "resolveRouteCBF (FilterByPrefixes rev cbf_example [''192.0.2.0/24'']) ''192.0.2.0/24'' 10 = Some (Inl (MissingNHG ''192.0.2.0/24'' 1))"
  "\<exists>nhs. resolveRouteCBF cbf_example ''192.0.2.0/24'' 10 = Some (Inr nhs)"
  by (simp_all add: FilterByPrefixes_eq wanted_nhgs_def resolveRouteCBF_def resolve_loop.simps isCNHG_def cbf_example_def aft_example_def)

end
