(* ===== verification/Aft_Parse.thy ===== *)
theory Aft_Parse
  imports Aft_Data "HOL-Library.AList"
begin

text \<open>
  \<^verbatim>\<open>internal/telemetry/aftcache/aft_cache.go\<close>, from notifications to an AFT: \<^verbatim>\<open>parsePrefix\<close>,
  \<^verbatim>\<open>parseNHG\<close>, \<^verbatim>\<open>parseNH\<close>, \<^verbatim>\<open>subscriptionPaths\<close>, \<^verbatim>\<open>generateCacheTraversalPaths\<close>,
  \<^verbatim>\<open>traverse\<close> and \<^verbatim>\<open>ToAFT\<close>.

  Parameters stand for the libraries: \<open>schemaPath\<close> is \<^verbatim>\<open>ygot.PathToSchemaPath\<close> (\<open>None\<close> its error),
  \<open>toPath\<close> is \<^verbatim>\<open>ygot.StringToStructuredPath\<close>, and \<open>query\<close> is \<^verbatim>\<open>cache.Query\<close>, the values of the
  leaves below a path in the order it visits them (\<open>None\<close> a value that is not a notification).
  Logging is not modelled.

  The theorems: a parsed group has no conditionals, lists no next hop twice and has a weight for
  each; the table \<^verbatim>\<open>ToAFT\<close> returns is well formed, so that route resolution on it ends and filtering
  keeps its routes.
\<close>

definition prefixPathV4 :: string where
  "prefixPathV4 = ''/network-instances/network-instance/afts/ipv4-unicast/ipv4-entry/state/prefix''"
definition prefixNHGPathV4 :: string where
  "prefixNHGPathV4 = ''/network-instances/network-instance/afts/ipv4-unicast/ipv4-entry/state/next-hop-group''"
definition prefixPathV6 :: string where
  "prefixPathV6 = ''/network-instances/network-instance/afts/ipv6-unicast/ipv6-entry/state/prefix''"
definition prefixNHGPathV6 :: string where
  "prefixNHGPathV6 = ''/network-instances/network-instance/afts/ipv6-unicast/ipv6-entry/state/next-hop-group''"
definition nextHopWeightPath :: string where
  "nextHopWeightPath = ''/network-instances/network-instance/afts/next-hop-groups/next-hop-group/next-hops/next-hop/state/weight''"
definition nextHopGroupConditionPath :: string where
  "nextHopGroupConditionPath = ''/network-instances/network-instance/afts/next-hop-groups/next-hop-group/condition''"

type_synonym schema_fn = "path_elem list \<Rightarrow> string option"


section \<open>Prefix notifications\<close>

text \<open>The loop of \<^verbatim>\<open>parsePrefix\<close>; its state is the set of wanted paths seen (a duplicate-free list)
  and the next hop group. The known unused paths and the unexpected ones only differ in logging.\<close>

fun parsePrefix_loop ::
  "schema_fn \<Rightarrow> string \<Rightarrow> point list \<Rightarrow> string list \<Rightarrow> 64 word \<Rightarrow> (aft_error, string list \<times> 64 word) res" where
  "parsePrefix_loop schemaPath prefix [] wantFields nhgID = Inr (wantFields, nhgID)"
| "parsePrefix_loop schemaPath prefix (u # us) wantFields nhgID =
     (case schemaPath (Path u) of
        None \<Rightarrow> Inl BadPath
      | Some p \<Rightarrow>
          (if p = prefixNHGPathV4 \<or> p = prefixNHGPathV6 then
             parsePrefix_loop schemaPath prefix us (List.insert p wantFields) (getUintVal (Val u))
           else if p = prefixPathV4 \<or> p = prefixPathV6 then
             (if getStringVal (Val u) \<noteq> prefix then Inl PrefixMismatch
              else parsePrefix_loop schemaPath prefix us (List.insert p wantFields) nhgID)
           else parsePrefix_loop schemaPath prefix us wantFields nhgID))"

definition parsePrefix :: "schema_fn \<Rightarrow> notification \<Rightarrow> (aft_error, string \<times> 64 word) res" where
  "parsePrefix schemaPath n =
     (case NotificationToPoints (Some n) of
        [] \<Rightarrow> Inl MissingUpdates
      | u # us \<Rightarrow>
          (if length (Path u) < 5 then Inl InvalidPrefixPath
           else case map_of (el_key (Path u ! 4)) ''prefix'' of
             None \<Rightarrow> Inl InvalidPrefixPath
           | Some prefix \<Rightarrow>
               bind_res (parsePrefix_loop schemaPath prefix (u # us) [] 0)
                 (\<lambda>(wantFields, nhgID).
                    if length wantFields < 2 then Inl MissingRequiredFields else Inr (prefix, nhgID))))"


section \<open>Next hop group notifications\<close>

text \<open>The key \<open>k\<close> of the fifth element of the notification's prefix, as a number.\<close>

definition keyID :: "string \<Rightarrow> notification \<Rightarrow> (aft_error, 64 word) res" where
  "keyID k n =
     (let e = getElem (n_prefix n) in
      if length e < 5 then Inl NotEnoughElements
      else case map_of (el_key (e ! 4)) k of
        None \<Rightarrow> Inl (KeyMissing k)
      | Some v \<Rightarrow> (case parseUint64 v of None \<Rightarrow> Inl (BadUint v) | Some i \<Rightarrow> Inr i))"

text \<open>The loop of \<^verbatim>\<open>parseNHG\<close>: the identifiers seen, the next hops in the order of their first
  occurrence, and the weights.\<close>

fun parseNHG_loop ::
  "schema_fn \<Rightarrow> point list \<Rightarrow> 64 word list \<times> 64 word list \<times> (64 word \<times> 64 word) list \<Rightarrow>
     (aft_error, 64 word list \<times> 64 word list \<times> (64 word \<times> 64 word) list) res" where
  "parseNHG_loop schemaPath [] s = Inr s"
| "parseNHG_loop schemaPath (u # us) (entries, nhids, weights) =
     (case schemaPath (Path u) of
        None \<Rightarrow> Inl BadPath
      | Some p \<Rightarrow>
          (if hasPrefix p nextHopGroupConditionPath then Inl ConditionalNHG
           else if hasSuffix p ''state/id'' then
             parseNHG_loop schemaPath us (List.insert (getUintVal (Val u)) entries, nhids, weights)
           else if hasSuffix p ''state/index'' then
             (let i = getUintVal (Val u) in
              parseNHG_loop schemaPath us
                (entries, if i \<in> set nhids then nhids else nhids @ [i], weights))
           else if p = nextHopWeightPath then
             (if length (Path u) \<le> 6 then Inl IndexPanic
              else case map_of (el_key (Path u ! 6)) ''index'' of
                None \<Rightarrow> Inl (BadUint [])
              | Some v \<Rightarrow>
                  (case parseUint64 v of
                     None \<Rightarrow> Inl (BadUint v)
                   | Some nhID \<Rightarrow>
                       parseNHG_loop schemaPath us
                         (entries, nhids, AList.update nhID (getUintVal (Val u)) weights)))
           else parseNHG_loop schemaPath us (entries, nhids, weights)))"

definition parseNHG :: "schema_fn \<Rightarrow> notification \<Rightarrow> (aft_error, 64 word \<times> aftNextHopGroup) res" where
  "parseNHG schemaPath n =
     bind_res (keyID ''id'' n) (\<lambda>nhgID.
       bind_res (parseNHG_loop schemaPath (NotificationToPoints (Some n)) ([nhgID], [], []))
         (\<lambda>(entries, nhids, weights).
            if length nhids \<noteq> length weights then Inl MissingWeights
            else if length entries \<noteq> 1 then Inl ValuesMismatch
            else Inr (nhgID, \<lparr>NHIDs = nhids, NHWeights = map_of weights, Conditionals = []\<rparr>)))"


section \<open>Next hop notifications\<close>

fun parseNH_entries :: "schema_fn \<Rightarrow> point list \<Rightarrow> 64 word list \<Rightarrow> (aft_error, 64 word list) res" where
  "parseNH_entries schemaPath [] entries = Inr entries"
| "parseNH_entries schemaPath (u # us) entries =
     (case schemaPath (Path u) of
        None \<Rightarrow> Inl BadPath
      | Some p \<Rightarrow>
          parseNH_entries schemaPath us
            (if hasSuffix p ''state/index'' then List.insert (getUintVal (Val u)) entries else entries))"

fun parseNH_fields :: "schema_fn \<Rightarrow> point list \<Rightarrow> bool \<times> aftNextHop \<Rightarrow> (aft_error, bool \<times> aftNextHop) res" where
  "parseNH_fields schemaPath [] s = Inr s"
| "parseNH_fields schemaPath (u # us) (found, nh) =
     (case schemaPath (Path u) of
        None \<Rightarrow> Inl BadPath
      | Some p \<Rightarrow>
          parseNH_fields schemaPath us
            (if hasSuffix p ''state/ip-address'' then (True, nh\<lparr>IP := getStringVal (Val u)\<rparr>)
             else if hasSuffix p ''state/lsp-name'' then (True, nh\<lparr>LSPName := getStringVal (Val u)\<rparr>)
             else if hasSuffix p ''interface-ref/state/interface'' then (True, nh\<lparr>IntfName := getStringVal (Val u)\<rparr>)
             else (found, nh)))"

definition parseNH :: "schema_fn \<Rightarrow> notification \<Rightarrow> (aft_error, 64 word \<times> aftNextHop) res" where
  "parseNH schemaPath n =
     bind_res (keyID ''index'' n) (\<lambda>nhID.
       let updates = NotificationToPoints (Some n) in
       bind_res (parseNH_entries schemaPath updates [nhID]) (\<lambda>entries.
         if length entries \<noteq> 1 then Inl ValuesMismatch
         else bind_res (parseNH_fields schemaPath updates (False, \<lparr>IntfName = [], IP = [], LSPName = []\<rparr>))
           (\<lambda>(found, nh). if \<not> found then Inl NoNextHopFields else Inr (nhID, nh))))"


section \<open>From the cache to the AFT\<close>

text \<open>The three functions \<^verbatim>\<open>prefixFunc\<close>, \<^verbatim>\<open>nhgFunc\<close> and \<^verbatim>\<open>nhFunc\<close> of \<^verbatim>\<open>ToAFT\<close>.\<close>

definition prefixFunc :: "schema_fn \<Rightarrow> notification \<Rightarrow> AFTData \<Rightarrow> (aft_error, AFTData) res" where
  "prefixFunc schemaPath n a =
     bind_res (parsePrefix schemaPath n) (\<lambda>(p, nhg). Inr (a\<lparr>Prefixes := (Prefixes a)(p \<mapsto> nhg)\<rparr>))"

definition nhgFunc :: "schema_fn \<Rightarrow> notification \<Rightarrow> AFTData \<Rightarrow> (aft_error, AFTData) res" where
  "nhgFunc schemaPath n a =
     (case parseNHG schemaPath n of
        Inl e \<Rightarrow> (if isErrNotExist e \<or> isErrUnsupported e then Inr a else Inl e)
      | Inr (nhg, data) \<Rightarrow> Inr (a\<lparr>NextHopGroups := (NextHopGroups a)(nhg \<mapsto> data)\<rparr>))"

definition nhFunc :: "schema_fn \<Rightarrow> notification \<Rightarrow> AFTData \<Rightarrow> (aft_error, AFTData) res" where
  "nhFunc schemaPath n a =
     (case parseNH schemaPath n of
        Inl e \<Rightarrow> (if isErrNotExist e then Inr a else Inl e)
      | Inr (nh, data) \<Rightarrow> Inr (a\<lparr>NextHops := (NextHops a)(nh \<mapsto> data)\<rparr>))"

definition subscriptionPaths :: "string \<Rightarrow> (string \<times> string list) list" where
  "subscriptionPaths defaultNI =
     (let ni = ''network-instances/network-instance[name='' @ defaultNI @ '']/afts/'' in
      [(''prefix'', [ni @ ''ipv4-unicast/ipv4-entry'', ni @ ''ipv6-unicast/ipv6-entry'']),
       (''nhg'', [ni @ ''next-hop-groups/next-hop-group'']),
       (''nh'', [ni @ ''next-hops/next-hop''])])"

definition cachePath :: "path_elem list \<Rightarrow> string" where
  "cachePath elems =
     str_join ''/'' (''openconfig'' # concat (map (\<lambda>e. el_name e # map snd (el_key e)) elems))"

fun cachePaths :: "(string \<Rightarrow> path_elem list option) \<Rightarrow> string list \<Rightarrow> (aft_error, string list) res" where
  "cachePaths toPath [] = Inr []"
| "cachePaths toPath (p # ps) =
     (case toPath p of
        None \<Rightarrow> Inl BadPath
      | Some sp \<Rightarrow> bind_res (cachePaths toPath ps) (\<lambda>qs. Inr (cachePath sp # qs)))"

fun generateCacheTraversalPaths ::
  "(string \<Rightarrow> path_elem list option) \<Rightarrow> (string \<times> string list) list \<Rightarrow> (aft_error, (string \<times> string list) list) res" where
  "generateCacheTraversalPaths toPath [] = Inr []"
| "generateCacheTraversalPaths toPath ((k, paths) # rest) =
     bind_res (cachePaths toPath paths) (\<lambda>qs.
       bind_res (generateCacheTraversalPaths toPath rest) (\<lambda>m. Inr ((k, qs) # m)))"

fun traverse_leaves ::
  "notification option list \<Rightarrow> (notification \<Rightarrow> AFTData \<Rightarrow> (aft_error, AFTData) res) \<Rightarrow> AFTData \<Rightarrow> (aft_error, AFTData) res" where
  "traverse_leaves [] f a = Inr a"
| "traverse_leaves (None # vs) f a = Inl NotANotification"
| "traverse_leaves (Some n # vs) f a = bind_res (f n a) (traverse_leaves vs f)"

definition traverse ::
  "(string list \<Rightarrow> (aft_error, notification option list) res) \<Rightarrow> string \<Rightarrow>
     (notification \<Rightarrow> AFTData \<Rightarrow> (aft_error, AFTData) res) \<Rightarrow> AFTData \<Rightarrow> (aft_error, AFTData) res" where
  "traverse query ocPath f a =
     bind_res (query (str_split (CHR ''/'') ocPath)) (\<lambda>vs. traverse_leaves vs f a)"

fun traverse_all ::
  "(string list \<Rightarrow> (aft_error, notification option list) res) \<Rightarrow> string list \<Rightarrow>
     (notification \<Rightarrow> AFTData \<Rightarrow> (aft_error, AFTData) res) \<Rightarrow> AFTData \<Rightarrow> (aft_error, AFTData) res" where
  "traverse_all query [] f a = Inr a"
| "traverse_all query (p # ps) f a = bind_res (traverse query p f a) (traverse_all query ps f)"

text \<open>A missing key of the map of paths reads as the nil slice.\<close>

definition pathsOf :: "(string \<times> string list) list \<Rightarrow> string \<Rightarrow> string list" where
  "pathsOf m k = (case map_of m k of None \<Rightarrow> [] | Some ps \<Rightarrow> ps)"

definition ToAFT ::
  "schema_fn \<Rightarrow> (string \<Rightarrow> path_elem list option) \<Rightarrow>
     (string list \<Rightarrow> (aft_error, notification option list) res) \<Rightarrow> string \<Rightarrow> (aft_error, AFTData) res" where
  "ToAFT schemaPath toPath query defaultNI =
     bind_res (generateCacheTraversalPaths toPath (subscriptionPaths defaultNI)) (\<lambda>cps.
       bind_res (traverse_all query (pathsOf cps ''prefix'') (prefixFunc schemaPath) newAFT) (\<lambda>a.
         bind_res (traverse_all query (pathsOf cps ''nhg'') (nhgFunc schemaPath) a) (\<lambda>a.
           traverse_all query (pathsOf cps ''nh'') (nhFunc schemaPath) a)))"


section \<open>Parsed groups are well formed\<close>

definition nhg_wf :: "aftNextHopGroup \<Rightarrow> bool" where
  "nhg_wf g \<longleftrightarrow> Conditionals g = [] \<and> distinct (NHIDs g) \<and> finite (dom (NHWeights g))
     \<and> card (dom (NHWeights g)) = length (NHIDs g)"

lemma parseNHG_loop_inv:
  "parseNHG_loop sp us (en, ids, ws) = Inr (en', ids', ws') \<Longrightarrow>
   distinct en \<Longrightarrow> distinct ids \<Longrightarrow> distinct (map fst ws) \<Longrightarrow>
   distinct en' \<and> distinct ids' \<and> distinct (map fst ws') \<and> set en \<subseteq> set en' \<and>
   (\<forall>u \<in> set us. \<forall>p. sp (Path u) = Some p \<longrightarrow> hasSuffix p ''state/id'' \<longrightarrow> getUintVal (Val u) \<in> set en')"
proof (induction us arbitrary: en ids ws)
  case Nil
  then show ?case by simp
next
  case (Cons u us)
  from Cons.prems(1) obtain p where p: "sp (Path u) = Some p"
    and nc: "\<not> hasPrefix p nextHopGroupConditionPath"
    by (auto split: option.splits if_splits)
  show ?case
  proof (cases "hasSuffix p ''state/id''")
    case True
    with Cons.prems(1) p nc
    have l: "parseNHG_loop sp us (List.insert (getUintVal (Val u)) en, ids, ws) = Inr (en', ids', ws')"
      by simp
    from Cons.IH [OF l] Cons.prems p show ?thesis by auto
  next
    case False
    obtain ids2 ws2 where l: "parseNHG_loop sp us (en, ids2, ws2) = Inr (en', ids', ws')"
      and d: "distinct ids2" "distinct (map fst ws2)"
      using Cons.prems p nc False
      by (auto simp: Let_def distinct_update split: if_splits option.splits)
    from Cons.IH [OF l Cons.prems(2) d] p False show ?thesis by auto
  qed
qed

lemma length_1_subset: "length xs = 1 \<Longrightarrow> x \<in> set xs \<Longrightarrow> y \<in> set xs \<Longrightarrow> x = y"
  by (auto simp: length_Suc_conv)

lemma parseNHG_group_wf: "parseNHG sp n = Inr (gid, g) \<Longrightarrow> nhg_wf g"
proof -
  assume "parseNHG sp n = Inr (gid, g)"
  then obtain en ids ws where
    l: "parseNHG_loop sp (NotificationToPoints (Some n)) ([gid], [], []) = Inr (en, ids, ws)"
    and w: "length ids = length ws" and g: "g = \<lparr>NHIDs = ids, NHWeights = map_of ws, Conditionals = []\<rparr>"
    by (auto simp: parseNHG_def bind_res_Inr_iff split: if_splits)
  from parseNHG_loop_inv [OF l] have "distinct ids" "distinct (map fst ws)" by auto
  moreover from this(2) have "card (dom (map_of ws)) = length ws"
    by (metis dom_map_of_conv_image_fst distinct_card length_map set_map)
  ultimately show "nhg_wf g" using w g by (simp add: nhg_wf_def finite_dom_map_of)
qed

text \<open>A next hop group that \<^verbatim>\<open>parseNHG\<close> accepts has the identifier of the notification's
  prefix, which every \<^verbatim>\<open>state/id\<close> update repeats; it has no conditionals, no next hop twice, and as
  many weights as next hops.\<close>

theorem parseNHG_wf:
  assumes "parseNHG sp n = Inr (gid, g)"
  shows "nhg_wf g \<and> keyID ''id'' n = Inr gid
    \<and> (\<forall>u \<in> set (NotificationToPoints (Some n)). \<forall>p.
         sp (Path u) = Some p \<longrightarrow> hasSuffix p ''state/id'' \<longrightarrow> getUintVal (Val u) = gid)"
proof -
  from assms obtain en ids ws where k: "keyID ''id'' n = Inr gid"
    and l: "parseNHG_loop sp (NotificationToPoints (Some n)) ([gid], [], []) = Inr (en, ids, ws)"
    and e: "length en = 1"
    by (auto simp: parseNHG_def bind_res_Inr_iff split: if_splits)
  from parseNHG_loop_inv [OF l] have gid: "gid \<in> set en"
    and ids: "\<forall>u \<in> set (NotificationToPoints (Some n)). \<forall>p. sp (Path u) = Some p \<longrightarrow>
      hasSuffix p ''state/id'' \<longrightarrow> getUintVal (Val u) \<in> set en"
    by auto
  with k parseNHG_group_wf [OF assms] length_1_subset [OF e _ gid] show ?thesis by blast
qed


section \<open>The table is well formed\<close>

definition aft_wf :: "AFTData \<Rightarrow> bool" where
  "aft_wf a \<longleftrightarrow> finite (dom (Prefixes a)) \<and> finite (dom (NextHopGroups a)) \<and> finite (dom (NextHops a))
     \<and> (\<forall>g nhg. NextHopGroups a g = Some nhg \<longrightarrow> nhg_wf nhg)"

lemma newAFT_wf: "aft_wf newAFT"
  by (simp add: aft_wf_def newAFT_def)

text \<open>A leaf function that keeps a property of the table keeps it over a whole traversal. The three
  leaf functions of \<^verbatim>\<open>ToAFT\<close> are interpretations.\<close>

locale leaf_function =
  fixes f :: "notification \<Rightarrow> AFTData \<Rightarrow> (aft_error, AFTData) res" and P :: "AFTData \<Rightarrow> bool"
  assumes keeps: "P a \<Longrightarrow> f n a = Inr b \<Longrightarrow> P b"
begin

lemma leaves: "traverse_leaves vs f a = Inr b \<Longrightarrow> P a \<Longrightarrow> P b"
proof (induction vs arbitrary: a)
  case (Cons v vs)
  then show ?case by (cases v) (auto simp: bind_res_Inr_iff dest: keeps)
qed simp

lemma one_path: "traverse query p f a = Inr b \<Longrightarrow> P a \<Longrightarrow> P b"
  by (auto simp: traverse_def bind_res_Inr_iff dest: leaves)

lemma all_paths: "traverse_all query ps f a = Inr b \<Longrightarrow> P a \<Longrightarrow> P b"
  by (induction ps arbitrary: a) (auto simp: bind_res_Inr_iff dest: one_path)

end

interpretation prefix_leaf: leaf_function "prefixFunc sp" aft_wf for sp
  by unfold_locales (auto simp: prefixFunc_def aft_wf_def bind_res_Inr_iff)

interpretation nhg_leaf: leaf_function "nhgFunc sp" aft_wf for sp
  by unfold_locales
    (auto simp: nhgFunc_def aft_wf_def split: sum.splits if_splits dest: parseNHG_group_wf)

interpretation nh_leaf: leaf_function "nhFunc sp" aft_wf for sp
  by unfold_locales (auto simp: nhFunc_def aft_wf_def split: sum.splits if_splits)

lemma ToAFT_aft_wf: "ToAFT sp tp query ni = Inr a \<Longrightarrow> aft_wf a"
  unfolding ToAFT_def bind_res_Inr_iff
  using prefix_leaf.all_paths nhg_leaf.all_paths nh_leaf.all_paths newAFT_wf by blast

text \<open>C8: Whatever the cache holds and whatever the path library does, the table \<^verbatim>\<open>ToAFT\<close> returns is
  well formed (finite maps, groups without conditionals, distinct next hops, a weight for each), so
  every route resolution on it ends, and filtering it by prefixes changes no resolution of a wanted
  prefix.\<close>

theorem ToAFT_supports_resolution:
  assumes "ToAFT sp tp query ni = Inr a" and "\<And>xs. set (ord xs) = set xs" and "p \<in> set ps"
  shows "aft_wf a \<and> (\<exists>r. resolveRoute a p = Some r)
    \<and> resolveRoute (FilterByPrefixes ord a ps) p = resolveRoute a p"
proof -
  have wf: "aft_wf a" using assms(1) by (rule ToAFT_aft_wf)
  then have leafs: "Conditionals nhg = []" if "NextHopGroups a g = Some nhg" for g nhg
    using that by (auto simp: aft_wf_def nhg_wf_def)
  have "\<exists>r. resolveRoute a p = Some r"
    using wf resolve_loop_returns
    by (auto simp: aft_wf_def resolveRoute_def resolveRouteCBF_def split: option.splits)
  moreover have "resolveRoute (FilterByPrefixes ord a ps) p = resolveRoute a p"
    using filter_keeps_routes [OF assms(2,3) leafs] .
  ultimately show ?thesis using wf by blast
qed


section \<open>Examples\<close>

text \<open>A schema function that drops the keys, a path parser and a cache with one route, one group and
  one next hop.\<close>

definition ex_schema :: schema_fn where
  "ex_schema es = Some (concat (map (\<lambda>e. CHR ''/'' # el_name e) es))"

definition ex_toPath :: "string \<Rightarrow> path_elem list option" where
  "ex_toPath s = Some (map (\<lambda>w. \<lparr>el_name = w, el_key = []\<rparr>) (str_split (CHR ''/'') s))"

definition ex_elem :: "string \<Rightarrow> path_elem" where
  "ex_elem w = \<lparr>el_name = w, el_key = []\<rparr>"

definition ex_note :: "string list \<Rightarrow> string \<Rightarrow> string \<Rightarrow> string \<Rightarrow> (string list \<times> typed_value) list \<Rightarrow> notification" where
  "ex_note pre lst k v us =
     \<lparr>n_prefix = Some \<lparr>p_origin = [], p_target = [],
        p_elem = map ex_elem (''network-instances'' # ''network-instance'' # ''afts'' # pre)
          @ [\<lparr>el_name = lst, el_key = [(k, v)]\<rparr>]\<rparr>,
      n_update = map (\<lambda>(p, v). \<lparr>u_path = \<lparr>p_origin = [], p_target = [], p_elem = map ex_elem p\<rparr>, u_val = v\<rparr>) us,
      n_delete = [], n_atomic = True\<rparr>"

definition ex_prefix_note :: notification where
  "ex_prefix_note = ex_note [''ipv4-unicast''] ''ipv4-entry'' ''prefix'' ''10.0.0.0/8''
     [([''state'', ''prefix''], StringVal ''10.0.0.0/8''), ([''state'', ''next-hop-group''], UintVal 7)]"

definition ex_nhg_note :: notification where
  "ex_nhg_note =
     (ex_note [''next-hop-groups''] ''next-hop-group'' ''id'' ''7'' [([''state'', ''id''], UintVal 7)])
     \<lparr>n_update :=
        [\<lparr>u_path = \<lparr>p_origin = [], p_target = [], p_elem = [ex_elem ''state'', ex_elem ''id'']\<rparr>, u_val = UintVal 7\<rparr>,
         \<lparr>u_path = \<lparr>p_origin = [], p_target = [], p_elem = [ex_elem ''next-hops'', \<lparr>el_name = ''next-hop'', el_key = [(''index'', ''3'')]\<rparr>, ex_elem ''state'', ex_elem ''index'']\<rparr>, u_val = UintVal 3\<rparr>,
         \<lparr>u_path = \<lparr>p_origin = [], p_target = [], p_elem = [ex_elem ''next-hops'', \<lparr>el_name = ''next-hop'', el_key = [(''index'', ''3'')]\<rparr>, ex_elem ''state'', ex_elem ''weight'']\<rparr>, u_val = UintVal 1\<rparr>]\<rparr>"

definition ex_nh_note :: notification where
  "ex_nh_note = ex_note [''next-hops''] ''next-hop'' ''index'' ''3''
     [([''state'', ''index''], UintVal 3), ([''state'', ''ip-address''], StringVal ''192.0.2.1'')]"

definition ex_query :: "string list \<Rightarrow> (aft_error, notification option list) res" where
  "ex_query q =
     (if last q = ''ipv4-entry'' then Inr [Some ex_prefix_note]
      else if last q = ''next-hop-group'' then Inr [Some ex_nhg_note]
      else if last q = ''next-hop'' then Inr [Some ex_nh_note]
      else Inr [])"

lemma ex_nhg_parses: "\<not> isl (parseNHG ex_schema ex_nhg_note)"
  by code_simp

lemma ex_ToAFT_ok: "\<not> isl (ToAFT ex_schema ex_toPath ex_query ''DEFAULT'')"
  by code_simp

theorem parseNHG_wf_witness:
  "\<exists>gid g. parseNHG ex_schema ex_nhg_note = Inr (gid, g) \<and> nhg_wf g"
proof -
  obtain gid g where g: "parseNHG ex_schema ex_nhg_note = Inr (gid, g)"
    using ex_nhg_parses by (cases "parseNHG ex_schema ex_nhg_note") auto
  from parseNHG_wf [OF g] g show ?thesis by blast
qed

theorem ToAFT_supports_resolution_witness:
  "\<exists>a. ToAFT ex_schema ex_toPath ex_query ''DEFAULT'' = Inr a \<and> aft_wf a
     \<and> (\<exists>r. resolveRoute a ''10.0.0.0/8'' = Some r)
     \<and> resolveRoute (FilterByPrefixes rev a [''10.0.0.0/8'']) ''10.0.0.0/8'' = resolveRoute a ''10.0.0.0/8''"
proof -
  obtain a where a: "ToAFT ex_schema ex_toPath ex_query ''DEFAULT'' = Inr a"
    using ex_ToAFT_ok by (cases "ToAFT ex_schema ex_toPath ex_query ''DEFAULT''") auto
  from ToAFT_supports_resolution [OF a, of rev "''10.0.0.0/8''" "[''10.0.0.0/8'']"] a
  show ?thesis by simp
qed

end
