(* ===== verification/Aft_Stream.thy ===== *)
theory Aft_Stream
  imports Aft_Parse
begin

text \<open>
  \<^verbatim>\<open>internal/telemetry/aftcache/aft_cache.go\<close>, the streaming session: \<^verbatim>\<open>addAFTNotification\<close>,
  \<^verbatim>\<open>ListenUntil\<close>, \<^verbatim>\<open>ListenUntilPreUpdateHook\<close>, \<^verbatim>\<open>listenUntil\<close> and the hooks
  \<^verbatim>\<open>DeletionStoppingCondition\<close>, \<^verbatim>\<open>InitialSyncStoppingCondition\<close>, \<^verbatim>\<open>AssertNextHopCount\<close>,
  \<^verbatim>\<open>WaitForNotification\<close> and \<^verbatim>\<open>VerifyAtomicFlagHook\<close>.

  The \<^verbatim>\<open>select\<close> loop of \<^verbatim>\<open>listenUntil\<close> is a state machine: an event is a message from the stream, a
  tick of the periodic timer (with the time the hooks took) or the end of the context; a step ends in
  \<open>Continue\<close>, \<open>Done\<close> (a hook asked to stop) or \<open>Fatal\<close> (\<^verbatim>\<open>t.Fatalf\<close>). The gNMI cache is a parameter: its
  state type \<open>'c\<close>, \<open>gnmiUpdate\<close> (\<^verbatim>\<open>cache.GnmiUpdate\<close>) and, for the hooks, \<open>toAFT\<close> (the
  session's \<^verbatim>\<open>ToAFT\<close> on that cache). \<open>diffEmpty\<close> is \<^verbatim>\<open>cmp.Diff(want, got) == ""\<close>. A periodic hook is
  a function of the session and of the variables its closure captures (type \<open>'h\<close>). Sets of prefixes
  are lists of their elements; logging and the files written at the end are not modelled. The prefix
  defaults of \<^verbatim>\<open>addAFTNotification\<close> are filled in place in the code: the debug list, which holds the same
  message, would show them; no hook reads prefixes from that list.

  The locale \<open>stopping_condition\<close> is the contract between the loop and its stopping hook: when the
  hook says done, a goal holds of the cache. It is interpreted for the three AFT conditions.
\<close>

datatype cache_error = ErrStale | CacheErr string

datatype add_error = MissingUpdate | UpdateErr cache_error

record 'c session =
  Cache :: 'c
  target :: string
  notifications :: "subscribe_response list"
  missingPrefixes :: "string list"
  failingNHPrefixes :: "string list"
  debugMode :: bool

definition NewAFTStreamSession :: "'c \<Rightarrow> string \<Rightarrow> 'c session" where
  "NewAFTStreamSession c name =
     \<lparr>Cache = c, target = name, notifications = [], missingPrefixes = [], failingNHPrefixes = [], debugMode = False\<rparr>"

definition WithDebug :: "'c session \<Rightarrow> 'c session" where
  "WithDebug ss = ss\<lparr>debugMode := True\<rparr>"

definition fillPrefix :: "string \<Rightarrow> notification \<Rightarrow> notification" where
  "fillPrefix tgt update =
     (let p = (case n_prefix update of None \<Rightarrow> \<lparr>p_origin = [], p_target = [], p_elem = []\<rparr> | Some p \<Rightarrow> p);
          p = (if p_origin p = [] then p\<lparr>p_origin := ''openconfig''\<rparr> else p);
          p = (if p_target p = [] then p\<lparr>p_target := tgt\<rparr> else p)
      in update\<lparr>n_prefix := Some p\<rparr>)"

definition addAFTNotification ::
  "('c \<Rightarrow> notification \<Rightarrow> (cache_error, 'c) res) \<Rightarrow> string \<Rightarrow> 'c \<Rightarrow> subscribe_response \<Rightarrow> (add_error, 'c) res" where
  "addAFTNotification gnmiUpdate tgt c n =
     (if getSyncResponse n then Inr c
      else case getUpdate n of
        None \<Rightarrow> Inl MissingUpdate
      | Some update \<Rightarrow>
          (case gnmiUpdate c (fillPrefix tgt update) of
             Inl e \<Rightarrow> Inl (UpdateErr e)
           | Inr c' \<Rightarrow> Inr c'))"


section \<open>The listening loop\<close>

text \<open>The two errors of \<^verbatim>\<open>VerifyAtomicFlagHook\<close>, and those of hooks defined by the tests.\<close>

datatype note_error = AtomicDelete | NotAtomic | TestHookError string

type_synonym ('c, 'h) state = "'h \<times> 'c session"
type_synonym ('c, 'h) hook = "('c, 'h) state \<Rightarrow> ('c, 'h) state \<times> (aft_error, bool) res"
type_synonym 'c note_hook = "'c \<Rightarrow> subscribe_response \<Rightarrow> note_error option"

datatype listen_event =
    Recv "(string, subscribe_response) res"
  | Tick nat
  | CtxDone

datatype fatal =
    StreamError string
  | NotificationHookError note_error
  | CacheUpdateError add_error
  | PeriodicHookError aft_error
  | HooksTooSlow nat
  | ContextCancelled

datatype 's outcome = Continue 's | Done 's | Fatal fatal 's

text \<open>\<^verbatim>\<open>periodicDeadline\<close> is 1 minute 45 seconds, in milliseconds.\<close>

definition periodicDeadline :: nat where
  "periodicDeadline = 105000"

fun run_note_hooks :: "'c note_hook list \<Rightarrow> 'c \<Rightarrow> subscribe_response \<Rightarrow> note_error option" where
  "run_note_hooks [] c n = None"
| "run_note_hooks (h # hs) c n = (case h c n of Some e \<Rightarrow> Some e | None \<Rightarrow> run_note_hooks hs c n)"

fun run_periodic_hooks :: "('c, 'h) hook list \<Rightarrow> ('c, 'h) hook" where
  "run_periodic_hooks [] st = (st, Inr False)"
| "run_periodic_hooks (h # hs) st =
     (case h st of
        (st', Inl e) \<Rightarrow> (st', Inl e)
      | (st', Inr done) \<Rightarrow> (if done then (st', Inr True) else run_periodic_hooks hs st'))"

definition logNotification :: "'c session \<Rightarrow> subscribe_response \<Rightarrow> 'c session" where
  "logNotification ss n = (if debugMode ss then ss\<lparr>notifications := notifications ss @ [n]\<rparr> else ss)"

fun listen_step ::
  "('c \<Rightarrow> notification \<Rightarrow> (cache_error, 'c) res) \<Rightarrow> 'c note_hook list \<Rightarrow> ('c, 'h) hook list \<Rightarrow>
     listen_event \<Rightarrow> ('c, 'h) state \<Rightarrow> ('c, 'h) state outcome" where
  "listen_step gnmiUpdate pre phs (Recv (Inl e)) st = Fatal (StreamError e) st"
| "listen_step gnmiUpdate pre phs (Recv (Inr n)) (h, ss) =
     (let ss = logNotification ss n in
      case run_note_hooks pre (Cache ss) n of
        Some e \<Rightarrow> Fatal (NotificationHookError e) (h, ss)
      | None \<Rightarrow>
          (case addAFTNotification gnmiUpdate (target ss) (Cache ss) n of
             Inr c \<Rightarrow> Continue (h, ss\<lparr>Cache := c\<rparr>)
           | Inl (UpdateErr ErrStale) \<Rightarrow> Continue (h, ss)
           | Inl e \<Rightarrow> Fatal (CacheUpdateError e) (h, ss)))"
| "listen_step gnmiUpdate pre phs (Tick took) st =
     (case run_periodic_hooks phs st of
        (st', Inl e) \<Rightarrow> Fatal (PeriodicHookError e) st'
      | (st', Inr True) \<Rightarrow> Done st'
      | (st', Inr False) \<Rightarrow> (if took > periodicDeadline then Fatal (HooksTooSlow took) st' else Continue st'))"
| "listen_step gnmiUpdate pre phs CtxDone st = Fatal ContextCancelled st"

fun listenUntil ::
  "('c \<Rightarrow> notification \<Rightarrow> (cache_error, 'c) res) \<Rightarrow> 'c note_hook list \<Rightarrow> ('c, 'h) hook list \<Rightarrow>
     listen_event list \<Rightarrow> ('c, 'h) state \<Rightarrow> ('c, 'h) state outcome" where
  "listenUntil gnmiUpdate pre phs [] st = Continue st"
| "listenUntil gnmiUpdate pre phs (e # es) st =
     (case listen_step gnmiUpdate pre phs e st of
        Continue st' \<Rightarrow> listenUntil gnmiUpdate pre phs es st'
      | out \<Rightarrow> out)"

text \<open>\<^verbatim>\<open>loggingPeriodicHook\<close> only logs; the deferred \<^verbatim>\<open>loggingFinal\<close> drops the stored notifications
  whichever way the loop ends.\<close>

definition loggingPeriodicHook :: "('c, 'h) hook" where
  "loggingPeriodicHook st = (st, Inr False)"

definition loggingFinal :: "'c session \<Rightarrow> 'c session" where
  "loggingFinal ss = ss\<lparr>notifications := []\<rparr>"

fun finish :: "('c, 'h) state outcome \<Rightarrow> ('c, 'h) state outcome" where
  "finish (Continue st) = Continue st"
| "finish (Done st) = Done (map_prod id loggingFinal st)"
| "finish (Fatal f st) = Fatal f (map_prod id loggingFinal st)"

lemma finish_Continue_iff: "finish out = Continue st \<longleftrightarrow> out = Continue st"
  by (cases out) auto

lemma finish_Done_iff:
  "finish out = Done st \<longleftrightarrow> (\<exists>st'. out = Done st' \<and> st = map_prod id loggingFinal st')"
  by (cases out) auto

definition ListenUntilPreUpdateHook ::
  "('c \<Rightarrow> notification \<Rightarrow> (cache_error, 'c) res) \<Rightarrow> 'c note_hook list \<Rightarrow> ('c, 'h) hook \<Rightarrow>
     listen_event list \<Rightarrow> ('c, 'h) state \<Rightarrow> ('c, 'h) state outcome" where
  "ListenUntilPreUpdateHook gnmiUpdate pre stop es st =
     finish (listenUntil gnmiUpdate pre [loggingPeriodicHook, stop] es st)"

definition ListenUntil ::
  "('c \<Rightarrow> notification \<Rightarrow> (cache_error, 'c) res) \<Rightarrow> ('c, 'h) hook \<Rightarrow>
     listen_event list \<Rightarrow> ('c, 'h) state \<Rightarrow> ('c, 'h) state outcome" where
  "ListenUntil gnmiUpdate stop es st = ListenUntilPreUpdateHook gnmiUpdate [] stop es st"


section \<open>Stopping conditions\<close>

text \<open>\<^verbatim>\<open>nRem\<close> counts the prefixes of the table that are wanted deleted; here it is counted over
  the wanted ones, which is the same number.\<close>

definition DeletionStoppingCondition ::
  "('c \<Rightarrow> (aft_error, AFTData) res) \<Rightarrow> string list \<Rightarrow> ('c, 'h) hook" where
  "DeletionStoppingCondition toAFT wantDeletePrefixes st =
     (case toAFT (Cache (snd st)) of
        Inl e \<Rightarrow> (st, Inl e)
      | Inr a \<Rightarrow>
          (let nRem = length (filter (\<lambda>p. Prefixes a p \<noteq> None) wantDeletePrefixes) in
           (st, Inr (\<not> nRem > 0))))"

text \<open>The next hop addresses of a prefix as the condition sees them: none when something on the way
  does not exist yet. \<open>Inl\<close> is any other error of \<^verbatim>\<open>resolveRoute\<close>.\<close>

definition gotIPs :: "AFTData \<Rightarrow> string \<Rightarrow> (aft_error, string list) res" where
  "gotIPs a p =
     (case resolveRoute a p of
        None \<Rightarrow> Inl NoReturn
      | Some (Inl e) \<Rightarrow> (if isErrNotExist e then Inr [] else Inl e)
      | Some (Inr nhs) \<Rightarrow> Inr (map IP nhs))"

fun check_nhs ::
  "(string list \<Rightarrow> string list \<Rightarrow> bool) \<Rightarrow> AFTData \<Rightarrow> string list \<Rightarrow> string list \<Rightarrow> string list \<Rightarrow>
     nat \<Rightarrow> string list \<Rightarrow> string list \<times> (aft_error, nat) res" where
  "check_nhs diffEmpty a wantV4 wantV6 [] nCorrect failing = (failing, Inr nCorrect)"
| "check_nhs diffEmpty a wantV4 wantV6 (p # ps) nCorrect failing =
     (case gotIPs a p of
        Inl e \<Rightarrow> (failing, Inl e)
      | Inr got \<Rightarrow>
          (if diffEmpty (if str_contains p '':'' then wantV6 else wantV4) got
           then check_nhs diffEmpty a wantV4 wantV6 ps (Suc nCorrect) failing
           else check_nhs diffEmpty a wantV4 wantV6 ps nCorrect (List.insert p failing)))"

definition nhFailLimit :: nat where
  "nhFailLimit = 20"

definition InitialSyncStoppingCondition ::
  "('c \<Rightarrow> (aft_error, AFTData) res) \<Rightarrow> (string list \<Rightarrow> string list \<Rightarrow> bool) \<Rightarrow>
     string list \<Rightarrow> string list \<Rightarrow> string list \<Rightarrow> ('c, nat) hook" where
  "InitialSyncStoppingCondition toAFT diffEmpty wantPrefixes wantV4 wantV6 st =
     (let (nhFailCount, ss) = st in
      case toAFT (Cache ss) of
        Inl e \<Rightarrow> (st, Inl e)
      | Inr a \<Rightarrow>
          (let missing = filter (\<lambda>p. Prefixes a p = None) wantPrefixes;
               nGot = length (filter (\<lambda>p. Prefixes a p \<noteq> None) wantPrefixes);
               ss = ss\<lparr>missingPrefixes := missing\<rparr> in
           if nGot < length wantPrefixes then ((nhFailCount, ss), Inr False)
           else
             let ss = ss\<lparr>missingPrefixes := []\<rparr>;
                 (failing, r) = check_nhs diffEmpty a wantV4 wantV6 wantPrefixes 0 [];
                 ss = ss\<lparr>failingNHPrefixes := failing\<rparr> in
             (case r of
                Inl e \<Rightarrow> ((nhFailCount, ss), Inl e)
              | Inr nCorrect \<Rightarrow>
                  (if nCorrect \<noteq> length wantPrefixes then
                     (if Suc nhFailCount = nhFailLimit then ((Suc nhFailCount, ss), Inl NHCheckFails)
                      else ((Suc nhFailCount, ss), Inr False))
                   else ((nhFailCount, ss\<lparr>failingNHPrefixes := []\<rparr>), Inr True)))))"

fun count_nhs :: "AFTData \<Rightarrow> int \<Rightarrow> string list \<Rightarrow> nat \<Rightarrow> (aft_error, nat option) res" where
  "count_nhs a wantNHCount [] nCorrect = Inr (Some nCorrect)"
| "count_nhs a wantNHCount (p # ps) nCorrect =
     (case resolveRoute a p of
        None \<Rightarrow> Inl NoReturn
      | Some (Inl e) \<Rightarrow> (if isErrNotExist e then count_nhs a wantNHCount ps nCorrect else Inl e)
      | Some (Inr nhs) \<Rightarrow>
          (if int (length nhs) \<noteq> wantNHCount then Inr None
           else count_nhs a wantNHCount ps (Suc nCorrect)))"

definition AssertNextHopCount ::
  "('c \<Rightarrow> (aft_error, AFTData) res) \<Rightarrow> string list \<Rightarrow> int \<Rightarrow> ('c, 'h) hook" where
  "AssertNextHopCount toAFT wantPrefixes wantNHCount st =
     (case toAFT (Cache (snd st)) of
        Inl e \<Rightarrow> (st, Inl e)
      | Inr a \<Rightarrow>
          (if length (filter (\<lambda>p. Prefixes a p \<noteq> None) wantPrefixes) < length wantPrefixes then (st, Inr False)
           else case count_nhs a wantNHCount wantPrefixes 0 of
             Inl e \<Rightarrow> (st, Inl e)
           | Inr None \<Rightarrow> (st, Inr False)
           | Inr (Some nCorrect) \<Rightarrow> (st, Inr (\<not> nCorrect \<noteq> length wantPrefixes))))"


section \<open>Notification hooks\<close>

definition VerifyAtomicFlagHook :: "'c note_hook" where
  "VerifyAtomicFlagHook c n =
     (case getUpdate n of
        None \<Rightarrow> None
      | Some u \<Rightarrow>
          (if n_delete u \<noteq> [] then (if n_atomic u then Some AtomicDelete else None)
           else if \<not> n_atomic u then Some NotAtomic
           else None))"

definition path_has :: "gpath \<Rightarrow> string \<Rightarrow> bool" where
  "path_has p v \<longleftrightarrow> list_ex (\<lambda>e. list_ex (\<lambda>kv. snd kv = v) (el_key e)) (p_elem p)"

definition hasUpdateNotification :: "notification \<Rightarrow> string \<Rightarrow> bool" where
  "hasUpdateNotification update prefix \<longleftrightarrow> list_ex (\<lambda>upd. path_has (u_path upd) prefix) (n_update update)"

definition hasDeleteNotification :: "notification \<Rightarrow> string \<Rightarrow> bool" where
  "hasDeleteNotification update prefix \<longleftrightarrow> list_ex (\<lambda>del. path_has del prefix) (n_delete update)"

record NotificationExpectation =
  AddPrefix :: string
  DeletePrefix :: string

fun scan_notifications ::
  "NotificationExpectation \<Rightarrow> subscribe_response list \<Rightarrow> bool \<Rightarrow> bool \<Rightarrow> bool" where
  "scan_notifications cfg [] updateFound deleteFound = False"
| "scan_notifications cfg (resp # rs) updateFound deleteFound =
     (case getUpdate resp of
        None \<Rightarrow> scan_notifications cfg rs updateFound deleteFound
      | Some u \<Rightarrow>
          (let updateFound = (updateFound \<or> hasUpdateNotification u (AddPrefix cfg));
               deleteFound = (deleteFound \<or> hasDeleteNotification u (DeletePrefix cfg)) in
           if updateFound \<and> deleteFound then True
           else scan_notifications cfg rs updateFound deleteFound))"

text \<open>The closure reads the clock once per call: \<open>late k\<close> is what \<^verbatim>\<open>time.Since(start) > cfg.NotificationWait\<close>
  says at its \<open>k\<close>-th call, and the call counter is the state of the closure.\<close>

definition WaitForNotification :: "(nat \<Rightarrow> bool) \<Rightarrow> NotificationExpectation \<Rightarrow> ('c, nat) hook" where
  "WaitForNotification late cfg st =
     (let (k, ss) = st in
      if scan_notifications cfg (notifications ss) (AddPrefix cfg = []) (DeletePrefix cfg = [])
      then ((Suc k, ss), Inr True)
      else if late k then ((Suc k, ss), Inl NotificationTimeout)
      else ((Suc k, ss), Inr False))"


section \<open>The initial synchronisation condition\<close>

definition wantOf :: "string list \<Rightarrow> string list \<Rightarrow> string \<Rightarrow> string list" where
  "wantOf wantV4 wantV6 p = (if str_contains p '':'' then wantV6 else wantV4)"

text \<open>What the condition waits for: every wanted prefix is in the table and its next hop addresses are
  exactly the wanted ones of its address family.\<close>

definition synced :: "AFTData \<Rightarrow> string list \<Rightarrow> string list \<Rightarrow> string list \<Rightarrow> bool" where
  "synced a wantPrefixes wantV4 wantV6 \<longleftrightarrow>
     (\<forall>p \<in> set wantPrefixes. Prefixes a p \<noteq> None
        \<and> (\<exists>got. gotIPs a p = Inr got \<and> set got = set (wantOf wantV4 wantV6 p)))"

lemma check_nhs_count:
  assumes "check_nhs d a v4 v6 ps n fl = (fl', Inr m)"
  shows "m \<le> n + length ps
    \<and> (m = n + length ps \<longleftrightarrow> (\<forall>p \<in> set ps. \<exists>got. gotIPs a p = Inr got \<and> d (wantOf v4 v6 p) got))"
  using assms
proof (induction ps arbitrary: n fl)
  case Nil
  then show ?case by simp
next
  case (Cons p ps)
  then obtain got where g: "gotIPs a p = Inr got" by (auto split: sum.splits)
  show ?case
  proof (cases "d (wantOf v4 v6 p) got")
    case True
    with Cons.prems g have "check_nhs d a v4 v6 ps (Suc n) fl = (fl', Inr m)"
      by (simp add: wantOf_def)
    from Cons.IH [OF this] g True show ?thesis by auto
  next
    case False
    with Cons.prems g have "check_nhs d a v4 v6 ps n (List.insert p fl) = (fl', Inr m)"
      by (simp add: wantOf_def)
    from Cons.IH [OF this] g False show ?thesis by auto
  qed
qed

lemma check_nhs_all:
  "(\<And>p. p \<in> set ps \<Longrightarrow> \<exists>got. gotIPs a p = Inr got \<and> d (wantOf v4 v6 p) got) \<Longrightarrow>
    check_nhs d a v4 v6 ps n fl = (fl, Inr (n + length ps))"
proof (induction ps arbitrary: n)
  case (Cons p ps)
  from Cons.prems [of p] obtain got where "gotIPs a p = Inr got" "d (wantOf v4 v6 p) got" by auto
  with Cons show ?case by (simp add: wantOf_def)
qed simp

lemma InitialSync_done_iff:
  assumes d: "\<And>w g. d w g \<longleftrightarrow> set g = set w"
  shows "snd (InitialSyncStoppingCondition toAFT d wp v4 v6 (k, ss)) = Inr True \<longleftrightarrow>
    (\<exists>a. toAFT (Cache ss) = Inr a \<and> synced a wp v4 v6)"
proof (cases "toAFT (Cache ss)")
  case (Inl e)
  then show ?thesis by (simp add: InitialSyncStoppingCondition_def)
next
  case (Inr a)
  let ?present = "\<forall>p \<in> set wp. Prefixes a p \<noteq> None"
  obtain fl r where c: "check_nhs d a v4 v6 wp 0 [] = (fl, r)" by fastforce
  have "snd (InitialSyncStoppingCondition toAFT d wp v4 v6 (k, ss)) = Inr True \<longleftrightarrow>
    ?present \<and> r = Inr (length wp)"
    by (auto simp: InitialSyncStoppingCondition_def Inr c Let_def length_filter_less_iff split: sum.splits)
  also have "\<dots> \<longleftrightarrow> synced a wp v4 v6"
  proof
    assume "?present \<and> r = Inr (length wp)"
    with check_nhs_count [of d a v4 v6 wp 0 "[]" fl "length wp"] c
    show "synced a wp v4 v6" by (auto simp: synced_def d)
  next
    assume s: "synced a wp v4 v6"
    then have "check_nhs d a v4 v6 wp 0 [] = ([], Inr (0 + length wp))"
      by (intro check_nhs_all) (auto simp: synced_def d)
    with s c show "?present \<and> r = Inr (length wp)" by (auto simp: synced_def)
  qed
  finally show ?thesis using Inr by simp
qed

text \<open>\<^verbatim>\<open>InitialSyncStoppingCondition\<close> reports done exactly when every wanted prefix is in the
  table and its resolved next hop addresses are the wanted set of its family (given that an empty
  \<^verbatim>\<open>cmp.Diff\<close> means equal sets); it then clears both lists of offenders.\<close>

theorem InitialSyncStoppingCondition_done:
  assumes "\<And>w g. diffEmpty w g \<longleftrightarrow> set g = set w"
  shows "(snd (InitialSyncStoppingCondition toAFT diffEmpty wp v4 v6 (k, ss)) = Inr True \<longleftrightarrow>
      (\<exists>a. toAFT (Cache ss) = Inr a \<and> synced a wp v4 v6))
    \<and> (snd (InitialSyncStoppingCondition toAFT diffEmpty wp v4 v6 (k, ss)) = Inr True \<longrightarrow>
        fst (InitialSyncStoppingCondition toAFT diffEmpty wp v4 v6 (k, ss)) =
          (k, ss\<lparr>missingPrefixes := [], failingNHPrefixes := []\<rparr>))"
proof (rule conjI)
  show "snd (InitialSyncStoppingCondition toAFT diffEmpty wp v4 v6 (k, ss)) = Inr True \<longleftrightarrow>
      (\<exists>a. toAFT (Cache ss) = Inr a \<and> synced a wp v4 v6)"
    using assms by (rule InitialSync_done_iff)
  show "snd (InitialSyncStoppingCondition toAFT diffEmpty wp v4 v6 (k, ss)) = Inr True \<longrightarrow>
        fst (InitialSyncStoppingCondition toAFT diffEmpty wp v4 v6 (k, ss)) =
          (k, ss\<lparr>missingPrefixes := [], failingNHPrefixes := []\<rparr>)"
    by (auto simp: InitialSyncStoppingCondition_def Let_def split: sum.splits if_splits prod.splits)
qed

text \<open>The limit on failing next hop checks: when all prefixes are present but some next hops are
  not the wanted ones, the condition fails the test if this is the twentieth such check and otherwise
  counts it and asks to go on.\<close>

theorem InitialSyncStoppingCondition_limit:
  assumes "toAFT (Cache ss) = Inr a" and "\<And>p. p \<in> set wp \<Longrightarrow> Prefixes a p \<noteq> None"
    and "check_nhs diffEmpty a v4 v6 wp 0 [] = (failing, Inr m)" and "m \<noteq> length wp"
  shows "InitialSyncStoppingCondition toAFT diffEmpty wp v4 v6 (k, ss) =
    ((Suc k, ss\<lparr>missingPrefixes := [], failingNHPrefixes := failing\<rparr>),
     if Suc k = 20 then Inl NHCheckFails else Inr False)"
proof -
  have "\<not> length (filter (\<lambda>p. Prefixes a p \<noteq> None) wp) < length wp"
    using assms(2) by (simp add: length_filter_less_iff)
  with assms(1,3,4) show ?thesis
    by (simp add: InitialSyncStoppingCondition_def Let_def nhFailLimit_def)
qed


section \<open>The loop stops only when its condition holds\<close>

locale stopping_condition =
  fixes stop :: "('c, 'h) hook" and goal :: "'c session \<Rightarrow> bool"
  assumes done_goal: "stop st = (st', Inr True) \<Longrightarrow> goal (snd st')"
    and goal_final: "goal ss \<Longrightarrow> goal (loggingFinal ss)"
begin

lemma step_done:
  "listen_step gu pre [loggingPeriodicHook, stop] e st = Done st' \<Longrightarrow> goal (snd st')"
proof (cases e)
  case (Recv r)
  then show "listen_step gu pre [loggingPeriodicHook, stop] e st = Done st' \<Longrightarrow> goal (snd st')"
    by (cases r; cases st)
      (auto simp: Let_def split: option.splits sum.splits add_error.splits cache_error.splits)
qed (auto simp: loggingPeriodicHook_def split: prod.splits sum.splits bool.splits if_splits dest: done_goal)

lemma listen_done:
  "listenUntil gu pre [loggingPeriodicHook, stop] es st = Done st' \<Longrightarrow> goal (snd st')"
  by (induction es arbitrary: st) (auto split: outcome.splits dest: step_done)

lemma ListenUntil_goal: "ListenUntil gu stop es st = Done st' \<Longrightarrow> goal (snd st')"
proof -
  assume "ListenUntil gu stop es st = Done st'"
  then obtain st1 where "listenUntil gu [] [loggingPeriodicHook, stop] es st = Done st1"
    and "st' = map_prod id loggingFinal st1"
    by (cases "listenUntil gu [] [loggingPeriodicHook, stop] es st")
      (auto simp: ListenUntil_def ListenUntilPreUpdateHook_def)
  with listen_done goal_final show "goal (snd st')" by (metis snd_map_prod)
qed

end

lemma Cache_loggingFinal [simp]: "Cache (loggingFinal ss) = Cache ss"
  by (simp add: loggingFinal_def)

interpretation deletion: stopping_condition "DeletionStoppingCondition toAFT wd"
  "\<lambda>ss. \<exists>a. toAFT (Cache ss) = Inr a \<and> (\<forall>p \<in> set wd. Prefixes a p = None)" for toAFT wd
  by unfold_locales
    (auto simp: DeletionStoppingCondition_def Let_def filter_empty_conv split: sum.splits)

interpretation initial_sync: stopping_condition
  "InitialSyncStoppingCondition toAFT (\<lambda>w g. set g = set w) wp v4 v6"
  "\<lambda>ss. \<exists>a. toAFT (Cache ss) = Inr a \<and> synced a wp v4 v6" for toAFT wp v4 v6
proof unfold_locales
  fix st st'
  assume eq: "InitialSyncStoppingCondition toAFT (\<lambda>w g. set g = set w) wp v4 v6 st = (st', Inr True)"
  obtain k ss where st: "st = (k, ss)" by fastforce
  from eq st InitialSync_done_iff [of "\<lambda>w g. set g = set w" toAFT wp v4 v6 k ss]
  have "\<exists>a. toAFT (Cache ss) = Inr a \<and> synced a wp v4 v6" by simp
  moreover from eq st have "Cache (snd st') = Cache ss"
    by (auto simp: InitialSyncStoppingCondition_def Let_def split: sum.splits if_splits prod.splits)
  ultimately show "\<exists>a. toAFT (Cache (snd st')) = Inr a \<and> synced a wp v4 v6" by simp
qed simp

lemma count_nhs_all:
  "count_nhs a w ps n = Inr (Some m) \<Longrightarrow> m \<le> n + length ps
    \<and> (m = n + length ps \<longrightarrow> (\<forall>p \<in> set ps. \<exists>nhs. resolveRoute a p = Some (Inr nhs) \<and> int (length nhs) = w))"
proof (induction ps arbitrary: n)
  case (Cons p ps)
  obtain r where r: "resolveRoute a p = Some r" using Cons.prems by (auto split: option.splits)
  show ?case
  proof (cases r)
    case (Inl e)
    with Cons.prems r have "count_nhs a w ps n = Inr (Some m)" by (auto split: if_splits)
    from Cons.IH [OF this] show ?thesis by auto
  next
    case (Inr nhs)
    with Cons.prems r have w: "int (length nhs) = w" "count_nhs a w ps (Suc n) = Inr (Some m)"
      by (auto split: if_splits)
    from Cons.IH [OF w(2)] w(1) r Inr show ?thesis by auto
  qed
qed simp

interpretation nh_count: stopping_condition "AssertNextHopCount toAFT wp w"
  "\<lambda>ss. \<exists>a. toAFT (Cache ss) = Inr a
      \<and> (\<forall>p \<in> set wp. \<exists>nhs. resolveRoute a p = Some (Inr nhs) \<and> int (length nhs) = w)" for toAFT wp w
proof unfold_locales
  fix st st'
  assume "AssertNextHopCount toAFT wp w st = (st', Inr True)"
  then obtain a where "toAFT (Cache (snd st')) = Inr a" "count_nhs a w wp 0 = Inr (Some (length wp))"
    by (auto simp: AssertNextHopCount_def split: sum.splits if_splits option.splits)
  with count_nhs_all [OF this(2)]
  show "\<exists>a. toAFT (Cache (snd st')) = Inr a
      \<and> (\<forall>p \<in> set wp. \<exists>nhs. resolveRoute a p = Some (Inr nhs) \<and> int (length nhs) = w)" by auto
qed simp

text \<open>C6: \<^verbatim>\<open>ListenUntil\<close> with each of the three AFT conditions returns normally only in a session
  whose cache satisfies what the condition promises: all prefixes to delete are gone; all wanted
  prefixes are there with exactly the wanted next hops; every wanted prefix resolves to the wanted
  number of next hops.\<close>

theorem ListenUntil_sound:
  "(ListenUntil gu (DeletionStoppingCondition toAFT wd) es st = Done st' \<longrightarrow>
      (\<exists>a. toAFT (Cache (snd st')) = Inr a \<and> (\<forall>p \<in> set wd. Prefixes a p = None)))
   \<and> (ListenUntil gu (InitialSyncStoppingCondition toAFT (\<lambda>w g. set g = set w) wp v4 v6) es sk = Done sk' \<longrightarrow>
      (\<exists>a. toAFT (Cache (snd sk')) = Inr a \<and> synced a wp v4 v6))
   \<and> (ListenUntil gu (AssertNextHopCount toAFT wp w) es sn = Done sn' \<longrightarrow>
      (\<exists>a. toAFT (Cache (snd sn')) = Inr a
         \<and> (\<forall>p \<in> set wp. \<exists>nhs. resolveRoute a p = Some (Inr nhs) \<and> int (length nhs) = w)))"
  by (intro conjI impI)
    (erule deletion.ListenUntil_goal initial_sync.ListenUntil_goal nh_count.ListenUntil_goal)+


section \<open>The loop does stop when its condition holds\<close>

text \<open>What the stream has to do for the loop to go on: the notifications are accepted by the cache (or are stale), the periodic hooks end in time, and
  the checks they make on the cache do not fail. The result is the cache.\<close>

fun served ::
  "('c \<Rightarrow> notification \<Rightarrow> (cache_error, 'c) res) \<Rightarrow> string \<Rightarrow> ('c \<Rightarrow> bool) \<Rightarrow> listen_event list \<Rightarrow> 'c \<Rightarrow> 'c option" where
  "served gu t good [] c = Some c"
| "served gu t good (Recv (Inl e) # es) c = None"
| "served gu t good (Recv (Inr n) # es) c =
     (case addAFTNotification gu t c n of
        Inr c' \<Rightarrow> served gu t good es c'
      | Inl (UpdateErr ErrStale) \<Rightarrow> served gu t good es c
      | Inl e \<Rightarrow> None)"
| "served gu t good (Tick took # es) c = (if took \<le> periodicDeadline \<and> good c then served gu t good es c else None)"
| "served gu t good (CtxDone # es) c = None"

fun ticks :: "listen_event list \<Rightarrow> nat" where
  "ticks [] = 0"
| "ticks (Tick took # es) = Suc (ticks es)"
| "ticks (e # es) = ticks es"

text \<open>A hook that makes no error on a good cache while it has budget left, uses at most one unit of it, and reports done when the cache has the goal.\<close>

locale live_condition =
  fixes stop :: "('c, 'h) hook" and good :: "'c \<Rightarrow> bool" and goal :: "'c \<Rightarrow> bool" and budget :: "'h \<Rightarrow> nat"
  assumes go_on: "good (Cache ss) \<Longrightarrow> 0 < budget h \<Longrightarrow>
      \<exists>h' ss' b. stop (h, ss) = ((h', ss'), Inr b) \<and> Cache ss' = Cache ss \<and> target ss' = target ss \<and> budget h \<le> Suc (budget h')"
    and finished: "goal (Cache ss) \<Longrightarrow> \<exists>st'. stop (h, ss) = (st', Inr True)"
begin

lemma listenUntil_returns:
  assumes "served gu (target ss) good es (Cache ss) = Some c" and "goal c" and "ticks es \<le> budget h"
  shows "\<exists>st'. listenUntil gu [] [loggingPeriodicHook, stop] (es @ Tick took # rest) (h, ss) = Done st'"
  using assms
proof (induction es arbitrary: h ss)
  case Nil
  then obtain st' where "stop (h, ss) = (st', Inr True)" using finished by fastforce
  then show ?case by (simp add: loggingPeriodicHook_def)
next
  case (Cons e es)
  show ?case
  proof (cases e)
    case (Recv x)
    then obtain n where x: "x = Inr n" using Cons.prems by (cases x) auto
    let ?ss = "logNotification ss n"
    have keep: "Cache ?ss = Cache ss" "target ?ss = target ss" by (simp_all add: logNotification_def)
    show ?thesis
    proof (cases "addAFTNotification gu (target ss) (Cache ss) n")
      case (Inl err)
      then have "err = UpdateErr ErrStale" "served gu (target ss) good es (Cache ss) = Some c"
        using Cons.prems(1) Recv x by (auto split: add_error.splits cache_error.splits)
      then show ?thesis using Cons.IH [of ?ss h] Cons.prems Recv x Inl keep by (simp add: Let_def)
    next
      case (Inr c')
      then show ?thesis using Cons.IH [of "?ss\<lparr>Cache := c'\<rparr>" h] Cons.prems Recv x keep by (simp add: Let_def)
    qed
  next
    case (Tick took')
    then have t: "took' \<le> periodicDeadline" "good (Cache ss)" "served gu (target ss) good es (Cache ss) = Some c" "Suc (ticks es) \<le> budget h"
      using Cons.prems by (auto split: if_splits)
    then obtain h' ss' b where s: "stop (h, ss) = ((h', ss'), Inr b)" "Cache ss' = Cache ss" "target ss' = target ss" "budget h \<le> Suc (budget h')"
      using go_on [of ss h] by auto
    then show ?thesis using Cons.IH [of ss' h'] Cons.prems(2) t Tick by (cases b) (simp_all add: loggingPeriodicHook_def)
  qed (use Cons.prems in simp)
qed

lemma ListenUntil_returns:
  assumes "served gu (target ss) good es (Cache ss) = Some c" and "goal c" and "ticks es \<le> budget h"
  shows "\<exists>st'. ListenUntil gu stop (es @ Tick took # rest) (h, ss) = Done st'"
proof -
  obtain st' where "listenUntil gu [] [loggingPeriodicHook, stop] (es @ Tick took # rest) (h, ss) = Done st'"
    using listenUntil_returns [OF assms] by blast
  then show ?thesis by (simp add: ListenUntil_def ListenUntilPreUpdateHook_def)
qed

end

interpretation live_deletion: live_condition "DeletionStoppingCondition toAFT wd" "\<lambda>c. \<not> isl (toAFT c)"
  "\<lambda>c. \<exists>a. toAFT c = Inr a \<and> (\<forall>p\<in>set wd. Prefixes a p = None)" "\<lambda>_. n" for toAFT wd n
  by unfold_locales (auto simp: DeletionStoppingCondition_def filter_empty_conv split: sum.split)

interpretation live_sync: live_condition "InitialSyncStoppingCondition toAFT (\<lambda>w g. set g = set w) wp v4 v6"
  "\<lambda>c. \<exists>a. toAFT c = Inr a \<and> (\<forall>p\<in>set wp. \<not> isl (gotIPs a p))" "\<lambda>c. \<exists>a. toAFT c = Inr a \<and> synced a wp v4 v6" "\<lambda>k. 19 - k" for toAFT wp v4 v6
proof unfold_locales
  fix ss :: "'a session" and k :: nat
  let ?stop = "InitialSyncStoppingCondition toAFT (\<lambda>w g. set g = set w) wp v4 v6"
  have cn: "\<exists>fl' m. check_nhs d a v4 v6 ps n fl = (fl', Inr m)" if "\<forall>p\<in>set ps. \<not> isl (gotIPs a p)" for d a ps n fl
    using that by (induction ps arbitrary: n fl) (auto split: sum.split)
  { assume "\<exists>a. toAFT (Cache ss) = Inr a \<and> (\<forall>p\<in>set wp. \<not> isl (gotIPs a p))" and "0 < 19 - k"
    then obtain a fl m where "toAFT (Cache ss) = Inr a" "check_nhs (\<lambda>w g. set g = set w) a v4 v6 wp 0 [] = (fl, Inr m)" "k < 19" using cn by fastforce
    then show "\<exists>h' ss' b. ?stop (k, ss) = ((h', ss'), Inr b) \<and> Cache ss' = Cache ss \<and> target ss' = target ss \<and> 19 - k \<le> Suc (19 - h')"
      by (auto simp: InitialSyncStoppingCondition_def Let_def nhFailLimit_def) }
  assume "\<exists>a. toAFT (Cache ss) = Inr a \<and> synced a wp v4 v6"
  then have "snd (?stop (k, ss)) = Inr True" by (subst InitialSync_done_iff) auto
  then show "\<exists>st'. ?stop (k, ss) = (st', Inr True)" by (metis prod.collapse)
qed

text \<open>C28: The listener returns: once the notifications received so far have left in the cache what the condition waits for, the next periodic check ends
  the loop normally, whatever comes after it, provided that the stream and the checks before made no error and kept their deadline. For the deletion condition: none of the prefixes is left. For
  the initial synchronisation: all prefixes are there with the wanted next hops, and fewer than 20 checks were made, since the twentieth with wrong next hops fails the
  test.\<close>

theorem ListenUntil_completes:
  "(\<forall>c a. served gu (target ss) (\<lambda>c. \<not> isl (toAFT c)) es (Cache ss) = Some c \<and> toAFT c = Inr a \<and> (\<forall>p\<in>set wd. Prefixes a p = None)
      \<longrightarrow> (\<exists>st'. ListenUntil gu (DeletionStoppingCondition toAFT wd) (es @ Tick took # rest) (h, ss) = Done st'))
   \<and> (\<forall>c a. served gu (target ss) (\<lambda>c. \<exists>a. toAFT c = Inr a \<and> (\<forall>p\<in>set wp. \<not> isl (gotIPs a p))) es (Cache ss) = Some c
         \<and> toAFT c = Inr a \<and> synced a wp v4 v6 \<and> k + ticks es < 20
      \<longrightarrow> (\<exists>st'. ListenUntil gu (InitialSyncStoppingCondition toAFT (\<lambda>w g. set g = set w) wp v4 v6) (es @ Tick took # rest) (k, ss) = Done st'))"
proof (intro conjI allI impI; elim conjE)
  fix c a assume "served gu (target ss) (\<lambda>c. \<not> isl (toAFT c)) es (Cache ss) = Some c" "toAFT c = Inr a" "\<forall>p\<in>set wd. Prefixes a p = None"
  then show "\<exists>st'. ListenUntil gu (DeletionStoppingCondition toAFT wd) (es @ Tick took # rest) (h, ss) = Done st'"
    by (intro live_deletion.ListenUntil_returns [where n = "ticks es"]) auto
next
  fix c a assume "served gu (target ss) (\<lambda>c. \<exists>a. toAFT c = Inr a \<and> (\<forall>p\<in>set wp. \<not> isl (gotIPs a p))) es (Cache ss) = Some c"
    "toAFT c = Inr a" "synced a wp v4 v6" "k + ticks es < 20"
  then show "\<exists>st'. ListenUntil gu (InitialSyncStoppingCondition toAFT (\<lambda>w g. set g = set w) wp v4 v6) (es @ Tick took # rest) (k, ss) = Done st'"
    by (intro live_sync.ListenUntil_returns) auto
qed

lemma aft_example_routes:
  "gotIPs aft_example ''10.0.0.0/8'' = Inr [''192.0.2.1'', ''192.0.2.2'']" "gotIPs aft_example ''2001:db8::/32'' = Inr [''2001:db8::1'']"
  by (simp_all add: gotIPs_def resolveRoute_def resolveRouteCBF_def resolve_loop.simps isCNHG_def aft_example_def)

theorem ListenUntil_completes_witness:
  "(\<exists>st'. ListenUntil (\<lambda>c n. Inr c) (DeletionStoppingCondition (\<lambda>_. Inr aft_example) [''10.1.0.0/16''])
     ([Tick 7] @ Tick 9 # [CtxDone]) ((), NewAFTStreamSession () ''dut'') = Done st')
   \<and> (\<exists>st'. ListenUntil (\<lambda>c n. Inr c) (InitialSyncStoppingCondition (\<lambda>_. Inr aft_example) (\<lambda>w g. set g = set w)
       [''10.0.0.0/8'', ''2001:db8::/32''] [''192.0.2.2'', ''192.0.2.1''] [''2001:db8::1''])
     ([Tick 7] @ Tick 9 # [CtxDone]) (18, NewAFTStreamSession () ''dut'') = Done st')"
proof (rule conjI)
  let ?ss = "NewAFTStreamSession () ''dut''" and ?wp = "[''10.0.0.0/8'', ''2001:db8::/32'']" and ?v4 = "[''192.0.2.2'', ''192.0.2.1'']"
  have served: "served (\<lambda>c n. Inr c) (target ?ss) good [Tick 7] (Cache ?ss) = Some (Cache ?ss)" if "good (Cache ?ss)" for good
    using that by (simp add: periodicDeadline_def)
  have ps: "Prefixes aft_example ''10.1.0.0/16'' = None" "Prefixes aft_example ''10.0.0.0/8'' = Some 1" "Prefixes aft_example ''2001:db8::/32'' = Some 2"
    by (simp_all add: aft_example_def)
  show "\<exists>st'. ListenUntil (\<lambda>c n. Inr c) (DeletionStoppingCondition (\<lambda>_. Inr aft_example) [''10.1.0.0/16''])
     ([Tick 7] @ Tick 9 # [CtxDone]) ((), ?ss) = Done st'"
    by (rule ListenUntil_completes [THEN conjunct1, THEN spec [of _ "Cache ?ss"], THEN spec [of _ aft_example], THEN mp])
      (intro conjI served, simp_all add: ps)
  have want: "wantOf ?v4 [''2001:db8::1''] ''10.0.0.0/8'' = ?v4" "wantOf ?v4 [''2001:db8::1''] ''2001:db8::/32'' = [''2001:db8::1'']"
    by (simp_all add: wantOf_def str_contains_def hasPrefix_def)
  have synced: "synced aft_example ?wp ?v4 [''2001:db8::1'']"
    unfolding synced_def by (simp add: aft_example_routes want ps insert_commute)
  show "\<exists>st'. ListenUntil (\<lambda>c n. Inr c) (InitialSyncStoppingCondition (\<lambda>_. Inr aft_example) (\<lambda>w g. set g = set w) ?wp ?v4 [''2001:db8::1''])
     ([Tick 7] @ Tick 9 # [CtxDone]) (18, ?ss) = Done st'"
    by (rule ListenUntil_completes [THEN conjunct2, THEN spec [of _ "Cache ?ss"], THEN spec [of _ aft_example], THEN mp])
      (intro conjI served, simp_all add: aft_example_routes synced)
qed

lemma quiet_step:
  assumes "\<not> debugMode ss" "notifications ss = []"
    and "listen_step gu pre [loggingPeriodicHook, WaitForNotification late cfg] e (k, ss) = out"
  shows "(\<exists>k' ss'. out = Continue (k', ss') \<and> \<not> debugMode ss' \<and> notifications ss' = [])
    \<or> (\<exists>f s. out = Fatal f s)"
proof (cases e)
  case (Recv r)
  with assms show ?thesis
    by (cases r) (auto simp: Let_def logNotification_def split: option.splits sum.splits add_error.splits cache_error.splits)
next
  case (Tick took)
  with assms show ?thesis by (auto simp: loggingPeriodicHook_def WaitForNotification_def split: if_splits)
next
  case CtxDone
  with assms show ?thesis by auto
qed

text \<open>\<^verbatim>\<open>WaitForNotification\<close> reads the stored notifications, which the loop keeps only in debug mode:
  in a session without \<^verbatim>\<open>WithDebug\<close> it never completes, even when every expected notification
  arrives (or none is expected), so the test can only time out.\<close>

theorem WaitForNotification_needs_debug:
  assumes "\<not> debugMode ss" and "notifications ss = []"
  shows "ListenUntilPreUpdateHook gu pre (WaitForNotification late cfg) es (k, ss) \<noteq> Done st'"
proof -
  have "listenUntil gu pre [loggingPeriodicHook, WaitForNotification late cfg] es (k, ss) \<noteq> Done st''" for st''
    using assms
  proof (induction es arbitrary: k ss)
    case (Cons e es)
    from quiet_step [OF Cons.prems refl, of gu pre late cfg e k] Cons.IH
    show ?case by (auto split: outcome.splits)
  qed simp
  then show ?thesis by (simp add: ListenUntilPreUpdateHook_def finish_Done_iff)
qed

theorem WaitForNotification_needs_debug_witness:
  "\<nexists>st'. ListenUntilPreUpdateHook (\<lambda>c n. Inr c) []
     (WaitForNotification (\<lambda>_. False) \<lparr>AddPrefix = [], DeletePrefix = []\<rparr>) [Tick 1, Tick 1]
     (0, NewAFTStreamSession () ''dut'') = Done st'"
  using WaitForNotification_needs_debug [of "NewAFTStreamSession () ''dut''"]
  by (simp add: NewAFTStreamSession_def)

text \<open>One message of the stream: with the atomicity hook installed, a notification reaches the
  cache only if its atomic flag is set exactly when it deletes nothing; a stale notification changes
  nothing but the debug log; a sync response leaves the cache as it is; and a message with neither
  is fatal.\<close>

theorem listen_step_message:
  "(\<forall>s'. listen_step gu [VerifyAtomicFlagHook] phs (Recv (Inr n)) (h, ss) = Continue s' \<longrightarrow>
            (getUpdate n = None \<and> s' = (h, logNotification ss n)) \<or>
            (\<exists>u. getUpdate n = Some u \<and> (n_atomic u \<longleftrightarrow> n_delete u = [])
               \<and> ((\<exists>c. \<not> getSyncResponse n \<and> gu (Cache ss) (fillPrefix (target ss) u) = Inr c \<and> s' = (h, (logNotification ss n)\<lparr>Cache := c\<rparr>))
                  \<or> s' = (h, logNotification ss n))))
    \<and> (getSyncResponse n = False \<and> getUpdate n = None \<longrightarrow>
        listen_step gu [VerifyAtomicFlagHook] phs (Recv (Inr n)) (h, ss) = Fatal (CacheUpdateError MissingUpdate) (h, logNotification ss n))
    \<and> (\<forall>u. \<not> getSyncResponse n \<and> getUpdate n = Some u \<and> (n_atomic u \<longleftrightarrow> n_delete u = [])
         \<and> gu (Cache ss) (fillPrefix (target ss) u) = Inl ErrStale \<longrightarrow>
        listen_step gu [VerifyAtomicFlagHook] phs (Recv (Inr n)) (h, ss) = Continue (h, logNotification ss n))"
  by (auto simp: logNotification_def VerifyAtomicFlagHook_def addAFTNotification_def Let_def
      split: option.splits sum.splits if_splits add_error.splits cache_error.splits)

definition ex_upd :: subscribe_response where
  "ex_upd = UpdateResponse (ex_nh_note\<lparr>n_atomic := False\<rparr>)"

theorem listen_step_message_witness:
  "listen_step (\<lambda>c n. Inl ErrStale) [VerifyAtomicFlagHook] [] (Recv (Inr (UpdateResponse ex_nh_note)))
      ((), NewAFTStreamSession () ''dut'') = Continue ((), NewAFTStreamSession () ''dut'')
   \<and> listen_step (\<lambda>c n. Inr c) [VerifyAtomicFlagHook] [] (Recv (Inr NoResponse))
      ((), NewAFTStreamSession () ''dut'') = Fatal (CacheUpdateError MissingUpdate) ((), NewAFTStreamSession () ''dut'')
   \<and> (\<nexists>s. listen_step (\<lambda>c n. Inr c) [VerifyAtomicFlagHook] [] (Recv (Inr ex_upd))
      ((), NewAFTStreamSession () ''dut'') = Continue s)"
  using listen_step_message [of "\<lambda>c n. Inl ErrStale" "[]" "UpdateResponse ex_nh_note" "()" "NewAFTStreamSession () ''dut''"]
    listen_step_message [of "\<lambda>c n. Inr c" "[]" NoResponse "()" "NewAFTStreamSession () ''dut''"]
    listen_step_message [of "\<lambda>c n. Inr c" "[]" ex_upd "()" "NewAFTStreamSession () ''dut''"]
  by (auto simp: NewAFTStreamSession_def logNotification_def ex_upd_def ex_nh_note_def ex_note_def)

text \<open>A table with one resolvable prefix, and the listener run on it: one periodic tick is enough.\<close>

definition ex_full :: AFTData where
  "ex_full =
     \<lparr>Prefixes = [''10.0.0.0/8'' \<mapsto> 7],
      NextHopGroups = [7 \<mapsto> \<lparr>NHIDs = [3], NHWeights = [3 \<mapsto> 1], Conditionals = []\<rparr>],
      NextHops = [3 \<mapsto> \<lparr>IntfName = [], IP = ''192.0.2.1'', LSPName = []\<rparr>]\<rparr>"

definition ex_aft :: "unit \<Rightarrow> (aft_error, AFTData) res" where
  "ex_aft = (\<lambda>_. Inr ex_full)"

definition ex_ss :: "unit session" where
  "ex_ss = NewAFTStreamSession () ''dut''"

lemma ex_full_prefixes [simp]:
  "Prefixes ex_full ''10.0.0.0/8'' = Some 7" "Prefixes ex_full ''11.0.0.0/8'' = None"
  by (simp_all add: ex_full_def)

lemma ex_full_resolves [simp]:
  "resolveRoute ex_full ''10.0.0.0/8'' = Some (Inr [\<lparr>IntfName = [], IP = ''192.0.2.1'', LSPName = []\<rparr>])"
  by (simp add: ex_full_def resolveRoute_def resolveRouteCBF_def resolve_loop.simps isCNHG_def)

lemma ex_v4 [simp]: "\<not> str_contains ''10.0.0.0/8'' '':''"
  by code_simp

lemmas listen_defs = ListenUntil_def ListenUntilPreUpdateHook_def loggingPeriodicHook_def periodicDeadline_def

definition ex_del where "ex_del = DeletionStoppingCondition ex_aft [''11.0.0.0/8'']"
definition ex_cnt where "ex_cnt = AssertNextHopCount ex_aft [''10.0.0.0/8''] 1"
definition ex_sync where
  "ex_sync = InitialSyncStoppingCondition ex_aft (\<lambda>w g. set g = set w) [''10.0.0.0/8''] [''192.0.2.1''] []"

lemma ex_runs:
  "\<exists>s. ListenUntil (\<lambda>c n. Inr c) ex_del [Tick 1] ((), ex_ss) = Done s"
  "\<exists>s. ListenUntil (\<lambda>c n. Inr c) ex_cnt [Tick 1] ((), ex_ss) = Done s"
  "\<exists>s. ListenUntil (\<lambda>c n. Inr c) ex_sync [Tick 1] (0, ex_ss) = Done s"
  by (simp_all add: listen_defs ex_del_def ex_cnt_def ex_sync_def DeletionStoppingCondition_def ex_aft_def
      AssertNextHopCount_def InitialSyncStoppingCondition_def gotIPs_def Let_def)

theorem ListenUntil_sound_witness:
  "(\<exists>s a. ListenUntil (\<lambda>c n. Inr c) ex_del [Tick 1] ((), ex_ss) = Done s
       \<and> ex_aft (Cache (snd s)) = Inr a \<and> Prefixes a ''11.0.0.0/8'' = None)
   \<and> (\<exists>s a. ListenUntil (\<lambda>c n. Inr c) ex_sync [Tick 1] (0, ex_ss) = Done s
       \<and> ex_aft (Cache (snd s)) = Inr a \<and> synced a [''10.0.0.0/8''] [''192.0.2.1''] [])
   \<and> (\<exists>s a nhs. ListenUntil (\<lambda>c n. Inr c) ex_cnt [Tick 1] ((), ex_ss) = Done s
       \<and> ex_aft (Cache (snd s)) = Inr a
       \<and> resolveRoute a ''10.0.0.0/8'' = Some (Inr nhs) \<and> int (length nhs) = 1)"
proof -
  obtain s1 s2 s3 where s: "ListenUntil (\<lambda>c n. Inr c) ex_del [Tick 1] ((), ex_ss) = Done s1"
      "ListenUntil (\<lambda>c n. Inr c) ex_sync [Tick 1] (0, ex_ss) = Done s2"
      "ListenUntil (\<lambda>c n. Inr c) ex_cnt [Tick 1] ((), ex_ss) = Done s3"
    using ex_runs by blast
  note sound = ListenUntil_sound [of "\<lambda>c n. Inr c" ex_aft "[''11.0.0.0/8'']" "[Tick 1]" "((), ex_ss)" s1
      "[''10.0.0.0/8'']" "[''192.0.2.1'']" "[]" "(0, ex_ss)" s2 1 "((), ex_ss)" s3,
      folded ex_del_def ex_cnt_def ex_sync_def]
  show ?thesis
  proof (intro conjI)
    show "\<exists>s a. ListenUntil (\<lambda>c n. Inr c) ex_del [Tick 1] ((), ex_ss) = Done s
       \<and> ex_aft (Cache (snd s)) = Inr a \<and> Prefixes a ''11.0.0.0/8'' = None"
      using s(1) sound by fastforce
    show "\<exists>s a. ListenUntil (\<lambda>c n. Inr c) ex_sync [Tick 1] (0, ex_ss) = Done s
       \<and> ex_aft (Cache (snd s)) = Inr a \<and> synced a [''10.0.0.0/8''] [''192.0.2.1''] []"
      using s(2) sound by blast
    show "\<exists>s a nhs. ListenUntil (\<lambda>c n. Inr c) ex_cnt [Tick 1] ((), ex_ss) = Done s
       \<and> ex_aft (Cache (snd s)) = Inr a
       \<and> resolveRoute a ''10.0.0.0/8'' = Some (Inr nhs) \<and> int (length nhs) = 1"
      using s(3) sound by fastforce
  qed
qed

theorem InitialSyncStoppingCondition_done_witness:
  "snd (ex_sync (0, ex_ss)) = Inr True \<and> (\<exists>a. ex_aft () = Inr a \<and> synced a [''10.0.0.0/8''] [''192.0.2.1''] [])"
proof -
  have "snd (ex_sync (0, ex_ss)) = Inr True"
    by (simp add: ex_sync_def ex_aft_def InitialSyncStoppingCondition_def gotIPs_def Let_def)
  with InitialSyncStoppingCondition_done [of "\<lambda>w g. set g = set w" ex_aft "[''10.0.0.0/8'']" "[''192.0.2.1'']" "[]" 0
      ex_ss, folded ex_sync_def]
  show ?thesis by (simp add: ex_ss_def NewAFTStreamSession_def)
qed

text \<open>A table with one prefix whose group does not exist yet: its next hops are not the wanted ones.\<close>

definition ex_partial :: AFTData where
  "ex_partial = newAFT\<lparr>Prefixes := [''10.0.0.0/8'' \<mapsto> 7]\<rparr>"

theorem InitialSyncStoppingCondition_limit_witness:
  "InitialSyncStoppingCondition (\<lambda>_. Inr ex_partial) (\<lambda>w g. set g = set w) [''10.0.0.0/8''] [''192.0.2.1''] []
      (19, NewAFTStreamSession () ''dut'') =
    ((20, (NewAFTStreamSession () ''dut'')\<lparr>missingPrefixes := [], failingNHPrefixes := [''10.0.0.0/8'']\<rparr>),
     Inl NHCheckFails)"
proof -
  have "check_nhs (\<lambda>w g. set g = set w) ex_partial [''192.0.2.1''] [] [''10.0.0.0/8''] 0 [] = ([''10.0.0.0/8''], Inr 0)"
    by (simp add: ex_partial_def newAFT_def gotIPs_def resolveRoute_def resolveRouteCBF_def resolve_loop.simps)
  from InitialSyncStoppingCondition_limit [of "\<lambda>_. Inr ex_partial" "NewAFTStreamSession () ''dut''" ex_partial
      "[''10.0.0.0/8'']", OF _ _ this, of 19]
  show ?thesis by (simp add: ex_partial_def)
qed

end
