(* ===== verification/Go_Map.thy ===== *)
theory Go_Map
  imports FP_Prelude "HOL-Library.Mapping" "HOL-Library.AList_Mapping" "HOL-Library.List_Lexorder"
    "HOL-Library.Char_ord"
begin

text \<open>
  Go maps with string keys as \<open>mapping\<close>s. A \<^verbatim>\<open>range\<close> loop goes through the entries in an order \<open>ord\<close>
  chosen by the runtime: a permutation of the entries sorted by key. Strings are ordered bytewise, as
  in Go.
\<close>

type_synonym 'a gomap = "(string, 'a) mapping"
type_synonym 'a enum = "(string \<times> 'a) list \<Rightarrow> (string \<times> 'a) list"

definition range_order :: "'a enum \<Rightarrow> 'a gomap \<Rightarrow> (string \<times> 'a) list" where
  "range_order ord m = ord (Mapping.ordered_entries m)"

definition permutes_entries :: "'a enum \<Rightarrow> bool" where
  "permutes_entries ord \<longleftrightarrow> (\<forall>xs. mset (ord xs) = mset xs)"

lemma permutes_rev [simp]: "permutes_entries rev" and permutes_id [simp]: "permutes_entries id"
  and permutes_ident [simp]: "permutes_entries (\<lambda>xs. xs)"
  by (simp_all add: permutes_entries_def)

lemma update_swap: "k \<noteq> l \<Longrightarrow> Mapping.update k v (Mapping.update l w m) = Mapping.update l w (Mapping.update k v m)"
  by (rule mapping_eqI) (auto simp: lookup_update')

lemma in_ordered_entries:
  "finite (Mapping.keys d) \<Longrightarrow> (k, c) \<in> set (Mapping.ordered_entries d) \<longleftrightarrow> Mapping.lookup d k = Some c"
  using in_entriesI in_entriesD by fastforce

lemma distinct_range_order: "permutes_entries ord \<Longrightarrow> distinct (map fst (range_order ord d))"
  unfolding permutes_entries_def range_order_def
  using distinct_ordered_entries [of d] by (metis mset_eq_imp_distinct_iff mset_map)

lemma mset_range_order: "permutes_entries ord \<Longrightarrow> mset (range_order ord d) = mset (Mapping.ordered_entries d)"
  by (simp add: permutes_entries_def range_order_def)

lemma set_range_order: "permutes_entries ord \<Longrightarrow> set (range_order ord d) = set (Mapping.ordered_entries d)"
  unfolding permutes_entries_def range_order_def by (metis set_mset_mset)

lemma in_range_order:
  "permutes_entries ord \<Longrightarrow> finite (Mapping.keys d) \<Longrightarrow>
    (k, c) \<in> set (range_order ord d) \<longleftrightarrow> Mapping.lookup d k = Some c"
  by (simp only: set_range_order in_ordered_entries)

lemma map_of_range_order:
  assumes "permutes_entries ord" and "finite (Mapping.keys d)"
  shows "map_of (range_order ord d) k = Mapping.lookup d k"
  using in_range_order [OF assms, of k] distinct_range_order [OF assms(1), of d]
  by (cases "Mapping.lookup d k") (auto simp: map_of_eq_None_iff)

end
