(* ===== verification/Core_Files.thy ===== *)
theory Core_Files
  imports Go_Map
begin

text \<open>
  \<^verbatim>\<open>internal/core/core.go\<close>: the validator that looks for new core files on every reserved device
  before and after a test module.

  A Go map is a \<open>mapping\<close>; a \<^verbatim>\<open>range\<close> loop visits its entries in an order \<open>ord\<close> chosen by the
  runtime, and so do the goroutines that check the devices in parallel: each writes its own
  checker and, under the lock, its own entry of the result. The gNOI file service of a device at the
  time of a check is a parameter \<open>world d\<close>, the answer of \<^verbatim>\<open>Stat\<close> for each path. The regular
  expressions of the vendors use literals, \<^verbatim>\<open>.\<close> and \<^verbatim>\<open>.*\<close> only; \<open>matchString\<close> is Go's unanchored
  match for these.

  The interpretation of \<open>range_loop\<close> says that the order of the goroutines does not matter; the
  lemmas on \<open>validator_check\<close> give its result entry by entry.
\<close>

datatype pat = Lit char | AnyChar | AnyStar

fun match_here :: "pat list \<Rightarrow> string \<Rightarrow> bool" where
  "match_here [] s \<longleftrightarrow> True"
| "match_here (Lit c # ps) s \<longleftrightarrow> (case s of [] \<Rightarrow> False | x # xs \<Rightarrow> x = c \<and> match_here ps xs)"
| "match_here (AnyChar # ps) s \<longleftrightarrow> (case s of [] \<Rightarrow> False | x # xs \<Rightarrow> x \<noteq> CHR 0x0A \<and> match_here ps xs)"
| "match_here (AnyStar # ps) [] \<longleftrightarrow> match_here ps []"
| "match_here (AnyStar # ps) (x # xs) \<longleftrightarrow>
     match_here ps (x # xs) \<or> (x \<noteq> CHR 0x0A \<and> match_here (AnyStar # ps) xs)"

fun matchString :: "pat list \<Rightarrow> string \<Rightarrow> bool" where
  "matchString ps [] \<longleftrightarrow> match_here ps []"
| "matchString ps (x # xs) \<longleftrightarrow> match_here ps (x # xs) \<or> matchString ps xs"

datatype vendor = JUNIPER | CISCO | NOKIA | ARISTA | OtherVendor string

fun vendorCoreFilePath :: "vendor \<Rightarrow> string option" where
  "vendorCoreFilePath JUNIPER = Some ''/var/core/''"
| "vendorCoreFilePath CISCO = Some ''/misc/disk1/''"
| "vendorCoreFilePath NOKIA = Some ''/var/core/''"
| "vendorCoreFilePath ARISTA = Some ''/var/core/''"
| "vendorCoreFilePath (OtherVendor v) = None"

fun vendorCoreFileNamePattern :: "vendor \<Rightarrow> pat list option" where
  "vendorCoreFileNamePattern JUNIPER =
     Some ([AnyStar, AnyChar] @ map Lit ''tar'' @ [AnyChar] @ map Lit ''gz'')"
| "vendorCoreFileNamePattern CISCO = Some (map Lit ''/misc/disk1/'' @ [AnyStar] @ map Lit ''core'' @ [AnyStar])"
| "vendorCoreFileNamePattern NOKIA = Some (map Lit ''/var/core/coredump-'' @ [AnyStar])"
| "vendorCoreFileNamePattern ARISTA = Some (map Lit ''/var/core/core'' @ [AnyStar])"
| "vendorCoreFileNamePattern (OtherVendor v) = None"

record fileInfo =
  Name :: string
  Modified :: "64 word"

type_synonym coreFiles = "(string, fileInfo) mapping"

record dut =
  dut_name :: string
  dut_vendor :: vendor
  dut_dial :: "string option"

record file_stat =
  fs_path :: string
  fs_modified :: "64 word"

type_synonym stat_fn = "string \<Rightarrow> (string, file_stat list) res"

datatype core_error =
    NoCorePath vendor
  | NoCorePattern vendor
  | DialError string
  | CoreDirError string string
  | CoreFileError string string string

record checker =
  c_dut :: dut
  prevCores :: coreFiles

definition newChecker :: "dut \<Rightarrow> (core_error, checker) res" where
  "newChecker d =
     (if vendorCoreFilePath (dut_vendor d) = None then Inl (NoCorePath (dut_vendor d))
      else if vendorCoreFileNamePattern (dut_vendor d) = None then Inl (NoCorePattern (dut_vendor d))
      else case dut_dial d of
        Some e \<Rightarrow> Inl (DialError e)
      | None \<Rightarrow> Inr \<lparr>c_dut = d, prevCores = Mapping.empty\<rparr>)"

definition add_matched :: "pat list \<Rightarrow> 64 word \<Rightarrow> file_stat \<Rightarrow> coreFiles \<Rightarrow> coreFiles" where
  "add_matched fileMatch modified fm cores =
     (if matchString fileMatch (fs_path fm)
      then Mapping.update (fs_path fm) \<lparr>Name = fs_path fm, Modified = modified\<rparr> cores
      else cores)"

fun checkCores_loop ::
  "stat_fn \<Rightarrow> string \<Rightarrow> pat list \<Rightarrow> file_stat list \<Rightarrow> coreFiles \<Rightarrow> (core_error, coreFiles) res" where
  "checkCores_loop stat dn fileMatch [] cores = Inr cores"
| "checkCores_loop stat dn fileMatch (fi # fis) cores =
     (case stat (fs_path fi) of
        Inl e \<Rightarrow> Inl (CoreFileError dn (fs_path fi) e)
      | Inr matched \<Rightarrow>
          checkCores_loop stat dn fileMatch fis (fold (add_matched fileMatch (fs_modified fi)) matched cores))"

text \<open>Every checker has a vendor with a path and a pattern (\<open>newChecker\<close>); for another vendor the
  path is the empty string and the nil pattern panics when it is first used, which \<open>checkCores\<close>
  never meets.\<close>

definition checkCores :: "stat_fn \<Rightarrow> checker \<Rightarrow> (core_error, coreFiles) res" where
  "checkCores stat c =
     (let v = dut_vendor (c_dut c);
          corePath = (case vendorCoreFilePath v of None \<Rightarrow> [] | Some p \<Rightarrow> p);
          fileMatch = (case vendorCoreFileNamePattern v of None \<Rightarrow> [] | Some r \<Rightarrow> r) in
      case stat corePath of
        Inl e \<Rightarrow> Inl (CoreDirError corePath e)
      | Inr infos \<Rightarrow> checkCores_loop stat (dut_name (c_dut c)) fileMatch infos Mapping.empty)"

definition checker_check :: "stat_fn \<Rightarrow> checker \<Rightarrow> checker \<times> (core_error, coreFiles) res" where
  "checker_check stat c =
     (case checkCores stat c of
        Inl e \<Rightarrow> (c, Inl e)
      | Inr cores \<Rightarrow>
          (c\<lparr>prevCores := cores\<rparr>,
           Inr (Mapping.filter (\<lambda>k v. Mapping.lookup (prevCores c) k = None) cores)))"


section \<open>The validator\<close>

datatype status = StatusOK | StatusFailed string core_error

record dutCoreFiles =
  DUT :: string
  Files :: coreFiles
  Status :: status

definition dut_report :: "stat_fn \<Rightarrow> checker \<Rightarrow> dutCoreFiles" where
  "dut_report stat c =
     (let n = dut_name (c_dut c) in
      case snd (checker_check stat c) of
        Inl e \<Rightarrow> \<lparr>DUT = n, Files = Mapping.empty, Status = StatusFailed n e\<rparr>
      | Inr cores \<Rightarrow> \<lparr>DUT = n, Files = cores, Status = StatusOK\<rparr>)"

type_synonym duts = "(string, checker) mapping"
type_synonym reports = "(string, dutCoreFiles) mapping"

definition check_step :: "(dut \<Rightarrow> stat_fn) \<Rightarrow> string \<times> checker \<Rightarrow> duts \<times> reports \<Rightarrow> duts \<times> reports" where
  "check_step world kc st =
     (let (k, c) = kc; (duts, dutCores) = st; stat = world (c_dut c) in
      (Mapping.update k (fst (checker_check stat c)) duts,
       Mapping.update (dut_name (c_dut c)) (dut_report stat c) dutCores))"

definition validator_check :: "checker enum \<Rightarrow> (dut \<Rightarrow> stat_fn) \<Rightarrow> duts \<Rightarrow> duts \<times> reports" where
  "validator_check ord world duts =
     fold (check_step world) (range_order ord duts) (duts, Mapping.empty)"

definition register_step :: "string \<times> dut \<Rightarrow> duts \<Rightarrow> duts" where
  "register_step kd v = (case newChecker (snd kd) of Inl e \<Rightarrow> v | Inr c \<Rightarrow> Mapping.update (fst kd) c v)"

definition start ::
  "dut enum \<Rightarrow> checker enum \<Rightarrow> (dut \<Rightarrow> stat_fn) \<Rightarrow> (string, dut) mapping \<Rightarrow> duts \<Rightarrow> duts \<times> reports" where
  "start ordd ord world ds v = validator_check ord world (fold register_step (range_order ordd ds) v)"

definition stop :: "checker enum \<Rightarrow> (dut \<Rightarrow> stat_fn) \<Rightarrow> duts \<Rightarrow> duts \<times> reports" where
  "stop ord world v = validator_check ord world v"

text \<open>\<^verbatim>\<open>text/template\<close> ranges over a map in the order of its keys.\<close>

definition createReport :: "reports \<Rightarrow> string" where
  "createReport d =
     CHR 0x0A # ''Delta Core Files by DUT:'' @
     concat (map (\<lambda>(k, r). '' '' @ CHR 0x0A # ''DUT: '' @ k @
        concat (map (\<lambda>f. CHR 0x0A # ''  '' @ f) (Mapping.ordered_keys (Files r)))) (Mapping.ordered_entries d))"

record core_state =
  v_duts :: duts
  suite_props :: "(string \<times> string) list"

definition registerBefore ::
  "dut enum \<Rightarrow> checker enum \<Rightarrow> (dut \<Rightarrow> stat_fn) \<Rightarrow> (string, dut) mapping \<Rightarrow> core_state \<Rightarrow> core_state" where
  "registerBefore ordd ord world ds st =
     (let (v, cores) = start ordd ord world ds (v_duts st) in
      \<lparr>v_duts = v, suite_props = suite_props st @
         [(''validator.core'', ''enabled''), (''validator.core.initial'', createReport cores)]\<rparr>)"

definition found_cores :: "reports \<Rightarrow> bool" where
  "found_cores cores \<longleftrightarrow> list_ex (\<lambda>(k, r). 0 < Mapping.size (Files r)) (Mapping.ordered_entries cores)"

definition registerAfter :: "checker enum \<Rightarrow> (dut \<Rightarrow> stat_fn) \<Rightarrow> core_state \<Rightarrow> core_state \<times> string option" where
  "registerAfter ord world st =
     (let (v, cores) = stop ord world (v_duts st);
          report = createReport cores;
          msg = ''core file check found cores:'' @ CHR 0x0A # report in
      (\<lparr>v_duts = v, suite_props = suite_props st @ [(''validator.core.end'', report)]\<rparr>,
       if found_cores cores then Some msg else None))"

definition Register :: core_state where
  "Register = \<lparr>v_duts = Mapping.empty, suite_props = []\<rparr>"


section \<open>The order of the goroutines does not matter\<close>

text \<open>\<open>id_of\<close> gives the reservation's identifier of a device name: no two devices share a name.\<close>

definition entries_of :: "(string \<Rightarrow> string) \<Rightarrow> duts \<Rightarrow> (string \<times> checker) set" where
  "entries_of id_of d = {(k, c). Mapping.lookup d k = Some c \<and> id_of (dut_name (c_dut c)) = k}"

interpretation goroutines: range_loop "check_step world" "entries_of id_of d" for world id_of d
proof
  fix x y :: "string \<times> checker" and s
  assume A: "x \<in> entries_of id_of d" "y \<in> entries_of id_of d"
  obtain k c l e where xy: "x = (k, c)" "y = (l, e)" by (cases x, cases y)
  have "Mapping.lookup d k = Some c" "Mapping.lookup d l = Some e"
    and "id_of (dut_name (c_dut c)) = k" "id_of (dut_name (c_dut e)) = l"
    using A by (simp_all only: xy entries_of_def mem_Collect_eq prod.case)
  then have "x = y \<or> (k \<noteq> l \<and> dut_name (c_dut c) \<noteq> dut_name (c_dut e))"
    unfolding xy by (metis option.inject)
  then show "check_step world x (check_step world y s) = check_step world y (check_step world x s)"
  proof
    assume ne: "k \<noteq> l \<and> dut_name (c_dut c) \<noteq> dut_name (c_dut e)"
    then show ?thesis
      by (cases s) (simp only: check_step_def xy Let_def prod.case prod.inject,
          rule conjI; rule update_swap, simp only: not_False_eq_True)
  qed simp
qed

definition unique_names :: "(string \<times> checker) list \<Rightarrow> bool" where
  "unique_names es \<longleftrightarrow> distinct (map fst es) \<and> distinct (map (\<lambda>kc. dut_name (c_dut (snd kc))) es)"

lemma fold_check_step:
  assumes "unique_names es"
  shows "Mapping.lookup (fst (fold (check_step w) es st)) k =
      (case map_of es k of Some c \<Rightarrow> Some (fst (checker_check (w (c_dut c)) c)) | None \<Rightarrow> Mapping.lookup (fst st) k)"
    and "Mapping.lookup (snd (fold (check_step w) es st)) n =
      (case map_of (map (\<lambda>kc. (dut_name (c_dut (snd kc)), snd kc)) es) n of
         Some c \<Rightarrow> Some (dut_report (w (c_dut c)) c) | None \<Rightarrow> Mapping.lookup (snd st) n)"
  using assms
proof (induction es arbitrary: st)
  case (Cons kc es)
  obtain k' c where kc: "kc = (k', c)" by fastforce
  { case 1
    with Cons.IH(1) [of "check_step w kc st"] kc show ?case
      by (auto simp: unique_names_def check_step_def Let_def lookup_update' image_iff
          split: prod.splits option.splits dest!: map_of_SomeD) }
  { case 2
    with Cons.IH(2) [of "check_step w kc st"] kc show ?case
      by (auto simp: unique_names_def check_step_def Let_def lookup_update' image_iff
          split: prod.splits option.splits dest!: map_of_SomeD) }
qed (auto simp: unique_names_def)


lemma unique_names_entries:
  assumes "mset es = mset (Mapping.ordered_entries d)" and "finite (Mapping.keys d)"
    and "\<And>k c. Mapping.lookup d k = Some c \<Longrightarrow> id_of (dut_name (c_dut c)) = k"
  shows "unique_names es"
proof -
  have set: "set es = set (Mapping.ordered_entries d)" using assms(1) by (metis set_mset_mset)
  have "distinct (map fst es)"
    using assms(1) distinct_ordered_entries [of d] by (metis mset_eq_imp_distinct_iff mset_map)
  moreover from this have "distinct es" by (simp add: distinct_map)
  moreover have "inj_on (\<lambda>kc. dut_name (c_dut (snd kc))) (set es)"
  proof (rule inj_onI)
    fix x y
    assume xy: "x \<in> set es" "y \<in> set es" "dut_name (c_dut (snd x)) = dut_name (c_dut (snd y))"
    then have l: "Mapping.lookup d (fst x) = Some (snd x)" "Mapping.lookup d (fst y) = Some (snd y)"
      using set assms(2) in_ordered_entries [of d] by (metis prod.collapse)+
    with assms(3) xy(3) have "fst x = fst y" by metis
    with l show "x = y" by (simp add: prod_eq_iff)
  qed
  ultimately show ?thesis by (simp add: unique_names_def distinct_map)
qed

definition names_ok :: "(string \<Rightarrow> string) \<Rightarrow> duts \<Rightarrow> bool" where
  "names_ok id_of d \<longleftrightarrow> finite (Mapping.keys d)
     \<and> (\<forall>k c. Mapping.lookup d k = Some c \<longrightarrow> id_of (dut_name (c_dut c)) = k)"

lemma validator_check_result:
  assumes "permutes_entries ord" and ok: "names_ok id_of d"
  shows "Mapping.lookup (fst (validator_check ord w d)) k =
      map_option (\<lambda>c. fst (checker_check (w (c_dut c)) c)) (Mapping.lookup d k)"
    and "Mapping.lookup (snd (validator_check ord w d)) n = Some r \<longleftrightarrow>
      (\<exists>k c. Mapping.lookup d k = Some c \<and> dut_name (c_dut c) = n \<and> r = dut_report (w (c_dut c)) c)"
proof -
  let ?es = "range_order ord d"
  have fin: "finite (Mapping.keys d)" using ok by (simp add: names_ok_def)
  have u: "unique_names ?es"
    using mset_range_order [OF assms(1)] ok unfolding names_ok_def
    by (intro unique_names_entries [of _ d id_of]) blast+
  note in_es = in_range_order [OF assms(1) fin]
  have "map_of ?es k = Mapping.lookup d k" by (rule map_of_range_order [OF assms(1) fin])
  then show "Mapping.lookup (fst (validator_check ord w d)) k =
      map_option (\<lambda>c. fst (checker_check (w (c_dut c)) c)) (Mapping.lookup d k)"
    by (simp add: validator_check_def fold_check_step [OF u] split: option.splits)
  have dn: "distinct (map fst (map (\<lambda>kc. (dut_name (c_dut (snd kc)), snd kc)) ?es))"
    using u by (simp add: unique_names_def comp_def)
  have m: "map_of (map (\<lambda>kc. (dut_name (c_dut (snd kc)), snd kc)) ?es) n = Some c \<longleftrightarrow>
      (\<exists>k. Mapping.lookup d k = Some c \<and> dut_name (c_dut c) = n)" for c
    by (subst map_of_eq_Some_iff [OF dn]) (force simp flip: in_es)
  have "Mapping.lookup (snd (validator_check ord w d)) n = Some r \<longleftrightarrow>
      (\<exists>c. map_of (map (\<lambda>kc. (dut_name (c_dut (snd kc)), snd kc)) ?es) n = Some c \<and> r = dut_report (w (c_dut c)) c)"
    by (auto simp: validator_check_def fold_check_step [OF u] split: option.splits)
  then show "Mapping.lookup (snd (validator_check ord w d)) n = Some r \<longleftrightarrow>
      (\<exists>k c. Mapping.lookup d k = Some c \<and> dut_name (c_dut c) = n \<and> r = dut_report (w (c_dut c)) c)"
    unfolding m by blast
qed


lemma finite_found_cores:
  assumes "finite (Mapping.keys cores)" and "\<And>n r. Mapping.lookup cores n = Some r \<Longrightarrow> finite (Mapping.keys (Files r))"
  shows "found_cores cores \<longleftrightarrow> (\<exists>n r f. Mapping.lookup cores n = Some r \<and> f \<in> Mapping.keys (Files r))"
proof -
  have "0 < Mapping.size (Files r) \<longleftrightarrow> (\<exists>f. f \<in> Mapping.keys (Files r))" if "Mapping.lookup cores n = Some r" for n r
    using assms(2) [OF that] by (auto simp: Mapping.size_def card_gt_0_iff)
  then show ?thesis
    using in_ordered_entries [OF assms(1)] unfolding found_cores_def list_ex_iff by fastforce
qed

lemma finite_checkCores_loop:
  "checkCores_loop stat dn pt fis cores = Inr cores' \<Longrightarrow> finite (Mapping.keys cores) \<Longrightarrow> finite (Mapping.keys cores')"
proof (induction fis arbitrary: cores)
  case (Cons fi fis)
  have "finite (Mapping.keys (fold (add_matched pt m) ms cs))" if "finite (Mapping.keys cs)" for ms m cs
    using that by (induction ms arbitrary: cs) (auto simp: add_matched_def)
  with Cons show ?case by (auto split: sum.splits)
qed simp

lemma finite_checkCores: "checkCores stat c = Inr cores \<Longrightarrow> finite (Mapping.keys cores)"
  unfolding checkCores_def Let_def by (auto split: sum.splits dest: finite_checkCores_loop)

lemma keys_new:
  "f \<in> Mapping.keys (Mapping.filter (\<lambda>k v. Mapping.lookup p k = None) cores) \<longleftrightarrow>
    f \<in> Mapping.keys cores \<and> f \<notin> Mapping.keys p"
  by (auto simp: keys_dom_lookup lookup_filter split: option.splits if_splits)

lemma keys_dut_report:
  "f \<in> Mapping.keys (Files (dut_report stat c)) \<longleftrightarrow>
    (\<exists>cores. checkCores stat c = Inr cores \<and> f \<in> Mapping.keys cores \<and> f \<notin> Mapping.keys (prevCores c))"
  by (auto simp: dut_report_def checker_check_def Let_def keys_new split: sum.splits)

lemma register_lookup:
  assumes "finite (Mapping.keys ds)" and "permutes_entries ordd"
  shows "Mapping.lookup (fold register_step (range_order ordd ds) Mapping.empty) k =
    (case Mapping.lookup ds k of None \<Rightarrow> None | Some d \<Rightarrow> (case newChecker d of Inl e \<Rightarrow> None | Inr c \<Rightarrow> Some c))"
proof -
  have fold: "distinct (map fst es) \<Longrightarrow> Mapping.lookup (fold register_step es v) k =
    (case map_of es k of None \<Rightarrow> Mapping.lookup v k
     | Some d \<Rightarrow> (case newChecker d of Inl e \<Rightarrow> Mapping.lookup v k | Inr c \<Rightarrow> Some c))" for es v
    by (induction es arbitrary: v)
      (auto simp: register_step_def lookup_update' split: sum.splits option.splits dest: map_of_SomeD intro: rev_image_eqI)
  let ?es = "range_order ordd ds"
  have "distinct (map fst ?es)" by (rule distinct_range_order [OF assms(2)])
  moreover have "map_of ?es k = Mapping.lookup ds k" by (rule map_of_range_order [OF assms(2,1)])
  ultimately show ?thesis by (simp add: fold split: option.splits sum.splits)
qed



section \<open>What the validator reports\<close>

text \<open>The files the validator sees on a device: the matching entries of its core directory.\<close>

definition cores_on :: "stat_fn \<Rightarrow> dut \<Rightarrow> (core_error, coreFiles) res" where
  "cores_on stat d = checkCores stat \<lparr>c_dut = d, prevCores = Mapping.empty\<rparr>"

lemma checkCores_cores_on: "checkCores stat c = cores_on stat (c_dut c)"
  by (simp add: cores_on_def checkCores_def Let_def split: sum.split)

lemma newChecker_fresh: "newChecker d = Inr c \<Longrightarrow> c_dut c = d \<and> prevCores c = Mapping.empty"
  by (auto simp: newChecker_def split: if_splits option.splits)

lemma c_dut_check [simp]: "c_dut (fst (checker_check st c)) = c_dut c"
  by (simp add: checker_check_def split: sum.splits)

lemma not_in_prevCores:
  "f \<notin> Mapping.keys (prevCores (fst (checker_check st \<lparr>c_dut = d, prevCores = Mapping.empty\<rparr>))) \<longleftrightarrow>
    (\<forall>old. cores_on st d = Inr old \<longrightarrow> f \<notin> Mapping.keys old)"
  by (simp add: checker_check_def checkCores_cores_on split: sum.splits)

lemma names_ok_register:
  assumes "finite (Mapping.keys ds)" and "\<And>k d. Mapping.lookup ds k = Some d \<Longrightarrow> id_of (dut_name d) = k"
    and "permutes_entries ordd"
  shows "names_ok id_of (fold register_step (range_order ordd ds) Mapping.empty)"
    (is "names_ok id_of ?v")
proof -
  note l = register_lookup [OF assms(1,3)]
  have "Mapping.keys ?v \<subseteq> Mapping.keys ds"
    by (auto simp: keys_dom_lookup l split: option.splits)
  with assms(1) have "finite (Mapping.keys ?v)" by (rule rev_finite_subset)
  moreover have "id_of (dut_name (c_dut c)) = k" if "Mapping.lookup ?v k = Some c" for k c
    using that assms(2) by (auto simp: l split: option.splits sum.splits dest: newChecker_fresh)
  ultimately show ?thesis by (simp add: names_ok_def)
qed

lemma names_ok_check:
  assumes "permutes_entries ord" and "names_ok id_of d"
  shows "names_ok id_of (fst (validator_check ord w d))"
  using assms(2) validator_check_result(1) [OF assms]
  by (auto simp: names_ok_def keys_dom_lookup dom_def)

lemma found_in_check:
  assumes "permutes_entries ord" and "names_ok id_of d"
  shows "found_cores (snd (validator_check ord w d)) \<longleftrightarrow>
    (\<exists>k c f. Mapping.lookup d k = Some c \<and> f \<in> Mapping.keys (Files (dut_report (w (c_dut c)) c)))"
proof -
  note l = validator_check_result(2) [OF assms]
  have "finite ((\<lambda>k. dut_name (c_dut (the (Mapping.lookup d k)))) ` Mapping.keys d)"
    using assms(2) by (simp add: names_ok_def)
  moreover have "Mapping.keys (snd (validator_check ord w d)) \<subseteq>
      (\<lambda>k. dut_name (c_dut (the (Mapping.lookup d k)))) ` Mapping.keys d"
    by (force simp: keys_dom_lookup l dom_def)
  ultimately have "finite (Mapping.keys (snd (validator_check ord w d)))" by (rule rev_finite_subset)
  moreover have "finite (Mapping.keys (Files r))" if "Mapping.lookup (snd (validator_check ord w d)) n = Some r" for n r
    using that unfolding l
    by (auto simp: dut_report_def checker_check_def Let_def split: sum.splits
        dest: finite_checkCores intro: finite_subset [OF Mapping.keys_filter])
  ultimately have "found_cores (snd (validator_check ord w d)) \<longleftrightarrow>
      (\<exists>n r f. Mapping.lookup (snd (validator_check ord w d)) n = Some r \<and> f \<in> Mapping.keys (Files r))"
    by (rule finite_found_cores)
  then show ?thesis unfolding l by blast
qed

text \<open>A core file that a monitored device has at the end and did not have, under that name, at the start: monitored means its vendor is supported and it could
  be dialled; a check that failed at the start found none.\<close>

definition new_core :: "(dut \<Rightarrow> stat_fn) \<Rightarrow> (dut \<Rightarrow> stat_fn) \<Rightarrow> dut \<Rightarrow> string \<Rightarrow> bool" where
  "new_core w0 w1 d f \<longleftrightarrow> \<not> isl (newChecker d)
     \<and> (\<exists>cores. cores_on (w1 d) d = Inr cores \<and> f \<in> Mapping.keys cores) \<and> (\<forall>old. cores_on (w0 d) d = Inr old \<longrightarrow> f \<notin> Mapping.keys old)"

lemma dut_report_new:
  "f \<in> Mapping.keys (Files (dut_report (w1 d) (fst (checker_check (w0 d) \<lparr>c_dut = d, prevCores = Mapping.empty\<rparr>)))) \<longleftrightarrow>
     (\<exists>cores. cores_on (w1 d) d = Inr cores \<and> f \<in> Mapping.keys cores) \<and> (\<forall>old. cores_on (w0 d) d = Inr old \<longrightarrow> f \<notin> Mapping.keys old)"
  unfolding keys_dut_report checkCores_cores_on c_dut_check not_in_prevCores checker.select_convs by blast

text \<open>The reports at the end: one for every monitored device, made with what the check at the start left behind.\<close>

definition final_reports :: "dut enum \<Rightarrow> checker enum \<Rightarrow> checker enum \<Rightarrow> (dut \<Rightarrow> stat_fn) \<Rightarrow> (dut \<Rightarrow> stat_fn) \<Rightarrow> (string, dut) mapping \<Rightarrow> reports" where
  "final_reports ordd ord0 ord1 w0 w1 ds =
     snd (validator_check ord1 w1 (fst (validator_check ord0 w0 (fold register_step (range_order ordd ds) Mapping.empty))))"

lemma final_reports_lookup:
  assumes fin: "finite (Mapping.keys ds)" and names0: "\<forall>k d. Mapping.lookup ds k = Some d \<longrightarrow> id_of (dut_name d) = k"
    and ord: "permutes_entries ordd" "permutes_entries ord0" "permutes_entries ord1"
  shows "Mapping.lookup (final_reports ordd ord0 ord1 w0 w1 ds) n = Some r \<longleftrightarrow>
      (\<exists>k d. Mapping.lookup ds k = Some d \<and> \<not> isl (newChecker d) \<and> dut_name d = n
         \<and> r = dut_report (w1 d) (fst (checker_check (w0 d) \<lparr>c_dut = d, prevCores = Mapping.empty\<rparr>)))"
    and "found_cores (final_reports ordd ord0 ord1 w0 w1 ds) \<longleftrightarrow>
      (\<exists>n r f. Mapping.lookup (final_reports ordd ord0 ord1 w0 w1 ds) n = Some r \<and> f \<in> Mapping.keys (Files r))"
proof -
  note names = names0 [rule_format]
  define v0 where "v0 = fold register_step (range_order ordd ds) Mapping.empty"
  have ok0: "names_ok id_of v0"
    unfolding v0_def using fin names ord(1) by (intro names_ok_register) auto
  note v0 = register_lookup [OF fin ord(1), folded v0_def]
  have v0_iff: "Mapping.lookup v0 k = Some c \<longleftrightarrow>
      (\<exists>d. Mapping.lookup ds k = Some d \<and> \<not> isl (newChecker d) \<and> c = \<lparr>c_dut = d, prevCores = Mapping.empty\<rparr>)" for k c
    using newChecker_fresh by (cases c) (fastforce simp: v0 isl_def split: option.splits sum.splits)
  note ok1 = names_ok_check [OF ord(2) ok0, of w0]
  show "Mapping.lookup (final_reports ordd ord0 ord1 w0 w1 ds) n = Some r \<longleftrightarrow>
      (\<exists>k d. Mapping.lookup ds k = Some d \<and> \<not> isl (newChecker d) \<and> dut_name d = n
         \<and> r = dut_report (w1 d) (fst (checker_check (w0 d) \<lparr>c_dut = d, prevCores = Mapping.empty\<rparr>)))"
    unfolding final_reports_def v0_def [symmetric] validator_check_result(2) [OF ord(3) ok1] validator_check_result(1) [OF ord(2) ok0] map_option_eq_Some v0_iff
    by fastforce
  show "found_cores (final_reports ordd ord0 ord1 w0 w1 ds) \<longleftrightarrow>
      (\<exists>n r f. Mapping.lookup (final_reports ordd ord0 ord1 w0 w1 ds) n = Some r \<and> f \<in> Mapping.keys (Files r))"
    unfolding final_reports_def v0_def [symmetric] found_in_check [OF ord(3) ok1] validator_check_result(2) [OF ord(3) ok1] by blast
qed

text \<open>C16: The end-of-module check reports, for every monitored device and no other, exactly the names of the core files that it has and did not have at the start, and
  fails the module exactly when there is one, with that report as its message: monitored means that the vendor is supported and the device could be dialled; a
  device whose check failed at the start counts as having had none, and one whose check fails at the end has none. Files are compared by name only, so that a core
  file written again under its old name is not reported. This holds for every order in which the maps are ranged over and the goroutines run, provided no two
  devices share a name.\<close>

theorem registerAfter_reports_new_cores:
  assumes fin: "finite (Mapping.keys ds)"
    and names0: "\<forall>k d. Mapping.lookup ds k = Some d \<longrightarrow> id_of (dut_name d) = k"
    and ord: "permutes_entries ordd" "permutes_entries ord0" "permutes_entries ord1"
  shows "\<exists>reps. last (suite_props (fst (registerAfter ord1 w1 (registerBefore ordd ord0 w0 ds Register)))) = (''validator.core.end'', createReport reps)
    \<and> snd (registerAfter ord1 w1 (registerBefore ordd ord0 w0 ds Register)) =
        (if \<exists>k d f. Mapping.lookup ds k = Some d \<and> new_core w0 w1 d f
         then Some (''core file check found cores:'' @ CHR 0x0A # createReport reps) else None)
    \<and> (\<forall>n. n \<in> Mapping.keys reps \<longleftrightarrow> (\<exists>k d. Mapping.lookup ds k = Some d \<and> \<not> isl (newChecker d) \<and> dut_name d = n))
    \<and> (\<forall>n r f. Mapping.lookup reps n = Some r \<longrightarrow>
         (f \<in> Mapping.keys (Files r) \<longleftrightarrow> (\<exists>k d. Mapping.lookup ds k = Some d \<and> dut_name d = n \<and> new_core w0 w1 d f)))"
proof -
  note names = names0 [rule_format]
  define reps where "reps = final_reports ordd ord0 ord1 w0 w1 ds"
  note rep = final_reports_lookup(1) [where ?w0.0 = w0 and ?w1.0 = w1, OF fin names0 ord, folded reps_def]
  have same: "d = d'" if "Mapping.lookup ds k = Some d" "Mapping.lookup ds k' = Some d'" "dut_name d = dut_name d'" for k k' d d'
    using that names by (metis option.inject)
  have files: "f \<in> Mapping.keys (Files r) \<longleftrightarrow> (\<exists>k d. Mapping.lookup ds k = Some d \<and> dut_name d = n \<and> new_core w0 w1 d f)"
    if r: "Mapping.lookup reps n = Some r" for n r f
  proof -
    obtain k d where d: "Mapping.lookup ds k = Some d" "\<not> isl (newChecker d)" "dut_name d = n"
      "r = dut_report (w1 d) (fst (checker_check (w0 d) \<lparr>c_dut = d, prevCores = Mapping.empty\<rparr>))" using r unfolding rep by blast
    then have "f \<in> Mapping.keys (Files r) \<longleftrightarrow> new_core w0 w1 d f" using dut_report_new by (simp add: new_core_def)
    then show ?thesis using d(1,3) same by blast
  qed
  have "found_cores reps \<longleftrightarrow> (\<exists>n r f. Mapping.lookup reps n = Some r \<and> f \<in> Mapping.keys (Files r))"
    using final_reports_lookup(2) [OF fin names0 ord] unfolding reps_def .
  also have "\<dots> \<longleftrightarrow> (\<exists>k d f. Mapping.lookup ds k = Some d \<and> new_core w0 w1 d f)"
  proof
    assume "\<exists>n r f. Mapping.lookup reps n = Some r \<and> f \<in> Mapping.keys (Files r)"
    then show "\<exists>k d f. Mapping.lookup ds k = Some d \<and> new_core w0 w1 d f" using files by blast
  next
    assume "\<exists>k d f. Mapping.lookup ds k = Some d \<and> new_core w0 w1 d f"
    then obtain k d f where d: "Mapping.lookup ds k = Some d" "new_core w0 w1 d f" by blast
    then have "\<not> isl (newChecker d)" by (simp add: new_core_def)
    then obtain r where "Mapping.lookup reps (dut_name d) = Some r" using rep d(1) by blast
    then show "\<exists>n r f. Mapping.lookup reps n = Some r \<and> f \<in> Mapping.keys (Files r)" using files d by blast
  qed
  finally have "found_cores reps \<longleftrightarrow> (\<exists>k d f. Mapping.lookup ds k = Some d \<and> new_core w0 w1 d f)" .
  moreover have "n \<in> Mapping.keys reps \<longleftrightarrow> (\<exists>k d. Mapping.lookup ds k = Some d \<and> \<not> isl (newChecker d) \<and> dut_name d = n)" for n
    using rep by (auto simp: keys_dom_lookup dom_def)
  moreover have "last (suite_props (fst (registerAfter ord1 w1 (registerBefore ordd ord0 w0 ds Register)))) = (''validator.core.end'', createReport reps)"
    "snd (registerAfter ord1 w1 (registerBefore ordd ord0 w0 ds Register)) =
      (if found_cores reps then Some (''core file check found cores:'' @ CHR 0x0A # createReport reps) else None)"
    by (simp_all add: registerAfter_def registerBefore_def Register_def start_def stop_def final_reports_def reps_def Let_def split_beta)
  ultimately show ?thesis using files by (intro exI [of _ reps]) simp
qed

definition ex_dut :: dut where
  "ex_dut = \<lparr>dut_name = ''dut1'', dut_vendor = ARISTA, dut_dial = None\<rparr>"

definition ex_before :: "dut \<Rightarrow> stat_fn" where
  "ex_before d p = Inr []"

definition ex_after :: "dut \<Rightarrow> stat_fn" where
  "ex_after d p = Inr [\<lparr>fs_path = ''/var/core/core.1'', fs_modified = 5\<rparr>]"

theorem registerAfter_reports_new_cores_witness:
  "snd (registerAfter rev ex_after (registerBefore rev rev ex_before (Mapping.update ''dut'' ex_dut Mapping.empty) Register)) \<noteq> None"
proof -
  have "cores_on (ex_after ex_dut) ex_dut =
      Inr (Mapping.update ''/var/core/core.1'' \<lparr>Name = ''/var/core/core.1'', Modified = 5\<rparr> Mapping.empty)"
    by (simp add: cores_on_def checkCores_def ex_dut_def ex_after_def add_matched_def)
  moreover have "cores_on (ex_before ex_dut) ex_dut = Inr Mapping.empty"
    by (simp add: cores_on_def checkCores_def ex_dut_def ex_before_def)
  moreover have "\<not> isl (newChecker ex_dut)" by (simp add: newChecker_def ex_dut_def)
  ultimately have "new_core ex_before ex_after ex_dut ''/var/core/core.1''" by (simp add: new_core_def)
  then have ex: "\<exists>k d f. Mapping.lookup (Mapping.update ''dut'' ex_dut Mapping.empty) k = Some d \<and> new_core ex_before ex_after d f"
    by (metis lookup_update)
  have fin: "finite (Mapping.keys (Mapping.update ''dut'' ex_dut Mapping.empty))" by simp
  have names: "\<forall>k d. Mapping.lookup (Mapping.update ''dut'' ex_dut Mapping.empty) k = Some d \<longrightarrow> (if dut_name d = ''dut1'' then ''dut'' else []) = k"
    by (auto simp: lookup_update' ex_dut_def split: if_splits)
  have ord: "permutes_entries (rev :: dut enum)" "permutes_entries (rev :: checker enum)" by simp_all
  obtain reps where
    "snd (registerAfter rev ex_after (registerBefore rev rev ex_before (Mapping.update ''dut'' ex_dut Mapping.empty) Register)) =
       (if \<exists>k d f. Mapping.lookup (Mapping.update ''dut'' ex_dut Mapping.empty) k = Some d \<and> new_core ex_before ex_after d f
        then Some (''core file check found cores:'' @ CHR 0x0A # createReport reps) else None)"
    using registerAfter_reports_new_cores [where id_of = "\<lambda>n. if n = ''dut1'' then ''dut'' else []" and ?w0.0 = ex_before and ?w1.0 = ex_after, OF fin names ord(1) ord(2) ord(2)] by (elim exE conjE) (rule that)
  then show ?thesis using ex by (simp only: if_True option.distinct not_False_eq_True)
qed


text \<open>The parallel check of all devices is deterministic: whichever order the runtime starts or
  finishes the goroutines in, the checkers and the reports are the same, provided no two devices
  share a name.\<close>

theorem validator_check_order:
  assumes "permutes_entries ord" and "permutes_entries ord'" and "names_ok id_of d"
  shows "validator_check ord w d = validator_check ord' w d"
proof -
  have "(k, c) \<in> entries_of id_of d" if "(k, c) \<in> set (range_order ord d)" for k c
    using that assms(3) in_range_order [OF assms(1), of d k c] unfolding names_ok_def entries_of_def by simp
  then have "set (range_order ord d) \<subseteq> entries_of id_of d" by auto
  then show ?thesis
    unfolding validator_check_def by (intro goroutines.order_irrelevant) (simp_all add: mset_range_order assms)
qed

definition ex_two :: duts where
  "ex_two = Mapping.update ''a'' \<lparr>c_dut = ex_dut\<lparr>dut_name := ''a''\<rparr>, prevCores = Mapping.empty\<rparr>
     (Mapping.update ''b'' \<lparr>c_dut = ex_dut\<lparr>dut_name := ''b''\<rparr>, prevCores = Mapping.empty\<rparr> Mapping.empty)"

theorem validator_check_order_witness:
  "names_ok id ex_two \<and> validator_check rev ex_after ex_two = validator_check id ex_after ex_two"
proof -
  have "names_ok id ex_two" by (auto simp: names_ok_def ex_two_def lookup_update' split: if_splits)
  then show ?thesis using validator_check_order [of rev id id ex_two] by simp
qed

end
