(* ===== verification/Check_Validators.thy ===== *)
theory Check_Validators
  imports FP_Prelude
begin

text \<open>
  \<^verbatim>\<open>internal/check/check.go\<close>: validators, which look a value up (\<^verbatim>\<open>Check\<close>) or watch it until it passes
  (\<^verbatim>\<open>Await\<close>, \<^verbatim>\<open>AwaitFor\<close>, \<^verbatim>\<open>AwaitUntil\<close>).

  A fetched value is \<open>'v option\<close>: \<open>None\<close> is a path with no value. \<^verbatim>\<open>ygnmi.Lookup\<close> is a parameter, its
  result; \<^verbatim>\<open>ygnmi.Watch\<close> is a parameter too: the values it delivers, in order, and the error that ends
  it when no value is accepted. \<open>fmtv\<close> is the formatting verb \<^verbatim>\<open>%#v\<close> of the value's type, \<open>cmpEqual\<close> is
  \<^verbatim>\<open>cmp.Equal\<close> with \<^verbatim>\<open>cmpopts.SortSlices\<close>. \<^verbatim>\<open>RelPath\<close> is not modelled.

  The locale \<open>validator\<close> is the contract of a validation function: it returns no error exactly on the
  values of a set. Its lemmas say when checks and awaits pass; it is interpreted for every validator
  of the package.
\<close>

text \<open>Errors and their chains (\<^verbatim>\<open>errors.As\<close>, \<^verbatim>\<open>errors.Is\<close>): a gRPC status with its code, the two context
  errors, other errors, and wrapped ones.\<close>

datatype go_error =
    GrpcStatus nat string
  | CtxDeadlineExceeded
  | CtxCanceled
  | OtherError string
  | Wrapped string go_error

fun asGRPCStatus :: "go_error \<Rightarrow> nat option" where
  "asGRPCStatus (GrpcStatus c m) = Some c"
| "asGRPCStatus (Wrapped m e) = asGRPCStatus e"
| "asGRPCStatus e = None"

fun isCtxDeadline :: "go_error \<Rightarrow> bool" where
  "isCtxDeadline CtxDeadlineExceeded = True"
| "isCtxDeadline (Wrapped m e) = isCtxDeadline e"
| "isCtxDeadline e = False"

text \<open>\<^verbatim>\<open>codes.DeadlineExceeded\<close> is 4.\<close>

definition isTimeout :: "go_error option \<Rightarrow> bool" where
  "isTimeout err =
     (case err of
        None \<Rightarrow> False
      | Some e \<Rightarrow> (case asGRPCStatus e of Some c \<Rightarrow> c = 4 | None \<Rightarrow> isCtxDeadline e))"

record validationError =
  validationErr :: "string option"
  failureCause :: "go_error option"

definition FormatPath :: "('p \<Rightarrow> (string, 'g) res) \<Rightarrow> ('g \<Rightarrow> (string, string) res) \<Rightarrow> 'p option \<Rightarrow> string" where
  "FormatPath resolvePath pathToString path =
     (case path of
        None \<Rightarrow> ''<nil path>''
      | Some p \<Rightarrow>
          (case resolvePath p of
             Inl e \<Rightarrow> ''<Unprintable path: '' @ e @ ''>''
           | Inr g \<Rightarrow> (case pathToString g of Inl e \<Rightarrow> ''<Unprintable path: '' @ e @ ''>'' | Inr s \<Rightarrow> s)))"

text \<open>\<open>errStr\<close> is the \<^verbatim>\<open>Error\<close> method of the failure; \<open>q\<close> is \<^verbatim>\<open>qStr()\<close>.\<close>

definition Error :: "(go_error \<Rightarrow> string) \<Rightarrow> string \<Rightarrow> validationError \<Rightarrow> string" where
  "Error errStr q f =
     (if isTimeout (failureCause f) then
        (case validationErr f of
           Some v \<Rightarrow> q @ '': '' @ v @ '' (deadline exceeded)''
         | None \<Rightarrow> q @ '': deadline exceeded before any values were fetched'')
      else case failureCause f of
        Some e \<Rightarrow> q @ '': '' @ errStr e
      | None \<Rightarrow>
          (case validationErr f of
             Some v \<Rightarrow> q @ '': '' @ v
           | None \<Rightarrow> q @ '': unknown error''))"

type_synonym 'v validation_fn = "'v option \<Rightarrow> string option"

definition Check :: "'v validation_fn \<Rightarrow> (go_error, 'v option) res \<Rightarrow> validationError option" where
  "Check validationFn looked =
     (case looked of
        Inl e \<Rightarrow> Some \<lparr>validationErr = None, failureCause = Some e\<rparr>
      | Inr lastVal \<Rightarrow>
          (case validationFn lastVal of
             Some err \<Rightarrow> Some \<lparr>validationErr = Some err, failureCause = None\<rparr>
           | None \<Rightarrow> None))"

text \<open>The watch: each value is validated; \<open>Inr ()\<close> when one passes, otherwise the error that ended the
  watch and the last validation error.\<close>

fun watch_await ::
  "'v validation_fn \<Rightarrow> string option \<Rightarrow> 'v option list \<Rightarrow> go_error \<Rightarrow> (go_error \<times> string option, unit) res" where
  "watch_await validationFn lastInvalid [] e = Inl (e, lastInvalid)"
| "watch_await validationFn lastInvalid (v # vs) e =
     (case validationFn v of
        None \<Rightarrow> Inr ()
      | Some err \<Rightarrow> watch_await validationFn (Some err) vs e)"

definition Await ::
  "'v validation_fn \<Rightarrow> (go_error, 'v option) res \<Rightarrow> 'v option list \<Rightarrow> go_error \<Rightarrow> validationError option" where
  "Await validationFn looked vs e =
     (case Check validationFn looked of
        None \<Rightarrow> None
      | Some checkErr \<Rightarrow>
          (if failureCause checkErr \<noteq> None then Some checkErr
           else case watch_await validationFn (validationErr checkErr) vs e of
             Inl (err, lastInvalid) \<Rightarrow> Some \<lparr>validationErr = lastInvalid, failureCause = Some err\<rparr>
           | Inr _ \<Rightarrow> None))"

definition AwaitFor ::
  "int \<Rightarrow> 'v validation_fn \<Rightarrow> (go_error, 'v option) res \<Rightarrow> 'v option list \<Rightarrow> go_error \<Rightarrow> validationError option" where
  "AwaitFor timeout validationFn looked vs e =
     (if timeout \<le> 0 then Check validationFn looked else Await validationFn looked vs e)"

definition AwaitUntil ::
  "int \<Rightarrow> int \<Rightarrow> 'v validation_fn \<Rightarrow> (go_error, 'v option) res \<Rightarrow> 'v option list \<Rightarrow> go_error \<Rightarrow> validationError option" where
  "AwaitUntil now deadline validationFn looked vs e =
     (if deadline < now then Check validationFn looked else Await validationFn looked vs e)"


section \<open>The validators\<close>

definition FormatValue :: "('v \<Rightarrow> string) \<Rightarrow> 'v option \<Rightarrow> string" where
  "FormatValue fmtv v = (case v of None \<Rightarrow> ''no value'' | Some x \<Rightarrow> fmtv x)"

definition Predicate :: "('v \<Rightarrow> string) \<Rightarrow> string \<Rightarrow> ('v \<Rightarrow> bool) \<Rightarrow> 'v validation_fn" where
  "Predicate fmtv wantMsg predicate vgot =
     (if (case vgot of None \<Rightarrow> True | Some got \<Rightarrow> \<not> predicate got)
      then Some (''got '' @ FormatValue fmtv vgot @ '', '' @ wantMsg) else None)"

definition Equal :: "('v \<Rightarrow> string) \<Rightarrow> 'v \<Rightarrow> 'v validation_fn" where
  "Equal fmtv want = Predicate fmtv (''want '' @ fmtv want) (\<lambda>got. got = want)"

definition NotEqual :: "('v \<Rightarrow> string) \<Rightarrow> 'v \<Rightarrow> 'v validation_fn" where
  "NotEqual fmtv wantNot = Predicate fmtv (''want anything but '' @ fmtv wantNot) (\<lambda>got. got \<noteq> wantNot)"

definition EqualOrNil :: "('v \<Rightarrow> string) \<Rightarrow> 'v \<Rightarrow> 'v validation_fn" where
  "EqualOrNil fmtv want vgot =
     (if (case vgot of None \<Rightarrow> False | Some got \<Rightarrow> got \<noteq> want)
      then Some (''got '' @ FormatValue fmtv vgot @ '', want '' @ fmtv want @ '' or no value'') else None)"

definition Present :: "('v \<Rightarrow> string) \<Rightarrow> 'v validation_fn" where
  "Present fmtv = Predicate fmtv ''want any value'' (\<lambda>_. True)"

definition NotPresent :: "('v \<Rightarrow> string) \<Rightarrow> 'v validation_fn" where
  "NotPresent fmtv vgot =
     (if vgot \<noteq> None then Some (''got '' @ FormatValue fmtv vgot @ '', want no value'') else None)"

definition UnorderedEqual ::
  "('a list \<Rightarrow> 'a list \<Rightarrow> bool) \<Rightarrow> ('a list \<Rightarrow> string) \<Rightarrow> 'a list \<Rightarrow> 'a list validation_fn" where
  "UnorderedEqual cmpEqual fmtv want = Predicate fmtv (''want '' @ fmtv want) (\<lambda>got. cmpEqual got want)"


section \<open>The contract of a validation function\<close>

locale validator =
  fixes fn :: "'v validation_fn" and ok :: "'v option \<Rightarrow> bool"
  assumes passes: "fn v = None \<longleftrightarrow> ok v"
begin

lemma Check_passes: "Check fn looked = None \<longleftrightarrow> (\<exists>v. looked = Inr v \<and> ok v)"
  by (auto simp: Check_def passes [symmetric] split: sum.splits option.splits)

lemma watch_result:
  "watch_await fn l vs e =
    (if \<exists>v \<in> set vs. ok v then Inr () else Inl (e, if vs = [] then l else fn (last vs)))"
proof (induction vs arbitrary: l)
  case (Cons v vs)
  then show ?case using passes [of v] by (cases "fn v") auto
qed simp

lemma Await_passes:
  "Await fn looked vs e = None \<longleftrightarrow> (\<exists>v. looked = Inr v \<and> (ok v \<or> (\<exists>w \<in> set vs. ok w)))"
proof (cases looked)
  case (Inr v)
  then show ?thesis
    using passes [of v] by (cases "fn v") (simp_all add: Await_def Check_def watch_result)
qed (simp add: Await_def Check_def)

lemma Await_fails:
  assumes "\<not> ok v" and "\<And>w. w \<in> set vs \<Longrightarrow> \<not> ok w"
  shows "Await fn (Inr v) vs e = Some \<lparr>validationErr = fn (last (v # vs)), failureCause = Some e\<rparr>"
proof -
  obtain err where "fn v = Some err" using assms(1) passes [of v] by (cases "fn v") auto
  moreover have "\<not> (\<exists>w \<in> set vs. ok w)" using assms(2) by blast
  ultimately show ?thesis by (simp add: Await_def Check_def watch_result)
qed

end

interpretation predicate: validator "Predicate fmtv msg pred" "\<lambda>v. \<exists>x. v = Some x \<and> pred x" for fmtv msg pred
  by unfold_locales (auto simp: Predicate_def split: option.splits)

interpretation equal: validator "Equal fmtv want" "\<lambda>v. v = Some want" for fmtv want
  by unfold_locales (simp add: Equal_def predicate.passes)

interpretation not_equal: validator "NotEqual fmtv w" "\<lambda>v. \<exists>x. v = Some x \<and> x \<noteq> w" for fmtv w
  by unfold_locales (simp add: NotEqual_def predicate.passes)

interpretation equal_or_nil: validator "EqualOrNil fmtv want" "\<lambda>v. v = None \<or> v = Some want" for fmtv want
  by unfold_locales (auto simp: EqualOrNil_def split: option.splits)

interpretation present: validator "Present fmtv" "\<lambda>v. v \<noteq> None" for fmtv
  by unfold_locales (auto simp: Present_def predicate.passes)

interpretation not_present: validator "NotPresent fmtv" "\<lambda>v. v = None" for fmtv
  by unfold_locales (simp add: NotPresent_def)

interpretation unordered_equal: validator "UnorderedEqual cmpEqual fmtv want"
  "\<lambda>v. \<exists>xs. v = Some xs \<and> cmpEqual xs want" for cmpEqual fmtv want
  by unfold_locales (simp add: UnorderedEqual_def predicate.passes)

interpretation any_fn: validator fn "\<lambda>v. fn v = None" for fn
  by unfold_locales simp


section \<open>Properties\<close>

text \<open>C36: Waiting for a value: for each validator, \<^verbatim>\<open>Await\<close> succeeds exactly when the first lookup
  succeeds and the looked-up value, or one of those delivered by the watch, is an accepted one:
  equal, different, absent or equal, present, absent, or a permutation of the wanted list
  (given that \<^verbatim>\<open>cmp.Equal\<close> with sorting compares as multisets).\<close>

theorem Await_passes_iff:
  assumes "\<And>xs ys. cmpEqual xs ys \<longleftrightarrow> mset xs = mset ys"
  shows "(Await (Equal f x) l vs e = None \<longleftrightarrow> (\<exists>v. l = Inr v \<and> Some x \<in> set (v # vs)))
    \<and> (Await (NotEqual f x) l vs e = None \<longleftrightarrow> (\<exists>v. l = Inr v \<and> (\<exists>y. y \<noteq> x \<and> Some y \<in> set (v # vs))))
    \<and> (Await (EqualOrNil f x) l vs e = None \<longleftrightarrow> (\<exists>v. l = Inr v \<and> (None \<in> set (v # vs) \<or> Some x \<in> set (v # vs))))
    \<and> (Await (Present f) l vs e = None \<longleftrightarrow> (\<exists>v. l = Inr v \<and> (\<exists>y. Some y \<in> set (v # vs))))
    \<and> (Await (NotPresent f) l vs e = None \<longleftrightarrow> (\<exists>v. l = Inr v \<and> None \<in> set (v # vs)))
    \<and> (Await (UnorderedEqual cmpEqual g want) ll vvs e = None \<longleftrightarrow>
         (\<exists>v. ll = Inr v \<and> (\<exists>xs. mset xs = mset want \<and> Some xs \<in> set (v # vvs))))"
  unfolding equal.Await_passes not_equal.Await_passes equal_or_nil.Await_passes present.Await_passes
    not_present.Await_passes unordered_equal.Await_passes assms
  by (intro conjI) (auto simp: eq_commute)

theorem Await_passes_iff_witness:
  "Await (Equal (\<lambda>n. ''n'') (7::nat)) (Inr None) [Some 3, Some 7] CtxDeadlineExceeded = None
   \<and> Await (UnorderedEqual (\<lambda>xs ys. mset xs = mset ys) (\<lambda>n. ''n'') [1, 2::nat]) (Inr (Some [2, 1])) [] CtxCanceled = None"
  using Await_passes_iff [where cmpEqual = "\<lambda>xs ys. mset xs = mset ys" and x = "7::nat" and l = "Inr None"
      and vs = "[Some 3, Some 7]" and want = "[1, 2::nat]" and ll = "Inr (Some [2, 1])" and vvs = "[]"]
  by simp

text \<open>A failed wait is reported with the last value seen: when the lookup succeeds and no value is
  accepted, \<^verbatim>\<open>Await\<close> fails with the error that ended the watch as its cause and the validation error
  of the most recent value (of the looked-up one if the watch delivered none); after a timeout the
  message is that validation error followed by "(deadline exceeded)", otherwise it is the cause.\<close>

theorem Await_failure_message:
  assumes "fn v \<noteq> None" and "\<And>w. w \<in> set vs \<Longrightarrow> fn w \<noteq> None"
  shows "\<exists>f. Await fn (Inr v) vs e = Some f \<and> failureCause f = Some e \<and> validationErr f = fn (last (v # vs))
    \<and> Error errStr q f =
      (if isTimeout (Some e) then q @ '': '' @ the (fn (last (v # vs))) @ '' (deadline exceeded)''
       else q @ '': '' @ errStr e)"
proof -
  have "fn (last (v # vs)) \<noteq> None" using assms by (cases vs rule: rev_cases) auto
  then show ?thesis
    using any_fn.Await_fails [of fn v vs e] assms by (auto simp: Error_def)
qed

theorem Await_failure_message_witness:
  "\<exists>f. Await (Present (\<lambda>n::nat. ''n'')) (Inr None) [None] (GrpcStatus 4 ''x'') = Some f
    \<and> Error (\<lambda>_. ''e'') ''/p'' f = ''/p: got no value, want any value (deadline exceeded)''"
proof -
  have p: "Present (\<lambda>n::nat. ''n'') None = Some ''got no value, want any value''"
    by (simp add: Present_def Predicate_def FormatValue_def)
  show ?thesis
    using Await_failure_message [of "Present (\<lambda>n::nat. ''n'')" None "[None]" "GrpcStatus 4 ''x''" "\<lambda>_. ''e''" "''/p''"]
    by (auto simp: p isTimeout_def)
qed

text \<open>The deadline forms: with a timeout that is not positive, or a deadline in the past,
  \<^verbatim>\<open>AwaitFor\<close> and \<^verbatim>\<open>AwaitUntil\<close> look the value up once, whatever a watch would deliver; and whenever the
  immediate check passes, so do they.\<close>

theorem Await_deadlines:
  "(timeout \<le> 0 \<longrightarrow> AwaitFor timeout fn l vs e = Check fn l)
   \<and> (deadline < now \<longrightarrow> AwaitUntil now deadline fn l vs e = Check fn l)
   \<and> (Check fn l = None \<longrightarrow> AwaitFor timeout fn l vs e = None \<and> AwaitUntil now deadline fn l vs e = None)
   \<and> (\<forall>c. l = Inl c \<longrightarrow> AwaitFor timeout fn l vs e = Some \<lparr>validationErr = None, failureCause = Some c\<rparr>)"
  by (auto simp: AwaitFor_def AwaitUntil_def Await_def Check_def)

theorem Await_deadlines_witness:
  "AwaitFor 0 (Equal (\<lambda>n. ''n'') (7::nat)) (Inr (Some 3)) [Some 7] CtxCanceled \<noteq> None"
  using Await_deadlines [of 0 "Equal (\<lambda>n. ''n'') (7::nat)" "Inr (Some 3)" "[Some 7]" CtxCanceled]
  by (simp add: equal.Check_passes)

end
