(* ===== verification/Go_Path.thy ===== *)
theory Go_Path
  imports FP_Prelude
begin

text \<open>
  The functions of Go's \<^verbatim>\<open>path/filepath\<close> (Unix) that the program uses: \<^verbatim>\<open>Clean\<close>, \<^verbatim>\<open>Dir\<close>, \<^verbatim>\<open>Base\<close> and
  \<^verbatim>\<open>Rel\<close>, on the components of a path.
\<close>

definition rooted :: "string \<Rightarrow> bool" where
  "rooted p \<longleftrightarrow> hasPrefix p ''/''"

text \<open>The stack of cleaned components, innermost first.\<close>

fun clean_comps :: "bool \<Rightarrow> string list \<Rightarrow> string list \<Rightarrow> string list" where
  "clean_comps r [] st = rev st"
| "clean_comps r (c # cs) st =
     (if c = [] \<or> c = ''.'' then clean_comps r cs st
      else if c = ''..'' then
        (case st of
           [] \<Rightarrow> clean_comps r cs (if r then [] else [''..''])
         | t # ts \<Rightarrow> (if t = ''..'' then clean_comps r cs (''..'' # st) else clean_comps r cs ts))
      else clean_comps r cs (c # st))"

definition comps :: "string \<Rightarrow> string list" where
  "comps p = clean_comps (rooted p) (str_split (CHR ''/'') p) []"

definition path_of :: "bool \<Rightarrow> string list \<Rightarrow> string" where
  "path_of r cs = (let s = str_join ''/'' cs in if r then ''/'' @ s else if s = [] then ''.'' else s)"

definition filepath_Clean :: "string \<Rightarrow> string" where
  "filepath_Clean p = path_of (rooted p) (comps p)"

text \<open>\<open>upto_slash p\<close> is \<open>p\<close> up to and including its last slash.\<close>

definition upto_slash :: "string \<Rightarrow> string" where
  "upto_slash p = rev (dropWhile (\<lambda>c. c \<noteq> CHR ''/'') (rev p))"

definition filepath_Dir :: "string \<Rightarrow> string" where
  "filepath_Dir p = filepath_Clean (upto_slash p)"

definition filepath_Base :: "string \<Rightarrow> string" where
  "filepath_Base p =
     (if p = [] then ''.''
      else let q = rev (dropWhile (\<lambda>c. c = CHR ''/'') (rev p));
               b = rev (takeWhile (\<lambda>c. c \<noteq> CHR ''/'') (rev q)) in
           if b = [] then ''/'' else b)"

fun strip_common :: "string list \<Rightarrow> string list \<Rightarrow> string list \<times> string list" where
  "strip_common (x # xs) (y # ys) = (if x = y then strip_common xs ys else (x # xs, y # ys))"
| "strip_common xs ys = (xs, ys)"

definition filepath_Rel :: "string \<Rightarrow> string \<Rightarrow> string option" where
  "filepath_Rel base targ =
     (if filepath_Clean base = filepath_Clean targ then Some ''.''
      else if rooted base \<noteq> rooted targ then None
      else let (b, t) = strip_common (comps base) (comps targ) in
        if b \<noteq> [] \<and> hd b = ''..'' then None
        else Some (str_join ''/'' (map (\<lambda>_. ''..'') b @ t)))"

lemma Dir_Base_example:
  "filepath_Dir ''/a/b/c'' = ''/a/b'' \<and> filepath_Base ''/a/b'' = ''b'' \<and> filepath_Clean ''a//./b/..'' = ''a''
   \<and> filepath_Rel ''/a/b'' ''/a/c/d'' = Some ''../c/d'' \<and> filepath_Dir ''x'' = ''.''"
  by code_simp

end
