(* ===== verification/Addrundata.thy ===== *)
theory Addrundata
  imports Go_Map Go_Path
begin

text \<open>
  \<^verbatim>\<open>tools/addrundata\<close>: the tool that keeps the \<^verbatim>\<open>metadata.textproto\<close> of every test in step with its
  \<^verbatim>\<open>README.md\<close>: \<^verbatim>\<open>case.go\<close> (one test), \<^verbatim>\<open>suite.go\<close> (all tests), \<^verbatim>\<open>rundata.go\<close> (the heading of the
  README), \<^verbatim>\<open>lib.go\<close> (version order) and part of \<^verbatim>\<open>list_testtracker.go\<close>.

  A test suite maps test directories to test cases. Reading and writing files is not modelled: a
  test case holds what was parsed, and writing yields what would be written. The package
  \<^verbatim>\<open>github.com/google/uuid\<close> is a parameter: \<open>parse\<close> gives the canonical text of a UUID and whether it is
  an RFC 4122 version 4 one; \<open>rnd d\<close> is what \<^verbatim>\<open>uuid.NewRandom\<close> answers for the test in directory \<open>d\<close>.
  A nil pointer dereference is the error \<open>Panic\<close>.
\<close>

datatype Testbed = TESTBED_UNSPECIFIED | TESTBED_DUT_ATE_2LINKS | OtherTestbed nat

record Metadata =
  Uuid :: string
  PlanId :: string
  Description :: string
  md_Testbed :: Testbed
  PlatformExceptions :: "string list"
  Tags :: "nat list"

record testcase =
  markdown :: "Metadata option"
  existing :: "Metadata option"
  fixed :: "Metadata option"

type_synonym uuid_parse = "string \<Rightarrow> (bool \<times> string) option"

definition good_uuid :: "uuid_parse \<Rightarrow> string \<Rightarrow> bool" where
  "good_uuid parse s \<longleftrightarrow> (case parse s of Some (v4, _) \<Rightarrow> v4 | None \<Rightarrow> False)"


section \<open>The README heading\<close>

text \<open>\<^verbatim>\<open>markdownRE\<close> is \<^verbatim>\<open>#(.*?):(.*)\<close>, unanchored on a line: the first \<^verbatim>\<open>#\<close> that is followed by a
  colon, the text up to the first such colon, and the rest.\<close>

fun span_colon :: "string \<Rightarrow> (string \<times> string) option" where
  "span_colon [] = None"
| "span_colon (c # s) = (if c = CHR '':'' then Some ([], s) else map_option (\<lambda>(a, b). (c # a, b)) (span_colon s))"

fun match_heading :: "string \<Rightarrow> (string \<times> string) option" where
  "match_heading [] = None"
| "match_heading (c # s) =
     (if c = CHR ''#'' then (case span_colon s of Some r \<Rightarrow> Some r | None \<Rightarrow> match_heading s)
      else match_heading s)"

definition parseMarkdown :: "string option \<Rightarrow> (string, Metadata) res" where
  "parseMarkdown firstLine =
     (case firstLine of
        None \<Rightarrow> Inl ''missing markdown heading''
      | Some line \<Rightarrow>
          (case match_heading line of
             None \<Rightarrow> Inl (''cannot parse markdown: '' @ line)
           | Some (m1, m2) \<Rightarrow>
               Inr \<lparr>Uuid = [], PlanId = trimSpace m1, Description = trimSpace m2,
                    md_Testbed = TESTBED_UNSPECIFIED, PlatformExceptions = [], Tags = []\<rparr>))"


section \<open>One test case\<close>

datatype case_error =
    MissingMetadata
  | MissingMarkdown
  | PlanIdDiffers string string
  | DescriptionDiffers string string
  | MissingTestbed
  | MissingUuid
  | UnparsableUuid string
  | BadUuid string

definition check_pair :: "Metadata \<Rightarrow> Metadata \<Rightarrow> case_error list" where
  "check_pair m e =
     (if PlanId e \<noteq> PlanId m then [PlanIdDiffers (PlanId e) (PlanId m)] else [])
     @ (if Description e \<noteq> Description m then [DescriptionDiffers (Description e) (Description m)] else [])"

definition check_existing :: "uuid_parse \<Rightarrow> Metadata \<Rightarrow> case_error list" where
  "check_existing parse e =
     (if md_Testbed e = TESTBED_UNSPECIFIED then [MissingTestbed] else [])
     @ (if Uuid e = [] then [MissingUuid]
        else case parse (Uuid e) of
          None \<Rightarrow> [UnparsableUuid (Uuid e)]
        | Some (v4, _) \<Rightarrow> (if \<not> v4 then [BadUuid (Uuid e)] else []))"

definition tc_check :: "uuid_parse \<Rightarrow> testcase \<Rightarrow> case_error list" where
  "tc_check parse tc =
     (if existing tc = None then [MissingMetadata] else [])
     @ (if markdown tc = None then [MissingMarkdown] else [])
     @ (case (markdown tc, existing tc) of (Some m, Some e) \<Rightarrow> check_pair m e | _ \<Rightarrow> [])
     @ (case existing tc of Some e \<Rightarrow> check_existing parse e | None \<Rightarrow> [])"

definition defaultTestbed :: "Metadata \<Rightarrow> Metadata" where
  "defaultTestbed f =
     (if md_Testbed f = TESTBED_UNSPECIFIED then f\<lparr>md_Testbed := TESTBED_DUT_ATE_2LINKS\<rparr> else f)"

definition tc_fix :: "uuid_parse \<Rightarrow> (string, string) res \<Rightarrow> testcase \<Rightarrow> testcase \<times> string option" where
  "tc_fix parse rnd tc =
     (case markdown tc of
        None \<Rightarrow> (tc, Some ''markdown rundata is missing'')
      | Some m \<Rightarrow>
          (let f = \<lparr>Uuid = [], PlanId = PlanId m, Description = Description m,
                    md_Testbed = TESTBED_UNSPECIFIED, PlatformExceptions = [], Tags = []\<rparr>;
               f = (case existing tc of
                      None \<Rightarrow> f
                    | Some e \<Rightarrow> f\<lparr>md_Testbed := md_Testbed e, PlatformExceptions := PlatformExceptions e, Tags := Tags e\<rparr>) in
           case (case existing tc of None \<Rightarrow> None | Some e \<Rightarrow> parse (Uuid e)) of
             Some (True, canon) \<Rightarrow> (tc\<lparr>fixed := Some (f\<lparr>Uuid := canon\<rparr>)\<rparr>, None)
           | _ \<Rightarrow>
               (let f = defaultTestbed f in
                case rnd of
                  Inl err \<Rightarrow> (tc\<lparr>fixed := Some f\<rparr>, Some err)
                | Inr u \<Rightarrow> (tc\<lparr>fixed := Some (f\<lparr>Uuid := u\<rparr>)\<rparr>, None))))"

datatype write_result = NotFixed | Noop | Written Metadata

definition tc_write :: "testcase \<Rightarrow> write_result" where
  "tc_write tc =
     (case fixed tc of
        None \<Rightarrow> NotFixed
      | Some f \<Rightarrow> (if existing tc = Some f then Noop else Written f))"



section \<open>The suite\<close>

type_synonym testsuite = "testcase gomap"

definition featurePrefix :: string where
  "featurePrefix = ''feature/''"

definition validPath :: "string \<Rightarrow> bool" where
  "validPath testDir =
     (case str_index testDir featurePrefix of
        None \<Rightarrow> False
      | Some index \<Rightarrow>
          (let dirs = str_split (CHR ''/'') (drop (index + length featurePrefix) testDir) in
           \<not> (length dirs < 3 \<or> length dirs > 4)))"

definition testKinds :: "string \<Rightarrow> string option" where
  "testKinds = map_of [(''ate_tests'', ''ATE Test''), (''kne_tests'', ''KNE Test''),
     (''otg_tests'', ''OTG Test''), (''tests'', ''Test'')]"

definition isTestKind :: "string \<Rightarrow> bool" where
  "isTestKind kind \<longleftrightarrow> testKinds kind \<noteq> None"

definition testKind :: "string \<Rightarrow> string" where
  "testKind testdir = filepath_Base (filepath_Dir testdir)"

definition toOTG :: "string \<Rightarrow> string" where
  "toOTG testdir = str_replace1 testdir ''/ate_tests/'' ''/otg_tests/''"

definition checkCases :: "uuid_parse \<Rightarrow> testcase enum \<Rightarrow> testsuite \<Rightarrow> bool" where
  "checkCases parse ord ts = fold (\<lambda>(testdir, tc) ok. if tc_check parse tc = [] then ok else False) (range_order ord ts) True"

definition dup_step :: "(testcase \<Rightarrow> string) \<Rightarrow> string \<times> testcase \<Rightarrow> bool \<times> string gomap \<Rightarrow> bool \<times> string gomap" where
  "dup_step keyfn e st =
     (let (got, tc) = e; (ok, wants) = st; key = keyfn tc in
      if key = [] then (ok, wants)
      else case Mapping.lookup wants key of
        None \<Rightarrow> (ok, Mapping.update key got wants)
      | Some want \<Rightarrow> (if toOTG got \<noteq> toOTG want then (False, wants) else (ok, wants)))"

definition checkDuplicate :: "(testcase \<Rightarrow> string) \<Rightarrow> testcase enum \<Rightarrow> testsuite \<Rightarrow> bool" where
  "checkDuplicate keyfn ord ts = fst (fold (dup_step keyfn) (range_order ord ts) (True, Mapping.empty))"

definition planKey :: "testcase \<Rightarrow> string" where
  "planKey tc = (case markdown tc of None \<Rightarrow> [] | Some m \<Rightarrow> PlanId m)"

definition uuidKey :: "testcase \<Rightarrow> string" where
  "uuidKey tc = (case existing tc of None \<Rightarrow> [] | Some e \<Rightarrow> Uuid e)"

datatype 'a run = Panic | Ret 'a

fun bind_run :: "'a run \<Rightarrow> ('a \<Rightarrow> 'b run) \<Rightarrow> 'b run" where
  "bind_run Panic f = Panic"
| "bind_run (Ret x) f = f x"

definition same_rundata :: "Metadata \<Rightarrow> Metadata \<Rightarrow> bool" where
  "same_rundata a b \<longleftrightarrow> PlanId a = PlanId b \<and> Description a = Description b \<and> Uuid a = Uuid b"

fun ateotg_loop :: "testsuite \<Rightarrow> (string \<times> testcase) list \<Rightarrow> bool \<Rightarrow> bool run" where
  "ateotg_loop ts [] ok = Ret ok"
| "ateotg_loop ts ((testdir, tc) # es) ok =
     (if testKind testdir \<noteq> ''ate_tests'' then ateotg_loop ts es ok
      else case Mapping.lookup ts (toOTG testdir) of
        None \<Rightarrow> ateotg_loop ts es ok
      | Some otgtc \<Rightarrow>
          (case (existing tc, existing otgtc) of
             (Some a, Some b) \<Rightarrow> ateotg_loop ts es (ok \<and> same_rundata a b)
           | _ \<Rightarrow> Panic))"

definition checkATEOTG :: "testcase enum \<Rightarrow> testsuite \<Rightarrow> bool run" where
  "checkATEOTG ord ts = ateotg_loop ts (range_order ord ts) True"

text \<open>All four checks run, whatever the earlier ones found.\<close>

definition suite_check :: "uuid_parse \<Rightarrow> testcase enum \<Rightarrow> testsuite \<Rightarrow> bool run" where
  "suite_check parse ord ts =
     (let c1 = checkCases parse ord ts; c2 = checkDuplicate planKey ord ts; c3 = checkDuplicate uuidKey ord ts in
      bind_run (checkATEOTG ord ts) (\<lambda>c4. Ret (c1 \<and> c2 \<and> c3 \<and> c4)))"

text \<open>The first loop of \<^verbatim>\<open>fix\<close> updates every test case in place; the second gives the UUID of each ATE
  test to its OTG twin.\<close>

definition fix_step :: "uuid_parse \<Rightarrow> (string \<Rightarrow> (string, string) res) \<Rightarrow> string \<times> testcase \<Rightarrow>
    bool \<times> testsuite \<Rightarrow> bool \<times> testsuite" where
  "fix_step parse rnd e st =
     (let (testdir, tc) = e; (ok, ts) = st; (tc', err) = tc_fix parse (rnd testdir) tc in
      (ok \<and> err = None, Mapping.update testdir tc' ts))"

definition copyUuid :: "testcase \<Rightarrow> testcase \<Rightarrow> testcase" where
  "copyUuid ate otg =
     (case (fixed ate, fixed otg) of
        (Some a, Some o') \<Rightarrow> otg\<lparr>fixed := Some (o'\<lparr>Uuid := Uuid a\<rparr>)\<rparr>
      | _ \<Rightarrow> otg)"

definition twin_step :: "string \<Rightarrow> testsuite \<Rightarrow> testsuite" where
  "twin_step testdir ts =
     (if testKind testdir \<noteq> ''ate_tests'' then ts
      else case (Mapping.lookup ts testdir, Mapping.lookup ts (toOTG testdir)) of
        (Some tc, Some otgtc) \<Rightarrow> Mapping.update (toOTG testdir) (copyUuid tc otgtc) ts
      | _ \<Rightarrow> ts)"

definition suite_fix :: "uuid_parse \<Rightarrow> (string \<Rightarrow> (string, string) res) \<Rightarrow> testcase enum \<Rightarrow> testcase enum \<Rightarrow>
    testsuite \<Rightarrow> testsuite \<times> bool" where
  "suite_fix parse rnd ord ord' ts =
     (let (ok, ts') = fold (fix_step parse rnd) (range_order ord ts) (True, ts) in
      if \<not> ok then (ts', False)
      else (fold twin_step (map fst (range_order ord' ts')) ts', True))"



section \<open>Fixing one test case\<close>

text \<open>What the code relies on of the UUID package: the canonical text of a version 4 UUID is not empty
  and parses to itself, and random UUIDs are canonical version 4 ones.\<close>

definition uuid_laws :: "uuid_parse \<Rightarrow> bool" where
  "uuid_laws parse \<longleftrightarrow> (\<forall>s canon. parse s = Some (True, canon) \<longrightarrow> canon \<noteq> [] \<and> parse canon = Some (True, canon))"

definition canonical :: "uuid_parse \<Rightarrow> string \<Rightarrow> bool" where
  "canonical parse u \<longleftrightarrow> u \<noteq> [] \<and> parse u = Some (True, u)"

lemma tc_fix_cases:
  assumes "tc_fix parse rnd tc = (tc', None)" and "uuid_laws parse"
    and "\<And>u. rnd = Inr u \<Longrightarrow> canonical parse u"
  obtains m f where "markdown tc = Some m" and "tc' = tc\<lparr>fixed := Some f\<rparr>" and "canonical parse (Uuid f)"
    and "PlanId f = PlanId m" and "Description f = Description m"
    and "\<And>e. existing tc = Some e \<Longrightarrow> PlatformExceptions f = PlatformExceptions e \<and> Tags f = Tags e"
    and "md_Testbed f = TESTBED_UNSPECIFIED \<longleftrightarrow>
      (\<exists>e. existing tc = Some e \<and> good_uuid parse (Uuid e) \<and> md_Testbed e = TESTBED_UNSPECIFIED)"
  using assms
  by (cases "markdown tc"; cases "existing tc"; cases rnd)
    (auto simp: tc_fix_def Let_def defaultTestbed_def canonical_def uuid_laws_def good_uuid_def
      split: option.splits prod.splits bool.splits if_splits)


lemma tc_check_fixed:
  assumes "markdown tc = Some m" and "PlanId f = PlanId m" and "Description f = Description m"
    and "canonical parse (Uuid f)"
  shows "tc_check parse (tc\<lparr>existing := Some f\<rparr>) =
    (if md_Testbed f = TESTBED_UNSPECIFIED then [MissingTestbed] else [])"
  using assms by (simp add: tc_check_def check_pair_def check_existing_def canonical_def)

lemma tc_check_after_fix:
  assumes "tc_fix parse rnd tc = (tc', None)" and "uuid_laws parse"
    and "\<And>u. rnd = Inr u \<Longrightarrow> canonical parse u"
  shows "tc_check parse (tc'\<lparr>existing := fixed tc'\<rparr>) =
    (if \<exists>e. existing tc = Some e \<and> good_uuid parse (Uuid e) \<and> md_Testbed e = TESTBED_UNSPECIFIED
     then [MissingTestbed] else [])"
proof -
  obtain m f where "markdown tc = Some m" and t: "tc' = tc\<lparr>fixed := Some f\<rparr>" and "canonical parse (Uuid f)"
    and "PlanId f = PlanId m" and "Description f = Description m"
    and u: "md_Testbed f = TESTBED_UNSPECIFIED \<longleftrightarrow>
      (\<exists>e. existing tc = Some e \<and> good_uuid parse (Uuid e) \<and> md_Testbed e = TESTBED_UNSPECIFIED)"
    by (rule tc_fix_cases [OF assms]) blast+
  then have "tc_check parse (tc'\<lparr>existing := Some f\<rparr>) = (if md_Testbed f = TESTBED_UNSPECIFIED then [MissingTestbed] else [])"
    by (intro tc_check_fixed) auto
  with t u show ?thesis by simp
qed

text \<open>A fixed test case passes its own check, with one exception: when the existing metadata has a
  valid UUID and no testbed, \<^verbatim>\<open>fix\<close> returns before it fills in the default testbed, so the written
  metadata is still reported as missing its testbed.\<close>

theorem tc_fix_then_check:
  assumes "tc_fix parse rnd tc = (tc', None)" and "uuid_laws parse"
    and "\<And>u. rnd = Inr u \<Longrightarrow> canonical parse u"
  shows "tc_check parse (tc'\<lparr>existing := fixed tc'\<rparr>) =
    (if \<exists>e. existing tc = Some e \<and> good_uuid parse (Uuid e) \<and> md_Testbed e = TESTBED_UNSPECIFIED
     then [MissingTestbed] else [])"
  using assms by (rule tc_check_after_fix)

definition ex_parse :: uuid_parse where
  "ex_parse s = (if s = [] then None else Some (hd s = CHR ''4'', s))"

definition ex_md :: Metadata where
  "ex_md = \<lparr>Uuid = ''4ab'', PlanId = ''RT-1.1'', Description = ''Base BGP'', md_Testbed = TESTBED_UNSPECIFIED,
     PlatformExceptions = [], Tags = []\<rparr>"

definition ex_tc :: testcase where
  "ex_tc = \<lparr>markdown = Some ex_md, existing = Some ex_md, fixed = None\<rparr>"

lemma ex_uuid_laws: "uuid_laws ex_parse"
  by (auto simp: uuid_laws_def ex_parse_def split: if_splits)

theorem tc_fix_then_check_witness:
  "tc_check ex_parse (ex_tc\<lparr>fixed := Some ex_md, existing := Some ex_md\<rparr>) = [MissingTestbed]"
proof -
  have fx: "tc_fix ex_parse (Inr ''4'') ex_tc = (ex_tc\<lparr>fixed := Some ex_md\<rparr>, None)"
    by (simp add: tc_fix_def ex_tc_def ex_md_def ex_parse_def)
  have "\<exists>e. existing ex_tc = Some e \<and> good_uuid ex_parse (Uuid e) \<and> md_Testbed e = TESTBED_UNSPECIFIED"
    by (simp add: ex_tc_def ex_md_def good_uuid_def ex_parse_def)
  with tc_fix_then_check [OF fx ex_uuid_laws] show ?thesis
    by (simp add: canonical_def ex_parse_def)
qed

text \<open>Fixing is idempotent: after the fixed metadata is written, a second run finds nothing to
  write, whatever random UUIDs it draws.\<close>

theorem tc_fix_idempotent:
  assumes "tc_fix parse rnd tc = (tc', None)" and "uuid_laws parse"
    and "\<And>u. rnd = Inr u \<Longrightarrow> canonical parse u"
  shows "\<exists>tc''. tc_fix parse rnd' (tc'\<lparr>existing := fixed tc'\<rparr>) = (tc'', None) \<and> tc_write tc'' = Noop"
proof -
  obtain m f where "markdown tc = Some m" and "tc' = tc\<lparr>fixed := Some f\<rparr>" and "canonical parse (Uuid f)"
    and "PlanId f = PlanId m" and "Description f = Description m"
    by (rule tc_fix_cases [OF assms]) blast
  then show ?thesis
    by (cases f) (simp add: tc_fix_def tc_write_def canonical_def)
qed

theorem tc_fix_idempotent_witness:
  "\<exists>tc''. tc_fix ex_parse (Inl ''no entropy'') (ex_tc\<lparr>fixed := Some ex_md, existing := Some ex_md\<rparr>) = (tc'', None)
     \<and> tc_write tc'' = Noop"
proof -
  have fx: "tc_fix ex_parse (Inr ''4'') ex_tc = (ex_tc\<lparr>fixed := Some ex_md\<rparr>, None)"
    by (simp add: tc_fix_def ex_tc_def ex_md_def ex_parse_def)
  from tc_fix_idempotent [OF fx ex_uuid_laws, of "Inl ''no entropy''"] show ?thesis
    by (simp add: canonical_def ex_parse_def)
qed


section \<open>Checking the suite\<close>

lemma dup_step_simp:
  "dup_step keyfn (d, t) (ok, w) =
    (if keyfn t = [] then (ok, w)
     else case Mapping.lookup w (keyfn t) of
       None \<Rightarrow> (ok, Mapping.update (keyfn t) d w)
     | Some want \<Rightarrow> (ok \<and> toOTG d = toOTG want, w))"
  by (auto simp: dup_step_def split: option.splits)

definition clash :: "(testcase \<Rightarrow> string) \<Rightarrow> string \<times> testcase \<Rightarrow> string \<times> testcase \<Rightarrow> bool" where
  "clash keyfn x y \<longleftrightarrow> keyfn (snd x) \<noteq> [] \<and> keyfn (snd x) = keyfn (snd y) \<and> toOTG (fst x) \<noteq> toOTG (fst y)"

definition clash_with :: "(testcase \<Rightarrow> string) \<Rightarrow> string gomap \<Rightarrow> string \<times> testcase \<Rightarrow> bool" where
  "clash_with keyfn w x \<longleftrightarrow> keyfn (snd x) \<noteq> []
     \<and> (\<exists>want. Mapping.lookup w (keyfn (snd x)) = Some want \<and> toOTG (fst x) \<noteq> toOTG want)"

lemma clash_sym: "clash keyfn x y \<longleftrightarrow> clash keyfn y x" and clash_irrefl [simp]: "\<not> clash keyfn x x"
  by (auto simp: clash_def)

lemma clash_with_update:
  "Mapping.lookup w (keyfn t) = None \<Longrightarrow> keyfn t \<noteq> [] \<Longrightarrow>
    clash_with keyfn (Mapping.update (keyfn t) d w) x \<longleftrightarrow> clash_with keyfn w x \<or> clash keyfn x (d, t)"
  by (auto simp: clash_with_def clash_def lookup_update')

text \<open>With an earlier test of the same key, a test clashes with the new one only if it clashes with
  the earlier one, or the new one does.\<close>

lemma clash_via:
  "Mapping.lookup w (keyfn t) = Some want \<Longrightarrow> clash keyfn x (d, t) \<Longrightarrow> clash_with keyfn w x \<or> clash_with keyfn w (d, t)"
  by (auto simp: clash_with_def clash_def)

lemma dup_fold:
  "fst (fold (dup_step keyfn) es (ok, w)) \<longleftrightarrow>
    ok \<and> (\<forall>x \<in> set es. \<not> clash_with keyfn w x) \<and> (\<forall>x \<in> set es. \<forall>y \<in> set es. \<not> clash keyfn x y)"
proof (induction es arbitrary: ok w)
  case (Cons e es)
  obtain d t where e: "e = (d, t)" by fastforce
  consider (empty) "keyfn t = []" | (new) "keyfn t \<noteq> []" "Mapping.lookup w (keyfn t) = None"
    | (old) want where "keyfn t \<noteq> []" "Mapping.lookup w (keyfn t) = Some want" by fastforce
  then show ?case
  proof cases
    case empty
    then have "\<not> clash_with keyfn w e" "\<not> clash keyfn e x" "\<not> clash keyfn x e" for x
      using e by (auto simp: clash_with_def clash_def)
    with e empty show ?thesis by (simp add: dup_step_simp Cons.IH)
  next
    case new
    then have "\<not> clash_with keyfn w e" using e by (simp add: clash_with_def)
    with e new clash_sym show ?thesis
      by (auto simp: dup_step_simp Cons.IH clash_with_update)
  next
    case old
    then have "clash_with keyfn w e \<longleftrightarrow> toOTG d \<noteq> toOTG want" using e by (simp add: clash_with_def)
    with e old clash_via [of w keyfn t want _ d] clash_sym show ?thesis
      by (simp add: dup_step_simp Cons.IH) blast
  qed
qed simp

text \<open>The duplicate check accepts a suite exactly when any two tests with the same non-empty key
  (test plan ID, or UUID) are in the same directory up to \<^verbatim>\<open>ate_tests\<close>/\<^verbatim>\<open>otg_tests\<close>, whatever order the
  map is ranged over.\<close>

theorem checkDuplicate_iff:
  assumes "permutes_entries ord" and "finite (Mapping.keys ts)"
  shows "checkDuplicate keyfn ord ts \<longleftrightarrow>
    (\<forall>d t d' t'. Mapping.lookup ts d = Some t \<and> Mapping.lookup ts d' = Some t'
       \<and> keyfn t \<noteq> [] \<and> keyfn t = keyfn t' \<longrightarrow> toOTG d = toOTG d')"
proof -
  have "checkDuplicate keyfn ord ts \<longleftrightarrow>
    (\<forall>x \<in> set (range_order ord ts). \<forall>y \<in> set (range_order ord ts). \<not> clash keyfn x y)"
    by (simp add: checkDuplicate_def dup_fold clash_with_def)
  also have "\<dots> \<longleftrightarrow> (\<forall>d t d' t'. (d, t) \<in> set (range_order ord ts) \<and> (d', t') \<in> set (range_order ord ts)
       \<and> keyfn t \<noteq> [] \<and> keyfn t = keyfn t' \<longrightarrow> toOTG d = toOTG d')"
    unfolding clash_def by fastforce
  finally show ?thesis by (simp only: in_range_order [OF assms])
qed

definition ex_suite :: testsuite where
  "ex_suite = Mapping.update ''/f/ate_tests/x'' ex_tc (Mapping.update ''/f/otg_tests/x'' ex_tc Mapping.empty)"

theorem checkDuplicate_iff_witness:
  "checkDuplicate planKey rev ex_suite"
proof -
  have "toOTG ''/f/ate_tests/x'' = ''/f/otg_tests/x''" "toOTG ''/f/otg_tests/x'' = ''/f/otg_tests/x''"
    by code_simp+
  then show ?thesis
    by (subst checkDuplicate_iff) (auto simp: ex_suite_def lookup_update' split: if_splits)
qed


text \<open>The pairs \<^verbatim>\<open>checkATEOTG\<close> compares: an ATE test and its OTG twin.\<close>

definition twins :: "testsuite \<Rightarrow> string \<Rightarrow> testcase \<Rightarrow> testcase \<Rightarrow> bool" where
  "twins ts d a b \<longleftrightarrow> testKind d = ''ate_tests'' \<and> Mapping.lookup ts d = Some a \<and> Mapping.lookup ts (toOTG d) = Some b"

definition twin_of :: "testsuite \<Rightarrow> string \<times> testcase \<Rightarrow> testcase option" where
  "twin_of ts e = (if testKind (fst e) = ''ate_tests'' then Mapping.lookup ts (toOTG (fst e)) else None)"

lemma ateotg_loop_result:
  "ateotg_loop ts es ok =
    (if \<exists>e \<in> set es. \<exists>b. twin_of ts e = Some b \<and> (existing (snd e) = None \<or> existing b = None) then Panic
     else Ret (ok \<and> (\<forall>e \<in> set es. \<forall>b x y. twin_of ts e = Some b \<and> existing (snd e) = Some x \<and> existing b = Some y
        \<longrightarrow> same_rundata x y)))"
proof (induction ts es ok rule: ateotg_loop.induct)
  case (2 ts d tc es ok)
  then show ?case
    by (cases "twin_of ts (d, tc)"; cases "existing tc")
      (auto simp: twin_of_def split: option.splits if_splits)
qed simp

text \<open>The comparison of ATE and OTG tests: it crashes (a nil pointer dereference) exactly when some
  ATE test with an OTG twin, or that twin, has no metadata yet; otherwise it accepts exactly the suites
  in which all twins have the same plan ID, description and UUID. The order of the map does not
  matter, and since \<^verbatim>\<open>check\<close> runs every check, a crash here also stops the fixing run.\<close>

theorem checkATEOTG_result:
  assumes "permutes_entries ord" and "finite (Mapping.keys ts)"
  shows "checkATEOTG ord ts =
      (if \<exists>d a b. twins ts d a b \<and> (existing a = None \<or> existing b = None) then Panic
       else Ret (\<forall>d a b x y. twins ts d a b \<and> existing a = Some x \<and> existing b = Some y \<longrightarrow> same_rundata x y))
    \<and> (suite_check parse ord ts = Panic \<longleftrightarrow> checkATEOTG ord ts = Panic)"
proof -
  have t: "(d, a) \<in> set (range_order ord ts) \<and> twin_of ts (d, a) = Some b \<longleftrightarrow> twins ts d a b" for d a b
    by (auto simp: twins_def twin_of_def in_range_order [OF assms])
  have "(\<exists>e \<in> set (range_order ord ts). \<exists>b. twin_of ts e = Some b \<and> (existing (snd e) = None \<or> existing b = None))
      \<longleftrightarrow> (\<exists>d a b. twins ts d a b \<and> (existing a = None \<or> existing b = None))"
    unfolding t [symmetric] by fastforce
  moreover have "(\<forall>e \<in> set (range_order ord ts). \<forall>b x y. twin_of ts e = Some b \<and> existing (snd e) = Some x
      \<and> existing b = Some y \<longrightarrow> same_rundata x y)
      \<longleftrightarrow> (\<forall>d a b x y. twins ts d a b \<and> existing a = Some x \<and> existing b = Some y \<longrightarrow> same_rundata x y)"
    by (auto simp flip: t)
  moreover have "suite_check parse ord ts = Panic \<longleftrightarrow> checkATEOTG ord ts = Panic"
    by (cases "checkATEOTG ord ts") (simp_all add: suite_check_def Let_def)
  ultimately show ?thesis by (simp add: checkATEOTG_def ateotg_loop_result)
qed

definition ex_new :: testsuite where
  "ex_new = Mapping.update ''/f/ate_tests/x'' (ex_tc\<lparr>existing := None\<rparr>) ex_suite"

theorem checkATEOTG_result_witness:
  "checkATEOTG rev ex_new = Panic \<and> suite_check ex_parse rev ex_new = Panic"
proof -
  have k: "testKind ''/f/ate_tests/x'' = ''ate_tests''" "toOTG ''/f/ate_tests/x'' = ''/f/otg_tests/x''"
    by code_simp+
  then have "twins ex_new ''/f/ate_tests/x'' (ex_tc\<lparr>existing := None\<rparr>) ex_tc"
    by (simp add: twins_def ex_new_def ex_suite_def)
  then have "\<exists>d a b. twins ex_new d a b \<and> (existing a = None \<or> existing b = None)" by fastforce
  with checkATEOTG_result [of rev ex_new ex_parse] show ?thesis by (simp add: ex_new_def ex_suite_def)
qed


section \<open>Fixing the suite\<close>

lemma fix_fold:
  assumes "distinct (map fst es)"
  shows "fst (fold (fix_step parse rnd) es (ok, ts)) \<longleftrightarrow> ok \<and> (\<forall>(d, tc) \<in> set es. snd (tc_fix parse (rnd d) tc) = None)"
    and "Mapping.lookup (snd (fold (fix_step parse rnd) es (ok, ts))) d =
      (case map_of es d of Some tc \<Rightarrow> Some (fst (tc_fix parse (rnd d) tc)) | None \<Rightarrow> Mapping.lookup ts d)"
  using assms
proof (induction es arbitrary: ok ts)
  case (Cons e es)
  obtain d' tc where e: "e = (d', tc)" by fastforce
  have s: "fix_step parse rnd (d', tc) (ok, ts) =
      (ok \<and> snd (tc_fix parse (rnd d') tc) = None, Mapping.update d' (fst (tc_fix parse (rnd d') tc)) ts)" for ok ts
    by (simp add: fix_step_def split_beta)
  { case 1
    with Cons.IH(1) e show ?case by (auto simp: s) }
  { case 2
    with Cons.IH(2) e show ?case
      by (auto simp: s lookup_update' split: option.splits dest: map_of_SomeD intro: rev_image_eqI) }
qed auto

text \<open>Directories as the tool requires them: no OTG twin is itself an ATE test and no two ATE tests
  share their twin.\<close>

definition twins_ok :: "testsuite \<Rightarrow> bool" where
  "twins_ok ts \<longleftrightarrow> (\<forall>d \<in> Mapping.keys ts. testKind d = ''ate_tests'' \<longrightarrow> testKind (toOTG d) \<noteq> ''ate_tests'')
     \<and> inj_on toOTG {d \<in> Mapping.keys ts. testKind d = ''ate_tests''}"

lemma lookup_twin_step:
  "Mapping.lookup (twin_step d ts) k =
    (case (Mapping.lookup ts d, Mapping.lookup ts k) of
       (Some tc, Some otg) \<Rightarrow> Some (if testKind d = ''ate_tests'' \<and> k = toOTG d then copyUuid tc otg else otg)
     | (_, r) \<Rightarrow> r)"
  by (auto simp: twin_step_def lookup_update' split: option.splits)

lemma twin_step_None: "Mapping.lookup (twin_step d ts) k = None \<longleftrightarrow> Mapping.lookup ts k = None"
  by (auto simp: lookup_twin_step split: option.splits)

lemma twin_step_keep: "(testKind d = ''ate_tests'' \<Longrightarrow> toOTG d \<noteq> k) \<Longrightarrow> Mapping.lookup (twin_step d ts) k = Mapping.lookup ts k"
  by (auto simp: lookup_twin_step split: option.splits)

lemma twin_fold_keep:
  "(\<And>d. d \<in> set ds \<Longrightarrow> testKind d = ''ate_tests'' \<Longrightarrow> toOTG d \<noteq> k) \<Longrightarrow>
    Mapping.lookup (fold twin_step ds ts) k = Mapping.lookup ts k"
proof (induction ds arbitrary: ts)
  case (Cons d ds)
  then have "Mapping.lookup (fold twin_step ds (twin_step d ts)) k = Mapping.lookup (twin_step d ts) k" by simp
  also have "\<dots> = Mapping.lookup ts k" using Cons.prems by (intro twin_step_keep) simp
  finally show ?case by simp
qed simp

lemma twin_fold_copy:
  assumes ok: "twins_ok ts" and d: "twins ts d a b" and ds: "distinct ds" "set ds = Mapping.keys ts"
  shows "Mapping.lookup (fold twin_step ds ts) d = Some a"
    and "Mapping.lookup (fold twin_step ds ts) (toOTG d) = Some (copyUuid a b)"
proof -
  have k: "testKind d = ''ate_tests''" "d \<in> Mapping.keys ts" "d \<in> set ds"
    using d ds by (auto simp: twins_def keys_dom_lookup)
  have ate: "toOTG d' \<noteq> e" if "d' \<in> set ds" "testKind d' = ''ate_tests''" "testKind e = ''ate_tests''" for d' e
    using that ok ds(2) by (auto simp: twins_ok_def)
  have twin: "toOTG d' \<noteq> toOTG d" if "d' \<in> set ds" "d' \<noteq> d" "testKind d' = ''ate_tests''" for d'
    using that ok ds(2) k by (auto simp: twins_ok_def inj_on_def)
  show "Mapping.lookup (fold twin_step ds ts) d = Some a"
    using d by (subst twin_fold_keep) (auto simp: twins_def ate)
  obtain us vs where split: "ds = us @ d # vs" using k(3) by (auto dest: split_list)
  let ?ts = "fold twin_step us ts"
  have "Mapping.lookup ?ts d = Mapping.lookup ts d"
    using ate k(1) split by (intro twin_fold_keep) auto
  moreover have "Mapping.lookup ?ts (toOTG d) = Mapping.lookup ts (toOTG d)"
    using twin ds(1) split by (intro twin_fold_keep) auto
  ultimately have "Mapping.lookup ?ts d = Some a" "Mapping.lookup ?ts (toOTG d) = Some b"
    using d by (simp_all add: twins_def)
  then have "Mapping.lookup (twin_step d ?ts) (toOTG d) = Some (copyUuid a b)"
    using k(1) by (simp add: lookup_twin_step)
  moreover have "Mapping.lookup (fold twin_step vs (twin_step d ?ts)) (toOTG d) = Mapping.lookup (twin_step d ?ts) (toOTG d)"
    using ds(1) twin split by (intro twin_fold_keep) auto
  ultimately show "Mapping.lookup (fold twin_step ds ts) (toOTG d) = Some (copyUuid a b)"
    using split by simp
qed


definition fixed_well :: "uuid_parse \<Rightarrow> testcase \<Rightarrow> bool" where
  "fixed_well parse t \<longleftrightarrow> (\<exists>m f. markdown t = Some m \<and> fixed t = Some f \<and> canonical parse (Uuid f)
     \<and> PlanId f = PlanId m \<and> Description f = Description m)"

lemma fixed_well_check: "fixed_well parse t \<Longrightarrow> set (tc_check parse (t\<lparr>existing := fixed t\<rparr>)) \<subseteq> {MissingTestbed}"
  by (auto simp: fixed_well_def tc_check_fixed)

lemma fixed_well_copy: "fixed_well parse a \<Longrightarrow> fixed_well parse b \<Longrightarrow> fixed_well parse (copyUuid a b)"
  by (auto simp: fixed_well_def copyUuid_def)

lemma twin_fold_fixed_well:
  "(\<And>d t. Mapping.lookup ts d = Some t \<Longrightarrow> fixed_well parse t) \<Longrightarrow>
    Mapping.lookup (fold twin_step ds ts) k = Some t' \<Longrightarrow> fixed_well parse t'"
proof (induction ds arbitrary: ts)
  case (Cons d ds)
  have "fixed_well parse t" if "Mapping.lookup (twin_step d ts) k = Some t" for k t
    using that Cons.prems(1) fixed_well_copy by (auto simp: lookup_twin_step split: option.splits if_splits)
  then show ?case using Cons.IH [of "twin_step d ts"] Cons.prems(2) by simp
qed simp

lemma twin_fold_None: "Mapping.lookup (fold twin_step ds ts) k = None \<longleftrightarrow> Mapping.lookup ts k = None"
  by (induction ds arbitrary: ts) (simp_all add: twin_step_None)

text \<open>The suite between the two loops.\<close>

definition fix_first :: "uuid_parse \<Rightarrow> (string \<Rightarrow> (string, string) res) \<Rightarrow> testcase enum \<Rightarrow> testsuite \<Rightarrow> bool \<times> testsuite" where
  "fix_first parse rnd ord ts = fold (fix_step parse rnd) (range_order ord ts) (True, ts)"

lemma fix_first_lookup:
  assumes "permutes_entries ord" "finite (Mapping.keys ts)"
  shows "Mapping.lookup (snd (fix_first parse rnd ord ts)) d =
    map_option (\<lambda>tc. fst (tc_fix parse (rnd d) tc)) (Mapping.lookup ts d)"
  unfolding fix_first_def fix_fold(2) [OF distinct_range_order [OF assms(1)]] map_of_range_order [OF assms]
  by (cases "Mapping.lookup ts d") auto

lemma fix_first_well:
  assumes "permutes_entries ord" "finite (Mapping.keys ts)" and "fst (fix_first parse rnd ord ts)"
    and laws: "uuid_laws parse" "\<And>d u. rnd d = Inr u \<Longrightarrow> canonical parse u"
    and "Mapping.lookup (snd (fix_first parse rnd ord ts)) d = Some t"
  shows "fixed_well parse t"
proof -
  obtain tc where tc: "Mapping.lookup ts d = Some tc" "t = fst (tc_fix parse (rnd d) tc)"
    using assms(6) by (auto simp: fix_first_lookup [OF assms(1,2)])
  moreover have "snd (tc_fix parse (rnd d) tc) = None"
    using assms(3) tc(1) in_range_order [OF assms(1,2), of d tc]
    unfolding fix_first_def fix_fold(1) [OF distinct_range_order [OF assms(1)]] by auto
  ultimately have fx: "tc_fix parse (rnd d) tc = (t, None)" by (simp add: prod_eq_iff)
  obtain m f where "markdown tc = Some m" "t = tc\<lparr>fixed := Some f\<rparr>" "canonical parse (Uuid f)"
    "PlanId f = PlanId m" "Description f = Description m"
    using tc_fix_cases [OF fx laws(1)] laws(2) by blast
  then show ?thesis by (auto simp: fixed_well_def)
qed

text \<open>The UUID that a test gets: its own, in canonical form, if that is a valid one of version 4, and otherwise the one drawn for its directory.\<close>

definition uuid_for :: "uuid_parse \<Rightarrow> (string, string) res \<Rightarrow> testcase \<Rightarrow> string" where
  "uuid_for parse drawn tc =
     (case (case existing tc of None \<Rightarrow> None | Some e \<Rightarrow> parse (Uuid e)) of Some (True, canon) \<Rightarrow> canon | _ \<Rightarrow> projr drawn)"

lemma tc_fix_uuid: "tc_fix parse r tc = (t, None) \<Longrightarrow> map_option Uuid (fixed t) = Some (uuid_for parse r tc)"
  by (cases "existing tc")
    (auto simp: tc_fix_def uuid_for_def Let_def split: option.splits prod.splits bool.splits sum.splits)

lemma fix_first_ok:
  assumes "permutes_entries ord" "finite (Mapping.keys ts)" "fst (fix_first parse rnd ord ts)" "Mapping.lookup ts d = Some tc"
  shows "tc_fix parse (rnd d) tc = (fst (tc_fix parse (rnd d) tc), None)"
  using assms(3,4) in_range_order [OF assms(1,2), of d tc]
  unfolding fix_first_def fix_fold(1) [OF distinct_range_order [OF assms(1)]] by (auto simp: prod_eq_iff)

lemma twin_fold_uuid:
  assumes "twins_ok ts" "distinct ds" "set ds = Mapping.keys ts" and well: "\<And>d t. Mapping.lookup ts d = Some t \<Longrightarrow> fixed_well parse t"
    and tw: "twins (fold twin_step ds ts) d a b"
  shows "map_option Uuid (fixed a) = map_option Uuid (fixed b)"
proof -
  have "Mapping.lookup ts d \<noteq> None" "Mapping.lookup ts (toOTG d) \<noteq> None"
    using tw twin_fold_None unfolding twins_def by (metis option.distinct(1))+
  then obtain a1 b1 where tw1: "twins ts d a1 b1" using tw by (auto simp: twins_def)
  from twin_fold_copy [OF assms(1) tw1 assms(2,3)] tw have "a = a1" "b = copyUuid a1 b1" by (auto simp: twins_def)
  moreover have "fixed_well parse a1" "fixed_well parse b1" using well tw1 by (auto simp: twins_def)
  ultimately show ?thesis by (auto simp: fixed_well_def copyUuid_def)
qed

text \<open>C25: A successful fix of the suite keeps its tests. Every test gets metadata that agrees with its README and has a canonical version 4 UUID, so that a later
  check of the written metadata can only complain of a missing testbed. A test that is not the OTG twin of an ATE test keeps its UUID, in canonical form, if that is
  a valid one of version 4, and otherwise gets the random one drawn for its directory; an OTG twin gets the UUID of the ATE test. Equal UUIDs that were there
  before stay equal. This holds for every order of the two range loops.\<close>

theorem suite_fix_correct:
  assumes "suite_fix parse rnd ord ord' ts = (ts', True)"
    and ord: "permutes_entries ord" "permutes_entries ord'" and fin: "finite (Mapping.keys ts)"
    and "twins_ok ts" and uuids: "uuid_laws parse" "\<forall>d u. rnd d = Inr u \<longrightarrow> canonical parse u"
  shows "Mapping.keys ts' = Mapping.keys ts
    \<and> (\<forall>d t. Mapping.lookup ts' d = Some t \<longrightarrow> (\<exists>m f. markdown t = Some m \<and> fixed t = Some f
          \<and> canonical parse (Uuid f) \<and> PlanId f = PlanId m \<and> Description f = Description m)
        \<and> set (tc_check parse (t\<lparr>existing := fixed t\<rparr>)) \<subseteq> {MissingTestbed})
    \<and> (\<forall>d tc t. Mapping.lookup ts d = Some tc \<and> Mapping.lookup ts' d = Some t
          \<and> (\<forall>a\<in>Mapping.keys ts. testKind a = ''ate_tests'' \<longrightarrow> toOTG a \<noteq> d) \<longrightarrow> map_option Uuid (fixed t) = Some (uuid_for parse (rnd d) tc))
    \<and> (\<forall>d a b. twins ts' d a b \<longrightarrow> map_option Uuid (fixed a) = map_option Uuid (fixed b))"
proof -
  note laws = uuids(1) uuids(2) [rule_format]
  define ts1 where "ts1 = snd (fix_first parse rnd ord ts)"
  have ok: "fst (fix_first parse rnd ord ts)"
    and ts': "ts' = fold twin_step (map fst (range_order ord' ts1)) ts1"
    using assms(1) by (auto simp: suite_fix_def ts1_def fix_first_def Let_def split_beta split: if_splits)
  have keys: "Mapping.keys ts1 = Mapping.keys ts"
    by (simp add: keys_dom_lookup dom_def ts1_def fix_first_lookup [OF ord(1) fin])
  have well: "fixed_well parse t" if "Mapping.lookup ts1 d = Some t" for d t
    using that laws unfolding ts1_def by (intro fix_first_well [OF ord(1) fin ok]) auto
  let ?ds = "map fst (range_order ord' ts1)"
  have ds: "distinct ?ds" "set ?ds = Mapping.keys ts1"
    using distinct_range_order [OF ord(2)] set_range_order [OF ord(2), of ts1] fin keys by auto
  have "twins_ok ts1" using \<open>twins_ok ts\<close> keys by (simp add: twins_ok_def)
  then have "map_option Uuid (fixed a) = map_option Uuid (fixed b)" if "twins ts' d a b" for d a b
    using that ds well unfolding ts' by (intro twin_fold_uuid) auto
  moreover have "fixed_well parse t" if "Mapping.lookup ts' d = Some t" for d t
    using that well twin_fold_fixed_well unfolding ts' by blast
  moreover have "map_option Uuid (fixed t) = Some (uuid_for parse (rnd d) tc)"
    if "Mapping.lookup ts d = Some tc" "Mapping.lookup ts' d = Some t" "\<forall>a\<in>Mapping.keys ts. testKind a = ''ate_tests'' \<longrightarrow> toOTG a \<noteq> d" for d tc t
  proof -
    have "Mapping.lookup ts' d = Mapping.lookup ts1 d" unfolding ts' using that(3) ds(2) keys by (intro twin_fold_keep) auto
    then have "t = fst (tc_fix parse (rnd d) tc)" using that(1,2) by (simp add: ts1_def fix_first_lookup [OF ord(1) fin])
    then show ?thesis using tc_fix_uuid [OF fix_first_ok [OF ord(1) fin ok that(1)]] by simp
  qed
  moreover have "Mapping.keys ts' = Mapping.keys ts"
    unfolding keys [symmetric] by (auto simp: keys_dom_lookup ts' twin_fold_None dom_def simp del: not_None_eq)
  ultimately show ?thesis using fixed_well_check unfolding fixed_well_def by blast
qed

lemma ex_paths:
  "testKind ''/f/ate_tests/x'' = ''ate_tests''" "testKind ''/f/otg_tests/x'' = ''otg_tests''"
  "toOTG ''/f/ate_tests/x'' = ''/f/otg_tests/x''"
  by code_simp+

text \<open>The test without metadata gets the UUID drawn for its directory, and its twin the same.\<close>

theorem suite_fix_correct_witness:
  "\<exists>ts' a b. suite_fix ex_parse (\<lambda>d. Inr (CHR ''4'' # d)) rev rev ex_new = (ts', True)
    \<and> twins ts' ''/f/ate_tests/x'' a b \<and> map_option Uuid (fixed a) = Some ''4/f/ate_tests/x'' \<and> map_option Uuid (fixed b) = Some ''4/f/ate_tests/x''"
proof -
  let ?rnd = "\<lambda>d. Inr (CHR ''4'' # d)"
  have "snd (tc_fix ex_parse (?rnd d) (ex_tc\<lparr>existing := None\<rparr>)) = None" "snd (tc_fix ex_parse (?rnd d) ex_tc) = None" for d
    by (simp_all add: tc_fix_def ex_tc_def ex_parse_def ex_md_def)
  then have "snd (suite_fix ex_parse ?rnd rev rev ex_new)"
    by (simp add: suite_fix_def fix_step_def Let_def split_beta ex_new_def ex_suite_def range_order_def insort_insert_key_def)
  then obtain ts' where r: "suite_fix ex_parse ?rnd rev rev ex_new = (ts', True)"
    by (metis prod.collapse)
  have keys: "Mapping.keys ex_new = {''/f/ate_tests/x'', ''/f/otg_tests/x''}" by (auto simp: ex_new_def ex_suite_def)
  have ok: "twins_ok ex_new" by (auto simp: twins_ok_def keys ex_paths inj_on_def)
  have can: "\<forall>d u. ?rnd d = Inr u \<longrightarrow> canonical ex_parse u" by (auto simp: canonical_def ex_parse_def)
  have ord: "permutes_entries (rev :: testcase enum)" by simp
  have fin: "finite (Mapping.keys ex_new)" by (simp add: keys)
  note res = suite_fix_correct [OF r ord ord fin ok ex_uuid_laws can]
  have ks: "Mapping.keys ts' = {''/f/ate_tests/x'', ''/f/otg_tests/x''}" using res [THEN conjunct1] keys by simp
  then obtain a b where ab: "Mapping.lookup ts' ''/f/ate_tests/x'' = Some a" "Mapping.lookup ts' ''/f/otg_tests/x'' = Some b"
    by (metis insertCI keys_is_none_rep is_none_code(1) not_Some_eq)
  then have tw: "twins ts' ''/f/ate_tests/x'' a b" by (simp add: twins_def ex_paths)
  have at: "Mapping.lookup ex_new ''/f/ate_tests/x'' = Some (ex_tc\<lparr>existing := None\<rparr>)" by (simp add: ex_new_def)
  have no: "\<forall>a\<in>Mapping.keys ex_new. testKind a = ''ate_tests'' \<longrightarrow> toOTG a \<noteq> ''/f/ate_tests/x''" by (auto simp: keys ex_paths)
  have "map_option Uuid (fixed a) = Some (uuid_for ex_parse (?rnd ''/f/ate_tests/x'') (ex_tc\<lparr>existing := None\<rparr>))"
    using res [THEN conjunct2, THEN conjunct2, THEN conjunct1, rule_format, OF conjI [OF at conjI [OF ab(1) no]]] .
  then have "map_option Uuid (fixed a) = Some ''4/f/ate_tests/x''" by (simp add: uuid_for_def)
  moreover have "map_option Uuid (fixed a) = map_option Uuid (fixed b)" using res tw by blast
  ultimately show ?thesis using r tw by metis
qed

end
