(* ===== verification/Version_Order.thy ===== *)
theory Version_Order
  imports Go_Map "HOL-Library.Product_Lexorder"
begin

text \<open>
  \<^verbatim>\<open>tools/addrundata/lib.go\<close>: the order of test plan IDs (\<^verbatim>\<open>RT-1.2\<close> before \<^verbatim>\<open>RT-1.10\<close>), and
  \<^verbatim>\<open>testSection\<close>. The tokens of \<^verbatim>\<open>(\D*)(\d*)\<close> are a maximal run of non-digits and a maximal run of digits;
  the empty string has one empty token. \<open>version_key\<close> is the abstract order: tokens compare by word, then
  by number, then by digits.
\<close>

function tokens_of :: "string \<Rightarrow> (string \<times> string) list" where
  "tokens_of s =
     (if s = [] then []
      else let w = takeWhile (\<lambda>c. \<not> is_digit c) s;
               r = dropWhile (\<lambda>c. \<not> is_digit c) s;
               d = takeWhile is_digit r in
           (w, d) # tokens_of (dropWhile is_digit r))"
  by pat_completeness auto
termination
proof (relation "measure length")
  fix s :: string and w r d :: string
  assume "s \<noteq> []" and r: "r = dropWhile (\<lambda>c. \<not> is_digit c) s"
  then obtain c t where s: "s = c # t" by (cases s) auto
  have "length (dropWhile is_digit r) < length s"
  proof (cases "is_digit c")
    case True
    with r s show ?thesis by (simp add: length_dropWhile_le less_Suc_eq_le)
  next
    case False
    have "length (dropWhile is_digit r) \<le> length r" by (rule length_dropWhile_le)
    also have "\<dots> \<le> length t" using False r s by (simp add: length_dropWhile_le)
    finally show ?thesis using s by simp
  qed
  then show "(dropWhile is_digit r, s) \<in> measure length" by simp
qed simp

declare tokens_of.simps [simp del]

definition versionTokens :: "string \<Rightarrow> (string \<times> string) list" where
  "versionTokens s = (if s = [] then [([], [])] else tokens_of s)"

text \<open>\<^verbatim>\<open>strconv.Atoi\<close> on a run of digits: no number for the empty run, nor above \<open>2 ^ 63 - 1\<close>.\<close>

definition dec_int :: "string \<Rightarrow> int" where
  "dec_int d = foldl (\<lambda>a c. 10 * a + int (digit_val c)) 0 d"

definition atoi :: "string \<Rightarrow> int option" where
  "atoi d = (if d = [] \<or> dec_int d > 9223372036854775807 then None else Some (dec_int d))"

fun less_tokens :: "(string \<times> string) list \<Rightarrow> (string \<times> string) list \<Rightarrow> bool" where
  "less_tokens [] ys \<longleftrightarrow> ys \<noteq> []"
| "less_tokens (x # xs) [] \<longleftrightarrow> False"
| "less_tokens ((xword, xdigit) # xs) ((yword, ydigit) # ys) \<longleftrightarrow>
     (if xword < yword then True
      else if xword > yword then False
      else if (case (atoi xdigit, atoi ydigit) of (Some xn, Some yn) \<Rightarrow> xn < yn | _ \<Rightarrow> False) then True
      else if (case (atoi xdigit, atoi ydigit) of (Some xn, Some yn) \<Rightarrow> xn > yn | _ \<Rightarrow> False) then False
      else if xdigit < ydigit then True
      else if xdigit > ydigit then False
      else less_tokens xs ys)"

definition lessVersion :: "string \<Rightarrow> string \<Rightarrow> bool" where
  "lessVersion x y = less_tokens (versionTokens x) (versionTokens y)"

definition testSection :: "string \<Rightarrow> string" where
  "testSection testPlanID =
     (case str_index testPlanID ''.'' of None \<Rightarrow> testPlanID | Some i \<Rightarrow> take i testPlanID)"


section \<open>The order\<close>

definition digits_value :: "string \<Rightarrow> int" where
  "digits_value d = (if d = [] then -1 else dec_int d)"

definition version_key :: "string \<Rightarrow> (string \<times> int \<times> string) list" where
  "version_key s = map (\<lambda>(w, d). (w, digits_value d, d)) (versionTokens s)"

text \<open>All numbers of the string fit a Go \<^verbatim>\<open>int\<close>.\<close>

definition small_numbers :: "string \<Rightarrow> bool" where
  "small_numbers s \<longleftrightarrow> list_all (\<lambda>(w, d). digits_value d \<le> 9223372036854775807) (versionTokens s)"

lemma dec_int_nonneg: "0 \<le> dec_int d"
proof -
  have "0 \<le> (a::int) \<Longrightarrow> 0 \<le> foldl (\<lambda>a c. 10 * a + int (digit_val c)) a d" for a
    by (induction d arbitrary: a) auto
  then show ?thesis by (simp add: dec_int_def)
qed

lemma digits_compare:
  assumes "digits_value xd \<le> 9223372036854775807" and "digits_value yd \<le> 9223372036854775807"
  shows "(if (case (atoi xd, atoi yd) of (Some xn, Some yn) \<Rightarrow> xn < yn | _ \<Rightarrow> False) then True
      else if (case (atoi xd, atoi yd) of (Some xn, Some yn) \<Rightarrow> xn > yn | _ \<Rightarrow> False) then False
      else if xd < yd then True
      else if xd > yd then False
      else P) \<longleftrightarrow> (digits_value xd, xd) < (digits_value yd, yd) \<or> (xd = yd \<and> P)"
proof (cases "xd = [] \<or> yd = []")
  case True
  then show ?thesis
    using dec_int_nonneg [of xd] dec_int_nonneg [of yd]
    by (cases xd; cases yd) (auto simp: atoi_def digits_value_def less_prod_def)
next
  case False
  then have "atoi xd = Some (digits_value xd)" "atoi yd = Some (digits_value yd)"
    using assms by (simp_all add: atoi_def digits_value_def)
  then show ?thesis by (simp add: less_prod_def) (metis less_linear order.strict_iff_not)
qed

lemma less_tokens_key:
  assumes "list_all (\<lambda>(w, d). digits_value d \<le> 9223372036854775807) xs"
    and "list_all (\<lambda>(w, d). digits_value d \<le> 9223372036854775807) ys"
  shows "less_tokens xs ys \<longleftrightarrow>
    map (\<lambda>(w, d). (w, digits_value d, d)) xs < map (\<lambda>(w, d). (w, digits_value d, d)) ys"
  using assms
proof (induction xs ys rule: less_tokens.induct)
  case (1 ys)
  then show ?case by (cases ys) auto
next
  case (3 xw xd xs yw yd ys)
  let ?m = "map (\<lambda>(w, d). (w, digits_value d, d))"
  have c: "digits_value xd \<le> 9223372036854775807" "digits_value yd \<le> 9223372036854775807"
    using 3 by auto
  consider "xw < yw" | "xw > yw" | (eq) "xw = yw" by fastforce
  then show ?case
  proof cases
    case eq
    show ?thesis
    proof (cases "xd = yd")
      case True
      have "less_tokens ((xw, xd) # xs) ((yw, yd) # ys) \<longleftrightarrow> less_tokens xs ys"
        unfolding less_tokens.simps digits_compare [OF c] using eq True by simp
      also have "\<dots> \<longleftrightarrow> ?m xs < ?m ys"
        using 3 eq True by (auto split: option.splits)
      finally show ?thesis using eq True by simp
    next
      case False
      then show ?thesis
        unfolding less_tokens.simps digits_compare [OF c] using eq by (simp add: less_prod_def)
    qed
  qed (auto simp: less_prod_def)
qed auto

lemma concat_tokens: "concat (map (\<lambda>(w, d). w @ d) (tokens_of s)) = s"
proof (induction s rule: tokens_of.induct)
  case (1 s)
  show ?case
  proof (cases "s = []")
    case True
    then show ?thesis by (simp add: tokens_of.simps)
  next
    case False
    then show ?thesis using 1 by (subst tokens_of.simps) (simp add: Let_def)
  qed
qed

lemma concat_versionTokens: "concat (map (\<lambda>(w, d). w @ d) (versionTokens s)) = s"
  by (simp add: versionTokens_def concat_tokens)

lemma version_key_inject: "version_key x = version_key y \<Longrightarrow> x = y"
proof -
  assume k: "version_key x = version_key y"
  have t: "versionTokens s = map (\<lambda>(w, n, d). (w, d)) (version_key s)" for s
    by (induction "versionTokens s") (auto simp: version_key_def comp_def split_beta)
  then have "versionTokens x = versionTokens y" using k by metis
  then show "x = y" using concat_versionTokens by metis
qed

text \<open>C39: The version order is the lexicographic order of the keys (word, number, digits of each
  token), for strings whose numbers fit a Go \<^verbatim>\<open>int\<close>: hence a strict total order, as \<^verbatim>\<open>sort.Slice\<close> needs.\<close>

theorem lessVersion_linear:
  assumes "small_numbers x" and "small_numbers y" and "small_numbers z"
  shows "(lessVersion x y \<longleftrightarrow> version_key x < version_key y)
    \<and> \<not> lessVersion x x
    \<and> (lessVersion x y \<and> lessVersion y z \<longrightarrow> lessVersion x z)
    \<and> (x \<noteq> y \<longrightarrow> lessVersion x y \<noteq> lessVersion y x)"
proof -
  have key: "lessVersion a b \<longleftrightarrow> version_key a < version_key b" if "small_numbers a" "small_numbers b" for a b
    using that unfolding lessVersion_def version_key_def small_numbers_def by (rule less_tokens_key)
  show ?thesis
    using key assms version_key_inject [of x y] by (auto simp: not_less_iff_gr_or_eq)
qed

theorem lessVersion_linear_witness:
  "lessVersion ''RT-1.2'' ''RT-1.10'' \<and> \<not> lessVersion ''RT-1.10'' ''RT-1.2''"
proof -
  have s: "small_numbers ''RT-1.2''" "small_numbers ''RT-1.10''" by code_simp+
  have "version_key ''RT-1.2'' < version_key ''RT-1.10''" by code_simp
  with lessVersion_linear [OF s s(1)] show ?thesis by blast
qed

text \<open>Without that bound the relation has cycles, because a number too long for \<^verbatim>\<open>int\<close> is compared
  as text: it is not an order and the result of sorting is then unspecified.\<close>

theorem lessVersion_cycle:
  "lessVersion ''A2'' ''A10'' \<and> lessVersion ''A10'' ''A19999999999999999999'' \<and> lessVersion ''A19999999999999999999'' ''A2''"
  by code_simp

end
