(* ===== verification/Ci_Trigger.thy ===== *)
theory Ci_Trigger
  imports FP_Prelude
begin

text \<open>
  \<^verbatim>\<open>tools/ci-trigger\<close>: the service that launches tests for pull requests. \<^verbatim>\<open>pr.go\<close> (which tests a pull
  request modifies, their details, launching builds, the report comment), \<^verbatim>\<open>trigger.go\<close> (the two webhook
  handlers and the authorization of users), \<^verbatim>\<open>config.go\<close> (keywords and device types) and \<^verbatim>\<open>badge.go\<close>.

  The outside world is the record \<open>env\<close>: what each call of GitHub, git, the file system, Cloud Build,
  PubSub and Cloud Storage answers. The jobs launched are kept in a log, so that the theorems can say
  what was launched: \<open>VirtualJob\<close> for a Cloud Build submission, \<open>PhysicalJob\<close> for a published message.
  A range loop over the keyword map visits the keywords in an order \<open>kord\<close> chosen by the runtime.
\<close>

record deviceType =
  Vendor :: string
  HardwareModel :: string

record functionalTest =
  ft_Name :: string
  ft_Description :: string
  ft_Path :: string
  DocURL :: string
  TestURL :: string
  ft_Status :: string
  BadgePath :: string
  BadgeURL :: string

record device =
  dev_Type :: deviceType
  CloudBuildID :: string
  CloudBuildLogURL :: string
  CloudBuildRawLogURL :: string
  ArchivePath :: string
  Tests :: "functionalTest list"

record pullRequest =
  pr_ID :: nat
  HeadSHA :: string
  Virtual :: "device list"
  Physical :: "device list"

definition dt :: "string \<Rightarrow> string \<Rightarrow> deviceType" where
  "dt v m = \<lparr>Vendor = v, HardwareModel = m\<rparr>"

definition virtualDeviceTypes :: "deviceType list" where
  "virtualDeviceTypes =
     [dt ''ARISTA'' ''cEOS'', dt ''CISCO'' ''8000E'', dt ''CISCO'' ''XRd'', dt ''JUNIPER'' ''ncPTX'',
      dt ''NOKIA'' ''SR Linux'', dt ''OPENCONFIG'' ''Lemming'']"

definition physicalDeviceTypes :: "deviceType list" where
  "physicalDeviceTypes = [dt ''ARISTA'' [], dt ''CISCO'' [], dt ''JUNIPER'' [], dt ''NOKIA'' []]"

definition triggerKeywords :: "(string \<times> deviceType list) list" where
  "triggerKeywords =
     [(''/fptest all'', virtualDeviceTypes),
      (''/fptest physical'', physicalDeviceTypes),
      (''/fptest virtual'', virtualDeviceTypes),
      (''/fptest arista-physical'', [dt ''ARISTA'' []]),
      (''/fptest cisco-physical'', [dt ''CISCO'' []]),
      (''/fptest juniper-physical'', [dt ''JUNIPER'' []]),
      (''/fptest nokia-physical'', [dt ''NOKIA'' []]),
      (''/fptest arista-ceos'', [dt ''ARISTA'' ''cEOS'']),
      (''/fptest cisco-8000e'', [dt ''CISCO'' ''8000E'']),
      (''/fptest cisco-xrd'', [dt ''CISCO'' ''XRd'']),
      (''/fptest juniper-ncptx'', [dt ''JUNIPER'' ''ncPTX'']),
      (''/fptest nokia-srl'', [dt ''NOKIA'' ''SR Linux'']),
      (''/fptest openconfig-lemming'', [dt ''OPENCONFIG'' ''Lemming'']),
      (''/fptest ceos'', [dt ''ARISTA'' ''cEOS'']),
      (''/fptest 8000e'', [dt ''CISCO'' ''8000E'']),
      (''/fptest xrd'', [dt ''CISCO'' ''XRd'']),
      (''/fptest srl'', [dt ''NOKIA'' ''SR Linux'']),
      (''/fptest lemming'', [dt ''OPENCONFIG'' ''Lemming''])]"

definition pending :: string where
  "pending = ''pending authorization''"

definition setup_status :: string where
  "setup_status = ''setup''"


section \<open>Launching builds\<close>

datatype job = VirtualJob deviceType string | PhysicalJob device

datatype api_error = NotFoundError | ApiError string

record env =
  membership :: "string \<Rightarrow> string \<Rightarrow> (api_error, string) res"
  mkdirTemp :: "string option"
  prGet :: "nat \<Rightarrow> (string, string \<times> string) res"
  gitClone :: "string \<Rightarrow> string \<Rightarrow> string option"
  testPaths :: "(string, string list) res"
  modFiles :: "string \<Rightarrow> (string, string list) res"
  readMetadata :: "string \<Rightarrow> (string, string \<times> string) res"
  badgeAttrs :: "string \<Rightarrow> (string \<rightharpoonup> string) option"
  goDeps :: "string option"
  archive :: "(string, string) res"
  submitBuild :: "deviceType \<Rightarrow> string \<Rightarrow> (string, string \<times> string) res"
  newUUID :: "deviceType \<Rightarrow> (string, string) res"
  publish :: "deviceType \<Rightarrow> string option"
  writeBadge :: "string \<Rightarrow> string option"
  listComments :: "nat \<Rightarrow> (string, (nat \<times> string) list) res"
  postComment :: "nat option \<Rightarrow> nat \<Rightarrow> string option"

definition rawLogURL :: "deviceType \<Rightarrow> string \<Rightarrow> string" where
  "rawLogURL t jobID =
     ''https://storage.cloud.google.com/featureprofiles-ci-logs-'' @
     filter (\<lambda>c. c \<noteq> CHR '' '') (toLower (Vendor t)) @ ''/log-'' @ jobID @ ''.txt''"

definition ready :: "device \<Rightarrow> bool" where
  "ready d \<longleftrightarrow> Tests d \<noteq> [] \<and> list_all (\<lambda>t. ft_Status t = pending) (Tests d)"

definition mark_setup :: "device \<Rightarrow> device" where
  "mark_setup d = d\<lparr>Tests := map (\<lambda>t. t\<lparr>ft_Status := setup_status\<rparr>) (Tests d)\<rparr>"

type_synonym launch = "device \<times> job list \<times> string option"

definition launch_virtual :: "env \<Rightarrow> string \<Rightarrow> device \<Rightarrow> launch" where
  "launch_virtual E objPath d =
     (case submitBuild E (dev_Type d) objPath of
        Inl e \<Rightarrow> (d, [], Some e)
      | Inr (jobID, logURL) \<Rightarrow>
          (mark_setup (d\<lparr>ArchivePath := objPath, CloudBuildID := jobID, CloudBuildLogURL := logURL,
             CloudBuildRawLogURL := rawLogURL (dev_Type d) jobID\<rparr>),
           [VirtualJob (dev_Type d) objPath], None))"

definition launch_physical :: "env \<Rightarrow> string \<Rightarrow> device \<Rightarrow> launch" where
  "launch_physical E objPath d =
     (case newUUID E (dev_Type d) of
        Inl e \<Rightarrow> (d, [], Some e)
      | Inr jobID \<Rightarrow>
          (let d' = d\<lparr>ArchivePath := objPath, CloudBuildID := jobID,
                      CloudBuildRawLogURL := rawLogURL (dev_Type d) jobID\<rparr> in
           case publish E (dev_Type d) of
             Some e \<Rightarrow> (d', [], Some e)
           | None \<Rightarrow> (mark_setup d', [PhysicalJob d'], None)))"

definition virtual_match :: "deviceType \<Rightarrow> deviceType \<Rightarrow> bool" where
  "virtual_match d t \<longleftrightarrow> t = d"

definition physical_match :: "deviceType \<Rightarrow> deviceType \<Rightarrow> bool" where
  "physical_match d t \<longleftrightarrow> Vendor t = Vendor d \<and> (HardwareModel d = [] \<or> HardwareModel t = HardwareModel d)"

text \<open>The loop over the devices of one kind: a matching device whose tests are all pending is
  launched; the loop stops at the first error.\<close>

fun launch_loop :: "(deviceType \<Rightarrow> bool) \<Rightarrow> (device \<Rightarrow> launch) \<Rightarrow> device list \<Rightarrow> device list \<times> job list \<times> string option" where
  "launch_loop matches go [] = ([], [], None)"
| "launch_loop matches go (d # ds) =
     (let (d', js, err) = (if matches (dev_Type d) \<and> ready d then go d else (d, [], None)) in
      case err of
        Some e \<Rightarrow> (d' # ds, js, Some e)
      | None \<Rightarrow> (let (ds', js', err') = launch_loop matches go ds in (d' # ds', js @ js', err')))"

fun build_loop :: "env \<Rightarrow> string \<Rightarrow> deviceType list \<Rightarrow> pullRequest \<Rightarrow> pullRequest \<times> job list \<times> string option" where
  "build_loop E objPath [] p = (p, [], None)"
| "build_loop E objPath (d # ds) p =
     (let (vs, js1, err1) = launch_loop (virtual_match d) (launch_virtual E objPath) (Virtual p);
          p = p\<lparr>Virtual := vs\<rparr> in
      case err1 of
        Some e \<Rightarrow> (p, js1, Some e)
      | None \<Rightarrow>
          (let (ps, js2, err2) = launch_loop (physical_match d) (launch_physical E objPath) (Physical p);
               p = p\<lparr>Physical := ps\<rparr> in
           case err2 of
             Some e \<Rightarrow> (p, js1 @ js2, Some e)
           | None \<Rightarrow> (let (p', js3, err3) = build_loop E objPath ds p in (p', js1 @ js2 @ js3, err3))))"

definition createBuild :: "env \<Rightarrow> deviceType list \<Rightarrow> pullRequest \<Rightarrow> pullRequest \<times> job list \<times> string option" where
  "createBuild E devices p =
     (case goDeps E of
        Some e \<Rightarrow> (p, [], Some e)
      | None \<Rightarrow>
          (case archive E of
             Inl e \<Rightarrow> (p, [], Some e)
           | Inr objPath \<Rightarrow> build_loop E objPath devices p))"



section \<open>The tests of a pull request\<close>

text \<open>\<open>ord\<close> is the order in which the map of modified tests is ranged over.\<close>

definition modifiedFunctionalTests :: "(string list \<Rightarrow> string list) \<Rightarrow> string list \<Rightarrow> string list \<Rightarrow> string list" where
  "modifiedFunctionalTests ord functionalTests modifiedFiles =
     ord (remdups (filter (\<lambda>ft. list_ex (\<lambda>mf. hasPrefix mf ft) modifiedFiles) functionalTests))"

text \<open>\<^verbatim>\<open>base64.RawURLEncoding\<close>.\<close>

definition b64_char :: "nat \<Rightarrow> char" where
  "b64_char n = ''ABCDEFGHIJKLMNOPQRSTUVWXYZabcdefghijklmnopqrstuvwxyz0123456789-_'' ! n"

fun b64_encode :: "nat list \<Rightarrow> nat list" where
  "b64_encode [] = []"
| "b64_encode [a] = [a div 4, (a mod 4) * 16]"
| "b64_encode [a, b] = [a div 4, (a mod 4) * 16 + b div 16, (b mod 16) * 4]"
| "b64_encode (a # b # c # r) =
     [a div 4, (a mod 4) * 16 + b div 16, (b mod 16) * 4 + c div 64, c mod 64] @ b64_encode r"

definition rawURLEncode :: "string \<Rightarrow> string" where
  "rawURLEncode s = map b64_char (b64_encode (map of_char s))"

definition deviceName :: "deviceType \<Rightarrow> string" where
  "deviceName d = map (\<lambda>c. if c = CHR '' '' then CHR ''_'' else c) (Vendor d @ '' '' @ HardwareModel d)"

definition badgePath :: "nat \<Rightarrow> string \<Rightarrow> string \<Rightarrow> deviceType \<Rightarrow> string" where
  "badgePath prid sha ft d =
     ''badges/'' @ dec prid @ ''/'' @ sha @ ''/'' @ rawURLEncode ft @ ''.'' @ deviceName d @ ''.svg''"

definition newTest :: "pullRequest \<Rightarrow> string \<Rightarrow> string \<times> string \<Rightarrow> deviceType \<Rightarrow> functionalTest" where
  "newTest p ft md d =
     (let blob = ''https://github.com/openconfig/featureprofiles/blob/'' @ HeadSHA p @ ''/'' @ ft;
          path = badgePath (pr_ID p) (HeadSHA p) ft d in
      \<lparr>ft_Name = fst md, ft_Description = snd md, ft_Path = ft, DocURL = blob @ ''/README.md'', TestURL = blob,
       ft_Status = pending, BadgePath = path,
       BadgeURL = ''https://storage.googleapis.com/featureprofiles-ci/'' @ path\<rparr>)"

definition is_ate :: "string \<Rightarrow> bool" where
  "is_ate ft \<longleftrightarrow> str_contains ft ''ate_tests''"

definition allDeviceTypes :: "deviceType list" where
  "allDeviceTypes = virtualDeviceTypes @ physicalDeviceTypes"

text \<open>The map from device types to tests.\<close>

fun collect_tests :: "env \<Rightarrow> pullRequest \<Rightarrow> string list \<Rightarrow> (deviceType \<Rightarrow> functionalTest list) \<Rightarrow>
    (string, deviceType \<Rightarrow> functionalTest list) res" where
  "collect_tests E p [] tests = Inr tests"
| "collect_tests E p (ft # fts) tests =
     (if is_ate ft then collect_tests E p fts tests
      else case readMetadata E (ft @ ''/metadata.textproto'') of
        Inl e \<Rightarrow> Inl e
      | Inr md \<Rightarrow>
          collect_tests E p fts
            (fold (\<lambda>d m. m(d := m d @ [newTest p ft md d])) allDeviceTypes tests))"

definition newDevice :: "deviceType \<Rightarrow> functionalTest list \<Rightarrow> device" where
  "newDevice d ts = \<lparr>dev_Type = d, CloudBuildID = [], CloudBuildLogURL = [], CloudBuildRawLogURL = [],
     ArchivePath = [], Tests = ts\<rparr>"

definition devices_of :: "(deviceType \<Rightarrow> functionalTest list) \<Rightarrow> deviceType list \<Rightarrow> device list" where
  "devices_of tests types = map (\<lambda>d. newDevice d (tests d)) (filter (\<lambda>d. tests d \<noteq> []) types)"

definition populateTestDetail :: "env \<Rightarrow> string list \<Rightarrow> pullRequest \<Rightarrow> (string, pullRequest) res" where
  "populateTestDetail E functionalTests p =
     bind_res (collect_tests E p functionalTests (\<lambda>_. []))
       (\<lambda>tests. Inr (p\<lparr>Virtual := Virtual p @ devices_of tests virtualDeviceTypes,
                       Physical := Physical p @ devices_of tests physicalDeviceTypes\<rparr>))"

definition identifyModifiedTests :: "env \<Rightarrow> (string list \<Rightarrow> string list) \<Rightarrow> string \<Rightarrow> pullRequest \<Rightarrow> (string, pullRequest) res" where
  "identifyModifiedTests E ord cloneURL p =
     (case gitClone E cloneURL (HeadSHA p) of
        Some e \<Rightarrow> Inl e
      | None \<Rightarrow>
          bind_res (testPaths E) (\<lambda>ft. bind_res (modFiles E (HeadSHA p)) (\<lambda>mf.
            populateTestDetail E (modifiedFunctionalTests ord ft mf) p)))"

text \<open>Each test of a device overwrites the fields of the device that its badge object records.\<close>

definition attr_or :: "string option \<Rightarrow> string \<Rightarrow> string" where
  "attr_or v old = (case v of None \<Rightarrow> old | Some s \<Rightarrow> s)"

fun test_metadata :: "env \<Rightarrow> functionalTest list \<Rightarrow> device \<Rightarrow> functionalTest list \<times> device" where
  "test_metadata E [] d = ([], d)"
| "test_metadata E (t # ts) d =
     (let (t', d') =
        (case badgeAttrs E (BadgePath t) of
           None \<Rightarrow> (t, d)
         | Some m \<Rightarrow>
             (t\<lparr>ft_Status := attr_or (m ''status'') (ft_Status t)\<rparr>,
              d\<lparr>CloudBuildID := attr_or (m ''cloudBuild'') (CloudBuildID d),
                CloudBuildLogURL := attr_or (m ''cloudBuildLogURL'') (CloudBuildLogURL d),
                CloudBuildRawLogURL := attr_or (m ''cloudBuildRawLogURL'') (CloudBuildRawLogURL d)\<rparr>));
          (ts', d'') = test_metadata E ts d' in
      (t' # ts', d''))"

definition device_metadata :: "env \<Rightarrow> device \<Rightarrow> device" where
  "device_metadata E d = (let (ts, d') = test_metadata E (Tests d) d in d'\<lparr>Tests := ts\<rparr>)"

definition populateObjectMetadata :: "env \<Rightarrow> pullRequest \<Rightarrow> pullRequest" where
  "populateObjectMetadata E p =
     p\<lparr>Virtual := map (device_metadata E) (Virtual p), Physical := map (device_metadata E) (Physical p)\<rparr>"

text \<open>\<^verbatim>\<open>updateBadges\<close> writes one object per test, physical devices first; it stops at the first error. The
  result is the paths written and the error.\<close>

fun write_badges :: "env \<Rightarrow> functionalTest list \<Rightarrow> string list \<times> string option" where
  "write_badges E [] = ([], None)"
| "write_badges E (t # ts) =
     (case writeBadge E (BadgePath t) of
        Some e \<Rightarrow> ([], Some e)
      | None \<Rightarrow> (let (ps, err) = write_badges E ts in (BadgePath t # ps, err)))"

definition updateBadges :: "env \<Rightarrow> pullRequest \<Rightarrow> string list \<times> string option" where
  "updateBadges E p = write_badges E (concat (map Tests (Physical p @ Virtual p)))"

definition firstComment :: "env \<Rightarrow> pullRequest \<Rightarrow> (string, nat option) res" where
  "firstComment E p =
     bind_res (listComments E (pr_ID p))
       (\<lambda>cs. Inr (map_option fst (find (\<lambda>c. snd c = ''OpenConfigBot'') cs)))"

text \<open>\<open>f i\<close> is the error of the \<open>i\<close>-th call; the result is the last error and the number of calls.\<close>

fun withRetry_from :: "nat \<Rightarrow> nat \<Rightarrow> (nat \<Rightarrow> string option) \<Rightarrow> string option \<Rightarrow> string option \<times> nat" where
  "withRetry_from 0 i f err = (err, i)"
| "withRetry_from (Suc k) i f err =
     (case f i of None \<Rightarrow> (None, Suc i) | Some e \<Rightarrow> withRetry_from k (Suc i) f (Some e))"

definition withRetry :: "nat \<Rightarrow> (nat \<Rightarrow> string option) \<Rightarrow> string option \<times> nat" where
  "withRetry attempts f = withRetry_from attempts 0 f None"

definition updateGitHub :: "env \<Rightarrow> pullRequest \<Rightarrow> string option" where
  "updateGitHub E p =
     (case firstComment E p of
        Inl e \<Rightarrow> Some e
      | Inr c \<Rightarrow> fst (withRetry 3 (postComment E c)))"


section \<open>The webhook handlers\<close>

definition authorizedTeams :: "string list" where
  "authorizedTeams = [''featureprofiles-writers'']"

fun authorized_loop :: "env \<Rightarrow> string \<Rightarrow> string list \<Rightarrow> (api_error, bool) res" where
  "authorized_loop E username [] = Inr False"
| "authorized_loop E username (team # teams) =
     (case membership E team username of
        Inl NotFoundError \<Rightarrow> authorized_loop E username teams
      | Inl e \<Rightarrow> Inl e
      | Inr state \<Rightarrow> (if state = ''active'' then Inr True else authorized_loop E username teams))"

definition authorizedUser :: "env \<Rightarrow> string \<Rightarrow> (api_error, bool) res" where
  "authorizedUser E username = authorized_loop E username authorizedTeams"

record comment_event =
  ev_prURL :: string
  ev_login :: string
  ev_body :: string
  ev_number :: nat

record run_log =
  jobs :: "job list"
  badges :: "string list"

definition no_log :: run_log where
  "no_log = \<lparr>jobs = [], badges = []\<rparr>"

definition finish_pr :: "env \<Rightarrow> job list \<Rightarrow> pullRequest \<Rightarrow> run_log \<times> string option" where
  "finish_pr E js p =
     (let (written, err) = updateBadges E p in
      case err of
        Some e \<Rightarrow> (\<lparr>jobs = js, badges = written\<rparr>, Some e)
      | None \<Rightarrow> (\<lparr>jobs = js, badges = written\<rparr>, updateGitHub E p))"

definition containsKeyword :: "string \<Rightarrow> string \<Rightarrow> bool" where
  "containsKeyword body keyword \<longleftrightarrow> str_contains (toLower body) keyword"

definition processIssueComment ::
  "env \<Rightarrow> (string list \<Rightarrow> string list) \<Rightarrow> ((string \<times> deviceType list) list \<Rightarrow> (string \<times> deviceType list) list) \<Rightarrow>
     comment_event \<Rightarrow> run_log \<times> string option" where
  "processIssueComment E ord kord e =
     (if ev_prURL e = [] then (no_log, None)
      else case authorizedUser E (ev_login e) of
        Inl err \<Rightarrow> (no_log, Some ''validate user'')
      | Inr auth \<Rightarrow>
          (if \<not> auth then (no_log, None)
           else if \<not> list_ex (\<lambda>k. containsKeyword (ev_body e) (fst k)) (kord triggerKeywords) then (no_log, None)
           else case mkdirTemp E of
             Some err \<Rightarrow> (no_log, Some err)
           | None \<Rightarrow>
               (case prGet E (ev_number e) of
                  Inl err \<Rightarrow> (no_log, Some err)
                | Inr (sha, url) \<Rightarrow>
                    (case identifyModifiedTests E ord url
                            \<lparr>pr_ID = ev_number e, HeadSHA = sha, Virtual = [], Physical = []\<rparr> of
                       Inl err \<Rightarrow> (no_log, Some err)
                     | Inr p \<Rightarrow>
                         (case find (\<lambda>k. containsKeyword (ev_body e) (fst k)) (kord triggerKeywords) of
                            None \<Rightarrow> (no_log, None)
                          | Some (keyword, deviceTypes) \<Rightarrow>
                              (let (p', js, err) = createBuild E deviceTypes (populateObjectMetadata E p) in
                               case err of
                                 Some er \<Rightarrow> (\<lparr>jobs = js, badges = []\<rparr>, Some er)
                               | None \<Rightarrow> finish_pr E js p'))))))"

record pr_event =
  pe_number :: nat
  pe_sha :: string
  pe_url :: string
  pe_login :: string

definition processPullRequest :: "env \<Rightarrow> (string list \<Rightarrow> string list) \<Rightarrow> pr_event \<Rightarrow> run_log \<times> string option" where
  "processPullRequest E ord e =
     (case mkdirTemp E of
        Some err \<Rightarrow> (no_log, Some err)
      | None \<Rightarrow>
          (case identifyModifiedTests E ord (pe_url e)
                  \<lparr>pr_ID = pe_number e, HeadSHA = pe_sha e, Virtual = [], Physical = []\<rparr> of
             Inl err \<Rightarrow> (no_log, Some err)
           | Inr p \<Rightarrow>
               (case authorizedUser E (pe_login e) of
                  Inl err \<Rightarrow> (no_log, Some ''validate user'')
                | Inr auth \<Rightarrow>
                    (if auth then
                       (let (p', js, err) = createBuild E virtualDeviceTypes p in
                        case err of
                          Some er \<Rightarrow> (\<lparr>jobs = js, badges = []\<rparr>, Some er)
                        | None \<Rightarrow> finish_pr E js p')
                     else finish_pr E [] p))))"



section \<open>The contract of a launcher\<close>

definition selected :: "(deviceType \<Rightarrow> bool) \<Rightarrow> device \<Rightarrow> bool" where
  "selected m d \<longleftrightarrow> m (dev_Type d) \<and> ready d"

definition launch_all :: "(deviceType \<Rightarrow> bool) \<Rightarrow> (device \<Rightarrow> launch) \<Rightarrow> device list \<Rightarrow> device list" where
  "launch_all m go ds = map (\<lambda>d. if selected m d then fst (go d) else d) ds"

definition launch_jobs :: "(deviceType \<Rightarrow> bool) \<Rightarrow> (device \<Rightarrow> launch) \<Rightarrow> device list \<Rightarrow> job list" where
  "launch_jobs m go ds = concat (map (\<lambda>d. fst (snd (go d))) (filter (selected m) ds))"

lemma launch_loop_Some:
  "launch_loop m go ds = (ds', js, None) \<Longrightarrow>
    ds' = launch_all m go ds \<and> js = launch_jobs m go ds \<and> (\<forall>d \<in> set ds. selected m d \<longrightarrow> snd (snd (go d)) = None)"
proof (induction ds arbitrary: ds' js)
  case Nil
  then show ?case by (simp add: launch_all_def launch_jobs_def)
next
  case (Cons d ds)
  obtain ds1 js1 err1 where l: "launch_loop m go ds = (ds1, js1, err1)" by (cases "launch_loop m go ds")
  show ?case
  proof (cases "selected m d")
    case True
    with Cons.prems l have "snd (snd (go d)) = None" "err1 = None" "ds' = fst (go d) # ds1" "js = fst (snd (go d)) @ js1"
      by (auto simp: selected_def split: prod.splits option.splits)
    with Cons.IH [of ds1 js1] l True show ?thesis by (simp add: launch_all_def launch_jobs_def)
  next
    case False
    with Cons.prems l have "err1 = None" "ds' = d # ds1" "js = js1"
      by (auto simp: selected_def split: prod.splits option.splits)
    with Cons.IH [of ds1 js1] l False show ?thesis by (simp add: launch_all_def launch_jobs_def)
  qed
qed

locale launcher =
  fixes go :: "device \<Rightarrow> launch"
  assumes launched: "ready d \<Longrightarrow> snd (snd (go d)) = None \<Longrightarrow> \<not> ready (fst (go d)) \<and> dev_Type (fst (go d)) = dev_Type d"
begin

text \<open>A second round finds exactly the devices the first one left.\<close>

lemma selected_again:
  assumes "selected m d \<Longrightarrow> snd (snd (go d)) = None"
  shows "selected m' (if selected m d then fst (go d) else d) \<longleftrightarrow> selected m' d \<and> \<not> selected m d"
  using assms launched [of d] by (auto simp: selected_def)

lemma launch_all_twice:
  assumes "\<forall>d \<in> set ds. selected m d \<longrightarrow> snd (snd (go d)) = None"
  shows "launch_all m' go (launch_all m go ds) = launch_all (\<lambda>t. m t \<or> m' t) go ds"
  using assms
proof (induction ds)
  case (Cons d ds)
  have "selected m' (if selected m d then fst (go d) else d) \<longleftrightarrow> selected m' d \<and> \<not> selected m d"
    using Cons.prems by (intro selected_again) simp
  with Cons show ?case by (auto simp: launch_all_def selected_def)
qed (simp add: launch_all_def)

lemma launch_jobs_twice:
  assumes "\<forall>d \<in> set ds. selected m d \<longrightarrow> snd (snd (go d)) = None"
  shows "mset (launch_jobs m go ds) + mset (launch_jobs m' go (launch_all m go ds))
    = mset (launch_jobs (\<lambda>t. m t \<or> m' t) go ds)"
  using assms
proof (induction ds)
  case (Cons d ds)
  have s: "selected m' (if selected m d then fst (go d) else d) \<longleftrightarrow> selected m' d \<and> \<not> selected m d"
    using Cons.prems by (intro selected_again) simp
  have o: "selected (\<lambda>t. m t \<or> m' t) d \<longleftrightarrow> selected m d \<or> selected m' d" by (auto simp: selected_def)
  show ?case
    using Cons s o by (cases "selected m d") (auto simp: launch_all_def launch_jobs_def)
qed (simp add: launch_all_def launch_jobs_def)

text \<open>The jobs of a second round are those of the devices that the first one did not select.\<close>

lemma launch_jobs_again:
  assumes "\<forall>d \<in> set ds. selected m d \<longrightarrow> snd (snd (go d)) = None"
  shows "launch_jobs m' go (launch_all m go ds) = launch_jobs (\<lambda>t. m' t \<and> \<not> m t) go ds"
  using assms
proof (induction ds)
  case (Cons d ds)
  have s: "selected m' (if selected m d then fst (go d) else d) \<longleftrightarrow> selected m' d \<and> \<not> selected m d"
    using Cons.prems by (intro selected_again) simp
  have o: "selected (\<lambda>t. m' t \<and> \<not> m t) d \<longleftrightarrow> selected m' d \<and> \<not> selected m d" by (auto simp: selected_def)
  show ?case using Cons s o by (auto simp: launch_all_def launch_jobs_def)
qed (simp add: launch_all_def launch_jobs_def)

lemma not_selected_after:
  assumes "\<forall>d \<in> set ds. selected m d \<longrightarrow> snd (snd (go d)) = None"
  shows "\<forall>d \<in> set (launch_all m go ds). \<not> selected m d"
  using assms launched by (auto simp: launch_all_def selected_def)

end

lemma not_ready_mark_setup [simp]: "\<not> ready (mark_setup d)"
  by (cases "Tests d") (auto simp: ready_def mark_setup_def setup_status_def pending_def)

lemma dev_Type_mark_setup [simp]: "dev_Type (mark_setup d) = dev_Type d"
  by (simp add: mark_setup_def)

interpretation cloud_build: launcher "launch_virtual E objPath" for E objPath
proof
  fix d
  assume "ready d" "snd (snd (launch_virtual E objPath d)) = None"
  then show "\<not> ready (fst (launch_virtual E objPath d)) \<and> dev_Type (fst (launch_virtual E objPath d)) = dev_Type d"
    by (auto simp: launch_virtual_def split: sum.splits)
qed

interpretation pubsub: launcher "launch_physical E objPath" for E objPath
proof
  fix d
  assume "ready d" "snd (snd (launch_physical E objPath d)) = None"
  then show "\<not> ready (fst (launch_physical E objPath d)) \<and> dev_Type (fst (launch_physical E objPath d)) = dev_Type d"
    by (auto simp: launch_physical_def Let_def split: sum.splits option.splits)
qed



section \<open>What a build launches\<close>

definition wants_virtual :: "deviceType list \<Rightarrow> deviceType \<Rightarrow> bool" where
  "wants_virtual devices t \<longleftrightarrow> list_ex (\<lambda>d. virtual_match d t) devices"

definition wants_physical :: "deviceType list \<Rightarrow> deviceType \<Rightarrow> bool" where
  "wants_physical devices t \<longleftrightarrow> list_ex (\<lambda>d. physical_match d t) devices"

lemma wants_Cons:
  "wants_virtual (d # ds) = (\<lambda>t. virtual_match d t \<or> wants_virtual ds t)"
  "wants_physical (d # ds) = (\<lambda>t. physical_match d t \<or> wants_physical ds t)"
  by (auto simp: wants_virtual_def wants_physical_def)

lemma wants_Nil: "\<not> selected (wants_virtual []) d" "\<not> selected (wants_physical []) d"
  by (auto simp: wants_virtual_def wants_physical_def selected_def)

lemma build_loop_Cons:
  assumes "build_loop E obj (d # ds) p = (p', js, None)"
  obtains vs js1 ps js2 js3 where "launch_loop (virtual_match d) (launch_virtual E obj) (Virtual p) = (vs, js1, None)"
    and "launch_loop (physical_match d) (launch_physical E obj) (Physical p) = (ps, js2, None)"
    and "build_loop E obj ds (p\<lparr>Virtual := vs, Physical := ps\<rparr>) = (p', js3, None)" and "js = js1 @ js2 @ js3"
  using assms by (auto simp: Let_def split: prod.splits option.splits)

lemma build_loop_success:
  assumes "build_loop E obj devices p = (p', js, None)"
  shows "Virtual p' = launch_all (wants_virtual devices) (launch_virtual E obj) (Virtual p)"
    and "Physical p' = launch_all (wants_physical devices) (launch_physical E obj) (Physical p)"
    and "mset js = mset (launch_jobs (wants_virtual devices) (launch_virtual E obj) (Virtual p))
      + mset (launch_jobs (wants_physical devices) (launch_physical E obj) (Physical p))"
    and "pr_ID p' = pr_ID p \<and> HeadSHA p' = HeadSHA p"
  using assms
proof (induction devices arbitrary: p js)
  case Nil
  { case 1 then show ?case by (simp add: launch_all_def wants_Nil) }
  { case 2 then show ?case by (simp add: launch_all_def wants_Nil) }
  { case 3 then show ?case by (simp add: launch_jobs_def wants_Nil) }
  { case 4 then show ?case by simp }
next
  case (Cons d ds)
  { case 1
    then obtain vs js1 ps js2 js3 where l: "launch_loop (virtual_match d) (launch_virtual E obj) (Virtual p) = (vs, js1, None)"
      "build_loop E obj ds (p\<lparr>Virtual := vs, Physical := ps\<rparr>) = (p', js3, None)" by (rule build_loop_Cons)
    from launch_loop_Some [OF l(1)] Cons.IH(1) [OF l(2)] show ?case
      by (simp add: wants_Cons cloud_build.launch_all_twice) }
  { case 2
    then obtain vs js1 ps js2 js3 where l: "launch_loop (physical_match d) (launch_physical E obj) (Physical p) = (ps, js2, None)"
      "build_loop E obj ds (p\<lparr>Virtual := vs, Physical := ps\<rparr>) = (p', js3, None)" by (rule build_loop_Cons)
    from launch_loop_Some [OF l(1)] Cons.IH(2) [OF l(2)] show ?case
      by (simp add: wants_Cons pubsub.launch_all_twice) }
  { case 3
    then obtain vs js1 ps js2 js3 where l: "launch_loop (virtual_match d) (launch_virtual E obj) (Virtual p) = (vs, js1, None)"
      "launch_loop (physical_match d) (launch_physical E obj) (Physical p) = (ps, js2, None)"
      "build_loop E obj ds (p\<lparr>Virtual := vs, Physical := ps\<rparr>) = (p', js3, None)" "js = js1 @ js2 @ js3" by (rule build_loop_Cons)
    note v = launch_loop_Some [OF l(1)] and q = launch_loop_Some [OF l(2)]
    have "mset js3 = mset (launch_jobs (wants_virtual ds) (launch_virtual E obj) vs)
        + mset (launch_jobs (wants_physical ds) (launch_physical E obj) ps)" using Cons.IH(3) [OF l(3)] by simp
    with v q l(4) show ?case
      using cloud_build.launch_jobs_twice [of "Virtual p" "virtual_match d" E obj "wants_virtual ds"]
        pubsub.launch_jobs_twice [of "Physical p" "physical_match d" E obj "wants_physical ds"]
      by (simp add: wants_Cons) (metis add.assoc add.left_commute) }
  { case 4
    then obtain vs js1 ps js2 js3 where "build_loop E obj ds (p\<lparr>Virtual := vs, Physical := ps\<rparr>) = (p', js3, None)" by (rule build_loop_Cons)
    from Cons.IH(4) [OF this] show ?case by simp }
qed


lemma selected_Cons: "selected (\<lambda>t. m t \<or> m' t) d \<longleftrightarrow> selected m d \<or> selected m' d"
  by (auto simp: selected_def)

lemma build_loop_no_error:
  assumes "build_loop E obj devices p = (p', js, None)"
  shows "\<forall>d \<in> set (Virtual p). selected (wants_virtual devices) d \<longrightarrow> snd (snd (launch_virtual E obj d)) = None"
    and "\<forall>d \<in> set (Physical p). selected (wants_physical devices) d \<longrightarrow> snd (snd (launch_physical E obj d)) = None"
  using assms
proof (induction devices arbitrary: p js)
  case (Cons d ds)
  { case 1
    then obtain vs js1 ps js2 js3 where l: "launch_loop (virtual_match d) (launch_virtual E obj) (Virtual p) = (vs, js1, None)"
      "build_loop E obj ds (p\<lparr>Virtual := vs, Physical := ps\<rparr>) = (p', js3, None)" by (rule build_loop_Cons)
    from launch_loop_Some [OF l(1)] Cons.IH(1) [OF l(2)] show ?case
      by (force simp: wants_Cons selected_Cons launch_all_def image_iff) }
  { case 2
    then obtain vs js1 ps js2 js3 where l: "launch_loop (physical_match d) (launch_physical E obj) (Physical p) = (ps, js2, None)"
      "build_loop E obj ds (p\<lparr>Virtual := vs, Physical := ps\<rparr>) = (p', js3, None)" by (rule build_loop_Cons)
    from launch_loop_Some [OF l(1)] Cons.IH(2) [OF l(2)] show ?case
      by (force simp: wants_Cons selected_Cons launch_all_def image_iff) }
qed (simp_all add: wants_Nil)

lemma launch_loop_none:
  "\<forall>d \<in> set ds. \<not> selected m d \<Longrightarrow> launch_loop m go ds = (ds, [], None)"
  by (induction ds) (auto simp: selected_def)

lemma build_loop_none:
  assumes "\<forall>d \<in> set (Virtual p). \<not> selected (wants_virtual devices) d"
    and "\<forall>d \<in> set (Physical p). \<not> selected (wants_physical devices) d"
  shows "build_loop E obj devices p = (p, [], None)"
  using assms by (induction devices) (simp_all add: wants_Cons selected_Cons launch_loop_none)

lemma createBuild_success:
  assumes "createBuild E devices p = (p', js, None)"
  obtains obj where "archive E = Inr obj" and "build_loop E obj devices p = (p', js, None)"
  using assms by (auto simp: createBuild_def split: option.splits sum.splits)

text \<open>The jobs for the request at position \<open>i\<close>: first the virtual, then the physical devices that it names and no earlier one did.\<close>

definition request_jobs :: "env \<Rightarrow> string \<Rightarrow> pullRequest \<Rightarrow> deviceType list \<Rightarrow> nat \<Rightarrow> job list" where
  "request_jobs E obj p devices i =
     launch_jobs (\<lambda>t. virtual_match (devices ! i) t \<and> \<not> wants_virtual (take i devices) t) (launch_virtual E obj) (Virtual p)
     @ launch_jobs (\<lambda>t. physical_match (devices ! i) t \<and> \<not> wants_physical (take i devices) t) (launch_physical E obj) (Physical p)"

lemma build_loop_ordered:
  assumes "build_loop E obj devices p = (p', js, None)"
  shows "js = concat (map (request_jobs E obj p devices) [0..<length devices])"
  using assms
proof (induction devices arbitrary: p js)
  case (Cons d ds)
  then obtain vs js1 ps js2 js3 where l: "launch_loop (virtual_match d) (launch_virtual E obj) (Virtual p) = (vs, js1, None)"
    "launch_loop (physical_match d) (launch_physical E obj) (Physical p) = (ps, js2, None)"
    "build_loop E obj ds (p\<lparr>Virtual := vs, Physical := ps\<rparr>) = (p', js3, None)" "js = js1 @ js2 @ js3" by - (rule build_loop_Cons [OF Cons.prems])
  note v = launch_loop_Some [OF l(1)] and q = launch_loop_Some [OF l(2)]
  have "request_jobs E obj (p\<lparr>Virtual := vs, Physical := ps\<rparr>) ds i = request_jobs E obj p (d # ds) (Suc i)" for i
    using cloud_build.launch_jobs_again [of "Virtual p" "virtual_match d" E obj] pubsub.launch_jobs_again [of "Physical p" "physical_match d" E obj] v q
    by (auto simp: request_jobs_def wants_Cons conj_ac intro!: arg_cong2 [where f = append] arg_cong [where f = "\<lambda>m. launch_jobs m _ _"])
  moreover have "request_jobs E obj p (d # ds) 0 = js1 @ js2"
    using v q by (simp add: request_jobs_def wants_virtual_def wants_physical_def)
  moreover have "[0..<length (d # ds)] = 0 # map Suc [0..<length ds]" by (simp add: upt_conv_Cons map_Suc_upt del: upt_Suc)
  ultimately show ?case using Cons.IH [OF l(3)] l(4) by (simp add: comp_def del: upt_Suc)
qed simp

text \<open>What the launch leaves on a device: the archive and the status of every test.\<close>

definition marked :: "string \<Rightarrow> device \<Rightarrow> bool" where
  "marked obj d \<longleftrightarrow> ArchivePath d = obj \<and> (\<forall>t\<in>set (Tests d). ft_Status t = ''setup'')"

lemma launched_marked:
  "snd (snd (launch_virtual E obj d)) = None \<Longrightarrow> marked obj (fst (launch_virtual E obj d))"
  "snd (snd (launch_physical E obj d)) = None \<Longrightarrow> marked obj (fst (launch_physical E obj d))"
  by (auto simp: marked_def launch_virtual_def launch_physical_def mark_setup_def setup_status_def Let_def split: sum.splits option.splits)


text \<open>C4: A build that ends without an error launches exactly the devices asked for whose tests are all pending
  authorization: each of them once, virtual ones through Cloud Build and physical ones through a
  message, in the order of the requests and for each of them first the virtual devices; they move to "setup" with the archive
  recorded, and every other device is left as it was.\<close>

theorem createBuild_launches:
  assumes "createBuild E devices p = (p', js, None)"
  shows "\<exists>obj. archive E = Inr obj
    \<and> Virtual p' = launch_all (wants_virtual devices) (launch_virtual E obj) (Virtual p)
    \<and> Physical p' = launch_all (wants_physical devices) (launch_physical E obj) (Physical p)
    \<and> js = concat (map (request_jobs E obj p devices) [0..<length devices])
    \<and> mset js = mset (launch_jobs (wants_virtual devices) (launch_virtual E obj) (Virtual p))
        + mset (launch_jobs (wants_physical devices) (launch_physical E obj) (Physical p))
    \<and> (\<forall>d\<in>set (Virtual p). selected (wants_virtual devices) d \<longrightarrow> marked obj (fst (launch_virtual E obj d)))
    \<and> (\<forall>d\<in>set (Physical p). selected (wants_physical devices) d \<longrightarrow> marked obj (fst (launch_physical E obj d)))"
proof -
  obtain obj where "archive E = Inr obj" and b: "build_loop E obj devices p = (p', js, None)"
    using assms by (rule createBuild_success)
  with build_loop_success [OF b] build_loop_ordered [OF b] build_loop_no_error [OF b] launched_marked show ?thesis by blast
qed

text \<open>C32: A build is never launched twice: when a build has succeeded, asking again for the same
  device types, whatever the services answer then, launches nothing and changes nothing.\<close>

theorem createBuild_idempotent:
  assumes "createBuild E devices p = (p', js, None)"
  shows "fst (createBuild E' devices p') = p' \<and> fst (snd (createBuild E' devices p')) = []"
proof -
  obtain obj where b: "build_loop E obj devices p = (p', js, None)"
    using assms by (rule createBuild_success)
  have "build_loop E' o' devices p' = (p', [], None)" for o'
    using cloud_build.not_selected_after [OF build_loop_no_error(1) [OF b]]
      pubsub.not_selected_after [OF build_loop_no_error(2) [OF b]]
    by (intro build_loop_none) (simp_all add: build_loop_success(1,2) [OF b])
  then show ?thesis by (simp add: createBuild_def split: option.splits sum.splits)
qed

definition ex_env :: env where
  "ex_env = \<lparr>membership = (\<lambda>t u. if u = ''alice'' then Inr ''active'' else Inl NotFoundError), mkdirTemp = None,
     prGet = (\<lambda>n. Inr (''abc'', ''url'')), gitClone = (\<lambda>u s. None), testPaths = Inr [''feature/x/otg_tests/t''],
     modFiles = (\<lambda>s. Inr [''feature/x/otg_tests/t/README.md'']),
     readMetadata = (\<lambda>p. Inr (''RT-1.1'', ''Base'')), badgeAttrs = (\<lambda>p. None), goDeps = None, archive = Inr ''obj'',
     submitBuild = (\<lambda>t p. Inr (''job'', ''log'')), newUUID = (\<lambda>t. Inr ''uuid''), publish = (\<lambda>t. None),
     writeBadge = (\<lambda>p. None), listComments = (\<lambda>n. Inr []), postComment = (\<lambda>c i. None)\<rparr>"

definition ex_test :: functionalTest where
  "ex_test = \<lparr>ft_Name = ''RT-1.1'', ft_Description = [], ft_Path = [], DocURL = [], TestURL = [], ft_Status = pending,
     BadgePath = ''b'', BadgeURL = []\<rparr>"

definition ex_pr :: pullRequest where
  "ex_pr = \<lparr>pr_ID = 1, HeadSHA = ''abc'', Virtual = [newDevice (dt ''NOKIA'' ''SR Linux'') [ex_test]],
     Physical = [newDevice (dt ''NOKIA'' []) [ex_test]]\<rparr>"

lemma ex_build:
  "\<exists>p'. createBuild ex_env [dt ''NOKIA'' ''SR Linux''] ex_pr = (p', [VirtualJob (dt ''NOKIA'' ''SR Linux'') ''obj''], None)"
  by (simp add: createBuild_def ex_env_def ex_pr_def newDevice_def virtual_match_def physical_match_def
      launch_virtual_def ready_def ex_test_def dt_def)

theorem createBuild_launches_witness:
  "\<exists>p'. createBuild ex_env [dt ''NOKIA'' ''SR Linux''] ex_pr = (p', [VirtualJob (dt ''NOKIA'' ''SR Linux'') ''obj''], None)
    \<and> Physical p' = launch_all (wants_physical [dt ''NOKIA'' ''SR Linux'']) (launch_physical ex_env ''obj'') (Physical ex_pr)"
proof -
  obtain p' where b: "createBuild ex_env [dt ''NOKIA'' ''SR Linux''] ex_pr = (p', [VirtualJob (dt ''NOKIA'' ''SR Linux'') ''obj''], None)"
    using ex_build by blast
  have "archive ex_env = Inr ''obj''" by (simp add: ex_env_def)
  with createBuild_launches [OF b] show ?thesis using b by (elim exE conjE) (simp only: sum.inject, blast)
qed

theorem createBuild_idempotent_witness:
  "\<exists>p'. createBuild ex_env [dt ''NOKIA'' ''SR Linux''] ex_pr = (p', [VirtualJob (dt ''NOKIA'' ''SR Linux'') ''obj''], None)
    \<and> fst (createBuild ex_env [dt ''NOKIA'' ''SR Linux''] p') = p'"
proof -
  obtain p' where b: "createBuild ex_env [dt ''NOKIA'' ''SR Linux''] ex_pr = (p', [VirtualJob (dt ''NOKIA'' ''SR Linux'') ''obj''], None)"
    using ex_build by blast
  with createBuild_idempotent [OF b, of ex_env] show ?thesis by blast
qed



section \<open>Which tests are run\<close>

lemma fold_append:
  "distinct ds \<Longrightarrow> fold (\<lambda>d m. m(d := m d @ [f d])) ds m t = (if t \<in> set ds then m t @ [f t] else m t)"
  by (induction ds arbitrary: m) auto

lemma all_types_distinct: "distinct allDeviceTypes"
  by (simp add: allDeviceTypes_def virtualDeviceTypes_def physicalDeviceTypes_def dt_def)

definition md_of :: "env \<Rightarrow> string \<Rightarrow> (string, string \<times> string) res" where
  "md_of E ft = readMetadata E (ft @ ''/metadata.textproto'')"

definition tests_for :: "env \<Rightarrow> pullRequest \<Rightarrow> string list \<Rightarrow> deviceType \<Rightarrow> functionalTest list" where
  "tests_for E p fts d = map (\<lambda>ft. newTest p ft (case md_of E ft of Inr md \<Rightarrow> md | Inl e \<Rightarrow> ([], [])) d) (filter (\<lambda>ft. \<not> is_ate ft) fts)"

lemma collect_tests_result:
  "collect_tests E p fts tests =
    (case find (\<lambda>ft. \<not> is_ate ft \<and> isl (md_of E ft)) fts of
       Some ft \<Rightarrow> Inl (projl (md_of E ft))
     | None \<Rightarrow> Inr (\<lambda>t. if t \<in> set allDeviceTypes then tests t @ tests_for E p fts t else tests t))"
proof (induction fts arbitrary: tests)
  case Nil
  then show ?case by (simp add: tests_for_def fun_eq_iff)
next
  case (Cons ft fts)
  show ?case
  proof (cases "is_ate ft")
    case True
    then have "tests_for E p (ft # fts) = tests_for E p fts" by (simp add: tests_for_def fun_eq_iff)
    with True show ?thesis by (auto simp: Cons.IH fun_eq_iff split: option.split)
  next
    case False
    show ?thesis
    proof (cases "md_of E ft")
      case (Inl e)
      with False show ?thesis by (simp add: md_of_def)
    next
      case (Inr md)
      with False show ?thesis
        by (auto simp: Cons.IH tests_for_def md_of_def fold_append [OF all_types_distinct] fun_eq_iff split: option.splits)
    qed
  qed
qed

lemma populateTestDetail_ok:
  assumes "\<And>ft. ft \<in> set fts \<Longrightarrow> \<not> is_ate ft \<Longrightarrow> \<not> isl (md_of E ft)"
    and "\<exists>ft \<in> set fts. \<not> is_ate ft"
  shows "populateTestDetail E fts p = Inr (p\<lparr>
      Virtual := Virtual p @ map (\<lambda>d. newDevice d (tests_for E p fts d)) virtualDeviceTypes,
      Physical := Physical p @ map (\<lambda>d. newDevice d (tests_for E p fts d)) physicalDeviceTypes\<rparr>)"
proof -
  have "find (\<lambda>ft. \<not> is_ate ft \<and> isl (md_of E ft)) fts = None"
    using assms(1) by (auto simp: find_None_iff)
  moreover have "tests_for E p fts d \<noteq> []" for d
    using assms(2) by (auto simp: tests_for_def filter_empty_conv)
  ultimately show ?thesis
    by (auto simp: populateTestDetail_def collect_tests_result devices_of_def allDeviceTypes_def)
qed

text \<open>Populating a pull request: if the metadata of some non-ATE test cannot be read, the first such
  error is returned; otherwise every virtual and every physical device type gets one device, with one
  pending test for each non-ATE test in the given order (and no device at all when there is no such
  test).\<close>

theorem populateTestDetail_result:
  "populateTestDetail E fts p =
    (case find (\<lambda>ft. \<not> is_ate ft \<and> isl (md_of E ft)) fts of
       Some ft \<Rightarrow> Inl (projl (md_of E ft))
     | None \<Rightarrow> Inr (if \<exists>ft \<in> set fts. \<not> is_ate ft
         then p\<lparr>Virtual := Virtual p @ map (\<lambda>d. newDevice d (tests_for E p fts d)) virtualDeviceTypes,
                Physical := Physical p @ map (\<lambda>d. newDevice d (tests_for E p fts d)) physicalDeviceTypes\<rparr>
         else p))"
proof (cases "find (\<lambda>ft. \<not> is_ate ft \<and> isl (md_of E ft)) fts")
  case None
  show ?thesis
  proof (cases "\<exists>ft \<in> set fts. \<not> is_ate ft")
    case True
    have "\<not> isl (md_of E ft)" if "ft \<in> set fts" "\<not> is_ate ft" for ft
      using None that by (auto simp: find_None_iff)
    from populateTestDetail_ok [OF this True] None True show ?thesis by simp
  next
    case False
    then have "tests_for E p fts = (\<lambda>_. [])" by (auto simp: tests_for_def fun_eq_iff filter_empty_conv)
    with None False show ?thesis by (simp add: populateTestDetail_def collect_tests_result devices_of_def)
  qed
qed (simp add: populateTestDetail_def collect_tests_result)

text \<open>A test counts as modified exactly when the path of some modified file starts with the test's
  directory name, each once. Since no separator is required, a file of a sibling directory whose name
  only extends the test's name also marks the test as modified.\<close>

theorem modifiedFunctionalTests_spec:
  assumes "\<And>xs. mset (ord xs) = mset xs"
  shows "distinct (modifiedFunctionalTests ord fts mfs)
    \<and> set (modifiedFunctionalTests ord fts mfs) = {ft \<in> set fts. \<exists>mf \<in> set mfs. \<exists>rest. mf = ft @ rest}
    \<and> (ft \<in> set fts \<and> (ft @ s @ ''/'' @ f) \<in> set mfs \<longrightarrow> ft \<in> set (modifiedFunctionalTests ord fts mfs))"
proof -
  let ?xs = "remdups (filter (\<lambda>ft. list_ex (\<lambda>mf. hasPrefix mf ft) mfs) fts)"
  have "set (ord ?xs) = set ?xs" "distinct (ord ?xs)"
    using assms by (metis set_mset_mset, metis distinct_remdups mset_eq_imp_distinct_iff)
  then show ?thesis by (auto simp: modifiedFunctionalTests_def list_ex_iff hasPrefix_iff)
qed

theorem modifiedFunctionalTests_spec_witness:
  "''feature/bgp/tests/base'' \<in> set (modifiedFunctionalTests rev [''feature/bgp/tests/base''] [''feature/bgp/tests/base_long/x.go''])"
  using modifiedFunctionalTests_spec [of rev "[''feature/bgp/tests/base'']" "[''feature/bgp/tests/base_long/x.go'']"]
  by auto

lemma withRetry_from_result:
  "withRetry_from k i f err =
    (if \<exists>j. i \<le> j \<and> j < i + k \<and> f j = None then (None, Suc (LEAST j. i \<le> j \<and> f j = None))
     else (if k = 0 then err else f (i + k - 1), i + k))"
proof (induction k i f err rule: withRetry_from.induct)
  case (2 k i f err)
  show ?case
  proof (cases "f i")
    case None
    then have "(LEAST j. i \<le> j \<and> f j = None) = i" by (intro Least_equality) auto
    moreover have "\<exists>j. i \<le> j \<and> j < i + Suc k \<and> f j = None" using None by (intro exI [of _ i]) simp
    ultimately show ?thesis using None by simp
  next
    case (Some e)
    then have "(i \<le> j \<and> f j = None) \<longleftrightarrow> (Suc i \<le> j \<and> f j = None)" for j
      by (metis Suc_leD Suc_leI le_neq_implies_less option.distinct(1))
    then have l: "(LEAST j. i \<le> j \<and> f j = None) = (LEAST j. Suc i \<le> j \<and> f j = None)"
      and ex: "(\<exists>j. i \<le> j \<and> j < i + Suc k \<and> f j = None) \<longleftrightarrow> (\<exists>j. Suc i \<le> j \<and> j < Suc i + k \<and> f j = None)"
      by auto
    have "withRetry_from (Suc k) i f err = withRetry_from k (Suc i) f (Some e)" using Some by simp
    also note 2 [OF Some]
    finally show ?thesis unfolding l ex using Some by (cases "k = 0") auto
  qed
qed auto

text \<open>Retrying: the function is called until it succeeds, at most \<open>n\<close> times; the result is no error
  exactly when one of these calls succeeds, and otherwise the error of the last call.\<close>

theorem withRetry_result:
  "withRetry n f =
    (if \<exists>j < n. f j = None then (None, Suc (LEAST j. f j = None))
     else (if n = 0 then None else f (n - 1), n))"
  by (auto simp: withRetry_def withRetry_from_result)


section \<open>Badge objects\<close>

fun b64_decode :: "nat list \<Rightarrow> nat list" where
  "b64_decode [p, q] = [p * 4 + q div 16]"
| "b64_decode [p, q, r] = [p * 4 + q div 16, (q mod 16) * 16 + r div 4]"
| "b64_decode (p # q # r # s # t) = [p * 4 + q div 16, (q mod 16) * 16 + r div 4, (r mod 4) * 64 + s] @ b64_decode t"
| "b64_decode _ = []"

lemma b64_round_trip: "list_all (\<lambda>b. b < 256) bs \<Longrightarrow> b64_decode (b64_encode bs) = bs"
  by (induction bs rule: b64_encode.induct) auto


lemma b64_char_inj: "i < 64 \<Longrightarrow> j < 64 \<Longrightarrow> b64_char i = b64_char j \<Longrightarrow> i = j"
  and b64_char_dot: "i < 64 \<Longrightarrow> b64_char i \<noteq> CHR ''.''"
proof -
  let ?a = "''ABCDEFGHIJKLMNOPQRSTUVWXYZabcdefghijklmnopqrstuvwxyz0123456789-_''"
  have a: "distinct ?a" "length ?a = 64" "CHR ''.'' \<notin> set ?a" by code_simp+
  show "i < 64 \<Longrightarrow> j < 64 \<Longrightarrow> b64_char i = b64_char j \<Longrightarrow> i = j"
    unfolding b64_char_def using a(1,2) nth_eq_iff_index_eq by metis
  show "i < 64 \<Longrightarrow> b64_char i \<noteq> CHR ''.''"
    unfolding b64_char_def using a(2,3) nth_mem by metis
qed

lemma b64_encode_bound: "list_all (\<lambda>b. b < 256) bs \<Longrightarrow> \<forall>x \<in> set (b64_encode bs). x < 64"
  by (induction bs rule: b64_encode.induct) auto

lemma of_char_bound: "list_all (\<lambda>b. b < 256) (map of_char (s :: string) :: nat list)"
  by (auto simp: list_all_iff)

lemma rawURLEncode_inject: "rawURLEncode s = rawURLEncode t \<Longrightarrow> s = t"
proof -
  assume "rawURLEncode s = rawURLEncode t"
  then have e: "map b64_char (b64_encode (map of_char s)) = map b64_char (b64_encode (map of_char t))"
    by (simp add: rawURLEncode_def)
  have "inj_on b64_char (set (b64_encode (map of_char s)) \<union> set (b64_encode (map of_char t)))"
    using b64_encode_bound [OF of_char_bound] by (auto intro!: inj_onI b64_char_inj)
  then have "b64_encode (map of_char s) = b64_encode (map of_char t)" using e map_inj_on by blast
  then have "map of_char s = (map of_char t :: nat list)" using b64_round_trip [OF of_char_bound] by metis
  then show "s = t" by (metis list.inj_map_strong of_char_eq_iff)
qed

lemma rawURLEncode_no_dot: "CHR ''.'' \<notin> set (rawURLEncode s)"
  using b64_encode_bound [OF of_char_bound] b64_char_dot unfolding rawURLEncode_def by fastforce

text \<open>Two tests never share a badge object: within a commit of a pull request, the badge path
  determines the test directory and the device type.\<close>

theorem badgePath_unique:
  assumes "badgePath n sha ft d = badgePath n sha ft' d'" and "d \<in> set allDeviceTypes" and "d' \<in> set allDeviceTypes"
  shows "ft = ft' \<and> d = d'"
proof -
  have eq: "rawURLEncode ft @ ''.'' @ deviceName d @ ''.svg'' = rawURLEncode ft' @ ''.'' @ deviceName d' @ ''.svg''"
    using assms(1) by (simp add: badgePath_def)
  have tw: "takeWhile (\<lambda>c. c \<noteq> CHR ''.'') (rawURLEncode s @ ''.'' @ r) = rawURLEncode s" for s r
    using rawURLEncode_no_dot [of s] by (subst takeWhile_append2) auto
  from eq have enc: "rawURLEncode ft = rawURLEncode ft'" using tw by metis
  with eq have "deviceName d = deviceName d'" by simp
  moreover have "distinct (map deviceName allDeviceTypes)" by code_simp
  ultimately have "d = d'" using assms(2,3) by (auto simp: distinct_map dest: inj_onD)
  with enc rawURLEncode_inject show ?thesis by blast
qed

theorem badgePath_unique_witness:
  "badgePath 7 ''abc'' ''feature/x'' (dt ''NOKIA'' []) \<noteq> badgePath 7 ''abc'' ''feature/x'' (dt ''ARISTA'' [])"
proof
  assume "badgePath 7 ''abc'' ''feature/x'' (dt ''NOKIA'' []) = badgePath 7 ''abc'' ''feature/x'' (dt ''ARISTA'' [])"
  from badgePath_unique [OF this] show False
    by (simp add: allDeviceTypes_def virtualDeviceTypes_def physicalDeviceTypes_def dt_def)
qed


section \<open>Authorization\<close>

text \<open>The jobs of a loop, also when it ends with an error: jobs \<open>job\<close> of matching devices; and the types
  of the devices do not change.\<close>

lemma launch_loop_jobs:
  assumes "\<And>d j. j \<in> set (fst (snd (go d))) \<Longrightarrow> is_job j (dev_Type d)"
    and "launch_loop m go ds = (ds', js, err)"
  shows "\<forall>j \<in> set js. \<exists>t \<in> dev_Type ` set ds. m t \<and> is_job j t"
  using assms(2)
proof (induction ds arbitrary: ds' js err)
  case (Cons d ds)
  obtain ds1 js1 err1 where l: "launch_loop m go ds = (ds1, js1, err1)"
    by (cases "launch_loop m go ds")
  obtain d' js' err' where g: "go d = (d', js', err')" by (cases "go d")
  then have "\<forall>j \<in> set js'. is_job j (dev_Type d)" using assms(1) [of _ d] by simp
  with Cons.prems Cons.IH [OF l] l g show ?case by (fastforce simp: Let_def split: if_splits option.splits)
qed simp

lemma launch_loop_types:
  assumes "\<And>d. dev_Type (fst (go d)) = dev_Type d"
  shows "map dev_Type (fst (launch_loop m go ds)) = map dev_Type ds"
  using assms by (induction ds) (auto simp: Let_def split_beta split: option.splits)

lemma launch_types:
  "dev_Type (fst (launch_virtual E obj d)) = dev_Type d" "dev_Type (fst (launch_physical E obj d)) = dev_Type d"
  by (auto simp: launch_virtual_def launch_physical_def Let_def split: sum.splits option.splits)

definition job_for :: "deviceType list \<Rightarrow> deviceType set \<Rightarrow> job \<Rightarrow> bool" where
  "job_for devices phys j \<longleftrightarrow> (\<exists>t \<in> set devices. \<exists>obj. j = VirtualJob t obj)
     \<or> (\<exists>d t. j = PhysicalJob d \<and> t \<in> set devices \<and> dev_Type d \<in> phys \<and> physical_match t (dev_Type d))"

lemma job_for_mono: "job_for ds phys j \<Longrightarrow> job_for (d # ds) phys j"
  by (auto simp: job_for_def)

lemma job_for_phys: "job_for ds phys j \<Longrightarrow> phys \<subseteq> phys' \<Longrightarrow> job_for ds phys' j"
  unfolding job_for_def by blast

lemma build_loop_jobs:
  assumes "build_loop E obj devices p = (p', js, err)"
  shows "\<forall>j \<in> set js. job_for devices (dev_Type ` set (Physical p)) j"
  using assms
proof (induction devices arbitrary: p p' js err)
  case (Cons d ds)
  let ?phys = "dev_Type ` set (Physical p)"
  obtain vs js1 err1 where l: "launch_loop (virtual_match d) (launch_virtual E obj) (Virtual p) = (vs, js1, err1)"
    by (cases "launch_loop (virtual_match d) (launch_virtual E obj) (Virtual p)")
  obtain ps js2 err2 where q: "launch_loop (physical_match d) (launch_physical E obj) (Physical p) = (ps, js2, err2)"
    by (cases "launch_loop (physical_match d) (launch_physical E obj) (Physical p)")
  have "\<forall>j \<in> set js1. \<exists>t \<in> dev_Type ` set (Virtual p). virtual_match d t \<and> j = VirtualJob t obj"
    by (rule launch_loop_jobs [OF _ l]) (auto simp: launch_virtual_def split: sum.splits)
  then have v: "\<forall>j \<in> set js1. job_for (d # ds) ?phys j" by (auto simp: job_for_def virtual_match_def)
  have "\<forall>j \<in> set js2. \<exists>t \<in> ?phys. physical_match d t \<and> (\<exists>e. j = PhysicalJob e \<and> dev_Type e = t)"
    by (rule launch_loop_jobs [OF _ q]) (auto simp: launch_physical_def Let_def split: sum.splits option.splits)
  then have w: "\<forall>j \<in> set js2. job_for (d # ds) ?phys j" by (fastforce simp: job_for_def)
  obtain p3 js3 err3 where r: "build_loop E obj ds (p\<lparr>Virtual := vs, Physical := ps\<rparr>) = (p3, js3, err3)"
    by (cases "build_loop E obj ds (p\<lparr>Virtual := vs, Physical := ps\<rparr>)")
  have "map dev_Type ps = map dev_Type (Physical p)"
    using launch_loop_types [of "launch_physical E obj" "physical_match d" "Physical p"] launch_types(2) q by simp
  then have "dev_Type ` set ps = ?phys" by (metis image_set)
  with Cons.IH [OF r] have x: "\<forall>j \<in> set js3. job_for (d # ds) ?phys j" using job_for_mono by simp
  from Cons.prems l q r have "set js \<subseteq> set js1 \<union> set js2 \<union> set js3"
    by (auto simp: Let_def split: option.splits)
  with v w x show ?case by blast
qed simp

lemma createBuild_jobs:
  "j \<in> set (fst (snd (createBuild E devices p))) \<Longrightarrow> job_for devices (dev_Type ` set (Physical p)) j"
proof -
  have "job_for devices (dev_Type ` set (Physical p)) j" if "j \<in> set (fst (snd (build_loop E obj devices p)))" for obj
    using that build_loop_jobs [of E obj devices p] by (cases "build_loop E obj devices p") auto
  then show "j \<in> set (fst (snd (createBuild E devices p))) \<Longrightarrow> job_for devices (dev_Type ` set (Physical p)) j"
    by (auto simp: createBuild_def split: option.splits sum.splits)
qed

lemma identify_physical:
  assumes "identifyModifiedTests E ord url \<lparr>pr_ID = n, HeadSHA = sha, Virtual = [], Physical = []\<rparr> = Inr p"
  shows "dev_Type ` set (Physical p) \<subseteq> set physicalDeviceTypes"
proof -
  obtain tests where "Physical p = devices_of tests physicalDeviceTypes"
    using assms by (auto simp: identifyModifiedTests_def populateTestDetail_def bind_res_Inr_iff split: option.splits)
  then show ?thesis by (auto simp: devices_of_def newDevice_def)
qed

text \<open>Device types with a model never match the physical devices, which have none.\<close>

lemma virtual_types_only:
  "job_for devices phys j \<Longrightarrow> phys \<subseteq> set physicalDeviceTypes \<Longrightarrow> set devices \<subseteq> set virtualDeviceTypes \<Longrightarrow>
    \<exists>t \<in> set devices. \<exists>obj. j = VirtualJob t obj"
proof -
  assume j: "job_for devices phys j" and sub: "phys \<subseteq> set physicalDeviceTypes" "set devices \<subseteq> set virtualDeviceTypes"
  have "\<not> physical_match t u" if "t \<in> set virtualDeviceTypes" "u \<in> set physicalDeviceTypes" for t u
    using that by (auto simp: physicalDeviceTypes_def virtualDeviceTypes_def physical_match_def dt_def)
  with j sub show ?thesis unfolding job_for_def by blast
qed

lemma find_SomeD: "find P xs = Some x \<Longrightarrow> x \<in> set xs \<and> P x"
  by (induction xs) (auto split: if_splits)

lemma device_metadata_type: "dev_Type (device_metadata E d) = dev_Type d"
proof -
  have "dev_Type (snd (test_metadata E ts d)) = dev_Type d" for ts
    by (induction ts arbitrary: d) (auto simp: Let_def split_beta split: option.splits)
  then show ?thesis by (simp add: device_metadata_def split_beta)
qed

lemma finish_pr_jobs [simp]: "jobs (fst (finish_pr E js p)) = js"
  by (simp add: finish_pr_def split_beta split: option.splits)

text \<open>Opening or updating a pull request launches jobs only if its author is an active member of an
  authorized team, and then only virtual device types: physical hardware is never used automatically.\<close>

theorem processPullRequest_authorized:
  assumes "j \<in> set (jobs (fst (processPullRequest E ord e)))"
  shows "authorizedUser E (pe_login e) = Inr True \<and> (\<exists>t \<in> set virtualDeviceTypes. \<exists>obj. j = VirtualJob t obj)"
proof -
  obtain p where p: "identifyModifiedTests E ord (pe_url e) \<lparr>pr_ID = pe_number e, HeadSHA = pe_sha e, Virtual = [], Physical = []\<rparr> = Inr p"
    and auth: "authorizedUser E (pe_login e) = Inr True"
    and j: "j \<in> set (fst (snd (createBuild E virtualDeviceTypes p)))"
    using assms
    by (auto simp: processPullRequest_def no_log_def Let_def split_beta split: option.splits sum.splits if_splits)
  have "job_for virtualDeviceTypes (dev_Type ` set (Physical p)) j"
    using createBuild_jobs [OF j] .
  from virtual_types_only [OF this identify_physical [OF p]] auth show ?thesis by simp
qed

definition ex_pe :: "string \<Rightarrow> pr_event" where
  "ex_pe u = \<lparr>pe_number = 7, pe_sha = ''abc'', pe_url = ''url'', pe_login = u\<rparr>"

lemma launch_loop_no_error: "(\<And>d. snd (snd (go d)) = None) \<Longrightarrow> snd (snd (launch_loop m go ds)) = None"
  by (induction ds) (auto simp: Let_def split_beta)

lemma build_loop_no_errors:
  assumes "\<And>d. snd (snd (launch_virtual E obj d)) = None" "\<And>d. snd (snd (launch_physical E obj d)) = None"
  shows "snd (snd (build_loop E obj devices p)) = None"
  using assms by (induction devices arbitrary: p) (auto simp: Let_def split_beta launch_loop_no_error)

lemma ex_createBuild_jobs:
  assumes "d \<in> set (Virtual p)" "wants_virtual devices (dev_Type d)" "ready d"
  shows "fst (snd (createBuild ex_env devices p)) \<noteq> []"
proof -
  have "snd (snd (build_loop ex_env ''obj'' devices p)) = None"
    by (intro build_loop_no_errors) (simp_all add: ex_env_def launch_virtual_def launch_physical_def Let_def)
  then obtain p' js where c: "createBuild ex_env devices p = (p', js, None)" "build_loop ex_env ''obj'' devices p = (p', js, None)"
    by (cases "build_loop ex_env ''obj'' devices p") (simp add: createBuild_def ex_env_def)
  have "launch_jobs (wants_virtual devices) (launch_virtual ex_env ''obj'') (Virtual p) \<noteq> []"
    using assms by (auto simp: launch_jobs_def selected_def launch_virtual_def ex_env_def filter_empty_conv)
  with build_loop_success(3) [OF c(2)] c(1) show ?thesis by auto
qed

lemma ex_identify:
  "identifyModifiedTests ex_env id url p = populateTestDetail ex_env [''feature/x/otg_tests/t''] p"
  by (simp add: identifyModifiedTests_def ex_env_def modifiedFunctionalTests_def hasPrefix_def)

lemma ex_populate:
  "\<exists>p'. populateTestDetail ex_env [''feature/x/otg_tests/t''] p = Inr p'
    \<and> (\<forall>d \<in> set virtualDeviceTypes. newDevice d [newTest p ''feature/x/otg_tests/t'' (''RT-1.1'', ''Base'') d] \<in> set (Virtual p'))"
proof -
  have a: "\<not> is_ate ''feature/x/otg_tests/t''" by code_simp
  have "populateTestDetail ex_env [''feature/x/otg_tests/t''] p = Inr (p\<lparr>
      Virtual := Virtual p @ map (\<lambda>d. newDevice d (tests_for ex_env p [''feature/x/otg_tests/t''] d)) virtualDeviceTypes,
      Physical := Physical p @ map (\<lambda>d. newDevice d (tests_for ex_env p [''feature/x/otg_tests/t''] d)) physicalDeviceTypes\<rparr>)"
    using a by (intro populateTestDetail_ok) (auto simp: md_of_def ex_env_def)
  moreover have "md_of ex_env ''feature/x/otg_tests/t'' = Inr (''RT-1.1'', ''Base'')"
    by (simp add: md_of_def ex_env_def)
  ultimately show ?thesis using a by (simp add: tests_for_def)
qed

lemma dev_Type_newDevice [simp]: "dev_Type (newDevice d ts) = d"
  by (simp add: newDevice_def)

lemma ready_newDevice [simp]: "ready (newDevice d [newTest p ft md d])"
  by (simp add: ready_def newDevice_def newTest_def Let_def)

lemma ex_alice_jobs: "jobs (fst (processPullRequest ex_env id (ex_pe ''alice''))) \<noteq> []"
proof -
  let ?p = "\<lparr>pr_ID = 7, HeadSHA = ''abc'', Virtual = [], Physical = []\<rparr>"
  let ?d = "newDevice (dt ''NOKIA'' ''SR Linux'')
    [newTest ?p ''feature/x/otg_tests/t'' (''RT-1.1'', ''Base'') (dt ''NOKIA'' ''SR Linux'')]"
  obtain p' where p': "populateTestDetail ex_env [''feature/x/otg_tests/t''] ?p = Inr p'" and d: "?d \<in> set (Virtual p')"
    using ex_populate [of ?p] by (auto simp: virtualDeviceTypes_def)
  have "wants_virtual virtualDeviceTypes (dev_Type ?d)"
    by (simp add: newDevice_def wants_virtual_def virtual_match_def virtualDeviceTypes_def)
  with d have "fst (snd (createBuild ex_env virtualDeviceTypes p')) \<noteq> []"
    by (rule ex_createBuild_jobs) simp
  moreover have "authorizedUser ex_env ''alice'' = Inr True" by code_simp
  moreover have "mkdirTemp ex_env = None" by (simp add: ex_env_def)
  ultimately show ?thesis
    by (auto simp: processPullRequest_def ex_pe_def ex_identify p' Let_def split_beta split: option.splits)
qed

theorem processPullRequest_authorized_witness:
  "(\<exists>j. j \<in> set (jobs (fst (processPullRequest ex_env id (ex_pe ''alice'')))))
   \<and> authorizedUser ex_env ''alice'' = Inr True
   \<and> jobs (fst (processPullRequest ex_env id (ex_pe ''mallory''))) = []"
proof -
  obtain j where j: "j \<in> set (jobs (fst (processPullRequest ex_env id (ex_pe ''alice''))))"
    using ex_alice_jobs last_in_set by blast
  from processPullRequest_authorized [OF this] have "authorizedUser ex_env ''alice'' = Inr True"
    by (simp add: ex_pe_def)
  moreover have "authorizedUser ex_env ''mallory'' = Inr False" by code_simp
  then have "jobs (fst (processPullRequest ex_env id (ex_pe ''mallory''))) = []"
    using processPullRequest_authorized [of _ ex_env id "ex_pe ''mallory''"] by (fastforce simp: ex_pe_def)
  ultimately show ?thesis using j by blast
qed

text \<open>C34: A comment launches jobs only if it is on a pull request, its author is authorized, and it
  contains a trigger keyword; all the jobs are for the device types of one keyword that it contains.\<close>

theorem processIssueComment_authorized:
  assumes "jobs (fst (processIssueComment E ord kord e)) \<noteq> []" and "set (kord triggerKeywords) = set triggerKeywords"
  shows "ev_prURL e \<noteq> [] \<and> authorizedUser E (ev_login e) = Inr True
    \<and> (\<exists>k ds. (k, ds) \<in> set triggerKeywords \<and> containsKeyword (ev_body e) k
        \<and> (\<forall>j \<in> set (jobs (fst (processIssueComment E ord kord e))). job_for ds (set physicalDeviceTypes) j))"
proof -
  obtain sha url p k ds where
    p: "identifyModifiedTests E ord url \<lparr>pr_ID = ev_number e, HeadSHA = sha, Virtual = [], Physical = []\<rparr> = Inr p"
    and auth: "ev_prURL e \<noteq> []" "authorizedUser E (ev_login e) = Inr True"
    and k: "find (\<lambda>k. containsKeyword (ev_body e) (fst k)) (kord triggerKeywords) = Some (k, ds)"
    and j: "jobs (fst (processIssueComment E ord kord e)) = fst (snd (createBuild E ds (populateObjectMetadata E p)))"
    using assms(1)
    by (auto simp: processIssueComment_def no_log_def Let_def split_beta split: option.splits sum.splits if_splits)
  have "(k, ds) \<in> set triggerKeywords" "containsKeyword (ev_body e) k"
    using find_SomeD [OF k] assms(2) by auto
  moreover have sub: "dev_Type ` set (Physical (populateObjectMetadata E p)) \<subseteq> set physicalDeviceTypes"
    using identify_physical [OF p] by (auto simp: populateObjectMetadata_def device_metadata_type)
  have "\<forall>j \<in> set (jobs (fst (processIssueComment E ord kord e))). job_for ds (set physicalDeviceTypes) j"
    unfolding j by (intro ballI job_for_phys [OF createBuild_jobs sub])
  ultimately show ?thesis using auth by blast
qed


definition ex_ce :: comment_event where
  "ex_ce = \<lparr>ev_prURL = ''u'', ev_login = ''alice'', ev_body = ''please /FPTEST nokia-srl'', ev_number = 7\<rparr>"

theorem processIssueComment_authorized_witness:
  "jobs (fst (processIssueComment ex_env id rev ex_ce)) \<noteq> []
   \<and> (\<exists>k ds. (k, ds) \<in> set triggerKeywords \<and> containsKeyword (ev_body ex_ce) k)"
proof -
  let ?p = "\<lparr>pr_ID = 7, HeadSHA = ''abc'', Virtual = [], Physical = []\<rparr>"
  let ?d = "newDevice (dt ''NOKIA'' ''SR Linux'')
    [newTest ?p ''feature/x/otg_tests/t'' (''RT-1.1'', ''Base'') (dt ''NOKIA'' ''SR Linux'')]"
  obtain p' where p': "populateTestDetail ex_env [''feature/x/otg_tests/t''] ?p = Inr p'" and d: "?d \<in> set (Virtual p')"
    using ex_populate [of ?p] by (auto simp: virtualDeviceTypes_def)
  have "device_metadata ex_env ?d = ?d"
    by (simp add: device_metadata_def newDevice_def ex_env_def)
  with d have d': "?d \<in> set (Virtual (populateObjectMetadata ex_env p'))"
    by (force simp: populateObjectMetadata_def)
  have k: "find (\<lambda>k. containsKeyword (ev_body ex_ce) (fst k)) (rev triggerKeywords) = Some (''/fptest nokia-srl'', [dt ''NOKIA'' ''SR Linux''])"
    by code_simp
  have "fst (snd (createBuild ex_env [dt ''NOKIA'' ''SR Linux''] (populateObjectMetadata ex_env p'))) \<noteq> []"
    using d' by (rule ex_createBuild_jobs) (simp_all add: wants_virtual_def virtual_match_def)
  moreover have "authorizedUser ex_env ''alice'' = Inr True" by code_simp
  moreover have "list_ex (\<lambda>k. containsKeyword (ev_body ex_ce) (fst k)) (rev triggerKeywords)"
    using find_SomeD [OF k] unfolding list_ex_iff by blast
  moreover have "prGet ex_env 7 = Inr (''abc'', ''url'')" "mkdirTemp ex_env = None" by (simp_all add: ex_env_def)
  ultimately have "jobs (fst (processIssueComment ex_env id rev ex_ce)) \<noteq> []"
    using k by (auto simp: processIssueComment_def ex_ce_def ex_identify p' Let_def split_beta split: option.splits)
  with processIssueComment_authorized [OF this] show ?thesis by auto
qed

end
