(* ===== verification/Gribi.thy ===== *)
theory Gribi
  imports FP_Prelude
begin

text \<open>
  \<^verbatim>\<open>internal/gribi/gribi.go\<close>: election identifiers, the entries a test programs, and the client that
  programs them and checks the device's answers.

  The packages \<^verbatim>\<open>gribigo/fluent\<close> and \<^verbatim>\<open>gribigo/chk\<close> are not part of the repository. What the client calls
  of them is the record \<open>fluent_api\<close>, an argument of every operation: \<open>'c\<close> is the state of the fluent
  client and of the device behind it. An entry is the record of what the builder calls set; a
  \<^verbatim>\<open>client.OpResult\<close> has the fields the repository reads or sets. A \<^verbatim>\<open>t.Fatalf\<close>, a nil dereference and an
  index out of range end the test: the error \<open>gribi_fatal\<close>.

  The locale \<open>checked_modify\<close> is the contract of the operations that send a request and then check the
  results; it is interpreted on the five of them.
\<close>

section \<open>Election identifiers\<close>

record Uint128 =
  Low :: "64 word"
  High :: "64 word"

definition Increment :: "Uint128 \<Rightarrow> Uint128" where
  "Increment i =
     (let newLow = Low i + 1 in \<lparr>Low = newLow, High = (if newLow < Low i then High i + 1 else High i)\<rparr>)"

definition Decrement :: "Uint128 \<Rightarrow> Uint128" where
  "Decrement i =
     (let newLow = Low i - 1 in \<lparr>Low = newLow, High = (if newLow > Low i then High i - 1 else High i)\<rparr>)"


section \<open>Entries\<close>

record nh_entry =
  nh_index :: "64 word"
  nh_ni :: string
  nh_nextNI :: "string option"
  nh_ip :: "string option"
  nh_decap :: bool
  nh_encap :: bool
  nh_ipinip :: "(string \<times> string) option"
  nh_mac :: "string option"
  nh_intf :: "(string \<times> 64 word option) option"

record nhg_entry =
  nhg_id :: "64 word"
  nhg_ni :: string
  nhg_hops :: "(64 word \<times> 64 word) list"
  nhg_backup :: "64 word option"

record ip_entry =
  ip_prefix :: string
  ip_ni :: string
  ip_nhg :: "64 word option"
  ip_nhgNI :: "string option"

datatype gribi_entry = NH nh_entry | NHG nhg_entry | IPv4 ip_entry | IPv6 ip_entry

definition NextHopEntry :: "64 word \<Rightarrow> string \<Rightarrow> nh_entry" where
  "NextHopEntry i ni = \<lparr>nh_index = i, nh_ni = ni, nh_nextNI = None, nh_ip = None, nh_decap = False, nh_encap = False,
     nh_ipinip = None, nh_mac = None, nh_intf = None\<rparr>"

definition NextHopGroupEntry :: "64 word \<Rightarrow> string \<Rightarrow> nhg_entry" where
  "NextHopGroupEntry i ni = \<lparr>nhg_id = i, nhg_ni = ni, nhg_hops = [], nhg_backup = None\<rparr>"

definition AddNextHop :: "64 word \<Rightarrow> 64 word \<Rightarrow> nhg_entry \<Rightarrow> nhg_entry" where
  "AddNextHop i w g = g\<lparr>nhg_hops := nhg_hops g @ [(i, w)]\<rparr>"

definition IPEntry :: "string \<Rightarrow> string \<Rightarrow> ip_entry" where
  "IPEntry ni pfx = \<lparr>ip_prefix = pfx, ip_ni = ni, ip_nhg = None, ip_nhgNI = None\<rparr>"

text \<open>Results of operations.\<close>

datatype op_type = Add | Delete
datatype aft_status = UNSET | OK | FAILED | RIB_PROGRAMMED | FIB_PROGRAMMED | FIB_FAILED

record OpDetails =
  OpType :: op_type
  NextHopIndex :: "64 word"
  NextHopGroupID :: "64 word"
  IPv4Prefix :: string
  IPv6Prefix :: string

record OpResult =
  ServerError :: string
  ClientError :: string
  ProgrammingResult :: aft_status
  Details :: "OpDetails option"
  CurrentServerElectionID :: "Uint128 option"

definition opResult :: "OpDetails \<Rightarrow> aft_status \<Rightarrow> OpResult" where
  "opResult d st = \<lparr>ServerError = [], ClientError = [], ProgrammingResult = st, Details = Some d, CurrentServerElectionID = None\<rparr>"

definition opDetails :: "op_type \<Rightarrow> OpDetails" where
  "opDetails ty = \<lparr>OpType = ty, NextHopIndex = 0, NextHopGroupID = 0, IPv4Prefix = [], IPv6Prefix = []\<rparr>"

record NHGOptions =
  BackupNHG :: "64 word"

record NHOptions =
  opt_Src :: string
  opt_Dest :: string
  opt_VrfName :: string
  opt_Mac :: string
  opt_Interface :: string
  opt_SubInterface :: "64 word"

text \<open>The loop over the options of a next hop; a nil option is dereferenced.\<close>

fun apply_opts :: "(NHOptions \<Rightarrow> nh_entry \<Rightarrow> nh_entry) \<Rightarrow> NHOptions option list \<Rightarrow> nh_entry \<Rightarrow> nh_entry option" where
  "apply_opts f [] nh = Some nh"
| "apply_opts f (None # opts) nh = None"
| "apply_opts f (Some opt # opts) nh = apply_opts f opts (f opt nh)"

definition macWithInterface :: "NHOptions \<Rightarrow> nh_entry \<Rightarrow> nh_entry" where
  "macWithInterface opt nh =
     (let nh = (if opt_SubInterface opt \<noteq> 0
                then nh\<lparr>nh_intf := Some (opt_Interface opt, Some (opt_SubInterface opt)), nh_mac := Some (opt_Mac opt)\<rparr>
                else nh\<lparr>nh_intf := Some (opt_Interface opt, None), nh_mac := Some (opt_Mac opt)\<rparr>) in
      if opt_Dest opt \<noteq> [] then nh\<lparr>nh_ip := Some (opt_Dest opt)\<rparr> else nh)"

definition NHEntry :: "64 word \<Rightarrow> string \<Rightarrow> string \<Rightarrow> aft_status \<Rightarrow> NHOptions option list \<Rightarrow> (nh_entry \<times> OpResult) option" where
  "NHEntry nhIndex address instance expectedResult opts =
     (let nh = NextHopEntry nhIndex instance;
          nh' =
            (if address = ''Decap'' then
               apply_opts (\<lambda>opt nh. nh\<lparr>nh_nextNI := Some (opt_VrfName opt)\<rparr>) opts (nh\<lparr>nh_decap := True\<rparr>)
             else if address = ''DecapEncap'' then
               apply_opts (\<lambda>opt nh. nh\<lparr>nh_ipinip := Some (opt_Src opt, opt_Dest opt), nh_nextNI := Some (opt_VrfName opt)\<rparr>)
                 opts (nh\<lparr>nh_decap := True, nh_encap := True\<rparr>)
             else if address = ''Encap'' then
               apply_opts (\<lambda>opt nh. nh\<lparr>nh_ipinip := Some (opt_Src opt, opt_Dest opt), nh_nextNI := Some (opt_VrfName opt)\<rparr>)
                 opts (nh\<lparr>nh_encap := True\<rparr>)
             else if address = ''VRFOnly'' then
               apply_opts (\<lambda>opt nh. nh\<lparr>nh_nextNI := Some (opt_VrfName opt)\<rparr>) opts nh
             else if address = ''MACwithInterface'' then apply_opts macWithInterface opts nh
             else if address = ''MACwithIp'' then
               apply_opts (\<lambda>opt nh. nh\<lparr>nh_ip := Some (opt_Dest opt), nh_mac := Some (opt_Mac opt)\<rparr>) opts nh
             else Some (nh\<lparr>nh_ip := Some address\<rparr>)) in
      map_option (\<lambda>nh. (nh, opResult ((opDetails Add)\<lparr>NextHopIndex := nhIndex\<rparr>) expectedResult)) nh')"

text \<open>\<open>nhWeights\<close> lists the map's entries in the order the \<^verbatim>\<open>range\<close> loop takes them.\<close>

definition NHGEntry ::
  "64 word \<Rightarrow> (64 word \<times> 64 word) list \<Rightarrow> string \<Rightarrow> aft_status \<Rightarrow> NHGOptions option list \<Rightarrow> nhg_entry \<times> OpResult" where
  "NHGEntry nhgIndex nhWeights instance expectedResult opts =
     (let nhg = fold (\<lambda>(i, w). AddNextHop i w) nhWeights (NextHopGroupEntry nhgIndex instance);
          nhg = fold (\<lambda>opt nhg. case opt of
                        None \<Rightarrow> nhg
                      | Some opt \<Rightarrow> if BackupNHG opt \<noteq> 0 then nhg\<lparr>nhg_backup := Some (BackupNHG opt)\<rparr> else nhg) opts nhg in
      (nhg, opResult ((opDetails Add)\<lparr>NextHopGroupID := nhgIndex\<rparr>) expectedResult))"


section \<open>The client\<close>

datatype flush_req = FlushNI Uint128 string | FlushOverride

record 'c fluent_api =
  f_start :: "bool \<Rightarrow> bool \<Rightarrow> Uint128 \<Rightarrow> 'c \<Rightarrow> 'c"
  f_stop :: "'c \<Rightarrow> 'c"
  f_add :: "gribi_entry list \<Rightarrow> 'c \<Rightarrow> 'c"
  f_delete :: "gribi_entry list \<Rightarrow> 'c \<Rightarrow> 'c"
  f_elect :: "Uint128 \<Rightarrow> 'c \<Rightarrow> 'c"
  f_await :: "'c \<Rightarrow> 'c \<times> bool"
  f_results :: "'c \<Rightarrow> OpResult list"
  f_flush :: "flush_req \<Rightarrow> 'c \<Rightarrow> 'c \<times> bool"
  f_hasResult :: "OpResult list \<Rightarrow> OpResult \<Rightarrow> bool"
  f_hasResultsCache :: "OpResult list \<Rightarrow> OpResult list \<Rightarrow> bool"

datatype gribi_fatal = NotStarted | AwaitError | MissingResult OpResult | NoResults | NoElectionID | NilOption | FlushFailed

record 'c Client =
  FIBACK :: bool
  Persistence :: bool
  fluentC :: "'c option"
  electionID :: Uint128

definition awaitTimeout :: "'c fluent_api \<Rightarrow> 'c \<Rightarrow> 'c \<times> bool" where
  "awaitTimeout api c = f_await api c"

definition LearnElectionID :: "'c fluent_api \<Rightarrow> 'c \<Rightarrow> (gribi_fatal, 'c \<times> Uint128) res" where
  "LearnElectionID api c =
     (let (c, ok) = awaitTimeout api (f_elect api \<lparr>Low = 1, High = 0\<rparr> c) in
      if \<not> ok then Inl AwaitError
      else if f_results api c = [] then Inl NoResults
      else case CurrentServerElectionID (last (f_results api c)) of
             None \<Rightarrow> Inl NoElectionID
           | Some eID \<Rightarrow> Inr (c, eID))"

definition UpdateElectionID :: "'c fluent_api \<Rightarrow> Uint128 \<Rightarrow> 'c \<Rightarrow> (gribi_fatal, 'c) res" where
  "UpdateElectionID api eID c =
     (let (c, ok) = awaitTimeout api (f_elect api eID c) in if ok then Inr c else Inl AwaitError)"

definition BecomeLeader :: "'c fluent_api \<Rightarrow> 'c \<Rightarrow> (gribi_fatal, 'c \<times> Uint128) res" where
  "BecomeLeader api c =
     bind_res (LearnElectionID api c) (\<lambda>(c, eID).
     bind_res (UpdateElectionID api (Increment eID) c) (\<lambda>c. Inr (c, Increment eID)))"

definition Flush :: "'c fluent_api \<Rightarrow> Uint128 \<Rightarrow> string \<Rightarrow> 'c \<Rightarrow> 'c \<times> bool" where
  "Flush api eID ni c = f_flush api (FlushNI eID ni) c"

definition FlushAll :: "'c fluent_api \<Rightarrow> 'c \<Rightarrow> 'c \<times> bool" where
  "FlushAll api c = f_flush api FlushOverride c"

text \<open>Methods of \<^verbatim>\<open>Client\<close>: \<open>on_fluent\<close> dereferences \<^verbatim>\<open>c.fluentC\<close>.\<close>

definition on_fluent :: "('c \<Rightarrow> (gribi_fatal, 'c) res) \<Rightarrow> 'c Client \<Rightarrow> (gribi_fatal, 'c Client) res" where
  "on_fluent f cl =
     (case fluentC cl of
        None \<Rightarrow> Inl NotStarted
      | Some c \<Rightarrow> map_sum id (\<lambda>c. cl\<lparr>fluentC := Some c\<rparr>) (f c))"

text \<open>\<open>dev\<close> is the device (\<^verbatim>\<open>c.DUT\<close>) the session is opened to; \<^verbatim>\<open>Close\<close> gives it back.\<close>

definition Start :: "'c fluent_api \<Rightarrow> 'c \<Rightarrow> 'c Client \<Rightarrow> 'c Client \<times> bool" where
  "Start api dev cl =
     (let eID = \<lparr>Low = 1, High = 0\<rparr>;
          (c, ok) = awaitTimeout api (f_start api (Persistence cl) (FIBACK cl) eID dev) in
      (cl\<lparr>fluentC := Some c, electionID := eID\<rparr>, ok))"

definition Close :: "'c fluent_api \<Rightarrow> 'c Client \<Rightarrow> 'c Client \<times> 'c option" where
  "Close api cl = (cl\<lparr>fluentC := None\<rparr>, map_option (f_stop api) (fluentC cl))"

definition Client_UpdateElectionID :: "'c fluent_api \<Rightarrow> Uint128 \<Rightarrow> 'c Client \<Rightarrow> (gribi_fatal, 'c Client) res" where
  "Client_UpdateElectionID api eID cl =
     map_sum id (\<lambda>cl. cl\<lparr>electionID := eID\<rparr>) (on_fluent (UpdateElectionID api eID) cl)"

definition Client_BecomeLeader :: "'c fluent_api \<Rightarrow> 'c Client \<Rightarrow> (gribi_fatal, 'c Client) res" where
  "Client_BecomeLeader api cl =
     (case fluentC cl of
        None \<Rightarrow> Inl NotStarted
      | Some c \<Rightarrow> map_sum id (\<lambda>(c, eID). cl\<lparr>fluentC := Some c, electionID := eID\<rparr>) (BecomeLeader api c))"

text \<open>\<^verbatim>\<open>chk.HasResult\<close> for each expected result; the first that is missing ends the test.\<close>

fun check_results :: "'c fluent_api \<Rightarrow> OpResult list \<Rightarrow> 'c \<Rightarrow> (gribi_fatal, 'c) res" where
  "check_results api [] c = Inr c"
| "check_results api (r # rs) c =
     (if f_hasResult api (f_results api c) r then check_results api rs c else Inl (MissingResult r))"

definition AddEntries :: "'c fluent_api \<Rightarrow> gribi_entry list \<Rightarrow> OpResult list \<Rightarrow> 'c Client \<Rightarrow> (gribi_fatal, 'c Client) res" where
  "AddEntries api entries expectedResults =
     on_fluent (\<lambda>c.
       let c = f_add api entries c in
       if expectedResults = [] then Inr c
       else let (c, ok) = awaitTimeout api c in
            if ok then check_results api expectedResults c else Inl AwaitError)"

definition DeleteEntries :: "'c fluent_api \<Rightarrow> gribi_entry list \<Rightarrow> OpResult list \<Rightarrow> 'c Client \<Rightarrow> (gribi_fatal, 'c Client) res" where
  "DeleteEntries api entries expectedResults =
     on_fluent (\<lambda>c.
       let (c, ok) = awaitTimeout api (f_delete api entries c) in
       if ok then check_results api expectedResults c else Inl AwaitError)"

definition AddNHG ::
  "'c fluent_api \<Rightarrow> 64 word \<Rightarrow> (64 word \<times> 64 word) list \<Rightarrow> string \<Rightarrow> aft_status \<Rightarrow> NHGOptions option list \<Rightarrow>
     'c Client \<Rightarrow> (gribi_fatal, 'c Client) res" where
  "AddNHG api nhgIndex nhWeights instance expectedResult opts =
     (let (nhg, want) = NHGEntry nhgIndex nhWeights instance expectedResult opts in
      AddEntries api [NHG nhg] [want])"

definition AddNH ::
  "'c fluent_api \<Rightarrow> 64 word \<Rightarrow> string \<Rightarrow> string \<Rightarrow> aft_status \<Rightarrow> NHOptions option list \<Rightarrow>
     'c Client \<Rightarrow> (gribi_fatal, 'c Client) res" where
  "AddNH api nhIndex address instance expectedResult opts cl =
     (case NHEntry nhIndex address instance expectedResult opts of
        None \<Rightarrow> Inl NilOption
      | Some (nh, want) \<Rightarrow> AddEntries api [NH nh] [want] cl)"

definition ip_route :: "string \<Rightarrow> 64 word \<Rightarrow> string \<Rightarrow> string \<Rightarrow> ip_entry" where
  "ip_route prefix nhgIndex instance nhgInstance =
     (let e = (IPEntry instance prefix)\<lparr>ip_nhg := Some nhgIndex\<rparr> in
      if nhgInstance \<noteq> [] \<and> nhgInstance \<noteq> instance then e\<lparr>ip_nhgNI := Some nhgInstance\<rparr> else e)"

definition AddIPv4 ::
  "'c fluent_api \<Rightarrow> string \<Rightarrow> 64 word \<Rightarrow> string \<Rightarrow> string \<Rightarrow> aft_status \<Rightarrow> 'c Client \<Rightarrow> (gribi_fatal, 'c Client) res" where
  "AddIPv4 api prefix nhgIndex instance nhgInstance expectedResult =
     on_fluent (\<lambda>c.
       let (c, ok) = awaitTimeout api (f_add api [IPv4 (ip_route prefix nhgIndex instance nhgInstance)] c) in
       if ok then check_results api [opResult ((opDetails Add)\<lparr>IPv4Prefix := prefix\<rparr>) expectedResult] c
       else Inl AwaitError)"

definition AddIPv6 ::
  "'c fluent_api \<Rightarrow> string \<Rightarrow> 64 word \<Rightarrow> string \<Rightarrow> string \<Rightarrow> aft_status \<Rightarrow> 'c Client \<Rightarrow> (gribi_fatal, 'c Client) res" where
  "AddIPv6 api prefix nhgIndex instance nhgInstance expectedResult =
     on_fluent (\<lambda>c.
       let (c, ok) = awaitTimeout api (f_add api [IPv6 (ip_route prefix nhgIndex instance nhgInstance)] c) in
       if ok then check_results api [opResult ((opDetails Add)\<lparr>IPv6Prefix := prefix\<rparr>) expectedResult] c
       else Inl AwaitError)"

definition DeleteIPv4 :: "'c fluent_api \<Rightarrow> string \<Rightarrow> string \<Rightarrow> aft_status \<Rightarrow> 'c Client \<Rightarrow> (gribi_fatal, 'c Client) res" where
  "DeleteIPv4 api prefix instance expectedResult =
     on_fluent (\<lambda>c.
       let (c, ok) = awaitTimeout api (f_delete api [IPv4 (IPEntry instance prefix)] c) in
       if ok then check_results api [opResult ((opDetails Delete)\<lparr>IPv4Prefix := prefix\<rparr>) expectedResult] c
       else Inl AwaitError)"

definition DeleteIPv6 :: "'c fluent_api \<Rightarrow> string \<Rightarrow> string \<Rightarrow> aft_status \<Rightarrow> 'c Client \<Rightarrow> (gribi_fatal, 'c Client) res" where
  "DeleteIPv6 api prefix instance expectedResult =
     on_fluent (\<lambda>c.
       let (c, ok) = awaitTimeout api (f_delete api [IPv6 (IPEntry instance prefix)] c) in
       if ok then check_results api [opResult ((opDetails Delete)\<lparr>IPv6Prefix := prefix\<rparr>) expectedResult] c
       else Inl AwaitError)"

definition Client_FlushAll :: "'c fluent_api \<Rightarrow> 'c Client \<Rightarrow> (gribi_fatal, 'c Client) res" where
  "Client_FlushAll api =
     on_fluent (\<lambda>c. let (c, ok) = FlushAll api c in if ok then Inr c else Inl FlushFailed)"

definition Client_Flush :: "'c fluent_api \<Rightarrow> Uint128 \<Rightarrow> string \<Rightarrow> 'c Client \<Rightarrow> (gribi_fatal, 'c Client) res" where
  "Client_Flush api eID ni =
     on_fluent (\<lambda>c. let (c, ok) = Flush api eID ni c in if ok then Inr c else Inl FlushFailed)"


section \<open>Election identifiers are 128-bit numbers\<close>

definition u128 :: "Uint128 \<Rightarrow> nat" where
  "u128 i = unat (High i) * 2 ^ 64 + unat (Low i)"

lemma u128_less: "u128 i < 2 ^ 128"
proof -
  have "unat (High i) \<le> 2 ^ 64 - 1" "unat (Low i) < 2 ^ 64"
    using unsigned_less [of "High i", where ?'a = nat] unsigned_less [of "Low i", where ?'a = nat] by simp_all
  then have "unat (High i) * 2 ^ 64 + unat (Low i) < (2 ^ 64 - 1) * 2 ^ 64 + 2 ^ 64"
    by (intro add_le_less_mono mult_le_mono1)
  then show ?thesis by (simp add: u128_def)
qed

lemma u128_inject: "u128 i = u128 j \<longleftrightarrow> i = j"
proof
  assume e: "u128 i = u128 j"
  have l: "unat (Low i) < 2 ^ 64" "unat (Low j) < 2 ^ 64"
    using unsigned_less [of "Low i", where ?'a = nat] unsigned_less [of "Low j", where ?'a = nat] by simp_all
  from e have "u128 i div 2 ^ 64 = u128 j div 2 ^ 64" "u128 i mod 2 ^ 64 = u128 j mod 2 ^ 64" by simp_all
  with l have "unat (High i) = unat (High j)" "unat (Low i) = unat (Low j)" by (simp_all add: u128_def)
  then show "i = j" by (cases i, cases j) (simp add: word_unat_eq_iff)
qed simp

lemma unat_inc: "unat (w + 1 :: 64 word) = (if unat w = 2 ^ 64 - 1 then 0 else unat w + 1)"
  using unsigned_less [of w, where ?'a = nat] by (auto simp: unat_word_ariths)

lemma word_max_iff: "(w + 1 :: 64 word) < w \<longleftrightarrow> unat w = 2 ^ 64 - 1"
  using unat_inc [of w] by (auto simp: word_less_nat_alt)

lemma u128_Increment: "u128 (Increment i) = (u128 i + 1) mod 2 ^ 128"
proof (cases "unat (Low i) = 2 ^ 64 - 1")
  case True
  then have "u128 (Increment i) = unat (High i + 1) * 2 ^ 64"
    using word_max_iff [of "Low i"] unat_inc [of "Low i"] by (simp add: Increment_def u128_def Let_def)
  moreover have "u128 i + 1 = (unat (High i) + 1) * 2 ^ 64" using True by (simp add: u128_def)
  moreover have "(unat (High i) + 1) * 2 ^ 64 mod 2 ^ 128 = unat (High i + 1) * 2 ^ 64"
    using unat_inc [of "High i"] unsigned_less [of "High i", where ?'a = nat] by auto
  ultimately show ?thesis by metis
next
  case False
  then have "u128 (Increment i) = u128 i + 1"
    using word_max_iff [of "Low i"] unat_inc [of "Low i"] by (simp add: Increment_def u128_def Let_def)
  with u128_less [of "Increment i"] show ?thesis by simp
qed

lemma Decrement_Increment: "Decrement (Increment i) = i"
  by (cases i) (auto simp: Increment_def Decrement_def Let_def)

text \<open>\<^verbatim>\<open>Increment\<close> adds one to the 128-bit number, carry and wrap-around included, and \<^verbatim>\<open>Decrement\<close>
  undoes it.\<close>

theorem Increment_Decrement:
  "u128 (Increment i) = (u128 i + 1) mod 2 ^ 128 \<and> Decrement (Increment i) = i \<and> Increment (Decrement i) = i"
proof -
  obtain j where "i = Increment j"
  proof
    show "i = Increment (Decrement i)"
      by (cases i) (auto simp: Increment_def Decrement_def Let_def)
  qed
  then show ?thesis by (simp add: u128_Increment Decrement_Increment)
qed


section \<open>Leadership\<close>

text \<open>What the protocol promises of the device: it keeps the highest election identifier it was sent,
  and the answer to an update carries it. \<open>cur\<close> reads it from the state.\<close>

definition keeps_highest :: "'c fluent_api \<Rightarrow> ('c \<Rightarrow> Uint128) \<Rightarrow> bool" where
  "keeps_highest api cur \<longleftrightarrow>
     (\<forall>c e. let (c', ok) = f_await api (f_elect api e c) in
        ok \<longrightarrow> cur c' = (if u128 (cur c) < u128 e then e else cur c) \<and> f_results api c' \<noteq> []
          \<and> CurrentServerElectionID (last (f_results api c')) = Some (cur c'))"

lemma update_highest:
  assumes "keeps_highest api cur" and "f_await api (f_elect api e c) = (c', True)"
  shows "cur c' = (if u128 (cur c) < u128 e then e else cur c)" "f_results api c' \<noteq> []"
    "CurrentServerElectionID (last (f_results api c')) = Some (cur c')"
proof -
  have "let (c', ok) = f_await api (f_elect api e c) in
        ok \<longrightarrow> cur c' = (if u128 (cur c) < u128 e then e else cur c) \<and> f_results api c' \<noteq> []
          \<and> CurrentServerElectionID (last (f_results api c')) = Some (cur c')"
    using assms(1) unfolding keeps_highest_def by blast
  then show "cur c' = (if u128 (cur c) < u128 e then e else cur c)" "f_results api c' \<noteq> []"
    "CurrentServerElectionID (last (f_results api c')) = Some (cur c')"
    by (simp_all add: assms(2))
qed

lemma LearnElectionID_highest:
  assumes "keeps_highest api cur" and "LearnElectionID api c = Inr (c', e)"
  shows "e = cur c' \<and> u128 e = max (u128 (cur c)) 1"
proof -
  obtain ok where a: "f_await api (f_elect api \<lparr>Low = 1, High = 0\<rparr> c) = (c', ok)" "ok"
    "CurrentServerElectionID (last (f_results api c')) = Some e"
    using assms(2) by (auto simp: LearnElectionID_def awaitTimeout_def split: prod.splits if_splits option.splits)
  then have "e = cur c'" "cur c' = (if u128 (cur c) < 1 then \<lparr>Low = 1, High = 0\<rparr> else cur c)"
    using update_highest [OF assms(1), of "\<lparr>Low = 1, High = 0\<rparr>" c c'] by (simp_all add: u128_def)
  moreover have "u128 \<lparr>Low = 1, High = 0\<rparr> = 1" by (simp add: u128_def)
  ultimately show ?thesis by (auto simp: max_def)
qed

text \<open>C22: If the device keeps the highest election identifier it is sent, a client that becomes leader
  holds the device's current identifier afterwards, one more than the highest before, unless the
  128-bit counter is exhausted.\<close>

theorem Client_BecomeLeader_leads:
  assumes "keeps_highest api cur" and "fluentC cl = Some c" and "Client_BecomeLeader api cl = Inr cl'"
    and "u128 (cur c) + 1 < 2 ^ 128"
  shows "\<exists>c'. fluentC cl' = Some c' \<and> cur c' = electionID cl' \<and> u128 (electionID cl') = max (u128 (cur c)) 1 + 1"
proof -
  obtain c1 c2 e where l: "LearnElectionID api c = Inr (c1, e)" and u: "UpdateElectionID api (Increment e) c1 = Inr c2"
    and cl': "cl' = cl\<lparr>fluentC := Some c2, electionID := Increment e\<rparr>"
    using assms(2,3) by (auto simp: Client_BecomeLeader_def BecomeLeader_def bind_res_def split: sum.splits)
  have e: "e = cur c1" "u128 e = max (u128 (cur c)) 1" using LearnElectionID_highest [OF assms(1) l] by blast+
  have i: "u128 (Increment e) = u128 e + 1" using e(2) assms(4) by (simp add: u128_Increment max_def)
  have "f_await api (f_elect api (Increment e) c1) = (c2, True)"
    using u by (auto simp: UpdateElectionID_def awaitTimeout_def split: prod.splits if_splits)
  from update_highest(1) [OF assms(1) this] have "cur c2 = Increment e" using i e(1) by simp
  then show ?thesis using i e(2) by (simp add: cl')
qed

text \<open>A device that answers every update at once, for the witness.\<close>

definition prompt_device :: "Uint128 fluent_api" where
  "prompt_device = \<lparr>f_start = \<lambda>_ _ e c. if u128 c < u128 e then e else c, f_stop = id, f_add = \<lambda>_ c. c, f_delete = \<lambda>_ c. c,
     f_elect = \<lambda>e c. if u128 c < u128 e then e else c, f_await = \<lambda>c. (c, True),
     f_results = \<lambda>c. [\<lparr>ServerError = [], ClientError = [], ProgrammingResult = UNSET, Details = None, CurrentServerElectionID = Some c\<rparr>],
     f_flush = \<lambda>_ c. (c, True), f_hasResult = \<lambda>rs r. r \<in> set rs, f_hasResultsCache = \<lambda>rs ws. set ws \<subseteq> set rs\<rparr>"

theorem Client_BecomeLeader_leads_witness:
  "\<exists>cl'. Client_BecomeLeader prompt_device \<lparr>FIBACK = True, Persistence = True, fluentC = Some \<lparr>Low = 2 ^ 64 - 1, High = 4\<rparr>,
     electionID = \<lparr>Low = 1, High = 0\<rparr>\<rparr> = Inr cl' \<and> electionID cl' = \<lparr>Low = 0, High = 5\<rparr>"
proof -
  let ?cl = "\<lparr>FIBACK = True, Persistence = True, fluentC = Some \<lparr>Low = 2 ^ 64 - 1, High = 4\<rparr>, electionID = \<lparr>Low = 1, High = 0\<rparr>\<rparr>"
  have k: "keeps_highest prompt_device id" by (simp add: keeps_highest_def prompt_device_def)
  obtain cl' where r: "Client_BecomeLeader prompt_device ?cl = Inr cl'"
    by (simp add: Client_BecomeLeader_def BecomeLeader_def LearnElectionID_def UpdateElectionID_def awaitTimeout_def
        prompt_device_def Let_def)
  have "u128 (electionID cl') = max (u128 \<lparr>Low = 2 ^ 64 - 1, High = 4\<rparr>) 1 + 1"
    using Client_BecomeLeader_leads [OF k _ r] by (simp add: u128_def)
  also have "\<dots> = u128 \<lparr>Low = 0, High = 5\<rparr>" by (simp add: u128_def)
  finally show ?thesis using r by (simp add: u128_inject)
qed


section \<open>Modify operations check what they sent\<close>

locale checked_modify =
  fixes api :: "'c fluent_api" and send :: "'c \<Rightarrow> 'c" and wants :: "OpResult list"
    and op :: "'c Client \<Rightarrow> (gribi_fatal, 'c Client) res"
  assumes op_eq: "op cl =
    on_fluent (\<lambda>c. let (c, ok) = awaitTimeout api (send c) in
                   if ok then check_results api wants c else Inl AwaitError) cl"
begin

lemma check_results_Inr: "check_results api rs c = Inr c' \<longleftrightarrow> c' = c \<and> (\<forall>r \<in> set rs. f_hasResult api (f_results api c) r)"
  by (induction rs) auto

lemma op_Inr_iff:
  "op cl = Inr cl' \<longleftrightarrow>
     (\<exists>c c'. fluentC cl = Some c \<and> awaitTimeout api (send c) = (c', True)
        \<and> (\<forall>r \<in> set wants. f_hasResult api (f_results api c') r) \<and> cl' = cl\<lparr>fluentC := Some c'\<rparr>)"
proof (cases "fluentC cl")
  case (Some c)
  obtain c' ok where a: "awaitTimeout api (send c) = (c', ok)" by fastforce
  show ?thesis
  proof (cases "check_results api wants c'")
    case (Inr d)
    then show ?thesis
      using Some a check_results_Inr [of wants c' d] by (auto simp: op_eq on_fluent_def)
  next
    case (Inl e)
    then show ?thesis
      using Some a check_results_Inr [of wants c' c'] by (auto simp: op_eq on_fluent_def)
  qed
qed (simp add: op_eq on_fluent_def)

end

interpretation add_v4: checked_modify api "f_add api [IPv4 (ip_route prefix nhgIndex instance nhgInstance)]"
  "[opResult ((opDetails Add)\<lparr>IPv4Prefix := prefix\<rparr>) expectedResult]"
  "AddIPv4 api prefix nhgIndex instance nhgInstance expectedResult"
  for api :: "'c fluent_api" and prefix nhgIndex "instance" nhgInstance expectedResult
  by unfold_locales (simp add: AddIPv4_def)

interpretation add_v6: checked_modify api "f_add api [IPv6 (ip_route prefix nhgIndex instance nhgInstance)]"
  "[opResult ((opDetails Add)\<lparr>IPv6Prefix := prefix\<rparr>) expectedResult]"
  "AddIPv6 api prefix nhgIndex instance nhgInstance expectedResult"
  for api :: "'c fluent_api" and prefix nhgIndex "instance" nhgInstance expectedResult
  by unfold_locales (simp add: AddIPv6_def)

interpretation delete_v4: checked_modify api "f_delete api [IPv4 (IPEntry instance prefix)]"
  "[opResult ((opDetails Delete)\<lparr>IPv4Prefix := prefix\<rparr>) expectedResult]" "DeleteIPv4 api prefix instance expectedResult"
  for api :: "'c fluent_api" and prefix "instance" expectedResult
  by unfold_locales (simp add: DeleteIPv4_def)

interpretation delete_v6: checked_modify api "f_delete api [IPv6 (IPEntry instance prefix)]"
  "[opResult ((opDetails Delete)\<lparr>IPv6Prefix := prefix\<rparr>) expectedResult]" "DeleteIPv6 api prefix instance expectedResult"
  for api :: "'c fluent_api" and prefix "instance" expectedResult
  by unfold_locales (simp add: DeleteIPv6_def)

interpretation delete_entries: checked_modify api "f_delete api entries" wants "DeleteEntries api entries wants"
  for api :: "'c fluent_api" and entries wants
  by unfold_locales (simp add: DeleteEntries_def)

lemma AddEntries_checked:
  assumes "wants \<noteq> []"
  shows "checked_modify api (f_add api entries) wants (AddEntries api entries wants)"
  using assms by unfold_locales (simp add: AddEntries_def Let_def)

text \<open>Adding and then deleting a route succeeds exactly when the device answers both requests in time
  with the expected result for the prefix; \<^verbatim>\<open>AddEntries\<close> without expected results neither waits nor checks,
  so it fails only before the client is started.\<close>

theorem modify_ops_checked:
  "(\<exists>cl'. bind_res (AddIPv4 api p n ni nhgNI st cl) (DeleteIPv4 api p ni st') = Inr cl') \<longleftrightarrow>
     (\<exists>c c1 c2. fluentC cl = Some c
        \<and> awaitTimeout api (f_add api [IPv4 (ip_route p n ni nhgNI)] c) = (c1, True)
        \<and> f_hasResult api (f_results api c1) (opResult ((opDetails Add)\<lparr>IPv4Prefix := p\<rparr>) st)
        \<and> awaitTimeout api (f_delete api [IPv4 (IPEntry ni p)] c1) = (c2, True)
        \<and> f_hasResult api (f_results api c2) (opResult ((opDetails Delete)\<lparr>IPv4Prefix := p\<rparr>) st'))
   \<and> AddEntries api es [] cl = (case fluentC cl of None \<Rightarrow> Inl NotStarted | Some c \<Rightarrow> Inr (cl\<lparr>fluentC := Some (f_add api es c)\<rparr>))"
  by (auto simp: bind_res_Inr_iff add_v4.op_Inr_iff delete_v4.op_Inr_iff AddEntries_def on_fluent_def Let_def split: option.split)


section \<open>Next hops\<close>

lemma apply_opts_last:
  "apply_opts f (map Some (opts @ [opt])) nh = Some (f opt (fold f opts nh))"
  by (induction opts arbitrary: nh) simp_all

lemma fold_nextNI: "fold (\<lambda>opt nh. nh\<lparr>nh_nextNI := Some (opt_VrfName opt)\<rparr>) opts nh =
    nh\<lparr>nh_nextNI := fold (\<lambda>opt _. Some (opt_VrfName opt)) opts (nh_nextNI nh)\<rparr>"
  by (induction opts arbitrary: nh) simp_all

lemma fold_tunnel:
  "fold (\<lambda>opt nh. nh\<lparr>nh_ipinip := Some (opt_Src opt, opt_Dest opt), nh_nextNI := Some (opt_VrfName opt)\<rparr>) opts nh =
     nh\<lparr>nh_ipinip := fold (\<lambda>opt _. Some (opt_Src opt, opt_Dest opt)) opts (nh_ipinip nh),
        nh_nextNI := fold (\<lambda>opt _. Some (opt_VrfName opt)) opts (nh_nextNI nh)\<rparr>"
  by (induction opts arbitrary: nh) simp_all

text \<open>The address keyword of \<^verbatim>\<open>NHEntry\<close> decides the headers: the outer header is removed for Decap and
  DecapEncap and added for Encap and DecapEncap only; the last option decides the next network
  instance and, when a header is added, the tunnel addresses; any other text is the address of the
  next hop.\<close>

theorem NHEntry_headers:
  assumes "NHEntry i address ni st (map Some (opts @ [opt])) = Some (nh, want)"
    and "address \<in> {''Decap'', ''DecapEncap'', ''Encap'', ''VRFOnly''}"
  shows "nh_index nh = i \<and> nh_ni nh = ni \<and> nh_ip nh = None
    \<and> (nh_decap nh \<longleftrightarrow> address \<in> {''Decap'', ''DecapEncap''})
    \<and> (nh_encap nh \<longleftrightarrow> address \<in> {''Encap'', ''DecapEncap''})
    \<and> nh_nextNI nh = Some (opt_VrfName opt)
    \<and> nh_ipinip nh = (if nh_encap nh then Some (opt_Src opt, opt_Dest opt) else None)
    \<and> Details want = Some ((opDetails Add)\<lparr>NextHopIndex := i\<rparr>)"
proof -
  have "address = ''Decap'' \<or> address = ''DecapEncap'' \<or> address = ''Encap'' \<or> address = ''VRFOnly''" using assms(2) by auto
  then show ?thesis
    using assms(1) unfolding NHEntry_def Let_def apply_opts_last
    by (elim disjE) (auto simp: fold_nextNI fold_tunnel NextHopEntry_def opResult_def)
qed

theorem NHEntry_headers_witness:
  "\<exists>nh want. NHEntry 7 ''DecapEncap'' ''DEFAULT'' FIB_PROGRAMMED [Some \<lparr>opt_Src = ''198.51.100.222'', opt_Dest = ''101.0.0.1'',
      opt_VrfName = ''TE_VRF_222'', opt_Mac = [], opt_Interface = [], opt_SubInterface = 0\<rparr>] = Some (nh, want)
    \<and> nh_decap nh \<and> nh_encap nh \<and> nh_ipinip nh = Some (''198.51.100.222'', ''101.0.0.1'')"
proof -
  let ?o = "\<lparr>opt_Src = ''198.51.100.222'', opt_Dest = ''101.0.0.1'', opt_VrfName = ''TE_VRF_222'', opt_Mac = [], opt_Interface = [],
    opt_SubInterface = 0\<rparr>"
  obtain nh want where r: "NHEntry 7 ''DecapEncap'' ''DEFAULT'' FIB_PROGRAMMED (map Some ([] @ [?o])) = Some (nh, want)"
    by (simp add: NHEntry_def)
  from NHEntry_headers [OF this] r show ?thesis by auto
qed

end
