(* ===== verification/Tescale.thy ===== *)
theory Tescale
  imports Iputil Gribi "HOL-Library.Signed_Division"
begin

text \<open>
  \<^verbatim>\<open>internal/tescale/scale.go\<close>: pools of identifiers and addresses, and \<^verbatim>\<open>BuildVRFConfig\<close>, which builds
  the gRIBI entries of a traffic-engineering scale test.

  The entries are those of \<open>Gribi\<close>; the IPv4 entries made here set all four fields of \<open>v4_entry\<close>. An out-of-range index and a division by zero are run-time panics: the result \<open>None\<close>. All next
  hops and groups go to the default network instance; the identifiers are 64-bit and would wrap. The
  counts of \<^verbatim>\<open>Param\<close> are Go \<^verbatim>\<open>int\<close>s read as integers: they are a few thousand, and their products do not
  overflow. The addresses come from the model of \<^verbatim>\<open>internal/iputil\<close>.

  The locale \<open>id_supply\<close> is the contract of the two identifier counters; \<open>refs_ok\<close> is the invariant of
  a configuration: identifiers unique, every reference defined.
\<close>

section \<open>Pools\<close>

record IPPool =
  ips :: "string list"
  ip_index :: int

definition NewIPPool :: "string list \<Rightarrow> IPPool" where
  "NewIPPool entries = \<lparr>ips = entries, ip_index = -1\<rparr>"

definition NextIP :: "IPPool \<Rightarrow> (IPPool \<times> string) option" where
  "NextIP p =
     (let i = ip_index p + 1 in
      if 0 \<le> i \<and> i < int (length (ips p)) then Some (p\<lparr>ip_index := i\<rparr>, ips p ! nat i) else None)"

definition AllIPs :: "IPPool \<Rightarrow> string list" where
  "AllIPs p = ips p"

record IDPool =
  nhIndex :: "64 word"
  nhgIndex :: "64 word"

definition NewIDPool :: "64 word \<Rightarrow> IDPool" where
  "NewIDPool base = \<lparr>nhIndex = base, nhgIndex = base\<rparr>"

definition NextNHID :: "IDPool \<Rightarrow> IDPool \<times> 64 word" where
  "NextNHID p = (let n = nhIndex p + 1 in (p\<lparr>nhIndex := n\<rparr>, n))"

definition NextNHGID :: "IDPool \<Rightarrow> IDPool \<times> 64 word" where
  "NextNHGID p = (let n = nhgIndex p + 1 in (p\<lparr>nhgIndex := n\<rparr>, n))"


section \<open>Entries\<close>

record v4_entry =
  v4_prefix :: string
  v4_nhg :: "64 word"
  v4_ni :: string
  v4_nhg_ni :: string

record VRFConfig =
  cfg_Name :: string
  NHs :: "nh_entry list"
  NHGs :: "nhg_entry list"
  V4Entries :: "v4_entry list"

record Param =
  V4TunnelCount :: int
  V4TunnelNHGCount :: int
  V4TunnelNHGSplitCount :: int
  EgressNHGSplitCount :: int
  V4ReEncapNHGCount :: int

definition IPv4Entry :: "string \<Rightarrow> 64 word \<Rightarrow> string \<Rightarrow> string \<Rightarrow> v4_entry" where
  "IPv4Entry ip nhg ni nhgNI = \<lparr>v4_prefix = ip @ ''/32'', v4_nhg = nhg, v4_ni = ni, v4_nhg_ni = nhgNI\<rparr>"

definition VRFT :: string where "VRFT = ''vrf_t''"
definition VRFR :: string where "VRFR = ''vrf_r''"
definition VRFRD :: string where "VRFRD = ''vrf_rd''"
definition V4TunnelIPBlock :: string where "V4TunnelIPBlock = ''198.18.0.1/16''"
definition V4VIPIPBlock :: string where "V4VIPIPBlock = ''198.18.196.1/22''"
definition tunnelSrcIP :: string where "tunnelSrcIP = ''198.18.204.1''"


section \<open>Building the configuration\<close>

text \<open>The identifiers and the next hops and groups of the default instance.\<close>

record build =
  idPool :: IDPool
  dNHs :: "nh_entry list"
  dNHGs :: "nhg_entry list"

definition newNH :: "(64 word \<Rightarrow> nh_entry) \<Rightarrow> build \<Rightarrow> build \<times> 64 word" where
  "newNH mk b = (let (p, i) = NextNHID (idPool b) in (b\<lparr>idPool := p, dNHs := dNHs b @ [mk i]\<rparr>, i))"

definition newNHGID :: "build \<Rightarrow> build \<times> 64 word" where
  "newNHGID b = (let (p, i) = NextNHGID (idPool b) in (b\<lparr>idPool := p\<rparr>, i))"

definition addNHG :: "nhg_entry \<Rightarrow> build \<Rightarrow> build" where
  "addNHG g b = b\<lparr>dNHGs := dNHGs b @ [g]\<rparr>"

text \<open>One next hop per address, each linked to the group.\<close>

fun add_hops :: "string \<Rightarrow> string list \<Rightarrow> nhg_entry \<Rightarrow> build \<Rightarrow> nhg_entry \<times> build" where
  "add_hops ni [] g b = (g, b)"
| "add_hops ni (vip # vips) g b =
     (let (b, i) = newNH (\<lambda>i. (NextHopEntry i ni)\<lparr>nh_ip := Some vip\<rparr>) b in
      add_hops ni vips (AddNextHop i 1 g) b)"

text \<open>\<open>n\<close> calls of \<^verbatim>\<open>NextIP\<close>.\<close>

fun next_ips :: "nat \<Rightarrow> IPPool \<Rightarrow> (IPPool \<times> string list) option" where
  "next_ips 0 p = Some (p, [])"
| "next_ips (Suc n) p =
     (case NextIP p of
        None \<Rightarrow> None
      | Some (p, ip) \<Rightarrow> map_option (\<lambda>(p, l). (p, ip # l)) (next_ips n p))"

text \<open>The loops of VRF_T and of VRF_RD: a new group every \<open>ratio\<close> tunnels.\<close>

fun tunnel_loop ::
  "string \<Rightarrow> string \<Rightarrow> int \<Rightarrow> nat \<Rightarrow> 64 word \<Rightarrow> int \<Rightarrow> string list \<Rightarrow> 64 word \<Rightarrow> IPPool \<Rightarrow> build \<Rightarrow>
     (64 word \<times> build \<times> v4_entry list) option" where
  "tunnel_loop ni vrf ratio split backup idx [] nhgID vips b = Some (nhgID, b, [])"
| "tunnel_loop ni vrf ratio split backup idx (ip # rest) nhgID vips b =
     (if ratio = 0 then None
      else if idx smod ratio = 0 then
        (case next_ips split vips of
           None \<Rightarrow> None
         | Some (vips, hops) \<Rightarrow>
             (let (b, nhgID) = newNHGID b;
                  (g, b) = add_hops ni hops ((NextHopGroupEntry nhgID ni)\<lparr>nhg_backup := Some backup\<rparr>) b;
                  b = addNHG g b in
              map_option (\<lambda>(l, b, es). (l, b, IPv4Entry ip nhgID vrf ni # es))
                (tunnel_loop ni vrf ratio split backup (idx + 1) rest nhgID vips b)))
      else map_option (\<lambda>(l, b, es). (l, b, IPv4Entry ip nhgID vrf ni # es))
             (tunnel_loop ni vrf ratio split backup (idx + 1) rest nhgID vips b))"

text \<open>The loop of the default instance: one group per VIP, with the first egress addresses.\<close>

fun vip_loop :: "string \<Rightarrow> string list \<Rightarrow> nat \<Rightarrow> string list \<Rightarrow> build \<Rightarrow> (build \<times> v4_entry list) option" where
  "vip_loop ni egress split [] b = Some (b, [])"
| "vip_loop ni egress split (ip # rest) b =
     (if length egress < split then None
      else let (b, nhgID) = newNHGID b;
               (g, b) = add_hops ni (take split egress) (NextHopGroupEntry nhgID ni) b;
               b = addNHG g b in
           map_option (\<lambda>(b, es). (b, IPv4Entry ip nhgID ni ni # es)) (vip_loop ni egress split rest b))"

text \<open>The loop of VRF_R: a next hop per tunnel, which re-encapsulates towards the following tunnel
  address; the current group is closed every \<open>ratio\<close> tunnels.\<close>

fun reencap_loop ::
  "string \<Rightarrow> int \<Rightarrow> 64 word \<Rightarrow> string list \<Rightarrow> nat \<Rightarrow> string list \<Rightarrow> nhg_entry \<Rightarrow> build \<Rightarrow>
     (nhg_entry \<times> build \<times> v4_entry list) option" where
  "reencap_loop ni ratio decap all idx [] g b = Some (g, b, [])"
| "reencap_loop ni ratio decap all idx (ip # rest) g b =
     (let (b, i) = newNH (\<lambda>i. (NextHopEntry i ni)\<lparr>nh_decap := True, nh_encap := True,
                         nh_ipinip := Some (tunnelSrcIP, all ! ((idx + 1) mod length all))\<rparr>) b in
      if idx \<noteq> 0 \<and> ratio = 0 then None
      else let (g, b) =
            (if idx \<noteq> 0 \<and> int idx smod ratio = 0 then
               (let b = addNHG g b; (b, nhgID) = newNHGID b in
                ((NextHopGroupEntry nhgID ni)\<lparr>nhg_backup := Some decap\<rparr>, b))
             else (g, b));
          g = AddNextHop i 1 g in
      map_option (\<lambda>(l, b, es). (l, b, IPv4Entry ip (nhg_id g) VRFR ni # es))
        (reencap_loop ni ratio decap all (Suc idx) rest g b))"

definition BuildVRFConfig :: "string \<Rightarrow> string list \<Rightarrow> Param \<Rightarrow> VRFConfig list option" where
  "BuildVRFConfig defaultVRF egressIPs param =
     (let tunnels = GenerateIPs V4TunnelIPBlock (V4TunnelCount param);
          nvips = V4TunnelNHGCount param * V4TunnelNHGSplitCount param + 2;
          vips = GenerateIPs V4VIPIPBlock nvips;
          split = nat (V4TunnelNHGSplitCount param);
          b = \<lparr>idPool = NewIDPool 10000, dNHs = [], dNHGs = []\<rparr>;
          (b, redirect) = newNHGID b;
          (b, nh) = newNH (\<lambda>i. (NextHopEntry i defaultVRF)\<lparr>nh_nextNI := Some VRFR\<rparr>) b;
          b = addNHG (AddNextHop nh 1 (NextHopGroupEntry redirect defaultVRF)) b in
      if V4TunnelNHGCount param = 0 then None
      else let ratio = V4TunnelCount param sdiv V4TunnelNHGCount param in
      case tunnel_loop defaultVRF VRFT ratio split redirect 0 tunnels redirect (NewIPPool vips) b of
        None \<Rightarrow> None
      | Some (nhgID, b, tEntries) \<Rightarrow>
      (case vip_loop defaultVRF egressIPs (nat (EgressNHGSplitCount param)) vips b of
        None \<Rightarrow> None
      | Some (b, dEntries) \<Rightarrow>
      (let (b, nh) = newNH (\<lambda>i. (NextHopEntry i defaultVRF)\<lparr>nh_decap := True, nh_nextNI := Some defaultVRF\<rparr>) b;
           (b, decap) = newNHGID b;
           b = addNHG (AddNextHop nh 1 (NextHopGroupEntry decap defaultVRF)) b in
       if V4ReEncapNHGCount param = 0 then None
       else let reRatio = V4TunnelCount param sdiv V4ReEncapNHGCount param;
                (b, rID) = newNHGID b in
       case reencap_loop defaultVRF reRatio decap tunnels 0 tunnels
              ((NextHopGroupEntry rID defaultVRF)\<lparr>nhg_backup := Some decap\<rparr>) b of
         None \<Rightarrow> None
       | Some (g, b, rEntries) \<Rightarrow>
       (let b = addNHG g b in
        case tunnel_loop defaultVRF VRFRD ratio split redirect 0 tunnels (nhg_id g) (NewIPPool vips) b of
          None \<Rightarrow> None
        | Some (nhgID, b, rdEntries) \<Rightarrow>
            Some [\<lparr>cfg_Name = defaultVRF, NHs = dNHs b, NHGs = dNHGs b, V4Entries = dEntries\<rparr>,
                  \<lparr>cfg_Name = VRFT, NHs = [], NHGs = [], V4Entries = tEntries\<rparr>,
                  \<lparr>cfg_Name = VRFR, NHs = [], NHGs = [], V4Entries = rEntries\<rparr>,
                  \<lparr>cfg_Name = VRFRD, NHs = [], NHGs = [], V4Entries = rdEntries\<rparr>]))))"



section \<open>Identifiers are fresh and references are defined\<close>

locale id_supply =
  fixes draw :: "'p \<Rightarrow> 'p \<times> 64 word" and cur :: "'p \<Rightarrow> 64 word"
  assumes draw_id: "snd (draw p) = cur p + 1" and draw_cur: "cur (fst (draw p)) = cur p + 1"
begin

primrec draws :: "nat \<Rightarrow> 'p \<Rightarrow> 64 word list" where
  "draws 0 p = []"
| "draws (Suc n) p = snd (draw p) # draws n (fst (draw p))"

lemma draws_eq: "draws n p = map (\<lambda>k. cur p + of_nat (Suc k)) [0..<n]"
proof (induction n arbitrary: p)
  case (Suc n)
  have "draws (Suc n) p = (cur p + 1) # map (\<lambda>k. cur p + 1 + of_nat (Suc k)) [0..<n]"
    by (simp add: Suc draw_id draw_cur)
  also have "\<dots> = map (\<lambda>k. cur p + of_nat (Suc k)) (0 # map Suc [0..<n])"
    by (simp add: comp_def algebra_simps)
  also have "0 # map Suc [0..<n] = [0..<Suc n]" by (simp add: map_Suc_upt upt_conv_Cons del: upt_Suc)
  finally show ?case .
qed simp

lemma distinct_draws: "n < 2 ^ 64 \<Longrightarrow> distinct (draws n p)"
proof -
  assume "n < 2 ^ 64"
  then have "inj_on (\<lambda>k. cur p + of_nat (Suc k)) {0..<n}"
    by (intro inj_onI) (auto simp: word_of_nat_eq_iff take_bit_nat_eq_self simp del: of_nat_Suc)
  then show "distinct (draws n p)" by (simp add: draws_eq distinct_map)
qed

end

interpretation nh_ids: id_supply NextNHID nhIndex
  by unfold_locales (simp_all add: NextNHID_def Let_def)

interpretation nhg_ids: id_supply NextNHGID nhgIndex
  by unfold_locales (simp_all add: NextNHGID_def Let_def)

definition nh_of :: "build \<Rightarrow> 64 word set" where
  "nh_of b = nh_index ` set (dNHs b)"

definition nhg_of :: "build \<Rightarrow> nhg_entry list \<Rightarrow> 64 word set" where
  "nhg_of b pend = nhg_id ` set (dNHGs b @ pend)"

definition group_ok :: "64 word set \<Rightarrow> 64 word set \<Rightarrow> nhg_entry \<Rightarrow> bool" where
  "group_ok N G g \<longleftrightarrow> fst ` set (nhg_hops g) \<subseteq> N \<and> set_option (nhg_backup g) \<subseteq> G"

text \<open>\<open>pend\<close> is the group that has an identifier and is not yet in the list, if any. The identifiers
  drawn so far are those of the entries, in order.\<close>

definition b_ok :: "build \<Rightarrow> nhg_entry list \<Rightarrow> bool" where
  "b_ok b pend \<longleftrightarrow>
     map nh_index (dNHs b) = nh_ids.draws (length (dNHs b)) (NewIDPool 10000)
     \<and> nhIndex (idPool b) = 10000 + of_nat (length (dNHs b))
     \<and> map nhg_id (dNHGs b @ pend) = nhg_ids.draws (length (dNHGs b @ pend)) (NewIDPool 10000)
     \<and> nhgIndex (idPool b) = 10000 + of_nat (length (dNHGs b @ pend))
     \<and> (\<forall>g \<in> set (dNHGs b @ pend). group_ok (nh_of b) (nhg_of b pend) g)"

lemma draws_snoc:
  "nh_ids.draws (Suc n) (NewIDPool 10000) = nh_ids.draws n (NewIDPool 10000) @ [10000 + of_nat (Suc n)]"
  "nhg_ids.draws (Suc n) (NewIDPool 10000) = nhg_ids.draws n (NewIDPool 10000) @ [10000 + of_nat (Suc n)]"
  by (simp_all add: nh_ids.draws_eq nhg_ids.draws_eq NewIDPool_def)

lemma group_ok_mono: "group_ok N G g \<Longrightarrow> N \<subseteq> N' \<Longrightarrow> G \<subseteq> G' \<Longrightarrow> group_ok N' G' g"
  by (auto simp: group_ok_def)

lemma b_ok_group: "b_ok b pend \<Longrightarrow> g \<in> set (dNHGs b @ pend) \<Longrightarrow> group_ok (nh_of b) (nhg_of b pend) g"
  by (simp add: b_ok_def)

lemma newNH_ok:
  assumes "b_ok b pend" and "newNH mk b = (b', i)" and "\<And>i. nh_index (mk i) = i"
  shows "b_ok b' pend \<and> i \<in> nh_of b' \<and> dNHGs b' = dNHGs b \<and> nh_of b \<subseteq> nh_of b'"
proof -
  have i: "i = 10000 + of_nat (Suc (length (dNHs b)))"
    and b': "b' = b\<lparr>idPool := (idPool b)\<lparr>nhIndex := i\<rparr>, dNHs := dNHs b @ [mk i]\<rparr>"
    using assms(1,2) by (auto simp: newNH_def NextNHID_def b_ok_def Let_def)
  have sub: "nh_of b \<subseteq> nh_of b'" "i \<in> nh_of b'" "nhg_of b' pend = nhg_of b pend"
    using b' assms(3) by (auto simp: nh_of_def nhg_of_def)
  have "map nh_index (dNHs b') = nh_ids.draws (length (dNHs b')) (NewIDPool 10000)"
    using assms(1,3) by (simp add: b_ok_def b' draws_snoc i del: nh_ids.draws.simps)
  moreover have "group_ok (nh_of b') (nhg_of b' pend) g" if "g \<in> set (dNHGs b' @ pend)" for g
  proof -
    have "g \<in> set (dNHGs b @ pend)" using that b' by simp
    from group_ok_mono [OF b_ok_group [OF assms(1) this] sub(1) order_refl] show ?thesis using sub(3) by simp
  qed
  moreover have "nhIndex (idPool b') = 10000 + of_nat (length (dNHs b'))" by (simp add: b' i)
  ultimately have "b_ok b' pend" using assms(1) by (simp add: b_ok_def) (simp add: b')
  then show ?thesis using sub b' by simp
qed

lemma newNHGID_ok:
  assumes "b_ok b []" and "newNHGID b = (b', i)" and "nhg_id g = i" "nhg_hops g = []" "set_option (nhg_backup g) \<subseteq> nhg_of b []"
  shows "b_ok b' [g] \<and> dNHGs b' = dNHGs b \<and> nh_of b' = nh_of b"
proof -
  have i: "i = 10000 + of_nat (Suc (length (dNHGs b)))" and b': "b' = b\<lparr>idPool := (idPool b)\<lparr>nhgIndex := i\<rparr>\<rparr>"
    using assms(1,2) by (auto simp: newNHGID_def NextNHGID_def b_ok_def Let_def)
  have sub: "nhg_of b [] \<subseteq> nhg_of b' [g]" "nh_of b' = nh_of b" using b' by (auto simp: nh_of_def nhg_of_def)
  have "group_ok (nh_of b') (nhg_of b' [g]) h" if "h \<in> set (dNHGs b' @ [g])" for h
  proof (cases "h = g")
    case True then show ?thesis using assms(4,5) sub(1) by (auto simp: group_ok_def)
  next
    case False
    then have "h \<in> set (dNHGs b @ [])" using that b' by simp
    from group_ok_mono [OF b_ok_group [OF assms(1) this] order_refl sub(1)] show ?thesis using sub(2) by simp
  qed
  moreover have "map nhg_id (dNHGs b' @ [g]) = nhg_ids.draws (length (dNHGs b' @ [g])) (NewIDPool 10000)"
    using assms(1,3) by (simp add: b_ok_def draws_snoc b' i del: nhg_ids.draws.simps)
  ultimately show ?thesis using assms(1) sub i b' by (simp add: b_ok_def)
qed

lemma AddNextHop_ok: "b_ok b [g] \<Longrightarrow> i \<in> nh_of b \<Longrightarrow> b_ok b [AddNextHop i 1 g]"
  by (auto simp: b_ok_def AddNextHop_def group_ok_def nhg_of_def)

lemma addNHG_ok: "b_ok b [g] \<Longrightarrow> b_ok (addNHG g b) [] \<and> nhg_of (addNHG g b) [] = nhg_of b [g]"
  by (auto simp: b_ok_def addNHG_def nhg_of_def nh_of_def)

lemma add_hops_ok:
  "b_ok b [g] \<Longrightarrow> add_hops ni l g b = (g', b') \<Longrightarrow>
    b_ok b' [g'] \<and> nhg_id g' = nhg_id g \<and> dNHGs b' = dNHGs b \<and> nh_of b \<subseteq> nh_of b'"
proof (induction ni l g b rule: add_hops.induct)
  case (2 ni vip vips g b)
  obtain b1 i where n: "newNH (\<lambda>i. (NextHopEntry i ni)\<lparr>nh_ip := Some vip\<rparr>) b = (b1, i)" by fastforce
  have o: "b_ok b1 [g]" "i \<in> nh_of b1" "dNHGs b1 = dNHGs b" "nh_of b \<subseteq> nh_of b1"
    using newNH_ok [OF 2(2) n] by (auto simp: NextHopEntry_def)
  with 2(1) [OF n [symmetric] refl] AddNextHop_ok 2(3) n
  have "b_ok b' [g'] \<and> nhg_id g' = nhg_id (AddNextHop i 1 g) \<and> dNHGs b' = dNHGs b1 \<and> nh_of b1 \<subseteq> nh_of b'" by simp
  with o show ?case by (auto simp: AddNextHop_def)
qed simp

lemma new_group_ok:
  assumes "b_ok b []" "set_option backup \<subseteq> nhg_of b []" "newNHGID b = (b1, i)"
    and "add_hops ni l ((NextHopGroupEntry i ni)\<lparr>nhg_backup := backup\<rparr>) b1 = (g, b2)"
  shows "b_ok (addNHG g b2) [] \<and> i \<in> nhg_of (addNHG g b2) [] \<and> nhg_of b [] \<subseteq> nhg_of (addNHG g b2) []"
proof -
  let ?g = "(NextHopGroupEntry i ni)\<lparr>nhg_backup := backup\<rparr>"
  have g: "b_ok b1 [?g]" "dNHGs b1 = dNHGs b"
    using newNHGID_ok [OF assms(1,3), of ?g] assms(2) by (simp_all add: NextHopGroupEntry_def)
  have h: "b_ok b2 [g]" "nhg_id g = i" "dNHGs b2 = dNHGs b"
    using add_hops_ok [OF g(1) assms(4)] g(2) by (simp_all add: NextHopGroupEntry_def)
  then show ?thesis using addNHG_ok [OF h(1)] by (auto simp: nhg_of_def)
qed

lemma tunnel_loop_ok:
  "b_ok b [] \<Longrightarrow> backup \<in> nhg_of b [] \<Longrightarrow> nhgID \<in> nhg_of b [] \<Longrightarrow>
   tunnel_loop ni vrf ratio split backup idx l nhgID vips b = Some (k, b', es) \<Longrightarrow>
     b_ok b' [] \<and> nhg_of b [] \<subseteq> nhg_of b' [] \<and> v4_nhg ` set es \<subseteq> nhg_of b' []
     \<and> map v4_prefix es = map (\<lambda>ip. ip @ ''/32'') l"
proof (induction l arbitrary: idx nhgID vips b k b' es)
  case (Cons ip l)
  show ?case
  proof (cases "idx smod ratio = 0")
    case True
    with Cons.prems(4) obtain vips1 hops b1 i g b2 es' where n: "newNHGID b = (b1, i)"
      "add_hops ni hops ((NextHopGroupEntry i ni)\<lparr>nhg_backup := Some backup\<rparr>) b1 = (g, b2)"
      and r: "tunnel_loop ni vrf ratio split backup (idx + 1) l i vips1 (addNHG g b2) = Some (k, b', es')"
      and es: "es = IPv4Entry ip i vrf ni # es'"
      by (auto split: if_splits option.splits prod.splits simp: Let_def)
    have o: "b_ok (addNHG g b2) []" "i \<in> nhg_of (addNHG g b2) []" "nhg_of b [] \<subseteq> nhg_of (addNHG g b2) []"
      using new_group_ok [OF Cons.prems(1) _ n] Cons.prems(2) by simp_all
    from Cons.IH [OF o(1) _ o(2) r] Cons.prems(2) o(2,3) show ?thesis by (auto simp: es IPv4Entry_def)
  next
    case False
    with Cons.prems(4) obtain es' where
      r: "tunnel_loop ni vrf ratio split backup (idx + 1) l nhgID vips b = Some (k, b', es')"
      and es: "es = IPv4Entry ip nhgID vrf ni # es'"
      by (auto split: if_splits)
    from Cons.IH [OF Cons.prems(1-3) r] Cons.prems(3) show ?thesis by (auto simp: es IPv4Entry_def)
  qed
qed simp

lemma vip_loop_ok:
  "b_ok b [] \<Longrightarrow> vip_loop ni egress split l b = Some (b', es) \<Longrightarrow>
     b_ok b' [] \<and> nhg_of b [] \<subseteq> nhg_of b' [] \<and> v4_nhg ` set es \<subseteq> nhg_of b' []
     \<and> map v4_prefix es = map (\<lambda>ip. ip @ ''/32'') l"
proof (induction l arbitrary: b b' es)
  case (Cons ip l)
  from Cons.prems(2) obtain b1 i g b2 es' where n: "newNHGID b = (b1, i)"
    "add_hops ni (take split egress) ((NextHopGroupEntry i ni)\<lparr>nhg_backup := None\<rparr>) b1 = (g, b2)"
    and r: "vip_loop ni egress split l (addNHG g b2) = Some (b', es')"
    and es: "es = IPv4Entry ip i ni ni # es'"
    by (auto split: if_splits prod.splits simp: Let_def NextHopGroupEntry_def)
  have o: "b_ok (addNHG g b2) []" "i \<in> nhg_of (addNHG g b2) []" "nhg_of b [] \<subseteq> nhg_of (addNHG g b2) []"
    using new_group_ok [OF Cons.prems(1) _ n] by simp_all
  from Cons.IH [OF o(1) r] o(2,3) show ?case by (auto simp: es IPv4Entry_def)
qed simp

lemma reencap_loop_ok:
  "b_ok b [g] \<Longrightarrow> decap \<in> nhg_of b [] \<Longrightarrow>
   reencap_loop ni ratio decap all idx l g b = Some (g', b', es) \<Longrightarrow>
     b_ok b' [g'] \<and> nhg_of b [g] \<subseteq> nhg_of b' [g'] \<and> v4_nhg ` set es \<subseteq> nhg_of b' [g']
     \<and> map v4_prefix es = map (\<lambda>ip. ip @ ''/32'') l"
proof (induction l arbitrary: idx g b g' b' es)
  case (Cons ip l)
  let ?mk = "\<lambda>i. (NextHopEntry i ni)\<lparr>nh_decap := True, nh_encap := True,
                  nh_ipinip := Some (tunnelSrcIP, all ! ((idx + 1) mod length all))\<rparr>"
  obtain b1 i where n: "newNH ?mk b = (b1, i)" by fastforce
  have o: "b_ok b1 [g]" "i \<in> nh_of b1" "dNHGs b1 = dNHGs b"
    using newNH_ok [OF Cons.prems(1) n] by (simp_all add: NextHopEntry_def)
  show ?case
  proof (cases "idx \<noteq> 0 \<and> int idx smod ratio = 0")
    case True
    obtain b2 j where m: "newNHGID (addNHG g b1) = (b2, j)" by fastforce
    let ?g = "(NextHopGroupEntry j ni)\<lparr>nhg_backup := Some decap\<rparr>"
    from Cons.prems(3) True n m obtain es' where
      r: "reencap_loop ni ratio decap all (Suc idx) l (AddNextHop i 1 ?g) b2 = Some (g', b', es')"
      and es: "es = IPv4Entry ip j VRFR ni # es'"
      by (auto split: if_splits simp: Let_def AddNextHop_def NextHopGroupEntry_def)
    have a: "b_ok (addNHG g b1) []" "nhg_of (addNHG g b1) [] = nhg_of b [g]"
      using addNHG_ok [OF o(1)] o(3) by (simp_all add: nhg_of_def)
    have d: "decap \<in> nhg_of b [g]" using Cons.prems(2) by (auto simp: nhg_of_def)
    have c: "b_ok b2 [?g]" "dNHGs b2 = dNHGs (addNHG g b1)" "nh_of b2 = nh_of (addNHG g b1)"
      using newNHGID_ok [OF a(1) m, of ?g] d a(2) by (simp_all add: NextHopGroupEntry_def)
    have i: "i \<in> nh_of b2" using o(2) c(3) by (simp add: addNHG_def nh_of_def)
    have w: "nhg_of b2 [AddNextHop i 1 ?g] = insert j (nhg_of b [g])"
      using c(2) a(2) by (auto simp: nhg_of_def AddNextHop_def NextHopGroupEntry_def)
    have "decap \<in> nhg_of b2 []" using c(2) a(2) d by (simp add: nhg_of_def)
    from Cons.IH [OF AddNextHop_ok [OF c(1) i] this r] w show ?thesis by (auto simp: es IPv4Entry_def)
  next
    case False
    from Cons.prems(3) False n obtain es' where
      r: "reencap_loop ni ratio decap all (Suc idx) l (AddNextHop i 1 g) b1 = Some (g', b', es')"
      and es: "es = IPv4Entry ip (nhg_id g) VRFR ni # es'"
      by (auto split: if_splits simp: Let_def AddNextHop_def)
    have w: "nhg_of b1 [AddNextHop i 1 g] = nhg_of b [g]" "nhg_id g \<in> nhg_of b [g]" "nhg_of b1 [] = nhg_of b []"
      using o(3) by (auto simp: nhg_of_def AddNextHop_def)
    from Cons.IH [OF AddNextHop_ok [OF o(1,2)] _ r] w Cons.prems(2) show ?thesis by (auto simp: es IPv4Entry_def)
  qed
qed simp

text \<open>What a device needs of the entries: identifiers consecutive from 10001, every next hop and backup
  of a group defined, and every group of an IPv4 entry of \<open>cfgs\<close> defined.\<close>

definition refs_ok :: "VRFConfig \<Rightarrow> VRFConfig list \<Rightarrow> bool" where
  "refs_ok d cfgs \<longleftrightarrow>
     map nh_index (NHs d) = map (\<lambda>k. 10001 + of_nat k) [0..<length (NHs d)]
     \<and> map nhg_id (NHGs d) = map (\<lambda>k. 10001 + of_nat k) [0..<length (NHGs d)]
     \<and> list_all (group_ok (nh_index ` set (NHs d)) (nhg_id ` set (NHGs d))) (NHGs d)
     \<and> list_all (\<lambda>c. list_all (\<lambda>e. v4_nhg e \<in> nhg_id ` set (NHGs d)) (V4Entries c)) cfgs"

lemma b_ok_refs:
  assumes "b_ok b []" and "\<And>c. c \<in> set cfgs \<Longrightarrow> v4_nhg ` set (V4Entries c) \<subseteq> nhg_of b []"
    and "NHs d = dNHs b" "NHGs d = dNHGs b"
  shows "refs_ok d cfgs"
proof -
  have "map nh_index (dNHs b) = map (\<lambda>k. 10001 + of_nat k) [0..<length (dNHs b)]"
    using assms(1) by (simp add: b_ok_def nh_ids.draws_eq NewIDPool_def add.assoc [symmetric])
  moreover have "map nhg_id (dNHGs b) = map (\<lambda>k. 10001 + of_nat k) [0..<length (dNHGs b)]"
    using assms(1) by (simp add: b_ok_def nhg_ids.draws_eq NewIDPool_def add.assoc [symmetric])
  moreover have "list_all (group_ok (nh_index ` set (dNHs b)) (nhg_id ` set (dNHGs b))) (dNHGs b)"
    using assms(1) by (simp add: b_ok_def list_all_iff nh_of_def nhg_of_def)
  moreover have "v4_nhg e \<in> nhg_id ` set (dNHGs b)" if "c \<in> set cfgs" "e \<in> set (V4Entries c)" for c e
    using assms(2) [OF that(1)] that(2) by (auto simp: nhg_of_def)
  ultimately show ?thesis
    using assms(3,4) by (simp add: refs_ok_def list_all_iff)
qed

lemma single_hop_ok:
  assumes "b_ok b []" "newNHGID b = (b1, i)" "newNH mk b1 = (b2, n)" "\<And>i. nh_index (mk i) = i"
  shows "b_ok (addNHG (AddNextHop n 1 (NextHopGroupEntry i ni)) b2) []
    \<and> i \<in> nhg_of (addNHG (AddNextHop n 1 (NextHopGroupEntry i ni)) b2) []
    \<and> nhg_of b [] \<subseteq> nhg_of (addNHG (AddNextHop n 1 (NextHopGroupEntry i ni)) b2) []"
proof -
  let ?g = "NextHopGroupEntry i ni"
  have "b_ok b1 [?g]" "dNHGs b1 = dNHGs b"
    using newNHGID_ok [OF assms(1,2), of ?g] by (simp_all add: NextHopGroupEntry_def)
  with newNH_ok [OF _ assms(3,4)] have h: "b_ok b2 [?g]" "n \<in> nh_of b2" "dNHGs b2 = dNHGs b" by auto
  from addNHG_ok [OF AddNextHop_ok [OF h(1,2)]] h(3) show ?thesis
    by (auto simp: nhg_of_def AddNextHop_def NextHopGroupEntry_def)
qed

lemma hop_then_group: "newNH mk b = (b1, n) \<Longrightarrow> newNHGID b1 = (b2, i) \<Longrightarrow>
    \<exists>b'. newNHGID b = (b', i) \<and> newNH mk b' = (b2, n)"
  by (auto simp: newNH_def newNHGID_def NextNHID_def NextNHGID_def Let_def)

text \<open>The four configurations of a run that returns, with the loops they come from.\<close>

lemma BuildVRFConfig_cases:
  assumes "BuildVRFConfig vrf egress p = Some cfgs"
  obtains b b0 b1 b2 b3 b4 b5 b6 b7 redirect nh nhgID tes des nh2 decap rID g k res rdes tunnels vips ratio reRatio split where
    "tunnels = GenerateIPs V4TunnelIPBlock (V4TunnelCount p)"
    "vips = GenerateIPs V4VIPIPBlock (V4TunnelNHGCount p * V4TunnelNHGSplitCount p + 2)"
    "newNHGID \<lparr>idPool = NewIDPool 10000, dNHs = [], dNHGs = []\<rparr> = (b0, redirect)"
    "newNH (\<lambda>i. (NextHopEntry i vrf)\<lparr>nh_nextNI := Some VRFR\<rparr>) b0 = (b1, nh)"
    "tunnel_loop vrf VRFT ratio split redirect 0 tunnels redirect (NewIPPool vips)
       (addNHG (AddNextHop nh 1 (NextHopGroupEntry redirect vrf)) b1) = Some (nhgID, b2, tes)"
    "vip_loop vrf egress (nat (EgressNHGSplitCount p)) vips b2 = Some (b3, des)"
    "newNH (\<lambda>i. (NextHopEntry i vrf)\<lparr>nh_decap := True, nh_nextNI := Some vrf\<rparr>) b3 = (b4, nh2)"
    "newNHGID b4 = (b5, decap)"
    "newNHGID (addNHG (AddNextHop nh2 1 (NextHopGroupEntry decap vrf)) b5) = (b6, rID)"
    "reencap_loop vrf reRatio decap tunnels 0 tunnels ((NextHopGroupEntry rID vrf)\<lparr>nhg_backup := Some decap\<rparr>) b6 = Some (g, b7, res)"
    "tunnel_loop vrf VRFRD ratio split redirect 0 tunnels (nhg_id g) (NewIPPool vips) (addNHG g b7) = Some (k, b, rdes)"
    "cfgs = [\<lparr>cfg_Name = vrf, NHs = dNHs b, NHGs = dNHGs b, V4Entries = des\<rparr>,
             \<lparr>cfg_Name = VRFT, NHs = [], NHGs = [], V4Entries = tes\<rparr>,
             \<lparr>cfg_Name = VRFR, NHs = [], NHGs = [], V4Entries = res\<rparr>,
             \<lparr>cfg_Name = VRFRD, NHs = [], NHGs = [], V4Entries = rdes\<rparr>]"
  using assms unfolding BuildVRFConfig_def
  by (auto simp: Let_def split: if_splits option.splits prod.splits)

section \<open>No panic\<close>

lemma next_ips_Some:
  "- 1 \<le> ip_index q \<Longrightarrow> ip_index q + 1 + int n \<le> int (length (ips q)) \<Longrightarrow>
     \<exists>l. next_ips n q = Some (q\<lparr>ip_index := ip_index q + int n\<rparr>, l)"
proof (induction n arbitrary: q)
  case (Suc n)
  have "NextIP q = Some (q\<lparr>ip_index := ip_index q + 1\<rparr>, ips q ! nat (ip_index q + 1))"
    using Suc.prems by (simp add: NextIP_def Let_def)
  moreover obtain l where "next_ips n (q\<lparr>ip_index := ip_index q + 1\<rparr>) = Some (q\<lparr>ip_index := ip_index q + 1 + int n\<rparr>, l)"
    using Suc.IH [of "q\<lparr>ip_index := ip_index q + 1\<rparr>"] Suc.prems by auto
  ultimately show ?case by (simp add: algebra_simps)
qed simp

text \<open>The number of groups the tunnels from \<open>idx\<close> on start.\<close>

definition starts :: "nat \<Rightarrow> nat \<Rightarrow> nat \<Rightarrow> nat" where
  "starts r idx n = length (filter (\<lambda>i. i mod r = 0) [idx..<idx + n])"

lemma starts_simps [simp]:
  "starts r idx 0 = 0"
  "starts r idx (Suc n) = (if idx mod r = 0 then 1 else 0) + starts r (Suc idx) n"
  by (simp_all add: starts_def upt_conv_Cons del: upt_Suc)

lemma starts_multiple: "0 < r \<Longrightarrow> starts r 0 (g * r) = g"
proof (induction g)
  case (Suc g)
  have z: "filter (\<lambda>i. i mod r = 0) [g * r..<g * r + r] = [g * r]"
  proof -
    have "[g * r..<g * r + r] = g * r # [Suc (g * r)..<g * r + r]" using Suc.prems by (simp add: upt_conv_Cons)
    moreover have "i mod r \<noteq> 0" if "i \<in> set [Suc (g * r)..<g * r + r]" for i
    proof -
      have "i = g * r + (i - g * r)" "0 < i - g * r" "i - g * r < r" using that by auto
      then show ?thesis by (metis mod_mult_self3 mod_less not_gr_zero)
    qed
    ultimately show ?thesis by (simp add: filter_empty_conv)
  qed
  have "[0..<Suc g * r] = [0..<g * r] @ [g * r..<g * r + r]"
    using upt_add_eq_append [of 0 "g * r" r] by (simp add: add.commute)
  then show ?case using Suc z by (simp add: starts_def)
qed (simp add: starts_def)

lemma smod_int_nat: "int i smod int r = int (i mod r)"
  by (cases "i = 0") (simp_all add: signed_modulo_int_def zmod_int)

lemma tunnel_loop_Some:
  "0 < r \<Longrightarrow> - 1 \<le> ip_index q \<Longrightarrow>
   ip_index q + 1 + int (split * starts r idx (length l)) \<le> int (length (ips q)) \<Longrightarrow>
     \<exists>res. tunnel_loop ni vrf (int r) split backup (int idx) l nhgID q b = Some res"
proof (induction l arbitrary: idx nhgID q b)
  case (Cons ip l)
  show ?case
  proof (cases "idx mod r = 0")
    case True
    have le: "ip_index q + 1 + int split + int (split * starts r (Suc idx) (length l)) \<le> int (length (ips q))"
      using Cons.prems(3) True by (simp add: algebra_simps)
    then have "ip_index q + 1 + int split \<le> int (length (ips q))" by (rule order_trans [rotated]) simp
    then obtain hops where "next_ips split q = Some (q\<lparr>ip_index := ip_index q + int split\<rparr>, hops)"
      using next_ips_Some [OF Cons.prems(2), of split] by auto
    moreover obtain b1 i where "newNHGID b = (b1, i)" by fastforce
    moreover obtain g b2 where "add_hops ni hops ((NextHopGroupEntry i ni)\<lparr>nhg_backup := Some backup\<rparr>) b1 = (g, b2)" by fastforce
    moreover have "1 + int idx = int (Suc idx)" by simp
    ultimately show ?thesis
      using Cons.IH [of "q\<lparr>ip_index := ip_index q + int split\<rparr>" "Suc idx" i "addNHG g b2"] Cons.prems(1,2) True le
      by (auto simp: smod_int_nat add.commute)
  next
    case False
    then show ?thesis
      using Cons.IH [of q "Suc idx" nhgID b] Cons.prems by (auto simp: smod_int_nat add.commute)
  qed
qed simp

lemma vip_loop_Some: "split \<le> length egress \<Longrightarrow> \<exists>res. vip_loop ni egress split l b = Some res"
  by (induction l arbitrary: b) (fastforce simp: Let_def split: prod.split)+

lemma reencap_loop_Some: "ratio \<noteq> 0 \<Longrightarrow> \<exists>res. reencap_loop ni ratio decap all idx l g b = Some res"
  by (induction l arbitrary: idx g b) (fastforce simp: Let_def split: prod.split)+

text \<open>The two blocks: 65536 tunnel addresses and 1024 virtual addresses.\<close>

lemma te_blocks:
  "ParseCIDR V4TunnelIPBlock = Some (v4InV6Prefix @ [198, 18, 0, 1], \<lparr>netIP = [198, 18, 0, 0], netMask = [255, 255, 0, 0]\<rparr>)"
  "ParseCIDR V4VIPIPBlock = Some (v4InV6Prefix @ [198, 18, 196, 1], \<lparr>netIP = [198, 18, 196, 0], netMask = [255, 255, 252, 0]\<rparr>)"
  by (simp_all add: ip_eval V4TunnelIPBlock_def V4VIPIPBlock_def)

lemma length_tunnels: "length (GenerateIPs V4TunnelIPBlock n) = min (nat n) 65536"
proof -
  have "beUint32 [198, 18, 0, 0] = 0xc6120000" by (simp add: ip_eval)
  moreover have "lastIP_of 0xc6120000 (beUint32 [255, 255, 0, 0]) = 0xc612ffff" by (simp add: ip_eval)
  ultimately show ?thesis by (simp add: GenerateIPs_def te_blocks genIPs_loop_bounded Let_def)
qed

lemma length_vips: "length (GenerateIPs V4VIPIPBlock n) = min (nat n) 1024"
proof -
  have "beUint32 [198, 18, 196, 0] = 0xc612c400" by (simp add: ip_eval)
  moreover have "lastIP_of 0xc612c400 (beUint32 [255, 255, 252, 0]) = 0xc612c7ff" by (simp add: ip_eval)
  ultimately show ?thesis by (simp add: GenerateIPs_def te_blocks genIPs_loop_bounded Let_def)
qed

text \<open>Without enough tunnels for the groups, addresses for the groups or egress addresses the code
  panics; with them it returns.\<close>

lemma BuildVRFConfig_total:
  assumes "0 < V4TunnelNHGCount p" "V4TunnelNHGCount p dvd V4TunnelCount p" "0 < V4TunnelCount p"
    "V4TunnelCount p \<le> 65536" "0 \<le> V4TunnelNHGSplitCount p" "V4TunnelNHGCount p * V4TunnelNHGSplitCount p \<le> 1022"
    "EgressNHGSplitCount p \<le> int (length egress)" "0 < V4ReEncapNHGCount p" "V4ReEncapNHGCount p \<le> V4TunnelCount p"
  shows "\<exists>cfgs. BuildVRFConfig vrf egress p = Some cfgs"
proof -
  define r where "r = nat (V4TunnelCount p div V4TunnelNHGCount p)"
  define S where "S = nat (V4TunnelNHGSplitCount p)"
  let ?vips = "GenerateIPs V4VIPIPBlock (V4TunnelNHGCount p * V4TunnelNHGSplitCount p + 2)"
  let ?tunnels = "GenerateIPs V4TunnelIPBlock (V4TunnelCount p)"
  have q: "0 < V4TunnelCount p div V4TunnelNHGCount p"
    using assms(1-3) by (simp add: pos_imp_zdiv_pos_iff zdvd_imp_le)
  have r: "V4TunnelCount p sdiv V4TunnelNHGCount p = int r" "0 < r"
    using assms(1,3) q by (simp_all add: r_def signed_divide_int_def)
  have "V4TunnelCount p = V4TunnelNHGCount p * int r" using assms(2) q by (simp add: r_def)
  then have "nat (V4TunnelCount p) = nat (V4TunnelNHGCount p) * r" using assms(1) by (simp add: nat_mult_distrib)
  then have "length ?tunnels = nat (V4TunnelNHGCount p) * r" using assms(4) by (simp add: length_tunnels)
  then have "starts r 0 (length ?tunnels) = nat (V4TunnelNHGCount p)" using r(2) by (simp add: starts_multiple)
  moreover have "int (length ?vips) = V4TunnelNHGCount p * V4TunnelNHGSplitCount p + 2"
    using assms(1,5,6) by (simp add: length_vips)
  ultimately have "int (S * starts r 0 (length ?tunnels)) \<le> int (length ?vips)"
    using assms(1,5) by (simp add: S_def mult.commute)
  then have t: "\<exists>res. tunnel_loop vrf w (int r) S bk 0 ?tunnels k (NewIPPool ?vips) b = Some res" for w bk k b
    using tunnel_loop_Some [OF r(2), of "NewIPPool ?vips" S 0 ?tunnels vrf w bk k b] by (simp add: NewIPPool_def)
  have v: "\<exists>res. vip_loop vrf egress (nat (EgressNHGSplitCount p)) ?vips b = Some res" for b
    using assms(7) by (intro vip_loop_Some) simp
  have "V4TunnelCount p sdiv V4ReEncapNHGCount p \<noteq> 0"
    using assms(3,8,9) by (simp add: signed_divide_int_def pos_imp_zdiv_pos_iff zdiv_eq_0_iff)
  note e = reencap_loop_Some [OF this, of vrf]
  have "BuildVRFConfig vrf egress p \<noteq> None"
    using assms(1,8) t [folded not_None_eq] v [folded not_None_eq] e [folded not_None_eq]
    unfolding BuildVRFConfig_def r(1) S_def [symmetric]
    by (simp add: Let_def del: not_None_eq split: prod.split option.split)
  then show ?thesis by (simp add: not_None_eq)
qed

section \<open>The configuration\<close>

text \<open>C9: Whatever the parameters, a run of \<^verbatim>\<open>BuildVRFConfig\<close> that returns builds consistent entries:
  four configurations, the identifiers of next hops and of groups consecutive from 10001, every
  group's next hops and backup and every IPv4 entry's group among the entries built, and one /32
  entry per tunnel address in each of the three VRFs.\<close>

theorem BuildVRFConfig_wf:
  assumes "BuildVRFConfig vrf egress p = Some cfgs"
  shows "map cfg_Name cfgs = [vrf, VRFT, VRFR, VRFRD] \<and> refs_ok (hd cfgs) cfgs
    \<and> list_all (\<lambda>c. map v4_prefix (V4Entries c) =
          map (\<lambda>ip. ip @ ''/32'') (GenerateIPs V4TunnelIPBlock (V4TunnelCount p))) (tl cfgs)"
  using assms
proof (cases rule: BuildVRFConfig_cases)
  case c: (1 b b0 b1 b2 b3 b4 b5 b6 b7 redirect nh nhgID tes des nh2 decap rID g k res rdes tunnels vips ratio reRatio split)
  have "b_ok \<lparr>idPool = NewIDPool 10000, dNHs = [], dNHGs = []\<rparr> []" by (simp add: b_ok_def NewIDPool_def)
  note i1 = single_hop_ok [OF this c(3,4), of vrf, simplified NextHopEntry_def, simplified]
  note i2 = tunnel_loop_ok [OF conjunct1 [OF i1] conjunct1 [OF conjunct2 [OF i1]] conjunct1 [OF conjunct2 [OF i1]] c(5)]
  note i3 = vip_loop_ok [OF conjunct1 [OF i2] c(6)]
  obtain b4' where h: "newNHGID b3 = (b4', decap)"
    "newNH (\<lambda>i. (NextHopEntry i vrf)\<lparr>nh_decap := True, nh_nextNI := Some vrf\<rparr>) b4' = (b5, nh2)"
    using hop_then_group [OF c(7,8)] by blast
  note i4 = single_hop_ok [OF _ h, of vrf, simplified NextHopEntry_def, simplified]
  let ?b5 = "addNHG (AddNextHop nh2 1 (NextHopGroupEntry decap vrf)) b5"
  have o3: "b_ok b3 []" "redirect \<in> nhg_of b3 []" "v4_nhg ` set tes \<subseteq> nhg_of b3 []" "v4_nhg ` set des \<subseteq> nhg_of b3 []"
    using i1 i2 i3 by (simp_all add: subset_iff image_iff)
  have o5: "b_ok ?b5 []" "decap \<in> nhg_of ?b5 []" "nhg_of b3 [] \<subseteq> nhg_of ?b5 []" using i4 [OF o3(1)] by simp_all
  let ?g = "(NextHopGroupEntry rID vrf)\<lparr>nhg_backup := Some decap\<rparr>"
  have o6: "b_ok b6 [?g]" "dNHGs b6 = dNHGs ?b5"
    using newNHGID_ok [OF o5(1) c(9), of ?g] o5(2) by (simp_all add: NextHopGroupEntry_def)
  have d6: "decap \<in> nhg_of b6 []" using o5(2) o6(2) by (simp add: nhg_of_def)
  have sub: "nhg_of ?b5 [] \<subseteq> nhg_of b6 [?g]" using o6(2) by (auto simp: nhg_of_def)
  note i7 = reencap_loop_ok [OF o6(1) d6 c(10)]
  then have o7: "b_ok (addNHG g b7) []" "nhg_of (addNHG g b7) [] = nhg_of b7 [g]" using addNHG_ok by blast+
  have "nhg_id g \<in> nhg_of b7 [g]" by (simp add: nhg_of_def)
  note i8 = tunnel_loop_ok [OF o7(1) _ _ c(11), unfolded o7(2), OF _ this]
  have r: "nhg_of b3 [] \<subseteq> nhg_of b7 [g]" using o5(3) sub i7 by blast
  have o8: "b_ok b []" "nhg_of b7 [g] \<subseteq> nhg_of b []" "v4_nhg ` set rdes \<subseteq> nhg_of b []"
    "map v4_prefix rdes = map (\<lambda>ip. ip @ ''/32'') tunnels"
    using i8 [OF subsetD [OF r o3(2)]] by simp_all
  have "v4_nhg ` set tes \<subseteq> nhg_of b []" using o3(3) r o8(2) by (meson order_trans)
  moreover have "v4_nhg ` set des \<subseteq> nhg_of b []" using o3(4) r o8(2) by (meson order_trans)
  moreover have "v4_nhg ` set res \<subseteq> nhg_of b []" using i7 o8(2) by (meson order_trans)
  ultimately have "v4_nhg ` set (V4Entries e) \<subseteq> nhg_of b []" if "e \<in> set cfgs" for e
    using that o8(3) unfolding c(12) by (elim set_ConsD [THEN disjE]) auto
  then have "refs_ok (hd cfgs) cfgs"
    by (rule b_ok_refs [OF o8(1)]) (simp_all add: c(12))
  moreover have "map v4_prefix tes = map (\<lambda>ip. ip @ ''/32'') tunnels" using i2 by blast
  moreover have "map v4_prefix res = map (\<lambda>ip. ip @ ''/32'') tunnels" using i7 by blast
  ultimately show ?thesis using o8(4) by (simp add: c(1,12))
qed

theorem BuildVRFConfig_wf_witness:
  "\<exists>cfgs. BuildVRFConfig ''DEFAULT'' [''192.0.2.2''] \<lparr>V4TunnelCount = 4, V4TunnelNHGCount = 2, V4TunnelNHGSplitCount = 1,
      EgressNHGSplitCount = 1, V4ReEncapNHGCount = 2\<rparr> = Some cfgs \<and> length cfgs = 4 \<and> refs_ok (hd cfgs) cfgs"
proof -
  obtain cfgs where c: "BuildVRFConfig ''DEFAULT'' [''192.0.2.2''] \<lparr>V4TunnelCount = 4, V4TunnelNHGCount = 2,
      V4TunnelNHGSplitCount = 1, EgressNHGSplitCount = 1, V4ReEncapNHGCount = 2\<rparr> = Some cfgs"
    using BuildVRFConfig_total [of "\<lparr>V4TunnelCount = 4, V4TunnelNHGCount = 2, V4TunnelNHGSplitCount = 1,
      EgressNHGSplitCount = 1, V4ReEncapNHGCount = 2\<rparr>" "[''192.0.2.2'']" "''DEFAULT''"] by auto
  then show ?thesis using BuildVRFConfig_wf [OF c] by (auto simp: map_eq_Cons_conv)
qed

end
