(* ===== verification/Scale_Weights.thy ===== *)
theory Scale_Weights
  imports FP_Prelude "HOL-Library.Signed_Division"
begin

text \<open>
  The part of \<^verbatim>\<open>internal/cfgplugins/gribifullscale.go\<close> that decides how many next hops each next-hop group
  has and with which weights: the validation of the percentages, their conversion to bucket sizes,
  the iterator over the buckets and the weights of a group.

  Go \<^verbatim>\<open>int\<close>s are integers (the counts are below a million, products included); weights are 64-bit words.
  \<^verbatim>\<open>t.Fatalf\<close> is an error value, a run-time panic (index out of range, negative slice length) is \<open>None\<close>.

  The locale \<open>bucket_cursor\<close> is the contract of the iterator's two cursors; it is interpreted on the
  load-balancing and on the weight buckets.
\<close>

section \<open>Parameters\<close>

datatype WeightConfig = ECMP | WCMP "64 word"

record NHGLoadBalancingParams =
  lbp_Pct :: int
  NumNextHops :: int

text \<open>A nil \<^verbatim>\<open>Config\<close> is \<open>None\<close>.\<close>

record NHGWeightParams =
  wp_Pct :: int
  Config :: "WeightConfig option"

datatype scale_error =
    EmptySpec string | NegativePct string | BadNextHops string | NilConfig string | ZeroGranularity string
  | BadSum string int | BadParam string

fun lb_loop :: "string \<Rightarrow> int \<Rightarrow> NHGLoadBalancingParams list \<Rightarrow> (scale_error, int) res" where
  "lb_loop name sumPct [] = Inr sumPct"
| "lb_loop name sumPct (spec # specs) =
     (if lbp_Pct spec < 0 then Inl (NegativePct name)
      else if NumNextHops spec \<le> 0 then Inl (BadNextHops name)
      else lb_loop name (sumPct + lbp_Pct spec) specs)"

definition validateNHGLoadBalance :: "string \<Rightarrow> NHGLoadBalancingParams list \<Rightarrow> (scale_error, unit) res" where
  "validateNHGLoadBalance name configs =
     (if configs = [] then Inl (EmptySpec name)
      else bind_res (lb_loop name 0 configs) (\<lambda>sumPct. if sumPct \<noteq> 100 then Inl (BadSum name sumPct) else Inr ()))"

fun weight_loop :: "string \<Rightarrow> int \<Rightarrow> NHGWeightParams list \<Rightarrow> (scale_error, int) res" where
  "weight_loop name sumPct [] = Inr sumPct"
| "weight_loop name sumPct (spec # specs) =
     (if wp_Pct spec < 0 then Inl (NegativePct name)
      else case Config spec of
        None \<Rightarrow> Inl (NilConfig name)
      | Some ECMP \<Rightarrow> weight_loop name (sumPct + wp_Pct spec) specs
      | Some (WCMP g) \<Rightarrow>
          if g = 0 then Inl (ZeroGranularity name) else weight_loop name (sumPct + wp_Pct spec) specs)"

definition validateNHGWeight :: "string \<Rightarrow> NHGWeightParams list \<Rightarrow> (scale_error, unit) res" where
  "validateNHGWeight name configs =
     (if configs = [] then Inl (EmptySpec name)
      else bind_res (weight_loop name 0 configs) (\<lambda>sumPct. if sumPct \<noteq> 100 then Inl (BadSum name sumPct) else Inr ()))"


section \<open>Buckets\<close>

definition partitionNHG :: "int \<Rightarrow> 'a list \<Rightarrow> ('a \<Rightarrow> int) \<Rightarrow> int list option" where
  "partitionNHG numNHG req getPct =
     (if req = [] then None
      else let counts = map (\<lambda>spec. (numNHG * getPct spec) sdiv 100) req in
           Some (counts[length counts - 1 := last counts + (numNHG - sum_list counts)]))"

record nhgLoadBalancingBucket =
  lb_numNHG :: int
  numLoadBalancingNH :: int

record nhgWeightBucket =
  w_numNHG :: int
  w_config :: "WeightConfig option"

definition computeNHGBuckets :: "int \<Rightarrow> NHGLoadBalancingParams list \<Rightarrow> nhgLoadBalancingBucket list option" where
  "computeNHGBuckets numNHG req =
     map_option (\<lambda>counts. map2 (\<lambda>c spec. \<lparr>lb_numNHG = c, numLoadBalancingNH = NumNextHops spec\<rparr>) counts req)
       (partitionNHG numNHG req lbp_Pct)"

definition computeNHGWeightBuckets :: "int \<Rightarrow> NHGWeightParams list \<Rightarrow> nhgWeightBucket list option" where
  "computeNHGWeightBuckets numNHG req =
     map_option (\<lambda>counts. map2 (\<lambda>c spec. \<lparr>w_numNHG = c, w_config = Config spec\<rparr>) counts req)
       (partitionNHG numNHG req wp_Pct)"


section \<open>Weights of a group\<close>

definition computeNHGWeights :: "64 word \<Rightarrow> int \<Rightarrow> 64 word list option" where
  "computeNHGWeights granularity actualNHCount =
     (if actualNHCount < 0 then None
      else if actualNHCount = 0 then Some []
      else let n = nat actualNHCount;
               baseWeight = granularity div of_int actualNHCount;
               remainder = granularity mod of_int actualNHCount;
               weights = map (\<lambda>i. if i = n - 1 then baseWeight + remainder else baseWeight) [0..<n] in
           Some (if actualNHCount > 1 \<and> baseWeight > 1 \<and> list_all (\<lambda>idx. weights ! idx = weights ! 0) [1..<n]
                 then weights[n - 2 := weights ! (n - 2) - 1, n - 1 := weights ! (n - 1) + 1]
                 else weights))"


section \<open>The iterator\<close>

record NHGBucketIterator =
  lbBuckets :: "nhgLoadBalancingBucket list"
  weightBuckets :: "nhgWeightBucket list"
  maxNHsAvailable :: int
  lbIdx :: nat
  lbCreated :: int
  weightIdx :: nat
  weightCreated :: int

definition NewNHGBucketIterator ::
  "int \<Rightarrow> NHGLoadBalancingParams list \<Rightarrow> NHGWeightParams list \<Rightarrow> int \<Rightarrow> NHGBucketIterator option" where
  "NewNHGBucketIterator numNHG lbParams weightParams maxNHs =
     (case computeNHGBuckets numNHG lbParams of
        None \<Rightarrow> None
      | Some lb \<Rightarrow>
          map_option (\<lambda>wb. \<lparr>lbBuckets = lb, weightBuckets = wb, maxNHsAvailable = maxNHs,
              lbIdx = 0, lbCreated = 0, weightIdx = 0, weightCreated = 0\<rparr>)
            (computeNHGWeightBuckets numNHG weightParams))"

text \<open>The cursor over buckets of the sizes \<open>counts\<close>: at most one step per call.\<close>

definition advance :: "int list \<Rightarrow> nat \<Rightarrow> int \<Rightarrow> nat \<times> int" where
  "advance counts idx created =
     (if int idx < int (length counts) - 1 \<and> created \<ge> counts ! idx then (idx + 1, 0) else (idx, created))"

text \<open>The \<^verbatim>\<open>switch\<close> on the weight configuration.\<close>

definition cfg_weights :: "WeightConfig option \<Rightarrow> int \<Rightarrow> 64 word list option" where
  "cfg_weights cfg actualNHCount =
     (let ones = (if actualNHCount < 0 then None else Some (replicate (nat actualNHCount) 1)) in
      case cfg of
        Some ECMP \<Rightarrow> ones
      | Some (WCMP g) \<Rightarrow> computeNHGWeights g actualNHCount
      | None \<Rightarrow> ones)"

definition it_next :: "NHGBucketIterator \<Rightarrow> (NHGBucketIterator \<times> 64 word list) option" where
  "it_next it =
     (let (li, lc) = advance (map lb_numNHG (lbBuckets it)) (lbIdx it) (lbCreated it) in
      if length (lbBuckets it) \<le> li then None
      else let actualNHCount = min (numLoadBalancingNH (lbBuckets it ! li)) (maxNHsAvailable it);
               (wi, wc) = advance (map w_numNHG (weightBuckets it)) (weightIdx it) (weightCreated it) in
      if length (weightBuckets it) \<le> wi then None
      else let it = it\<lparr>lbIdx := li, lbCreated := lc + 1, weightIdx := wi, weightCreated := wc + 1\<rparr> in
           map_option (Pair it) (cfg_weights (w_config (weightBuckets it ! wi)) actualNHCount))"

text \<open>\<open>n\<close> calls of \<^verbatim>\<open>Next\<close>.\<close>

fun next_weights :: "nat \<Rightarrow> NHGBucketIterator \<Rightarrow> (64 word list) list option" where
  "next_weights 0 it = Some []"
| "next_weights (Suc n) it =
     (case it_next it of
        None \<Rightarrow> None
      | Some (it, ws) \<Rightarrow> map_option ((#) ws) (next_weights n it))"


section \<open>Validation\<close>

lemma lb_loop_Inr:
  "lb_loop name s specs = Inr t \<longleftrightarrow> (\<forall>spec \<in> set specs. 0 \<le> lbp_Pct spec \<and> 0 < NumNextHops spec) \<and> t = s + (\<Sum>spec\<leftarrow>specs. lbp_Pct spec)"
  by (induction specs arbitrary: s) auto

lemma validateNHGLoadBalance_Inr:
  "validateNHGLoadBalance name specs = Inr () \<longleftrightarrow>
     specs \<noteq> [] \<and> (\<forall>spec \<in> set specs. 0 \<le> lbp_Pct spec \<and> 0 < NumNextHops spec) \<and> (\<Sum>spec\<leftarrow>specs. lbp_Pct spec) = 100"
  by (auto simp: validateNHGLoadBalance_def bind_res_Inr_iff lb_loop_Inr)

definition weight_ok :: "WeightConfig option \<Rightarrow> bool" where
  "weight_ok c \<longleftrightarrow> (case c of None \<Rightarrow> False | Some ECMP \<Rightarrow> True | Some (WCMP g) \<Rightarrow> g \<noteq> 0)"

lemma weight_loop_Inr:
  "weight_loop name s specs = Inr t \<longleftrightarrow> (\<forall>spec \<in> set specs. 0 \<le> wp_Pct spec \<and> weight_ok (Config spec)) \<and> t = s + (\<Sum>spec\<leftarrow>specs. wp_Pct spec)"
  by (induction specs arbitrary: s) (auto simp: weight_ok_def split: option.split WeightConfig.split)

lemma validateNHGWeight_Inr:
  "validateNHGWeight name specs = Inr () \<longleftrightarrow>
     specs \<noteq> [] \<and> (\<forall>spec \<in> set specs. 0 \<le> wp_Pct spec \<and> weight_ok (Config spec)) \<and> (\<Sum>spec\<leftarrow>specs. wp_Pct spec) = 100"
  by (auto simp: validateNHGWeight_def bind_res_Inr_iff weight_loop_Inr)


section \<open>Bucket sizes\<close>

lemma sum_list_update_last: "xs \<noteq> [] \<Longrightarrow> sum_list (xs[length xs - 1 := last xs + d]) = sum_list xs + (d :: int)"
  by (induction xs rule: rev_induct) simp_all

lemma partition_sum_le:
  assumes "0 \<le> (n :: int)" "\<And>x. x \<in> set xs \<Longrightarrow> 0 \<le> f x" 
  shows "100 * (\<Sum>x\<leftarrow>xs. (n * f x) sdiv 100) \<le> n * (\<Sum>x\<leftarrow>xs. f x)"
  using assms(2)
proof (induction xs)
  case (Cons x xs)
  have "(n * f x) sdiv 100 = n * f x div 100" using assms(1) Cons.prems [of x] by (simp add: signed_divide_int_def sgn_if)
  then have "100 * ((n * f x) sdiv 100) \<le> n * f x" by simp
  with Cons show ?case by (simp add: algebra_simps)
qed simp

lemma partitionNHG_sizes:
  assumes "req \<noteq> []" "\<And>spec. spec \<in> set req \<Longrightarrow> 0 \<le> getPct spec" "(\<Sum>spec\<leftarrow>req. getPct spec) = 100" "0 \<le> numNHG"
  shows "\<exists>counts. partitionNHG numNHG req getPct = Some counts \<and> length counts = length req \<and> sum_list counts = numNHG
    \<and> list_all (\<lambda>c. 0 \<le> c) counts \<and> (\<forall>i < length req - 1. counts ! i = numNHG * getPct (req ! i) div 100)"
proof -
  let ?c = "map (\<lambda>spec. (numNHG * getPct spec) sdiv 100) req"
  let ?r = "?c[length ?c - 1 := last ?c + (numNHG - sum_list ?c)]"
  have sd: "(numNHG * getPct spec) sdiv 100 = numNHG * getPct spec div 100" if "spec \<in> set req" for spec
    using assms(2) [OF that] assms(4) by (simp add: signed_divide_int_def sgn_if)
  have "100 * sum_list ?c \<le> 100 * numNHG" using partition_sum_le [of numNHG req getPct] assms by (simp add: mult.commute)
  then have le: "sum_list ?c \<le> numNHG" by simp
  have nn: "0 \<le> c" if "c \<in> set ?c" for c using that sd assms(2,4) by (auto simp: pos_imp_zdiv_nonneg_iff)
  have "0 \<le> c" if "c \<in> set ?r" for c
  proof -
    have "c = last ?c + (numNHG - sum_list ?c) \<or> c \<in> set ?c" using that set_update_subset_insert [of ?c] by fast
    moreover have "0 \<le> last ?c" using nn last_in_set [of ?c] assms(1) by simp
    ultimately show ?thesis using nn le by auto
  qed
  moreover have "sum_list ?r = numNHG" using assms(1) by (subst sum_list_update_last) simp_all
  moreover have "?r ! i = numNHG * getPct (req ! i) div 100" if "i < length req - 1" for i
    using that sd [of "req ! i"] by simp
  ultimately show ?thesis using assms(1) by (simp add: partitionNHG_def Let_def list_all_iff)
qed

text \<open>A load-balancing specification that passes validation is turned into one bucket per entry: the
  bucket sizes are non-negative and add up to the number of groups, none lost to rounding, and every
  bucket but the last has its share rounded down.\<close>

theorem computeNHGBuckets_exact:
  assumes "validateNHGLoadBalance name req = Inr ()" "0 \<le> numNHG"
  shows "\<exists>bs. computeNHGBuckets numNHG req = Some bs \<and> (\<Sum>b\<leftarrow>bs. lb_numNHG b) = numNHG
    \<and> list_all (\<lambda>b. 0 \<le> lb_numNHG b) bs \<and> map numLoadBalancingNH bs = map NumNextHops req
    \<and> (\<forall>i < length req - 1. lb_numNHG (bs ! i) = numNHG * lbp_Pct (req ! i) div 100)"
proof -
  obtain counts where c: "partitionNHG numNHG req lbp_Pct = Some counts" "length counts = length req" "sum_list counts = numNHG"
    "list_all (\<lambda>c. 0 \<le> c) counts" "\<forall>i < length req - 1. counts ! i = numNHG * lbp_Pct (req ! i) div 100"
    using partitionNHG_sizes [of req lbp_Pct numNHG] assms by (auto simp: validateNHGLoadBalance_Inr)
  define bs where "bs = map2 (\<lambda>c spec. \<lparr>lb_numNHG = c, numLoadBalancingNH = NumNextHops spec\<rparr>) counts req"
  have m: "map lb_numNHG bs = counts" "map numLoadBalancingNH bs = map NumNextHops req"
    unfolding bs_def using c(2) by (induction counts req rule: list_induct2) simp_all
  have "lb_numNHG (bs ! i) = numNHG * lbp_Pct (req ! i) div 100" if "i < length req - 1" for i
    using c(2,5) that nth_map [of i bs lb_numNHG] by (simp add: m(1)) (simp add: bs_def)
  moreover have "list_all (\<lambda>b. 0 \<le> lb_numNHG b) bs" using c(4) unfolding m(1) [symmetric] by (simp add: list_all_iff)
  moreover have "computeNHGBuckets numNHG req = Some bs" by (simp add: computeNHGBuckets_def c(1) bs_def)
  ultimately show ?thesis using m c(3) by auto
qed

theorem computeNHGBuckets_exact_witness:
  "\<exists>bs. computeNHGBuckets 500 [\<lparr>lbp_Pct = 75, NumNextHops = 4\<rparr>, \<lparr>lbp_Pct = 20, NumNextHops = 8\<rparr>, \<lparr>lbp_Pct = 5, NumNextHops = 16\<rparr>] = Some bs
    \<and> (\<Sum>b\<leftarrow>bs. lb_numNHG b) = 500"
  using computeNHGBuckets_exact [of "''EncapNHGLoadBalance''"
      "[\<lparr>lbp_Pct = 75, NumNextHops = 4\<rparr>, \<lparr>lbp_Pct = 20, NumNextHops = 8\<rparr>, \<lparr>lbp_Pct = 5, NumNextHops = 16\<rparr>]" 500]
  by (auto simp: validateNHGLoadBalance_Inr)


section \<open>Weights\<close>

lemma weights_replicate:
  "0 < n \<Longrightarrow> map (\<lambda>i. if i = n - 1 then b + r else (b :: 64 word)) [0..<n] = replicate (n - 1) b @ [b + r]"
  by (rule nth_equalityI) (auto simp: nth_append)

lemma list_all_upt_nth: "list_all (\<lambda>i. xs ! i = xs ! 0) [1..<length xs] \<longleftrightarrow> (\<forall>x \<in> set xs. x = xs ! 0)"
proof -
  have "(\<forall>i < length xs. 1 \<le> i \<longrightarrow> xs ! i = xs ! 0) \<longleftrightarrow> (\<forall>i < length xs. xs ! i = xs ! 0)"
    by (metis less_one linorder_not_le)
  then show ?thesis by (auto simp: list_all_iff all_set_conv_all_nth)
qed

text \<open>The three shapes of the weights.\<close>

lemma computeNHGWeights_shape:
  fixes g :: "64 word"
  assumes "0 < n"
  defines "b \<equiv> g div of_nat n" and "r \<equiv> g mod of_nat n"
  shows "computeNHGWeights g (int n) =
    Some (if 1 < n \<and> 1 < b \<and> r = 0 then replicate (n - 2) b @ [b - 1, b + 1] else replicate (n - 1) b @ [b + r])"
proof -
  let ?w = "replicate (n - 1) b @ [b + r]"
  have l: "length ?w = n" using assms(1) by simp
  have eq: "list_all (\<lambda>idx. ?w ! idx = ?w ! 0) [1..<n] \<longleftrightarrow> r = 0" if "1 < n"
  proof -
    have "?w ! 0 = b" using that by (simp add: nth_append)
    then show ?thesis using list_all_upt_nth [of ?w] that l by auto
  qed
  have upd: "?w[n - 2 := ?w ! (n - 2) - 1, n - 1 := ?w ! (n - 1) + 1] = replicate (n - 2) b @ [b - 1, b + r + 1]" if n1: "1 < n"
  proof -
    obtain m where m: "n = Suc (Suc m)" using n1 less_iff_Suc_add [of 1 n] by auto
    have "replicate (Suc m) b = replicate m b @ [b]" by (induction m) simp_all
    then have "replicate (n - 1) b @ [b + r] = replicate m b @ [b, b + r]" by (simp add: m)
    then show ?thesis by (simp add: m nth_append list_update_append)
  qed
  have c: "\<not> int n < 0" "int n \<noteq> 0" "nat (int n) = n" "of_int (int n) = (of_nat n :: 64 word)" "(1 < int n) = (1 < n)"
    using assms(1) by simp_all
  have base: "computeNHGWeights g (int n) =
      Some (if 1 < n \<and> 1 < b \<and> list_all (\<lambda>idx. ?w ! idx = ?w ! 0) [1..<n]
            then ?w[n - 2 := ?w ! (n - 2) - 1, n - 1 := ?w ! (n - 1) + 1] else ?w)"
    unfolding computeNHGWeights_def if_not_P [OF c(1)] if_not_P [OF c(2)] Let_def c(3-5) weights_replicate [OF assms(1)] b_def r_def ..
  show ?thesis
  proof (cases "1 < n \<and> 1 < b \<and> r = 0")
    case True
    then show ?thesis unfolding base using eq upd by simp
  next
    case False
    with eq have "\<not> (1 < n \<and> 1 < b \<and> list_all (\<lambda>idx. ?w ! idx = ?w ! 0) [1..<n])" by blast
    then show ?thesis unfolding base if_not_P [OF False] by (rule arg_cong [OF if_not_P])
  qed
qed

lemma unat_div_nat: "n < 2 ^ 64 \<Longrightarrow> unat (g div of_nat n :: 64 word) = unat g div n"
  "n < 2 ^ 64 \<Longrightarrow> unat (g mod of_nat n :: 64 word) = unat g mod n"
  by (simp_all add: unat_div_distrib unat_mod_distrib unat_of_nat take_bit_nat_eq_self unsigned_of_nat)

text \<open>C31: The weights of a group of \<open>n\<close> next hops add up to the granularity exactly, and when every hop
  can get a weight of two or more they are not all equal, so the device cannot fall back to plain
  ECMP.\<close>

theorem computeNHGWeights_sum:
  assumes "0 < n" "n < 2 ^ 63"
  shows "\<exists>ws. computeNHGWeights g (int n) = Some ws \<and> length ws = n \<and> (\<Sum>w\<leftarrow>ws. unat w) = unat g
    \<and> (1 < n \<and> 2 * n \<le> unat g \<longrightarrow> card (set ws) \<noteq> 1)
    \<and> (n \<le> unat g \<longrightarrow> 0 \<notin> set ws)"
proof -
  define b r where "b = unat g div n" and "r = unat g mod n"
  have n: "n < 2 ^ 64" using assms(2) by simp
  let ?b = "g div of_nat n :: 64 word" and ?r = "g mod of_nat n :: 64 word"
  have u: "unat ?b = b" "unat ?r = r" using n by (simp_all add: b_def r_def unat_div_nat)
  have g: "n * b + r = unat g" by (simp add: b_def r_def)
  have gl: "unat g < 2 ^ 64" using unsigned_less [of g, where ?'a = nat] by simp
  have bn: "b \<le> n * b" using assms(1) by simp
  then have br: "b + r < 2 ^ 64" using g gl by linarith
  then have ur: "unat (?b + ?r) = b + r" using u by (simp add: unat_word_ariths)
  have pos: "0 < b \<longleftrightarrow> n \<le> unat g" and pos2: "1 < b \<longleftrightarrow> 2 * n \<le> unat g"
    using assms(1) by (auto simp: b_def div_greater_zero_iff Suc_le_eq [symmetric] less_eq_div_iff_mult_less_eq)
  show ?thesis
  proof (cases "1 < n \<and> 1 < ?b \<and> ?r = 0")
    case True
    then have t: "1 < n" "1 < b" "r = 0" using u by (auto simp: word_less_nat_alt)
    have "2 * b \<le> n * b" using t(1) by simp
    then have "b + 1 < 2 ^ 64" using g gl t by linarith
    then have ub: "unat (?b + 1) = b + 1" "unat (?b - 1) = b - 1"
      using u t(2) by (simp_all add: unat_word_ariths unat_sub_if' word_le_nat_alt)
    have "(n - 2) * b + ((b - 1) + (b + 1)) = n * b"
      using t(1,2) by (auto simp: algebra_simps dest!: less_imp_Suc_add)
    moreover have "?b - 1 \<noteq> ?b + 1" using ub by auto
    ultimately show ?thesis
      using t ub u g computeNHGWeights_shape [OF assms(1), of g] True
      by (auto simp: sum_list_replicate word_unat_eq_iff card_insert_if)
  next
    case False
    have "(n - 1) * b + (b + r) = unat g" using g assms(1) by (cases n) (simp_all add: algebra_simps)
    moreover have "card (set (replicate (n - 1) ?b @ [?b + ?r])) \<noteq> 1" if "1 < n" "2 * n \<le> unat g"
      using that False pos2 u by (auto simp: word_less_nat_alt)
    moreover have "0 \<notin> set (replicate (n - 1) ?b @ [?b + ?r])" if "n \<le> unat g"
      using that pos u ur by (auto simp: word_unat_eq_iff)
    moreover have "computeNHGWeights g (int n) = Some (replicate (n - 1) ?b @ [?b + ?r])"
      unfolding computeNHGWeights_shape [OF assms(1), of g] if_not_P [OF False] ..
    ultimately show ?thesis using u ur assms(1) by (simp add: sum_list_replicate)
  qed
qed

theorem computeNHGWeights_sum_witness:
  "\<exists>ws. computeNHGWeights 64 2 = Some ws \<and> (\<Sum>w\<leftarrow>ws. unat w) = 64 \<and> card (set ws) \<noteq> 1"
  using computeNHGWeights_sum [of 2 64] by auto


section \<open>The iterator visits the buckets in order\<close>

text \<open>Buckets visited by \<open>n\<close> calls, and what the sizes ask for: \<open>expand\<close> lists each bucket as often as its
  size says, from bucket \<open>i\<close> with \<open>c\<close> groups made on.\<close>

fun cursor_run :: "int list \<Rightarrow> nat \<Rightarrow> nat \<Rightarrow> int \<Rightarrow> nat list" where
  "cursor_run counts 0 i c = []"
| "cursor_run counts (Suc n) i c = (let (j, d) = advance counts i c in j # cursor_run counts n j (d + 1))"

definition expand :: "int list \<Rightarrow> nat \<Rightarrow> int \<Rightarrow> nat list" where
  "expand counts i c = replicate (nat (counts ! i - c)) i @ concat (map (\<lambda>j. replicate (nat (counts ! j)) j) [Suc i..<length counts])"

lemma expand_step: "c < counts ! i \<Longrightarrow> expand counts i c = i # expand counts i (c + 1)"
proof -
  assume "c < counts ! i"
  then have "nat (counts ! i - c) = Suc (nat (counts ! i - (c + 1)))" by simp
  then show ?thesis by (simp add: expand_def)
qed

lemma expand_next: "counts ! i \<le> c \<Longrightarrow> Suc i < length counts \<Longrightarrow> expand counts i c = expand counts (Suc i) 0"
  by (simp add: expand_def upt_conv_Cons)

lemma cursor_run_expand:
  assumes "list_all (\<lambda>c. 0 < c) (butlast counts)" 
  shows "i < length counts \<Longrightarrow> n \<le> length (expand counts i c) \<Longrightarrow> cursor_run counts n i c = take n (expand counts i c)"
proof (induction n arbitrary: i c)
  case (Suc n)
  show ?case
  proof (cases "c < counts ! i")
    case True
    then have "advance counts i c = (i, c)" by (simp add: advance_def)
    with Suc.IH [of i "c + 1"] Suc.prems expand_step [OF True] show ?thesis by simp
  next
    case False
    have last: "Suc i < length counts"
    proof (rule ccontr)
      assume "\<not> Suc i < length counts"
      then have "expand counts i c = []" using False by (simp add: expand_def)
      then show False using Suc.prems(2) by simp
    qed
    have e: "expand counts i c = expand counts (Suc i) 0" using False last by (simp add: expand_next)
    have a: "advance counts i c = (Suc i, 0)" using False last by (simp add: advance_def)
    have p: "0 < counts ! Suc i"
    proof (cases "Suc (Suc i) < length counts")
      case True
      then have "counts ! Suc i = butlast counts ! Suc i" by (simp add: nth_butlast)
      then show ?thesis using assms True by (simp add: list_all_length)
    next
      case l: False
      then have "expand counts (Suc i) 0 = replicate (nat (counts ! Suc i)) (Suc i)" by (simp add: expand_def)
      then show ?thesis using Suc.prems(2) e by (cases "0 < counts ! Suc i") auto
    qed
    have x: "expand counts (Suc i) 0 = Suc i # expand counts (Suc i) 1" using expand_step [OF p] by simp
    from Suc.IH [of "Suc i" 1] Suc.prems last e x a show ?thesis by simp
  qed
qed simp

locale bucket_cursor =
  fixes step :: "'it \<Rightarrow> ('it \<times> 'w) option" and sizes :: "'it \<Rightarrow> int list" and idx :: "'it \<Rightarrow> nat" and created :: "'it \<Rightarrow> int"
  assumes keeps: "step it = Some (it', w) \<Longrightarrow> sizes it' = sizes it"
    and moves: "step it = Some (it', w) \<Longrightarrow> advance (sizes it) (idx it) (created it) = (idx it', created it' - 1)"
begin

text \<open>The states after each of \<open>n\<close> calls.\<close>

fun visit :: "nat \<Rightarrow> 'it \<Rightarrow> 'it list option" where
  "visit 0 it = Some []"
| "visit (Suc n) it = (case step it of None \<Rightarrow> None | Some (it', w) \<Rightarrow> map_option ((#) it') (visit n it'))"

lemma visit_run: "visit n it = Some its \<Longrightarrow> map idx its = cursor_run (sizes it) n (idx it) (created it)"
proof (induction n arbitrary: it its)
  case (Suc n)
  then obtain it' w its' where s: "step it = Some (it', w)" "visit n it' = Some its'" "its = it' # its'"
    by (auto split: option.splits)
  from Suc.IH [OF s(2)] keeps [OF s(1)] moves [OF s(1)] s(3) show ?case by simp
qed simp

lemma visit_expand:
  assumes "visit n it = Some its" "list_all (\<lambda>c. 0 < c) (butlast (sizes it))" "idx it < length (sizes it)"
    "n \<le> length (expand (sizes it) (idx it) (created it))"
  shows "map idx its = take n (expand (sizes it) (idx it) (created it))"
  using visit_run [OF assms(1)] cursor_run_expand [OF assms(2-4)] by simp

end

lemma it_next_Some_iff:
  "it_next it = Some (it', ws) \<longleftrightarrow>
     (\<exists>li lc wi wc. advance (map lb_numNHG (lbBuckets it)) (lbIdx it) (lbCreated it) = (li, lc)
        \<and> li < length (lbBuckets it)
        \<and> advance (map w_numNHG (weightBuckets it)) (weightIdx it) (weightCreated it) = (wi, wc)
        \<and> wi < length (weightBuckets it)
        \<and> it' = it\<lparr>lbIdx := li, lbCreated := lc + 1, weightIdx := wi, weightCreated := wc + 1\<rparr>
        \<and> cfg_weights (w_config (weightBuckets it ! wi)) (min (numLoadBalancingNH (lbBuckets it ! li)) (maxNHsAvailable it)) = Some ws)"
  unfolding it_next_def by (auto simp: Let_def not_le split: prod.splits if_splits)

interpretation lb_cursor: bucket_cursor it_next "\<lambda>it. map lb_numNHG (lbBuckets it)" lbIdx lbCreated
  by unfold_locales (auto simp: it_next_Some_iff)

interpretation weight_cursor: bucket_cursor it_next "\<lambda>it. map w_numNHG (weightBuckets it)" weightIdx weightCreated
  by unfold_locales (auto simp: it_next_Some_iff)

lemma length_computeNHGWeights: "computeNHGWeights g k = Some ws \<Longrightarrow> int (length ws) = k"
proof (cases "0 < k")
  case True
  assume a: "computeNHGWeights g k = Some ws"
  obtain n where n: "k = int n" "0 < n" using True by (metis zero_less_imp_eq_int)
  from a computeNHGWeights_shape [OF n(2), of g] n show ?thesis by (auto split: if_splits)
next
  case False
  assume "computeNHGWeights g k = Some ws"
  with False show ?thesis by (auto simp: computeNHGWeights_def split: if_splits)
qed

lemma length_cfg_weights: "cfg_weights cfg k = Some ws \<Longrightarrow> int (length ws) = k"
  by (auto simp: cfg_weights_def Let_def dest: length_computeNHGWeights split: option.splits WeightConfig.splits if_splits)

lemma cfg_weights_Some: "0 \<le> k \<Longrightarrow> \<exists>ws. cfg_weights cfg k = Some ws"
  by (auto simp: cfg_weights_def computeNHGWeights_def Let_def split: option.split WeightConfig.split)

lemma it_next_length:
  assumes "it_next it = Some (it', ws)"
  shows "int (length ws) = min (numLoadBalancingNH (lbBuckets it ! lbIdx it')) (maxNHsAvailable it)"
    "lbBuckets it' = lbBuckets it" "maxNHsAvailable it' = maxNHsAvailable it"
  using assms by (auto simp: it_next_Some_iff dest: length_cfg_weights)

text \<open>The iterator's invariant: cursors in range and sizes non-negative, so \<^verbatim>\<open>Next\<close> does not panic.\<close>

definition it_ok :: "NHGBucketIterator \<Rightarrow> bool" where
  "it_ok it \<longleftrightarrow> lbIdx it < length (lbBuckets it) \<and> weightIdx it < length (weightBuckets it)
     \<and> list_all (\<lambda>b. 0 \<le> numLoadBalancingNH b) (lbBuckets it) \<and> 0 \<le> maxNHsAvailable it"

lemma advance_less: "idx < length counts \<Longrightarrow> fst (advance counts idx c) < length counts"
  by (auto simp: advance_def)

lemma it_next_ok:
  assumes "it_ok it"
  shows "\<exists>it' ws. it_next it = Some (it', ws) \<and> it_ok it'"
proof -
  obtain li lc wi wc where a: "advance (map lb_numNHG (lbBuckets it)) (lbIdx it) (lbCreated it) = (li, lc)"
    "advance (map w_numNHG (weightBuckets it)) (weightIdx it) (weightCreated it) = (wi, wc)" by fastforce
  have l: "li < length (lbBuckets it)" "wi < length (weightBuckets it)"
    using advance_less [of "lbIdx it" "map lb_numNHG (lbBuckets it)" "lbCreated it"]
      advance_less [of "weightIdx it" "map w_numNHG (weightBuckets it)" "weightCreated it"] a assms
    by (simp_all add: it_ok_def)
  then have "0 \<le> min (numLoadBalancingNH (lbBuckets it ! li)) (maxNHsAvailable it)"
    using assms by (simp add: it_ok_def list_all_length)
  from cfg_weights_Some [OF this] obtain ws where
    "cfg_weights (w_config (weightBuckets it ! wi)) (min (numLoadBalancingNH (lbBuckets it ! li)) (maxNHsAvailable it)) = Some ws" by blast
  then show ?thesis using a l assms by (auto simp: it_next_Some_iff it_ok_def)
qed

lemma next_weights_ok: "it_ok it \<Longrightarrow> \<exists>wss. next_weights n it = Some wss \<and> length wss = n"
proof (induction n arbitrary: it)
  case (Suc n)
  from it_next_ok [OF Suc.prems] Suc.IH show ?case by fastforce
qed simp

text \<open>Lengths of the groups, from the buckets visited.\<close>

lemma next_weights_visit:
  "next_weights n it = Some wss \<Longrightarrow> \<exists>its. lb_cursor.visit n it = Some its \<and>
     map (int \<circ> length) wss = map (\<lambda>it'. min (numLoadBalancingNH (lbBuckets it ! lbIdx it')) (maxNHsAvailable it)) its"
proof (induction n arbitrary: it wss)
  case (Suc n)
  then obtain it' ws wss' where s: "it_next it = Some (it', ws)" "next_weights n it' = Some wss'" "wss = ws # wss'"
    by (auto split: option.splits)
  obtain its where "lb_cursor.visit n it' = Some its"
    "map (int \<circ> length) wss' = map (\<lambda>i. min (numLoadBalancingNH (lbBuckets it' ! lbIdx i)) (maxNHsAvailable it')) its"
    using Suc.IH [OF s(2)] by blast
  with s it_next_length [OF s(1)] show ?case by (auto simp: comp_def)
qed simp

lemma next_weights_le:
  "next_weights n it = Some wss \<Longrightarrow> ws \<in> set wss \<Longrightarrow> int (length ws) \<le> maxNHsAvailable it"
proof (induction n arbitrary: it wss)
  case (Suc n)
  then obtain it' ws' wss' where s: "it_next it = Some (it', ws')" "next_weights n it' = Some wss'" "wss = ws' # wss'"
    by (auto split: option.splits)
  with Suc.IH [OF s(2)] Suc.prems(2) it_next_length [OF s(1)] show ?case by auto
qed simp

lemma NewNHGBucketIterator_ok:
  assumes "validateNHGLoadBalance lbn lb = Inr ()" "validateNHGWeight wn w = Inr ()" "0 \<le> maxNHs"
  shows "\<exists>it. NewNHGBucketIterator numNHG lb w maxNHs = Some it \<and> it_ok it \<and> maxNHsAvailable it = maxNHs
    \<and> lbIdx it = 0 \<and> lbCreated it = 0 \<and> computeNHGBuckets numNHG lb = Some (lbBuckets it)"
proof -
  have n: "lb \<noteq> []" "w \<noteq> []" "\<forall>s \<in> set lb. 0 < NumNextHops s"
    using assms by (auto simp: validateNHGLoadBalance_Inr validateNHGWeight_Inr)
  then obtain bs ws where b: "computeNHGBuckets numNHG lb = Some bs" "computeNHGWeightBuckets numNHG w = Some ws"
    "length bs = length lb" "length ws = length w" "\<forall>b \<in> set bs. 0 \<le> numLoadBalancingNH b"
    by (auto simp: computeNHGBuckets_def computeNHGWeightBuckets_def partitionNHG_def Let_def dest!: set_zip_rightD)
       (fastforce dest: set_zip_rightD)+
  then show ?thesis
    using n assms(3) by (auto simp: NewNHGBucketIterator_def it_ok_def list_all_iff)
qed

lemma expand_all: "counts \<noteq> [] \<Longrightarrow> expand counts 0 0 = concat (map (\<lambda>j. replicate (nat (counts ! j)) j) [0..<length counts])"
  by (simp add: expand_def upt_conv_Cons)

lemma int_sum_list: "int (sum_list xs) = (\<Sum>x\<leftarrow>xs. int x)"
  by (induction xs) simp_all

lemma length_expand:
  assumes "list_all (\<lambda>c. 0 \<le> c) counts"
  shows "int (length (concat (map (\<lambda>j. replicate (nat (counts ! j)) j) [0..<length counts]))) = sum_list counts"
proof -
  have "map (\<lambda>j. int (nat (counts ! j))) [0..<length counts] = counts"
    using assms by (auto intro!: nth_equalityI simp: list_all_length)
  then show ?thesis by (simp add: length_concat comp_def int_sum_list del: int_nat_eq)
qed

text \<open>C21: When no bucket but the last is empty, the iterator hands out the groups bucket by bucket: as many
  groups as the bucket's size, each with the bucket's number of next hops, capped by the number
  available; no call panics.\<close>

theorem iterator_follows_buckets:
  assumes "validateNHGLoadBalance lbn lb = Inr ()" "validateNHGWeight wn w = Inr ()" "0 \<le> numNHG" "0 \<le> maxNHs"
    and "computeNHGBuckets numNHG lb = Some bs" "list_all (\<lambda>b. 0 < lb_numNHG b) (butlast bs)"
  shows "\<exists>it wss. NewNHGBucketIterator numNHG lb w maxNHs = Some it \<and> next_weights (nat numNHG) it = Some wss
    \<and> map (int \<circ> length) wss =
        concat (map (\<lambda>b. replicate (nat (lb_numNHG b)) (min (numLoadBalancingNH b) maxNHs)) bs)"
proof -
  obtain it where it: "NewNHGBucketIterator numNHG lb w maxNHs = Some it" "it_ok it" "maxNHsAvailable it = maxNHs"
    "lbIdx it = 0" "lbCreated it = 0" "lbBuckets it = bs"
    using NewNHGBucketIterator_ok [OF assms(1,2,4), of numNHG] assms(5) by auto
  let ?c = "map lb_numNHG bs"
  obtain wss where w: "next_weights (nat numNHG) it = Some wss" using next_weights_ok [OF it(2)] by blast
  obtain its where v: "lb_cursor.visit (nat numNHG) it = Some its"
    "map (int \<circ> length) wss = map (\<lambda>i. min (numLoadBalancingNH (bs ! i)) maxNHs) (map lbIdx its)"
    using next_weights_visit [OF w] it by (auto simp: comp_def)
  obtain counts where p: "partitionNHG numNHG lb lbp_Pct = Some counts" "length counts = length lb" "sum_list counts = numNHG"
    "list_all (\<lambda>c. 0 \<le> c) counts"
    using partitionNHG_sizes [of lb lbp_Pct numNHG] assms(1,3) by (auto simp: validateNHGLoadBalance_Inr)
  have "?c = counts" using assms(5) p(1,2) by (auto simp: computeNHGBuckets_def comp_def split_beta' map_fst_zip)
  then have c: "sum_list ?c = numNHG" "list_all (\<lambda>c. 0 \<le> c) ?c" "?c \<noteq> []"
    using p it(2,6) by (auto simp: it_ok_def)
  have len: "length (expand ?c 0 0) = nat numNHG" using length_expand [OF c(2)] c(1) expand_all [OF c(3)] by simp
  have "map lbIdx its = take (nat numNHG) (expand ?c 0 0)"
    using lb_cursor.visit_expand [OF v(1)] it assms(6) c(3) len by (simp add: list_all_iff map_butlast [symmetric])
  also have "\<dots> = concat (map (\<lambda>j. replicate (nat (?c ! j)) j) [0..<length ?c])" using len expand_all [OF c(3)] by simp
  also have "\<dots> = concat (map (\<lambda>j. replicate (nat (lb_numNHG (bs ! j))) j) [0..<length bs])"
    by (rule arg_cong [where f = concat]) simp
  finally have "map (int \<circ> length) wss =
      concat (map (\<lambda>j. replicate (nat (lb_numNHG (bs ! j))) (min (numLoadBalancingNH (bs ! j)) maxNHs)) [0..<length bs])"
    unfolding v(2) by (simp add: map_concat comp_def)
  also have "\<dots> = concat (map (\<lambda>b. replicate (nat (lb_numNHG b)) (min (numLoadBalancingNH b) maxNHs)) bs)"
    by (rule arg_cong [where f = concat]) (auto intro!: nth_equalityI)
  finally show ?thesis using it(1) w by blast
qed

theorem iterator_follows_buckets_witness:
  "\<exists>it wss. NewNHGBucketIterator 8 [\<lparr>lbp_Pct = 75, NumNextHops = 4\<rparr>, \<lparr>lbp_Pct = 25, NumNextHops = 16\<rparr>]
      [\<lparr>wp_Pct = 100, Config = Some (WCMP 64)\<rparr>] 10 = Some it \<and> next_weights 8 it = Some wss
    \<and> map (int \<circ> length) wss = [4, 4, 4, 4, 4, 4, 10, 10]"
proof -
  let ?lb = "[\<lparr>lbp_Pct = 75, NumNextHops = 4\<rparr>, \<lparr>lbp_Pct = 25, NumNextHops = 16\<rparr>] :: NHGLoadBalancingParams list"
  let ?w = "[\<lparr>wp_Pct = 100, Config = Some (WCMP 64)\<rparr>] :: NHGWeightParams list"
  have v: "validateNHGLoadBalance [] ?lb = Inr ()" "validateNHGWeight [] ?w = Inr ()"
    by (simp_all add: validateNHGLoadBalance_Inr validateNHGWeight_Inr weight_ok_def)
  have b: "computeNHGBuckets 8 ?lb = Some [\<lparr>lb_numNHG = 6, numLoadBalancingNH = 4\<rparr>, \<lparr>lb_numNHG = 2, numLoadBalancingNH = 16\<rparr>]"
    by (simp add: computeNHGBuckets_def partitionNHG_def)
  show ?thesis
    using iterator_follows_buckets [OF v _ _ b, of 10] by (simp add: eval_nat_numeral)
qed

text \<open>The cursor moves by at most one bucket per call, so an empty bucket between others still gets one
  group: ten groups split 50, 1 and 49 percent give bucket sizes 5, 0 and 5, and yet the sixth group
  has the four next hops of the empty bucket and the last bucket is one group short.\<close>

theorem iterator_empty_bucket:
  "\<exists>it wss. NewNHGBucketIterator 10 [\<lparr>lbp_Pct = 50, NumNextHops = 2\<rparr>, \<lparr>lbp_Pct = 1, NumNextHops = 4\<rparr>, \<lparr>lbp_Pct = 49, NumNextHops = 8\<rparr>]
      [\<lparr>wp_Pct = 100, Config = Some ECMP\<rparr>] 100 = Some it \<and> map lb_numNHG (lbBuckets it) = [5, 0, 5]
    \<and> next_weights 10 it = Some wss \<and> map length wss = [2, 2, 2, 2, 2, 4, 8, 8, 8, 8]"
  by (simp add: NewNHGBucketIterator_def computeNHGBuckets_def computeNHGWeightBuckets_def partitionNHG_def
      eval_nat_numeral it_next_def advance_def cfg_weights_def)

end
