(* ===== verification/Gribi_Scale.thy ===== *)
theory Gribi_Scale
  imports Iputil Gribi Scale_Weights
begin

text \<open>
  The programming part of \<^verbatim>\<open>internal/cfgplugins/gribifullscale.go\<close>: the builders of the entries of each
  network instance, the batches in which they are sent, and the check of the results.

  Every builder first computes its entries and then calls \<^verbatim>\<open>BatchModify\<close> and \<^verbatim>\<open>VerifyFIBProgrammed\<close>; the
  definitions \<open>default_entries\<close>, \<open>static_entries\<close>, \<open>repair_entries\<close>, \<open>transit_entries\<close> and \<open>encap_entries\<close>
  are the first half, the second is in \<open>Scale_Program\<close>. A \<^verbatim>\<open>t.Fatalf\<close> or a run-time panic is an error value.
  Next-hop and group identifiers are 64-bit words.

  \<open>programmable\<close> is what a device asks of the entries it is sent: no identifier used twice, and every
  next hop, backup group and group defined before it is referred to.
\<close>

section \<open>Constants and parameters\<close>

definition DUTPort2IPv4Start :: string where "DUTPort2IPv4Start = ''193.51.0.1''"
definition ATEPort2IPv4Start :: string where "ATEPort2IPv4Start = ''193.51.0.2''"
definition PortIPv4Step :: string where "PortIPv4Step = ''0.0.0.4''"
definition IPv4PrefixStartAddress :: string where "IPv4PrefixStartAddress = ''10.0.0.1''"
definition TransitVRF111PrefixStart :: string where "TransitVRF111PrefixStart = ''100.0.0.1''"
definition TransitVRF222PrefixStart :: string where "TransitVRF222PrefixStart = ''101.0.0.1''"
definition CommonPrefixStep :: string where "CommonPrefixStep = ''0.0.0.1''"
definition CommonIPv6PrefixStep :: string where "CommonIPv6PrefixStep = ''::1''"
definition DecapVRFStr :: string where "DecapVRFStr = ''DECAP_TE_VRF''"
definition TransitVRF111Str :: string where "TransitVRF111Str = ''TE_VRF_111''"
definition TransitVRF222Str :: string where "TransitVRF222Str = ''TE_VRF_222''"
definition RepairVRFStr :: string where "RepairVRFStr = ''REPAIR_VRF''"
definition IPv4OuterSrc111 :: string where "IPv4OuterSrc111 = ''198.51.100.111''"
definition IPv4OuterSrc222 :: string where "IPv4OuterSrc222 = ''198.51.100.222''"
definition ShutdownVLANPct :: int where "ShutdownVLANPct = 50"
definition DefaultGRIBIBatchSize :: int where "DefaultGRIBIBatchSize = 2000"

definition NHBaseDefault :: "64 word" where "NHBaseDefault = 1000"
definition NHGBaseDefault :: "64 word" where "NHGBaseDefault = 2000"
definition NHBaseTransit :: "64 word" where "NHBaseTransit = 10000"
definition NHGBaseTransit :: "64 word" where "NHGBaseTransit = 20000"
definition NHBaseRepair :: "64 word" where "NHBaseRepair = 30000"
definition NHGBaseRepair :: "64 word" where "NHGBaseRepair = 32000"
definition NHBaseEncap :: "64 word" where "NHBaseEncap = 50000"
definition NHGBaseEncap :: "64 word" where "NHGBaseEncap = 82000"
definition NHBaseDecap :: "64 word" where "NHBaseDecap = 120000"
definition NHGBaseDecap :: "64 word" where "NHGBaseDecap = 120100"
definition StaticS1NHG :: "64 word" where "StaticS1NHG = 9001"
definition StaticS2NHG :: "64 word" where "StaticS2NHG = 9002"

lemmas id_bases = NHBaseDefault_def NHGBaseDefault_def NHBaseTransit_def NHGBaseTransit_def NHBaseRepair_def NHGBaseRepair_def
  NHBaseEncap_def NHGBaseEncap_def NHBaseDecap_def NHGBaseDecap_def StaticS1NHG_def StaticS2NHG_def

definition decapPrefixLens :: "nat list" where "decapPrefixLens = [22, 24, 26, 28]"

record ScaleParams =
  GRIBIBatchSize :: int
  NumDefaultNH :: int
  NumDefaultNHG :: int
  DefaultNHGLoadBalance :: "NHGLoadBalancingParams list"
  DefaultNHGWeight :: "NHGWeightParams list"
  NumDefaultIPv4 :: int
  NumTransitNH :: int
  NumTransitNHG :: int
  TransitNHGLoadBalance :: "NHGLoadBalancingParams list"
  TransitNHGWeight :: "NHGWeightParams list"
  NumTransitIPv4 :: int
  NumRepairIPv4 :: int
  NumRepairNHG :: int
  NumEncapVRFs :: int
  NumUniqueEncapNH :: int
  NumEncapDefaultNHG :: int
  EncapNHGLoadBalance :: "NHGLoadBalancingParams list"
  EncapNHGWeight :: "NHGWeightParams list"
  NumEncapIPv4PerVRF :: int
  NumEncapIPv6PerVRF :: int
  NumDecapEntries :: int
  DecapDestsSubsetPct :: int
  TrafficLossTol :: "64 word"
  TrafficRateMpps :: "64 word"
  NumPort2VLANs :: int

definition validateScaleParams :: "ScaleParams \<Rightarrow> (scale_error, unit) res" where
  "validateScaleParams params =
     bind_res (validateNHGLoadBalance ''DefaultNHGLoadBalance'' (DefaultNHGLoadBalance params)) (\<lambda>_.
     bind_res (validateNHGWeight ''DefaultNHGWeight'' (DefaultNHGWeight params)) (\<lambda>_.
     if NumEncapVRFs params \<le> 0 then Inl (BadParam ''NumEncapVRFs'')
     else if NumEncapDefaultNHG params < NumEncapVRFs params then Inl (BadParam ''NumEncapDefaultNHG'')
     else if NumUniqueEncapNH params > 0 \<and> NumTransitIPv4 params = 0 then Inl (BadParam ''NumTransitIPv4'')
     else
     bind_res (validateNHGLoadBalance ''EncapNHGLoadBalance'' (EncapNHGLoadBalance params)) (\<lambda>_.
     bind_res (validateNHGWeight ''EncapNHGWeight'' (EncapNHGWeight params)) (\<lambda>_.
     if NumDecapEntries params < 0 then Inl (BadParam ''NumDecapEntries'')
     else if DecapDestsSubsetPct params < 0 \<or> DecapDestsSubsetPct params > 100 then Inl (BadParam ''DecapDestsSubsetPct'')
     else
     bind_res (validateNHGLoadBalance ''TransitNHGLoadBalance'' (TransitNHGLoadBalance params)) (\<lambda>_.
     bind_res (validateNHGWeight ''TransitNHGWeight'' (TransitNHGWeight params)) (\<lambda>_.
     if NumPort2VLANs params \<le> 0 then Inl (BadParam ''NumPort2VLANs'') else Inr ()))))))"

datatype scale_fatal = GenErr ip_error | Panic | GribiErr gribi_fatal | ParamErr scale_error | FIBMissing

definition or_panic :: "'a option \<Rightarrow> (scale_fatal, 'a) res" where
  "or_panic x = (case x of None \<Rightarrow> Inl Panic | Some v \<Rightarrow> Inr v)"

definition gen :: "(ip_error, 'a) res \<Rightarrow> (scale_fatal, 'a) res" where
  "gen r = map_sum GenErr id r"

definition nth_opt :: "'a list \<Rightarrow> nat \<Rightarrow> 'a option" where
  "nth_opt xs i = (if i < length xs then Some (xs ! i) else None)"

text \<open>Go's \<^verbatim>\<open>i % n\<close> for an index \<open>i\<close>: division by zero panics.\<close>

definition go_mod :: "nat \<Rightarrow> int \<Rightarrow> nat option" where
  "go_mod i n = (if n = 0 then None else Some (nat (int i smod n)))"

definition slash :: "string \<Rightarrow> nat \<Rightarrow> string" where
  "slash host len = host @ ''/'' @ dec len"


text \<open>The generated address ranges, as numbers.\<close>

lemma start_values:
  "v4_value ATEPort2IPv4Start = 3241345026" "v4_value PortIPv4Step = 4" 
  "v4_value IPv4PrefixStartAddress = 167772161" "v4_value CommonPrefixStep = 1" 
  "v4_value TransitVRF111PrefixStart = 1677721601" 
  "v4_value TransitVRF222PrefixStart = 1694498817"  
  "v4_value (''200.'' @ dec 0 @ ''.0.1'') = 3355443201"
  by (simp_all add: v4_value_def ip_eval ATEPort2IPv4Start_def PortIPv4Step_def IPv4PrefixStartAddress_def
     TransitVRF111PrefixStart_def TransitVRF222PrefixStart_def CommonPrefixStep_def)

section \<open>Names of the network instances\<close>

text \<open>\<^verbatim>\<open>%c\<close>: the UTF-8 bytes of a code point; the replacement character for what is none.\<close>

definition utf8 :: "nat \<Rightarrow> string" where
  "utf8 n =
     map char_of
       (if n < 0x80 then [n]
        else if n < 0x800 then [192 + n div 64, 128 + n mod 64]
        else if (0xd800 \<le> n \<and> n < 0xe000) \<or> 0x10ffff < n then [239, 191, 189]
        else if n < 0x10000 then [224 + n div 4096, 128 + n div 64 mod 64, 128 + n mod 64]
        else [240 + n div 262144, 128 + n div 4096 mod 64, 128 + n div 64 mod 64, 128 + n mod 64])"

text \<open>A negative count is the panic of \<^verbatim>\<open>make\<close>.\<close>

definition BuildEncapVRFs :: "int \<Rightarrow> string list option" where
  "BuildEncapVRFs numEncapVRFs =
     (if numEncapVRFs < 0 then None
      else Some (map (\<lambda>i. ''ENCAP_TE_VRF_'' @ utf8 (65 + i)) [0..<nat numEncapVRFs]))"

definition BuildAllNonDefaultVRFs :: "string list \<Rightarrow> string list" where
  "BuildAllNonDefaultVRFs encapVRFs = encapVRFs @ [TransitVRF111Str, TransitVRF222Str, RepairVRFStr, DecapVRFStr]"


section \<open>Entries\<close>

text \<open>The loop that builds \<open>n\<close> groups from number \<open>i\<close> on: the weights come from the iterator, the next
  hops are taken round-robin. It also returns where the round-robin stopped. The iterator gives at
  most \<open>nhCount\<close> weights, so the remainder is only taken for a positive \<open>nhCount\<close>.\<close>

fun nhg_loop ::
  "string \<Rightarrow> 64 word \<Rightarrow> 64 word \<Rightarrow> int \<Rightarrow> 64 word option \<Rightarrow> nat \<Rightarrow> nat \<Rightarrow> nat \<Rightarrow> NHGBucketIterator \<Rightarrow>
     (nhg_entry list \<times> nat) option" where
  "nhg_loop ni baseNHG baseNH nhCount backup 0 i nhOffset it = Some ([], nhOffset)"
| "nhg_loop ni baseNHG baseNH nhCount backup (Suc n) i nhOffset it =
     (case it_next it of
        None \<Rightarrow> None
      | Some (it, weights) \<Rightarrow>
          let nhg = fold (\<lambda>(j, w). AddNextHop (baseNH + of_nat ((nhOffset + j) mod nat nhCount)) w) (enumerate 0 weights)
                      ((NextHopGroupEntry (baseNHG + of_nat i) ni)\<lparr>nhg_backup := backup\<rparr>) in
          map_option (\<lambda>(nhgs, off). (nhg # nhgs, off))
            (nhg_loop ni baseNHG baseNH nhCount backup n (Suc i) (nhOffset + length weights) it))"

definition ip_via :: "string \<Rightarrow> string \<Rightarrow> string \<Rightarrow> 64 word \<Rightarrow> ip_entry" where
  "ip_via defaultVRF ni pfx nhg = (IPEntry ni pfx)\<lparr>ip_nhg := Some nhg, ip_nhgNI := Some defaultVRF\<rparr>"

text \<open>One /32 or /128 entry per host, the groups \<open>base\<close>, \<open>base + 1\<close>, ... in turn.\<close>

definition host_entries :: "string \<Rightarrow> string \<Rightarrow> nat \<Rightarrow> 64 word \<Rightarrow> int \<Rightarrow> string list \<Rightarrow> ip_entry list option" where
  "host_entries defaultVRF ni len base nhgCount hosts =
     those (map (\<lambda>(i, host). map_option (\<lambda>k. ip_via defaultVRF ni (slash host len) (base + of_nat k)) (go_mod i nhgCount))
       (enumerate 0 hosts))"

text \<open>The result of the first half of a builder: entries, prefixes to verify, and what it returns.\<close>

type_synonym wants = "(string \<times> string list) list"

definition default_nhs :: "string \<Rightarrow> string list \<Rightarrow> int \<Rightarrow> int \<Rightarrow> int \<Rightarrow> nh_entry list option" where
  "default_nhs defaultVRF atePort2Ips numNHPart primaryVLANs backupVLANs =
     those
       (map (\<lambda>i. map_option (\<lambda>ip. (NextHopEntry (NHBaseDefault + of_nat i) defaultVRF)\<lparr>nh_ip := Some ip\<rparr>)
                   (nth_opt atePort2Ips (i mod nat primaryVLANs))) [0..<nat numNHPart]
        @ map (\<lambda>i. map_option (\<lambda>ip. (NextHopEntry (NHBaseDefault + of_nat (nat numNHPart) + of_nat i) defaultVRF)\<lparr>nh_ip := Some ip\<rparr>)
                   (nth_opt atePort2Ips (if backupVLANs > 0 then nat primaryVLANs + i mod nat backupVLANs else i mod nat primaryVLANs)))
            [0..<nat numNHPart])"

definition default_entries ::
  "string \<Rightarrow> ScaleParams \<Rightarrow> (scale_fatal, gribi_entry list \<times> wants \<times> string list \<times> string list) res" where
  "default_entries defaultVRF params =
     bind_res (gen (GenerateIPsWithStep ATEPort2IPv4Start (NumPort2VLANs params) PortIPv4Step)) (\<lambda>atePort2Ips.
     bind_res (gen (GenerateIPsWithStep IPv4PrefixStartAddress (NumDefaultIPv4 params) CommonPrefixStep)) (\<lambda>prefixHosts.
     let numNHPart = max (NumDefaultNH params sdiv 2) 1;
         numNHGPart = max (NumDefaultNHG params sdiv 2) 1;
         numIPv4Part = max (NumDefaultIPv4 params sdiv 2) 1;
         nhgBaseBackup = NHGBaseDefault + of_int numNHGPart;
         nhBaseBackup = NHBaseDefault + of_int numNHPart;
         primaryVLANs = max ((NumPort2VLANs params * ShutdownVLANPct) sdiv 100) 1;
         backupVLANs = NumPort2VLANs params - primaryVLANs;
         buildNHGs = (\<lambda>baseNHG baseNH.
           case NewNHGBucketIterator numNHGPart (DefaultNHGLoadBalance params) (DefaultNHGWeight params) numNHPart of
             None \<Rightarrow> None
           | Some iter \<Rightarrow> map_option fst (nhg_loop defaultVRF baseNHG baseNH numNHPart None (nat numNHGPart) 0 0 iter)) in
     bind_res (or_panic (default_nhs defaultVRF atePort2Ips numNHPart primaryVLANs backupVLANs)) (\<lambda>nhs.
     bind_res (or_panic (buildNHGs NHGBaseDefault NHBaseDefault)) (\<lambda>nhgs1.
     bind_res (or_panic (buildNHGs nhgBaseBackup nhBaseBackup)) (\<lambda>nhgs2.
     bind_res (or_panic (those (map (nth_opt prefixHosts) [0..<nat numIPv4Part]))) (\<lambda>primaryPrefixes.
     bind_res (or_panic (host_entries defaultVRF defaultVRF 32 NHGBaseDefault numNHGPart primaryPrefixes)) (\<lambda>ips1.
     bind_res (or_panic (those (map (\<lambda>i. let k = nat numIPv4Part + i in
                nth_opt prefixHosts (if length prefixHosts \<le> k then i mod length prefixHosts else k)) [0..<nat numIPv4Part]))) (\<lambda>backupPrefixes.
     bind_res (or_panic (host_entries defaultVRF defaultVRF 32 nhgBaseBackup numNHGPart backupPrefixes)) (\<lambda>ips2.
     Inr (map NH nhs @ map NHG nhgs1 @ map NHG nhgs2 @ map IPv4 ips1 @ map IPv4 ips2,
          [(defaultVRF, [slash (hd prefixHosts) 32, slash (last prefixHosts) 32])],
          primaryPrefixes, backupPrefixes))))))))))"

definition vrf_opt :: "string \<Rightarrow> NHOptions option" where
  "vrf_opt vrf = Some \<lparr>opt_Src = [], opt_Dest = [], opt_VrfName = vrf, opt_Mac = [], opt_Interface = [], opt_SubInterface = 0\<rparr>"

definition tunnel_opt :: "string \<Rightarrow> string \<Rightarrow> string \<Rightarrow> NHOptions option" where
  "tunnel_opt src dst vrf = Some \<lparr>opt_Src = src, opt_Dest = dst, opt_VrfName = vrf, opt_Mac = [], opt_Interface = [], opt_SubInterface = 0\<rparr>"

definition nh_entry_of :: "64 word \<Rightarrow> string \<Rightarrow> string \<Rightarrow> NHOptions option list \<Rightarrow> gribi_entry option" where
  "nh_entry_of i kind ni opts = map_option (NH \<circ> fst) (NHEntry i kind ni FIB_PROGRAMMED opts)"

definition nhg_entry_of :: "64 word \<Rightarrow> (64 word \<times> 64 word) list \<Rightarrow> string \<Rightarrow> NHGOptions option list \<Rightarrow> gribi_entry" where
  "nhg_entry_of i hops ni opts = NHG (fst (NHGEntry i hops ni FIB_PROGRAMMED opts))"

definition static_entries :: "string \<Rightarrow> (scale_fatal, gribi_entry list) res" where
  "static_entries defaultVRF =
     bind_res (or_panic (nh_entry_of StaticS1NHG ''VRFOnly'' defaultVRF [vrf_opt RepairVRFStr])) (\<lambda>s1NH.
     bind_res (or_panic (nh_entry_of StaticS2NHG ''Decap'' defaultVRF [vrf_opt defaultVRF])) (\<lambda>s2NH.
     Inr [s1NH, nhg_entry_of StaticS1NHG [(StaticS1NHG, 1)] defaultVRF [],
          s2NH, nhg_entry_of StaticS2NHG [(StaticS2NHG, 1)] defaultVRF []]))"

text \<open>\<open>multi\<close> says that the vendor supports re-encapsulation into several tunnels; \<open>ord\<close> is the order in
  which a map of two next hops is read.\<close>

fun repair_loop ::
  "((64 word \<times> 64 word) list \<Rightarrow> (64 word \<times> 64 word) list) \<Rightarrow> string \<Rightarrow> 64 word \<Rightarrow> bool \<Rightarrow> int \<Rightarrow> string list \<Rightarrow>
     nat \<Rightarrow> nat \<Rightarrow> nat \<Rightarrow> gribi_entry list option" where
  "repair_loop ord defaultVRF s2NHG multi numNHG tunnelDsts 0 i nhIdx = Some []"
| "repair_loop ord defaultVRF s2NHG multi numNHG tunnelDsts (Suc n) i nhIdx =
     (let nh = (\<lambda>k. case nth_opt tunnelDsts k of
                      None \<Rightarrow> None
                    | Some dst \<Rightarrow> nh_entry_of (NHBaseRepair + of_nat k) ''DecapEncap'' defaultVRF
                                    [tunnel_opt IPv4OuterSrc222 dst TransitVRF222Str]);
          nhg = (\<lambda>hops. nhg_entry_of (NHGBaseRepair + of_nat i) hops defaultVRF [Some \<lparr>BackupNHG = s2NHG\<rparr>]) in
      if int i < numNHG sdiv 2 \<or> \<not> multi then
        (case nh nhIdx of
           None \<Rightarrow> None
         | Some e \<Rightarrow> map_option (\<lambda>es. e # nhg [(NHBaseRepair + of_nat nhIdx, 1)] # es)
                       (repair_loop ord defaultVRF s2NHG multi numNHG tunnelDsts n (Suc i) (nhIdx + 1)))
      else
        (case (nh nhIdx, nh (nhIdx + 1)) of
           (Some e0, Some e1) \<Rightarrow>
             map_option (\<lambda>es. e0 # e1 # nhg (ord [(NHBaseRepair + of_nat nhIdx, 1), (NHBaseRepair + of_nat nhIdx + 1, 1)]) # es)
               (repair_loop ord defaultVRF s2NHG multi numNHG tunnelDsts n (Suc i) (nhIdx + 2))
         | _ \<Rightarrow> None))"

definition repair_entries ::
  "((64 word \<times> 64 word) list \<Rightarrow> (64 word \<times> 64 word) list) \<Rightarrow> bool \<Rightarrow> string \<Rightarrow> 64 word \<Rightarrow> ScaleParams \<Rightarrow>
     (scale_fatal, gribi_entry list \<times> wants) res" where
  "repair_entries ord multi defaultVRF s2NHG params =
     bind_res (gen (GenerateIPsWithStep TransitVRF222PrefixStart (NumRepairNHG params * 2) CommonPrefixStep)) (\<lambda>tunnelDsts.
     bind_res (or_panic (repair_loop ord defaultVRF s2NHG multi (NumRepairNHG params) tunnelDsts (nat (NumRepairNHG params)) 0 0)) (\<lambda>nhNhgEntries.
     bind_res (gen (GenerateIPsWithStep TransitVRF111PrefixStart (NumRepairIPv4 params) CommonPrefixStep)) (\<lambda>repairPrefixes.
     bind_res (or_panic (host_entries defaultVRF RepairVRFStr 32 NHGBaseRepair (NumRepairNHG params) repairPrefixes)) (\<lambda>ips.
     if repairPrefixes = [] then Inl Panic
     else Inr (nhNhgEntries @ map IPv4 ips, [(RepairVRFStr, [slash (hd repairPrefixes) 32, slash (last repairPrefixes) 32])])))))"

definition buildTransitVRF ::
  "string \<Rightarrow> ScaleParams \<Rightarrow> string \<Rightarrow> string \<Rightarrow> string list \<Rightarrow> 64 word \<Rightarrow> int \<Rightarrow> 64 word \<Rightarrow> int \<Rightarrow> 64 word \<Rightarrow>
     (scale_fatal, gribi_entry list \<times> wants) res" where
  "buildTransitVRF defaultVRF params vrfName prefixStart defaultPrefixes baseNHId nhCount baseNHGId nhgCount backupNHG =
     (if nhCount = 0 \<or> nhgCount = 0 then Inr ([], [])
      else
      bind_res (or_panic (those (map (\<lambda>k.
          case go_mod k (int (length defaultPrefixes)) of
            None \<Rightarrow> None
          | Some m \<Rightarrow> Some ((NextHopEntry (baseNHId + of_nat k) defaultVRF)\<lparr>nh_ip := Some (defaultPrefixes ! m)\<rparr>)) [0..<nat nhCount]))) (\<lambda>nhs.
      bind_res (or_panic (NewNHGBucketIterator nhgCount (TransitNHGLoadBalance params) (TransitNHGWeight params) nhCount)) (\<lambda>iter.
      bind_res (or_panic (nhg_loop defaultVRF baseNHGId baseNHId nhCount (Some backupNHG) (nat nhgCount) 0 0 iter)) (\<lambda>(nhgs, _).
      bind_res (gen (GenerateIPsWithStep prefixStart (NumTransitIPv4 params) CommonPrefixStep)) (\<lambda>vrfPrefixes.
      bind_res (or_panic (host_entries defaultVRF vrfName 32 baseNHGId nhgCount vrfPrefixes)) (\<lambda>ips.
      if vrfPrefixes = [] then Inl Panic
      else Inr (map NH nhs @ map NHG nhgs @ map IPv4 ips, [(vrfName, [slash (hd vrfPrefixes) 32])])))))))"

definition transit_entries ::
  "string \<Rightarrow> string list \<Rightarrow> string list \<Rightarrow> 64 word \<Rightarrow> 64 word \<Rightarrow> ScaleParams \<Rightarrow> (scale_fatal, gribi_entry list \<times> wants) res" where
  "transit_entries defaultVRF primaryDefaultPrefixes backupDefaultPrefixes s1NHG s2NHG params =
     (let nhPrimaryCount = max (NumTransitNH params sdiv 2) 1;
          nhgPrimaryCount = max (NumTransitNHG params sdiv 2) 1;
          nhBackupCount = NumTransitNH params - nhPrimaryCount;
          nhgBackupCount = NumTransitNHG params - nhgPrimaryCount in
      bind_res (buildTransitVRF defaultVRF params TransitVRF111Str TransitVRF111PrefixStart primaryDefaultPrefixes
          NHBaseTransit nhPrimaryCount NHGBaseTransit nhgPrimaryCount s1NHG) (\<lambda>(es1, w1).
      bind_res (buildTransitVRF defaultVRF params TransitVRF222Str TransitVRF222PrefixStart backupDefaultPrefixes
          (NHBaseTransit + of_int nhPrimaryCount) nhBackupCount (NHGBaseTransit + of_int nhgPrimaryCount) nhgBackupCount s2NHG) (\<lambda>(es2, w2).
      Inr (es1 @ es2, w1 @ w2))))"

text \<open>One encapsulation VRF: its groups, its IPv4 and IPv6 hosts and the two default routes. \<open>per\<close> groups
  per VRF; the last VRF takes what is left.\<close>

fun encap_loop ::
  "string \<Rightarrow> ScaleParams \<Rightarrow> int \<Rightarrow> nat \<Rightarrow> string list \<Rightarrow> nat \<Rightarrow> (scale_fatal, gribi_entry list \<times> wants \<times> wants) res" where
  "encap_loop defaultVRF params per vi [] nhOffset = Inr ([], [], [])"
| "encap_loop defaultVRF params per vi (vrf # vrfs) nhOffset =
     (let nhIdx = NHBaseEncap + 1;
          nhgIdx = NHGBaseEncap + 1;
          nhgOffset = int vi * per;
          num = (if int vi = NumEncapVRFs params - 1 then NumEncapDefaultNHG params - nhgOffset else per);
          base = nhgIdx + of_int nhgOffset in
      bind_res (or_panic (NewNHGBucketIterator num (EncapNHGLoadBalance params) (EncapNHGWeight params) (NumUniqueEncapNH params))) (\<lambda>iter.
      bind_res (or_panic (nhg_loop defaultVRF base nhIdx (NumUniqueEncapNH params) None (nat num) 0 nhOffset iter)) (\<lambda>(nhgs, nhOffset).
      bind_res (gen (GenerateIPsWithStep (''200.'' @ dec vi @ ''.0.1'') (NumEncapIPv4PerVRF params) CommonPrefixStep)) (\<lambda>v4Prefixes.
      bind_res (or_panic (host_entries defaultVRF vrf 32 base num v4Prefixes)) (\<lambda>v4s.
      if v4Prefixes = [] then Inl Panic else
      bind_res (gen (GenerateIPv6sWithStep (''2001:db8:'' @ hex vi @ ''::1'') (NumEncapIPv6PerVRF params) CommonIPv6PrefixStep)) (\<lambda>v6Prefixes.
      bind_res (or_panic (host_entries defaultVRF vrf 128 base num v6Prefixes)) (\<lambda>v6s.
      if v6Prefixes = [] then Inl Panic else
      bind_res (encap_loop defaultVRF params per (Suc vi) vrfs nhOffset) (\<lambda>(es, w4, w6).
      Inr (map NHG nhgs @ map IPv4 v4s @ map IPv6 v6s
             @ [IPv4 (ip_via defaultVRF vrf ''0.0.0.0/0'' NHGBaseEncap), IPv6 (ip_via defaultVRF vrf ''::/0'' NHGBaseEncap)] @ es,
           (vrf, [slash (hd v4Prefixes) 32, slash (last v4Prefixes) 32, ''0.0.0.0/0'']) # w4,
           (vrf, [slash (hd v6Prefixes) 128, slash (last v6Prefixes) 128, ''::/0'']) # w6)))))))))"

definition decap_prefix :: "nat \<Rightarrow> string" where
  "decap_prefix i =
     slash (''203.'' @ dec (i div 4) @ ''.'' @ dec (i mod 4 * 64) @ ''.0'') (decapPrefixLens ! (i mod length decapPrefixLens))"

definition decap_block :: "string \<Rightarrow> nat \<Rightarrow> gribi_entry list option" where
  "decap_block defaultVRF i =
     map_option (\<lambda>nh. [nh, nhg_entry_of (NHGBaseDecap + of_nat i) [(NHBaseDecap + of_nat i, 1)] defaultVRF [],
                   IPv4 (ip_via defaultVRF DecapVRFStr (decap_prefix i) (NHGBaseDecap + of_nat i))])
       (nh_entry_of (NHBaseDecap + of_nat i) ''Decap'' defaultVRF [])"

definition encap_nhs :: "string \<Rightarrow> ScaleParams \<Rightarrow> string list \<Rightarrow> gribi_entry list option" where
  "encap_nhs defaultVRF params tunnelDsts =
     those (map (\<lambda>i.
       case go_mod i (min (NumUniqueEncapNH params) (NumTransitIPv4 params)) of
         None \<Rightarrow> None
       | Some m \<Rightarrow> (case nth_opt tunnelDsts m of
            None \<Rightarrow> None
          | Some dst \<Rightarrow> nh_entry_of (NHBaseEncap + 1 + of_nat i) ''Encap'' defaultVRF [tunnel_opt IPv4OuterSrc111 dst TransitVRF111Str]))
       [0..<nat (NumUniqueEncapNH params)])"

definition encap_entries :: "string \<Rightarrow> ScaleParams \<Rightarrow> (scale_fatal, gribi_entry list \<times> wants \<times> wants) res" where
  "encap_entries defaultVRF params =
     bind_res (gen (GenerateIPsWithStep TransitVRF111PrefixStart (min (NumUniqueEncapNH params) (NumTransitIPv4 params)) CommonPrefixStep)) (\<lambda>tunnelDsts.
     bind_res (or_panic (nh_entry_of NHBaseEncap ''VRFOnly'' defaultVRF [vrf_opt defaultVRF])) (\<lambda>fallbackNH.
     bind_res (or_panic (encap_nhs defaultVRF params tunnelDsts)) (\<lambda>nhs.
     let fallbackNHG = nhg_entry_of NHGBaseEncap [(NHBaseEncap, 1)] defaultVRF [] in
     bind_res (or_panic (BuildEncapVRFs (NumEncapVRFs params))) (\<lambda>encapVRFs.
     if NumEncapVRFs params = 0 then Inl Panic else
     let per = max (NumEncapDefaultNHG params sdiv NumEncapVRFs params) 1 in
     bind_res (encap_loop defaultVRF params per 0 encapVRFs 0) (\<lambda>(es, w4, w6).
     bind_res (or_panic (those (map (decap_block defaultVRF) [0..<nat (NumDecapEntries params)]))) (\<lambda>decaps.
     Inr (fallbackNH # nhs @ [fallbackNHG] @ es @ concat decaps,
          w4 @ (if NumDecapEntries params \<le> 0 then []
                else [(DecapVRFStr, if NumDecapEntries params = 1 then [decap_prefix 0]
                        else [decap_prefix 0, decap_prefix (nat (NumDecapEntries params) - 1)])]),
          w6)))))))"

text \<open>The entries of the whole programming phase of \<^verbatim>\<open>RunFullScaleTest\<close>, in the order of the builders.\<close>

definition full_scale_entries ::
  "((64 word \<times> 64 word) list \<Rightarrow> (64 word \<times> 64 word) list) \<Rightarrow> bool \<Rightarrow> string \<Rightarrow> ScaleParams \<Rightarrow> (scale_fatal, gribi_entry list list) res" where
  "full_scale_entries ord multi defaultVRF params =
     bind_res (map_sum ParamErr id (validateScaleParams params)) (\<lambda>_.
     bind_res (default_entries defaultVRF params) (\<lambda>(es1, _, primaryPrefixes, backupPrefixes).
     bind_res (static_entries defaultVRF) (\<lambda>es2.
     bind_res (repair_entries ord multi defaultVRF StaticS2NHG params) (\<lambda>(es3, _).
     bind_res (transit_entries defaultVRF primaryPrefixes backupPrefixes StaticS1NHG StaticS2NHG params) (\<lambda>(es4, _).
     bind_res (encap_entries defaultVRF params) (\<lambda>(es5, _, _). Inr [es1, es2, es3, es4, es5]))))))"


section \<open>Sending and checking\<close>

datatype vendor = ARISTA | NOKIA | OtherVendor

definition repairReencapIntoMultipleBackupTunnels :: "vendor \<Rightarrow> bool" where
  "repairReencapIntoMultipleBackupTunnels v \<longleftrightarrow> v \<noteq> NOKIA"

definition NewGRIBIClient :: "'c fluent_api \<Rightarrow> 'c \<Rightarrow> (gribi_fatal, 'c Client) res" where
  "NewGRIBIClient api dev =
     (let (cl, ok) = Start api dev \<lparr>FIBACK = True, Persistence = True, fluentC = None, electionID = \<lparr>Low = 0, High = 0\<rparr>\<rparr> in
      if ok then Client_BecomeLeader api cl else Inl AwaitError)"

definition isFailure :: "OpResult \<Rightarrow> bool" where
  "isFailure op \<longleftrightarrow> ServerError op \<noteq> [] \<or> ClientError op \<noteq> [] \<or> ProgrammingResult op = FIB_FAILED"

datatype failure_kind = NHFailure | NHGFailure | IPFailure

definition failure_kind_of :: "OpResult \<Rightarrow> failure_kind" where
  "failure_kind_of op =
     (case Details op of
        None \<Rightarrow> IPFailure
      | Some d \<Rightarrow>
          if NextHopIndex d \<noteq> 0 then NHFailure
          else if NextHopGroupID d \<noteq> 0 then NHGFailure
          else IPFailure)"

record failures =
  totalNH :: nat
  totalNHG :: nat
  totalIP :: nat
  nhFailures :: "OpResult list"
  nhgFailures :: "OpResult list"
  ipFailures :: "OpResult list"

definition keep_ten :: "OpResult \<Rightarrow> OpResult list \<Rightarrow> OpResult list" where
  "keep_ten op l = (if length l < 10 then l @ [op] else l)"

definition count_failure :: "OpResult \<Rightarrow> failures \<Rightarrow> failures" where
  "count_failure op f =
     (if \<not> isFailure op then f
      else case failure_kind_of op of
        NHFailure \<Rightarrow> f\<lparr>totalNH := totalNH f + 1, nhFailures := keep_ten op (nhFailures f)\<rparr>
      | NHGFailure \<Rightarrow> f\<lparr>totalNHG := totalNHG f + 1, nhgFailures := keep_ten op (nhgFailures f)\<rparr>
      | IPFailure \<Rightarrow> f\<lparr>totalIP := totalIP f + 1, ipFailures := keep_ten op (ipFailures f)\<rparr>)"

text \<open>The second component is what is reported: the three lists that are logged.\<close>

definition ValidateGRIBIResults :: "OpResult list \<Rightarrow> bool \<times> failures" where
  "ValidateGRIBIResults results =
     (let f = fold count_failure results
        \<lparr>totalNH = 0, totalNHG = 0, totalIP = 0, nhFailures = [], nhgFailures = [], ipFailures = []\<rparr> in
      (nhFailures f \<noteq> [] \<or> nhgFailures f \<noteq> [] \<or> ipFailures f \<noteq> [], f))"

text \<open>The loop over the batches: \<^verbatim>\<open>entries[i:end]\<close> from \<open>i\<close> on.\<close>

function batches :: "nat \<Rightarrow> 'a list \<Rightarrow> 'a list list" where
  "batches n entries = (if n = 0 \<or> entries = [] then [] else take n entries # batches n (drop n entries))"
  by pat_completeness auto

termination by (relation "measure (length \<circ> snd)") auto

declare batches.simps [simp del]

fun send_batches :: "'c fluent_api \<Rightarrow> vendor \<Rightarrow> gribi_entry list list \<Rightarrow> 'c Client \<Rightarrow> (gribi_fatal, 'c Client) res" where
  "send_batches api v [] cl = Inr cl"
| "send_batches api v (b # bs) cl =
     bind_res (AddEntries api b [] cl) (\<lambda>cl.
     bind_res (if v \<noteq> ARISTA then on_fluent (\<lambda>c. let (c, ok) = awaitTimeout api c in if ok then Inr c else Inl AwaitError) cl else Inr cl)
       (send_batches api v bs))"

definition BatchModify :: "'c fluent_api \<Rightarrow> vendor \<Rightarrow> gribi_entry list \<Rightarrow> int \<Rightarrow> 'c \<Rightarrow> (gribi_fatal, 'c Client \<times> bool) res" where
  "BatchModify api v entries gribiBatchSize dev =
     bind_res (NewGRIBIClient api dev) (\<lambda>gSession.
     let n = (if gribiBatchSize \<le> 0 then DefaultGRIBIBatchSize else gribiBatchSize) in
     bind_res (send_batches api v (batches (nat n) entries) gSession) (\<lambda>gSession.
     case fluentC gSession of
       None \<Rightarrow> Inl NotStarted
     | Some c \<Rightarrow> Inr (gSession, fst (ValidateGRIBIResults (f_results api c)))))"

definition want_results :: "bool \<Rightarrow> string list \<Rightarrow> OpResult list" where
  "want_results isIPv6 prefixes =
     map (\<lambda>pfx. opResult (if isIPv6 then (opDetails Add)\<lparr>IPv6Prefix := pfx\<rparr> else (opDetails Add)\<lparr>IPv4Prefix := pfx\<rparr>) FIB_PROGRAMMED) prefixes"

text \<open>True when every wanted prefix of every VRF is in the results cache.\<close>

definition VerifyFIBProgrammed :: "'c fluent_api \<Rightarrow> 'c Client \<Rightarrow> wants \<Rightarrow> wants \<Rightarrow> bool" where
  "VerifyFIBProgrammed api cl wantPrefixesV4 wantPrefixesV6 \<longleftrightarrow>
     (case fluentC cl of
        None \<Rightarrow> False
      | Some c \<Rightarrow> list_all (\<lambda>(vrf, pfxs). f_hasResultsCache api (f_results api c) (want_results False pfxs)) wantPrefixesV4
               \<and> list_all (\<lambda>(vrf, pfxs). f_hasResultsCache api (f_results api c) (want_results True pfxs)) wantPrefixesV6)"

definition FetchUniqueItems :: "string list \<Rightarrow> string list" where
  "FetchUniqueItems s = rev (snd (fold (\<lambda>item (seen, l). if item \<in> set seen then (seen, l) else (item # seen, item # l)) s ([], [])))"


section \<open>Batches and results\<close>

lemma concat_batches: "0 < n \<Longrightarrow> concat (batches n entries) = entries"
proof (induction n entries rule: batches.induct)
  case (1 n entries)
  then show ?case by (cases "entries = []") (simp_all add: batches.simps [of n entries] batches.simps [of n "[]"])
qed

lemma batches_bounded: "0 < n \<Longrightarrow> list_all (\<lambda>b. b \<noteq> [] \<and> length b \<le> n) (batches n entries)"
proof (induction n entries rule: batches.induct)
  case (1 n entries)
  then show ?case by (cases "entries = []") (simp_all add: batches.simps [of n entries] batches.simps [of n "[]"])
qed

definition failures_of :: "failure_kind \<Rightarrow> OpResult list \<Rightarrow> OpResult list" where
  "failures_of k results = filter (\<lambda>op. isFailure op \<and> failure_kind_of op = k) results"

lemma fold_count_failure:
  "fold count_failure results f =
     f\<lparr>totalNH := totalNH f + length (failures_of NHFailure results),
       totalNHG := totalNHG f + length (failures_of NHGFailure results),
       totalIP := totalIP f + length (failures_of IPFailure results),
       nhFailures := fold keep_ten (failures_of NHFailure results) (nhFailures f),
       nhgFailures := fold keep_ten (failures_of NHGFailure results) (nhgFailures f),
       ipFailures := fold keep_ten (failures_of IPFailure results) (ipFailures f)\<rparr>"
  by (induction results arbitrary: f) (auto simp: failures_of_def count_failure_def split: failure_kind.split)

lemma fold_keep_ten: "length l \<le> 10 \<Longrightarrow> fold keep_ten ops l = l @ take (10 - length l) ops"
proof (induction ops arbitrary: l)
  case (Cons op ops)
  then show ?case by (cases "length l < 10") (simp_all add: keep_ten_def take_Cons')
qed simp

text \<open>The validation reports a failure exactly when some operation failed; it counts the failures of
  each kind in full and shows the first ten of each.\<close>

theorem ValidateGRIBIResults_complete:
  "(fst (ValidateGRIBIResults results) \<longleftrightarrow> (\<exists>op \<in> set results. isFailure op))
   \<and> nhFailures (snd (ValidateGRIBIResults results)) = take 10 (failures_of NHFailure results)
   \<and> nhgFailures (snd (ValidateGRIBIResults results)) = take 10 (failures_of NHGFailure results)
   \<and> ipFailures (snd (ValidateGRIBIResults results)) = take 10 (failures_of IPFailure results)
   \<and> totalNH (snd (ValidateGRIBIResults results)) + totalNHG (snd (ValidateGRIBIResults results))
       + totalIP (snd (ValidateGRIBIResults results)) = length (filter isFailure results)"
proof -
  have "(failures_of NHFailure results = [] \<and> failures_of NHGFailure results = [] \<and> failures_of IPFailure results = [])
      \<longleftrightarrow> \<not> (\<exists>op \<in> set results. isFailure op)"
    unfolding failures_of_def filter_empty_conv using failure_kind.exhaust by blast
  moreover have "length (failures_of NHFailure results) + length (failures_of NHGFailure results)
      + length (failures_of IPFailure results) = length (filter isFailure results)"
    unfolding failures_of_def by (induction results) (auto split: if_splits intro: failure_kind.exhaust)
  ultimately show ?thesis
    by (auto simp: ValidateGRIBIResults_def fold_count_failure fold_keep_ten Let_def)
qed

lemma FetchUniqueItems_distinct: "distinct (FetchUniqueItems s) \<and> set (FetchUniqueItems s) = set s"
proof -
  let ?f = "\<lambda>item (seen, l). if item \<in> set seen then (seen, l) else (item # seen, item # l)"
  have inv: "distinct l \<Longrightarrow> \<exists>l'. fold ?f s (l, l) = (l', l') \<and> distinct l' \<and> set l' = set l \<union> set s" for l :: "string list"
  proof (induction s arbitrary: l)
    case (Cons a s)
    show ?case
    proof (cases "a \<in> set l")
      case True
      with Cons.IH [OF Cons.prems] show ?thesis by auto
    next
      case False
      with Cons.IH [of "a # l"] Cons.prems show ?thesis by auto
    qed
  qed simp
  have "distinct ([] :: string list)" by simp
  from inv [OF this] obtain l where l: "fold ?f s ([], []) = (l, l)" "distinct l" "set l = set [] \<union> set s" by blast
  show ?thesis unfolding FetchUniqueItems_def l(1) using l(2,3) by simp
qed


section \<open>What a device accepts\<close>

definition hops_ok :: "64 word set \<Rightarrow> 64 word set \<Rightarrow> nhg_entry \<Rightarrow> bool" where
  "hops_ok N G g \<longleftrightarrow> distinct (map fst (nhg_hops g)) \<and> fst ` set (nhg_hops g) \<subseteq> N \<and> set_option (nhg_backup g) \<subseteq> G"

fun programmable :: "64 word set \<Rightarrow> 64 word set \<Rightarrow> gribi_entry list \<Rightarrow> bool" where
  "programmable N G [] \<longleftrightarrow> True"
| "programmable N G (NH e # es) \<longleftrightarrow> nh_index e \<notin> N \<and> programmable (insert (nh_index e) N) G es"
| "programmable N G (NHG g # es) \<longleftrightarrow> nhg_id g \<notin> G \<and> hops_ok N G g \<and> programmable N (insert (nhg_id g) G) es"
| "programmable N G (IPv4 e # es) \<longleftrightarrow> set_option (ip_nhg e) \<subseteq> G \<and> programmable N G es"
| "programmable N G (IPv6 e # es) \<longleftrightarrow> set_option (ip_nhg e) \<subseteq> G \<and> programmable N G es"

fun nh_ids :: "gribi_entry list \<Rightarrow> 64 word set" where
  "nh_ids [] = {}"
| "nh_ids (NH e # es) = insert (nh_index e) (nh_ids es)"
| "nh_ids (e # es) = nh_ids es"

fun nhg_ids :: "gribi_entry list \<Rightarrow> 64 word set" where
  "nhg_ids [] = {}"
| "nhg_ids (NHG g # es) = insert (nhg_id g) (nhg_ids es)"
| "nhg_ids (e # es) = nhg_ids es"

lemma ids_append [simp]:
  "nh_ids (xs @ ys) = nh_ids xs \<union> nh_ids ys" "nhg_ids (xs @ ys) = nhg_ids xs \<union> nhg_ids ys"
  by (induction xs rule: nh_ids.induct) auto

lemma ids_map_NH [simp]: "nh_ids (map NH nhs) = nh_index ` set nhs" "nhg_ids (map NH nhs) = {}"
  by (induction nhs) simp_all

lemma ids_map_NHG [simp]: "nh_ids (map NHG nhgs) = {}" "nhg_ids (map NHG nhgs) = nhg_id ` set nhgs"
  by (induction nhgs) simp_all

lemma ids_map_IP [simp]: "nh_ids (map IPv4 ips) = {}" "nhg_ids (map IPv4 ips) = {}" "nh_ids (map IPv6 ips) = {}" "nhg_ids (map IPv6 ips) = {}"
  by (induction ips) simp_all

lemma programmable_append:
  "programmable N G (xs @ ys) \<longleftrightarrow> programmable N G xs \<and> programmable (N \<union> nh_ids xs) (G \<union> nhg_ids xs) ys"
proof (induction xs arbitrary: N G)
  case (Cons e xs)
  then show ?case by (cases e) auto
qed simp

lemma programmable_NHs: "programmable N G (map NH nhs) \<longleftrightarrow> distinct (map nh_index nhs) \<and> nh_index ` set nhs \<inter> N = {}"
  by (induction nhs arbitrary: N) auto

lemma hops_ok_mono: "hops_ok N G g \<Longrightarrow> N \<subseteq> N' \<Longrightarrow> G \<subseteq> G' \<Longrightarrow> hops_ok N' G' g"
  by (auto simp: hops_ok_def)

lemma programmable_NHGs:
  "distinct (map nhg_id nhgs) \<Longrightarrow> nhg_id ` set nhgs \<inter> G = {} \<Longrightarrow> (\<And>g. g \<in> set nhgs \<Longrightarrow> hops_ok N G g) \<Longrightarrow>
    programmable N G (map NHG nhgs)"
proof (induction nhgs arbitrary: G)
  case (Cons g nhgs)
  have "hops_ok N (insert (nhg_id g) G) h" if "h \<in> set nhgs" for h
    using Cons.prems(3) [of h] that by (auto intro: hops_ok_mono)
  with Cons show ?case by auto
qed simp

lemma programmable_IPs:
  "programmable N G (map IPv4 ips) \<longleftrightarrow> (\<forall>e \<in> set ips. set_option (ip_nhg e) \<subseteq> G)"
  "programmable N G (map IPv6 ips) \<longleftrightarrow> (\<forall>e \<in> set ips. set_option (ip_nhg e) \<subseteq> G)"
  by (induction ips) auto

text \<open>Ranges of identifiers.\<close>

definition ids :: "64 word \<Rightarrow> nat \<Rightarrow> 64 word set" where
  "ids base n = (\<lambda>i. base + of_nat i) ` {0..<n}"

lemma unat_id: "unat base + i < 2 ^ 64 \<Longrightarrow> unat (base + of_nat i :: 64 word) = unat base + i"
  by (simp add: unat_word_ariths unsigned_of_nat take_bit_nat_eq_self)

lemma in_ids: "unat base + n \<le> 2 ^ 64 \<Longrightarrow> w \<in> ids base n \<longleftrightarrow> unat base \<le> unat w \<and> unat w < unat base + n"
proof
  assume a: "unat base + n \<le> 2 ^ 64" "unat base \<le> unat w \<and> unat w < unat base + n"
  then have "unat w = unat (base + of_nat (unat w - unat base) :: 64 word)" by (subst unat_id) auto
  then have "w = base + of_nat (unat w - unat base)" by (simp add: word_unat_eq_iff)
  moreover have "unat w - unat base < n" using a(2) by auto
  ultimately show "w \<in> ids base n" unfolding ids_def by fastforce
qed (auto simp: ids_def unat_id)

lemma id_inject:
  assumes "unat base + n \<le> 2 ^ 64" "i < n" "j < n"
  shows "base + of_nat i = (base + of_nat j :: 64 word) \<longleftrightarrow> i = j"
proof -
  have "unat (base + of_nat i) = unat base + i" "unat (base + of_nat j) = unat base + j"
    using assms by (simp_all add: unat_id)
  then show ?thesis by (metis add_left_imp_eq)
qed

lemma distinct_ids: "unat base + n \<le> 2 ^ 64 \<Longrightarrow> distinct (map (\<lambda>i. base + of_nat i :: 64 word) [0..<n])"
  unfolding distinct_map by (auto intro!: inj_onI dest: id_inject [THEN iffD1, rotated 3])

lemma ids_disjoint:
  "unat b + n \<le> unat c \<Longrightarrow> unat c + m \<le> 2 ^ 64 \<Longrightarrow> ids b n \<inter> ids c m = {}"
  by (auto simp: in_ids)

lemma ids_add: "ids b (n + m) = ids b n \<union> ids (b + of_nat n) m"
proof -
  have e: "{0..<n + m} = {0..<n} \<union> (\<lambda>i. n + i) ` {0..<m}" by (auto simp: image_iff)
  show ?thesis unfolding ids_def e image_Un image_image of_nat_add add.assoc ..
qed

lemma ids_split_disjoint:
  assumes "unat b + n + m \<le> 2 ^ 64"
  shows "ids b n \<inter> ids (b + of_nat n) m = {}"
proof (cases "m = 0")
  case True
  then show ?thesis by (simp add: ids_def)
next
  case False
  then have "unat (b + of_nat n) = unat b + n" using assms by (intro unat_id) simp
  then show ?thesis using assms by (intro ids_disjoint) simp_all
qed

lemma ids_0 [simp]: "ids b 0 = {}"
  by (simp add: ids_def)

lemma ids_Suc: "ids b (Suc n) = insert b (ids (b + 1) n)"
proof -
  have "ids b 1 = {b}" by (simp add: ids_def)
  with ids_add [of b 1 n] show ?thesis by simp
qed

lemma image_upt_ids: "f ` set l = ids base n" if "map f l = map (\<lambda>i. base + of_nat i) [0..<n]"
  using arg_cong [OF that, of set] by (simp add: ids_def)

text \<open>Loops that may panic.\<close>

lemma those_map: "those (map f xs) = Some ys \<longleftrightarrow> list_all2 (\<lambda>x y. f x = Some y) xs ys"
  by (induction xs arbitrary: ys) (auto simp: list_all2_Cons1 split: option.splits)

lemma those_append: "those (xs @ ys) = Some zs \<longleftrightarrow> (\<exists>as bs. those xs = Some as \<and> those ys = Some bs \<and> zs = as @ bs)"
  by (induction xs arbitrary: zs) (auto split: option.splits)

lemma those_ids:
  assumes "those (map f xs) = Some ys" "\<And>x y. x \<in> set xs \<Longrightarrow> f x = Some y \<Longrightarrow> g y = h x"
  shows "map g ys = map h xs"
  using assms unfolding those_map by (auto simp: list_all2_conv_all_nth intro!: nth_equalityI)

lemma those_set:
  assumes "those (map f xs) = Some ys" "y \<in> set ys"
  obtains x where "x \<in> set xs" "f x = Some y"
proof -
  obtain i where "i < length ys" "y = ys ! i" using assms(2) by (auto simp: in_set_conv_nth)
  then show thesis using assms(1) that [of "xs ! i"] unfolding those_map by (simp add: list_all2_conv_all_nth)
qed

lemma res_simps:
  "or_panic x = Inr y \<longleftrightarrow> x = Some y" "gen r = Inr z \<longleftrightarrow> r = Inr z"
  by (simp add: or_panic_def split: option.split) (cases r, simp_all add: gen_def)

section \<open>The groups of a builder\<close>

lemma fold_AddNextHop:
  "fold (\<lambda>(j, w). AddNextHop (f j) w) l g = g\<lparr>nhg_hops := nhg_hops g @ map (\<lambda>(j, w). (f j, w)) l\<rparr>"
  by (induction l arbitrary: g) (auto simp: AddNextHop_def)

lemma mod_offset_inj: "j < c \<Longrightarrow> k < c \<Longrightarrow> (off + j) mod c = (off + k) mod c \<Longrightarrow> j = (k :: nat)"
proof (induction j k rule: linorder_wlog)
  case (le j k)
  then have "c dvd (off + k) - (off + j)" by (metis add_left_mono mod_eq_dvd_iff_nat)
  then have "c dvd k - j" by simp
  then show ?case using le by (metis dvd_imp_le le_add_diff_inverse less_imp_diff_less linorder_not_less not_gr_zero add.right_neutral)
qed auto

lemma round_robin_hops:
  fixes off :: nat
  assumes "length ws \<le> c" "unat base + c \<le> 2 ^ 64"
  defines "hops \<equiv> map (\<lambda>(j, w). (base + of_nat ((off + j) mod c) :: 64 word, w)) (enumerate 0 ws)"
  shows "distinct (map fst hops) \<and> fst ` set hops \<subseteq> ids base c"
proof -
  have e: "map fst hops = map (\<lambda>j. base + of_nat ((off + j) mod c)) [0..<length ws]"
    unfolding hops_def by (rule nth_equalityI) (auto simp: nth_enumerate_eq)
  have m: "(off + j) mod c < c" if "j < length ws" for j using that assms(1) by simp
  have "inj_on (\<lambda>j. base + of_nat ((off + j) mod c)) {0..<length ws}"
  proof (rule inj_onI)
    fix j k assume a: "j \<in> {0..<length ws}" "k \<in> {0..<length ws}"
      "base + of_nat ((off + j) mod c) = base + of_nat ((off + k) mod c)"
    then have "(off + j) mod c = (off + k) mod c" using id_inject [OF assms(2), of "(off + j) mod c" "(off + k) mod c"] m by simp
    then show "j = k" using mod_offset_inj [of j c k off] a assms(1) by simp
  qed
  then have "distinct (map fst hops)" unfolding e by (simp add: distinct_map)
  moreover have "fst ` set hops = set (map fst hops)" by simp
  ultimately show ?thesis unfolding e ids_def using m by auto
qed

lemma nhg_loop_groups:
  assumes "unat baseNH + nat cnt \<le> 2 ^ 64"
  shows "nhg_loop ni baseNHG baseNH cnt backup n i off it = Some (nhgs, off') \<Longrightarrow> maxNHsAvailable it \<le> cnt \<Longrightarrow>
    map nhg_id nhgs = map (\<lambda>k. baseNHG + of_nat k) [i..<i + n]
    \<and> (\<forall>g \<in> set nhgs. nhg_backup g = backup \<and> distinct (map fst (nhg_hops g)) \<and> fst ` set (nhg_hops g) \<subseteq> ids baseNH (nat cnt))"
proof (induction n arbitrary: i off it nhgs off')
  case (Suc n)
  then obtain it' ws nhgs' where s: "it_next it = Some (it', ws)"
    "nhg_loop ni baseNHG baseNH cnt backup n (Suc i) (off + length ws) it' = Some (nhgs', off')"
    "nhgs = fold (\<lambda>(j, w). AddNextHop (baseNH + of_nat ((off + j) mod nat cnt)) w) (enumerate 0 ws)
       ((NextHopGroupEntry (baseNHG + of_nat i) ni)\<lparr>nhg_backup := backup\<rparr>) # nhgs'"
    by (auto split: option.splits)
  have "maxNHsAvailable it' \<le> cnt" using it_next_length(3) [OF s(1)] Suc.prems(2) by simp
  note ih = Suc.IH [OF s(2) this]
  have "length ws \<le> nat cnt" using it_next_length(1) [OF s(1)] Suc.prems(2) by simp
  note rr = round_robin_hops [OF this assms, of off]
  have u: "[i..<i + Suc n] = i # [Suc i..<Suc i + n]" by (simp add: upt_conv_Cons)
  show ?case unfolding u using ih rr by (auto simp: s(3) fold_AddNextHop NextHopGroupEntry_def)
qed simp

lemma groups_programmable:
  assumes "unat baseNH + nat cnt \<le> 2 ^ 64" "unat baseNHG + n \<le> 2 ^ 64"
    and "nhg_loop ni baseNHG baseNH cnt backup n 0 off it = Some (nhgs, off')" "maxNHsAvailable it \<le> cnt"
    and "ids baseNHG n \<inter> G = {}" "ids baseNH (nat cnt) \<subseteq> N" "set_option backup \<subseteq> G"
  shows "programmable N G (map NHG nhgs) \<and> nhg_id ` set nhgs = ids baseNHG n"
proof -
  have m: "map nhg_id nhgs = map (\<lambda>k. baseNHG + of_nat k) [0..<n]"
    and g: "\<And>g. g \<in> set nhgs \<Longrightarrow> nhg_backup g = backup \<and> distinct (map fst (nhg_hops g)) \<and> fst ` set (nhg_hops g) \<subseteq> ids baseNH (nat cnt)"
    using nhg_loop_groups [OF assms(1,3,4)] by auto
  have i: "nhg_id ` set nhgs = ids baseNHG n" by (rule image_upt_ids [OF m])
  have "distinct (map nhg_id nhgs)" unfolding m by (rule distinct_ids [OF assms(2)])
  moreover have "hops_ok N G h" if "h \<in> set nhgs" for h using g [OF that] assms(6,7) by (auto simp: hops_ok_def)
  ultimately show ?thesis using programmable_NHGs [of nhgs G N] i assms(5) by simp
qed

lemma NewNHGBucketIterator_max: "NewNHGBucketIterator n lb w m = Some it \<Longrightarrow> maxNHsAvailable it = m"
  by (auto simp: NewNHGBucketIterator_def split: option.splits)

lemma host_entries_groups:
  assumes "host_entries vrf ni len base cnt hosts = Some ips" "0 < cnt" "e \<in> set ips"
  shows "set_option (ip_nhg e) \<subseteq> ids base (nat cnt)"
proof -
  from assms(1,3) obtain p where "p \<in> set (enumerate 0 hosts)"
    "(case p of (i, host) \<Rightarrow> map_option (\<lambda>k. ip_via vrf ni (slash host len) (base + of_nat k)) (go_mod i cnt)) = Some e"
    unfolding host_entries_def by (rule those_set)
  then obtain i where "ip_nhg e = Some (base + of_nat (nat (int i smod cnt)))"
    using assms(2) by (auto simp: go_mod_def ip_via_def split: prod.splits)
  moreover have "0 \<le> int i smod cnt" "int i smod cnt < cnt"
    using assms(2) by (simp_all add: signed_modulo_int_def sgn_if)
  ultimately show ?thesis using imageI [of "nat (int i smod cnt)" "{0..<nat cnt}" "\<lambda>i. base + of_nat i"]
    by (simp add: ids_def)
qed


section \<open>Every builder is programmable\<close>

lemma apply_opts_index:
  assumes "\<And>opt nh. nh_index (f opt nh) = nh_index nh"
  shows "apply_opts f opts nh = Some nh' \<Longrightarrow> nh_index nh' = nh_index nh"
proof (induction opts arbitrary: nh)
  case (Cons opt opts)
  then show ?case by (cases opt) (auto simp: assms)
qed simp

lemma nh_entry_of_index:
  assumes "nh_entry_of i kind ni opts = Some e"
  shows "\<exists>nh. e = NH nh \<and> nh_index nh = i"
proof -
  obtain nh where nh: "NHEntry i kind ni FIB_PROGRAMMED opts = Some (nh, opResult ((opDetails Add)\<lparr>NextHopIndex := i\<rparr>) FIB_PROGRAMMED)"
    "e = NH nh"
    using assms by (auto simp: nh_entry_of_def NHEntry_def Let_def)
  then have "nh_index nh = nh_index (NextHopEntry i ni)"
    by (auto simp: NHEntry_def Let_def macWithInterface_def dest!: apply_opts_index [rotated] split: if_splits)
  then show ?thesis using nh(2) by (simp add: NextHopEntry_def)
qed

lemma nhg_entry_of_simp:
  "nhg_entry_of i hops ni [] = NHG \<lparr>nhg_id = i, nhg_ni = ni, nhg_hops = hops, nhg_backup = None\<rparr>"
  "nhg_entry_of i hops ni [Some \<lparr>BackupNHG = b\<rparr>] =
     NHG \<lparr>nhg_id = i, nhg_ni = ni, nhg_hops = hops, nhg_backup = (if b \<noteq> 0 then Some b else None)\<rparr>"
proof -
  have "fold (\<lambda>(i, w). AddNextHop i w) hops (NextHopGroupEntry i ni) = \<lparr>nhg_id = i, nhg_ni = ni, nhg_hops = hops, nhg_backup = None\<rparr>"
    using fold_AddNextHop [of id hops "NextHopGroupEntry i ni"] by (simp add: NextHopGroupEntry_def case_prod_beta')
  then show "nhg_entry_of i hops ni [] = NHG \<lparr>nhg_id = i, nhg_ni = ni, nhg_hops = hops, nhg_backup = None\<rparr>"
    "nhg_entry_of i hops ni [Some \<lparr>BackupNHG = b\<rparr>] =
     NHG \<lparr>nhg_id = i, nhg_ni = ni, nhg_hops = hops, nhg_backup = (if b \<noteq> 0 then Some b else None)\<rparr>"
    by (simp_all add: nhg_entry_of_def NHGEntry_def Let_def)
qed

text \<open>Numbers of identifiers the builders use.\<close>

definition half :: "int \<Rightarrow> nat" where
  "half n = nat (max (n sdiv 2) 1)"

lemma of_int_half: "of_int (max (n sdiv 2) 1) = (of_nat (half n) :: 64 word)"
  by (simp add: half_def)

lemma half_pos [simp]: "0 < half n"
  by (simp add: half_def)

lemma default_nhs_ids:
  assumes "default_nhs vrf ipl num pv bv = Some nhs"
  shows "map nh_index nhs = map (\<lambda>i. NHBaseDefault + of_nat i) [0..<nat num + nat num]"
proof -
  let ?n = "nat num"
  obtain as bs where ab: "nhs = as @ bs"
    "those (map (\<lambda>i. map_option (\<lambda>ip. (NextHopEntry (NHBaseDefault + of_nat i) vrf)\<lparr>nh_ip := Some ip\<rparr>)
                   (nth_opt ipl (i mod nat pv))) [0..<?n]) = Some as"
    "those (map (\<lambda>i. map_option (\<lambda>ip. (NextHopEntry (NHBaseDefault + of_nat ?n + of_nat i) vrf)\<lparr>nh_ip := Some ip\<rparr>)
                   (nth_opt ipl (if bv > 0 then nat pv + i mod nat bv else i mod nat pv))) [0..<?n]) = Some bs"
    using assms unfolding default_nhs_def those_append by blast
  have "map nh_index as = map (\<lambda>i. NHBaseDefault + of_nat i) [0..<?n]"
    by (rule those_ids [OF ab(2)]) (auto simp: NextHopEntry_def)
  moreover have "map nh_index bs = map (\<lambda>i. NHBaseDefault + of_nat ?n + of_nat i) [0..<?n]"
    by (rule those_ids [OF ab(3)]) (auto simp: NextHopEntry_def)
  moreover have "map (\<lambda>i. NHBaseDefault + of_nat ?n + of_nat i) [0..<?n] = map (\<lambda>i. NHBaseDefault + of_nat i) [?n..<?n + ?n]"
    by (rule nth_equalityI) (auto simp: add.assoc)
  ultimately show ?thesis using upt_add_eq_append [of 0 ?n ?n] by (simp add: ab(1))
qed

lemma default_programmable:
  assumes "default_entries vrf p = Inr (es, w, pp, bp)"
    and "half (NumDefaultNH p) \<le> 2 ^ 62" "half (NumDefaultNHG p) \<le> 2 ^ 62"
  shows "programmable {} {} es
    \<and> nh_ids es = ids NHBaseDefault (half (NumDefaultNH p) + half (NumDefaultNH p))
    \<and> nhg_ids es = ids NHGBaseDefault (half (NumDefaultNHG p) + half (NumDefaultNHG p))"
proof -
  let ?n = "max (NumDefaultNH p sdiv 2) 1" and ?g = "max (NumDefaultNHG p sdiv 2) 1"
  let ?nh = "half (NumDefaultNH p)" and ?ng = "half (NumDefaultNHG p)"
  obtain nhs it1 nhgs1 o1 nhgs2 o2 l1 l2 ips1 ips2 pv bv ipl where
    nhs: "default_nhs vrf ipl ?n pv bv = Some nhs" and
    it: "NewNHGBucketIterator ?g (DefaultNHGLoadBalance p) (DefaultNHGWeight p) ?n = Some it1" and
    n1: "nhg_loop vrf NHGBaseDefault NHBaseDefault ?n None ?ng 0 0 it1 = Some (nhgs1, o1)" and
    n2: "nhg_loop vrf (NHGBaseDefault + of_nat ?ng) (NHBaseDefault + of_nat ?nh) ?n None ?ng 0 0 it1 = Some (nhgs2, o2)" and
    i1: "host_entries vrf vrf 32 NHGBaseDefault ?g l1 = Some ips1" and
    i2: "host_entries vrf vrf 32 (NHGBaseDefault + of_nat ?ng) ?g l2 = Some ips2" and
    es: "es = map NH nhs @ map NHG nhgs1 @ map NHG nhgs2 @ map IPv4 ips1 @ map IPv4 ips2"
    using assms(1) unfolding default_entries_def
    by (auto simp: bind_res_Inr_iff res_simps Let_def of_int_half half_def [symmetric] split: option.splits)
  have b: "unat NHBaseDefault = 1000" "unat NHGBaseDefault = 2000" by (simp_all add: id_bases)
  have ub: "unat (NHBaseDefault + of_nat ?nh) = 1000 + ?nh" "unat (NHGBaseDefault + of_nat ?ng) = 2000 + ?ng"
    using assms(2,3) by (simp_all add: unat_id b)
  have nn: "nat ?n = ?nh" by (simp add: half_def)
  have m: "map nh_index nhs = map (\<lambda>i. NHBaseDefault + of_nat i) [0..<?nh + ?nh]" using default_nhs_ids [OF nhs] by (simp add: half_def)
  have nh: "nh_index ` set nhs = ids NHBaseDefault (?nh + ?nh)" by (rule image_upt_ids [OF m])
  have p0: "programmable {} {} (map NH nhs)"
    using m distinct_ids [of NHBaseDefault "?nh + ?nh"] assms(2) by (simp add: programmable_NHs b)
  let ?N = "ids NHBaseDefault (?nh + ?nh)"
  have p1: "programmable ?N {} (map NHG nhgs1) \<and> nhg_id ` set nhgs1 = ids NHGBaseDefault ?ng"
    using assms(2,3) by (intro groups_programmable [OF _ _ n1]) (auto simp: b nn ids_add NewNHGBucketIterator_max [OF it])
  have p2: "programmable ?N (ids NHGBaseDefault ?ng) (map NHG nhgs2) \<and> nhg_id ` set nhgs2 = ids (NHGBaseDefault + of_nat ?ng) ?ng"
    using assms(2,3) ids_disjoint [of NHGBaseDefault ?ng "NHGBaseDefault + of_nat ?ng" ?ng]
    by (intro groups_programmable [OF _ _ n2]) (auto simp: ub nn ids_add b NewNHGBucketIterator_max [OF it])
  have "\<forall>e \<in> set ips1. set_option (ip_nhg e) \<subseteq> ids NHGBaseDefault ?ng"
    using host_entries_groups [OF i1] by (auto simp: half_def)
  moreover have "\<forall>e \<in> set ips2. set_option (ip_nhg e) \<subseteq> ids (NHGBaseDefault + of_nat ?ng) ?ng"
    using host_entries_groups [OF i2] by (auto simp: half_def)
  ultimately show ?thesis
    using p0 p1 p2 by (auto simp: es programmable_append programmable_IPs nh ids_add)
qed

lemma static_programmable:
  assumes "static_entries vrf = Inr es" and "N \<inter> {StaticS1NHG, StaticS2NHG} = {}" "G \<inter> {StaticS1NHG, StaticS2NHG} = {}"
  shows "programmable N G es \<and> nh_ids es = {StaticS1NHG, StaticS2NHG} \<and> nhg_ids es = {StaticS1NHG, StaticS2NHG}"
proof -
  obtain e1 e2 where e: "nh_entry_of StaticS1NHG ''VRFOnly'' vrf [vrf_opt RepairVRFStr] = Some e1"
    "nh_entry_of StaticS2NHG ''Decap'' vrf [vrf_opt vrf] = Some e2"
    "es = [e1, nhg_entry_of StaticS1NHG [(StaticS1NHG, 1)] vrf [], e2, nhg_entry_of StaticS2NHG [(StaticS2NHG, 1)] vrf []]"
    using assms(1) by (auto simp: static_entries_def bind_res_Inr_iff res_simps)
  moreover have "StaticS1NHG \<noteq> StaticS2NHG" by (simp add: id_bases)
  ultimately show ?thesis
    using nh_entry_of_index [OF e(1)] nh_entry_of_index [OF e(2)] assms(2,3)
    by (auto simp: nhg_entry_of_simp hops_ok_def)
qed

text \<open>The repair loop uses one or two next hops per group.\<close>

lemma repair_loop_programmable:
  assumes "\<And>l. mset (ord l) = mset l" "s2NHG \<noteq> 0"
  shows "repair_loop ord vrf s2NHG multi num dsts n i k = Some es \<Longrightarrow> i + n \<le> 2 ^ 62 \<Longrightarrow> k + 2 * n \<le> 2 ^ 62 \<Longrightarrow>
    N \<inter> ids (NHBaseRepair + of_nat k) (2 * n) = {} \<Longrightarrow> G \<inter> ids (NHGBaseRepair + of_nat i) n = {} \<Longrightarrow> s2NHG \<in> G \<Longrightarrow>
    programmable N G es \<and> nh_ids es \<subseteq> ids (NHBaseRepair + of_nat k) (2 * n) \<and> nhg_ids es = ids (NHGBaseRepair + of_nat i) n"
proof (induction n arbitrary: i k es N G)
  case (Suc n)
  let ?b = "NHBaseRepair" and ?g = "NHGBaseRepair"
  let ?nh = "\<lambda>k. case nth_opt dsts k of None \<Rightarrow> None
     | Some dst \<Rightarrow> nh_entry_of (?b + of_nat k) ''DecapEncap'' vrf [tunnel_opt IPv4OuterSrc222 dst TransitVRF222Str]"
  have idx: "\<exists>nh. e = NH nh \<and> nh_index nh = ?b + of_nat k" if "?nh k = Some e" for k e
    using that nh_entry_of_index by (auto split: option.splits)
  have G: "ids (?g + of_nat i) (Suc n) = insert (?g + of_nat i) (ids (?g + of_nat (Suc i)) n)"
    by (simp add: ids_Suc algebra_simps)
  have ug: "unat ?g = 32000" "unat ?b = 30000" by (simp_all add: id_bases)
  have gi: "?g + of_nat i \<notin> ids (?g + of_nat (Suc i)) n"
    using Suc.prems(2) unat_id [of ?g i] unat_id [of ?g "Suc i"] by (subst in_ids) (simp_all add: ug)
  have N2: "ids (?b + of_nat k) (2 * Suc n) = {?b + of_nat k, ?b + of_nat (k + 1)} \<union> ids (?b + of_nat (k + 2)) (2 * n)"
    by (auto simp: ids_Suc algebra_simps)
  have sub: "ids (?b + of_nat (k + 1)) (2 * n) \<subseteq> ids (?b + of_nat k) (2 * Suc n)"
    using ids_add [of "?b + of_nat k" 1 "Suc (2 * n)"] ids_add [of "?b + of_nat (k + 1)" "2 * n" 1] by (auto simp: algebra_simps)
  have ubk: "unat (?b + of_nat j) = 30000 + j" if "j \<le> k + 2 * Suc n" for j using that Suc.prems(3) by (simp add: unat_id ug)
  have "unat (?b + of_nat k) \<noteq> unat (?b + of_nat (k + 1))" using ubk [of k] ubk [of "k + 1"] by simp
  then have kk: "?b + of_nat k \<noteq> ?b + of_nat (k + 1)" by (rule contrapos_nn) simp
  have k1: "?b + of_nat k \<notin> ids (?b + of_nat (k + 1)) (2 * n)"
    using Suc.prems(3) ubk [of k] ubk [of "k + 1"] by (subst in_ids) simp_all
  have k2: "?b + of_nat k \<notin> ids (?b + of_nat (k + 2)) (2 * n)" "?b + of_nat (k + 1) \<notin> ids (?b + of_nat (k + 2)) (2 * n)"
    using Suc.prems(3) ubk [of k] ubk [of "k + 1"] ubk [of "k + 2"] by (subst in_ids; simp)+
  show ?case
  proof (cases "int i < num sdiv 2 \<or> \<not> multi")
    case True
    with Suc.prems(1) obtain e es' where e: "?nh k = Some e" and
      r: "repair_loop ord vrf s2NHG multi num dsts n (Suc i) (k + 1) = Some es'" and
      es: "es = e # nhg_entry_of (?g + of_nat i) [(?b + of_nat k, 1)] vrf [Some \<lparr>BackupNHG = s2NHG\<rparr>] # es'"
      by (auto simp: Let_def split: option.splits)
    obtain nh where nh: "e = NH nh" "nh_index nh = ?b + of_nat k" using idx [OF e] by blast
    have "programmable (insert (?b + of_nat k) N) (insert (?g + of_nat i) G) es' \<and> nh_ids es' \<subseteq> ids (?b + of_nat (k + 1)) (2 * n)
      \<and> nhg_ids es' = ids (?g + of_nat (Suc i)) n"
      using Suc.prems sub k1 gi unfolding G by (intro Suc.IH [OF r]) auto
    then show ?thesis
      using Suc.prems(4-6) sub N2 unfolding G by (auto simp: es nh nhg_entry_of_simp hops_ok_def assms(2))
  next
    case False
    with Suc.prems(1) obtain e0 e1 es' where e: "?nh k = Some e0" "?nh (k + 1) = Some e1" and
      r: "repair_loop ord vrf s2NHG multi num dsts n (Suc i) (k + 2) = Some es'" and
      es: "es = e0 # e1 # nhg_entry_of (?g + of_nat i) (ord [(?b + of_nat k, 1), (?b + of_nat k + 1, 1)]) vrf [Some \<lparr>BackupNHG = s2NHG\<rparr>] # es'"
      by (auto simp: Let_def split: option.splits)
    obtain nh0 nh1 where nh: "e0 = NH nh0" "nh_index nh0 = ?b + of_nat k" "e1 = NH nh1" "nh_index nh1 = ?b + of_nat (k + 1)"
      using idx [OF e(1)] idx [OF e(2)] by blast
    let ?h = "[(?b + of_nat k, 1), (?b + of_nat (k + 1), 1)] :: (64 word \<times> 64 word) list"
    have h: "mset (map fst (ord ?h)) = {# ?b + of_nat k, ?b + of_nat (k + 1) #}" by (simp add: assms(1) mset_map [symmetric])
    have "distinct (map fst (ord ?h))" using mset_eq_imp_distinct_iff [of "map fst (ord ?h)" "[?b + of_nat k, ?b + of_nat (k + 1)]"] h kk by simp
    moreover have "fst ` set (ord ?h) = {?b + of_nat k, ?b + of_nat (k + 1)}" using arg_cong [OF h, of set_mset] by simp
    ultimately have ho: "hops_ok (insert (?b + of_nat (k + 1)) (insert (?b + of_nat k) N)) G
        \<lparr>nhg_id = ?g + of_nat i, nhg_ni = vrf, nhg_hops = ord ?h, nhg_backup = Some s2NHG\<rparr>"
      using Suc.prems(6) by (simp add: hops_ok_def)
    have "programmable (insert (?b + of_nat (k + 1)) (insert (?b + of_nat k) N)) (insert (?g + of_nat i) G) es'
      \<and> nh_ids es' \<subseteq> ids (?b + of_nat (k + 2)) (2 * n) \<and> nhg_ids es' = ids (?g + of_nat (Suc i)) n"
      using Suc.prems k2 gi unfolding G N2 by (intro Suc.IH [OF r]) auto
    moreover have "?b + of_nat k + 1 = ?b + of_nat (k + 1)" by simp
    ultimately show ?thesis
      using Suc.prems(4-6) ho kk unfolding G N2 by (auto simp: es nh nhg_entry_of_simp assms(2) ac_simps)
  qed
qed (simp add: ids_def)

lemma GenerateIPsWithStep_nonneg: "GenerateIPsWithStep a n st = Inr l \<Longrightarrow> 0 \<le> n \<and> length l = nat n"
  by (auto simp: GenerateIPsWithStep_def Let_def split: if_splits)

lemma repair_programmable:
  assumes "repair_entries ord multi vrf s2NHG p = Inr (es, w)" "\<And>l. mset (ord l) = mset l" "s2NHG \<noteq> 0" "s2NHG \<in> G"
    and "nat (NumRepairNHG p) \<le> 2 ^ 60"
    and "N \<inter> ids NHBaseRepair (2 * nat (NumRepairNHG p)) = {}" "G \<inter> ids NHGBaseRepair (nat (NumRepairNHG p)) = {}"
  shows "programmable N G es \<and> nh_ids es \<subseteq> ids NHBaseRepair (2 * nat (NumRepairNHG p))
    \<and> nhg_ids es = ids NHGBaseRepair (nat (NumRepairNHG p))"
proof -
  obtain dsts es1 l ips where
    d: "GenerateIPsWithStep TransitVRF222PrefixStart (NumRepairNHG p * 2) CommonPrefixStep = Inr dsts" and
    r: "repair_loop ord vrf s2NHG multi (NumRepairNHG p) dsts (nat (NumRepairNHG p)) 0 0 = Some es1" and
    h: "host_entries vrf RepairVRFStr 32 NHGBaseRepair (NumRepairNHG p) l = Some ips" "l \<noteq> []" and
    es: "es = es1 @ map IPv4 ips"
    using assms(1) by (auto simp: repair_entries_def bind_res_Inr_iff res_simps split: if_splits)
  have "NumRepairNHG p \<noteq> 0"
    using h by (cases l) (auto simp: host_entries_def go_mod_def)
  then have pos: "0 < NumRepairNHG p" using GenerateIPsWithStep_nonneg [OF d] by simp
  have "programmable N G es1 \<and> nh_ids es1 \<subseteq> ids NHBaseRepair (2 * nat (NumRepairNHG p)) \<and> nhg_ids es1 = ids NHGBaseRepair (nat (NumRepairNHG p))"
    using repair_loop_programmable [OF assms(2,3) r, of N G] assms(4-7) by simp
  moreover have "\<forall>e \<in> set ips. set_option (ip_nhg e) \<subseteq> ids NHGBaseRepair (nat (NumRepairNHG p))"
    using host_entries_groups [OF h(1) pos] by blast
  ultimately show ?thesis by (auto simp: es programmable_append programmable_IPs)
qed

lemma buildTransitVRF_programmable:
  assumes "buildTransitVRF vrf p name start l bN cN bG cG backup = Inr (es, w)" "0 \<le> cN" "0 \<le> cG"
    and "unat bN + nat cN \<le> 2 ^ 64" "unat bG + nat cG \<le> 2 ^ 64" "backup \<in> G"
    and "N \<inter> ids bN (nat cN) = {}" "G \<inter> ids bG (nat cG) = {}"
  shows "programmable N G es \<and> nh_ids es \<subseteq> ids bN (nat cN) \<and> nhg_ids es \<subseteq> ids bG (nat cG)"
proof (cases "cN = 0 \<or> cG = 0")
  case True
  then show ?thesis using assms(1) by (simp add: buildTransitVRF_def)
next
  case False
  then obtain nhs it nhgs off hosts ips where
    n: "those (map (\<lambda>k. case go_mod k (int (length l)) of None \<Rightarrow> None
          | Some m \<Rightarrow> Some ((NextHopEntry (bN + of_nat k) vrf)\<lparr>nh_ip := Some (l ! m)\<rparr>)) [0..<nat cN]) = Some nhs" and
    it: "NewNHGBucketIterator cG (TransitNHGLoadBalance p) (TransitNHGWeight p) cN = Some it" and
    g: "nhg_loop vrf bG bN cN (Some backup) (nat cG) 0 0 it = Some (nhgs, off)" and
    h: "host_entries vrf name 32 bG cG hosts = Some ips" and
    es: "es = map NH nhs @ map NHG nhgs @ map IPv4 ips"
    using assms(1) unfolding buildTransitVRF_def by (auto simp: bind_res_Inr_iff res_simps split: if_splits)
  have m: "map nh_index nhs = map (\<lambda>k. bN + of_nat k) [0..<nat cN]"
    by (rule those_ids [OF n]) (auto simp: NextHopEntry_def split: option.splits)
  have nh: "nh_index ` set nhs = ids bN (nat cN)" by (rule image_upt_ids [OF m])
  have p0: "programmable N G (map NH nhs)"
    using m distinct_ids [OF assms(4)] assms(7) nh by (auto simp: programmable_NHs)
  have p1: "programmable (N \<union> ids bN (nat cN)) G (map NHG nhgs) \<and> nhg_id ` set nhgs = ids bG (nat cG)"
    using assms NewNHGBucketIterator_max [OF it] by (intro groups_programmable [OF assms(4,5) g]) auto
  have "\<forall>e \<in> set ips. set_option (ip_nhg e) \<subseteq> ids bG (nat cG)" using host_entries_groups [OF h] False assms(3) by auto
  then show ?thesis using p0 p1 nh by (auto simp: es programmable_append programmable_IPs)
qed

lemma transit_programmable:
  assumes "transit_entries vrf l1 l2 s1 s2 p = Inr (es, w)" "1 \<le> NumTransitNH p" "1 \<le> NumTransitNHG p"
    and "NumTransitNH p \<le> 2 ^ 60" "NumTransitNHG p \<le> 2 ^ 60" "s1 \<in> G" "s2 \<in> G"
    and "N \<inter> ids NHBaseTransit (nat (NumTransitNH p)) = {}" "G \<inter> ids NHGBaseTransit (nat (NumTransitNHG p)) = {}"
  shows "programmable N G es \<and> nh_ids es \<subseteq> ids NHBaseTransit (nat (NumTransitNH p)) \<and> nhg_ids es \<subseteq> ids NHGBaseTransit (nat (NumTransitNHG p))"
proof -
  let ?n = "max (NumTransitNH p sdiv 2) 1" and ?g = "max (NumTransitNHG p sdiv 2) 1"
  obtain es1 w1 es2 w2 where
    t1: "buildTransitVRF vrf p TransitVRF111Str TransitVRF111PrefixStart l1 NHBaseTransit ?n NHGBaseTransit ?g s1 = Inr (es1, w1)" and
    t2: "buildTransitVRF vrf p TransitVRF222Str TransitVRF222PrefixStart l2 (NHBaseTransit + of_nat (nat ?n)) (NumTransitNH p - ?n)
       (NHGBaseTransit + of_nat (nat ?g)) (NumTransitNHG p - ?g) s2 = Inr (es2, w2)" and
    es: "es = es1 @ es2"
    using assms(1) unfolding transit_entries_def by (auto simp: bind_res_Inr_iff Let_def)
  have le: "?n \<le> NumTransitNH p" "?g \<le> NumTransitNHG p"
    using assms(2,3) by (simp_all add: signed_divide_int_def sgn_if)
  have b: "unat NHBaseTransit = 10000" "unat NHGBaseTransit = 20000" by (simp_all add: id_bases)
  have ub: "unat (NHBaseTransit + of_nat (nat ?n)) = 10000 + nat ?n" "unat (NHGBaseTransit + of_nat (nat ?g)) = 20000 + nat ?g"
  proof -
    have "nat ?n \<le> 2 ^ 60" "nat ?g \<le> 2 ^ 60" using le assms(4,5) by (simp_all add: nat_le_iff)
    then have l: "10000 + nat ?n < 2 ^ 64" "20000 + nat ?g < 2 ^ 64" by simp_all
    show "unat (NHBaseTransit + of_nat (nat ?n)) = 10000 + nat ?n" "unat (NHGBaseTransit + of_nat (nat ?g)) = 20000 + nat ?g"
      by (fact unat_id [of NHBaseTransit "nat ?n", unfolded b, OF l(1)]) (fact unat_id [of NHGBaseTransit "nat ?g", unfolded b, OF l(2)])
  qed
  have sum: "nat ?n + nat (NumTransitNH p - ?n) = nat (NumTransitNH p)" "nat (NumTransitNH p) \<le> 2 ^ 60"
    "nat ?g + nat (NumTransitNHG p - ?g) = nat (NumTransitNHG p)" "nat (NumTransitNHG p) \<le> 2 ^ 60"
    using le assms(4,5) by (auto simp: nat_add_distrib [symmetric] nat_le_iff)
  have sN: "ids NHBaseTransit (nat (NumTransitNH p)) = ids NHBaseTransit (nat ?n) \<union> ids (NHBaseTransit + of_nat (nat ?n)) (nat (NumTransitNH p - ?n))"
    using ids_add [of NHBaseTransit "nat ?n" "nat (NumTransitNH p - ?n)"] le(1) nat_add_distrib [of ?n "NumTransitNH p - ?n"] by simp
  have sG: "ids NHGBaseTransit (nat (NumTransitNHG p)) = ids NHGBaseTransit (nat ?g) \<union> ids (NHGBaseTransit + of_nat (nat ?g)) (nat (NumTransitNHG p - ?g))"
    using ids_add [of NHGBaseTransit "nat ?g" "nat (NumTransitNHG p - ?g)"] le(2) nat_add_distrib [of ?g "NumTransitNHG p - ?g"] by simp
  have bd: "unat NHBaseTransit + nat ?n + nat (NumTransitNH p - ?n) \<le> 2 ^ 64"
    "unat NHGBaseTransit + nat ?g + nat (NumTransitNHG p - ?g) \<le> 2 ^ 64"
    unfolding b add.assoc sum(1,3) using sum(2,4) by simp_all
  have d: "ids NHBaseTransit (nat ?n) \<inter> ids (NHBaseTransit + of_nat (nat ?n)) (nat (NumTransitNH p - ?n)) = {}"
    "ids NHGBaseTransit (nat ?g) \<inter> ids (NHGBaseTransit + of_nat (nat ?g)) (nat (NumTransitNHG p - ?g)) = {}"
    by (rule ids_split_disjoint [of NHBaseTransit "nat ?n", OF bd(1)], rule ids_split_disjoint [of NHGBaseTransit "nat ?g", OF bd(2)])
  have p1: "programmable N G es1 \<and> nh_ids es1 \<subseteq> ids NHBaseTransit (nat ?n) \<and> nhg_ids es1 \<subseteq> ids NHGBaseTransit (nat ?g)"
  proof (rule buildTransitVRF_programmable [OF t1])
    show "unat NHBaseTransit + nat ?n \<le> 2 ^ 64" "unat NHGBaseTransit + nat ?g \<le> 2 ^ 64" using bd by simp_all
    show "N \<inter> ids NHBaseTransit (nat ?n) = {}" "G \<inter> ids NHGBaseTransit (nat ?g) = {}" using assms(8,9) sN sG by blast+
  qed (use assms(6) in simp_all)
  have p2: "programmable (N \<union> nh_ids es1) (G \<union> nhg_ids es1) es2
    \<and> nh_ids es2 \<subseteq> ids (NHBaseTransit + of_nat (nat ?n)) (nat (NumTransitNH p - ?n))
    \<and> nhg_ids es2 \<subseteq> ids (NHGBaseTransit + of_nat (nat ?g)) (nat (NumTransitNHG p - ?g))"
  proof (rule buildTransitVRF_programmable [OF t2])
    show "0 \<le> NumTransitNH p - ?n" "0 \<le> NumTransitNHG p - ?g" using le by simp_all
    show "unat (NHBaseTransit + of_nat (nat ?n)) + nat (NumTransitNH p - ?n) \<le> 2 ^ 64"
      "unat (NHGBaseTransit + of_nat (nat ?g)) + nat (NumTransitNHG p - ?g) \<le> 2 ^ 64" unfolding ub using bd unfolding b by simp_all
    show "s2 \<in> G \<union> nhg_ids es1" using assms(7) by simp
    show "(N \<union> nh_ids es1) \<inter> ids (NHBaseTransit + of_nat (nat ?n)) (nat (NumTransitNH p - ?n)) = {}"
      "(G \<union> nhg_ids es1) \<inter> ids (NHGBaseTransit + of_nat (nat ?g)) (nat (NumTransitNHG p - ?g)) = {}"
      using p1 d assms(8,9) sN sG by blast+
  qed
  from p1 p2 show ?thesis unfolding es sN sG by (simp add: programmable_append) blast
qed

lemma per_bound:
  fixes V D :: int
  assumes "0 < V" "V \<le> D"
  shows "V * max (D sdiv V) 1 \<le> D" "max (D sdiv V) 1 = D div V" "1 \<le> D div V"
proof -
  have d: "D sdiv V = D div V" using assms by (simp add: signed_divide_int_def sgn_if)
  have "V div V \<le> D div V" using assms by (intro zdiv_mono1) simp_all
  then show o: "1 \<le> D div V" using assms(1) by simp
  then show e: "max (D sdiv V) 1 = D div V" by (simp add: d)
  show "V * max (D sdiv V) 1 \<le> D" unfolding e using pos_mod_sign [OF assms(1), of D] minus_mult_div_eq_mod [of D V] by linarith
qed

lemma guard_Inr: "(if b then Inl e else r) = Inr y \<longleftrightarrow> \<not> b \<and> r = Inr y"
  by simp

lemma encap_loop_Cons:
  assumes "encap_loop vrf p per vi (name # vrfs) off = Inr (es, w4, w6)"
    and "num = (if int vi = NumEncapVRFs p - 1 then NumEncapDefaultNHG p - int vi * per else per)"
    and "base = NHGBaseEncap + 1 + of_int (int vi * per)"
  shows "\<exists>it nhgs off' l4 v4s l6 v6s es' w4' w6'.
    NewNHGBucketIterator num (EncapNHGLoadBalance p) (EncapNHGWeight p) (NumUniqueEncapNH p) = Some it
    \<and> nhg_loop vrf base (NHBaseEncap + 1) (NumUniqueEncapNH p) None (nat num) 0 off it = Some (nhgs, off')
    \<and> host_entries vrf name 32 base num l4 = Some v4s \<and> host_entries vrf name 128 base num l6 = Some v6s
    \<and> encap_loop vrf p per (Suc vi) vrfs off' = Inr (es', w4', w6')
    \<and> es = map NHG nhgs @ map IPv4 v4s @ map IPv6 v6s
        @ [IPv4 (ip_via vrf name ''0.0.0.0/0'' NHGBaseEncap), IPv6 (ip_via vrf name ''::/0'' NHGBaseEncap)] @ es'"
  using assms(1) unfolding encap_loop.simps Let_def assms(2,3) [symmetric]
  by (auto simp only: bind_res_Inr_iff res_simps guard_Inr case_prod_beta sum.inject prod.inject)
     (metis prod.collapse)

text \<open>One VRF of the loop, with \<open>k\<close> groups from \<open>base\<close> on; the other VRFs use the \<open>m\<close> identifiers after them.\<close>

lemma encap_vrf_programmable:
  assumes "nhg_loop vrf base bN U None k 0 off it = Some (nhgs, off')" "maxNHsAvailable it = U"
    and "host_entries vrf name 32 base num l4 = Some v4s" "host_entries vrf name 128 base num l6 = Some v6s" "0 < num" "k = nat num"
    and "unat bN + nat U \<le> 2 ^ 64" "unat base + k + m \<le> 2 ^ 64" "ids bN (nat U) \<subseteq> N" "G \<inter> ids base (k + m) = {}" "fb \<in> G"
    and rest: "\<And>G'. G' \<inter> ids (base + of_nat k) m = {} \<Longrightarrow> fb \<in> G' \<Longrightarrow>
      programmable N G' es' \<and> nh_ids es' = {} \<and> nhg_ids es' = ids (base + of_nat k) m"
  shows "let es = map NHG nhgs @ map IPv4 v4s @ map IPv6 v6s
        @ [IPv4 (ip_via vrf name ''0.0.0.0/0'' fb), IPv6 (ip_via vrf name ''::/0'' fb)] @ es' in
    programmable N G es \<and> nh_ids es = {} \<and> nhg_ids es = ids base (k + m)"
proof -
  have disj: "ids base k \<inter> ids (base + of_nat k) m = {}" by (rule ids_split_disjoint [OF assms(8)])
  have p1: "programmable N G (map NHG nhgs) \<and> nhg_id ` set nhgs = ids base k"
  proof (rule groups_programmable [OF assms(7) _ assms(1)])
    show "ids base k \<inter> G = {}" using assms(10) by (auto simp: ids_add)
  qed (use assms(2,8,9) in simp_all)
  have p2: "programmable N (G \<union> ids base k) es' \<and> nh_ids es' = {} \<and> nhg_ids es' = ids (base + of_nat k) m"
    using assms(10,11) disj by (intro rest) (auto simp: ids_add)
  have "\<forall>e \<in> set v4s. set_option (ip_nhg e) \<subseteq> ids base k" "\<forall>e \<in> set v6s. set_option (ip_nhg e) \<subseteq> ids base k"
    using host_entries_groups [OF assms(3,5)] host_entries_groups [OF assms(4,5)] assms(6) by blast+
  then show ?thesis
    using p1 p2 assms(11) by (auto simp: Let_def programmable_append programmable_IPs ip_via_def IPEntry_def ids_add)
qed

lemma encap_loop_programmable:
  assumes V: "0 < NumEncapVRFs p" "NumEncapVRFs p \<le> NumEncapDefaultNHG p" "NumEncapDefaultNHG p \<le> 2 ^ 60" "NumUniqueEncapNH p \<le> 2 ^ 60"
    and N: "ids (NHBaseEncap + 1) (nat (NumUniqueEncapNH p)) \<subseteq> N"
    and per: "per = NumEncapDefaultNHG p div NumEncapVRFs p"
  shows "encap_loop vrf p per vi vrfs off = Inr (es, w4, w6) \<Longrightarrow> int vi + int (length vrfs) = NumEncapVRFs p \<Longrightarrow> vrfs \<noteq> [] \<Longrightarrow>
    NHGBaseEncap \<in> G \<Longrightarrow>
    G \<inter> ids (NHGBaseEncap + 1 + of_nat (vi * nat per)) (nat (NumEncapDefaultNHG p) - vi * nat per) = {} \<Longrightarrow>
    programmable N G es \<and> nh_ids es = {}
    \<and> nhg_ids es = ids (NHGBaseEncap + 1 + of_nat (vi * nat per)) (nat (NumEncapDefaultNHG p) - vi * nat per)"
proof (induction vrfs arbitrary: vi off es w4 w6 G)
  case (Cons name vrfs)
  let ?D = "NumEncapDefaultNHG p" and ?U = "NumUniqueEncapNH p"
  define num where "num = (if int vi = NumEncapVRFs p - 1 then ?D - int vi * per else per)"
  define base where "base = NHGBaseEncap + 1 + of_int (int vi * per)"
  define k where "k = nat num"
  define m where "m = nat ?D - vi * nat per - k"
  have pb: "NumEncapVRFs p * per \<le> ?D" "1 \<le> per" using per_bound [OF V(1,2)] per by simp_all
  have last: "int vi = NumEncapVRFs p - 1 \<longleftrightarrow> vrfs = []" using Cons.prems(2) by auto
  have "(int vi + 1) * per \<le> NumEncapVRFs p * per" using Cons.prems(2) pb(2) by (intro mult_right_mono) simp_all
  then have room: "int vi * per + per \<le> ?D" using pb(1) by (simp add: algebra_simps)
  have vn: "int (vi * nat per) = int vi * per" using pb(2) by simp
  then have roomn: "vi * nat per + nat per \<le> nat ?D" using room pb(2) by linarith
  have nd: "nat (?D - int vi * per) = nat ?D - vi * nat per" unfolding vn [symmetric] by arith
  have num: "0 < num" "k + m = nat ?D - vi * nat per" "vrfs = [] \<Longrightarrow> m = 0" "vrfs \<noteq> [] \<Longrightarrow> k = nat per"
    unfolding k_def m_def num_def using room roomn pb(2) last nd le_diff_conv2 [of "vi * nat per" "nat ?D" "nat per"] by auto
  have base_eq: "base = NHGBaseEncap + 1 + of_nat (vi * nat per)" unfolding base_def using vn by (metis of_int_of_nat_eq)
  obtain it nhgs off' l4 v4s l6 v6s es' w4' w6' where
    it: "NewNHGBucketIterator num (EncapNHGLoadBalance p) (EncapNHGWeight p) ?U = Some it" and
    g: "nhg_loop vrf base (NHBaseEncap + 1) ?U None k 0 off it = Some (nhgs, off')" and
    h4: "host_entries vrf name 32 base num l4 = Some v4s" and h6: "host_entries vrf name 128 base num l6 = Some v6s" and
    r: "encap_loop vrf p per (Suc vi) vrfs off' = Inr (es', w4', w6')" and
    es: "es = map NHG nhgs @ map IPv4 v4s @ map IPv6 v6s @ [IPv4 (ip_via vrf name ''0.0.0.0/0'' NHGBaseEncap), IPv6 (ip_via vrf name ''::/0'' NHGBaseEncap)] @ es'"
    using encap_loop_Cons [OF Cons.prems(1) num_def base_def] unfolding k_def by blast
  have ub: "unat (NHBaseEncap + 1) = 50001" "unat (NHGBaseEncap + 1) = 82001" by (simp_all add: id_bases)
  have Dn: "nat ?D \<le> 2 ^ 60" "nat ?U \<le> 2 ^ 60" using V(3,4) by (simp_all add: nat_le_iff)
  have "unat base = 82001 + vi * nat per"
    unfolding base_eq ub(2) [symmetric] using roomn Dn(1) by (intro unat_id) (simp add: ub)
  then have b64: "unat base + k + m \<le> 2 ^ 64" "unat (NHBaseEncap + 1 :: 64 word) + nat ?U \<le> 2 ^ 64"
    using num(2) roomn Dn ub(1) by simp_all
  have rest: "programmable N G' es' \<and> nh_ids es' = {} \<and> nhg_ids es' = ids (base + of_nat k) m"
    if "G' \<inter> ids (base + of_nat k) m = {}" "NHGBaseEncap \<in> G'" for G'
  proof (cases "vrfs = []")
    case True
    then show ?thesis using r num(3) by simp
  next
    case False
    have e: "base + of_nat k = NHGBaseEncap + 1 + of_nat (Suc vi * nat per)" "m = nat ?D - Suc vi * nat per"
      using num(4) [OF False] by (simp_all add: base_eq m_def algebra_simps)
    show ?thesis unfolding e
      using Cons.prems(2) False that unfolding e by (intro Cons.IH [OF r]) auto
  qed
  have "G \<inter> ids base (k + m) = {}" using Cons.prems(5) unfolding base_eq num(2) .
  from encap_vrf_programmable [OF g NewNHGBucketIterator_max [OF it] h4 h6 num(1) k_def b64(2,1) N this Cons.prems(4) rest]
  show ?case unfolding es Let_def base_eq num(2) by simp
qed simp

lemma ids_snoc: "ids b (Suc n) = insert (b + of_nat n) (ids b n)"
  by (auto simp: ids_def atLeast0LessThan lessThan_Suc)

lemma decaps_programmable:
  assumes "n \<le> 2 ^ 60"
  shows "those (map (decap_block vrf) [0..<n]) = Some bs \<Longrightarrow> N \<inter> ids NHBaseDecap n = {} \<Longrightarrow> G \<inter> ids NHGBaseDecap n = {} \<Longrightarrow>
    programmable N G (concat bs) \<and> nh_ids (concat bs) = ids NHBaseDecap n \<and> nhg_ids (concat bs) = ids NHGBaseDecap n"
  using assms
proof (induction n arbitrary: bs)
  case (Suc n)
  then obtain as b where s: "those (map (decap_block vrf) [0..<n]) = Some as" "decap_block vrf n = Some b" "bs = as @ [b]"
    by (auto simp: those_append split: option.splits)
  have ih: "programmable N G (concat as) \<and> nh_ids (concat as) = ids NHBaseDecap n \<and> nhg_ids (concat as) = ids NHGBaseDecap n"
    using Suc.prems(2-4) by (intro Suc.IH [OF s(1)]) (auto simp: ids_snoc)
  obtain nh where nh: "b = [NH nh, nhg_entry_of (NHGBaseDecap + of_nat n) [(NHBaseDecap + of_nat n, 1)] vrf [],
      IPv4 (ip_via vrf DecapVRFStr (decap_prefix n) (NHGBaseDecap + of_nat n))]" "nh_index nh = NHBaseDecap + of_nat n"
    using s(2) by (auto simp: decap_block_def dest!: nh_entry_of_index)
  have u: "unat NHBaseDecap = 120000" "unat NHGBaseDecap = 120100" by (simp_all add: id_bases)
  have "NHBaseDecap + of_nat n \<notin> ids NHBaseDecap n" "NHGBaseDecap + of_nat n \<notin> ids NHGBaseDecap n"
    using Suc.prems(4) by (simp_all add: in_ids unat_id u)
  then show ?case
    using ih Suc.prems(2,3) by (auto simp: s(3) nh programmable_append nhg_entry_of_simp hops_ok_def ip_via_def IPEntry_def ids_snoc)
qed simp

lemma encap_nhs_ids:
  assumes "encap_nhs vrf p dsts = Some es"
  shows "\<exists>nhs. es = map NH nhs \<and> map nh_index nhs = map (\<lambda>i. NHBaseEncap + 1 + of_nat i) [0..<nat (NumUniqueEncapNH p)]"
proof -
  have "list_all2 (\<lambda>i e. \<exists>nh. e = NH nh \<and> nh_index nh = NHBaseEncap + 1 + of_nat i) [0..<nat (NumUniqueEncapNH p)] es"
    using assms unfolding encap_nhs_def those_map
    by (rule list_all2_mono) (auto dest: nh_entry_of_index split: option.splits)
  then have "\<exists>nhs. es = map NH nhs \<and> list_all2 (\<lambda>i nh. nh_index nh = NHBaseEncap + 1 + of_nat i) [0..<nat (NumUniqueEncapNH p)] nhs"
    by (induction rule: list_all2_induct) (auto intro: exI [of _ "_ # _"])
  then obtain nhs where nhs: "es = map NH nhs" "length nhs = nat (NumUniqueEncapNH p)"
    "\<And>i. i < length nhs \<Longrightarrow> nh_index (nhs ! i) = NHBaseEncap + 1 + of_nat i"
    by (auto simp: list_all2_conv_all_nth)
  have "map nh_index nhs = map (\<lambda>i. NHBaseEncap + 1 + of_nat i) [0..<nat (NumUniqueEncapNH p)]"
    using nhs(2,3) by (intro nth_equalityI) simp_all
  with nhs(1) show ?thesis by blast
qed

lemma encap_programmable:
  assumes "encap_entries vrf p = Inr (es, w4, w6)" "NumEncapVRFs p \<le> NumEncapDefaultNHG p" "0 < NumEncapVRFs p"
    and "NumEncapDefaultNHG p \<le> 38099" "NumUniqueEncapNH p \<le> 69999" "NumDecapEntries p \<le> 2 ^ 60"
    and "N \<inter> ids NHBaseEncap (Suc (nat (NumUniqueEncapNH p))) = {}" "N \<inter> ids NHBaseDecap (nat (NumDecapEntries p)) = {}"
    and "G \<inter> ids NHGBaseEncap (Suc (nat (NumEncapDefaultNHG p))) = {}" "G \<inter> ids NHGBaseDecap (nat (NumDecapEntries p)) = {}"
  shows "programmable N G es"
proof -
  let ?U = "nat (NumUniqueEncapNH p)" and ?D = "nat (NumEncapDefaultNHG p)" and ?K = "nat (NumDecapEntries p)"
  obtain dsts fbNH nhs0 vrfs es1 bs w4' where
    f: "nh_entry_of NHBaseEncap ''VRFOnly'' vrf [vrf_opt vrf] = Some fbNH" and
    n: "encap_nhs vrf p dsts = Some nhs0" and v: "BuildEncapVRFs (NumEncapVRFs p) = Some vrfs" and
    l: "encap_loop vrf p (max (NumEncapDefaultNHG p sdiv NumEncapVRFs p) 1) 0 vrfs 0 = Inr (es1, w4', w6)" and
    d: "those (map (decap_block vrf) [0..<?K]) = Some bs" and
    es: "es = fbNH # nhs0 @ [nhg_entry_of NHGBaseEncap [(NHBaseEncap, 1)] vrf []] @ es1 @ concat bs"
    using assms(1) unfolding encap_entries_def Let_def
    by (auto simp only: bind_res_Inr_iff res_simps guard_Inr case_prod_beta sum.inject prod.inject) (metis prod.collapse)
  obtain nh where nh: "fbNH = NH nh" "nh_index nh = NHBaseEncap" using nh_entry_of_index [OF f] by blast
  obtain nhs where nhs: "nhs0 = map NH nhs" "map nh_index nhs = map (\<lambda>i. NHBaseEncap + 1 + of_nat i) [0..<?U]"
    using encap_nhs_ids [OF n] by blast
  have im: "nh_index ` set nhs = ids (NHBaseEncap + 1) ?U" by (rule image_upt_ids [OF nhs(2)])
  have u: "unat (NHBaseEncap + 1) = 50001" "unat NHBaseEncap = 50000" "unat (NHGBaseEncap + 1) = 82001" "unat NHGBaseEncap = 82000"
    "unat NHBaseDecap = 120000" "unat NHGBaseDecap = 120100" by (simp_all add: id_bases)
  have K: "?K \<le> 2 ^ 60" "?U \<le> 69999" "?D \<le> 38099" using assms(4-6) by (simp_all add: nat_le_iff)
  have fb: "NHBaseEncap \<notin> ids (NHBaseEncap + 1) ?U" "NHGBaseEncap \<notin> ids (NHGBaseEncap + 1) ?D"
    using K by (simp_all add: in_ids u)
  have dd: "ids NHBaseEncap (Suc ?U) \<inter> ids NHBaseDecap ?K = {}" "ids NHGBaseEncap (Suc ?D) \<inter> ids NHGBaseDecap ?K = {}"
    using K by (simp_all add: ids_disjoint u)
  have pn: "programmable (insert NHBaseEncap N) G (map NH nhs)"
    using nhs(2) distinct_ids [of "NHBaseEncap + 1" ?U] assms(7) fb K im by (auto simp: programmable_NHs u ids_Suc)
  let ?N = "insert NHBaseEncap N \<union> ids (NHBaseEncap + 1) ?U" and ?G = "insert NHGBaseEncap G"
  have vr: "int (length vrfs) = NumEncapVRFs p" "vrfs \<noteq> []" using v assms(3) by (auto simp: BuildEncapVRFs_def split: if_splits)
  have pe: "programmable ?N ?G es1 \<and> nh_ids es1 = {} \<and> nhg_ids es1 = ids (NHGBaseEncap + 1) ?D"
    using encap_loop_programmable [OF assms(3,2) _ _ _ refl l [unfolded per_bound(2) [OF assms(3,2)]], of ?N ?G] vr assms(4,5,9) fb
    by (auto simp: ids_Suc)
  have pd: "programmable ?N (?G \<union> ids (NHGBaseEncap + 1) ?D) (concat bs)"
    using decaps_programmable [OF K(1) d, of ?N "?G \<union> ids (NHGBaseEncap + 1) ?D"] dd assms(8,10) by (auto simp: ids_Suc)
  show ?thesis
    using pn pe pd assms(7,9) by (auto simp: es nh nhs(1) im programmable_append nhg_entry_of_simp hops_ok_def ids_Suc)
qed


section \<open>The whole programming phase\<close>

text \<open>Room between the base identifiers.\<close>

definition ids_fit :: "ScaleParams \<Rightarrow> bool" where
  "ids_fit p \<longleftrightarrow> half (NumDefaultNH p) \<le> 4000 \<and> half (NumDefaultNHG p) \<le> 3500
     \<and> 1 \<le> NumTransitNH p \<and> NumTransitNH p \<le> 20000 \<and> 1 \<le> NumTransitNHG p \<and> NumTransitNHG p \<le> 12000
     \<and> NumRepairNHG p \<le> 10000 \<and> NumUniqueEncapNH p \<le> 69999 \<and> NumEncapDefaultNHG p \<le> 38099 \<and> NumDecapEntries p \<le> 2 ^ 60"

lemma static_ids: "{StaticS1NHG, StaticS2NHG} = ids StaticS1NHG 2"
  by (simp add: numeral_2_eq_2 ids_Suc id_bases)

lemma ids_below: "w \<in> ids b n \<Longrightarrow> unat b + n \<le> 2 ^ 64 \<Longrightarrow> unat b \<le> unat w \<and> unat w < unat b + n"
  by (simp add: in_ids)

text \<open>The entries of the whole phase, in the order in which the builders send them, use no identifier twice
  and refer to nothing that is not programmed before.\<close>

lemma full_scale_programmable:
  assumes "full_scale_entries ord multi vrf p = Inr ess" "ids_fit p" "\<And>l. mset (ord l) = mset l"
  shows "programmable {} {} (concat ess)"
proof -
  obtain es1 w1 pp bp es2 es3 w3 es4 w4 es5 w5 w6 where
    v: "validateScaleParams p = Inr ()" and
    e1: "default_entries vrf p = Inr (es1, w1, pp, bp)" and e2: "static_entries vrf = Inr es2" and
    e3: "repair_entries ord multi vrf StaticS2NHG p = Inr (es3, w3)" and
    e4: "transit_entries vrf pp bp StaticS1NHG StaticS2NHG p = Inr (es4, w4)" and
    e5: "encap_entries vrf p = Inr (es5, w5, w6)" and ess: "ess = [es1, es2, es3, es4, es5]"
    using assms(1) unfolding full_scale_entries_def
    by (cases "validateScaleParams p") (auto simp: bind_res_Inr_iff)
  have val: "0 < NumEncapVRFs p" "NumEncapVRFs p \<le> NumEncapDefaultNHG p"
    using v by (auto simp: validateScaleParams_def bind_res_Inr_iff guard_Inr)
  have fit: "half (NumDefaultNH p) \<le> 4000" "half (NumDefaultNHG p) \<le> 3500" "1 \<le> NumTransitNH p" "NumTransitNH p \<le> 20000"
    "1 \<le> NumTransitNHG p" "NumTransitNHG p \<le> 12000" "NumRepairNHG p \<le> 10000" "NumUniqueEncapNH p \<le> 69999"
    "NumEncapDefaultNHG p \<le> 38099" "NumDecapEntries p \<le> 2 ^ 60" using assms(2) by (simp_all add: ids_fit_def)
  have nf: "nat (NumTransitNH p) \<le> 20000" "nat (NumTransitNHG p) \<le> 12000" "nat (NumRepairNHG p) \<le> 10000"
    "nat (NumUniqueEncapNH p) \<le> 69999" "nat (NumEncapDefaultNHG p) \<le> 38099" "nat (NumDecapEntries p) \<le> 2 ^ 60"
    using fit by (simp_all add: nat_le_iff)
  have u: "unat NHBaseDefault = 1000" "unat NHGBaseDefault = 2000" "unat StaticS1NHG = 9001" "unat NHBaseTransit = 10000"
    "unat NHGBaseTransit = 20000" "unat NHBaseRepair = 30000" "unat NHGBaseRepair = 32000" "unat NHBaseEncap = 50000"
    "unat NHGBaseEncap = 82000" "unat NHBaseDecap = 120000" "unat NHGBaseDecap = 120100" by (simp_all add: id_bases)
  let ?N1 = "ids NHBaseDefault (half (NumDefaultNH p) + half (NumDefaultNH p))" and ?G1 = "ids NHGBaseDefault (half (NumDefaultNHG p) + half (NumDefaultNHG p))"
  let ?S = "ids StaticS1NHG 2" and ?N3 = "ids NHBaseRepair (2 * nat (NumRepairNHG p))" and ?G3 = "ids NHGBaseRepair (nat (NumRepairNHG p))"
  let ?N4 = "ids NHBaseTransit (nat (NumTransitNH p))" and ?G4 = "ids NHGBaseTransit (nat (NumTransitNHG p))"
  let ?N5 = "ids NHBaseEncap (Suc (nat (NumUniqueEncapNH p)))" and ?G5 = "ids NHGBaseEncap (Suc (nat (NumEncapDefaultNHG p)))"
  let ?N6 = "ids NHBaseDecap (nat (NumDecapEntries p))" and ?G6 = "ids NHGBaseDecap (nat (NumDecapEntries p))"
  have dN: "?N1 \<inter> ?S = {}" "?N1 \<inter> ?N3 = {}" "?S \<inter> ?N3 = {}" "?N1 \<inter> ?N4 = {}" "?S \<inter> ?N4 = {}" "?N4 \<inter> ?N3 = {}"
    "?N1 \<inter> ?N5 = {}" "?S \<inter> ?N5 = {}" "?N3 \<inter> ?N5 = {}" "?N4 \<inter> ?N5 = {}" "?N1 \<inter> ?N6 = {}" "?S \<inter> ?N6 = {}" "?N3 \<inter> ?N6 = {}" "?N4 \<inter> ?N6 = {}"
    by (rule ids_disjoint; insert fit(1) nf; simp only: u; simp)+
  have dG: "?G1 \<inter> ?S = {}" "?G1 \<inter> ?G3 = {}" "?S \<inter> ?G3 = {}" "?G1 \<inter> ?G4 = {}" "?S \<inter> ?G4 = {}" "?G4 \<inter> ?G3 = {}"
    "?G1 \<inter> ?G5 = {}" "?S \<inter> ?G5 = {}" "?G3 \<inter> ?G5 = {}" "?G4 \<inter> ?G5 = {}" "?G1 \<inter> ?G6 = {}" "?S \<inter> ?G6 = {}" "?G3 \<inter> ?G6 = {}" "?G4 \<inter> ?G6 = {}"
    by (rule ids_disjoint; insert fit(2) nf; simp only: u; simp)+
  have p1: "programmable {} {} es1 \<and> nh_ids es1 = ?N1 \<and> nhg_ids es1 = ?G1"
    using fit(1,2) by (intro default_programmable [OF e1]) simp_all
  have p2: "programmable ?N1 ?G1 es2 \<and> nh_ids es2 = ?S \<and> nhg_ids es2 = ?S"
    using static_programmable [OF e2, of ?N1 ?G1] dN(1) dG(1) unfolding static_ids by blast
  have s: "StaticS1NHG \<in> ?S" "StaticS2NHG \<in> ?S" "StaticS2NHG \<noteq> 0" by (simp_all add: static_ids [symmetric]) (simp add: id_bases)
  have p3: "programmable (?N1 \<union> ?S) (?G1 \<union> ?S) es3 \<and> nh_ids es3 \<subseteq> ?N3 \<and> nhg_ids es3 = ?G3"
    using s(2,3) nf(3) dN(2,3) dG(2,3) by (intro repair_programmable [OF e3 assms(3)]) auto
  have p4: "programmable (?N1 \<union> ?S \<union> nh_ids es3) (?G1 \<union> ?S \<union> ?G3) es4 \<and> nh_ids es4 \<subseteq> ?N4 \<and> nhg_ids es4 \<subseteq> ?G4"
    using s(1,2) fit dN(4-6) dG(4-6) p3 by (intro transit_programmable [OF e4]) auto
  have p5: "programmable (?N1 \<union> ?S \<union> nh_ids es3 \<union> nh_ids es4) (?G1 \<union> ?S \<union> ?G3 \<union> nhg_ids es4) es5"
  proof (rule encap_programmable [OF e5 val(2,1) fit(9,8,10)])
    have sub: "nh_ids es3 \<subseteq> ?N3" "nh_ids es4 \<subseteq> ?N4" "nhg_ids es4 \<subseteq> ?G4" using p3 p4 by simp_all
    show "(?N1 \<union> ?S \<union> nh_ids es3 \<union> nh_ids es4) \<inter> ?N5 = {}" using dN(7-10) sub(1,2) by blast
    show "(?N1 \<union> ?S \<union> nh_ids es3 \<union> nh_ids es4) \<inter> ?N6 = {}" using dN(11-14) sub(1,2) by blast
    show "(?G1 \<union> ?S \<union> ?G3 \<union> nhg_ids es4) \<inter> ?G5 = {}" using dG(7-10) sub(3) by blast
    show "(?G1 \<union> ?S \<union> ?G3 \<union> nhg_ids es4) \<inter> ?G6 = {}" using dG(11-14) sub(3) by blast
  qed
  show ?thesis using p1 p2 p3 p4 p5 by (simp add: ess programmable_append Un_assoc)
qed

end
