(* ===== verification/Scale_Program.thy ===== *)
theory Scale_Program
  imports Gribi_Scale
begin

text \<open>
  The second half of the builders of \<^verbatim>\<open>internal/cfgplugins/gribifullscale.go\<close>, and the subtest of
  \<^verbatim>\<open>RunFullScaleTest\<close> that runs them one after the other: open a session, send the entries in batches,
  validate the results, verify that the sampled prefixes are programmed, close the session.

  The device is the state behind the gRIBI client (\<^verbatim>\<open>openconfig/gribigo\<close>), a parameter; \<open>records\<close> says what
  is relied on: what is sent with \<^verbatim>\<open>AddEntry\<close> arrives in order, and nothing else adds entries. The
  boolean beside the device says whether an error (\<^verbatim>\<open>t.Errorf\<close>) was reported; what ends the test
  is an error value.

  The main theorem composes the client, the batches, the builders and the address generators: when the
  subtest ends, the device was sent exactly the entries of the five builders, in that order, and they
  are programmable.
\<close>

section \<open>One builder\<close>

definition fib_check :: "'c fluent_api \<Rightarrow> wants \<Rightarrow> wants \<Rightarrow> 'c Client \<Rightarrow> (scale_fatal, bool) res" where
  "fib_check api wants4 wants6 cl = (if VerifyFIBProgrammed api cl wants4 wants6 then Inr False else Inl FIBMissing)"

text \<open>\<open>aftNHG\<close> is the next-hop group of a prefix in the device's AFT, 0 when there is none.\<close>

definition VerifyHierarchicalResolution ::
  "'c fluent_api \<Rightarrow> ('c \<Rightarrow> string \<Rightarrow> string \<Rightarrow> 64 word) \<Rightarrow> wants \<Rightarrow> 'c Client \<Rightarrow> (scale_fatal, bool) res" where
  "VerifyHierarchicalResolution api aftNHG samplePrefixes cl =
     (case fluentC cl of
        None \<Rightarrow> Inl Panic
      | Some c \<Rightarrow>
          if list_all (\<lambda>(vrf, pfxs). f_hasResultsCache api (f_results api c) (want_results False pfxs)) samplePrefixes
          then Inr (list_ex (\<lambda>(vrf, pfxs). list_ex (\<lambda>pfx. aftNHG c vrf pfx = 0) pfxs) samplePrefixes)
          else Inl FIBMissing)"

definition program_entries ::
  "'c fluent_api \<Rightarrow> vendor \<Rightarrow> int \<Rightarrow> gribi_entry list \<Rightarrow> ('c Client \<Rightarrow> (scale_fatal, bool) res) \<Rightarrow> 'c \<times> bool \<Rightarrow> (scale_fatal, 'c \<times> bool) res" where
  "program_entries api v batchSize entries verify = (\<lambda>(dev, err).
     bind_res (map_sum GribiErr id (BatchModify api v entries batchSize dev)) (\<lambda>(gSession, failed).
     bind_res (verify gSession) (\<lambda>unresolved.
     case snd (Close api gSession) of
       None \<Rightarrow> Inl Panic
     | Some dev \<Rightarrow> Inr (dev, err \<or> failed \<or> unresolved))))"

definition BuildDefaultVRF ::
  "'c fluent_api \<Rightarrow> vendor \<Rightarrow> string \<Rightarrow> ScaleParams \<Rightarrow> 'c \<times> bool \<Rightarrow> (scale_fatal, ('c \<times> bool) \<times> string list \<times> string list) res" where
  "BuildDefaultVRF api v defaultVRF params dut =
     bind_res (default_entries defaultVRF params) (\<lambda>(entries, wantPrefixes, primaryPrefixes, backupPrefixes).
     bind_res (program_entries api v (GRIBIBatchSize params) entries (fib_check api wantPrefixes []) dut) (\<lambda>dut.
     Inr (dut, primaryPrefixes, backupPrefixes)))"

definition BuildStaticGroups ::
  "'c fluent_api \<Rightarrow> vendor \<Rightarrow> string \<Rightarrow> int \<Rightarrow> 'c \<times> bool \<Rightarrow> (scale_fatal, ('c \<times> bool) \<times> 64 word \<times> 64 word) res" where
  "BuildStaticGroups api v defaultVRF gribiBatchSize dut =
     bind_res (static_entries defaultVRF) (\<lambda>entries.
     bind_res (program_entries api v gribiBatchSize entries (\<lambda>_. Inr False) dut) (\<lambda>dut.
     Inr (dut, StaticS1NHG, StaticS2NHG)))"

definition BuildTransitVRFs ::
  "'c fluent_api \<Rightarrow> vendor \<Rightarrow> ('c \<Rightarrow> string \<Rightarrow> string \<Rightarrow> 64 word) \<Rightarrow> string \<Rightarrow> string list \<Rightarrow> string list \<Rightarrow> 64 word \<Rightarrow> 64 word \<Rightarrow>
     ScaleParams \<Rightarrow> 'c \<times> bool \<Rightarrow> (scale_fatal, 'c \<times> bool) res" where
  "BuildTransitVRFs api v aftNHG defaultVRF primaryDefaultPrefixes backupDefaultPrefixes s1NHG s2NHG params dut =
     bind_res (transit_entries defaultVRF primaryDefaultPrefixes backupDefaultPrefixes s1NHG s2NHG params) (\<lambda>(entries, validatePrefixesV4).
     program_entries api v (GRIBIBatchSize params) entries
       (\<lambda>cl. bind_res (fib_check api validatePrefixesV4 [] cl) (\<lambda>_. VerifyHierarchicalResolution api aftNHG validatePrefixesV4 cl)) dut)"

definition BuildRepairVRF ::
  "'c fluent_api \<Rightarrow> vendor \<Rightarrow> ((64 word \<times> 64 word) list \<Rightarrow> (64 word \<times> 64 word) list) \<Rightarrow> string \<Rightarrow> 64 word \<Rightarrow> ScaleParams \<Rightarrow>
     'c \<times> bool \<Rightarrow> (scale_fatal, 'c \<times> bool) res" where
  "BuildRepairVRF api v ord defaultVRF s2NHG params dut =
     bind_res (repair_entries ord (repairReencapIntoMultipleBackupTunnels v) defaultVRF s2NHG params) (\<lambda>(entries, wantPrefixes).
     program_entries api v (GRIBIBatchSize params) entries (fib_check api wantPrefixes []) dut)"

definition BuildEncapDecapVRFs ::
  "'c fluent_api \<Rightarrow> vendor \<Rightarrow> string \<Rightarrow> ScaleParams \<Rightarrow> 'c \<times> bool \<Rightarrow> (scale_fatal, 'c \<times> bool) res" where
  "BuildEncapDecapVRFs api v defaultVRF params dut =
     bind_res (encap_entries defaultVRF params) (\<lambda>(entries, wantPrefixesV4, wantPrefixesV6).
     program_entries api v (GRIBIBatchSize params) entries (fib_check api wantPrefixesV4 wantPrefixesV6) dut)"

text \<open>The subtest \<^verbatim>\<open>Configure and validate FIB_PROGRAMMED\<close>, after the validation of the parameters.\<close>

definition program_all ::
  "'c fluent_api \<Rightarrow> vendor \<Rightarrow> ('c \<Rightarrow> string \<Rightarrow> string \<Rightarrow> 64 word) \<Rightarrow> ((64 word \<times> 64 word) list \<Rightarrow> (64 word \<times> 64 word) list) \<Rightarrow>
     string \<Rightarrow> ScaleParams \<Rightarrow> 'c \<Rightarrow> (scale_fatal, 'c \<times> bool) res" where
  "program_all api v aftNHG ord defaultVRF params dut =
     bind_res (map_sum ParamErr id (validateScaleParams params)) (\<lambda>_.
     bind_res (BuildDefaultVRF api v defaultVRF params (dut, False)) (\<lambda>(dut, primaryDefaultPrefixes, backupDefaultPrefixes).
     bind_res (BuildStaticGroups api v defaultVRF (GRIBIBatchSize params) dut) (\<lambda>(dut, s1NHG, s2NHG).
     bind_res (BuildRepairVRF api v ord defaultVRF s2NHG params dut) (\<lambda>dut.
     bind_res (BuildTransitVRFs api v aftNHG defaultVRF primaryDefaultPrefixes backupDefaultPrefixes s1NHG s2NHG params dut) (\<lambda>dut.
     BuildEncapDecapVRFs api v defaultVRF params dut)))))"


section \<open>What arrives at the device\<close>

definition records :: "'c fluent_api \<Rightarrow> ('c \<Rightarrow> gribi_entry list) \<Rightarrow> bool" where
  "records api sent \<longleftrightarrow>
     (\<forall>pers fib e c. sent (f_start api pers fib e c) = sent c) \<and> (\<forall>c. sent (f_stop api c) = sent c)
   \<and> (\<forall>e c. sent (f_elect api e c) = sent c) \<and> (\<forall>c. sent (fst (f_await api c)) = sent c)
   \<and> (\<forall>es c. sent (f_add api es c) = sent c @ es)"

text \<open>What the session of a client has sent.\<close>

definition cl_sent :: "('c \<Rightarrow> gribi_entry list) \<Rightarrow> 'c Client \<Rightarrow> gribi_entry list option" where
  "cl_sent sent cl = map_option sent (fluentC cl)"

lemma sent_await:
  "records api sent \<Longrightarrow> awaitTimeout api c = (c', ok) \<Longrightarrow> sent c' = sent c"
  by (simp add: records_def awaitTimeout_def) (metis fst_conv)

lemma sent_AddEntries:
  assumes "records api sent" "AddEntries api es [] cl = Inr cl'" "cl_sent sent cl = Some l"
  shows "cl_sent sent cl' = Some (l @ es)"
  using assms by (auto simp: AddEntries_def on_fluent_def cl_sent_def records_def split: option.splits)

lemma sent_send_batches:
  assumes "records api sent"
  shows "send_batches api v bs cl = Inr cl' \<Longrightarrow> cl_sent sent cl = Some l \<Longrightarrow> cl_sent sent cl' = Some (l @ concat bs)"
proof (induction bs arbitrary: cl l)
  case (Cons b bs)
  then obtain cl1 cl2 where 1: "AddEntries api b [] cl = Inr cl1" and
    2: "(if v \<noteq> ARISTA then on_fluent (\<lambda>c. let (c, ok) = awaitTimeout api c in if ok then Inr c else Inl AwaitError) cl1 else Inr cl1) = Inr cl2" and
    3: "send_batches api v bs cl2 = Inr cl'" by (auto simp: bind_res_Inr_iff)
  have "cl_sent sent cl1 = Some (l @ b)" by (rule sent_AddEntries [OF assms 1 Cons.prems(2)])
  then have "cl_sent sent cl2 = Some (l @ b)"
    using 2 sent_await [OF assms]
    by (fastforce simp: on_fluent_def cl_sent_def map_sum_Inr_iff split: if_splits option.splits prod.splits)
  from Cons.IH [OF 3 this] show ?case by simp
qed simp

lemma sent_NewGRIBIClient:
  assumes "records api sent" "NewGRIBIClient api dev = Inr cl"
  shows "cl_sent sent cl = Some (sent dev)"
proof -
  obtain c ok where a: "awaitTimeout api (f_start api True True \<lparr>Low = 1, High = 0\<rparr> dev) = (c, ok)" by fastforce
  then have c: "sent c = sent dev" using sent_await [OF assms(1) a] assms(1) by (simp add: records_def)
  obtain c1 c2 e where l: "LearnElectionID api c = Inr (c1, e)" and u: "UpdateElectionID api (Increment e) c1 = Inr c2"
    and cl: "fluentC cl = Some c2"
    using assms(2) a
    by (auto simp: NewGRIBIClient_def Start_def Client_BecomeLeader_def BecomeLeader_def bind_res_Inr_iff map_sum_Inr_iff split: if_splits)
  obtain ok1 where l1: "awaitTimeout api (f_elect api \<lparr>Low = 1, High = 0\<rparr> c) = (c1, ok1)"
    using l by (auto simp: LearnElectionID_def split: prod.splits if_splits option.splits)
  obtain ok2 where u1: "awaitTimeout api (f_elect api (Increment e) c1) = (c2, ok2)"
    using u by (auto simp: UpdateElectionID_def split: prod.splits if_splits)
  show ?thesis
    using cl c sent_await [OF assms(1) l1] sent_await [OF assms(1) u1] assms(1) by (simp add: cl_sent_def records_def)
qed

lemma sent_program_entries:
  assumes "records api sent" "program_entries api v sz es verify dut = Inr dut'"
  shows "sent (fst dut') = sent (fst dut) @ es"
proof -
  let ?n = "nat (if sz \<le> 0 then DefaultGRIBIBatchSize else sz)"
  obtain cl0 cl where 1: "NewGRIBIClient api (fst dut) = Inr cl0" and 2: "send_batches api v (batches ?n es) cl0 = Inr cl"
    and 3: "snd (Close api cl) = Some (fst dut')"
    using assms(2) by (auto simp: program_entries_def BatchModify_def bind_res_Inr_iff map_sum_Inr_iff Let_def split: prod.splits option.splits)
  have "0 < ?n" by (simp add: DefaultGRIBIBatchSize_def)
  then have "concat (batches ?n es) = es" by (rule concat_batches)
  then have "cl_sent sent cl = Some (sent (fst dut) @ es)"
    using sent_send_batches [OF assms(1) 2 sent_NewGRIBIClient [OF assms(1) 1]] by simp
  then show ?thesis using 3 assms(1)
    by (auto simp: Close_def cl_sent_def records_def dest: sym [of "f_stop api _"])
qed

text \<open>C2: When the programming subtest ends, the parameters were valid and the device was sent exactly the
  entries of the five builders, in their order, whatever the batch size and the vendor; if the
  parameters leave room between the base identifiers (those of the T0 to T3 tests do), these entries
  use no next-hop or group identifier twice, and the next hops and backup of every group and the
  group of every prefix are sent before they are referred to.\<close>

theorem program_all_delivers:
  assumes "records api sent" and "program_all api v aftNHG ord vrf p dut = Inr (dut', err)"
    and "ids_fit p" and "\<And>l. mset (ord l) = mset l"
  shows "\<exists>ess. full_scale_entries ord (repairReencapIntoMultipleBackupTunnels v) vrf p = Inr ess
    \<and> sent dut' = sent dut @ concat ess \<and> programmable {} {} (concat ess)"
proof -
  note send = sent_program_entries [OF assms(1)]
  obtain es1 w1 pp bp d1 es2 d2 es3 w3 d3 es4 w4 d4 es5 w5 w6 where
    v: "validateScaleParams p = Inr ()" and
    e1: "default_entries vrf p = Inr (es1, w1, pp, bp)" and
    d1: "program_entries api v (GRIBIBatchSize p) es1 (fib_check api w1 []) (dut, False) = Inr d1" and
    e2: "static_entries vrf = Inr es2" and d2: "program_entries api v (GRIBIBatchSize p) es2 (\<lambda>_. Inr False) d1 = Inr d2" and
    e3: "repair_entries ord (repairReencapIntoMultipleBackupTunnels v) vrf StaticS2NHG p = Inr (es3, w3)" and
    d3: "program_entries api v (GRIBIBatchSize p) es3 (fib_check api w3 []) d2 = Inr d3" and
    e4: "transit_entries vrf pp bp StaticS1NHG StaticS2NHG p = Inr (es4, w4)" and
    d4: "program_entries api v (GRIBIBatchSize p) es4
       (\<lambda>cl. bind_res (fib_check api w4 [] cl) (\<lambda>_. VerifyHierarchicalResolution api aftNHG w4 cl)) d3 = Inr d4" and
    e5: "encap_entries vrf p = Inr (es5, w5, w6)" and
    d5: "program_entries api v (GRIBIBatchSize p) es5 (fib_check api w5 w6) d4 = Inr (dut', err)"
    using assms(2)
    unfolding program_all_def BuildDefaultVRF_def BuildStaticGroups_def BuildRepairVRF_def BuildTransitVRFs_def BuildEncapDecapVRFs_def
    by (auto simp only: bind_res_Inr_iff map_sum_Inr_iff case_prod_beta sum.inject prod.inject fst_conv snd_conv)
  have f: "full_scale_entries ord (repairReencapIntoMultipleBackupTunnels v) vrf p = Inr [es1, es2, es3, es4, es5]"
    by (simp add: full_scale_entries_def v e1 e2 e3 e4 e5)
  moreover have "sent dut' = sent dut @ concat [es1, es2, es3, es4, es5]"
    using send [OF d1] send [OF d2] send [OF d3] send [OF d4] send [OF d5] by simp
  ultimately show ?thesis using full_scale_programmable [OF f assms(3,4)] by blast
qed

text \<open>The parameters of a small instance of the test, and a device that keeps what it is sent and accepts
  everything.\<close>

definition down_params :: ScaleParams where
  "down_params = \<lparr>GRIBIBatchSize = 256, NumDefaultNH = 2, NumDefaultNHG = 2,
     DefaultNHGLoadBalance = [\<lparr>lbp_Pct = 100, NumNextHops = 2\<rparr>], DefaultNHGWeight = [\<lparr>wp_Pct = 100, Config = Some ECMP\<rparr>], NumDefaultIPv4 = 2,
     NumTransitNH = 2, NumTransitNHG = 2, TransitNHGLoadBalance = [\<lparr>lbp_Pct = 100, NumNextHops = 2\<rparr>],
     TransitNHGWeight = [\<lparr>wp_Pct = 100, Config = Some (WCMP 64)\<rparr>], NumTransitIPv4 = 1, NumRepairIPv4 = 1, NumRepairNHG = 1,
     NumEncapVRFs = 1, NumUniqueEncapNH = 1, NumEncapDefaultNHG = 1, EncapNHGLoadBalance = [\<lparr>lbp_Pct = 100, NumNextHops = 1\<rparr>],
     EncapNHGWeight = [\<lparr>wp_Pct = 100, Config = Some (WCMP 32)\<rparr>], NumEncapIPv4PerVRF = 1, NumEncapIPv6PerVRF = 1,
     NumDecapEntries = 1, DecapDestsSubsetPct = 100, TrafficLossTol = 5, TrafficRateMpps = 1000, NumPort2VLANs = 2\<rparr>"

lemma v6_start:
  "parseIPv6_bytes ''2001:db8:0::1'' = Some [0x20, 1, 0x0d, 0xb8, 0, 0, 0, 0, 0, 0, 0, 0, 0, 0, 0, 1]"
  "parseIPv6_bytes ''::1'' = Some [0, 0, 0, 0, 0, 0, 0, 0, 0, 0, 0, 0, 0, 0, 0, 1]"
  by (simp_all add: parseIPv6_bytes_def hasPrefix_def parseIPv6_loop_numeral hex_val_def nat_to_be_numeral expand_ellipsis_def Let_def replicate_numeral)

lemma v6_values: "ParseIP ''2001:db8:0::1'' = [0x20, 1, 0x0d, 0xb8, 0, 0, 0, 0, 0, 0, 0, 0, 0, 0, 0, 1]"
  "ParseIP ''::1'' = [0, 0, 0, 0, 0, 0, 0, 0, 0, 0, 0, 0, 0, 0, 0, 1]"
  by (simp_all add: ParseIP_def parseAddr_def parseIPv6_def v6_start hasPrefix_def)

lemma v6_gen: "\<exists>a. GenerateIPv6sWithStep (''2001:db8:'' @ hex 0 @ ''::1'') 1 CommonIPv6PrefixStep = Inr [a]"
  by (simp add: GenerateIPv6sWithStep_def CommonIPv6PrefixStep_def hex.simps hex_digit_def v6_values To16_def To4_def v4InV6Prefix_def ipToBigInt_def
    be_to_nat_def replicate_numeral Let_def)


lemma list_length_2: "length l = 2 \<longleftrightarrow> (\<exists>a b. l = [a, b])"
  by (cases l; cases "tl l") auto

lemma gen_one: "v4_value s \<noteq> 0 \<Longrightarrow> v4_value t \<noteq> 0 \<Longrightarrow> v4_value s + v4_value t < 2 ^ 32 \<Longrightarrow> \<exists>a. GenerateIPsWithStep s 1 t = Inr [a]"
  using GenerateIPsWithStep_total [of 1 s t] by (auto simp: length_Suc_conv)

lemma gen_two: "v4_value s \<noteq> 0 \<Longrightarrow> v4_value t \<noteq> 0 \<Longrightarrow> v4_value s + v4_value t < 2 ^ 32 \<Longrightarrow> \<exists>a b. GenerateIPsWithStep s 2 t = Inr [a, b]"
  using GenerateIPsWithStep_total [of 2 s t] by (auto simp: list_length_2)

lemma down_ips: 
  "\<exists>a b. GenerateIPsWithStep ATEPort2IPv4Start 2 PortIPv4Step = Inr [a, b]"
  "\<exists>a b. GenerateIPsWithStep IPv4PrefixStartAddress 2 CommonPrefixStep = Inr [a, b]"
  "\<exists>a. GenerateIPsWithStep TransitVRF111PrefixStart 1 CommonPrefixStep = Inr [a]"
  "\<exists>a. GenerateIPsWithStep TransitVRF222PrefixStart 1 CommonPrefixStep = Inr [a]"
  "\<exists>a b. GenerateIPsWithStep TransitVRF222PrefixStart 2 CommonPrefixStep = Inr [a, b]"
  "\<exists>a. GenerateIPsWithStep (''200.'' @ dec 0 @ ''.0.1'') 1 CommonPrefixStep = Inr [a]"
  by (rule gen_one gen_two; simp only: start_values; simp)+

lemma down_valid: "validateScaleParams down_params = Inr ()"
  by (simp add: validateScaleParams_def down_params_def validateNHGLoadBalance_def validateNHGWeight_def)

lemma cfg_weights_one: "\<exists>w. cfg_weights c 1 = Some [w]"
  by (auto simp: cfg_weights_def computeNHGWeights_def Let_def split: option.splits WeightConfig.splits)

lemma down_iter:
  assumes "0 < n"
  shows "\<exists>it it' w. NewNHGBucketIterator 1 [\<lparr>lbp_Pct = 100, NumNextHops = n\<rparr>] [\<lparr>wp_Pct = 100, Config = c\<rparr>] 1 = Some it \<and> it_next it = Some (it', [w])"
proof -
  have "min n 1 = 1" using assms by simp
  then show ?thesis
    using cfg_weights_one [of c] by (auto simp: NewNHGBucketIterator_def computeNHGBuckets_def computeNHGWeightBuckets_def partitionNHG_def
      it_next_def advance_def)
qed

lemma down_loop: 
  "\<exists>it g. NewNHGBucketIterator 1 [\<lparr>lbp_Pct = 100, NumNextHops = n\<rparr>] [\<lparr>wp_Pct = 100, Config = c\<rparr>] 1 = Some it 
    \<and> nhg_loop v a b 1 bk (Suc 0) 0 0 it = Some ([g], 1)" if "0 < n"
  using down_iter [OF that, of c] by auto

lemma down_default: "\<exists>es w a b. default_entries v down_params = Inr (es, w, [a], [b])"
proof -
  obtain a b c d where g: "GenerateIPsWithStep ATEPort2IPv4Start 2 PortIPv4Step = Inr [a, b]"
    "GenerateIPsWithStep IPv4PrefixStartAddress 2 CommonPrefixStep = Inr [c, d]" using down_ips(1,2) by blast
  obtain it g1 where l: "NewNHGBucketIterator 1 [\<lparr>lbp_Pct = 100, NumNextHops = 2\<rparr>] [\<lparr>wp_Pct = 100, Config = Some ECMP\<rparr>] 1 = Some it"
    "nhg_loop v NHGBaseDefault NHBaseDefault 1 None (Suc 0) 0 0 it = Some ([g1], 1)" using down_loop [of 2 "Some ECMP"] by fastforce
  obtain g2 where l2: "nhg_loop v (NHGBaseDefault + 1) (NHBaseDefault + 1) 1 None (Suc 0) 0 0 it = Some ([g2], 1)"
    using down_loop [of 2 "Some ECMP"] l(1) by fastforce
  show ?thesis
    by (simp add: default_entries_def down_params_def g l l2 gen_def or_panic_def default_nhs_def nth_opt_def ShutdownVLANPct_def host_entries_def go_mod_def Let_def enumerate_eq_zip del: nhg_loop.simps)
qed

lemma down_static: "\<exists>es. static_entries v = Inr es"
  by (simp add: static_entries_def or_panic_def nh_entry_of_def NHEntry_def vrf_opt_def)
lemma down_repair: "\<exists>es. repair_entries ord multi v g down_params = Inr es"
proof -
  obtain a b c where g: "GenerateIPsWithStep TransitVRF222PrefixStart 2 CommonPrefixStep = Inr [a, b]"
    "GenerateIPsWithStep TransitVRF111PrefixStart 1 CommonPrefixStep = Inr [c]" using down_ips by blast
  show ?thesis
    by (simp add: repair_entries_def down_params_def g gen_def or_panic_def nth_opt_def host_entries_def go_mod_def enumerate_eq_zip
      nh_entry_of_def NHEntry_def tunnel_opt_def)
qed

lemma down_transit: "\<exists>es. transit_entries v [a] [b] s1 s2 down_params = Inr es"
proof -
  obtain c d where g: "GenerateIPsWithStep TransitVRF222PrefixStart 1 CommonPrefixStep = Inr [c]"
    "GenerateIPsWithStep TransitVRF111PrefixStart 1 CommonPrefixStep = Inr [d]" using down_ips by blast
  obtain it g1 where l: "NewNHGBucketIterator 1 [\<lparr>lbp_Pct = 100, NumNextHops = 2\<rparr>] [\<lparr>wp_Pct = 100, Config = Some (WCMP 64)\<rparr>] 1 = Some it"
    "nhg_loop v NHGBaseTransit NHBaseTransit 1 (Some s1) (Suc 0) 0 0 it = Some ([g1], 1)" using down_loop [of 2 "Some (WCMP 64)"] by fastforce
  obtain g2 where l2: "nhg_loop v (NHGBaseTransit + 1) (NHBaseTransit + 1) 1 (Some s2) (Suc 0) 0 0 it = Some ([g2], 1)"
    using down_loop [of 2 "Some (WCMP 64)"] l(1) by fastforce
  show ?thesis
    by (simp add: transit_entries_def buildTransitVRF_def down_params_def g l l2 gen_def or_panic_def host_entries_def go_mod_def Let_def enumerate_eq_zip del: nhg_loop.simps)
qed

lemma down_encap: "\<exists>es. encap_entries v down_params = Inr es"
proof -
  obtain c d where g: "GenerateIPsWithStep TransitVRF111PrefixStart 1 CommonPrefixStep = Inr [d]"
    "GenerateIPsWithStep (''200.'' @ dec 0 @ ''.0.1'') 1 CommonPrefixStep = Inr [c]" using down_ips by blast
  obtain e where g6: "GenerateIPv6sWithStep (''2001:db8:'' @ hex 0 @ ''::1'') 1 CommonIPv6PrefixStep = Inr [e]" using v6_gen by blast
  obtain it g1 where l: "NewNHGBucketIterator 1 [\<lparr>lbp_Pct = 100, NumNextHops = 1\<rparr>] [\<lparr>wp_Pct = 100, Config = Some (WCMP 32)\<rparr>] 1 = Some it"
    "nhg_loop v (NHGBaseEncap + 1) (NHBaseEncap + 1) 1 None (Suc 0) 0 0 it = Some ([g1], 1)" using down_loop [of 1 "Some (WCMP 32)"] by fastforce
  show ?thesis
    using g(2) g6 by (simp add: encap_entries_def encap_nhs_def BuildEncapVRFs_def down_params_def g(1) l gen_def or_panic_def host_entries_def go_mod_def Let_def enumerate_eq_zip nth_opt_def
      nh_entry_of_def NHEntry_def tunnel_opt_def vrf_opt_def decap_block_def del: nhg_loop.simps)
qed

lemma down_entries:
  "\<exists>es1 w a b es2 es3 w3 es4 w4 es5 w5 w6. default_entries vrf down_params = Inr (es1, w, [a], [b]) \<and> static_entries vrf = Inr es2
    \<and> repair_entries ord multi vrf StaticS2NHG down_params = Inr (es3, w3)
    \<and> transit_entries vrf [a] [b] StaticS1NHG StaticS2NHG down_params = Inr (es4, w4)
    \<and> encap_entries vrf down_params = Inr (es5, w5, w6)"
proof -
  obtain es1 w a b where "default_entries vrf down_params = Inr (es1, w, [a], [b])" using down_default by blast
  moreover obtain es2 where "static_entries vrf = Inr es2" using down_static by blast
  moreover obtain es3 w3 where "repair_entries ord multi vrf StaticS2NHG down_params = Inr (es3, w3)" using down_repair by fast
  moreover obtain es4 w4 where "transit_entries vrf [a] [b] StaticS1NHG StaticS2NHG down_params = Inr (es4, w4)" using down_transit by fast
  moreover obtain es5 w5 w6 where "encap_entries vrf down_params = Inr (es5, w5, w6)" using down_encap by fast
  ultimately show ?thesis by blast
qed

definition echo_api :: "gribi_entry list fluent_api" where
  "echo_api = \<lparr>f_start = \<lambda>_ _ _ c. c, f_stop = id, f_add = \<lambda>es c. c @ es, f_delete = \<lambda>_ c. c, f_elect = \<lambda>_ c. c,
     f_await = \<lambda>c. (c, True),
     f_results = \<lambda>c. [\<lparr>ServerError = [], ClientError = [], ProgrammingResult = FIB_PROGRAMMED, Details = None,
        CurrentServerElectionID = Some \<lparr>Low = 7, High = 0\<rparr>\<rparr>],
     f_flush = \<lambda>_ c. ([], True), f_hasResult = \<lambda>_ _. True, f_hasResultsCache = \<lambda>_ _. True\<rparr>"

lemma echo_send_batches: "send_batches echo_api v bs cl = Inr cl'" if "fluentC cl = Some l" "cl' = cl\<lparr>fluentC := Some (l @ concat bs)\<rparr>"
  using that
  by (induction bs arbitrary: cl l) (auto simp: AddEntries_def on_fluent_def awaitTimeout_def echo_api_def)

lemma echo_program:
  assumes "\<And>cl. fluentC cl \<noteq> None \<Longrightarrow> verify cl = Inr False"
  shows "program_entries echo_api v sz es verify (l, False) = Inr (l @ es, False)"
proof -
  have c: "NewGRIBIClient echo_api l = Inr \<lparr>FIBACK = True, Persistence = True, fluentC = Some l, electionID = Increment \<lparr>Low = 7, High = 0\<rparr>\<rparr>"
    by (simp add: NewGRIBIClient_def Start_def awaitTimeout_def Client_BecomeLeader_def BecomeLeader_def LearnElectionID_def UpdateElectionID_def echo_api_def)
  have "0 < nat (if sz \<le> 0 then DefaultGRIBIBatchSize else sz)" by (simp add: DefaultGRIBIBatchSize_def)
  note n = concat_batches [OF this]
  show ?thesis
    by (simp add: program_entries_def BatchModify_def c echo_send_batches [OF _ refl] n assms Let_def Close_def)
      (simp add: echo_api_def ValidateGRIBIResults_def count_failure_def isFailure_def)
qed

theorem program_all_delivers_witness:
  "\<exists>sent err ess. program_all echo_api ARISTA (\<lambda>_ _ _. 1) id ''DEFAULT'' down_params [] = Inr (sent, err)
    \<and> sent = concat ess \<and> programmable {} {} (concat ess) \<and> length ess = 5"
proof -
  let ?v = "''DEFAULT''"
  obtain es1 w a b es2 es3 w3 es4 w4 es5 w5 w6 where
    e: "default_entries ?v down_params = Inr (es1, w, [a], [b])" "static_entries ?v = Inr es2"
    "repair_entries id True ?v StaticS2NHG down_params = Inr (es3, w3)"
    "transit_entries ?v [a] [b] StaticS1NHG StaticS2NHG down_params = Inr (es4, w4)"
    "encap_entries ?v down_params = Inr (es5, w5, w6)" using down_entries [of ?v id True] by blast
  have chk: "fib_check echo_api w4 w6 cl = Inr False" "VerifyHierarchicalResolution echo_api (\<lambda>_ _ _. 1) w4 cl = Inr False"
    if "fluentC cl \<noteq> None" for w4 w6 cl
    using that by (auto simp: fib_check_def VerifyFIBProgrammed_def VerifyHierarchicalResolution_def echo_api_def list_all_iff list_ex_iff)
  have m: "repairReencapIntoMultipleBackupTunnels ARISTA" by (simp add: repairReencapIntoMultipleBackupTunnels_def)
  have p: "program_all echo_api ARISTA (\<lambda>_ _ _. 1) id ?v down_params [] = Inr (es1 @ es2 @ es3 @ es4 @ es5, False)"
    by (simp add: program_all_def down_valid BuildDefaultVRF_def BuildStaticGroups_def BuildRepairVRF_def BuildTransitVRFs_def
        BuildEncapDecapVRFs_def e m echo_program chk)
  have r: "records echo_api id" by (simp add: records_def echo_api_def)
  have f: "ids_fit down_params" by (simp add: ids_fit_def down_params_def half_def)
  obtain ess where ess: "full_scale_entries id True ?v down_params = Inr ess" "es1 @ es2 @ es3 @ es4 @ es5 = concat ess" "programmable {} {} (concat ess)"
    using program_all_delivers [OF r p f] m by auto
  have "length ess = 5" using ess(1) by (auto simp: full_scale_entries_def down_valid e)
  with p ess show ?thesis by auto
qed

end
