(* ===== verification/Packet_Validation.thy ===== *)
theory Packet_Validation
  imports Go_Net
begin

text \<open>
  \<^verbatim>\<open>internal/otg_helpers/packetvalidationhelpers\<close>: the checks of the packets captured on a traffic
  generator port.

  A captured packet is what \<^verbatim>\<open>gopacket\<close> decodes: for each layer type the first layer of that type, with
  the fields that are read. Decoding the payload of a tunnel again (\<^verbatim>\<open>gopacket.NewPacket\<close>) is
  the parameter \<open>decode\<close>. A \<^verbatim>\<open>PacketSource\<close> hands out its packets through one channel, so each
  validation goes on where the one before it stopped: a validator maps the packets that are left to an
  error, or to the packets it did not read and whether it reported an error (\<^verbatim>\<open>t.Errorf\<close>) on the way.
  A nil dereference is the error \<open>NilDeref\<close>. Writing the capture to a file and opening it is not
  modelled.

  The locale \<open>header_scan\<close> is the contract the header checks share; it is interpreted on the seven that
  are plain scans.
\<close>

section \<open>Captured packets and expectations\<close>

datatype layer_type = LayerTypeIPv4 | LayerTypeIPv6 | LayerTypeOther

record ipv4_layer =
  ip_DstIP :: string
  ip_Protocol :: "8 word"
  ip_TTL :: "8 word"
  ip_TOS :: "8 word"

record ipv6_layer =
  ipv6_DstIP :: string
  ipv6_HopLimit :: "8 word"
  ipv6_TrafficClass :: "8 word"
  ipv6_FlowLabel :: "32 word"
  ipv6_NextHeader :: "8 word"

record ports_layer =
  l_SrcPort :: "16 word"
  l_DstPort :: "16 word"
  l_Payload :: bytes

record gre_layer =
  gre_Payload :: bytes
  gre_NextLayerType :: layer_type

record mpls_layer =
  mpls_Label :: "32 word"
  mpls_TrafficClass :: "8 word"
  mpls_Payload :: bytes

record packet =
  l_Ethernet :: "16 word option"
  l_Dot1Q :: "16 word option"
  l_IPv4 :: "ipv4_layer option"
  l_IPv6 :: "ipv6_layer option"
  l_GRE :: "gre_layer option"
  l_MPLS :: "mpls_layer option"
  l_TCP :: "ports_layer option"
  l_UDP :: "ports_layer option"

datatype ValidationType =
    ValidateVlanHeader | ValidateIPv4Header | ValidateIPv6Header | ValidateInnerIPv4Header | ValidateInnerIPv6Header
  | ValidateMPLSLayer | ValidateTCPHeader | ValidateUDPHeader | ValidateBGPHeader | ValidateMacsecHeader | UnknownValidation string

record IPv4Layer =
  v4_Protocol :: "32 word"
  v4_DstIP :: string
  v4_Tos :: "8 word"
  v4_TTL :: "8 word"
  SkipProtocolCheck :: bool

record IPv6Layer =
  v6_DstIP :: string
  v6_TrafficClass :: "8 word"
  v6_HopLimit :: "8 word"
  v6_NextHeader :: "32 word"
  v6_FlowLabel :: "32 word"

record MPLSLayer =
  Label :: "32 word"
  Tc :: "8 word"
  ControlWordHeader :: bool
  ControlWordSequence :: "32 word"

record BGPLayer =
  bgp_TYPE :: "8 word"
  ErrorCode :: "8 word"
  ErrorSubCode :: "8 word"

record PacketValidation =
  pv_VlanID :: "16 word option"
  pv_IPv4Layer :: "IPv4Layer option"
  pv_IPv6Layer :: "IPv6Layer option"
  pv_MPLSLayer :: "MPLSLayer option"
  pv_MacsecEtherType :: "16 word option"
  pv_TCPPorts :: "(32 word \<times> 32 word) option"
  pv_UDPPorts :: "(32 word \<times> 32 word) option"
  pv_InnerIPv4 :: "IPv4Layer option"
  pv_InnerIPv6 :: "IPv6Layer option"
  pv_BGPLayer :: "BGPLayer option"
  ValidateFlowLabel :: "bool option"
  Validations :: "ValidationType list"

text \<open>The pairs of ports are the source and the destination.\<close>

datatype check_error =
    NilDeref | NoConfig
  | VlanIDWrong | NotEncapsulated | DstIPWrong | TTLAltered | TOSAltered | HopLimitAltered | TrafficClassAltered | FlowLabelWrong
  | NextHeaderAltered | ProtocolAltered | LabelWrong | DstPortWrong | SrcPortWrong
  | NoneFound ValidationType | NoPackets | NoMacsec | UnknownType string

type_synonym 'a checked = "(check_error, 'a) res"


section \<open>Validators\<close>

text \<open>What a check says of one packet: go on, stop with success (and whether an error was reported), or
  stop with an error.\<close>

datatype verdict = Skip | Accept bool | Reject check_error

fun scan :: "(packet \<Rightarrow> verdict) \<Rightarrow> check_error \<Rightarrow> packet list \<Rightarrow> (packet list \<times> bool) checked" where
  "scan verdict none [] = Inl none"
| "scan verdict none (p # ps) =
     (case verdict p of
        Skip \<Rightarrow> scan verdict none ps
      | Accept err \<Rightarrow> Inr (ps, err)
      | Reject e \<Rightarrow> Inl e)"

definition vlan_verdict :: "PacketValidation \<Rightarrow> packet \<Rightarrow> verdict" where
  "vlan_verdict pv p =
     (case l_Dot1Q p of
        None \<Rightarrow> Skip
      | Some vid \<Rightarrow>
          (case pv_VlanID pv of
             None \<Rightarrow> Reject NilDeref
           | Some want \<Rightarrow> if vid \<noteq> want then Reject VlanIDWrong else Accept False))"

definition validateVlanHeader :: "PacketValidation \<Rightarrow> packet list \<Rightarrow> (packet list \<times> bool) checked" where
  "validateVlanHeader pv = scan (vlan_verdict pv) (NoneFound ValidateVlanHeader)"

definition ipv4_verdict :: "IPv4Layer \<Rightarrow> packet \<Rightarrow> verdict" where
  "ipv4_verdict want p =
     (case l_IPv4 p of
        None \<Rightarrow> Skip
      | Some ip \<Rightarrow>
          if v4_DstIP want \<noteq> [] \<and> ip_DstIP ip \<noteq> v4_DstIP want then Skip
          else if \<not> SkipProtocolCheck want \<and> ucast (ip_Protocol ip) \<noteq> v4_Protocol want then Reject NotEncapsulated
          else if v4_DstIP want \<noteq> [] \<and> ip_DstIP ip \<noteq> v4_DstIP want then Reject DstIPWrong
          else if ip_TTL ip \<noteq> v4_TTL want then Reject TTLAltered
          else if v4_Tos want \<noteq> 0 \<and> ip_TOS ip \<noteq> v4_Tos want then Reject TOSAltered
          else Accept False)"

definition validateIPv4Header :: "PacketValidation \<Rightarrow> packet list \<Rightarrow> (packet list \<times> bool) checked" where
  "validateIPv4Header pv ps =
     (case pv_IPv4Layer pv of
        None \<Rightarrow> Inl NoConfig
      | Some want \<Rightarrow> scan (ipv4_verdict want) (NoneFound ValidateIPv4Header) ps)"

definition ipv6_verdict :: "bool option \<Rightarrow> IPv6Layer \<Rightarrow> packet \<Rightarrow> verdict" where
  "ipv6_verdict flags want p =
     (case l_IPv6 p of
        None \<Rightarrow> Skip
      | Some ip \<Rightarrow>
          if v6_DstIP want \<noteq> [] \<and> ipv6_DstIP ip \<noteq> v6_DstIP want then Skip
          else if v6_DstIP want \<noteq> [] \<and> ipv6_DstIP ip \<noteq> v6_DstIP want then Reject DstIPWrong
          else if ipv6_HopLimit ip \<noteq> v6_HopLimit want then Reject HopLimitAltered
          else if v6_TrafficClass want \<noteq> 0 \<and> ipv6_TrafficClass ip \<noteq> v6_TrafficClass want then Reject TrafficClassAltered
          else if flags = Some True \<and> ipv6_FlowLabel ip \<noteq> v6_FlowLabel want then Reject FlowLabelWrong
          else if v6_NextHeader want \<noteq> 0 \<and> ucast (ipv6_NextHeader ip) \<noteq> v6_NextHeader want then Reject NextHeaderAltered
          else Accept False)"

definition validateIPv6Header :: "PacketValidation \<Rightarrow> packet list \<Rightarrow> (packet list \<times> bool) checked" where
  "validateIPv6Header pv ps =
     (case pv_IPv6Layer pv of
        None \<Rightarrow> Inl NoConfig
      | Some want \<Rightarrow> scan (ipv6_verdict (ValidateFlowLabel pv) want) (NoneFound ValidateIPv6Header) ps)"

definition mpls_verdict :: "PacketValidation \<Rightarrow> packet \<Rightarrow> verdict" where
  "mpls_verdict pv p =
     (case l_MPLS p of
        None \<Rightarrow> Skip
      | Some mpls \<Rightarrow>
          (case pv_MPLSLayer pv of
             None \<Rightarrow> Reject NilDeref
           | Some want \<Rightarrow>
               if mpls_Label mpls \<noteq> Label want then Reject LabelWrong
               else if mpls_TrafficClass mpls \<noteq> Tc want then Reject TrafficClassAltered
               else Accept (ControlWordHeader want \<and> length (mpls_Payload mpls) < 4)))"

definition validateMPLSLayer :: "PacketValidation \<Rightarrow> packet list \<Rightarrow> (packet list \<times> bool) checked" where
  "validateMPLSLayer pv = scan (mpls_verdict pv) (NoneFound ValidateMPLSLayer)"

definition tcp_verdict :: "PacketValidation \<Rightarrow> packet \<Rightarrow> verdict" where
  "tcp_verdict pv p =
     (case l_TCP p of
        None \<Rightarrow> Skip
      | Some tcp \<Rightarrow>
          (case pv_TCPPorts pv of
             None \<Rightarrow> Reject NilDeref
           | Some (src, dst) \<Rightarrow>
               if ucast (l_DstPort tcp) \<noteq> dst then Reject DstPortWrong
               else if ucast (l_SrcPort tcp) \<noteq> src then Reject SrcPortWrong
               else Accept False))"

definition validateTCPHeader :: "PacketValidation \<Rightarrow> packet list \<Rightarrow> (packet list \<times> bool) checked" where
  "validateTCPHeader pv = scan (tcp_verdict pv) (NoneFound ValidateTCPHeader)"

definition udp_verdict :: "PacketValidation \<Rightarrow> packet \<Rightarrow> verdict" where
  "udp_verdict pv p =
     (case l_UDP p of
        None \<Rightarrow> Skip
      | Some udp \<Rightarrow>
          (case pv_UDPPorts pv of
             None \<Rightarrow> Reject NilDeref
           | Some (src, dst) \<Rightarrow>
               if ucast (l_DstPort udp) \<noteq> dst then Reject DstPortWrong
               else if src \<noteq> 0 \<and> ucast (l_SrcPort udp) \<noteq> src then Reject SrcPortWrong
               else Accept False))"

definition validateUDPHeader :: "PacketValidation \<Rightarrow> packet list \<Rightarrow> (packet list \<times> bool) checked" where
  "validateUDPHeader pv = scan (udp_verdict pv) (NoneFound ValidateUDPHeader)"

definition isAllFF :: "bytes \<Rightarrow> bool" where
  "isAllFF b = list_all (\<lambda>v. v = 0xff) b"

definition bgp_verdict :: "PacketValidation \<Rightarrow> packet \<Rightarrow> verdict" where
  "bgp_verdict pv p =
     (case l_TCP p of
        None \<Rightarrow> Skip
      | Some tcp \<Rightarrow>
          let payload = l_Payload tcp in
          if length payload < 21 then Skip
          else if \<not> isAllFF (take 16 payload) then Skip
          else (case pv_BGPLayer pv of
                  None \<Rightarrow> Reject NilDeref
                | Some want \<Rightarrow>
                    if payload ! 18 \<noteq> bgp_TYPE want \<and> payload ! 19 \<noteq> ErrorCode want \<and> payload ! 20 \<noteq> ErrorSubCode want then Skip
                    else Accept False))"

definition validateBGPHeader :: "PacketValidation \<Rightarrow> packet list \<Rightarrow> (packet list \<times> bool) checked" where
  "validateBGPHeader pv = scan (bgp_verdict pv) (NoneFound ValidateBGPHeader)"

text \<open>The packet inside a tunnel. \<open>encap\<close> is the variable \<^verbatim>\<open>encapPacket\<close>, nil before the first GRE packet and
  kept from one iteration to the next; \<open>viaUDP\<close> says that the expected protocol number equals the
  expected UDP destination port.\<close>

definition next_encap ::
  "(layer_type \<Rightarrow> bytes \<Rightarrow> packet) \<Rightarrow> layer_type \<Rightarrow> bool \<Rightarrow> packet \<Rightarrow> packet option \<Rightarrow> packet option checked" where
  "next_encap decode innerType viaUDP p encap =
     (if viaUDP then
        (case l_UDP p of None \<Rightarrow> Inl NilDeref | Some udp \<Rightarrow> Inr (Some (decode innerType (l_Payload udp))))
      else
        (case l_GRE p of None \<Rightarrow> Inr encap | Some gre \<Rightarrow> Inr (Some (decode (gre_NextLayerType gre) (gre_Payload gre)))))"

text \<open>\<open>proto\<close> is the field \<^verbatim>\<open>Protocol\<close> of the copy \<^verbatim>\<open>innerLayer\<close>.\<close>

definition inner_ipv4_verdict :: "IPv4Layer \<Rightarrow> 32 word \<Rightarrow> packet \<Rightarrow> verdict" where
  "inner_ipv4_verdict want proto p =
     (case l_IPv4 p of
        None \<Rightarrow> Skip
      | Some ip \<Rightarrow>
          if v4_DstIP want \<noteq> [] \<and> ip_DstIP ip \<noteq> v4_DstIP want then Reject DstIPWrong
          else if ip_TTL ip \<noteq> v4_TTL want then Reject TTLAltered
          else if ip_TOS ip \<noteq> v4_Tos want then Reject TOSAltered
          else if proto \<noteq> 0 \<and> ucast (ip_Protocol ip) \<noteq> v4_Protocol want then Reject ProtocolAltered
          else Accept False)"

definition inner_ipv6_verdict :: "IPv6Layer \<Rightarrow> packet \<Rightarrow> verdict" where
  "inner_ipv6_verdict want p =
     (case l_IPv6 p of
        None \<Rightarrow> Skip
      | Some ip \<Rightarrow>
          if ipv6_DstIP ip \<noteq> v6_DstIP want then Reject DstIPWrong
          else if ipv6_HopLimit ip \<noteq> v6_HopLimit want then Reject HopLimitAltered
          else if ipv6_TrafficClass ip \<noteq> v6_TrafficClass want then Reject TrafficClassAltered
          else if v6_NextHeader want \<noteq> 0 \<and> ucast (ipv6_NextHeader ip) \<noteq> v6_NextHeader want then Reject NextHeaderAltered
          else Accept False)"

fun inner_loop ::
  "(packet \<Rightarrow> packet option \<Rightarrow> packet option checked) \<Rightarrow> (packet \<Rightarrow> verdict) \<Rightarrow> check_error \<Rightarrow> packet option \<Rightarrow> packet list \<Rightarrow>
     (packet list \<times> bool) checked" where
  "inner_loop unwrap verdict none encap [] = Inl none"
| "inner_loop unwrap verdict none encap (p # ps) =
     bind_res (unwrap p encap) (\<lambda>encap.
     case encap of
       None \<Rightarrow> Inl NilDeref
     | Some q \<Rightarrow>
         (case verdict q of
            Skip \<Rightarrow> inner_loop unwrap verdict none encap ps
          | Accept err \<Rightarrow> Inr (ps, err)
          | Reject e \<Rightarrow> Inl e))"

definition validateInnerIPv4Header ::
  "(layer_type \<Rightarrow> bytes \<Rightarrow> packet) \<Rightarrow> PacketValidation \<Rightarrow> packet list \<Rightarrow> (packet list \<times> bool) checked" where
  "validateInnerIPv4Header decode pv ps =
     (case pv_InnerIPv4 pv of
        None \<Rightarrow> Inl NilDeref
      | Some want \<Rightarrow>
          if ps = [] then Inl (NoneFound ValidateInnerIPv4Header)
          else case pv_UDPPorts pv of
            None \<Rightarrow> Inl NilDeref
          | Some (_, dst) \<Rightarrow>
              let viaUDP = (v4_Protocol want = dst) in
              inner_loop (next_encap decode LayerTypeIPv4 viaUDP) (inner_ipv4_verdict want (if viaUDP then 0 else v4_Protocol want))
                (NoneFound ValidateInnerIPv4Header) None ps)"

definition validateInnerIPv6Header ::
  "(layer_type \<Rightarrow> bytes \<Rightarrow> packet) \<Rightarrow> PacketValidation \<Rightarrow> packet list \<Rightarrow> (packet list \<times> bool) checked" where
  "validateInnerIPv6Header decode pv ps =
     (case pv_InnerIPv6 pv of
        None \<Rightarrow> Inl NilDeref
      | Some want \<Rightarrow>
          if ps = [] then Inl (NoneFound ValidateInnerIPv6Header)
          else case pv_UDPPorts pv of
            None \<Rightarrow> Inl NilDeref
          | Some (_, dst) \<Rightarrow>
              inner_loop (next_encap decode LayerTypeIPv6 (v6_NextHeader want = dst)) (inner_ipv6_verdict want)
                (NoneFound ValidateInnerIPv6Header) None ps)"

definition MacsecEtherType :: "16 word" where "MacsecEtherType = 0x88e5"

definition validateMacsecHeader :: "PacketValidation \<Rightarrow> packet list \<Rightarrow> (packet list \<times> bool) checked" where
  "validateMacsecHeader pv ps =
     (let e = (case pv_MacsecEtherType pv of None \<Rightarrow> 0 | Some t \<Rightarrow> t);
          etherType = (if e = 0 then MacsecEtherType else e);
          macsecCount = length (filter (\<lambda>p. l_Ethernet p = Some etherType) ps) in
      if ps = [] then Inl NoPackets
      else if macsecCount = 0 then Inl NoMacsec
      else Inr ([], False))"

definition validate_one ::
  "(layer_type \<Rightarrow> bytes \<Rightarrow> packet) \<Rightarrow> PacketValidation \<Rightarrow> ValidationType \<Rightarrow> packet list \<Rightarrow> (packet list \<times> bool) checked" where
  "validate_one decode pv v ps =
     (case v of
        ValidateVlanHeader \<Rightarrow> validateVlanHeader pv ps
      | ValidateIPv4Header \<Rightarrow> validateIPv4Header pv ps
      | ValidateInnerIPv4Header \<Rightarrow> validateInnerIPv4Header decode pv ps
      | ValidateIPv6Header \<Rightarrow> validateIPv6Header pv ps
      | ValidateInnerIPv6Header \<Rightarrow> validateInnerIPv6Header decode pv ps
      | ValidateMPLSLayer \<Rightarrow> validateMPLSLayer pv ps
      | ValidateTCPHeader \<Rightarrow> validateTCPHeader pv ps
      | ValidateUDPHeader \<Rightarrow> validateUDPHeader pv ps
      | ValidateBGPHeader \<Rightarrow> validateBGPHeader pv ps
      | ValidateMacsecHeader \<Rightarrow> validateMacsecHeader pv ps
      | UnknownValidation s \<Rightarrow> Inl (UnknownType s))"

fun run_validations ::
  "(layer_type \<Rightarrow> bytes \<Rightarrow> packet) \<Rightarrow> PacketValidation \<Rightarrow> ValidationType list \<Rightarrow> packet list \<Rightarrow> (packet list \<times> bool) checked" where
  "run_validations decode pv [] ps = Inr (ps, False)"
| "run_validations decode pv (v # vs) ps =
     bind_res (validate_one decode pv v ps) (\<lambda>(ps, e1).
     bind_res (run_validations decode pv vs ps) (\<lambda>(ps, e2). Inr (ps, e1 \<or> e2)))"

definition CaptureAndValidatePackets :: "(layer_type \<Rightarrow> bytes \<Rightarrow> packet) \<Rightarrow> PacketValidation \<Rightarrow> packet list \<Rightarrow> (packet list \<times> bool) checked" where
  "CaptureAndValidatePackets decode packetVal ps = run_validations decode packetVal (Validations packetVal) ps"


section \<open>Header scans\<close>

text \<open>The contract of a header check: it reads packets until one is accepted or rejected.\<close>

locale header_scan =
  fixes validate :: "packet list \<Rightarrow> (packet list \<times> bool) checked" and verdict :: "packet \<Rightarrow> verdict" and none :: check_error
  assumes validate_Nil: "validate [] = Inl none"
    and validate_Cons: "validate (p # ps) =
      (case verdict p of Skip \<Rightarrow> validate ps | Accept err \<Rightarrow> Inr (ps, err) | Reject e \<Rightarrow> Inl e)"
begin

lemma skip_prefix: "list_all (\<lambda>p. verdict p = Skip) pre \<Longrightarrow> validate (pre @ ps) = validate ps"
  by (induction pre) (simp_all add: validate_Cons)

lemma first_decisive:
  "list_all (\<lambda>p. verdict p = Skip) ps \<or>
   (\<exists>pre p rest. ps = pre @ p # rest \<and> list_all (\<lambda>p. verdict p = Skip) pre \<and> verdict p \<noteq> Skip)"
  using split_list_first_prop [of ps "\<lambda>p. verdict p \<noteq> Skip"] unfolding list_all_iff by blast

lemma ok_iff:
  "validate ps = Inr (rest, err) \<longleftrightarrow>
     (\<exists>pre p. ps = pre @ p # rest \<and> list_all (\<lambda>p. verdict p = Skip) pre \<and> verdict p = Accept err)"
proof
  assume ok: "validate ps = Inr (rest, err)"
  show "\<exists>pre p. ps = pre @ p # rest \<and> list_all (\<lambda>p. verdict p = Skip) pre \<and> verdict p = Accept err"
    using first_decisive [of ps]
  proof
    assume "list_all (\<lambda>p. verdict p = Skip) ps"
    then have "validate ps = Inl none" using skip_prefix [of ps "[]"] validate_Nil by simp
    with ok show ?thesis by simp
  next
    assume "\<exists>pre p rest. ps = pre @ p # rest \<and> list_all (\<lambda>p. verdict p = Skip) pre \<and> verdict p \<noteq> Skip"
    then obtain pre p r where d: "ps = pre @ p # r" "list_all (\<lambda>p. verdict p = Skip) pre" "verdict p \<noteq> Skip" by blast
    with ok have "r = rest \<and> verdict p = Accept err" by (auto simp: skip_prefix validate_Cons split: verdict.splits)
    with d show ?thesis by blast
  qed
next
  assume "\<exists>pre p. ps = pre @ p # rest \<and> list_all (\<lambda>p. verdict p = Skip) pre \<and> verdict p = Accept err"
  then show "validate ps = Inr (rest, err)" by (auto simp: skip_prefix validate_Cons)
qed

lemma consumes: "validate ps = Inr (rest, err) \<Longrightarrow> length rest < length ps"
  by (auto simp: ok_iff)

lemma none_accepted: "(\<And>p err. p \<in> set ps \<Longrightarrow> verdict p \<noteq> Accept err) \<Longrightarrow> \<exists>e. validate ps = Inl e"
  by (cases "validate ps") (fastforce simp: ok_iff)+

end

lemma scan_header_scan: "header_scan (scan verdict none) verdict none"
  by unfold_locales simp_all

interpretation vlan: header_scan "validateVlanHeader pv" "vlan_verdict pv" "NoneFound ValidateVlanHeader" for pv
  unfolding validateVlanHeader_def by (rule scan_header_scan)

interpretation ipv4: header_scan "scan (ipv4_verdict want) (NoneFound ValidateIPv4Header)" "ipv4_verdict want" "NoneFound ValidateIPv4Header" for want
  by (rule scan_header_scan)

interpretation ipv6: header_scan "scan (ipv6_verdict flags want) (NoneFound ValidateIPv6Header)" "ipv6_verdict flags want" "NoneFound ValidateIPv6Header" for flags want
  by (rule scan_header_scan)

interpretation mpls: header_scan "validateMPLSLayer pv" "mpls_verdict pv" "NoneFound ValidateMPLSLayer" for pv
  unfolding validateMPLSLayer_def by (rule scan_header_scan)

interpretation tcp: header_scan "validateTCPHeader pv" "tcp_verdict pv" "NoneFound ValidateTCPHeader" for pv
  unfolding validateTCPHeader_def by (rule scan_header_scan)

interpretation udp: header_scan "validateUDPHeader pv" "udp_verdict pv" "NoneFound ValidateUDPHeader" for pv
  unfolding validateUDPHeader_def by (rule scan_header_scan)

interpretation bgp: header_scan "validateBGPHeader pv" "bgp_verdict pv" "NoneFound ValidateBGPHeader" for pv
  unfolding validateBGPHeader_def by (rule scan_header_scan)


section \<open>Every validation needs a packet of its own\<close>

lemma inner_loop_consumes: "inner_loop unwrap verdict none encap ps = Inr (rest, err) \<Longrightarrow> length rest < length ps"
proof (induction ps arbitrary: encap)
  case (Cons p ps)
  obtain q where "unwrap p encap = Inr (Some q)"
    using Cons.prems by (auto simp: bind_res_Inr_iff split: option.splits)
  with Cons show ?case by (cases "verdict q") fastforce+
qed simp

lemma validate_one_consumes:
  assumes "validate_one decode pv v ps = Inr (rest, err)"
  shows "length rest < length ps"
proof (cases v)
  case ValidateIPv4Header
  with assms show ?thesis by (auto simp: validate_one_def validateIPv4Header_def split: option.splits dest: ipv4.consumes)
next
  case ValidateIPv6Header
  with assms show ?thesis by (auto simp: validate_one_def validateIPv6Header_def split: option.splits dest: ipv6.consumes)
next
  case ValidateInnerIPv4Header
  with assms show ?thesis
    by (auto simp: validate_one_def validateInnerIPv4Header_def Let_def split: option.splits if_splits dest: inner_loop_consumes)
next
  case ValidateInnerIPv6Header
  with assms show ?thesis
    by (auto simp: validate_one_def validateInnerIPv6Header_def Let_def split: option.splits if_splits dest: inner_loop_consumes)
next
  case ValidateMacsecHeader
  with assms show ?thesis by (auto simp: validate_one_def validateMacsecHeader_def Let_def split: if_splits)
qed (use assms in \<open>auto simp: validate_one_def dest: vlan.consumes mpls.consumes tcp.consumes udp.consumes bgp.consumes\<close>)

text \<open>The validations of one capture share the stream of packets: each reads on where the one before
  stopped and uses up at least one packet, so a list of validations only passes on a capture with at
  least as many packets.\<close>

theorem capture_needs_packets:
  assumes "CaptureAndValidatePackets decode pv ps = Inr (rest, err)"
  shows "length (Validations pv) + length rest \<le> length ps"
proof -
  have "run_validations decode pv vs ps = Inr (rest, err) \<Longrightarrow> length vs + length rest \<le> length ps" for vs
  proof (induction vs arbitrary: ps err)
    case (Cons v vs)
    then obtain ps' e1 e2 where "validate_one decode pv v ps = Inr (ps', e1)" "run_validations decode pv vs ps' = Inr (rest, e2)"
      by (auto simp: bind_res_Inr_iff)
    with Cons.IH validate_one_consumes show ?case by fastforce
  qed simp
  then show ?thesis using assms unfolding CaptureAndValidatePackets_def .
qed

text \<open>A packet with a VLAN tag and an IPv4 header.\<close>

definition ex_packet :: packet where
  "ex_packet = \<lparr>l_Ethernet = Some 0x8100, l_Dot1Q = Some 7,
     l_IPv4 = Some \<lparr>ip_DstIP = ''10.0.0.1'', ip_Protocol = 4, ip_TTL = 63, ip_TOS = 40\<rparr>,
     l_IPv6 = None, l_GRE = None, l_MPLS = None, l_TCP = None, l_UDP = None\<rparr>"

definition ex_validation :: PacketValidation where
  "ex_validation = \<lparr>pv_VlanID = Some 7,
     pv_IPv4Layer = Some \<lparr>v4_Protocol = 4, v4_DstIP = ''10.0.0.1'', v4_Tos = 40, v4_TTL = 63, SkipProtocolCheck = False\<rparr>,
     pv_IPv6Layer = None, pv_MPLSLayer = None, pv_MacsecEtherType = None, pv_TCPPorts = None, pv_UDPPorts = None,
     pv_InnerIPv4 = None, pv_InnerIPv6 = None, pv_BGPLayer = None, ValidateFlowLabel = None,
     Validations = [ValidateVlanHeader, ValidateIPv4Header]\<rparr>"

lemmas capture_eval = CaptureAndValidatePackets_def validate_one_def validateVlanHeader_def validateIPv4Header_def vlan_verdict_def
  ipv4_verdict_def ex_packet_def ex_validation_def

theorem capture_needs_packets_witness:
  "CaptureAndValidatePackets (\<lambda>_ _. ex_packet) ex_validation [ex_packet, ex_packet] = Inr ([], False)
   \<and> length (Validations ex_validation) \<le> length [ex_packet, ex_packet]
   \<and> CaptureAndValidatePackets (\<lambda>_ _. ex_packet) ex_validation [ex_packet] = Inl (NoneFound ValidateIPv4Header)"
proof -
  have ok: "CaptureAndValidatePackets (\<lambda>_ _. ex_packet) ex_validation [ex_packet, ex_packet] = Inr ([], False)"
    by (simp add: capture_eval)
  have "CaptureAndValidatePackets (\<lambda>_ _. ex_packet) ex_validation [ex_packet] = Inl (NoneFound ValidateIPv4Header)"
    by (simp add: capture_eval)
  with ok capture_needs_packets [OF ok] show ?thesis by simp
qed


section \<open>The IPv4 header check\<close>

text \<open>What the check asks of the first IPv4 packet to the expected destination.\<close>

definition ipv4_meets :: "IPv4Layer \<Rightarrow> ipv4_layer \<Rightarrow> bool" where
  "ipv4_meets want ip \<longleftrightarrow> (SkipProtocolCheck want \<or> ucast (ip_Protocol ip) = v4_Protocol want)
     \<and> ip_TTL ip = v4_TTL want \<and> (v4_Tos want = 0 \<or> ip_TOS ip = v4_Tos want)"

definition ipv4_selected :: "IPv4Layer \<Rightarrow> packet \<Rightarrow> bool" where
  "ipv4_selected want p \<longleftrightarrow> (case l_IPv4 p of None \<Rightarrow> False | Some ip \<Rightarrow> v4_DstIP want = [] \<or> ip_DstIP ip = v4_DstIP want)"

lemma ipv4_verdict_Skip: "ipv4_verdict want p = Skip \<longleftrightarrow> \<not> ipv4_selected want p"
  by (auto simp: ipv4_verdict_def ipv4_selected_def split: option.splits)

lemma ipv4_verdict_Accept:
  "ipv4_verdict want p = Accept err \<longleftrightarrow> ipv4_selected want p \<and> ipv4_meets want (the (l_IPv4 p)) \<and> \<not> err"
  by (auto simp: ipv4_verdict_def ipv4_selected_def ipv4_meets_def split: option.splits)

text \<open>C26: The IPv4 header check passes exactly when the first packet to the expected destination (the first
  IPv4 packet when none is given) has the expected protocol, TTL and TOS; later packets do not count.
  The TTL is compared even when the caller leaves it at 0.\<close>

theorem validateIPv4Header_spec:
  assumes "pv_IPv4Layer pv = Some want"
  shows "(\<exists>rest err. validateIPv4Header pv ps = Inr (rest, err)) \<longleftrightarrow>
    (case find (ipv4_selected want) ps of None \<Rightarrow> False | Some p \<Rightarrow> ipv4_meets want (the (l_IPv4 p)))"
proof -
  have "(\<exists>rest err. scan (ipv4_verdict want) (NoneFound ValidateIPv4Header) ps = Inr (rest, err)) \<longleftrightarrow>
    (case find (ipv4_selected want) ps of None \<Rightarrow> False | Some p \<Rightarrow> ipv4_meets want (the (l_IPv4 p)))"
  proof (induction ps)
    case (Cons p ps)
    show ?case
    proof (cases "ipv4_selected want p")
      case True
      then have "ipv4_verdict want p \<noteq> Skip" by (simp add: ipv4_verdict_Skip)
      with True show ?thesis using ipv4_verdict_Accept [of want p] by (cases "ipv4_verdict want p") auto
    next
      case False
      with Cons show ?thesis using ipv4_verdict_Skip [of want p] by simp
    qed
  qed simp
  then show ?thesis using assms by (simp add: validateIPv4Header_def)
qed

theorem validateIPv4Header_spec_witness:
  "\<exists>rest err. validateIPv4Header ex_validation [ex_packet\<lparr>l_IPv4 := None\<rparr>, ex_packet] = Inr (rest, err)"
proof -
  have w: "pv_IPv4Layer ex_validation = Some \<lparr>v4_Protocol = 4, v4_DstIP = ''10.0.0.1'', v4_Tos = 40, v4_TTL = 63, SkipProtocolCheck = False\<rparr>"
    by (simp add: ex_validation_def)
  show ?thesis
    unfolding validateIPv4Header_spec [OF w] by (simp add: ipv4_selected_def ipv4_meets_def ex_packet_def)
qed


section \<open>Tunnels and BGP\<close>

text \<open>The check of the header inside a GRE tunnel crashes when the first captured packet is not a GRE
  packet: the variable for the inner packet is still nil when it is used.\<close>

theorem validateInnerIPv4Header_nil:
  assumes "pv_InnerIPv4 pv = Some want" and "pv_UDPPorts pv = Some (src, dst)" and "v4_Protocol want \<noteq> dst" and "l_GRE p = None"
  shows "validateInnerIPv4Header decode pv (p # ps) = Inl NilDeref"
  using assms by (simp add: validateInnerIPv4Header_def next_encap_def Let_def)

theorem validateInnerIPv4Header_nil_witness:
  "validateInnerIPv4Header (\<lambda>_ _. ex_packet)
     (ex_validation\<lparr>pv_InnerIPv4 := pv_IPv4Layer ex_validation, pv_UDPPorts := Some (0, 0)\<rparr>) [ex_packet] = Inl NilDeref"
  by (rule validateInnerIPv4Header_nil [where want = "the (pv_IPv4Layer ex_validation)" and src = 0 and dst = 0])
    (simp_all add: ex_validation_def ex_packet_def)

lemma ucast_byte_bound: "unat (ucast (w :: 8 word) :: 32 word) < 256"
proof -
  have "unat w < 2 ^ 32" using unsigned_less [of w, where ?'a = nat] by (rule less_trans) simp
  then have "unat (ucast w :: 32 word) = unat w" by (simp add: unsigned_ucast_eq take_bit_nat_eq_self)
  then show ?thesis using unsigned_less [of w, where ?'a = nat] by simp
qed

text \<open>The check of an IPv6 header inside a UDP tunnel can never pass for a port above 255: the tunnel is
  announced by giving the UDP destination port as the next header, and the next header of the inner
  packet, one byte, is then compared with that port (the IPv4 check skips this comparison).\<close>

theorem validateInnerIPv6Header_udp_fails:
  assumes "pv_InnerIPv6 pv = Some want" and "pv_UDPPorts pv = Some (src, v6_NextHeader want)" and "256 \<le> unat (v6_NextHeader want)"
  shows "\<exists>e. validateInnerIPv6Header decode pv ps = Inl e"
proof -
  have no: "inner_ipv6_verdict want q \<noteq> Accept err" for q err
    using assms(3) ucast_byte_bound
    by (auto simp: inner_ipv6_verdict_def split: option.splits) (metis less_le_not_le)+
  have "inner_loop unwrap (inner_ipv6_verdict want) none encap ps \<noteq> Inr r" for unwrap none encap r
  proof (induction ps arbitrary: encap)
    case (Cons p ps)
    show ?case
      using Cons no by (auto simp: bind_res_Inr_iff split: option.splits verdict.splits)
  qed simp
  then show ?thesis using assms(1,2) by (cases "validateInnerIPv6Header decode pv ps") (auto simp: validateInnerIPv6Header_def split: if_splits)
qed

definition ex_inner6 :: IPv6Layer where
  "ex_inner6 = \<lparr>v6_DstIP = ''2001:db8::1'', v6_TrafficClass = 0, v6_HopLimit = 63, v6_NextHeader = 6080, v6_FlowLabel = 0\<rparr>"

theorem validateInnerIPv6Header_udp_fails_witness:
  "\<exists>e. validateInnerIPv6Header (\<lambda>_ _. ex_packet\<lparr>l_IPv6 := Some \<lparr>ipv6_DstIP = ''2001:db8::1'', ipv6_HopLimit = 63, ipv6_TrafficClass = 0,
         ipv6_FlowLabel = 0, ipv6_NextHeader = 17\<rparr>\<rparr>)
     (ex_validation\<lparr>pv_InnerIPv6 := Some ex_inner6, pv_UDPPorts := Some (0, 6080)\<rparr>)
     [ex_packet\<lparr>l_UDP := Some \<lparr>l_SrcPort = 5, l_DstPort = 6080, l_Payload = []\<rparr>\<rparr>] = Inl e"
  by (rule validateInnerIPv6Header_udp_fails [where want = ex_inner6 and src = 0]) (simp_all add: ex_inner6_def)

text \<open>The BGP check accepts the first message in which the type, the error code \<^emph>\<open>or\<close> the error subcode
  is the expected one: a notification with another error code and subcode passes.\<close>

theorem validateBGPHeader_accepts_one_match:
  assumes "pv_BGPLayer pv = Some want" and "l_TCP p = Some tcp" and "21 \<le> length (l_Payload tcp)" and "isAllFF (take 16 (l_Payload tcp))"
  shows "validateBGPHeader pv (p # ps) = Inr (ps, False) \<longleftrightarrow>
      l_Payload tcp ! 18 = bgp_TYPE want \<or> l_Payload tcp ! 19 = ErrorCode want \<or> l_Payload tcp ! 20 = ErrorSubCode want"
  using assms bgp.consumes [of pv ps ps False] by (auto simp: bgp.validate_Cons bgp_verdict_def Let_def)

theorem validateBGPHeader_accepts_one_match_witness:
  "validateBGPHeader (ex_validation\<lparr>pv_BGPLayer := Some \<lparr>bgp_TYPE = 3, ErrorCode = 6, ErrorSubCode = 2\<rparr>\<rparr>)
     [ex_packet\<lparr>l_TCP := Some \<lparr>l_SrcPort = 179, l_DstPort = 1024, l_Payload = replicate 16 0xff @ [0, 21, 3, 4, 0]\<rparr>\<rparr>] = Inr ([], False)"
  by (subst validateBGPHeader_accepts_one_match [where want = "\<lparr>bgp_TYPE = 3, ErrorCode = 6, ErrorSubCode = 2\<rparr>"
        and tcp = "\<lparr>l_SrcPort = 179, l_DstPort = 1024, l_Payload = replicate 16 0xff @ [0, 21, 3, 4, 0]\<rparr>"])
    (simp_all add: isAllFF_def nth_append list_all_iff)

end
