(* ===== verification/Scale_Traffic.thy ===== *)
theory Scale_Traffic
  imports Gribi_Scale Packet_Validation
begin

text \<open>
  The traffic part of \<^verbatim>\<open>internal/cfgplugins/gribifullscale.go\<close>: the flows of the five scenarios, what is
  expected of each, the check of the captured packets, and the VLAN subinterfaces of device and traffic
  generator.

  A flow is its name, its size profile and rate, and its headers; the flow object of the traffic generator
  (\<^verbatim>\<open>gosnappi\<close>) is looked up by name after it is registered, which finds the new one because the names are
  distinct (\<open>flow_names_distinct\<close>). A run-time panic is \<open>None\<close>. Running the traffic, the loss counters and
  the administrative state of subinterfaces are not modelled.
\<close>

section \<open>DSCP values\<close>

definition EncapVRFDSCP :: "nat \<Rightarrow> 8 word \<times> 8 word" where
  "EncapVRFDSCP vrfIdx = (10 + of_nat vrfIdx * 2, 11 + of_nat vrfIdx * 2)"

definition EncapDSCPVal :: "nat \<Rightarrow> int \<Rightarrow> 32 word" where
  "EncapDSCPVal vrfIdx variant = (let (d1, d2) = EncapVRFDSCP vrfIdx in if variant = 0 then ucast d1 else ucast d2)"

definition dscp_pair :: "nat \<Rightarrow> 32 word list" where
  "dscp_pair vi = (let (d1, d2) = EncapVRFDSCP vi in [ucast d1, ucast d2])"

text \<open>A negative capacity is the panic of \<^verbatim>\<open>make\<close>.\<close>

definition getAllEncapDSCPVals :: "int \<Rightarrow> 32 word list option" where
  "getAllEncapDSCPVals numEncapVRFs =
     (if numEncapVRFs < 0 then None else Some (concat (map dscp_pair [0..<nat numEncapVRFs])))"


section \<open>Flows\<close>

definition ATEPort1IPv4 :: string where "ATEPort1IPv4 = ''192.0.2.2''"
definition ATEPort1MAC :: string where "ATEPort1MAC = ''02:00:01:01:01:01''"
definition EncapIPv6InnerSrc :: string where "EncapIPv6InnerSrc = ''2001:db8:ffff::1''"
definition TransitIPv4InnerDst :: string where "TransitIPv4InnerDst = ''172.16.0.2''"
definition RepairIPv4InnerDst :: string where "RepairIPv4InnerDst = ''172.16.0.3''"

definition outerSrcs :: "string list" where "outerSrcs = [IPv4OuterSrc111, IPv4OuterSrc222]"

datatype TrafficScenario = ScenarioEncap | ScenarioDecap | ScenarioReencap | ScenarioTransit | ScenarioRepaired

record IPIncrement =
  IncStart :: string
  IncStep :: string
  IncCount :: "32 word"

text \<open>A destination pattern; \<open>DstOther\<close> is a value of another dynamic type.\<close>

datatype dst = DstValue string | DstValues "string list" | DstIncrement IPIncrement | DstOther

definition setIPv4Dst :: "dst \<Rightarrow> dst option" where
  "setIPv4Dst val = (case val of DstOther \<Rightarrow> None | _ \<Rightarrow> Some val)"

datatype flow_header =
    EthernetHdr string string
  | Ipv4Hdr string dst "32 word list"
  | Ipv6Hdr string dst "32 word list"

datatype profile = FixedSize "32 word" "64 word" | IMIX "64 word"

record flow =
  flow_name :: string
  flow_profile :: profile
  flow_headers :: "flow_header list"

definition MakeFlowCreator :: "32 word \<Rightarrow> 64 word \<Rightarrow> bool \<Rightarrow> string \<Rightarrow> flow" where
  "MakeFlowCreator pktSize pps imix name =
     \<lparr>flow_name = name, flow_profile = (if imix then IMIX pps else FixedSize pktSize pps), flow_headers = []\<rparr>"

definition add_headers :: "flow_header list \<Rightarrow> flow \<Rightarrow> flow" where
  "add_headers hs f = f\<lparr>flow_headers := flow_headers f @ hs\<rparr>"

definition createIPv4InIPv4Flow ::
  "(string \<Rightarrow> flow) \<Rightarrow> string \<Rightarrow> string \<Rightarrow> string \<Rightarrow> 32 word list \<Rightarrow> dst \<Rightarrow> dst \<Rightarrow> flow option" where
  "createIPv4InIPv4Flow newFlow name dstMac outerSrc dscpVals outerDst innerDst =
     (case (setIPv4Dst outerDst, setIPv4Dst innerDst) of
        (Some o4, Some i4) \<Rightarrow>
          Some (add_headers [EthernetHdr ATEPort1MAC dstMac, Ipv4Hdr outerSrc o4 dscpVals, Ipv4Hdr ATEPort1IPv4 i4 dscpVals] (newFlow name))
      | _ \<Rightarrow> None)"

definition ExpandDecapPrefixes :: "ScaleParams \<Rightarrow> string list option" where
  "ExpandDecapPrefixes params =
     (if NumDecapEntries params < 0 then None
      else Some (map (\<lambda>i. ''203.'' @ dec (i div 4) @ ''.'' @ dec (i mod 4 * 64) @ ''.1'') [0..<nat (NumDecapEntries params)]))"

definition encap_v4_dst :: "ScaleParams \<Rightarrow> nat \<Rightarrow> dst" where
  "encap_v4_dst params vi =
     DstIncrement \<lparr>IncStart = ''200.'' @ dec vi @ ''.0.1'', IncStep = CommonPrefixStep, IncCount = of_int (NumEncapIPv4PerVRF params)\<rparr>"

definition encap_v6_dst :: "ScaleParams \<Rightarrow> nat \<Rightarrow> dst" where
  "encap_v6_dst params vi =
     DstIncrement \<lparr>IncStart = ''2001:db8:'' @ hex vi @ ''::1'', IncStep = CommonIPv6PrefixStep, IncCount = of_int (NumEncapIPv6PerVRF params)\<rparr>"

definition traffic_classes :: "nat \<Rightarrow> 32 word list" where
  "traffic_classes vi = map (push_bit 2) (dscp_pair vi)"

definition BuildEncapFlows :: "(string \<Rightarrow> flow) \<Rightarrow> string \<Rightarrow> ScaleParams \<Rightarrow> flow list option" where
  "BuildEncapFlows newFlow dstMac params =
     map_option (\<lambda>encapVRFs. concat (map (\<lambda>vi.
         [add_headers [EthernetHdr ATEPort1MAC dstMac, Ipv4Hdr ATEPort1IPv4 (encap_v4_dst params vi) (dscp_pair vi)]
            (newFlow (''encap_ipv4_vrf_'' @ dec vi)),
          add_headers [EthernetHdr ATEPort1MAC dstMac, Ipv6Hdr EncapIPv6InnerSrc (encap_v6_dst params vi) (traffic_classes vi)]
            (newFlow (''encap_ipv6_vrf_'' @ dec vi))]) [0..<length encapVRFs]))
       (BuildEncapVRFs (NumEncapVRFs params))"

text \<open>The inner destinations of VRF \<open>vi\<close>: its share of the VLAN addresses, cyclically. An error of the
  address generator is ignored, which leaves the list empty.\<close>

definition decap_subset :: "ScaleParams \<Rightarrow> string list \<Rightarrow> nat \<Rightarrow> string list option" where
  "decap_subset params atePort2Ips vi =
     (let subsetCount = nat (max 1 ((NumPort2VLANs params * DecapDestsSubsetPct params) sdiv 100)) in
      those (map (\<lambda>j. case go_mod (vi * subsetCount + j) (NumPort2VLANs params) of
                        None \<Rightarrow> None
                      | Some idx \<Rightarrow> nth_opt atePort2Ips idx) [0..<subsetCount]))"

definition BuildDecapFlows :: "(string \<Rightarrow> flow) \<Rightarrow> string \<Rightarrow> bool \<Rightarrow> ScaleParams \<Rightarrow> flow list option" where
  "BuildDecapFlows newFlow dstMac compact params =
     (case ExpandDecapPrefixes params of
        None \<Rightarrow> None
      | Some outerDecapDsts \<Rightarrow>
          let atePort2Ips = (case GenerateIPsWithStep ATEPort2IPv4Start (NumPort2VLANs params) PortIPv4Step of Inl _ \<Rightarrow> [] | Inr ips \<Rightarrow> ips);
              createFlow = (\<lambda>name dscpVals innerDstIPs.
                createIPv4InIPv4Flow newFlow name dstMac IPv4OuterSrc111 dscpVals (DstValues outerDecapDsts) (DstValues innerDstIPs)) in
          if compact then
            (case getAllEncapDSCPVals (NumEncapVRFs params) of
               None \<Rightarrow> None
             | Some dscps \<Rightarrow> map_option (\<lambda>f. [f]) (createFlow ''decap_vrf_all_src_111'' dscps atePort2Ips))
          else
            (case BuildEncapVRFs (NumEncapVRFs params) of
               None \<Rightarrow> None
             | Some encapVRFs \<Rightarrow>
                 those (map (\<lambda>vi. Option.bind (decap_subset params atePort2Ips vi)
                              (createFlow (''decap_vrf_'' @ dec vi @ ''_src_111'') (dscp_pair vi))) [0..<length encapVRFs])))"

text \<open>\<^verbatim>\<open>outerSrc[len(outerSrc)-3:]\<close>; the outer sources have more than three characters.\<close>

definition tag_of :: "string \<Rightarrow> string" where
  "tag_of outerSrc = drop (length outerSrc - 3) outerSrc"

definition BuildReencapFlows :: "(string \<Rightarrow> flow) \<Rightarrow> string \<Rightarrow> ScaleParams \<Rightarrow> flow list option" where
  "BuildReencapFlows newFlow dstMac params =
     (case ExpandDecapPrefixes params of
        None \<Rightarrow> None
      | Some decapDsts \<Rightarrow>
          map_option (\<lambda>encapVRFs. concat (map (\<lambda>vi. concat (map (\<lambda>outerSrc.
              [add_headers [EthernetHdr ATEPort1MAC dstMac, Ipv4Hdr outerSrc (DstValues decapDsts) (dscp_pair vi),
                  Ipv4Hdr ATEPort1IPv4 (encap_v4_dst params vi) (dscp_pair vi)]
                 (newFlow (''reencap_ipv4_vrf_'' @ dec vi @ ''_src_'' @ tag_of outerSrc)),
               add_headers [EthernetHdr ATEPort1MAC dstMac, Ipv4Hdr outerSrc (DstValues decapDsts) (dscp_pair vi),
                  Ipv6Hdr EncapIPv6InnerSrc (encap_v6_dst params vi) (traffic_classes vi)]
                 (newFlow (''reencap_ipv6_vrf_'' @ dec vi @ ''_src_'' @ tag_of outerSrc))]) outerSrcs)) [0..<length encapVRFs]))
            (BuildEncapVRFs (NumEncapVRFs params)))"

text \<open>The common part of \<^verbatim>\<open>BuildTransitFlows\<close> and \<^verbatim>\<open>BuildRepairedFlows\<close>.\<close>

definition transit_flows ::
  "string \<Rightarrow> string \<Rightarrow> string \<Rightarrow> string \<Rightarrow> (string \<Rightarrow> flow) \<Rightarrow> string \<Rightarrow> bool \<Rightarrow> ScaleParams \<Rightarrow> flow list option" where
  "transit_flows prefix outerSrc start innerDst newFlow dstMac compact params =
     (let createFlow = (\<lambda>name dscpVals. createIPv4InIPv4Flow newFlow name dstMac outerSrc dscpVals
            (DstIncrement \<lparr>IncStart = start, IncStep = CommonPrefixStep, IncCount = of_int (NumTransitIPv4 params)\<rparr>) (DstValue innerDst)) in
      if compact then
        (case getAllEncapDSCPVals (NumEncapVRFs params) of
           None \<Rightarrow> None
         | Some dscps \<Rightarrow> map_option (\<lambda>f. [f]) (createFlow (prefix @ ''all'') dscps))
      else
        (case BuildEncapVRFs (NumEncapVRFs params) of
           None \<Rightarrow> None
         | Some encapVRFs \<Rightarrow> those (map (\<lambda>vi. createFlow (prefix @ dec vi) (dscp_pair vi)) [0..<length encapVRFs])))"

definition BuildTransitFlows :: "(string \<Rightarrow> flow) \<Rightarrow> string \<Rightarrow> bool \<Rightarrow> ScaleParams \<Rightarrow> flow list option" where
  "BuildTransitFlows = transit_flows ''transit_encap_te_vrf_'' IPv4OuterSrc111 TransitVRF111PrefixStart TransitIPv4InnerDst"

definition BuildRepairedFlows :: "(string \<Rightarrow> flow) \<Rightarrow> string \<Rightarrow> bool \<Rightarrow> ScaleParams \<Rightarrow> flow list option" where
  "BuildRepairedFlows = transit_flows ''repaired_encap_te_vrf_'' IPv4OuterSrc222 TransitVRF222PrefixStart RepairIPv4InnerDst"

definition CountBaseFlows :: "bool \<Rightarrow> bool \<Rightarrow> ScaleParams \<Rightarrow> int" where
  "CountBaseFlows compactOTGFlows testRepair params =
     (let n = NumEncapVRFs params;
          transitFlows = (if compactOTGFlows then 1 else n);
          decapFlows = (if compactOTGFlows then 1 else n);
          repairedFlows = (if compactOTGFlows then 1 else n) in
      if testRepair then transitFlows
      else n * 2 + decapFlows + n * int (length outerSrcs) * 2 + transitFlows + repairedFlows)"


section \<open>Expectations\<close>

record FlowExpectation =
  Scenario :: TrafficScenario
  ExpectedOuterSrc :: string
  ExpectedDSCPs :: "32 word list"
  WantEncapPresent :: bool
  DecapPrefixSet :: "string list"

definition expectation ::
  "bool \<Rightarrow> bool \<Rightarrow> ScaleParams \<Rightarrow> string list \<Rightarrow> TrafficScenario \<Rightarrow> string \<Rightarrow> bool \<Rightarrow> nat \<Rightarrow> nat \<Rightarrow> FlowExpectation option" where
  "expectation compact testRepair params decapPfxSet sc outerSrc wantEncap flowsPerVRF fi =
     map_option (\<lambda>dscps. \<lparr>Scenario = sc,
         ExpectedOuterSrc = (if testRepair \<and> sc = ScenarioTransit then IPv4OuterSrc222 else outerSrc),
         ExpectedDSCPs = dscps, WantEncapPresent = wantEncap, DecapPrefixSet = decapPfxSet\<rparr>)
       (if compact \<and> sc \<in> {ScenarioDecap, ScenarioTransit, ScenarioRepaired} then getAllEncapDSCPVals (NumEncapVRFs params)
        else Some (dscp_pair (fi div flowsPerVRF)))"

fun addFlows ::
  "(nat \<Rightarrow> FlowExpectation option) \<Rightarrow> nat \<Rightarrow> flow list \<Rightarrow> (string \<rightharpoonup> FlowExpectation) \<Rightarrow> (string \<rightharpoonup> FlowExpectation) option" where
  "addFlows expct fi [] expectations = Some expectations"
| "addFlows expct fi (f # fs) expectations =
     (case expct fi of
        None \<Rightarrow> None
      | Some e \<Rightarrow> addFlows expct (Suc fi) fs (expectations(flow_name f \<mapsto> e)))"

record flow_builder =
  build :: "flow list option"
  scenario :: TrafficScenario
  outerSrc :: string
  needCapture :: bool
  multiplier :: nat

definition builders :: "(string \<Rightarrow> flow) \<Rightarrow> string \<Rightarrow> bool \<Rightarrow> ScaleParams \<Rightarrow> flow_builder list" where
  "builders newFlow dstMac compact params =
     [\<lparr>build = BuildEncapFlows newFlow dstMac params, scenario = ScenarioEncap, outerSrc = IPv4OuterSrc111, needCapture = True, multiplier = 2\<rparr>,
      \<lparr>build = BuildDecapFlows newFlow dstMac compact params, scenario = ScenarioDecap, outerSrc = [], needCapture = False, multiplier = 1\<rparr>,
      \<lparr>build = BuildReencapFlows newFlow dstMac params, scenario = ScenarioReencap, outerSrc = [], needCapture = True, multiplier = 4\<rparr>,
      \<lparr>build = BuildTransitFlows newFlow dstMac compact params, scenario = ScenarioTransit, outerSrc = IPv4OuterSrc111, needCapture = True, multiplier = 1\<rparr>,
      \<lparr>build = BuildRepairedFlows newFlow dstMac compact params, scenario = ScenarioRepaired, outerSrc = IPv4OuterSrc222, needCapture = True, multiplier = 1\<rparr>]"

fun run_builders ::
  "bool \<Rightarrow> bool \<Rightarrow> ScaleParams \<Rightarrow> string list \<Rightarrow> flow_builder list \<Rightarrow> flow list \<times> (string \<rightharpoonup> FlowExpectation) \<Rightarrow>
     (flow list \<times> (string \<rightharpoonup> FlowExpectation)) option" where
  "run_builders compact testRepair params decapPfxSet [] acc = Some acc"
| "run_builders compact testRepair params decapPfxSet (b # bs) (allFlows, expectations) =
     (if testRepair \<and> scenario b \<noteq> ScenarioTransit then run_builders compact testRepair params decapPfxSet bs (allFlows, expectations)
      else case build b of
        None \<Rightarrow> None
      | Some flows \<Rightarrow>
          (case addFlows (expectation compact testRepair params decapPfxSet (scenario b) (outerSrc b) (needCapture b) (multiplier b)) 0 flows expectations of
             None \<Rightarrow> None
           | Some expectations \<Rightarrow> run_builders compact testRepair params decapPfxSet bs (allFlows @ flows, expectations)))"

definition perFlowPPS :: "bool \<Rightarrow> bool \<Rightarrow> ScaleParams \<Rightarrow> 64 word" where
  "perFlowPPS compact testRepair params =
     (let baseFlows = max (CountBaseFlows compact testRepair params) 1;
          pps = TrafficRateMpps params div of_int baseFlows in
      if pps = 0 then 1 else pps)"

text \<open>The flows and expectations \<^verbatim>\<open>RunEndToEndTrafficValidation\<close> sets up.\<close>

definition traffic_setup ::
  "string \<Rightarrow> bool \<Rightarrow> bool \<Rightarrow> bool \<Rightarrow> ScaleParams \<Rightarrow> (flow list \<times> (string \<rightharpoonup> FlowExpectation)) option" where
  "traffic_setup dstMac imix testRepair compact params =
     (case ExpandDecapPrefixes params of
        None \<Rightarrow> None
      | Some decapPfxSet \<Rightarrow>
          let newFlow = MakeFlowCreator (if imix then 0 else 64) (perFlowPPS compact testRepair params) imix in
          run_builders compact testRepair params decapPfxSet (builders newFlow dstMac compact params) ([], Map.empty))"


section \<open>The captured packets\<close>

text \<open>One expectation per scenario: the first in the order in which the map is read.\<close>

fun representatives :: "(string \<times> FlowExpectation) list \<Rightarrow> (TrafficScenario \<times> FlowExpectation) list" where
  "representatives [] = []"
| "representatives ((name, e) # es) = (Scenario e, e) # filter (\<lambda>(sc, _). sc \<noteq> Scenario e) (representatives es)"

definition scenario_validation :: "TrafficScenario \<Rightarrow> FlowExpectation \<Rightarrow> PacketValidation" where
  "scenario_validation sc e =
     (let tosByte = (case ExpectedDSCPs e of [] \<Rightarrow> 0 | d # _ \<Rightarrow> ucast (push_bit 2 d));
          layer = \<lparr>v4_Protocol = 0, v4_DstIP = ExpectedOuterSrc e, v4_Tos = tosByte, v4_TTL = 0, SkipProtocolCheck = False\<rparr>;
          layer = (case sc of
             ScenarioDecap \<Rightarrow> layer\<lparr>SkipProtocolCheck := True, v4_DstIP := []\<rparr>
           | ScenarioReencap \<Rightarrow> layer\<lparr>v4_Protocol := 4, v4_DstIP := []\<rparr>
           | _ \<Rightarrow> layer\<lparr>v4_Protocol := 4\<rparr>) in
      \<lparr>pv_VlanID = None, pv_IPv4Layer = Some layer, pv_IPv6Layer = None, pv_MPLSLayer = None, pv_MacsecEtherType = None,
       pv_TCPPorts = None, pv_UDPPorts = None, pv_InnerIPv4 = None, pv_InnerIPv6 = None, pv_BGPLayer = None,
       ValidateFlowLabel = None, Validations = [ValidateIPv4Header]\<rparr>)"

text \<open>\<open>entries\<close> lists the expectations in the order in which they are read; the result is the outcome of each
  scenario's validation of the capture.\<close>

definition ValidateCapturedPackets ::
  "(layer_type \<Rightarrow> bytes \<Rightarrow> packet) \<Rightarrow> (string \<times> FlowExpectation) list \<Rightarrow> packet list \<Rightarrow> (TrafficScenario \<times> (packet list \<times> bool) checked) list" where
  "ValidateCapturedPackets decode entries capture =
     map (\<lambda>(sc, e). (sc, CaptureAndValidatePackets decode (scenario_validation sc e) capture)) (representatives entries)"


section \<open>Flow by flow\<close>

lemma length_concat_upt: "(\<And>i. length (g i) = m) \<Longrightarrow> length (concat (map g [0..<n])) = n * m"
  by (induction n) simp_all

lemma nth_concat_upt:
  assumes "\<And>i. length (g i) = m" and "k < n * m"
  shows "concat (map g [0..<n]) ! k = g (k div m) ! (k mod m)"
  using assms(2)
proof (induction n)
  case (Suc n)
  have m: "0 < m" using Suc.prems by (cases m) simp_all
  show ?case
  proof (cases "k < n * m")
    case True
    with Suc show ?thesis by (simp add: nth_append length_concat_upt [OF assms(1)])
  next
    case False
    then have "k div m = n" using Suc.prems m by (intro div_nat_eqI) (simp_all add: algebra_simps)
    then have "k mod m = k - n * m" by (simp add: minus_mult_div_eq_mod [symmetric] mult.commute)
    with False \<open>k div m = n\<close> show ?thesis by (simp add: nth_append length_concat_upt [OF assms(1)])
  qed
qed simp

lemma distinct_concat_upt:
  assumes "\<And>i. distinct (g i)" and "\<And>i j. i \<noteq> j \<Longrightarrow> set (g i) \<inter> set (g j) = {}"
  shows "distinct (concat (map g [0..<n]))"
proof (induction n)
  case (Suc n)
  then show ?case using assms(1) assms(2) [of _ n] by fastforce
qed simp

text \<open>The DSCP values a flow carries in its first IP header.\<close>

fun flow_dscps :: "flow_header list \<Rightarrow> 32 word list" where
  "flow_dscps (EthernetHdr a b # Ipv4Hdr src d dscps # hs) = dscps"
| "flow_dscps (EthernetHdr a b # Ipv6Hdr src d tcs # hs) = map (drop_bit 2) tcs"
| "flow_dscps hs = []"

lemma drop_push_byte: "drop_bit 2 (push_bit 2 (ucast (w :: 8 word)) :: 32 word) = ucast w"
  by (rule bit_word_eqI) (auto simp: bit_simps dest: bit_imp_le_length)

lemma drop_traffic_classes: "map (drop_bit 2) (traffic_classes vi) = dscp_pair vi"
  by (simp add: traffic_classes_def dscp_pair_def EncapVRFDSCP_def drop_push_byte del: drop_bit_push_bit)

lemma MakeFlowCreator_simps [simp]:
  "flow_name (MakeFlowCreator sz pps imix name) = name" "flow_headers (MakeFlowCreator sz pps imix name) = []"
  by (simp_all add: MakeFlowCreator_def)

lemma add_headers_simps [simp]:
  "flow_name (add_headers hs f) = flow_name f" "flow_headers (add_headers hs f) = flow_headers f @ hs"
  by (simp_all add: add_headers_def)

text \<open>A flow list in which flow \<open>k\<close> belongs to VRF \<open>k div m\<close>.\<close>

definition per_vrf :: "nat \<Rightarrow> flow list \<Rightarrow> bool" where
  "per_vrf m fs \<longleftrightarrow> (\<forall>k < length fs. flow_dscps (flow_headers (fs ! k)) = dscp_pair (k div m))"

text \<open>The names of the flows: what is built for VRF \<open>vi\<close>. With compact flows there is one flow for all VRFs.\<close>

datatype flow_key = KEncap bool nat | KDecap nat | KReencap bool bool nat | KTransit nat | KRepaired nat

fun key_name :: "bool \<Rightarrow> flow_key \<Rightarrow> string" where
  "key_name c (KEncap v6 vi) = ''encap_ipv'' @ (if v6 then ''6'' else ''4'') @ ''_vrf_'' @ dec vi"
| "key_name c (KDecap vi) = ''decap_vrf_'' @ (if c then ''all'' else dec vi) @ ''_src_111''"
| "key_name c (KReencap v6 b vi) =
     ''reencap_ipv'' @ (if v6 then ''6'' else ''4'') @ ''_vrf_'' @ dec vi @ ''_src_'' @ (if b then ''222'' else ''111'')"
| "key_name c (KTransit vi) = ''transit_encap_te_vrf_'' @ (if c then ''all'' else dec vi)"
| "key_name c (KRepaired vi) = ''repaired_encap_te_vrf_'' @ (if c then ''all'' else dec vi)"

fun key_ok :: "bool \<Rightarrow> flow_key \<Rightarrow> bool" where
  "key_ok c (KDecap vi) = (c \<longrightarrow> vi = 0)"
| "key_ok c (KTransit vi) = (c \<longrightarrow> vi = 0)"
| "key_ok c (KRepaired vi) = (c \<longrightarrow> vi = 0)"
| "key_ok c k = True"

lemma key_name_inject: "key_ok c k \<Longrightarrow> key_ok c k' \<Longrightarrow> key_name c k = key_name c k' \<longleftrightarrow> k = k'"
  by (cases k; cases k') (auto split: if_splits)

text \<open>What the five builders return.\<close>

lemma BuildEncapFlows_built:
  assumes "BuildEncapFlows (MakeFlowCreator sz pps imix) mac p = Some fs"
  shows "0 \<le> NumEncapVRFs p" "length fs = nat (NumEncapVRFs p) * 2" "per_vrf 2 fs"
    "map flow_name fs = map (key_name c) (concat (map (\<lambda>vi. [KEncap False vi, KEncap True vi]) [0..<nat (NumEncapVRFs p)]))"
proof -
  let ?g = "\<lambda>vi. [add_headers [EthernetHdr ATEPort1MAC mac, Ipv4Hdr ATEPort1IPv4 (encap_v4_dst p vi) (dscp_pair vi)]
            (MakeFlowCreator sz pps imix (''encap_ipv4_vrf_'' @ dec vi)),
          add_headers [EthernetHdr ATEPort1MAC mac, Ipv6Hdr EncapIPv6InnerSrc (encap_v6_dst p vi) (traffic_classes vi)]
            (MakeFlowCreator sz pps imix (''encap_ipv6_vrf_'' @ dec vi))]"
  show n: "0 \<le> NumEncapVRFs p" using assms by (auto simp: BuildEncapFlows_def BuildEncapVRFs_def split: if_splits)
  have fs: "fs = concat (map ?g [0..<nat (NumEncapVRFs p)])"
    using assms by (auto simp: BuildEncapFlows_def BuildEncapVRFs_def split: if_splits)
  show l: "length fs = nat (NumEncapVRFs p) * 2" unfolding fs by (rule length_concat_upt) simp
  show "per_vrf 2 fs" unfolding per_vrf_def
  proof (intro allI impI)
    fix k assume "k < length fs"
    then have "fs ! k = ?g (k div 2) ! (k mod 2)" unfolding fs using l fs by (intro nth_concat_upt) simp_all
    moreover have "k mod 2 = 0 \<or> k mod 2 = 1" by auto
    ultimately show "flow_dscps (flow_headers (fs ! k)) = dscp_pair (k div 2)" by (auto simp: drop_traffic_classes)
  qed
  show "map flow_name fs = map (key_name c) (concat (map (\<lambda>vi. [KEncap False vi, KEncap True vi]) [0..<nat (NumEncapVRFs p)]))"
    unfolding fs by (simp add: map_concat comp_def)
qed

lemma BuildReencapFlows_built:
  assumes "BuildReencapFlows (MakeFlowCreator sz pps imix) mac p = Some fs"
  shows "length fs = nat (NumEncapVRFs p) * 4" "per_vrf 4 fs"
    "map flow_name fs = map (key_name c) (concat (map (\<lambda>vi. [KReencap False False vi, KReencap True False vi,
       KReencap False True vi, KReencap True True vi]) [0..<nat (NumEncapVRFs p)]))"
proof -
  obtain ds where ds: "ExpandDecapPrefixes p = Some ds" using assms by (auto simp: BuildReencapFlows_def split: option.splits)
  let ?f = "\<lambda>vi outerSrc. [add_headers [EthernetHdr ATEPort1MAC mac, Ipv4Hdr outerSrc (DstValues ds) (dscp_pair vi),
                  Ipv4Hdr ATEPort1IPv4 (encap_v4_dst p vi) (dscp_pair vi)]
                 (MakeFlowCreator sz pps imix (''reencap_ipv4_vrf_'' @ dec vi @ ''_src_'' @ tag_of outerSrc)),
               add_headers [EthernetHdr ATEPort1MAC mac, Ipv4Hdr outerSrc (DstValues ds) (dscp_pair vi),
                  Ipv6Hdr EncapIPv6InnerSrc (encap_v6_dst p vi) (traffic_classes vi)]
                 (MakeFlowCreator sz pps imix (''reencap_ipv6_vrf_'' @ dec vi @ ''_src_'' @ tag_of outerSrc))]"
  let ?g = "\<lambda>vi. ?f vi IPv4OuterSrc111 @ ?f vi IPv4OuterSrc222"
  have fs: "fs = concat (map ?g [0..<nat (NumEncapVRFs p)])"
    using assms by (auto simp: BuildReencapFlows_def BuildEncapVRFs_def outerSrcs_def ds split: if_splits)
  show l: "length fs = nat (NumEncapVRFs p) * 4" unfolding fs by (rule length_concat_upt) simp
  show "per_vrf 4 fs" unfolding per_vrf_def
  proof (intro allI impI)
    fix k assume "k < length fs"
    then have e: "fs ! k = ?g (k div 4) ! (k mod 4)" unfolding fs using l fs by (intro nth_concat_upt) simp_all
    have "f \<in> set (?g vi) \<Longrightarrow> flow_dscps (flow_headers f) = dscp_pair vi" for f vi by auto
    moreover have "?g (k div 4) ! (k mod 4) \<in> set (?g (k div 4))" by (rule nth_mem) simp
    ultimately show "flow_dscps (flow_headers (fs ! k)) = dscp_pair (k div 4)" unfolding e by blast
  qed
  have t: "tag_of IPv4OuterSrc111 = ''111''" "tag_of IPv4OuterSrc222 = ''222''"
    by (simp_all add: tag_of_def IPv4OuterSrc111_def IPv4OuterSrc222_def)
  show "map flow_name fs = map (key_name c) (concat (map (\<lambda>vi. [KReencap False False vi, KReencap True False vi,
       KReencap False True vi, KReencap True True vi]) [0..<nat (NumEncapVRFs p)]))"
    unfolding fs by (simp add: map_concat comp_def t)
qed

lemma createIPv4InIPv4Flow_built:
  assumes "createIPv4InIPv4Flow (MakeFlowCreator sz pps imix) name mac src dscps o4 i4 = Some f"
  shows "flow_name f = name" "flow_dscps (flow_headers f) = dscps"
  using assms by (auto simp: createIPv4InIPv4Flow_def split: option.splits)

lemma those_upt_built:
  assumes "those (map h [0..<n]) = Some fs" and "\<And>i f. h i = Some f \<Longrightarrow> flow_name f = nm i \<and> flow_dscps (flow_headers f) = dscp_pair i"
  shows "length fs = n" "per_vrf 1 fs" "map flow_name fs = map nm [0..<n]"
proof -
  have a: "list_all2 (\<lambda>i f. h i = Some f) [0..<n] fs" using assms(1) by (simp only: those_map)
  then show l: "length fs = n" by (simp add: list_all2_lengthD [symmetric])
  have k: "h i = Some (fs ! i)" if "i < n" for i using list_all2_nthD [OF a, of i] that by simp
  then show "per_vrf 1 fs" using assms(2) l by (simp add: per_vrf_def)
  have "flow_name (fs ! i) = nm i" if "i < n" for i using k [OF that] assms(2) by blast
  then show "map flow_name fs = map nm [0..<n]" using l by (simp add: list_eq_iff_nth_eq)
qed

text \<open>One flow per VRF, or one for all of them.\<close>

definition single :: "bool \<Rightarrow> ScaleParams \<Rightarrow> flow list \<Rightarrow> bool" where
  "single compact p fs \<longleftrightarrow>
     (if compact then length fs = 1 \<and> Some (flow_dscps (flow_headers (fs ! 0))) = getAllEncapDSCPVals (NumEncapVRFs p)
      else int (length fs) = NumEncapVRFs p \<and> per_vrf 1 fs)"

definition single_keys :: "bool \<Rightarrow> ScaleParams \<Rightarrow> nat list" where
  "single_keys compact p = (if compact then [0] else [0..<nat (NumEncapVRFs p)])"

lemma BuildDecapFlows_built:
  assumes "BuildDecapFlows (MakeFlowCreator sz pps imix) mac c p = Some fs"
  shows "single c p fs" "map flow_name fs = map (key_name c) (map KDecap (single_keys c p))"
proof -
  have "single c p fs \<and> map flow_name fs = map (key_name c) (map KDecap (single_keys c p))"
  proof (cases c)
    case True
    with assms show ?thesis
      by (auto simp: BuildDecapFlows_def single_def single_keys_def Let_def createIPv4InIPv4Flow_built split: option.splits)
  next
    case False
    then obtain ds ips where "those (map (\<lambda>vi. Option.bind (decap_subset p ips vi) (\<lambda>inner.
        createIPv4InIPv4Flow (MakeFlowCreator sz pps imix) (''decap_vrf_'' @ dec vi @ ''_src_111'') mac IPv4OuterSrc111 (dscp_pair vi)
          (DstValues ds) (DstValues inner))) [0..<nat (NumEncapVRFs p)]) = Some fs" "0 \<le> NumEncapVRFs p"
      using assms by (auto simp: BuildDecapFlows_def BuildEncapVRFs_def Let_def split: option.splits if_splits)
    from those_upt_built [OF this(1), of "\<lambda>vi. key_name c (KDecap vi)"] this(2) False show ?thesis
      by (force simp: single_def single_keys_def bind_eq_Some_conv createIPv4InIPv4Flow_built)
  qed
  then show "single c p fs" "map flow_name fs = map (key_name c) (map KDecap (single_keys c p))" by simp_all
qed

lemma transit_flows_built:
  assumes "transit_flows pre src start inner (MakeFlowCreator sz pps imix) mac c p = Some fs"
    and "\<And>vi. key_name c (K vi) = pre @ (if c then ''all'' else dec vi)"
  shows "single c p fs" "map flow_name fs = map (key_name c) (map K (single_keys c p))"
proof -
  have "single c p fs \<and> map flow_name fs = map (key_name c) (map K (single_keys c p))"
  proof (cases c)
    case True
    with assms show ?thesis
      by (auto simp: transit_flows_def single_def single_keys_def Let_def createIPv4InIPv4Flow_built split: option.splits)
  next
    case False
    let ?d = "DstIncrement \<lparr>IncStart = start, IncStep = CommonPrefixStep, IncCount = of_int (NumTransitIPv4 p)\<rparr>"
    have "those (map (\<lambda>vi. createIPv4InIPv4Flow (MakeFlowCreator sz pps imix) (pre @ dec vi) mac src (dscp_pair vi) ?d (DstValue inner))
        [0..<nat (NumEncapVRFs p)]) = Some fs" "0 \<le> NumEncapVRFs p"
      using assms(1) False by (auto simp: transit_flows_def BuildEncapVRFs_def Let_def split: option.splits if_splits)
    from those_upt_built [OF this(1), of "\<lambda>vi. key_name c (K vi)"] this(2) False assms(2) show ?thesis
      by (force simp: single_def single_keys_def createIPv4InIPv4Flow_built)
  qed
  then show "single c p fs" "map flow_name fs = map (key_name c) (map K (single_keys c p))" by simp_all
qed


section \<open>The whole setup\<close>

lemma addFlows_keeps:
  "addFlows expct k fs m = Some m' \<Longrightarrow> x \<notin> flow_name ` set fs \<Longrightarrow> m' x = m x"
  by (induction fs arbitrary: k m) (auto split: option.splits)

lemma addFlows_nth:
  "addFlows expct k fs m = Some m' \<Longrightarrow> distinct (map flow_name fs) \<Longrightarrow> i < length fs \<Longrightarrow>
     m' (flow_name (fs ! i)) = expct (k + i) \<and> expct (k + i) \<noteq> None"
proof (induction fs arbitrary: k m i)
  case (Cons f fs)
  then obtain e where e: "expct k = Some e" "addFlows expct (Suc k) fs (m(flow_name f \<mapsto> e)) = Some m'" by (auto split: option.splits)
  show ?case
  proof (cases i)
    case 0
    then show ?thesis using addFlows_keeps [OF e(2), of "flow_name f"] Cons.prems(2) e(1) by simp
  next
    case (Suc j)
    then show ?thesis using Cons.IH [OF e(2), of j] Cons.prems(2,3) by simp
  qed
qed simp

lemma addFlows_dom: "addFlows expct k fs m = Some m' \<Longrightarrow> dom m' = dom m \<union> flow_name ` set fs"
  by (induction fs arbitrary: k m) (auto split: option.splits)

text \<open>Every flow has an expectation whose DSCP values are the flow's.\<close>

definition expected :: "(string \<rightharpoonup> FlowExpectation) \<Rightarrow> flow \<Rightarrow> bool" where
  "expected m f \<longleftrightarrow> (case m (flow_name f) of None \<Rightarrow> False | Some e \<Rightarrow> ExpectedDSCPs e = flow_dscps (flow_headers f))"

definition good_build :: "bool \<Rightarrow> ScaleParams \<Rightarrow> flow_builder \<Rightarrow> flow list \<Rightarrow> bool" where
  "good_build compact p b fs \<longleftrightarrow>
     (if compact \<and> scenario b \<in> {ScenarioDecap, ScenarioTransit, ScenarioRepaired}
      then length fs = 1 \<and> Some (flow_dscps (flow_headers (fs ! 0))) = getAllEncapDSCPVals (NumEncapVRFs p)
      else per_vrf (multiplier b) fs)"

lemma good_build_expected:
  assumes "good_build compact p b fs" "distinct (map flow_name fs)" "f \<in> set fs"
    and "addFlows (expectation compact rep p ds (scenario b) (outerSrc b) (needCapture b) (multiplier b)) 0 fs m = Some m'"
  shows "expected m' f"
proof -
  obtain i where i: "i < length fs" "fs ! i = f" using assms(3) by (auto simp: in_set_conv_nth)
  have "m' (flow_name f) = expectation compact rep p ds (scenario b) (outerSrc b) (needCapture b) (multiplier b) i"
    "expectation compact rep p ds (scenario b) (outerSrc b) (needCapture b) (multiplier b) i \<noteq> None"
    using addFlows_nth [OF assms(4,2) i(1)] i(2) by simp_all
  then show ?thesis
    using assms(1) i by (auto simp: expected_def expectation_def good_build_def per_vrf_def split: if_splits)
qed

definition live :: "bool \<Rightarrow> flow_builder list \<Rightarrow> flow_builder list" where
  "live testRepair bs = filter (\<lambda>b. \<not> (testRepair \<and> scenario b \<noteq> ScenarioTransit)) bs"

lemma run_builders_live:
  "run_builders c rep p ds bs (fs, m) = Some (fs', m') \<Longrightarrow> \<exists>fss. map build (live rep bs) = map Some fss \<and> fs' = fs @ concat fss"
proof (induction bs arbitrary: fs m)
  case (Cons b bs)
  show ?case
  proof (cases "rep \<and> scenario b \<noteq> ScenarioTransit")
    case True
    with Cons show ?thesis by (simp add: live_def)
  next
    case False
    then obtain fl m1 where s: "build b = Some fl" "run_builders c rep p ds bs (fs @ fl, m1) = Some (fs', m')"
      using Cons.prems by (auto split: option.splits)
    with Cons.IH [OF s(2)] False show ?thesis by (auto simp: live_def intro: exI [of _ "fl # _"])
  qed
qed (simp add: live_def)

lemma run_builders_expected:
  assumes "\<And>b fl. b \<in> set bs \<Longrightarrow> build b = Some fl \<Longrightarrow> good_build c p b fl"
  shows "run_builders c rep p ds bs (fs, m) = Some (fs', m') \<Longrightarrow> distinct (map flow_name fs') \<Longrightarrow>
    (\<forall>f \<in> set fs. expected m f) \<Longrightarrow> dom m = flow_name ` set fs \<Longrightarrow>
    (\<forall>f \<in> set fs'. expected m' f) \<and> dom m' = flow_name ` set fs'"
  using assms
proof (induction bs arbitrary: fs m)
  case (Cons b bs)
  show ?case
  proof (cases "rep \<and> scenario b \<noteq> ScenarioTransit")
    case True
    with Cons show ?thesis by simp
  next
    case False
    then obtain fl m1 where b: "build b = Some fl" and
      a: "addFlows (expectation c rep p ds (scenario b) (outerSrc b) (needCapture b) (multiplier b)) 0 fl m = Some m1" and
      r: "run_builders c rep p ds bs (fs @ fl, m1) = Some (fs', m')"
      using Cons.prems(1) by (auto split: option.splits)
    obtain fss where fs': "fs' = (fs @ fl) @ concat fss" using run_builders_live [OF r] by blast
    then have d: "distinct (map flow_name fl)" "flow_name ` set fs \<inter> flow_name ` set fl = {}"
      using Cons.prems(2) by auto
    have "expected m1 f" if f: "f \<in> set (fs @ fl)" for f
    proof (cases "f \<in> set fl")
      case True
      then show ?thesis using good_build_expected [OF Cons.prems(5) [OF _ b] d(1) _ a] by simp
    next
      case False
      then have "flow_name f \<notin> flow_name ` set fl" using f d(2) by auto
      then show ?thesis using addFlows_keeps [OF a] Cons.prems(3) f False by (simp add: expected_def)
    qed
    moreover have "dom m1 = flow_name ` set (fs @ fl)" using addFlows_dom [OF a] Cons.prems(4) by auto
    ultimately show ?thesis using Cons.IH [OF r Cons.prems(2)] Cons.prems(5) by simp
  qed
qed simp

lemma traffic_setup_flows:
  assumes "traffic_setup mac imix rep c p = Some (flows, m)"
  shows "(\<exists>keys. map flow_name flows = map (key_name c) keys \<and> distinct keys \<and> list_all (key_ok c) keys)
    \<and> int (length flows) = CountBaseFlows c rep p"
proof -
  let ?nf = "MakeFlowCreator (if imix then 0 else 64) (perFlowPPS c rep p) imix" and ?n = "nat (NumEncapVRFs p)"
  obtain ds where r: "run_builders c rep p ds (builders ?nf mac c p) ([], Map.empty) = Some (flows, m)"
    using assms by (auto simp: traffic_setup_def Let_def split: option.splits)
  obtain fss where l: "map build (live rep (builders ?nf mac c p)) = map Some fss" "flows = concat fss"
    using run_builders_live [OF r] by auto
  show ?thesis
  proof (cases rep)
    case True
    then obtain t where t: "BuildTransitFlows ?nf mac c p = Some t" "flows = t"
      using l by (auto simp: live_def builders_def map_eq_Cons_conv)
    have "single c p t" "map flow_name t = map (key_name c) (map KTransit (single_keys c p))"
      using transit_flows_built [OF t(1) [unfolded BuildTransitFlows_def], where K = KTransit] by auto
    moreover have "distinct (map KTransit (single_keys c p))" "list_all (key_ok c) (map KTransit (single_keys c p))"
      by (auto simp: single_keys_def distinct_map inj_on_def list_all_iff)
    moreover have "int (length flows) = CountBaseFlows c rep p"
      using True t(2) \<open>single c p t\<close> by (auto simp: single_def CountBaseFlows_def split: if_splits)
    ultimately show ?thesis using t(2) by blast
  next
    case False
    then obtain e d re t q where b: "BuildEncapFlows ?nf mac p = Some e" "BuildDecapFlows ?nf mac c p = Some d"
      "BuildReencapFlows ?nf mac p = Some re" "BuildTransitFlows ?nf mac c p = Some t" "BuildRepairedFlows ?nf mac c p = Some q"
      and fl: "flows = e @ d @ re @ t @ q"
      using l by (auto simp: live_def builders_def map_eq_Cons_conv)
    note be = BuildEncapFlows_built(1-3) [OF b(1)] BuildEncapFlows_built(4) [OF b(1), of c] and bd = BuildDecapFlows_built [OF b(2)]
      and br = BuildReencapFlows_built(1,2) [OF b(3)] BuildReencapFlows_built(3) [OF b(3), of c]
    have bt: "single c p t" "map flow_name t = map (key_name c) (map KTransit (single_keys c p))"
      using transit_flows_built [OF b(4) [unfolded BuildTransitFlows_def], where K = KTransit] by auto
    have bq: "single c p q" "map flow_name q = map (key_name c) (map KRepaired (single_keys c p))"
      using transit_flows_built [OF b(5) [unfolded BuildRepairedFlows_def], where K = KRepaired] by auto
    let ?ke = "concat (map (\<lambda>vi. [KEncap False vi, KEncap True vi]) [0..<?n])" and
      ?kr = "concat (map (\<lambda>vi. [KReencap False False vi, KReencap True False vi, KReencap False True vi, KReencap True True vi]) [0..<?n])"
    let ?keys = "?ke @ map KDecap (single_keys c p) @ ?kr @ map KTransit (single_keys c p) @ map KRepaired (single_keys c p)"
    have "distinct ?ke" "distinct ?kr" by (rule distinct_concat_upt; auto)+
    then have "distinct ?keys" by (auto simp: single_keys_def distinct_map inj_on_def)
    moreover have "list_all (key_ok c) ?keys" by (auto simp: list_all_iff single_keys_def)
    moreover have "map flow_name flows = map (key_name c) ?keys" using be(4) bd(2) br(3) bt(2) bq(2) by (simp add: fl)
    moreover have "int (length flows) = CountBaseFlows c rep p"
      using False be(1,2) bd(1) br(1) bt(1) bq(1) by (auto simp: fl CountBaseFlows_def single_def outerSrcs_def split: if_splits)
    ultimately show ?thesis by blast
  qed
qed

text \<open>The names are distinct.\<close>

lemma flow_names_distinct:
  assumes "traffic_setup mac imix rep c p = Some (flows, m)"
  shows "distinct (map flow_name flows)"
proof -
  obtain keys where k: "map flow_name flows = map (key_name c) keys" "distinct keys" "list_all (key_ok c) keys"
    using traffic_setup_flows [OF assms] by blast
  have "inj_on (key_name c) (set keys)"
    using k(3) by (intro inj_onI) (simp add: list_all_iff key_name_inject)
  with k(1,2) show ?thesis by (simp add: distinct_map)
qed

lemma traffic_setup_expected:
  assumes "traffic_setup mac imix testRepair compact p = Some (flows, m)"
  shows "dom m = flow_name ` set flows \<and> list_all (expected m) flows"
proof -
  let ?nf = "MakeFlowCreator (if imix then 0 else 64) (perFlowPPS compact testRepair p) imix"
  obtain ds where r: "run_builders compact testRepair p ds (builders ?nf mac compact p) ([], Map.empty) = Some (flows, m)"
    using assms by (auto simp: traffic_setup_def Let_def split: option.splits)
  have sg: "single compact p fl \<Longrightarrow> good_build compact p b fl" if "multiplier b = 1" "scenario b \<in> {ScenarioDecap, ScenarioTransit, ScenarioRepaired}" for b fl
    using that by (simp add: single_def good_build_def split: if_splits)
  have t: "single compact p fl" if "BuildTransitFlows ?nf mac compact p = Some fl" for fl
    using transit_flows_built(1) [OF that [unfolded BuildTransitFlows_def], of KTransit] by simp
  have q: "single compact p fl" if "BuildRepairedFlows ?nf mac compact p = Some fl" for fl
    using transit_flows_built(1) [OF that [unfolded BuildRepairedFlows_def], of KRepaired] by simp
  have g: "good_build compact p b fl" if b: "b \<in> set (builders ?nf mac compact p)" "build b = Some fl" for b fl
  proof -
    consider (e) "BuildEncapFlows ?nf mac p = Some fl" "scenario b = ScenarioEncap" "multiplier b = 2"
      | (r) "BuildReencapFlows ?nf mac p = Some fl" "scenario b = ScenarioReencap" "multiplier b = 4"
      | (s) "single compact p fl" "scenario b \<in> {ScenarioDecap, ScenarioTransit, ScenarioRepaired}" "multiplier b = 1"
      using b BuildDecapFlows_built(1) t q by (auto simp: builders_def)
    then show ?thesis
      by cases (use BuildEncapFlows_built(3) BuildReencapFlows_built(2) sg in \<open>auto simp: good_build_def\<close>)
  qed
  show ?thesis
    using run_builders_expected [OF g r flow_names_distinct [OF assms]] by (simp add: list_all_iff)
qed

text \<open>The setup returns.\<close>

lemma addFlows_total: "(\<And>k. expct k \<noteq> None) \<Longrightarrow> \<exists>m'. addFlows expct k fs m = Some m'"
proof (induction fs arbitrary: k m)
  case (Cons f fs)
  from Cons.prems obtain e where "expct k = Some e" by blast
  with Cons show ?case by simp
qed simp

lemma run_builders_total:
  assumes "0 \<le> NumEncapVRFs p"
  shows "(\<forall>b \<in> set bs. build b \<noteq> None) \<Longrightarrow> \<exists>r. run_builders c rep p ds bs acc = Some r"
proof (induction bs arbitrary: acc)
  case (Cons b bs)
  obtain fs m where acc: "acc = (fs, m)" by (cases acc)
  show ?case
  proof (cases "rep \<and> scenario b \<noteq> ScenarioTransit")
    case True
    with Cons show ?thesis by (simp add: acc)
  next
    case False
    obtain fl where b: "build b = Some fl" using Cons.prems by auto
    have "expectation c rep p ds (scenario b) (outerSrc b) (needCapture b) (multiplier b) k \<noteq> None" for k
      using assms by (simp add: expectation_def getAllEncapDSCPVals_def)
    then obtain m' where "addFlows (expectation c rep p ds (scenario b) (outerSrc b) (needCapture b) (multiplier b)) 0 fl m = Some m'"
      using addFlows_total by blast
    with Cons b False show ?thesis by (auto simp: acc)
  qed
qed simp

lemma those_total: "(\<And>x. x \<in> set xs \<Longrightarrow> f x \<noteq> None) \<Longrightarrow> \<exists>ys. those (map f xs) = Some ys"
proof (induction xs)
  case (Cons x xs)
  from Cons.prems obtain y where "f x = Some y" by auto
  with Cons show ?case by simp
qed simp

lemma decap_subset_total:
  assumes "0 < NumPort2VLANs p" "int (length ips) = NumPort2VLANs p"
  shows "\<exists>l. decap_subset p ips vi = Some l"
proof -
  have "nat (int k smod NumPort2VLANs p) < length ips" for k
  proof -
    have "int k smod NumPort2VLANs p = int k mod NumPort2VLANs p" using assms(1) by (cases k) (simp_all add: signed_modulo_int_def)
    then show ?thesis using assms pos_mod_bound [of "NumPort2VLANs p" "int k"] by (simp add: nat_less_iff)
  qed
  then show ?thesis
    using assms(1) unfolding decap_subset_def Let_def go_mod_def nth_opt_def by (intro those_total) (simp del: of_nat_add of_nat_mult int_nat_eq)
qed

lemma traffic_setup_total:
  assumes "validateScaleParams p = Inr ()" and "NumPort2VLANs p \<le> 2 ^ 24"
  shows "\<exists>flows m. traffic_setup mac imix testRepair compact p = Some (flows, m)"
proof -
  let ?nf = "MakeFlowCreator (if imix then 0 else 64) (perFlowPPS compact testRepair p) imix"
  have v: "0 < NumEncapVRFs p" "0 \<le> NumDecapEntries p" "0 < NumPort2VLANs p"
    using assms(1) by (auto simp: validateScaleParams_def bind_res_Inr_iff guard_Inr)
  obtain ips where ips: "GenerateIPsWithStep ATEPort2IPv4Start (NumPort2VLANs p) PortIPv4Step = Inr ips" "length ips = nat (NumPort2VLANs p)"
    using GenerateIPsWithStep_total [of "NumPort2VLANs p" ATEPort2IPv4Start PortIPv4Step] v(3) assms(2) nat_mono [of "NumPort2VLANs p - 1" "2 ^ 24"]
    by (auto simp: start_values)
  have c: "\<exists>f. createIPv4InIPv4Flow ?nf name mac src dscps o4 i4 = Some f" if "o4 \<noteq> DstOther" "i4 \<noteq> DstOther" for name src dscps o4 i4
    using that by (cases o4; cases i4) (simp_all add: createIPv4InIPv4Flow_def setIPv4Dst_def)
  have d: "BuildDecapFlows ?nf mac compact p \<noteq> None"
  proof -
    have "\<exists>l. those (map (\<lambda>vi. Option.bind (decap_subset p ips vi) (\<lambda>inner.
        createIPv4InIPv4Flow ?nf (''decap_vrf_'' @ dec vi @ ''_src_111'') mac IPv4OuterSrc111 (dscp_pair vi) (DstValues ds) (DstValues inner)))
        [0..<n]) = Some l" for n ds
    proof (rule those_total)
      fix vi
      obtain l where "decap_subset p ips vi = Some l" using decap_subset_total [of p ips vi] ips(2) v(3) by auto
      then show "Option.bind (decap_subset p ips vi) (\<lambda>inner.
        createIPv4InIPv4Flow ?nf (''decap_vrf_'' @ dec vi @ ''_src_111'') mac IPv4OuterSrc111 (dscp_pair vi) (DstValues ds) (DstValues inner)) \<noteq> None"
        using c [of "DstValues ds" "DstValues l"] by fastforce
    qed
    then show ?thesis
      using v c by (fastforce simp: BuildDecapFlows_def ExpandDecapPrefixes_def BuildEncapVRFs_def getAllEncapDSCPVals_def ips(1) Let_def)
  qed
  have t: "transit_flows pre src start inner ?nf mac compact p \<noteq> None" for pre src start inner
  proof -
    have "\<exists>l. those (map (\<lambda>vi. createIPv4InIPv4Flow ?nf (pre @ dec vi) mac src (dscp_pair vi)
        (DstIncrement \<lparr>IncStart = start, IncStep = CommonPrefixStep, IncCount = of_int (NumTransitIPv4 p)\<rparr>) (DstValue inner)) [0..<n]) = Some l" for n
      using c by (intro those_total) (metis dst.distinct option.discI)
    then show ?thesis using v c by (fastforce simp: transit_flows_def BuildEncapVRFs_def getAllEncapDSCPVals_def Let_def)
  qed
  have "\<forall>b \<in> set (builders ?nf mac compact p). build b \<noteq> None"
    using v d t by (simp add: builders_def BuildEncapFlows_def BuildReencapFlows_def BuildTransitFlows_def BuildRepairedFlows_def
        BuildEncapVRFs_def ExpandDecapPrefixes_def)
  then show ?thesis
    using run_builders_total [OF less_imp_le [OF v(1)]] v(2) by (fastforce simp: traffic_setup_def ExpandDecapPrefixes_def Let_def)
qed

text \<open>C7: For validated parameters the flows of a traffic run are set up without a panic. They are as many as
  \<^verbatim>\<open>CountBaseFlows\<close> says, which divides the rate among them; no two have the same name; and each has
  exactly one expectation, whose DSCP values are those the flow's packets carry (for an IPv6 flow, the
  upper six bits of the traffic class), although the VRF is recovered from the position of the flow.\<close>

theorem traffic_setup_expectations:
  assumes "validateScaleParams p = Inr ()" and "NumPort2VLANs p \<le> 2 ^ 24"
  shows "\<exists>flows m. traffic_setup mac imix testRepair compact p = Some (flows, m)
    \<and> int (length flows) = CountBaseFlows compact testRepair p \<and> distinct (map flow_name flows)
    \<and> dom m = flow_name ` set flows \<and> list_all (expected m) flows"
  using traffic_setup_total [OF assms] flow_names_distinct traffic_setup_flows traffic_setup_expected by fast

text \<open>Small parameters: two VRFs, three VLANs, four decap entries.\<close>

definition traffic_params :: ScaleParams where
  "traffic_params = \<lparr>GRIBIBatchSize = 256, NumDefaultNH = 2, NumDefaultNHG = 2,
     DefaultNHGLoadBalance = [\<lparr>lbp_Pct = 100, NumNextHops = 2\<rparr>], DefaultNHGWeight = [\<lparr>wp_Pct = 100, Config = Some ECMP\<rparr>], NumDefaultIPv4 = 2,
     NumTransitNH = 2, NumTransitNHG = 2, TransitNHGLoadBalance = [\<lparr>lbp_Pct = 100, NumNextHops = 2\<rparr>],
     TransitNHGWeight = [\<lparr>wp_Pct = 100, Config = Some ECMP\<rparr>], NumTransitIPv4 = 1, NumRepairIPv4 = 1, NumRepairNHG = 1,
     NumEncapVRFs = 2, NumUniqueEncapNH = 1, NumEncapDefaultNHG = 2, EncapNHGLoadBalance = [\<lparr>lbp_Pct = 100, NumNextHops = 1\<rparr>],
     EncapNHGWeight = [\<lparr>wp_Pct = 100, Config = Some ECMP\<rparr>], NumEncapIPv4PerVRF = 1, NumEncapIPv6PerVRF = 1,
     NumDecapEntries = 4, DecapDestsSubsetPct = 50, TrafficLossTol = 5, TrafficRateMpps = 1000, NumPort2VLANs = 3\<rparr>"

lemma traffic_params_valid: "validateScaleParams traffic_params = Inr ()"
  by (simp add: validateScaleParams_def traffic_params_def validateNHGLoadBalance_def validateNHGWeight_def)

theorem traffic_setup_expectations_witness:
  "\<exists>flows m. traffic_setup ''02:00:00:00:00:02'' False False False traffic_params = Some (flows, m) \<and> length flows = 18
    \<and> list_all (expected m) flows"
proof -
  have "NumPort2VLANs traffic_params \<le> 2 ^ 24" by (simp add: traffic_params_def)
  from traffic_setup_expectations [OF traffic_params_valid this, of "''02:00:00:00:00:02''" False False False]
  obtain flows m where f: "traffic_setup ''02:00:00:00:00:02'' False False False traffic_params = Some (flows, m)"
    "int (length flows) = CountBaseFlows False False traffic_params" "list_all (expected m) flows" by blast
  have "CountBaseFlows False False traffic_params = 18" by (simp add: CountBaseFlows_def traffic_params_def outerSrcs_def)
  with f show ?thesis by auto
qed


section \<open>DSCP values and rates\<close>

lemma dscp_pair_values:
  assumes "vi < 123"
  shows "map unat (dscp_pair vi) = [10 + vi * 2, 11 + vi * 2]"
proof -
  have v: "unat (of_nat vi :: 8 word) = vi" using assms by (simp add: unat_of_nat)
  then have m: "unat (of_nat vi * 2 :: 8 word) = vi * 2" using assms by (simp add: unat_word_ariths)
  then have "unat (10 + of_nat vi * 2 :: 8 word) = 10 + vi * 2" "unat (11 + of_nat vi * 2 :: 8 word) = 11 + vi * 2"
    using assms by (simp_all add: unat_word_ariths)
  moreover have "unat (ucast w :: 32 word) = unat w" for w :: "8 word"
  proof -
    have "unat w < 2 ^ 32" using unsigned_less [of w, where ?'a = nat] by (rule less_trans) simp
    then show ?thesis by (simp add: unsigned_ucast_eq take_bit_nat_eq_self)
  qed
  ultimately show ?thesis by (simp add: dscp_pair_def EncapVRFDSCP_def)
qed

text \<open>The DSCP values of all encapsulation VRFs are the consecutive values from 10 on, two per VRF, so
  no two VRFs share one, and they are DSCP values (below 64) exactly for up to 27 VRFs.\<close>

theorem getAllEncapDSCPVals_consecutive:
  assumes "0 \<le> n" and "n \<le> 122"
  shows "\<exists>ds. getAllEncapDSCPVals n = Some ds \<and> map unat ds = [10..<10 + 2 * nat n] \<and> distinct ds
    \<and> (list_all (\<lambda>d. unat d < 64) ds \<longleftrightarrow> n \<le> 27)"
proof -
  let ?ds = "concat (map dscp_pair [0..<nat n])"
  have "k \<le> 122 \<Longrightarrow> map unat (concat (map dscp_pair [0..<k])) = [10..<10 + 2 * k]" for k
  proof (induction k)
    case (Suc k)
    then have "map unat (dscp_pair k) = [10 + k * 2, 11 + k * 2]" by (intro dscp_pair_values) simp
    moreover have "[10..<10 + 2 * Suc k] = [10..<10 + 2 * k] @ [10 + k * 2, 11 + k * 2]"
      using upt_add_eq_append [of 10 "10 + 2 * k" 2] by (simp add: upt_conv_Cons mult.commute)
    ultimately show ?case using Suc by simp
  qed simp
  then have m: "map unat ?ds = [10..<10 + 2 * nat n]" using assms by simp
  then have "distinct (map unat ?ds)" by (simp only: distinct_upt)
  then have "distinct ?ds" by (rule distinct_map [THEN iffD1, THEN conjunct1])
  moreover have "list_all (\<lambda>d. unat d < 64) ?ds \<longleftrightarrow> list_all (\<lambda>k. k < 64) [10..<10 + 2 * nat n]"
    unfolding m [symmetric] by (simp add: list_all_iff)
  moreover have "list_all (\<lambda>k. k < 64) [10..<10 + 2 * nat n] \<longleftrightarrow> nat n \<le> 27"
  proof
    assume "list_all (\<lambda>k. k < 64) [10..<10 + 2 * nat n]"
    then show "nat n \<le> 27" by (cases "n = 0") (auto simp: list_all_iff dest!: bspec [of _ _ "9 + 2 * nat n"])
  qed (auto simp: list_all_iff)
  ultimately show ?thesis using assms m by (simp add: getAllEncapDSCPVals_def nat_le_iff)
qed

theorem getAllEncapDSCPVals_consecutive_witness:
  "\<exists>ds. getAllEncapDSCPVals 3 = Some ds \<and> map unat ds = [10, 11, 12, 13, 14, 15] \<and> distinct ds"
proof -
  have "[10..<10 + 2 * nat 3] = [10, 11, 12, 13, 14, 15]" by (simp add: upt_conv_Cons)
  then show ?thesis using getAllEncapDSCPVals_consecutive [of 3] by auto
qed

text \<open>The rate: the flows together stay below the configured rate, unless there are more flows than
  packets per second.\<close>

lemma perFlowPPS_total:
  assumes "0 < CountBaseFlows c rep p" "CountBaseFlows c rep p \<le> int (unat (TrafficRateMpps p))"
  shows "int (unat (perFlowPPS c rep p)) * CountBaseFlows c rep p \<le> int (unat (TrafficRateMpps p))"
proof -
  let ?n = "CountBaseFlows c rep p" and ?r = "TrafficRateMpps p"
  have r: "unat ?r < 2 ^ 64" using unsigned_less [of ?r, where ?'a = nat] by simp
  define k where "k = nat ?n"
  have k: "?n = int k" "0 < k" "k \<le> unat ?r" using assms by (simp_all add: k_def nat_le_iff)
  have u: "unat (of_nat k :: 64 word) = k" using k(3) r by (simp add: unat_of_nat)
  have d: "unat (?r div of_nat k) = unat ?r div k" by (simp add: unat_div u)
  then have "?r div of_nat k \<noteq> 0" using k by (metis div_greater_zero_iff less_irrefl unat_0)
  then have "unat (perFlowPPS c rep p) = unat ?r div k"
    using k(1,2) d by (cases "k = 1") (simp_all add: perFlowPPS_def Let_def max_def)
  moreover have "unat ?r div k * k \<le> unat ?r" by (rule div_times_less_eq_dividend)
  ultimately show ?thesis unfolding k(1) by (metis of_nat_le_iff of_nat_mult)
qed


section \<open>The capture check\<close>

lemma representatives_cover: "fst ` set (representatives es) = (\<lambda>(name, e). Scenario e) ` set es"
proof (induction es rule: representatives.induct)
  case (2 name e es)
  have "fst ` set (filter (\<lambda>(sc, _). sc \<noteq> Scenario e) (representatives es)) = fst ` set (representatives es) - {Scenario e}"
    by (auto simp: image_iff)
  then show ?case by (simp add: 2)
qed simp

text \<open>C30: The check of the captured packets fails in every scenario that has a flow, whatever was captured,
  as long as no IPv4 packet has a TTL of 0: the expected TTL is never set, and the header check
  compares it. For the encapsulation, transit and repaired scenarios it moreover only looks at packets
  whose destination is the expected \<^emph>\<open>source\<close> address.\<close>

theorem ValidateCapturedPackets_fails:
  assumes "list_all (\<lambda>p. case l_IPv4 p of None \<Rightarrow> True | Some ip \<Rightarrow> ip_TTL ip \<noteq> 0) capture"
  shows "fst ` set (ValidateCapturedPackets decode entries capture) = (\<lambda>(name, e). Scenario e) ` set entries
    \<and> list_all (\<lambda>(sc, r). case r of Inl _ \<Rightarrow> True | Inr _ \<Rightarrow> False) (ValidateCapturedPackets decode entries capture)"
proof -
  have fails: "\<exists>x. CaptureAndValidatePackets decode (scenario_validation sc e) capture = Inl x" for sc e
  proof -
    obtain want where w: "pv_IPv4Layer (scenario_validation sc e) = Some want" "v4_TTL want = 0"
      by (cases sc) (simp_all add: scenario_validation_def Let_def)
    have v: "Validations (scenario_validation sc e) = [ValidateIPv4Header]" by (simp add: scenario_validation_def Let_def)
    have "ipv4_verdict want p \<noteq> Accept err" if "p \<in> set capture" for p err
      using assms that w(2) by (auto simp: ipv4_verdict_def list_all_iff split: option.splits dest!: bspec)
    then obtain x where "scan (ipv4_verdict want) (NoneFound ValidateIPv4Header) capture = Inl x"
      using ipv4.none_accepted by blast
    then show ?thesis by (simp add: CaptureAndValidatePackets_def v validate_one_def validateIPv4Header_def w(1))
  qed
  moreover have "fst ` set (ValidateCapturedPackets decode entries capture) = fst ` set (representatives entries)"
    by (force simp: ValidateCapturedPackets_def)
  moreover have "list_all (\<lambda>(sc, r). case r of Inl _ \<Rightarrow> True | Inr _ \<Rightarrow> False) (ValidateCapturedPackets decode entries capture)"
  proof -
    have "case_sum (\<lambda>_. True) (\<lambda>_. False) (CaptureAndValidatePackets decode (scenario_validation sc e) capture)" for sc e
      using fails [of sc e] by auto
    then show ?thesis unfolding ValidateCapturedPackets_def by (simp add: list_all_iff split_beta)
  qed
  ultimately show ?thesis by (simp add: representatives_cover)
qed

theorem ValidateCapturedPackets_fails_witness:
  "list_all (\<lambda>(sc, r). case r of Inl _ \<Rightarrow> True | Inr _ \<Rightarrow> False) (ValidateCapturedPackets (\<lambda>_ _. ex_packet)
      [(''encap_ipv4_vrf_0'', \<lparr>Scenario = ScenarioEncap, ExpectedOuterSrc = ''10.0.0.1'', ExpectedDSCPs = [10, 11],
          WantEncapPresent = True, DecapPrefixSet = []\<rparr>)] [ex_packet])"
proof -
  have "list_all (\<lambda>p. case l_IPv4 p of None \<Rightarrow> True | Some ip \<Rightarrow> ip_TTL ip \<noteq> 0) [ex_packet]" by (simp add: ex_packet_def)
  from ValidateCapturedPackets_fails [OF this] show ?thesis by blast
qed


section \<open>Decapsulated destinations\<close>

text \<open>\<^verbatim>\<open>net.IPNet.Contains\<close> for IPv4: the address and the network agree on the prefix.\<close>

definition in_prefix :: "string \<Rightarrow> string \<Rightarrow> nat \<Rightarrow> bool" where
  "in_prefix host network len \<longleftrightarrow> v4_value host div 2 ^ (32 - len) = v4_value network div 2 ^ (32 - len)"

definition decap_network :: "nat \<Rightarrow> string" where
  "decap_network i = ''203.'' @ dec (i div 4) @ ''.'' @ dec (i mod 4 * 64) @ ''.0''"

definition decap_len :: "nat \<Rightarrow> nat" where
  "decap_len i = decapPrefixLens ! (i mod length decapPrefixLens)"

lemma decap_prefix_parts: "decap_prefix i = slash (decap_network i) (decap_len i)"
  by (simp add: decap_prefix_def decap_network_def decap_len_def)

lemma v4_value_dotted:
  assumes "a < 256" "b < 256" "c < 256" "d < 256"
  shows "v4_value (dec a @ ''.'' @ dec b @ ''.'' @ dec c @ ''.'' @ dec d) = ((a * 256 + b) * 256 + c) * 256 + d"
proof -
  have u: "unat (of_nat n :: byte) = n" if "n < 256" for n using that by (simp add: unat_of_nat)
  have "dec a @ ''.'' @ dec b @ ''.'' @ dec c @ ''.'' @ dec d = ipv4_string [of_nat a, of_nat b, of_nat c, of_nat d]"
    using assms by (simp add: ipv4_string_def u)
  then show ?thesis using assms by (simp add: v4_value_def To4_ParseIP_ipv4_string be_to_nat_def u)
qed

lemma decap_values:
  assumes "i < 1024"
  shows "v4_value (decap_network i) = 203 * 2 ^ 24 + i * 2 ^ 14"
    and "v4_value (''203.'' @ dec (i div 4) @ ''.'' @ dec (i mod 4 * 64) @ ''.1'') = 203 * 2 ^ 24 + i * 2 ^ 14 + 1"
proof -
  have b: "i div 4 < 256" "i mod 4 * 64 < 256" using assms by auto
  have d: "dec 203 = ''203''" "dec 0 = ''0''" "dec (Suc 0) = ''1''" by (simp_all add: dec.simps digit_char_def)
  have e: "i div 4 * 65536 + i mod 4 * 16384 = i * 16384" using div_mult_mod_eq [of i 4] by arith
  show "v4_value (decap_network i) = 203 * 2 ^ 24 + i * 2 ^ 14"
    using v4_value_dotted [of 203 "i div 4" "i mod 4 * 64" 0] b e by (simp add: decap_network_def d algebra_simps)
  show "v4_value (''203.'' @ dec (i div 4) @ ''.'' @ dec (i mod 4 * 64) @ ''.1'') = 203 * 2 ^ 24 + i * 2 ^ 14 + 1"
    using v4_value_dotted [of 203 "i div 4" "i mod 4 * 64" 1] b e by (simp add: d algebra_simps)
qed

lemma decap_len_cases: "decap_len i \<in> {22, 24, 26, 28}"
proof -
  have "i mod 4 \<in> {0, 1, 2, 3}" by auto
  then show ?thesis by (auto simp: decap_len_def decapPrefixLens_def)
qed

text \<open>For up to 1024 decap entries the \<open>i\<close>-th destination address of the decap and reencap flows lies in
  the \<open>j\<close>-th prefix programmed into \<^verbatim>\<open>DECAP_TE_VRF\<close> exactly when \<open>i = j\<close>: every entry is exercised, and
  the prefixes, though of different lengths, do not overlap.\<close>

theorem decap_hosts_hit_prefixes:
  assumes "NumDecapEntries p = int n" and "n \<le> 1024" and "i < n" and "j < n"
  shows "\<exists>hosts. ExpandDecapPrefixes p = Some hosts \<and> decap_prefix j = slash (decap_network j) (decap_len j)
    \<and> (in_prefix (hosts ! i) (decap_network j) (decap_len j) \<longleftrightarrow> i = j)"
proof -
  define h where "h = ''203.'' @ dec (i div 4) @ ''.'' @ dec (i mod 4 * 64) @ ''.1''"
  have v: "v4_value h = 203 * 2 ^ 24 + i * 2 ^ 14 + 1" "v4_value (decap_network j) = 203 * 2 ^ 24 + j * 2 ^ 14"
    using decap_values assms by (simp_all add: h_def)
  have "in_prefix h (decap_network j) (decap_len j) \<longleftrightarrow> i = j"
    using decap_len_cases [of j] unfolding in_prefix_def v by auto
  then show ?thesis using assms by (simp add: ExpandDecapPrefixes_def decap_prefix_parts h_def)
qed

theorem decap_hosts_hit_prefixes_witness:
  "\<exists>hosts. ExpandDecapPrefixes traffic_params = Some hosts \<and> \<not> in_prefix (hosts ! 1) (decap_network 0) (decap_len 0)"
proof -
  have "NumDecapEntries traffic_params = int 4" by (simp add: traffic_params_def)
  from decap_hosts_hit_prefixes [OF this, of 1 0] show ?thesis by auto
qed


section \<open>VLAN subinterfaces\<close>

definition PortIPv6Step :: string where "PortIPv6Step = ''0:0:0:1::''"
definition StartVLANPort2 :: int where "StartVLANPort2 = 200"

text \<open>Of a subinterface of the device: its index, its VLAN (none when 0) and its addresses.\<close>

record dut_subintf =
  si_index :: "32 word"
  si_vlan :: "16 word"
  si_ipv4 :: string
  si_ipv6 :: string

definition vlan_of :: "bool \<Rightarrow> int \<Rightarrow> nat \<Rightarrow> 16 word" where
  "vlan_of noMix start i = (let v = of_int (start + int i) in if noMix then v + 1 else v)"

definition ConfigureDUTSubinterfaces :: "bool \<Rightarrow> string \<Rightarrow> string \<Rightarrow> int \<Rightarrow> int \<Rightarrow> (scale_fatal, dut_subintf list) res" where
  "ConfigureDUTSubinterfaces noMix prefixFmtV4 prefixFmtV6 startVLANPort subIntCount =
     bind_res (gen (GenerateIPsWithStep prefixFmtV4 subIntCount PortIPv4Step)) (\<lambda>dutIPsV4.
     bind_res (gen (GenerateIPv6sWithStep prefixFmtV6 subIntCount PortIPv6Step)) (\<lambda>dutIPsV6.
     Inr (map (\<lambda>i. \<lparr>si_index = of_nat i + 1, si_vlan = vlan_of noMix startVLANPort i, si_ipv4 = dutIPsV4 ! i, si_ipv6 = dutIPsV6 ! i\<rparr>)
           [0..<nat subIntCount])))"

record ate_device =
  dev_name :: string
  dev_mac :: string
  dev_vlan :: "16 word option"
  dev_ipv4 :: string
  dev_gw4 :: string
  dev_ipv6 :: string
  dev_gw6 :: string

definition CreateATEDevice :: "16 word \<Rightarrow> string \<Rightarrow> string \<Rightarrow> string \<Rightarrow> string \<Rightarrow> string \<Rightarrow> string \<Rightarrow> ate_device" where
  "CreateATEDevice vlanID name mac dutIPv4 ateIPv4 dutIPv6 ateIPv6 =
     \<lparr>dev_name = name, dev_mac = mac, dev_vlan = (if vlanID > 0 then Some vlanID else None),
      dev_ipv4 = ateIPv4, dev_gw4 = dutIPv4, dev_ipv6 = ateIPv6, dev_gw6 = dutIPv6\<rparr>"

text \<open>The loop over the subinterfaces; \<open>device i incMAC\<close> is the device of subinterface \<open>i\<close>.\<close>

fun ate_loop :: "(nat \<Rightarrow> string \<Rightarrow> ate_device) \<Rightarrow> string \<Rightarrow> nat \<Rightarrow> nat \<Rightarrow> (scale_fatal, ate_device list) res" where
  "ate_loop device mac 0 i = Inr []"
| "ate_loop device mac (Suc n) i =
     bind_res (gen (IncrementMAC mac (int i + 1))) (\<lambda>incMAC.
     bind_res (ate_loop device mac n (Suc i)) (\<lambda>devs. Inr (device i incMAC # devs)))"

definition MustConfigureATESubinterfaces ::
  "bool \<Rightarrow> string \<Rightarrow> string \<Rightarrow> string \<Rightarrow> string \<Rightarrow> string \<Rightarrow> string \<Rightarrow> int \<Rightarrow> int \<Rightarrow> (scale_fatal, ate_device list \<times> string list) res" where
  "MustConfigureATESubinterfaces noMix name mac dutPfxV4 atePfxV4 dutPfxV6 atePfxV6 startVLAN cnt =
     bind_res (gen (GenerateIPsWithStep dutPfxV4 cnt PortIPv4Step)) (\<lambda>dutV4.
     bind_res (gen (GenerateIPsWithStep atePfxV4 cnt PortIPv4Step)) (\<lambda>ateV4.
     bind_res (gen (GenerateIPv6sWithStep dutPfxV6 cnt PortIPv6Step)) (\<lambda>dutV6.
     bind_res (gen (GenerateIPv6sWithStep atePfxV6 cnt PortIPv6Step)) (\<lambda>ateV6.
     let devName = (\<lambda>i. name @ ''-'' @ dec i) in
     bind_res (ate_loop (\<lambda>i incMAC. CreateATEDevice (vlan_of noMix startVLAN i) (devName i) incMAC (dutV4 ! i) (ateV4 ! i) (dutV6 ! i) (ateV6 ! i))
                 mac (nat cnt) 0) (\<lambda>devs.
     Inr (devs, map devName [0..<nat cnt]))))))"

lemma ate_loop_devices:
  "ate_loop device mac n i = Inr devs \<Longrightarrow>
     length devs = n \<and> (\<forall>k < n. \<exists>m b. ParseMAC mac = Some b \<and> m = mac_string b \<and> devs ! k = device (i + k) m)"
proof (induction n arbitrary: i devs)
  case (Suc n)
  then obtain m ds where m: "IncrementMAC mac (int i + 1) = Inr m" and ds: "ate_loop device mac n (Suc i) = Inr ds" "devs = device i m # ds"
    by (auto simp: bind_res_Inr_iff gen_def map_sum_Inr_iff)
  obtain b where b: "ParseMAC mac = Some b" "m = mac_string b" using IncrementMAC_start [OF m] by blast
  show ?case
  proof (intro conjI allI impI)
    fix k assume "k < Suc n"
    then show "\<exists>m b. ParseMAC mac = Some b \<and> m = mac_string b \<and> devs ! k = device (i + k) m"
      using Suc.IH [OF ds(1)] b ds(2) by (cases k) simp_all
  qed (use Suc.IH [OF ds(1)] ds(2) in simp)
qed simp

lemma vlan_of_value:
  assumes "0 < start" "start + int n < 2 ^ 16" "i < n"
  shows "unat (vlan_of noMix start i) = nat start + i + (if noMix then 1 else 0)"
proof -
  define s where "s = nat start"
  have s: "start = int s" "s + n < 65536" using assms by (simp_all add: s_def)
  have "unat (of_nat (s + i) :: 16 word) = s + i" "unat (of_nat (Suc (s + i)) :: 16 word) = Suc (s + i)"
    using s(2) assms(3) by (simp_all add: unat_of_nat del: of_nat_add of_nat_Suc)
  then show ?thesis by (simp add: vlan_of_def Let_def s(1) add.commute)
qed

text \<open>When the subinterfaces of both sides are configured from the same address ranges and the first
  VLAN, the \<open>i\<close>-th traffic generator device has the VLAN of the \<open>i\<close>-th subinterface of the device under
  test and its addresses as gateways, the VLANs and the names are pairwise distinct, and yet all
  devices have one and the same MAC address, that of the port (in canonical form): the increment of
  the MAC address has no effect.\<close>

theorem subinterfaces_match:
  assumes "ConfigureDUTSubinterfaces noMix d4 d6 start cnt = Inr sis"
    and "MustConfigureATESubinterfaces noMix name mac d4 a4 d6 a6 start cnt = Inr (devs, names)"
    and "0 < start" and "start + cnt < 2 ^ 16"
  shows "length devs = length sis \<and> names = map dev_name devs \<and> distinct names \<and> distinct (map si_vlan sis)
    \<and> map dev_vlan devs = map (Some \<circ> si_vlan) sis \<and> map dev_gw4 devs = map si_ipv4 sis \<and> map dev_gw6 devs = map si_ipv6 sis
    \<and> (devs = [] \<or> (\<exists>b. ParseMAC mac = Some b \<and> map dev_mac devs = replicate (length devs) (mac_string b)))"
proof -
  obtain dutV4 dutV6 where g: "GenerateIPsWithStep d4 cnt PortIPv4Step = Inr dutV4" "GenerateIPv6sWithStep d6 cnt PortIPv6Step = Inr dutV6"
    and sis: "sis = map (\<lambda>i. \<lparr>si_index = of_nat i + 1, si_vlan = vlan_of noMix start i, si_ipv4 = dutV4 ! i, si_ipv6 = dutV6 ! i\<rparr>) [0..<nat cnt]"
    using assms(1) by (auto simp: ConfigureDUTSubinterfaces_def bind_res_Inr_iff gen_def map_sum_Inr_iff)
  obtain ateV4 ateV6 where l: "ate_loop (\<lambda>i incMAC. CreateATEDevice (vlan_of noMix start i) (name @ ''-'' @ dec i) incMAC (dutV4 ! i) (ateV4 ! i) (dutV6 ! i) (ateV6 ! i))
       mac (nat cnt) 0 = Inr devs" and names: "names = map (\<lambda>i. name @ ''-'' @ dec i) [0..<nat cnt]"
    using assms(2) g by (auto simp: MustConfigureATESubinterfaces_def bind_res_Inr_iff gen_def map_sum_Inr_iff)
  have len: "length devs = nat cnt" using ate_loop_devices [OF l] by simp
  have dv: "\<exists>m b. ParseMAC mac = Some b \<and> m = mac_string b \<and>
      devs ! i = CreateATEDevice (vlan_of noMix start i) (name @ ''-'' @ dec i) m (dutV4 ! i) (ateV4 ! i) (dutV6 ! i) (ateV6 ! i)" if "i < nat cnt" for i
    using ate_loop_devices [OF l] that by simp
  have vl: "unat (vlan_of noMix start i) = nat start + i + (if noMix then 1 else 0)" if "i < nat cnt" for i
  proof -
    have "int (nat cnt) = cnt" using that by simp
    then show ?thesis using vlan_of_value [OF assms(3) _ that, of noMix] assms(4) by metis
  qed
  then have pos: "0 < vlan_of noMix start i" if "i < nat cnt" for i
    using that assms(3) by (simp add: word_less_nat_alt)
  have fields: "dev_name (devs ! i) = name @ ''-'' @ dec i" "dev_vlan (devs ! i) = Some (vlan_of noMix start i)"
    "dev_gw4 (devs ! i) = dutV4 ! i" "dev_gw6 (devs ! i) = dutV6 ! i" if "i < nat cnt" for i
    using dv [OF that] pos [OF that] by (auto simp: CreateATEDevice_def)
  have "inj_on (vlan_of noMix start) {0..<nat cnt}" using vl by (intro inj_onI) (metis add_left_imp_eq add_right_imp_eq atLeastLessThan_iff)
  then have "distinct (map si_vlan sis)" by (simp add: sis comp_def distinct_map)
  moreover have "distinct names" by (simp add: names distinct_map inj_on_def)
  moreover have "names = map dev_name devs" "map dev_vlan devs = map (Some \<circ> si_vlan) sis" "map dev_gw4 devs = map si_ipv4 sis" "map dev_gw6 devs = map si_ipv6 sis"
    by (rule nth_equalityI; simp add: fields len names sis)+
  moreover have "devs = [] \<or> (\<exists>b. ParseMAC mac = Some b \<and> map dev_mac devs = replicate (length devs) (mac_string b))"
  proof (cases "devs = []")
    case False
    then have "0 < nat cnt" using len by (metis length_greater_0_conv)
    then obtain b where b: "ParseMAC mac = Some b" using dv by blast
    have "dev_mac (devs ! i) = mac_string b" if "i < nat cnt" for i using dv [OF that] b by (auto simp: CreateATEDevice_def)
    then have "map dev_mac devs = replicate (length devs) (mac_string b)" by - (rule nth_equalityI, simp_all add: len)
    then show ?thesis using b by blast
  qed simp
  ultimately show ?thesis using len by (simp add: sis)
qed

lemma port2_v6:
  "ParseIP ''5001:0:0:1::1'' = [0x50, 1, 0, 0, 0, 0, 0, 1, 0, 0, 0, 0, 0, 0, 0, 1]"
  "ParseIP ''5001:0:0:1::2'' = [0x50, 1, 0, 0, 0, 0, 0, 1, 0, 0, 0, 0, 0, 0, 0, 2]"
  "ParseIP PortIPv6Step = [0, 0, 0, 0, 0, 0, 0, 1, 0, 0, 0, 0, 0, 0, 0, 0]"
  by (simp_all add: PortIPv6Step_def ParseIP_def parseAddr_def parseIPv6_def parseIPv6_bytes_def hasPrefix_def parseIPv6_loop_numeral
      hex_val_def nat_to_be_numeral expand_ellipsis_def Let_def replicate_numeral)

lemma port2_v6_gen:
  "\<exists>l. GenerateIPv6sWithStep ''5001:0:0:1::1'' 2 PortIPv6Step = Inr l"
  "\<exists>l. GenerateIPv6sWithStep ''5001:0:0:1::2'' 2 PortIPv6Step = Inr l"
  by (simp_all add: GenerateIPv6sWithStep_def port2_v6 To16_def To4_def v4InV6Prefix_def ipToBigInt_def be_to_nat_def replicate_numeral Let_def)

theorem subinterfaces_match_witness:
  "\<exists>sis devs names. ConfigureDUTSubinterfaces False ''193.51.0.1'' ''5001:0:0:1::1'' StartVLANPort2 2 = Inr sis
    \<and> MustConfigureATESubinterfaces False ''ATE'' ''02:00:00:00:00:fe'' ''193.51.0.1'' ''193.51.0.2'' ''5001:0:0:1::1'' ''5001:0:0:1::2''
        StartVLANPort2 2 = Inr (devs, names)
    \<and> map dev_vlan devs = map (Some \<circ> si_vlan) sis \<and> length devs = 2
    \<and> map dev_mac devs = [''02:00:00:00:00:fe'', ''02:00:00:00:00:fe'']"
proof -
  have s: "v4_value ''193.51.0.1'' = 3241345025" "v4_value ''193.51.0.2'' = 3241345026"
    using start_values(1) by (simp_all add: v4_value_def ip_eval ATEPort2IPv4Start_def)
  obtain l1 l2 l3 l4 where g: "GenerateIPsWithStep ''193.51.0.1'' 2 PortIPv4Step = Inr l1" "GenerateIPsWithStep ''193.51.0.2'' 2 PortIPv4Step = Inr l2"
    "GenerateIPv6sWithStep ''5001:0:0:1::1'' 2 PortIPv6Step = Inr l3" "GenerateIPv6sWithStep ''5001:0:0:1::2'' 2 PortIPv6Step = Inr l4"
    using GenerateIPsWithStep_total [of 2 "''193.51.0.1''" PortIPv4Step] GenerateIPsWithStep_total [of 2 "''193.51.0.2''" PortIPv4Step] port2_v6_gen
    by (auto simp: s start_values)
  have m: "IncrementMAC ''02:00:00:00:00:fe'' i = Inr ''02:00:00:00:00:fe''" if "i = 1 \<or> i = 2" for i
    using that GenerateMACs_eq [OF _ ParseMAC_ex1 _ ParseMAC_ex2, of i] by (auto simp: IncrementMAC_def be_to_nat_def mac_eval upt_conv_Cons)
  obtain sis where c: "ConfigureDUTSubinterfaces False ''193.51.0.1'' ''5001:0:0:1::1'' StartVLANPort2 2 = Inr sis"
    by (simp add: ConfigureDUTSubinterfaces_def g gen_def)
  obtain devs names where a: "MustConfigureATESubinterfaces False ''ATE'' ''02:00:00:00:00:fe'' ''193.51.0.1'' ''193.51.0.2'' ''5001:0:0:1::1'' ''5001:0:0:1::2''
        StartVLANPort2 2 = Inr (devs, names)"
    by (simp add: MustConfigureATESubinterfaces_def g gen_def m numeral_2_eq_2)
  have len: "length sis = 2" using c by (auto simp: ConfigureDUTSubinterfaces_def g gen_def)
  have "0 < StartVLANPort2" "StartVLANPort2 + 2 < 2 ^ 16" by (simp_all add: StartVLANPort2_def)
  note r = subinterfaces_match [OF c a this]
  have mm: "mac_string [2, 0, 0, 0, 0, 254] = ''02:00:00:00:00:fe''" by (simp add: mac_eval)
  have two: "length devs = 2" "devs \<noteq> []" using r len by auto
  then have "map dev_mac devs = replicate 2 ''02:00:00:00:00:fe''" using r by (auto simp: ParseMAC_ex1 mm)
  then have "map dev_mac devs = [''02:00:00:00:00:fe'', ''02:00:00:00:00:fe'']" by (simp add: numeral_2_eq_2)
  moreover have "map dev_vlan devs = map (Some \<circ> si_vlan) sis" using r by simp
  ultimately show ?thesis using c a two(1) by (intro exI conjI) assumption+
qed

end
