(* ===== verification/Isis_Grid.thy ===== *)
theory Isis_Grid
  imports Iputil
begin

text \<open>
  \<^verbatim>\<open>internal/otg_helpers/otg_config_helpers/otgisisblockhelpers.go\<close>: a grid of simulated IS-IS routers in the
  configuration of a traffic generator, with \<open>linkMultiplier\<close> links between neighbours.

  The configuration object of the traffic generator (\<^verbatim>\<open>gosnappi\<close>) is a store: the list of its devices. A device
  pointer is an index into the store, so that two pointers to one device see each other's changes. Of a device
  the fields the code sets are modelled except fixed flags and metrics; an interface added to it is appended. Go \<^verbatim>\<open>int\<close>s are integers, node
  indices natural numbers. An \<^verbatim>\<open>error\<close> is an error value; the caller ends the test on it, so the half-built
  configuration is dropped. An index out of range is \<open>GridPanic\<close>.

  \<open>links_made\<close> is the effect of a run of links on the store, proved of the code by rules for the sequence,
  the loop and the cell (\<open>makes_links\<close>), from which the invariants follow by rule induction; the theorem says that what is generated is the
  grid: distinct devices, the right number of links between neighbours and none elsewhere, both ends of a
  link naming each other, and the addresses of the links those the traffic is sent to.
\<close>

section \<open>Configuration objects\<close>

record sim_ip =
  ip_name :: string
  ip_addr :: string
  ip_gateway :: string
  ip_plen :: "nat option"

record sim_eth =
  eth_name :: string
  eth_mac :: string
  eth_lag :: string
  eth_vlans :: "(string \<times> 32 word) list"
  eth_remote :: string
  eth_v4 :: "sim_ip list"
  eth_v6 :: "sim_ip list"

record isis_intf =
  intf_name :: string
  intf_eth :: string

record route_range =
  rr_name :: string
  rr_addr :: string
  rr_prefix :: "32 word"
  rr_count :: "32 word"

record sim_device =
  dev_name :: string
  dev_eths :: "sim_eth list"
  isis_name :: string
  isis_systemId :: string
  isis_hostname :: string
  isis_teRouterId :: string
  isis_areas :: "string list"
  isis_lspRefreshRate :: "32 word option"
  isis_lspLifetime :: "32 word option"
  isis_intfs :: "isis_intf list"
  isis_v4routes :: "route_range list"
  isis_v6routes :: "route_range list"

type_synonym store = "sim_device list"

record st_route =
  addressFirstOctet :: string
  rt_prefix :: int
  rt_count :: int

record GridIsisData =
  blockName :: string
  row :: int
  col :: int
  systemIDFirstOctet :: string
  linkIP4FirstOctet :: int
  nextLinkIP4ToUse :: bytes
  linkIP6FirstOctet :: string
  v4StRoute :: "st_route option"
  v6StRoute :: "st_route option"
  linkMultiplier :: int

record GridIsisTopo =
  gridNodes :: "nat list list"
  devices :: "nat list"
  topo_IP4FirstOctet :: int
  topo_IP6FirstOctet :: string
  topo_linkMultiplier :: int
  topo_blockName :: string

datatype grid_error =
    GridTooSmall
  | GridTooLarge
  | NoSystemID
  | OutOfSystemIDs
  | NoFreeAddress int
  | GridPanic

definition itoa :: "int \<Rightarrow> string" where
  "itoa i = (if i < 0 then ''-'' @ dec (nat (- i)) else dec (nat i))"

definition NewGridIsisData :: GridIsisData where
  "NewGridIsisData = \<lparr>blockName = [], row = 0, col = 0, systemIDFirstOctet = [], linkIP4FirstOctet = 0, nextLinkIP4ToUse = [],
     linkIP6FirstOctet = [], v4StRoute = None, v6StRoute = None, linkMultiplier = 0\<rparr>"

definition SetRow :: "int \<Rightarrow> GridIsisData \<Rightarrow> GridIsisData" where
  "SetRow r v = v\<lparr>row := r\<rparr>"

definition SetCol :: "int \<Rightarrow> GridIsisData \<Rightarrow> GridIsisData" where
  "SetCol c v = v\<lparr>col := c\<rparr>"

definition SetSystemIDFirstOctet :: "string \<Rightarrow> GridIsisData \<Rightarrow> GridIsisData" where
  "SetSystemIDFirstOctet s v = v\<lparr>systemIDFirstOctet := s\<rparr>"

definition SetLinkMultiplier :: "int \<Rightarrow> GridIsisData \<Rightarrow> GridIsisData" where
  "SetLinkMultiplier m v = v\<lparr>linkMultiplier := m\<rparr>"

definition SetBlockName :: "string \<Rightarrow> GridIsisData \<Rightarrow> GridIsisData" where
  "SetBlockName s v = v\<lparr>blockName := s\<rparr>"

definition SetLinkIP6FirstOctet :: "string \<Rightarrow> GridIsisData \<Rightarrow> GridIsisData" where
  "SetLinkIP6FirstOctet s v = v\<lparr>linkIP6FirstOctet := s\<rparr>"

text \<open>A route pointer is only used to set the three fields: the callers' setters are the update of the default.\<close>

definition V4RouteInfo :: "(st_route \<Rightarrow> st_route) \<Rightarrow> GridIsisData \<Rightarrow> GridIsisData" where
  "V4RouteInfo f v = v\<lparr>v4StRoute := Some (f \<lparr>addressFirstOctet = ''10'', rt_prefix = 32, rt_count = 1\<rparr>)\<rparr>"

definition V6RouteInfo :: "(st_route \<Rightarrow> st_route) \<Rightarrow> GridIsisData \<Rightarrow> GridIsisData" where
  "V6RouteInfo f v = v\<lparr>v6StRoute := Some (f \<lparr>addressFirstOctet = ''10'', rt_prefix = 64, rt_count = 1\<rparr>)\<rparr>"

definition SetLinkIP4FirstOctet :: "int \<Rightarrow> GridIsisData \<Rightarrow> GridIsisData" where
  "SetLinkIP4FirstOctet oct v =
     v\<lparr>linkIP4FirstOctet := oct, nextLinkIP4ToUse := ParseIP (itoa oct @ ''.0.0.0'')\<rparr>"


section \<open>Devices and links\<close>

definition grid_nextIP :: "bytes \<Rightarrow> bytes" where
  "grid_nextIP ip = rev (inc_le (rev ip))"

definition hex02 :: "nat \<Rightarrow> string" where
  "hex02 n = (let s = hex n in replicate (2 - length s) (CHR ''0'') @ s)"

definition v4_route :: "st_route option \<Rightarrow> string \<Rightarrow> int \<Rightarrow> int \<Rightarrow> route_range list" where
  "v4_route info isisName srcIdx dstIDx =
     (case info of
        None \<Rightarrow> []
      | Some v \<Rightarrow>
          [\<lparr>rr_name = isisName @ ''.isis.v4routes'',
            rr_addr = (if dstIDx \<noteq> -1 then addressFirstOctet v @ ''.'' @ itoa (srcIdx + 1) @ ''.'' @ itoa (dstIDx + 1) @ ''.0''
                       else addressFirstOctet v @ ''.0.'' @ itoa (srcIdx + 1) @ ''.0''),
            rr_prefix = of_int (rt_prefix v), rr_count = of_int (rt_count v)\<rparr>])"

definition v6_route :: "st_route option \<Rightarrow> string \<Rightarrow> int \<Rightarrow> int \<Rightarrow> route_range list" where
  "v6_route info isisName srcIdx dstIDx =
     (case info of
        None \<Rightarrow> []
      | Some v \<Rightarrow>
          [\<lparr>rr_name = isisName @ ''.isis.v6routes'',
            rr_addr = (if dstIDx \<noteq> -1 then addressFirstOctet v @ '':'' @ itoa (srcIdx + 1) @ '':'' @ itoa (dstIDx + 1) @ ''::0''
                       else addressFirstOctet v @ '':'' @ itoa (srcIdx + 1) @ ''::0''),
            rr_prefix = of_int (rt_prefix v), rr_count = of_int (rt_count v)\<rparr>])"

definition createSimDev ::
  "nat \<Rightarrow> string \<Rightarrow> int \<Rightarrow> int \<Rightarrow> st_route option \<Rightarrow> st_route option \<Rightarrow> string \<Rightarrow> store \<Rightarrow> (grid_error, store \<times> nat) res" where
  "createSimDev nodeIDx sysOct srcIdx dstIDx v4 v6 block st =
     (let otgIdx = nodeIDx + 1;
          prefix = block @ ''_'' @ sysOct @ ''d'' @ dec otgIdx @ ''.sim.'';
          deviceName = (if dstIDx = -1 then prefix @ itoa srcIdx else prefix @ itoa srcIdx @ ''.'' @ itoa dstIDx);
          teRtrID = (if dstIDx = -1 then sysOct @ ''.10.0.'' @ itoa srcIdx
                     else sysOct @ ''.'' @ itoa srcIdx @ ''.'' @ itoa dstIDx @ ''.1'');
          lastOctets = hex02 otgIdx in
      if length lastOctets > 10 then Inl OutOfSystemIDs
      else let isisName = deviceName @ ''.isis'' in
        Inr (st @ [\<lparr>dev_name = deviceName, dev_eths = [], isis_name = isisName,
                    isis_systemId = sysOct @ replicate (10 - length lastOctets) (CHR ''0'') @ lastOctets,
                    isis_hostname = deviceName, isis_teRouterId = teRtrID, isis_areas = [], isis_lspRefreshRate = None,
                    isis_lspLifetime = None, isis_intfs = [],
                    isis_v4routes = v4_route v4 isisName srcIdx dstIDx, isis_v6routes = v6_route v6 isisName srcIdx dstIDx\<rparr>],
             length st))"

definition link_eth :: "string \<Rightarrow> string \<Rightarrow> sim_ip list \<Rightarrow> sim_ip list \<Rightarrow> sim_eth" where
  "link_eth name remote v4 v6 =
     \<lparr>eth_name = name, eth_mac = [], eth_lag = [], eth_vlans = [], eth_remote = remote, eth_v4 = v4, eth_v6 = v6\<rparr>"

definition add_eth :: "nat \<Rightarrow> sim_eth \<Rightarrow> string \<Rightarrow> store \<Rightarrow> store" where
  "add_eth p e intf st =
     (let d = st ! p in
      st[p := d\<lparr>dev_eths := dev_eths d @ [e], isis_intfs := isis_intfs d @ [\<lparr>intf_name = intf, intf_eth = eth_name e\<rparr>]\<rparr>])"

definition eth_label :: "sim_device \<Rightarrow> string" where
  "eth_label d = dev_name d @ ''eth'' @ dec (length (dev_eths d) + 1)"

definition intf_label :: "sim_device \<Rightarrow> string" where
  "intf_label d = dev_name d @ ''Isisinf'' @ dec (length (isis_intfs d) + 1)"

definition link_ip4 :: "int \<Rightarrow> bytes \<Rightarrow> string \<Rightarrow> string \<Rightarrow> (grid_error, sim_ip list \<times> sim_ip list \<times> bytes) res" where
  "link_ip4 oct ip eth1 eth2 =
     (if oct = 0 then Inr ([], [], ip)
      else let ip1 = ip_string ip; ip' = grid_nextIP ip; ip4 = To4 ip' in
        if ip4 = [] \<or> hd ip4 \<noteq> of_int oct then Inl (NoFreeAddress oct)
        else let ip2 = ip_string ip' in
          Inr ([\<lparr>ip_name = eth1 @ ''ip4'', ip_addr = ip1, ip_gateway = ip2, ip_plen = Some 31\<rparr>],
               [\<lparr>ip_name = eth2 @ ''ip4'', ip_addr = ip2, ip_gateway = ip1, ip_plen = Some 31\<rparr>], grid_nextIP ip'))"

definition link_ip6 :: "string \<Rightarrow> nat \<Rightarrow> nat \<Rightarrow> nat \<Rightarrow> string \<Rightarrow> string \<Rightarrow> sim_ip list \<times> sim_ip list" where
  "link_ip6 oct idx1 idx2 i eth1 eth2 =
     (if oct = [] then ([], [])
      else let base = oct @ ''::'' @ dec idx1 @ '':'' @ dec idx2 @ '':'';
               ip1 = base @ dec (i * 2 + 1); ip2 = base @ dec (i * 2 + 2) in
        ([\<lparr>ip_name = eth1 @ ''ip6'', ip_addr = ip1, ip_gateway = ip2, ip_plen = None\<rparr>],
         [\<lparr>ip_name = eth2 @ ''ip6'', ip_addr = ip2, ip_gateway = ip1, ip_plen = None\<rparr>]))"

text \<open>One iteration of the loop of \<^verbatim>\<open>createLink\<close>.\<close>

definition one_link ::
  "nat \<Rightarrow> nat \<Rightarrow> nat \<Rightarrow> nat \<Rightarrow> int \<Rightarrow> string \<Rightarrow> nat \<Rightarrow> store \<times> bytes \<Rightarrow> (grid_error, store \<times> bytes) res" where
  "one_link p1 p2 IDx1 IDx2 oct4 oct6 i = (\<lambda>(st, ip).
     let eth1 = eth_label (st ! p1); eth2 = eth_label (st ! p2);
         intf1 = intf_label (st ! p1); intf2 = intf_label (st ! p2);
         (a6, b6) = link_ip6 oct6 (IDx1 + 1) (IDx2 + 1) i eth1 eth2 in
     bind_res (link_ip4 oct4 ip eth1 eth2) (\<lambda>(a4, b4, ip').
       Inr (add_eth p2 (link_eth eth2 eth1 b4 b6) intf2
              (add_eth p1 (link_eth eth1 eth2 a4 a6) intf1 st), ip')))"

fun link_loop ::
  "nat \<Rightarrow> nat \<Rightarrow> nat \<Rightarrow> nat \<Rightarrow> nat \<Rightarrow> nat \<Rightarrow> int \<Rightarrow> string \<Rightarrow> store \<times> bytes \<Rightarrow> (grid_error, store \<times> bytes) res" where
  "link_loop 0 i p1 p2 IDx1 IDx2 oct4 oct6 s = Inr s"
| "link_loop (Suc n) i p1 p2 IDx1 IDx2 oct4 oct6 s =
     bind_res (one_link p1 p2 IDx1 IDx2 oct4 oct6 i s) (link_loop n (Suc i) p1 p2 IDx1 IDx2 oct4 oct6)"

definition createLink ::
  "nat \<Rightarrow> nat \<Rightarrow> nat \<Rightarrow> nat \<Rightarrow> int \<Rightarrow> string \<Rightarrow> int \<Rightarrow> store \<times> bytes \<Rightarrow> (grid_error, store \<times> bytes) res" where
  "createLink d1 d2 IDx1 IDx2 oct4 oct6 m = link_loop (nat m) 0 d1 d2 IDx1 IDx2 oct4 oct6"


section \<open>The grid\<close>

definition cells :: "nat \<Rightarrow> nat \<Rightarrow> (nat \<times> nat) list" where
  "cells r c = List.product [0..<r] [0..<c]"

text \<open>The loop that creates the devices, over the cells row by row.\<close>

fun node_loop ::
  "GridIsisData \<Rightarrow> (nat \<times> nat) list \<Rightarrow> nat \<Rightarrow> nat list list \<Rightarrow> nat list \<Rightarrow> store \<Rightarrow>
     (grid_error, nat list list \<times> nat list \<times> store) res" where
  "node_loop v [] nodeIDx nodes devs st = Inr (nodes, devs, st)"
| "node_loop v ((r, c) # cs) nodeIDx nodes devs st =
     bind_res (createSimDev nodeIDx (systemIDFirstOctet v) (int r) (int c) (v4StRoute v) (v6StRoute v) (blockName v) st)
       (\<lambda>(st', dev). node_loop v cs (Suc nodeIDx) (nodes[r := (nodes ! r)[c := nodeIDx]]) (devs @ [dev]) st')"

text \<open>The links of a cell: to its right neighbour and to the one below.\<close>

definition cell_links :: "GridIsisData \<Rightarrow> nat list list \<Rightarrow> nat list \<Rightarrow> nat \<times> nat \<Rightarrow> store \<times> bytes \<Rightarrow> (grid_error, store \<times> bytes) res" where
  "cell_links v nodes devs = (\<lambda>(r, c) s.
     let link = (\<lambda>val1 val2. createLink (devs ! val1) (devs ! val2) val1 val2
           (linkIP4FirstOctet v) (linkIP6FirstOctet v) (linkMultiplier v)) in
     bind_res (if int c + 1 \<noteq> col v then link (nodes ! r ! c) (nodes ! r ! (c + 1)) s else Inr s) (\<lambda>s.
       if int r + 1 \<noteq> row v then link (nodes ! r ! c) (nodes ! (r + 1) ! c) s else Inr s))"

fun links_loop :: "GridIsisData \<Rightarrow> nat list list \<Rightarrow> nat list \<Rightarrow> (nat \<times> nat) list \<Rightarrow> store \<times> bytes \<Rightarrow> (grid_error, store \<times> bytes) res" where
  "links_loop v nodes devs [] s = Inr s"
| "links_loop v nodes devs (c # cs) s = bind_res (cell_links v nodes devs c s) (links_loop v nodes devs cs)"

definition GenerateTopology :: "GridIsisData \<Rightarrow> store \<Rightarrow> (grid_error, GridIsisTopo \<times> GridIsisData \<times> store) res" where
  "GenerateTopology v st =
     (if row v \<le> 1 \<or> col v \<le> 1 then Inl GridTooSmall
      else if row v > 255 \<or> col v > 255 then Inl GridTooLarge
      else if systemIDFirstOctet v = [] then Inl NoSystemID
      else let cs = cells (nat (row v)) (nat (col v)) in
        bind_res (node_loop v cs 0 (replicate (nat (row v)) (replicate (nat (col v)) 0)) [] st) (\<lambda>(nodes, devs, st).
        bind_res (links_loop v nodes devs cs (st, nextLinkIP4ToUse v)) (\<lambda>(st, ip).
          Inr (\<lparr>gridNodes = nodes, devices = devs, topo_IP4FirstOctet = linkIP4FirstOctet v, topo_IP6FirstOctet = linkIP6FirstOctet v,
                 topo_linkMultiplier = linkMultiplier v, topo_blockName = blockName v\<rparr>,
               v\<lparr>nextLinkIP4ToUse := ip\<rparr>, st))))"

definition Connect :: "GridIsisTopo \<Rightarrow> nat \<Rightarrow> nat \<Rightarrow> nat \<Rightarrow> store \<times> bytes \<Rightarrow> (grid_error, store \<times> bytes) res" where
  "Connect v emuDev rowIdx colIdx s =
     (if rowIdx < length (gridNodes v) \<and> colIdx < length (gridNodes v ! rowIdx)
        \<and> gridNodes v ! rowIdx ! colIdx < length (devices v)
      then let devIdx = gridNodes v ! rowIdx ! colIdx in
        createLink emuDev (devices v ! devIdx) (length (devices v)) devIdx (topo_IP4FirstOctet v) (topo_IP6FirstOctet v) 1 s
      else Inl GridPanic)"

definition Device :: "GridIsisTopo \<Rightarrow> nat \<Rightarrow> nat \<Rightarrow> (grid_error, nat) res" where
  "Device v rowIdx colIdx =
     (if rowIdx < length (gridNodes v) \<and> colIdx < length (gridNodes v ! rowIdx)
        \<and> gridNodes v ! rowIdx ! colIdx < length (devices v)
      then Inr (devices v ! (gridNodes v ! rowIdx ! colIdx)) else Inl GridPanic)"


section \<open>Names and addresses\<close>

lemma grid_nextIP_eq: "grid_nextIP = nextIP"
  by (rule ext) (simp add: grid_nextIP_def nextIP_def)

lemma label_split:
  "rev (takeWhile is_digit (rev (n @ ''eth'' @ dec k))) = dec k \<and> rev (dropWhile is_digit (rev (n @ ''eth'' @ dec k))) = n @ ''eth''"
proof -
  have d: "\<And>c. c \<in> set (rev (dec k)) \<Longrightarrow> is_digit c" using dec_digits [of k] by (simp add: list_all_iff)
  have h: "\<not> is_digit (CHR ''h'')" by (simp add: is_digit_def)
  show ?thesis
    using takeWhile_append2 [of "rev (dec k)" is_digit "rev (n @ ''eth'')", OF d]
      dropWhile_append2 [of "rev (dec k)" is_digit "rev (n @ ''eth'')", OF d] h by simp
qed

lemma label_inject: "m @ ''eth'' @ dec j = n @ ''eth'' @ dec k \<longleftrightarrow> m = n \<and> j = k"
  using label_split [of m j] label_split [of n k] by (metis append_same_eq dec_inject)

text \<open>The \<open>x\<close>-th IPv4 address in the 16-byte form of \<^verbatim>\<open>net.ParseIP\<close>.\<close>

definition v4_ip :: "nat \<Rightarrow> bytes" where
  "v4_ip x = nat_to_be 16 (0xffff * 2 ^ 32 + x)"

lemma length_v4_ip [simp]: "length (v4_ip x) = 16"
  by (simp add: v4_ip_def)

lemma be_to_nat_v4_ip: "x \<le> 2 ^ 33 \<Longrightarrow> be_to_nat (v4_ip x) = 0xffff * 2 ^ 32 + x"
  by (simp add: v4_ip_def be_to_nat_nat_to_be)

lemma v4_ip_prefix:
  assumes "x < 2 ^ 32"
  shows "v4_ip x = v4InV6Prefix @ nat_to_be 4 x"
proof (rule be_to_nat_inj)
  have p: "be_to_nat v4InV6Prefix = 0xffff"
    by (simp add: v4InV6Prefix_def be_to_nat_def replicate_numeral)
  show "be_to_nat (v4_ip x) = be_to_nat (v4InV6Prefix @ nat_to_be 4 x)"
    using assms by (simp add: be_to_nat_v4_ip be_to_nat_append p be_to_nat_nat_to_be)
qed simp

lemma v4_ip_next: "x < 2 ^ 33 \<Longrightarrow> grid_nextIP (v4_ip x) = v4_ip (x + 1)"
  by (rule be_to_nat_inj) (simp_all add: grid_nextIP_eq be_to_nat_nextIP be_to_nat_v4_ip)

lemma To4_v4_ip: "x < 2 ^ 32 \<Longrightarrow> To4 (v4_ip x) = nat_to_be 4 x"
  by (simp add: v4_ip_prefix To4_def)

lemma To4_v4_ip_over:
  assumes "2 ^ 32 \<le> x" and "x < 2 ^ 33"
  shows "To4 (v4_ip x) = []"
proof (rule ccontr)
  assume "To4 (v4_ip x) \<noteq> []"
  then have t: "take 12 (v4_ip x) = v4InV6Prefix" by (auto simp: To4_def split: if_splits)
  have "v4_ip x = take 12 (v4_ip x) @ drop 12 (v4_ip x)" by simp
  then have e: "be_to_nat (v4_ip x) = 0xffff * 2 ^ 32 + be_to_nat (drop 12 (v4_ip x))"
    unfolding t using be_to_nat_append [of v4InV6Prefix "drop 12 (v4_ip x)"]
    by (simp add: v4InV6Prefix_def be_to_nat_def replicate_numeral)
  have "be_to_nat (drop 12 (v4_ip x)) < 256 ^ 4" using be_to_nat_less [of "drop 12 (v4_ip x)"] by simp
  with e assms show False by (simp add: be_to_nat_v4_ip)
qed

lemma hd_nat_to_be: "hd (nat_to_be 4 x) = of_nat (x div 2 ^ 24)"
proof (rule word_unat_eq_iff [THEN iffD2])
  show "unat (hd (nat_to_be 4 x)) = unat (of_nat (x div 2 ^ 24) :: byte)"
    by (simp add: nat_to_be_numeral div_mult2_eq [symmetric] unat_of_nat)
qed


section \<open>What a run of links adds\<close>

definition paired :: "sim_eth \<Rightarrow> sim_eth \<Rightarrow> bool" where
  "paired e e' \<longleftrightarrow> eth_remote e = eth_name e' \<and> eth_remote e' = eth_name e
     \<and> map ip_gateway (eth_v4 e) = map ip_addr (eth_v4 e') \<and> map ip_gateway (eth_v4 e') = map ip_addr (eth_v4 e)
     \<and> map ip_gateway (eth_v6 e) = map ip_addr (eth_v6 e') \<and> map ip_gateway (eth_v6 e') = map ip_addr (eth_v6 e)"

definition link_addrs :: "sim_eth \<Rightarrow> string list" where
  "link_addrs e = map ip_addr (eth_v4 e)"

text \<open>The effect on the store of a sequence of links between pairs of devices, which uses the given
  addresses: each adds to both devices an interface with the next free name, and the two are paired.\<close>

inductive links_made :: "(nat \<times> nat) list \<Rightarrow> string list \<Rightarrow> store \<Rightarrow> store \<Rightarrow> bool" where
  made_none: "links_made [] [] st st"
| made_one: "p < length st \<Longrightarrow> q < length st \<Longrightarrow> p \<noteq> q \<Longrightarrow> paired e e' \<Longrightarrow>
     eth_name e = eth_label (st ! p) \<Longrightarrow> eth_name e' = eth_label (st ! q) \<Longrightarrow>
     links_made ps as (add_eth q e' i' (add_eth p e i st)) st' \<Longrightarrow>
     links_made ((p, q) # ps) (link_addrs e @ link_addrs e' @ as) st st'"

lemma links_made_append:
  "links_made ps as st st1 \<Longrightarrow> links_made qs bs st1 st2 \<Longrightarrow> links_made (ps @ qs) (as @ bs) st st2"
  by (induction rule: links_made.induct) (auto intro: made_one)

lemma add_eth_simps [simp]:
  "length (add_eth p e i st) = length st"
  "p < length st \<Longrightarrow> dev_name (add_eth p e i st ! q) = dev_name (st ! q)"
  "p < length st \<Longrightarrow> isis_systemId (add_eth p e i st ! q) = isis_systemId (st ! q)"
  "p < length st \<Longrightarrow> dev_eths (add_eth p e i st ! q) = dev_eths (st ! q) @ (if q = p then [e] else [])"
  by (auto simp: add_eth_def Let_def nth_list_update)

lemma add_eth_other: "q \<noteq> p \<Longrightarrow> add_eth p e i st ! q = st ! q"
  by (simp add: add_eth_def Let_def)

lemma links_made_same:
  assumes "links_made ps as st st'"
  shows "length st' = length st" "dev_name (st' ! q) = dev_name (st ! q)" "isis_systemId (st' ! q) = isis_systemId (st ! q)"
    "q \<notin> fst ` set ps \<union> snd ` set ps \<Longrightarrow> st' ! q = st ! q"
  using assms by (induction rule: links_made.induct) (auto simp: add_eth_other)


section \<open>The code makes the links\<close>

definition ip_at :: "int \<Rightarrow> nat \<Rightarrow> bytes \<Rightarrow> bool" where
  "ip_at oct x ip \<longleftrightarrow> oct = 0 \<or> 0 < oct \<and> oct < 256 \<and> ip = v4_ip (nat oct * 2 ^ 24 + x)"

definition block_addrs :: "int \<Rightarrow> nat \<Rightarrow> nat \<Rightarrow> string list" where
  "block_addrs oct x n = (if oct = 0 then [] else map (\<lambda>k. ip_string (nat_to_be 4 (nat oct * 2 ^ 24 + k))) [x..<x + n])"

lemma block_addrs_append: "block_addrs oct x m @ block_addrs oct (x + m) n = block_addrs oct x (m + n)"
  using upt_add_eq_append [of x "x + m" n] by (simp add: block_addrs_def add.assoc)

lemma ip_string_v4_ip: "x < 2 ^ 32 \<Longrightarrow> ip_string (v4_ip x) = ip_string (nat_to_be 4 x)"
proof -
  assume x: "x < 2 ^ 32"
  have "nat_to_be 4 x \<noteq> []" "v4_ip x \<noteq> []" using length_nat_to_be [of 4 x] length_v4_ip [of x] by fastforce+
  then show ?thesis using x by (simp add: ip_string_def To4_v4_ip To4_def [of "nat_to_be 4 x"])
qed

lemma link_ip4_fits:
  assumes "ip_at oct x ip" and "oct = 0 \<or> x + 2 \<le> 2 ^ 24"
  shows "\<exists>a b ip'. link_ip4 oct ip e1 e2 = Inr (a, b, ip') \<and> map ip_gateway a = map ip_addr b \<and> map ip_gateway b = map ip_addr a
    \<and> map ip_addr a @ map ip_addr b = block_addrs oct x 2 \<and> ip_at oct (x + 2) ip'"
proof (cases "oct = 0")
  case True
  then show ?thesis by (simp add: link_ip4_def block_addrs_def ip_at_def)
next
  case False
  define n where "n = nat oct * 2 ^ 24 + x"
  from False assms have o: "0 < oct" "oct < 256" "ip = v4_ip n" and x: "x + 2 \<le> 2 ^ 24" by (auto simp: ip_at_def n_def)
  then have "nat oct * 2 ^ 24 \<le> 255 * 2 ^ 24" by (intro mult_right_mono) auto
  with x have n: "n + 2 \<le> 2 ^ 32" by (simp add: n_def)
  have "(n + 1) div 2 ^ 24 = nat oct"
    using x by (simp add: n_def div_nat_eqI)
  then have "hd (To4 (v4_ip (n + 1))) = of_int oct"
    using n o(1) by (simp add: To4_v4_ip hd_nat_to_be of_nat_nat)
  moreover have "To4 (v4_ip (n + 1)) \<noteq> []" using n length_nat_to_be [of 4 "n + 1"] by (auto simp: To4_v4_ip simp del: length_nat_to_be)
  moreover have "grid_nextIP ip = v4_ip (n + 1)" "grid_nextIP (v4_ip (n + 1)) = v4_ip (n + 2)"
    using n o(3) v4_ip_next [of n] v4_ip_next [of "n + 1"] by simp_all
  moreover have "ip_string ip = ip_string (nat_to_be 4 n)" "ip_string (v4_ip (n + 1)) = ip_string (nat_to_be 4 (n + 1))"
    using n o(3) by (simp_all add: ip_string_v4_ip)
  ultimately have "link_ip4 oct ip e1 e2 =
      Inr ([\<lparr>ip_name = e1 @ ''ip4'', ip_addr = ip_string (nat_to_be 4 n), ip_gateway = ip_string (nat_to_be 4 (n + 1)), ip_plen = Some 31\<rparr>],
           [\<lparr>ip_name = e2 @ ''ip4'', ip_addr = ip_string (nat_to_be 4 (n + 1)), ip_gateway = ip_string (nat_to_be 4 n), ip_plen = Some 31\<rparr>],
           v4_ip (n + 2))"
    using False by (simp add: link_ip4_def Let_def)
  moreover have "[x..<x + 2] = [x, x + 1]" by (simp add: upt_conv_Cons)
  ultimately show ?thesis
    using False o by (simp add: block_addrs_def ip_at_def n_def add.assoc)
qed

lemma link_ip4_exhausted:
  assumes "ip_at oct (2 ^ 24) ip" and "oct \<noteq> 0"
  shows "link_ip4 oct ip e1 e2 = Inl (NoFreeAddress oct)"
proof -
  define n where "n = nat oct * 2 ^ 24 + 2 ^ 24"
  from assms have o: "0 < oct" "oct < 256" "ip = v4_ip n" by (auto simp: ip_at_def n_def)
  then have "nat oct * 2 ^ 24 \<le> 255 * 2 ^ 24" by (intro mult_right_mono) auto
  then have n: "n \<le> 2 ^ 32" by (simp add: n_def)
  show ?thesis
  proof (cases "oct = 255")
    case True
    then show ?thesis
      using o To4_v4_ip_over [of "n + 1"] by (simp add: link_ip4_def Let_def v4_ip_next n_def)
  next
    case False
    then have "nat oct * 2 ^ 24 \<le> 254 * 2 ^ 24" using o by (intro mult_right_mono) auto
    then have n: "n + 1 < 2 ^ 32" by (simp add: n_def)
    have "(n + 1) div 2 ^ 24 = nat oct + 1" by (simp add: n_def div_nat_eqI)
    then have h: "hd (To4 (v4_ip (n + 1))) = of_nat (nat oct + 1)" using n by (simp add: To4_v4_ip hd_nat_to_be)
    obtain w where w: "oct = int w" using o(1) by (metis less_imp_le zero_le_imp_eq_int)
    have "unat (of_nat (w + 1) :: byte) = w + 1" "unat (of_nat w :: byte) = w"
      using o False w by (simp_all only: unat_of_nat) simp_all
    then have "(of_nat (w + 1) :: byte) \<noteq> of_nat w" by (metis add_cancel_right_right one_neq_zero)
    then have "hd (To4 (v4_ip (n + 1))) \<noteq> of_int oct" using h w by simp
    then show ?thesis using assms(2) o n by (simp add: link_ip4_def Let_def v4_ip_next)
  qed
qed


text \<open>A step that makes the links \<open>ps\<close>, taking its addresses from the \<open>x\<close>-th of the block on; it fails exactly when
  the block of \<open>2 ^ 24\<close> addresses does not have enough of them.\<close>

definition fits :: "int \<Rightarrow> nat \<Rightarrow> bool" where
  "fits oct x \<longleftrightarrow> oct = 0 \<or> x \<le> 2 ^ 24"

definition makes_links ::
  "nat \<Rightarrow> int \<Rightarrow> nat \<Rightarrow> (nat \<times> nat) list \<Rightarrow> (store \<times> bytes \<Rightarrow> (grid_error, store \<times> bytes) res) \<Rightarrow> bool" where
  "makes_links len oct x ps f \<longleftrightarrow>
     (\<forall>st ip. length st = len \<and> ip_at oct x ip \<and> even x \<and> fits oct x \<longrightarrow>
        (if fits oct (x + 2 * length ps)
         then \<exists>st' ip'. f (st, ip) = Inr (st', ip') \<and> links_made ps (block_addrs oct x (2 * length ps)) st st'
                \<and> ip_at oct (x + 2 * length ps) ip'
         else f (st, ip) = Inl (NoFreeAddress oct)))"

lemma makes_linksD:
  assumes "makes_links (length st) oct x ps f" "ip_at oct x ip" "even x" "fits oct x"
  shows "fits oct (x + 2 * length ps) \<Longrightarrow> \<exists>st' ip'. f (st, ip) = Inr (st', ip')
      \<and> links_made ps (block_addrs oct x (2 * length ps)) st st' \<and> ip_at oct (x + 2 * length ps) ip'"
    and "\<not> fits oct (x + 2 * length ps) \<Longrightarrow> f (st, ip) = Inl (NoFreeAddress oct)"
  using assms(2-) assms(1) [unfolded makes_links_def, rule_format, of st ip] by simp_all

lemma makes_none: "makes_links len oct x [] Inr"
  by (simp add: makes_links_def block_addrs_def made_none)

lemma makes_seq:
  assumes f: "makes_links len oct x ps f" and g: "makes_links len oct (x + 2 * length ps) qs g"
  shows "makes_links len oct x (ps @ qs) (\<lambda>s. bind_res (f s) g)"
  unfolding makes_links_def
proof (intro allI impI)
  fix st :: store and ip
  assume s: "length st = len \<and> ip_at oct x ip \<and> even x \<and> fits oct x"
  show "if fits oct (x + 2 * length (ps @ qs))
        then \<exists>st' ip'. bind_res (f (st, ip)) g = Inr (st', ip')
            \<and> links_made (ps @ qs) (block_addrs oct x (2 * length (ps @ qs))) st st'
            \<and> ip_at oct (x + 2 * length (ps @ qs)) ip'
        else bind_res (f (st, ip)) g = Inl (NoFreeAddress oct)"
  proof (cases "fits oct (x + 2 * length ps)")
    case True
    then obtain st1 ip1 where 1: "f (st, ip) = Inr (st1, ip1)"
        "links_made ps (block_addrs oct x (2 * length ps)) st st1" "ip_at oct (x + 2 * length ps) ip1"
      using makes_linksD(1) [of st oct x ps f ip] f s by blast
    have "length st1 = len" using links_made_same(1) [OF 1(2)] s by simp
    then have gD: "makes_links (length st1) oct (x + 2 * length ps) qs g" using g by simp
    have e: "even (x + 2 * length ps)" using s by simp
    note D = makes_linksD [OF gD 1(3) e True]
    have len: "x + 2 * length (ps @ qs) = x + 2 * length ps + 2 * length qs" by simp
    show ?thesis
    proof (cases "fits oct (x + 2 * length ps + 2 * length qs)")
      case fit: True
      obtain st2 ip2 where 2: "g (st1, ip1) = Inr (st2, ip2)" "ip_at oct (x + 2 * length ps + 2 * length qs) ip2"
          "links_made qs (block_addrs oct (x + 2 * length ps) (2 * length qs)) st1 st2"
        using D(1) [OF fit] by blast
      have "links_made (ps @ qs) (block_addrs oct x (2 * length (ps @ qs))) st st2"
        using links_made_append [OF 1(2) 2(3)] block_addrs_append [of oct x "2 * length ps" "2 * length qs"]
        by (simp add: distrib_left)
      with 1 2 fit show ?thesis unfolding len by simp
    next
      case nofit: False
      show ?thesis unfolding len using D(2) [OF nofit] 1(1) nofit by simp
    qed
  next
    case False
    then have "f (st, ip) = Inl (NoFreeAddress oct)" using makes_linksD(2) [of st oct x ps f ip] f s by blast
    with False show ?thesis by (auto simp: fits_def)
  qed
qed

lemma makes_one:
  assumes "p < len" "q < len" "p \<noteq> q"
  shows "makes_links len oct x [(p, q)] (one_link p q a b oct oct6 i)"
  unfolding makes_links_def
proof (intro allI impI)
  fix st :: store and ip
  assume s: "length st = len \<and> ip_at oct x ip \<and> even x \<and> fits oct x"
  let ?e = "eth_label (st ! p)" and ?e' = "eth_label (st ! q)"
  obtain a6 b6 where 6: "link_ip6 oct6 (a + 1) (b + 1) i ?e ?e' = (a6, b6)" by fastforce
  then have 66: "map ip_gateway a6 = map ip_addr b6" "map ip_gateway b6 = map ip_addr a6"
    by (auto simp: link_ip6_def Let_def split: if_splits)
  show "if fits oct (x + 2 * length [(p, q)])
        then \<exists>st' ip'. one_link p q a b oct oct6 i (st, ip) = Inr (st', ip')
            \<and> links_made [(p, q)] (block_addrs oct x (2 * length [(p, q)])) st st' \<and> ip_at oct (x + 2 * length [(p, q)]) ip'
        else one_link p q a b oct oct6 i (st, ip) = Inl (NoFreeAddress oct)"
  proof (cases "fits oct (x + 2)")
    case True
    then have "oct = 0 \<or> x + 2 \<le> 2 ^ 24" by (simp add: fits_def)
    then obtain a4 b4 ip' where 4: "link_ip4 oct ip ?e ?e' = Inr (a4, b4, ip')" "map ip_gateway a4 = map ip_addr b4"
        "map ip_gateway b4 = map ip_addr a4" "map ip_addr a4 @ map ip_addr b4 = block_addrs oct x 2" "ip_at oct (x + 2) ip'"
      using link_ip4_fits [of oct x ip ?e ?e'] s by blast
    let ?n = "link_eth ?e ?e' a4 a6"
    let ?n' = "link_eth ?e' ?e b4 b6"
    have "paired ?n ?n'" using 4 66 by (simp add: paired_def link_eth_def)
    then have "links_made [(p, q)] (block_addrs oct x 2) st (add_eth q ?n' (intf_label (st ! q)) (add_eth p ?n (intf_label (st ! p)) st))"
      using made_one [OF _ _ assms(3) _ _ _ made_none, of st ?n ?n'] assms s 4(4) by (simp add: link_addrs_def link_eth_def)
    with True 4 6 show ?thesis by (simp add: one_link_def Let_def)
  next
    case False
    then have x: "oct \<noteq> 0" "x = 2 ^ 24" using s by (auto simp: fits_def elim!: evenE)
    with s have "link_ip4 oct ip ?e ?e' = Inl (NoFreeAddress oct)" by (intro link_ip4_exhausted) auto
    with False 6 show ?thesis by (simp add: one_link_def Let_def)
  qed
qed

lemma makes_loop:
  assumes "p < len" "q < len" "p \<noteq> q"
  shows "makes_links len oct x (replicate n (p, q)) (link_loop n i p q a b oct oct6)"
proof (induction n arbitrary: i x)
  case 0
  have "link_loop 0 i p q a b oct oct6 = Inr" by (rule ext) simp
  then show ?case using makes_none by simp
next
  case (Suc n)
  have "link_loop (Suc n) i p q a b oct oct6 =
      (\<lambda>s. bind_res (one_link p q a b oct oct6 i s) (link_loop n (Suc i) p q a b oct oct6))"
    by (rule ext) simp
  then show ?case using makes_seq [OF makes_one [OF assms] Suc] by simp
qed

lemma makes_createLink:
  assumes "p < len" "q < len" "p \<noteq> q"
  shows "makes_links len oct x (replicate (nat m) (p, q)) (createLink p q a b oct oct6 m)"
  unfolding createLink_def by (rule makes_loop [OF assms])

text \<open>The links of a cell and of the grid, as pairs of device pointers; the first device is at \<open>n0\<close>.\<close>

definition cell_pairs :: "nat \<Rightarrow> nat \<Rightarrow> nat \<Rightarrow> nat \<Rightarrow> (nat \<times> nat) list" where
  "cell_pairs n0 rows cols a =
     (if a mod cols + 1 \<noteq> cols then [(n0 + a, n0 + a + 1)] else [])
     @ (if a div cols + 1 \<noteq> rows then [(n0 + a, n0 + a + cols)] else [])"

definition grid_pairs :: "nat \<Rightarrow> nat \<Rightarrow> nat \<Rightarrow> (nat \<times> nat) list" where
  "grid_pairs n0 rows cols = concat (map (cell_pairs n0 rows cols) [0..<rows * cols])"

definition times :: "nat \<Rightarrow> 'a list \<Rightarrow> 'a list" where
  "times m xs = concat (map (replicate m) xs)"

lemma times_simps [simp]: "times m [] = []" "times m (x # xs) = replicate m x @ times m xs" "times m (xs @ ys) = times m xs @ times m ys"
  by (simp_all add: times_def)

lemma length_times [simp]: "length (times m xs) = m * length xs"
  by (induction xs) auto

lemma makes_cell:
  assumes v: "row v = int rows" "col v = int cols"
    and a: "a < rows * cols" "0 < cols"
    and nodes: "\<And>b. b < rows * cols \<Longrightarrow> nodes ! (b div cols) ! (b mod cols) = b"
    and devs: "\<And>b. b < rows * cols \<Longrightarrow> devs ! b = n0 + b"
  shows "makes_links (n0 + rows * cols) (linkIP4FirstOctet v) x (times (nat (linkMultiplier v)) (cell_pairs n0 rows cols a))
    (cell_links v nodes devs (a div cols, a mod cols))"
proof -
  let ?oct = "linkIP4FirstOctet v" and ?m = "linkMultiplier v" and ?len = "n0 + rows * cols"
  let ?R = "a mod cols + 1 \<noteq> cols" and ?D = "a div cols + 1 \<noteq> rows"
  have R: "a + 1 < rows * cols" if ?R
  proof (rule ccontr)
    assume "\<not> a + 1 < rows * cols"
    with a have "a + 1 = rows * cols" by simp
    then have "(a + 1) mod cols = 0" by simp
    with that a(2) show False by (metis Suc_eq_plus1 mod_Suc nat.distinct(1))
  qed
  have dc: "(a + cols) div cols = a div cols + 1" using a(2) by (intro div_add_self2) simp
  have D: "a + cols < rows * cols" if ?D
  proof -
    have "a div cols < rows" using a by (simp add: less_mult_imp_div_less)
    with dc have "(a + cols) div cols < rows" using that by simp
    then show ?thesis using a(2) by (simp add: div_less_iff_less_mult)
  qed
  let ?link = "\<lambda>b. createLink (devs ! a) (devs ! b) a b ?oct (linkIP6FirstOctet v) ?m"
  let ?r = "\<lambda>s. if ?R then ?link (a + 1) s else Inr s" and ?d = "\<lambda>s. if ?D then ?link (a + cols) s else Inr s"
  have link: "makes_links ?len ?oct x (replicate (nat ?m) (n0 + a, n0 + b)) (?link b)" if "b < rows * cols" "a \<noteq> b" for b x
    using makes_createLink [of "n0 + a" ?len "n0 + b"] that a devs by simp
  have right: "makes_links ?len ?oct x (if ?R then replicate (nat ?m) (n0 + a, n0 + a + 1) else []) ?r" for x
    using link [of "a + 1"] R makes_none by (auto simp: add.assoc)
  have down: "makes_links ?len ?oct x (if ?D then replicate (nat ?m) (n0 + a, n0 + a + cols) else []) ?d" for x
    using link [of "a + cols"] D a(2) makes_none by (auto simp: add.assoc)
  have r: "nodes ! (a div cols) ! (a mod cols + 1) = a + 1" if ?R
  proof -
    have "(a + 1) mod cols = a mod cols + 1" using that by (simp add: mod_Suc)
    moreover from this have "(a + 1) div cols = a div cols" by (simp add: div_Suc)
    ultimately show ?thesis using nodes [OF R [OF that]] by simp
  qed
  have d: "nodes ! (a div cols + 1) ! (a mod cols) = a + cols" if ?D
    using nodes [OF D [OF that]] dc by simp
  have "cell_links v nodes devs (a div cols, a mod cols) = (\<lambda>s. bind_res (?r s) ?d)"
  proof (rule ext)
    fix s
    have "int (a mod cols) + 1 \<noteq> col v \<longleftrightarrow> ?R" "int (a div cols) + 1 \<noteq> row v \<longleftrightarrow> ?D" unfolding v by linarith+
    then show "cell_links v nodes devs (a div cols, a mod cols) s = bind_res (?r s) ?d"
      unfolding cell_links_def Let_def case_prod_conv nodes [OF a(1)]
      by (cases ?R; cases ?D) (simp_all only: r d if_True if_False not_True_eq_False not_False_eq_True)
  qed
  then show ?thesis using makes_seq [OF right down] by (auto simp: cell_pairs_def)
qed


lemma cells_eq: "0 < c \<Longrightarrow> cells r c = map (\<lambda>a. (a div c, a mod c)) [0..<r * c]"
  by (rule nth_equalityI) (simp_all add: cells_def product_nth less_mult_imp_div_less)

lemma makes_grid:
  assumes v: "row v = int rows" "col v = int cols" and c: "0 < cols"
    and nodes: "\<And>b. b < rows * cols \<Longrightarrow> nodes ! (b div cols) ! (b mod cols) = b"
    and devs: "\<And>b. b < rows * cols \<Longrightarrow> devs ! b = n0 + b"
  shows "makes_links (n0 + rows * cols) (linkIP4FirstOctet v) x (times (nat (linkMultiplier v)) (grid_pairs n0 rows cols))
    (links_loop v nodes devs (cells rows cols))"
proof -
  have "makes_links (n0 + rows * cols) (linkIP4FirstOctet v) x
      (times (nat (linkMultiplier v)) (concat (map (cell_pairs n0 rows cols) as)))
      (links_loop v nodes devs (map (\<lambda>a. (a div cols, a mod cols)) as))" if "set as \<subseteq> {..<rows * cols}" for as x
    using that
  proof (induction as arbitrary: x)
    case Nil
    have "links_loop v nodes devs [] = Inr" by (rule ext) simp
    then show ?case using makes_none by simp
  next
    case (Cons a as)
    have "links_loop v nodes devs (map (\<lambda>a. (a div cols, a mod cols)) (a # as)) =
        (\<lambda>s. bind_res (cell_links v nodes devs (a div cols, a mod cols) s)
           (links_loop v nodes devs (map (\<lambda>a. (a div cols, a mod cols)) as)))" by (rule ext) simp
    moreover have "a < rows * cols" using Cons.prems by simp
    ultimately show ?case
      using makes_seq [OF makes_cell [OF v _ c nodes devs] Cons.IH] Cons.prems by simp
  qed
  from this [of "[0..<rows * cols]"] show ?thesis by (simp add: grid_pairs_def cells_eq [OF c] atLeast0LessThan)
qed


section \<open>The devices of the grid\<close>

definition node_dev :: "GridIsisData \<Rightarrow> nat \<Rightarrow> nat \<times> nat \<Rightarrow> sim_device" where
  "node_dev v k rc = last (fst (projr (createSimDev k (systemIDFirstOctet v) (int (fst rc)) (int (snd rc)) (v4StRoute v) (v6StRoute v) (blockName v) [])))"

lemma length_hex: "n < 16 ^ Suc k \<Longrightarrow> length (hex n) \<le> Suc k"
proof (induction k arbitrary: n)
  case 0
  then show ?case by (subst hex.simps) simp
next
  case (Suc k)
  show ?case
  proof (cases "n < 16")
    case False
    have "n div 16 < 16 ^ Suc k" using Suc.prems by (simp add: less_mult_imp_div_less mult.commute)
    from Suc.IH [OF this] False show ?thesis by (subst hex.simps) simp
  qed (subst hex.simps, simp)
qed

lemma length_hex02: "n < 16 ^ 10 \<Longrightarrow> length (hex02 n) \<le> 10"
  using length_hex [of n 9] by (simp add: hex02_def Let_def)

lemma createSimDev_eq:
  assumes "k + 1 < 16 ^ 10"
  shows "createSimDev k (systemIDFirstOctet v) (int r) (int c) (v4StRoute v) (v6StRoute v) (blockName v) st =
    Inr (st @ [node_dev v k (r, c)], length st)"
  using length_hex02 [OF assms] by (simp add: createSimDev_def node_dev_def Let_def)

definition set_nodes :: "(nat \<times> nat \<times> nat) list \<Rightarrow> nat list list \<Rightarrow> nat list list" where
  "set_nodes = fold (\<lambda>(k, r, c) nodes. nodes[r := (nodes ! r)[c := k]])"

lemma node_loop_eq:
  assumes "k + length cs < 16 ^ 10"
  shows "node_loop v cs k nodes devs st =
    Inr (set_nodes (enumerate k cs) nodes, devs @ [length st..<length st + length cs], st @ map (case_prod (node_dev v)) (enumerate k cs))"
  using assms
proof (induction cs arbitrary: k nodes devs st)
  case Nil
  then show ?case by (simp add: set_nodes_def)
next
  case (Cons rc cs)
  obtain r c where rc: "rc = (r, c)" by fastforce
  have u: "length st # [Suc (length st)..<Suc (length st + length cs)] = [length st..<Suc (length st + length cs)]"
    by (simp only: upt_conv_Cons [of "length st" "Suc (length st + length cs)"] less_Suc_eq_le le_add1)
  from Cons show ?case by (simp add: rc createSimDev_eq set_nodes_def u del: upt_Suc)
qed

lemma length_row_update: "length (nodes[i := (nodes ! i)[j := k]] ! r) = length (nodes ! r)"
  by (cases "i < length nodes") (simp_all add: nth_list_update list_update_beyond)

lemma set_nodes_shape:
  "length (set_nodes ks nodes) = length nodes \<and> (\<forall>r < length nodes. length (set_nodes ks nodes ! r) = length (nodes ! r))"
  by (induction ks arbitrary: nodes) (auto simp: set_nodes_def length_row_update)

lemma set_nodes_other:
  "(r, c) \<notin> snd ` set ks \<Longrightarrow> set_nodes ks nodes ! r ! c = nodes ! r ! c"
proof (induction ks arbitrary: nodes)
  case (Cons k ks)
  obtain i r' c' where k: "k = (i, r', c')" using prod_cases3 by blast
  have "nodes[r' := (nodes ! r')[c' := i]] ! r ! c = nodes ! r ! c"
    using Cons.prems by (cases "r' < length nodes") (auto simp: k nth_list_update list_update_beyond)
  with Cons show ?case by (simp add: k set_nodes_def)
qed (simp add: set_nodes_def)

lemma set_nodes_at:
  assumes "distinct (map snd ks)" "(k, r, c) \<in> set ks" "r < length nodes" "c < length (nodes ! r)"
  shows "set_nodes ks nodes ! r ! c = k"
  using assms
proof (induction ks arbitrary: nodes)
  case (Cons x ks)
  obtain i r' c' where x: "x = (i, r', c')" using prod_cases3 by blast
  let ?n = "nodes[r' := (nodes ! r')[c' := i]]"
  have s: "set_nodes (x # ks) nodes = set_nodes ks ?n" by (simp add: set_nodes_def x)
  show ?case
  proof (cases "(k, r, c) = x")
    case True
    with Cons.prems x have "(r, c) \<notin> snd ` set ks" by force
    with True Cons.prems x show ?thesis unfolding s by (simp add: set_nodes_other)
  next
    case False
    have "r < length ?n" "c < length (?n ! r)" using Cons.prems by (simp_all add: length_row_update)
    with False Cons show ?thesis unfolding s by simp
  qed
qed simp

lemma grid_nodes:
  assumes "b < rows * cols" and "0 < cols"
  shows "set_nodes (enumerate 0 (cells rows cols)) (replicate rows (replicate cols 0)) ! (b div cols) ! (b mod cols) = b"
proof (rule set_nodes_at)
  have l: "length (cells rows cols) = rows * cols" by (simp add: cells_def)
  show "distinct (map snd (enumerate 0 (cells rows cols)))" by (simp add: cells_def distinct_product)
  have "cells rows cols ! b = (b div cols, b mod cols)" using assms by (simp add: cells_eq)
  then show "(b, b div cols, b mod cols) \<in> set (enumerate 0 (cells rows cols))"
    using assms l by (auto simp: in_set_enumerate_eq)
qed (use assms in \<open>auto simp: less_mult_imp_div_less\<close>)


section \<open>Invariants of the links\<close>

definition all_paired :: "nat set \<Rightarrow> store \<Rightarrow> bool" where
  "all_paired D st \<longleftrightarrow> (\<forall>p \<in> D. \<forall>e \<in> set (dev_eths (st ! p)). \<exists>q \<in> D. q \<noteq> p \<and> (\<exists>e' \<in> set (dev_eths (st ! q)). paired e e'))"

definition named_eths :: "sim_device \<Rightarrow> bool" where
  "named_eths d \<longleftrightarrow> map eth_name (dev_eths d) = map (\<lambda>k. dev_name d @ ''eth'' @ dec (k + 1)) [0..<length (dev_eths d)]"

definition toward :: "store \<Rightarrow> nat \<Rightarrow> nat \<Rightarrow> nat" where
  "toward st p q = length (filter (\<lambda>e. \<exists>k. eth_remote e = dev_name (st ! q) @ ''eth'' @ dec k) (dev_eths (st ! p)))"

definition grid_addrs :: "nat list \<Rightarrow> store \<Rightarrow> string list" where
  "grid_addrs ps st = concat (map (\<lambda>p. concat (map link_addrs (dev_eths (st ! p)))) ps)"

lemma paired_sym: "paired e e' \<Longrightarrow> paired e' e"
  by (simp add: paired_def)

lemma links_made_paired:
  "links_made ps as st st' \<Longrightarrow> set ps \<subseteq> D \<times> D \<Longrightarrow> all_paired D st \<Longrightarrow> all_paired D st'"
proof (induction rule: links_made.induct)
  case (made_one p st q e e' ps as i' i st')
  let ?st = "add_eth q e' i' (add_eth p e i st)"
  have D: "p \<in> D" "q \<in> D" using made_one.prems by auto
  have "all_paired D ?st"
    unfolding all_paired_def
  proof (intro ballI)
    fix r x
    assume r: "r \<in> D" and x: "x \<in> set (dev_eths (?st ! r))"
    then consider "x \<in> set (dev_eths (st ! r))" | "x = e" "r = p" | "x = e'" "r = q"
      using made_one.hyps by (auto split: if_splits)
    then show "\<exists>q \<in> D. q \<noteq> r \<and> (\<exists>e' \<in> set (dev_eths (?st ! q)). paired x e')"
    proof cases
      case 1
      with made_one.prems r obtain s y where "s \<in> D" "s \<noteq> r" "y \<in> set (dev_eths (st ! s))" "paired x y"
        unfolding all_paired_def by blast
      with made_one.hyps show ?thesis by (intro bexI [of _ s] conjI) auto
    next
      case 2
      with made_one.hyps D show ?thesis by (intro bexI [of _ q] conjI) auto
    next
      case 3
      with made_one.hyps D paired_sym [of e e'] show ?thesis by (intro bexI [of _ p] conjI) auto
    qed
  qed
  with made_one show ?case by auto
qed

lemma named_add: "named_eths d \<Longrightarrow> eth_name e = eth_label d \<Longrightarrow> dev_name d' = dev_name d \<Longrightarrow> dev_eths d' = dev_eths d @ [e] \<Longrightarrow> named_eths d'"
  by (simp add: named_eths_def eth_label_def)

lemma named_same: "named_eths d \<Longrightarrow> dev_name d' = dev_name d \<Longrightarrow> dev_eths d' = dev_eths d \<Longrightarrow> named_eths d'"
  by (simp add: named_eths_def)

lemma links_made_named:
  "links_made ps as st st' \<Longrightarrow> named_eths (st ! r) \<Longrightarrow> named_eths (st' ! r)"
proof (induction rule: links_made.induct)
  case (made_one p st q e e' ps as i' i st')
  let ?st = "add_eth q e' i' (add_eth p e i st)"
  consider "r = p" | "r = q" | "r \<noteq> p" "r \<noteq> q" by blast
  then have "named_eths (?st ! r)"
  proof cases
    case 1
    with made_one.hyps(1-6) made_one.prems show ?thesis by (simp add: named_add [of "st ! p" e])
  next
    case 2
    with made_one.hyps(1-6) made_one.prems show ?thesis by (simp add: named_add [of "st ! q" e'])
  next
    case 3
    with made_one.hyps(1-6) made_one.prems show ?thesis by (simp add: named_same [of "st ! r"])
  qed
  with made_one show ?case by blast
qed

lemma links_made_toward:
  "links_made ps as st st' \<Longrightarrow> set ps \<subseteq> D \<times> D \<Longrightarrow> inj_on (\<lambda>p. dev_name (st ! p)) D \<Longrightarrow> r \<in> D \<Longrightarrow> s \<in> D \<Longrightarrow>
     toward st' r s = toward st r s + length (filter (\<lambda>x. x = (r, s) \<or> x = (s, r)) ps)"
proof (induction rule: links_made.induct)
  case (made_one p st q e e' ps as i' i st')
  let ?st = "add_eth q e' i' (add_eth p e i st)"
  have D: "p \<in> D" "q \<in> D" using made_one.prems by auto
  have e: "eth_remote e = dev_name (st ! q) @ ''eth'' @ dec (length (dev_eths (st ! q)) + 1)"
    "eth_remote e' = dev_name (st ! p) @ ''eth'' @ dec (length (dev_eths (st ! p)) + 1)"
    using made_one.hyps by (simp_all add: paired_def eth_label_def)
  have n: "dev_name (st ! a) = dev_name (st ! b) \<longleftrightarrow> a = b" if "a \<in> D" "b \<in> D" for a b
    using made_one.prems(2) that by (auto dest: inj_onD)
  have k: "(\<exists>k. eth_remote e = dev_name (st ! s) @ ''eth'' @ dec k) \<longleftrightarrow> q = s"
    "(\<exists>k. eth_remote e' = dev_name (st ! s) @ ''eth'' @ dec k) \<longleftrightarrow> p = s"
    unfolding e label_inject using n D made_one.prems by auto
  have "toward ?st r s = toward st r s + (if (p, q) = (r, s) \<or> (p, q) = (s, r) then 1 else 0)"
    using made_one.hyps k by (auto simp: toward_def)
  moreover have "inj_on (\<lambda>p. dev_name (?st ! p)) D" using made_one.prems(2) made_one.hyps by simp
  ultimately show ?case using made_one by auto
qed (simp add: toward_def)

lemma grid_addrs_add:
  assumes "p < length st" "distinct ps" "p \<in> set ps"
  shows "mset (grid_addrs ps (add_eth p e i st)) = mset (grid_addrs ps st) + mset (link_addrs e)"
  using assms(2,3)
proof (induction ps)
  case (Cons r ps)
  have "grid_addrs ps (add_eth p e i st) = grid_addrs ps st" if "p \<notin> set ps"
    using that assms(1) by (auto simp: grid_addrs_def intro!: arg_cong [of _ _ concat])
  with Cons assms(1) show ?case by (auto simp: grid_addrs_def)
qed simp

lemma links_made_addrs:
  "links_made ps as st st' \<Longrightarrow> set ps \<subseteq> set rs \<times> set rs \<Longrightarrow> distinct rs \<Longrightarrow> mset (grid_addrs rs st') = mset (grid_addrs rs st) + mset as"
  by (induction rule: links_made.induct) (auto simp: grid_addrs_add)


section \<open>The pairs of the grid\<close>

lemma cell_pairs_fst: "x \<in> set (cell_pairs n0 rows cols a) \<Longrightarrow> fst x = n0 + a"
  by (auto simp: cell_pairs_def split: if_splits)

lemma distinct_grid_pairs:
  assumes "1 < cols"
  shows "distinct (grid_pairs n0 rows cols)"
proof -
  have "distinct (concat (map (cell_pairs n0 rows cols) as))" if "distinct as" for as
    using that
  proof (induction as)
    case (Cons a as)
    have "distinct (cell_pairs n0 rows cols a)" using assms by (simp add: cell_pairs_def)
    moreover have "set (cell_pairs n0 rows cols a) \<inter> set (concat (map (cell_pairs n0 rows cols) as)) = {}"
      using Cons.prems by (auto dest!: cell_pairs_fst)
    ultimately show ?case using Cons by simp
  qed simp
  then show ?thesis by (simp add: grid_pairs_def)
qed

definition neighbours :: "nat \<Rightarrow> nat \<Rightarrow> nat \<Rightarrow> bool" where
  "neighbours cols a b \<longleftrightarrow>
     a div cols = b div cols \<and> (a mod cols + 1 = b mod cols \<or> b mod cols + 1 = a mod cols)
     \<or> a mod cols = b mod cols \<and> (a div cols + 1 = b div cols \<or> b div cols + 1 = a div cols)"

lemma step_right: "(a :: nat) mod cols + 1 \<noteq> cols \<Longrightarrow> 0 < cols \<Longrightarrow> (a + 1) div cols = a div cols \<and> (a + 1) mod cols = a mod cols + 1"
  by (simp add: mod_Suc div_Suc)

lemma step_down: "0 < cols \<Longrightarrow> ((a :: nat) + cols) div cols = a div cols + 1 \<and> (a + cols) mod cols = a mod cols"
  by (simp add: div_add_self2)

lemma div_mod_eqI: "a div c = b div c \<Longrightarrow> a mod c = b mod c \<Longrightarrow> a = (b :: nat)"
  by (metis div_mult_mod_eq)

lemma in_grid_pairs:
  assumes "1 < cols" "a < rows * cols" "b < rows * cols"
  shows "(n0 + a, n0 + b) \<in> set (grid_pairs n0 rows cols) \<longleftrightarrow>
    a div cols = b div cols \<and> a mod cols + 1 = b mod cols \<or> a mod cols = b mod cols \<and> a div cols + 1 = b div cols"
proof -
  have "(n0 + a, n0 + b) \<in> set (grid_pairs n0 rows cols) \<longleftrightarrow>
      a mod cols + 1 \<noteq> cols \<and> b = a + 1 \<or> a div cols + 1 \<noteq> rows \<and> b = a + cols"
    using assms by (simp add: grid_pairs_def cell_pairs_def image_iff) auto
  also have "a mod cols + 1 \<noteq> cols \<and> b = a + 1 \<longleftrightarrow> a div cols = b div cols \<and> a mod cols + 1 = b mod cols"
  proof
    assume h: "a div cols = b div cols \<and> a mod cols + 1 = b mod cols"
    have "b mod cols < cols" using assms by simp
    with h have n: "a mod cols + 1 \<noteq> cols" by simp
    with h step_right [of a cols] assms have "b = a + 1" by (intro div_mod_eqI [of b cols]) simp_all
    with n show "a mod cols + 1 \<noteq> cols \<and> b = a + 1" by simp
  qed (use step_right [of a cols] assms in auto)
  also have "a div cols + 1 \<noteq> rows \<and> b = a + cols \<longleftrightarrow> a mod cols = b mod cols \<and> a div cols + 1 = b div cols"
  proof
    assume h: "a mod cols = b mod cols \<and> a div cols + 1 = b div cols"
    moreover have "b div cols < rows" using assms by (simp add: less_mult_imp_div_less)
    ultimately show "a div cols + 1 \<noteq> rows \<and> b = a + cols"
      using step_down [of cols a] assms div_mod_eqI [of "a + cols" cols b] by auto
  qed (use step_down [of cols a] assms in auto)
  finally show ?thesis .
qed

lemma filter_times: "length (filter P (times m xs)) = m * length (filter P xs)"
  by (induction xs) (auto simp: filter_replicate)

lemma count_grid_links:
  assumes "1 < cols" "a < rows * cols" "b < rows * cols"
  shows "length (filter (\<lambda>x. x = (n0 + a, n0 + b) \<or> x = (n0 + b, n0 + a)) (grid_pairs n0 rows cols)) = (if neighbours cols a b then 1 else 0)"
proof -
  let ?G = "set (grid_pairs n0 rows cols)"
  have "length (filter P (grid_pairs n0 rows cols)) = card (set (filter P (grid_pairs n0 rows cols)))" for P
    using distinct_grid_pairs [OF assms(1), of n0 rows] by (simp only: distinct_filter distinct_card)
  moreover have "set (filter (\<lambda>x. x = y \<or> x = z) xs) = {y, z} \<inter> set xs" for y z :: "nat \<times> nat" and xs by auto
  ultimately have "length (filter (\<lambda>x. x = (n0 + a, n0 + b) \<or> x = (n0 + b, n0 + a)) (grid_pairs n0 rows cols))
      = card ({(n0 + a, n0 + b), (n0 + b, n0 + a)} \<inter> ?G)"
    by simp
  also have "\<dots> = (if neighbours cols a b then 1 else 0)"
    using in_grid_pairs [OF assms, of n0] in_grid_pairs [OF assms(1,3,2), of n0]
    by (cases "(n0 + a, n0 + b) \<in> ?G"; cases "(n0 + b, n0 + a) \<in> ?G") (simp_all add: neighbours_def, linarith+)
  finally show ?thesis .
qed


section \<open>Distinct devices\<close>

definition hex_value :: "string \<Rightarrow> nat" where
  "hex_value s = fold (\<lambda>c acc. 16 * acc + the (hex_val c)) s 0"

lemma hex_val_digit: "d < 16 \<Longrightarrow> hex_val (hex_digit d) = Some d"
proof -
  have "list_all (\<lambda>d. hex_val (hex_digit d) = Some d) [0..<16]" by code_simp
  then show "d < 16 \<Longrightarrow> hex_val (hex_digit d) = Some d" by (simp add: list_all_iff)
qed

lemma hex_value_hex [simp]: "hex_value (hex n) = n"
proof (induction n rule: less_induct)
  case (less n)
  have "hex_value (s @ [hex_digit d]) = 16 * hex_value s + d" if "d < 16" for s d
    using that by (simp add: hex_value_def hex_val_digit)
  moreover have "hex_value [hex_digit d] = d" if "d < 16" for d
    using that by (simp add: hex_value_def hex_val_digit)
  ultimately show ?case using less [of "n div 16"] by (subst hex.simps) simp
qed

lemma hex_value_pad [simp]: "hex_value (replicate k (CHR ''0'') @ s) = hex_value s"
proof -
  have "hex_val (CHR ''0'') = Some 0" by (simp add: hex_val_def)
  then have "fold (\<lambda>c acc. 16 * acc + the (hex_val c)) (replicate k (CHR ''0'')) 0 = 0" by (induction k) simp_all
  then show ?thesis by (simp add: hex_value_def)
qed

lemma hex_value_hex02 [simp]: "hex_value (hex02 n) = n"
  by (simp add: hex02_def Let_def)

lemma node_dev_simps:
  assumes "k + 1 < 16 ^ 10"
  shows "dev_name (node_dev v k (r, c)) =
      blockName v @ ''_'' @ systemIDFirstOctet v @ ''d'' @ dec (k + 1) @ ''.sim.'' @ itoa (int r) @ ''.'' @ itoa (int c)"
    and "isis_systemId (node_dev v k (r, c)) = systemIDFirstOctet v @ replicate (10 - length (hex02 (k + 1))) (CHR ''0'') @ hex02 (k + 1)"
    and "dev_eths (node_dev v k (r, c)) = []"
  using length_hex02 [OF assms] by (simp_all add: node_dev_def createSimDev_def Let_def)

lemma dec_dot_inject: "dec a @ CHR ''.'' # s = dec b @ CHR ''.'' # t \<Longrightarrow> a = b"
proof -
  have "takeWhile is_digit (dec n @ CHR ''.'' # u) = dec n" for n u
    using takeWhile_append2 [of "dec n" is_digit "CHR ''.'' # u"] dec_digits [of n] by (simp add: list_all_iff is_digit_def)
  then show "dec a @ CHR ''.'' # s = dec b @ CHR ''.'' # t \<Longrightarrow> a = b" by (metis dec_inject)
qed

lemma node_dev_inject:
  assumes "k + 1 < 16 ^ 10" "j + 1 < 16 ^ 10"
  shows "dev_name (node_dev v k x) = dev_name (node_dev v j y) \<Longrightarrow> k = j"
    and "isis_systemId (node_dev v k x) = isis_systemId (node_dev v j y) \<Longrightarrow> k = j"
proof -
  obtain r c r' c' where xy: "x = (r, c)" "y = (r', c')" by fastforce
  show "k = j" if "dev_name (node_dev v k x) = dev_name (node_dev v j y)"
    using that unfolding xy node_dev_simps [OF assms(1)] node_dev_simps [OF assms(2)] by (auto dest: dec_dot_inject)
  show "k = j" if "isis_systemId (node_dev v k x) = isis_systemId (node_dev v j y)"
  proof -
    have "hex_value (replicate (10 - length (hex02 (k + 1))) (CHR ''0'') @ hex02 (k + 1))
        = hex_value (replicate (10 - length (hex02 (j + 1))) (CHR ''0'') @ hex02 (j + 1))"
      using that unfolding xy node_dev_simps [OF assms(1)] node_dev_simps [OF assms(2)] by (simp only: same_append_eq)
    then show ?thesis by simp
  qed
qed


section \<open>The number of links\<close>

lemma length_grid_pairs:
  assumes "0 < rows" "0 < cols"
  shows "length (grid_pairs n0 rows cols) = (cols - 1) * rows + (rows - 1) * cols"
proof -
  let ?r = "\<lambda>a. if a mod cols + 1 \<noteq> cols then 1 else 0 :: nat" and ?d = "\<lambda>a. if a div cols + 1 \<noteq> rows then 1 else 0 :: nat"
  have up: "(\<Sum>j < n. if j + 1 \<noteq> n then m else 0) = (n - 1) * m" for n m :: nat
    proof (cases n)
    case (Suc n')
    have "(\<Sum>j < n'. if j + 1 \<noteq> n then m else 0) = (\<Sum>j < n'. m)" by (intro sum.cong) (simp_all add: Suc)
    then show ?thesis by (simp add: Suc)
  qed simp
  have group: "sum f {..<rows * cols} = (\<Sum>i < rows. \<Sum>j < cols. f (i * cols + j))" for f :: "nat \<Rightarrow> nat"
    unfolding sum.nat_group [symmetric] by (simp add: sum.atLeastLessThan_shift_0 atLeast0LessThan)
  have "length (grid_pairs n0 rows cols) = (\<Sum>a < rows * cols. ?r a + ?d a)"
    by (simp add: grid_pairs_def length_concat comp_def sum_list_sum_nth atLeast0LessThan) (intro sum.cong, auto simp: cell_pairs_def)
  also have "\<dots> = (\<Sum>i < rows. \<Sum>j < cols. if j + 1 \<noteq> cols then 1 else 0) + (\<Sum>i < rows. \<Sum>j < cols. if i + 1 \<noteq> rows then 1 else 0)"
    unfolding sum.distrib group by (intro arg_cong2 [of _ _ _ _ plus] sum.cong) simp_all
  also have "(\<Sum>i < rows. \<Sum>j < cols. if j + 1 \<noteq> cols then 1 else 0) = (cols - 1) * rows"
    unfolding up by simp
  also have "(\<Sum>i < rows. \<Sum>j < cols. if i + 1 \<noteq> rows then 1 else 0) = (\<Sum>i < rows. if i + 1 \<noteq> rows then cols else 0)"
    by (intro sum.cong) auto
  also have "\<dots> = (rows - 1) * cols" unfolding up ..
  finally show ?thesis .
qed

lemma ip_at_first:
  assumes "0 \<le> oct" "oct < 256"
  shows "ip_at oct 0 (ParseIP (itoa oct @ ''.0.0.0''))"
proof -
  obtain w where w: "oct = int w" "w < 256" using assms by (metis nat_0_le nat_less_numeral_power_cancel_iff of_nat_less_numeral_iff zero_le_imp_eq_int)
  let ?bs = "[of_nat w, 0, 0, 0] :: byte list"
  have "dec 0 = ''0''" by code_simp
  moreover have "unat (of_nat w :: byte) = w" using w by (simp add: unat_of_nat)
  ultimately have "itoa oct @ ''.0.0.0'' = ipv4_string ?bs" by (simp add: itoa_def w ipv4_string_def)
  then have "ParseIP (itoa oct @ ''.0.0.0'') = v4InV6Prefix @ ?bs" by (simp add: ParseIP_ipv4_string)
  moreover have "nat_to_be 4 (w * 2 ^ 24) = ?bs" using w(2) by (simp add: nat_to_be_numeral)
  moreover have "w * 2 ^ 24 < 2 ^ 32" using w by simp
  ultimately show ?thesis using w by (auto simp: ip_at_def v4_ip_prefix)
qed


section \<open>The generated topology\<close>

definition grid_in :: "nat \<Rightarrow> nat \<Rightarrow> nat \<Rightarrow> nat \<Rightarrow> GridIsisTopo \<Rightarrow> store \<Rightarrow> bool" where
  "grid_in n0 rows cols m topo st \<longleftrightarrow>
     length st = n0 + rows * cols
     \<and> (\<forall>r < rows. \<forall>c < cols. Device topo r c = Inr (n0 + (r * cols + c)))
     \<and> distinct (map dev_name (drop n0 st)) \<and> distinct (map isis_systemId (drop n0 st))
     \<and> distinct (concat (map (\<lambda>d. map eth_name (dev_eths d)) (drop n0 st)))
     \<and> all_paired {n0..<n0 + rows * cols} st
     \<and> (\<forall>a < rows * cols. \<forall>b < rows * cols. toward st (n0 + a) (n0 + b) = (if neighbours cols a b then m else 0))"

lemma distinct_map_drop:
  assumes "inj_on (\<lambda>p. f (st ! p)) {n..<length st}"
  shows "distinct (map f (drop n st))"
proof -
  have "map f (drop n st) = map (\<lambda>p. f (st ! p)) [n..<length st]" by (rule nth_equalityI) auto
  with assms show ?thesis by (simp add: distinct_map)
qed

lemma distinct_eth_names:
  assumes "distinct (map dev_name ds)" "list_all named_eths ds"
  shows "distinct (concat (map (\<lambda>d. map eth_name (dev_eths d)) ds))"
  using assms
proof (induction ds)
  case (Cons d ds)
  have n: "map eth_name (dev_eths x) = map (\<lambda>k. dev_name x @ ''eth'' @ dec (k + 1)) [0..<length (dev_eths x)]"
    if "x \<in> set (d # ds)" for x
    using that Cons.prems(2) by (auto simp: list_all_iff named_eths_def)
  have d: "distinct (map eth_name (dev_eths d))"
    unfolding n [OF list.set_intros(1)] by (simp add: distinct_map inj_on_def)
  have lbl: "\<exists>k. a = dev_name x @ ''eth'' @ dec k" if "a \<in> set (map eth_name (dev_eths x))" "x \<in> set (d # ds)" for a x
    using that(1) unfolding n [OF that(2)] by auto
  have "set (map eth_name (dev_eths d)) \<inter> set (map eth_name (dev_eths x)) = {}" if "x \<in> set ds" for x
  proof -
    have "dev_name x \<noteq> dev_name d" using Cons.prems(1) imageI [OF that, of dev_name] by auto
    with lbl [of _ x] lbl [of _ d] that show ?thesis by (metis disjoint_iff label_inject list.set_intros)
  qed
  with d show ?case using Cons by auto
qed simp

lemma grid_pairs_range:
  assumes "x \<in> set (times m (grid_pairs n0 rows cols))" "0 < cols"
  shows "x \<in> {n0..<n0 + rows * cols} \<times> {n0..<n0 + rows * cols}"
proof -
  have "x \<in> set (grid_pairs n0 rows cols)" using assms(1) by (auto simp: times_def split: if_splits)
  then obtain a where a: "a < rows * cols" "x \<in> set (cell_pairs n0 rows cols a)" by (auto simp: grid_pairs_def)
  have "a + 1 < rows * cols" if "a mod cols + 1 \<noteq> cols"
  proof -
    have "(a + 1) div cols = a div cols" using step_right [OF that assms(2)] by simp
    then have "(a + 1) div cols < rows" using a by (simp add: less_mult_imp_div_less)
    then show ?thesis using assms(2) by (simp add: div_less_iff_less_mult)
  qed
  moreover have "a + cols < rows * cols" if "a div cols + 1 \<noteq> rows"
  proof -
    have "(a + cols) div cols < rows" using step_down [OF assms(2), of a] a that less_mult_imp_div_less [of a rows cols] by simp
    then show ?thesis using assms(2) by (simp add: div_less_iff_less_mult)
  qed
  ultimately show ?thesis using a by (auto simp: cell_pairs_def split: if_splits)
qed

lemma links_made_grid:
  fixes st :: store
  assumes made: "links_made (times m (grid_pairs n0 rows cols)) as st st'"
    and len: "length st = n0 + rows * cols" "1 < cols"
    and new: "\<And>a. a < rows * cols \<Longrightarrow> dev_eths (st ! (n0 + a)) = []"
    and inj: "inj_on (\<lambda>p. dev_name (st ! p)) {n0..<n0 + rows * cols}" "inj_on (\<lambda>p. isis_systemId (st ! p)) {n0..<n0 + rows * cols}"
    and dev: "\<And>r c. r < rows \<Longrightarrow> c < cols \<Longrightarrow> Device topo r c = Inr (n0 + (r * cols + c))"
  shows "grid_in n0 rows cols m topo st'"
    and "mset (grid_addrs [n0..<n0 + rows * cols] st') = mset as"
    and "take n0 st' = take n0 st"
proof -
  let ?D = "{n0..<n0 + rows * cols}"
  have new': "dev_eths (st ! p) = []" if "p \<in> ?D" for p
    using new [of "p - n0"] that by auto
  have sub: "set (times m (grid_pairs n0 rows cols)) \<subseteq> ?D \<times> ?D" using grid_pairs_range len by (intro subsetI) auto
  note same = links_made_same [OF made]
  have "distinct (map dev_name (drop n0 st'))" "distinct (map isis_systemId (drop n0 st'))"
    using inj by (auto intro!: distinct_map_drop simp: same len)
  moreover have "list_all named_eths (drop n0 st')"
    unfolding list_all_length
  proof (intro allI impI)
    fix k
    assume "k < length (drop n0 st')"
    then have "k < rows * cols" by (simp add: same len)
    then have "named_eths (st' ! (n0 + k))" by (intro links_made_named [OF made]) (simp add: named_eths_def new)
    then show "named_eths (drop n0 st' ! k)" using same len by simp
  qed
  moreover have "all_paired ?D st'"
    by (rule links_made_paired [OF made sub]) (simp add: all_paired_def new')
  moreover have "toward st' (n0 + a) (n0 + b) = (if neighbours cols a b then m else 0)" if "a < rows * cols" "b < rows * cols" for a b
    using links_made_toward [OF made sub inj(1), of "n0 + a" "n0 + b"] that new count_grid_links [OF len(2) that, of n0]
    by (simp add: filter_times toward_def)
  ultimately show "grid_in n0 rows cols m topo st'"
    unfolding grid_in_def by (auto simp: same len dev distinct_eth_names)
  have "grid_addrs [n0..<n0 + rows * cols] st = []" by (simp add: grid_addrs_def new')
  then show "mset (grid_addrs [n0..<n0 + rows * cols] st') = mset as"
    using links_made_addrs [OF made, of "[n0..<n0 + rows * cols]"] sub by simp
  show "take n0 st' = take n0 st"
    by (rule nth_equalityI) (use sub in \<open>auto simp: same len intro!: same(4)\<close>)
qed

lemma node_loop_grid:
  fixes st :: store and v :: GridIsisData
  assumes size: "0 < cols" "rows * cols < 16 ^ 10"
  defines "nodes \<equiv> set_nodes (enumerate 0 (cells rows cols)) (replicate rows (replicate cols 0))"
    and "devs \<equiv> [length st..<length st + rows * cols]"
    and "st1 \<equiv> st @ map (case_prod (node_dev v)) (enumerate 0 (cells rows cols))"
    and "D \<equiv> {length st..<length st + rows * cols}"
  shows "node_loop v (cells rows cols) 0 (replicate rows (replicate cols 0)) [] st = Inr (nodes, devs, st1)"
    and "length st1 = length st + rows * cols"
    and "a < rows * cols \<Longrightarrow> dev_eths (st1 ! (length st + a)) = []"
    and "inj_on (\<lambda>p. dev_name (st1 ! p)) D" "inj_on (\<lambda>p. isis_systemId (st1 ! p)) D"
    and "r < rows \<Longrightarrow> c < cols \<Longrightarrow>
      Device \<lparr>gridNodes = nodes, devices = devs, topo_IP4FirstOctet = o4, topo_IP6FirstOctet = o6, topo_linkMultiplier = m, topo_blockName = b\<rparr> r c
      = Inr (length st + (r * cols + c))"
proof -
  have l: "length (cells rows cols) = rows * cols" by (simp add: cells_def)
  show "node_loop v (cells rows cols) 0 (replicate rows (replicate cols 0)) [] st = Inr (nodes, devs, st1)"
    using size l by (simp add: node_loop_eq nodes_def devs_def st1_def)
  show "length st1 = length st + rows * cols" by (simp add: st1_def l)
  have at: "st1 ! (length st + a) = node_dev v a (a div cols, a mod cols)" if "a < rows * cols" for a
    using that size by (simp add: st1_def l nth_append nth_enumerate_eq cells_eq)
  show "dev_eths (st1 ! (length st + a)) = []" if "a < rows * cols" for a
    using that size by (simp add: at node_dev_simps)
  have D: "\<exists>a < rows * cols. p = length st + a" if "p \<in> D" for p
    using that by (intro exI [of _ "p - length st"]) (auto simp: D_def)
  have inj: "inj_on (\<lambda>p. f (st1 ! p)) D"
    if "\<And>a b x y. a < rows * cols \<Longrightarrow> b < rows * cols \<Longrightarrow> f (node_dev v a x) = f (node_dev v b y) \<Longrightarrow> a = b"
    for f :: "sim_device \<Rightarrow> string"
  proof (rule inj_onI)
    fix p q
    assume "p \<in> D" "q \<in> D" and eq: "f (st1 ! p) = f (st1 ! q)"
    then obtain a b where "a < rows * cols" "b < rows * cols" "p = length st + a" "q = length st + b" using D by meson
    with that [of a b] eq at show "p = q" by simp
  qed
  show "inj_on (\<lambda>p. dev_name (st1 ! p)) D" "inj_on (\<lambda>p. isis_systemId (st1 ! p)) D"
    by (rule inj, rule node_dev_inject [of _ _ v], use size in auto)+
  assume rc: "r < rows" "c < cols"
  then have "(r + 1) * cols \<le> rows * cols" by (intro mult_right_mono) auto
  with rc have a: "r * cols + c < rows * cols" by simp
  have "nodes ! r ! c = r * cols + c"
    using grid_nodes [OF a] rc unfolding nodes_def by simp
  moreover have "length nodes = rows" "length (nodes ! r) = cols"
    using set_nodes_shape [of "enumerate 0 (cells rows cols)" "replicate rows (replicate cols 0)"] rc by (simp_all add: nodes_def)
  ultimately show "Device \<lparr>gridNodes = nodes, devices = devs, topo_IP4FirstOctet = o4, topo_IP6FirstOctet = o6, topo_linkMultiplier = m, topo_blockName = b\<rparr> r c
      = Inr (length st + (r * cols + c))"
    using rc a by (simp add: Device_def devs_def)
qed

lemma generate_grid:
  fixes st :: store
  assumes size: "row v = int rows" "col v = int cols" "2 \<le> rows" "rows \<le> 255" "2 \<le> cols" "cols \<le> 255"
    and id: "systemIDFirstOctet v \<noteq> []" and oct: "0 \<le> oct" "oct < 256"
    and links: "links = nat (linkMultiplier v) * ((cols - 1) * rows + (rows - 1) * cols)"
  shows "if oct = 0 \<or> 2 * links \<le> 2 ^ 24
    then \<exists>topo v' st'. GenerateTopology (SetLinkIP4FirstOctet oct v) st = Inr (topo, v', st')
      \<and> grid_in (length st) rows cols (nat (linkMultiplier v)) topo st' \<and> take (length st) st' = st
      \<and> mset (grid_addrs [length st..<length st + rows * cols] st') = mset (block_addrs oct 0 (2 * links))
      \<and> ip_at oct (2 * links) (nextLinkIP4ToUse v') \<and> topo_IP4FirstOctet topo = oct
    else GenerateTopology (SetLinkIP4FirstOctet oct v) st = Inl (NoFreeAddress oct)"
proof -
  let ?v = "SetLinkIP4FirstOctet oct v" and ?ps = "times (nat (linkMultiplier v)) (grid_pairs (length st) rows cols)"
  let ?cs = "cells rows cols"
  have "rows * cols \<le> 255 * 255" using size by (intro mult_mono) auto
  then have c: "0 < cols" "rows * cols < 16 ^ 10" "1 < cols" using size by auto
  define nodes where "nodes = set_nodes (enumerate 0 ?cs) (replicate rows (replicate cols 0))"
  define devs where "devs = [length st..<length st + rows * cols]"
  define st1 where "st1 = st @ map (case_prod (node_dev ?v)) (enumerate 0 ?cs)"
  note N = node_loop_grid(1-5) [where v = ?v and st = st, OF c(1,2), folded nodes_def devs_def st1_def]
    node_loop_grid(6) [where st = st, OF c(1,2), folded nodes_def devs_def]
  have v: "row ?v = int rows" "col ?v = int cols" "linkIP4FirstOctet ?v = oct" "linkMultiplier ?v = linkMultiplier v"
    using size by (simp_all add: SetLinkIP4FirstOctet_def)
  have gen: "GenerateTopology ?v st = bind_res (links_loop ?v nodes devs ?cs (st1, nextLinkIP4ToUse ?v)) (\<lambda>(st, ip).
      Inr (\<lparr>gridNodes = nodes, devices = devs, topo_IP4FirstOctet = linkIP4FirstOctet ?v, topo_IP6FirstOctet = linkIP6FirstOctet ?v,
             topo_linkMultiplier = linkMultiplier ?v, topo_blockName = blockName ?v\<rparr>,
           ?v\<lparr>nextLinkIP4ToUse := ip\<rparr>, st))"
    using size id N(1) by (simp add: GenerateTopology_def v) (simp add: SetLinkIP4FirstOctet_def)
  have "makes_links (length st1) oct 0 ?ps (links_loop ?v nodes devs ?cs)"
    using makes_grid [OF v(1,2) c(1), of nodes devs "length st" 0] grid_nodes [OF _ c(1)] N(2) v(3,4)
    by (simp add: nodes_def devs_def)
  moreover have "ip_at oct 0 (nextLinkIP4ToUse ?v)" using ip_at_first [OF oct] by (simp add: SetLinkIP4FirstOctet_def)
  moreover have "length ?ps = links" using length_grid_pairs [of rows cols] size links by simp
  ultimately have run: "fits oct (2 * links) \<Longrightarrow> \<exists>st' ip'. links_loop ?v nodes devs ?cs (st1, nextLinkIP4ToUse ?v) = Inr (st', ip')
      \<and> links_made ?ps (block_addrs oct 0 (2 * links)) st1 st' \<and> ip_at oct (2 * links) ip'"
    and stop: "\<not> fits oct (2 * links) \<Longrightarrow> links_loop ?v nodes devs ?cs (st1, nextLinkIP4ToUse ?v) = Inl (NoFreeAddress oct)"
    using makes_linksD [of st1 oct 0 ?ps "links_loop ?v nodes devs ?cs" "nextLinkIP4ToUse ?v"] by (auto simp: fits_def)
  show ?thesis
  proof (cases "fits oct (2 * links)")
    case True
    with run obtain st' ip' where r: "links_loop ?v nodes devs ?cs (st1, nextLinkIP4ToUse ?v) = Inr (st', ip')"
      "links_made ?ps (block_addrs oct 0 (2 * links)) st1 st'" "ip_at oct (2 * links) ip'" by blast
    have t: "take (length st) st1 = st" by (simp add: st1_def)
    from links_made_grid [OF r(2) N(2) c(3) N(3,4,5,6)] True r(1,3) t show ?thesis by (simp add: gen fits_def v(3))
  next
    case False
    with stop show ?thesis by (simp add: gen fits_def)
  qed
qed

text \<open>C14: The grid generator, for any size the code accepts and any first octet: when the links of the grid fit in the
  block (two addresses a link, \<open>2 ^ 24\<close> addresses in a /8), it succeeds, the configuration keeps its devices and gains
  exactly the grid - devices with distinct names and system IDs, found at their row and column, distinct
  interface names, \<open>linkMultiplier\<close> links between neighbours and no link between other devices, each interface
  paired with one of another device - and the links use the first addresses of the block, each once. Otherwise it
  reports that no address is free.\<close>

theorem GenerateTopology_grid:
  fixes st :: store
  assumes size: "row v = int rows" "col v = int cols" "2 \<le> rows" "rows \<le> 255" "2 \<le> cols" "cols \<le> 255"
    and id: "systemIDFirstOctet v \<noteq> []" and oct: "0 \<le> oct" "oct < 256"
    and links: "links = nat (linkMultiplier v) * ((cols - 1) * rows + (rows - 1) * cols)"
  shows "if oct = 0 \<or> 2 * links \<le> 2 ^ 24
    then \<exists>topo v' st'. GenerateTopology (SetLinkIP4FirstOctet oct v) st = Inr (topo, v', st')
      \<and> grid_in (length st) rows cols (nat (linkMultiplier v)) topo st' \<and> take (length st) st' = st
      \<and> mset (grid_addrs [length st..<length st + rows * cols] st') = mset (block_addrs oct 0 (2 * links))
    else GenerateTopology (SetLinkIP4FirstOctet oct v) st = Inl (NoFreeAddress oct)"
  using generate_grid [OF assms, of st] by (auto split: if_splits)

theorem GenerateTopology_grid_witness:
  "\<exists>topo v' st'. GenerateTopology (SetLinkIP4FirstOctet 10
       (NewGridIsisData\<lparr>row := 3, col := 2, systemIDFirstOctet := ''64'', linkMultiplier := 2\<rparr>)) [] = Inr (topo, v', st')
     \<and> grid_in 0 3 2 2 topo st' \<and> mset (grid_addrs [0..<6] st') = mset (block_addrs 10 0 28)"
  using GenerateTopology_grid [of "NewGridIsisData\<lparr>row := 3, col := 2, systemIDFirstOctet := ''64'', linkMultiplier := 2\<rparr>" 3 2 10 14 "[]"]
  by (auto simp: NewGridIsisData_def)

end
