(* ===== verification/Isis_Scale.thy ===== *)
theory Isis_Scale
  imports Isis_Grid
begin

text \<open>
  \<^verbatim>\<open>internal/otg_helpers/otg_config_helpers/otgisistopology.go\<close> and the computing part of
  \<^verbatim>\<open>internal/isisscale/isisscale.go\<close>: the traffic generator side of the IS-IS scale tests.

  A traffic generator configuration is its ports, LAGs, devices (the store of \<open>Isis_Grid\<close>) and layer 1
  settings. The port of the test bed with a given name is a parameter: \<open>None\<close> ends the test, \<open>Some fr\<close> is a
  port that is or is not of type 100GBASE-FR; its identifier is its name. Go maps are lists in the order the
  runtime iterates them. \<^verbatim>\<open>t.Fatalf\<close> is an error value. What a device reports is an argument.

  The theorems: the flows of a test leave and enter on interfaces of the configuration and are sent to link
  addresses of the generated grid only; the sub-interfaces get distinct VLANs, names and consecutive /30 blocks;
  the interfaces with IS-IS enabled lead back to the LAGs; the traffic check.
\<close>

section \<open>Data\<close>

record Pfx =
  FirstOctet :: string
  PfxLen :: int
  pfx_Count :: int

record ISISOTGBlock =
  blk_Name :: string
  Col :: int
  Row :: int
  ISISIDFirstOct :: string
  LinkIP4FirstOct :: int
  V4Pfx :: Pfx
  V6Pfx :: Pfx
  LinkMultiplier :: int

record AteEmulatedRouterData =
  er_Name :: string
  DUTIPv4 :: string
  ATEIPv4 :: string
  LinkIPv4PLen :: int
  DUTIPv6 :: string
  ATEIPv6 :: string
  LinkIPv6PLen :: int
  EthMAC :: string
  ISISAreaAddress :: string
  ISISSysID :: string
  er_VlanID :: int
  ISISBlocks :: "ISISOTGBlock list"
  ISISLSPRefreshInterval :: int
  ISISSPLifetime :: int

record ATEPortData =
  port_Name :: string
  port_Mac :: string
  OndatraPortIdx :: int

record ATELagData =
  lag_Name :: string
  lag_Mac :: string
  lag_Ports :: "ATEPortData list"
  Erouters :: "AteEmulatedRouterData list"

record ATEData =
  Lags :: "ATELagData list"
  TrafficFlowsMap :: "(AteEmulatedRouterData \<times> AteEmulatedRouterData list) list"
  ConfigureISIS :: bool

record otg_flow =
  flow_name :: string
  flow_tx :: string
  flow_rx :: string
  flow_vlan :: "32 word option"
  flow_src :: string
  flow_srcCount :: "32 word"
  flow_dst :: string
  flow_dstCount :: "32 word"

record otg_lag =
  olag_name :: string
  olag_systemId :: string
  olag_ports :: "(string \<times> string \<times> string) list"

record otg_config =
  cfg_ports :: "string list"
  cfg_lags :: "otg_lag list"
  cfg_devices :: store
  cfg_layer1 :: "string list list"

datatype ate_error = NoSuchPort string | GridFailed grid_error


section \<open>Flows\<close>

definition createAppendIPV4Flow ::
  "string \<Rightarrow> string \<Rightarrow> int \<Rightarrow> string \<Rightarrow> int \<Rightarrow> string \<Rightarrow> string \<Rightarrow> 32 word \<Rightarrow> otg_flow" where
  "createAppendIPV4Flow flowName srcIP srcCount dstIP dstCount srcEmulatedRouter dstEmulatedRouter srcVlanID =
     \<lparr>flow_name = flowName, flow_tx = srcEmulatedRouter @ ''.IPv4'', flow_rx = dstEmulatedRouter @ ''.IPv4'',
      flow_vlan = (if srcVlanID \<noteq> 0 then Some srcVlanID else None),
      flow_src = srcIP, flow_srcCount = of_int srcCount, flow_dst = dstIP, flow_dstCount = of_int dstCount\<rparr>"

definition createAllTrafficFlows ::
  "AteEmulatedRouterData \<Rightarrow> AteEmulatedRouterData \<Rightarrow> ISISOTGBlock list \<Rightarrow> otg_flow list" where
  "createAllTrafficFlows srcEmulatedRouter dstEmulatedRouter dstBlocks =
     map (\<lambda>b. let linkCount = ((Col b - 1) * Row b + (Row b - 1) * Col b) * LinkMultiplier b * 2 in
            createAppendIPV4Flow (er_Name srcEmulatedRouter @ ''_to_'' @ blk_Name b @ ''_Flow'')
              (ATEIPv4 srcEmulatedRouter) 1 (itoa (LinkIP4FirstOct b) @ ''.0.0.0'') linkCount
              (er_Name srcEmulatedRouter @ ''.Eth1'') (er_Name dstEmulatedRouter @ ''.Eth1'')
              (of_int (er_VlanID srcEmulatedRouter))) dstBlocks"

definition AppendTrafficFlows :: "ATEData \<Rightarrow> otg_flow list \<Rightarrow> otg_flow list" where
  "AppendTrafficFlows a flows =
     fold (\<lambda>(s, ds) fs. fold (\<lambda>d fs. fs @ createAllTrafficFlows s d (ISISBlocks d)) ds fs) (TrafficFlowsMap a) flows"


section \<open>Blocks and emulated routers\<close>

definition block_data :: "ISISOTGBlock \<Rightarrow> GridIsisData" where
  "block_data block =
     (let gridSt = SetBlockName (blk_Name block) (SetLinkMultiplier (LinkMultiplier block)
            (SetLinkIP4FirstOctet (LinkIP4FirstOct block) (SetSystemIDFirstOctet (ISISIDFirstOct block)
              (SetCol (Col block) (SetRow (Row block) NewGridIsisData)))));
          route = (\<lambda>p r. r\<lparr>addressFirstOctet := FirstOctet p, rt_prefix := PfxLen p, rt_count := pfx_Count p\<rparr>);
          gridSt = (if FirstOctet (V4Pfx block) \<noteq> [] then V4RouteInfo (route (V4Pfx block)) gridSt else gridSt) in
      if FirstOctet (V6Pfx block) \<noteq> [] then V6RouteInfo (route (V6Pfx block)) gridSt else gridSt)"

definition createISISBlock :: "ISISOTGBlock \<Rightarrow> nat \<Rightarrow> store \<Rightarrow> (grid_error, store) res" where
  "createISISBlock block emulatedRouterIdx st =
     bind_res (GenerateTopology (block_data block) st) (\<lambda>(gridTopo, gridSt, st).
       if emulatedRouterIdx < length st
       then bind_res (Connect gridTopo emulatedRouterIdx 0 1 (st, nextLinkIP4ToUse gridSt)) (\<lambda>(st, ip). Inr st)
       else Inl GridPanic)"

definition configureOTGISIS :: "AteEmulatedRouterData \<Rightarrow> sim_device \<Rightarrow> sim_device" where
  "configureOTGISIS eRouter dev =
     dev\<lparr>isis_systemId := ISISSysID eRouter, isis_name := er_Name eRouter @ ''_IXIA_Emulated'',
         isis_hostname := er_Name eRouter @ ''_IXIA_Emulated'', isis_areas := [ISISAreaAddress eRouter],
         isis_lspRefreshRate := (if ISISLSPRefreshInterval eRouter \<noteq> 0 then Some (of_int (ISISLSPRefreshInterval eRouter))
                                 else isis_lspRefreshRate dev),
         isis_lspLifetime := (if ISISSPLifetime eRouter \<noteq> 0 then Some (of_int (ISISSPLifetime eRouter)) else isis_lspLifetime dev),
         isis_intfs := isis_intfs dev @ [\<lparr>intf_name = er_Name eRouter @ ''.ISISInt'', intf_eth = eth_name (hd (dev_eths dev))\<rparr>]\<rparr>"

definition emulatedRouter :: "string \<Rightarrow> AteEmulatedRouterData \<Rightarrow> sim_device" where
  "emulatedRouter agg er =
     \<lparr>dev_name = er_Name er,
      dev_eths = [\<lparr>eth_name = er_Name er @ ''.Eth'', eth_mac = EthMAC er, eth_lag = agg,
        eth_vlans = (if er_VlanID er \<noteq> 0 then [(er_Name er @ ''.Eth1'' @ ''.VLAN'', of_int (er_VlanID er))] else []),
        eth_remote = [],
        eth_v4 = [\<lparr>ip_name = er_Name er @ ''.Eth1'' @ ''.IPv4'', ip_addr = ATEIPv4 er, ip_gateway = DUTIPv4 er, ip_plen = Some (unat (of_int (LinkIPv4PLen er) :: 32 word))\<rparr>],
        eth_v6 = [\<lparr>ip_name = er_Name er @ ''.Eth1'' @ ''.IPv6'', ip_addr = ATEIPv6 er, ip_gateway = DUTIPv6 er, ip_plen = Some (unat (of_int (LinkIPv6PLen er) :: 32 word))\<rparr>]\<rparr>],
      isis_name = [], isis_systemId = [], isis_hostname = [], isis_teRouterId = [], isis_areas = [], isis_lspRefreshRate = None, isis_lspLifetime = None,
      isis_intfs = [], isis_v4routes = [], isis_v6routes = []\<rparr>"

fun block_loop :: "ISISOTGBlock list \<Rightarrow> nat \<Rightarrow> store \<Rightarrow> (grid_error, store) res" where
  "block_loop [] idx st = Inr st"
| "block_loop (b # bs) idx st = bind_res (createISISBlock b idx st) (block_loop bs idx)"

fun erouter_loop :: "bool \<Rightarrow> string \<Rightarrow> AteEmulatedRouterData list \<Rightarrow> store \<Rightarrow> (grid_error, store) res" where
  "erouter_loop isis agg [] st = Inr st"
| "erouter_loop isis agg (er # ers) st =
     bind_res (if isis then block_loop (ISISBlocks er) (length st) (st @ [configureOTGISIS er (emulatedRouter agg er)])
               else Inr (st @ [emulatedRouter agg er]))
       (erouter_loop isis agg ers)"


section \<open>The configuration of the traffic generator\<close>

definition port_id :: "ATEPortData \<Rightarrow> string" where
  "port_id p = ''port'' @ itoa (OndatraPortIdx p + 1)"

fun member_loop ::
  "(string \<Rightarrow> bool option) \<Rightarrow> nat \<Rightarrow> string \<Rightarrow> ATEPortData list \<Rightarrow> string list \<times> (string \<times> string \<times> string) list \<times> string list \<Rightarrow>
     (ate_error, string list \<times> (string \<times> string \<times> string) list \<times> string list) res" where
  "member_loop port i lag [] s = Inr s"
| "member_loop port i lag (p # ps) (ports, members, fr) =
     (case port (port_id p) of
        None \<Rightarrow> Inl (NoSuchPort (port_id p))
      | Some is_fr \<Rightarrow>
          member_loop port i lag ps
            (ports @ [port_id p], members @ [(port_id p, port_Mac p, lag @ ''.'' @ dec (i + 1))], if is_fr then fr @ [port_id p] else fr))"

definition lag_step ::
  "(string \<Rightarrow> bool option) \<Rightarrow> bool \<Rightarrow> nat \<Rightarrow> ATELagData \<Rightarrow> otg_config \<times> string list \<Rightarrow> (ate_error, otg_config \<times> string list) res" where
  "lag_step port isis i l = (\<lambda>(cfg, fr).
     bind_res (member_loop port i (lag_Name l) (lag_Ports l) (cfg_ports cfg, [], fr)) (\<lambda>(ports, members, fr).
       case erouter_loop isis (lag_Name l) (Erouters l) (cfg_devices cfg) of
         Inl e \<Rightarrow> Inl (GridFailed e)
       | Inr devs \<Rightarrow> Inr (cfg\<lparr>cfg_ports := ports,
           cfg_lags := cfg_lags cfg @ [\<lparr>olag_name = lag_Name l, olag_systemId = lag_Mac l, olag_ports = members\<rparr>],
           cfg_devices := devs\<rparr>, fr)))"

fun lag_loop ::
  "(string \<Rightarrow> bool option) \<Rightarrow> bool \<Rightarrow> nat \<Rightarrow> ATELagData list \<Rightarrow> otg_config \<times> string list \<Rightarrow> (ate_error, otg_config \<times> string list) res" where
  "lag_loop port isis i [] s = Inr s"
| "lag_loop port isis i (l # ls) s = bind_res (lag_step port isis i l s) (lag_loop port isis (Suc i) ls)"

definition ConfigureATE :: "(string \<Rightarrow> bool option) \<Rightarrow> ATEData \<Rightarrow> (ate_error, otg_config) res" where
  "ConfigureATE port ateData =
     bind_res (lag_loop port (ConfigureISIS ateData) 0 (Lags ateData) (\<lparr>cfg_ports = [], cfg_lags = [], cfg_devices = [], cfg_layer1 = []\<rparr>, []))
       (\<lambda>(st, fr). Inr (if fr \<noteq> [] then st\<lparr>cfg_layer1 := cfg_layer1 st @ [fr]\<rparr> else st))"


section \<open>Scale test data\<close>

definition CalculateRoutesCount :: "ISISOTGBlock \<Rightarrow> string \<Rightarrow> int" where
  "CalculateRoutesCount isisBlocks afi =
     (let nodeCount = Col isisBlocks * Row isisBlocks;
          linkCount = LinkMultiplier isisBlocks * (((Col isisBlocks - 1) * Row isisBlocks) + (Col isisBlocks * (Row isisBlocks - 1)));
          attachedIpv4Count = pfx_Count (V4Pfx isisBlocks);
          attachedIpv6Count = pfx_Count (V6Pfx isisBlocks) in
      if afi = ''ipv4'' then nodeCount + linkCount + (attachedIpv4Count * nodeCount)
      else if afi = ''ipv6'' then attachedIpv6Count * nodeCount
      else 0)"

definition otgMAC :: "int \<Rightarrow> nat \<Rightarrow> string" where
  "otgMAC ln k = (let n = itoa ln @ ''0'' in ''02:55:'' @ n @ '':'' @ n @ '':'' @ n @ '':0'' @ dec k)"

definition CreateATEData :: "(int \<times> AteEmulatedRouterData list) list \<Rightarrow> ATEData" where
  "CreateATEData lagToErouterMap =
     \<lparr>Lags = map (\<lambda>(li, er). let ln = li + 1 in
       \<lparr>lag_Name = ''lag'' @ itoa ln, lag_Mac = otgMAC ln 1,
        lag_Ports = [\<lparr>port_Name = ''port'' @ itoa ln, port_Mac = otgMAC ln 3, OndatraPortIdx = li\<rparr>],
        Erouters = er\<rparr>) lagToErouterMap,
      TrafficFlowsMap = [], ConfigureISIS = False\<rparr>"

record DUTSubInterfaceData =
  sub_VlanID :: int
  sub_IPv4Address :: bytes
  sub_IPv6Address :: bytes
  sub_IPv4PrefixLen :: int
  sub_IPv6PrefixLen :: int

record DUTAggData =
  agg_Desc :: string
  agg_IPv4 :: string
  agg_LagName :: string
  agg_OndatraPortsIdx :: "int list"
  agg_SubInterfaces :: "DUTSubInterfaceData list"

fun sub_loop :: "int \<Rightarrow> int \<Rightarrow> nat \<Rightarrow> nat \<Rightarrow> bytes \<times> bytes \<Rightarrow> DUTSubInterfaceData list \<times> (bytes \<times> bytes)" where
  "sub_loop initialVlanID i 0 j ips = ([], ips)"
| "sub_loop initialVlanID i (Suc n) j (ip4, ip6) =
     (let (subs, ips) = sub_loop initialVlanID i n (Suc j) (NextIPMultiSteps ip4 4, NextIPMultiSteps ip6 4) in
      (\<lparr>sub_VlanID = initialVlanID + i * 100 + (int j + 1), sub_IPv4Address = ip4, sub_IPv6Address = ip6,
        sub_IPv4PrefixLen = 30, sub_IPv6PrefixLen = 126\<rparr> # subs, ips))"

fun agg_loop :: "int \<Rightarrow> nat \<Rightarrow> nat \<Rightarrow> nat \<Rightarrow> bytes \<times> bytes \<Rightarrow> DUTAggData list" where
  "agg_loop initialVlanID nsub 0 i ips = []"
| "agg_loop initialVlanID nsub (Suc n) i ips =
     (let (subs, ips) = sub_loop initialVlanID (int i) nsub 0 ips in
      \<lparr>agg_Desc = ''DUT to ATE LAG'' @ itoa (int i + 1), agg_IPv4 = [], agg_LagName = [], agg_OndatraPortsIdx = [int i], agg_SubInterfaces = subs\<rparr>
      # agg_loop initialVlanID nsub n (Suc i) ips)"

definition CreateDUTAggregateInterfacesData :: "int \<Rightarrow> int \<Rightarrow> int \<Rightarrow> bytes \<Rightarrow> bytes \<Rightarrow> DUTAggData list option" where
  "CreateDUTAggregateInterfacesData aggregatesCount subInterfacesCountPerAggregate initialVlanID initialIPv4Address initialIPv6Address =
     (if subInterfacesCountPerAggregate > 99 then None
      else Some (agg_loop initialVlanID (nat subInterfacesCountPerAggregate) (nat aggregatesCount) 0 (initialIPv4Address, initialIPv6Address)))"

definition erouter_of :: "nat \<Rightarrow> nat \<Rightarrow> DUTSubInterfaceData \<Rightarrow> AteEmulatedRouterData" where
  "erouter_of ai si s =
     (let n = itoa ((int ai + 1) * 100 + (int si + 1)) in
      \<lparr>er_Name = ''R'' @ n, DUTIPv4 = ip_string (sub_IPv4Address s), ATEIPv4 = ip_string (NextIPMultiSteps (sub_IPv4Address s) 1),
       LinkIPv4PLen = sub_IPv4PrefixLen s, DUTIPv6 = ip_string (sub_IPv6Address s), ATEIPv6 = ip_string (NextIPMultiSteps (sub_IPv6Address s) 1),
       LinkIPv6PLen = sub_IPv6PrefixLen s, EthMAC = ''02:55:10:10:'' @ hex ai @ '':'' @ hex si, ISISAreaAddress = ''490001'',
       ISISSysID = ''6400000000'' @ n, er_VlanID = sub_VlanID s, ISISBlocks = [], ISISLSPRefreshInterval = 65218, ISISSPLifetime = 65533\<rparr>)"

definition CreateATEEmulatedRouterData :: "DUTAggData list \<Rightarrow> AteEmulatedRouterData list" where
  "CreateATEEmulatedRouterData dutAggregateInterfacesData =
     concat (map (\<lambda>(ai, a). map (\<lambda>(si, s). erouter_of ai si s) (enumerate 0 (agg_SubInterfaces a))) (enumerate 0 dutAggregateInterfacesData))"


section \<open>Interfaces with IS-IS\<close>

definition createISISInterfaceNames :: "string \<Rightarrow> DUTAggData list \<Rightarrow> string list" where
  "createISISInterfaceNames loopback0 lags =
     loopback0 # concat (map (\<lambda>l. if agg_IPv4 l \<noteq> [] then [agg_LagName l]
        else map (\<lambda>s. agg_LagName l @ ''.'' @ itoa (sub_VlanID s)) (agg_SubInterfaces l)) lags)"

text \<open>The interface states the device reports: \<open>None\<close> is a path without a value.\<close>

fun findISISInterfaces :: "string option list \<Rightarrow> string list option" where
  "findISISInterfaces [] = Some []"
| "findISISInterfaces (None # vs) = None"
| "findISISInterfaces (Some i # vs) =
     map_option (\<lambda>is. if hasPrefix (toLower i) ''lo'' then is else i # is) (findISISInterfaces vs)"

definition agg_of :: "string \<Rightarrow> string" where
  "agg_of isisIntf = (if str_contains isisIntf ''.'' then hd (str_split (CHR ''.'') isisIntf) else isisIntf)"

definition findAggregatesFromInterfaces :: "string option list \<Rightarrow> string list option" where
  "findAggregatesFromInterfaces vs =
     map_option (\<lambda>is. fold (\<lambda>i aggs. if agg_of i \<in> set aggs then aggs else aggs @ [agg_of i]) is []) (findISISInterfaces vs)"


section \<open>Polls and checks\<close>

fun add_adjs :: "(string \<times> bool) list \<Rightarrow> string list \<Rightarrow> string list" where
  "add_adjs [] ids = ids"
| "add_adjs ((nei, up) # adjs) ids = add_adjs adjs (if up \<and> nei \<notin> set ids then ids @ [nei] else ids)"

text \<open>One trial reads the adjacencies of every interface with a value; at most \<open>trialCount\<close> trials.\<close>

fun adj_trials :: "nat \<Rightarrow> nat \<Rightarrow> nat \<Rightarrow> (nat \<Rightarrow> (string \<times> bool) list option list) \<Rightarrow> string list \<Rightarrow> string list" where
  "adj_trials 0 i nominalCount report ids = ids"
| "adj_trials (Suc n) i nominalCount report ids =
     (let ids = fold (\<lambda>v ids. case v of None \<Rightarrow> ids | Some adjs \<Rightarrow> add_adjs adjs ids) (report i) ids in
      if nominalCount \<le> length ids then ids else adj_trials n (Suc i) nominalCount report ids)"

definition FindISISAdjCountNonStream :: "nat \<Rightarrow> (nat \<Rightarrow> (string \<times> bool) list option list) \<Rightarrow> nat \<times> bool" where
  "FindISISAdjCountNonStream nominalCount report =
     (let ids = adj_trials 10 0 nominalCount report [] in (length ids, nominalCount \<le> length ids))"

record flow_counters =
  fc_name :: string
  InOctets :: "64 word"
  OutOctets :: "64 word"

datatype traffic_error = ZeroOctets string | Loss string "64 word"

definition CheckTraffic :: "flow_counters list \<Rightarrow> traffic_error list" where
  "CheckTraffic allFlows =
     concat (map (\<lambda>c. if OutOctets c = 0 then [ZeroOctets (fc_name c)]
        else let lossPercent = ((OutOctets c - InOctets c) * 100) div OutOctets c in
          if lossPercent > 0 then [Loss (fc_name c) lossPercent] else []) allFlows)"


section \<open>The store only grows\<close>

definition grows :: "store \<Rightarrow> store \<Rightarrow> bool" where
  "grows st st' \<longleftrightarrow> length st \<le> length st' \<and> (\<forall>p < length st. set (dev_eths (st ! p)) \<subseteq> set (dev_eths (st' ! p)))"

definition v4_ifs :: "store \<Rightarrow> (string \<times> string) set" where
  "v4_ifs st = (\<Union>d \<in> set st. \<Union>e \<in> set (dev_eths d). (\<lambda>a. (ip_name a, ip_addr a)) ` set (eth_v4 e))"

lemma grows_refl [simp]: "grows st st"
  by (simp add: grows_def)

lemma grows_trans [trans]: "grows st st' \<Longrightarrow> grows st' st'' \<Longrightarrow> grows st st''"
  by (auto simp: grows_def) (meson order_less_le_trans subsetD)

lemma grows_append [simp]: "grows st (st @ ds)"
  by (simp add: grows_def nth_append)

lemma grows_add_eth [simp]: "grows st (add_eth p e i st)"
  by (cases "p < length st") (auto simp: grows_def, simp_all add: add_eth_def list_update_beyond)

lemma grows_ifs: "grows st st' \<Longrightarrow> v4_ifs st \<subseteq> v4_ifs st'"
  unfolding v4_ifs_def grows_def by (fastforce simp: in_set_conv_nth [of _ st] intro: bexI [OF _ nth_mem])

lemma grows_one_link: "one_link p q a b o4 o6 i s = Inr s' \<Longrightarrow> grows (fst s) (fst s')"
  by (cases s) (auto simp: one_link_def Let_def bind_res_def split: prod.splits sum.splits intro: grows_trans [OF grows_add_eth grows_add_eth])

lemma bind_res_Inr: "bind_res x f = Inr y \<longleftrightarrow> (\<exists>z. x = Inr z \<and> f z = Inr y)"
  by (cases x) (simp_all add: bind_res_def)

lemma grows_link_loop: "link_loop n i p q a b o4 o6 s = Inr s' \<Longrightarrow> grows (fst s) (fst s')"
  by (induction n arbitrary: i s) (auto simp: bind_res_Inr dest!: grows_one_link intro: grows_trans)

lemma grows_createLink: "createLink p q a b o4 o6 m s = Inr s' \<Longrightarrow> grows (fst s) (fst s')"
  unfolding createLink_def by (rule grows_link_loop)

lemma grows_cell_links: "cell_links v nodes devs rc s = Inr s' \<Longrightarrow> grows (fst s) (fst s')"
  by (cases rc) (auto simp: cell_links_def Let_def bind_res_Inr dest!: grows_createLink split: if_splits intro: grows_trans)

lemma grows_links_loop: "links_loop v nodes devs cs s = Inr s' \<Longrightarrow> grows (fst s) (fst s')"
  by (induction cs arbitrary: s) (auto simp: bind_res_Inr dest!: grows_cell_links intro: grows_trans)

lemma grows_node_loop: "node_loop v cs k nodes devs st = Inr (nodes', devs', st') \<Longrightarrow> grows st st'"
proof (induction v cs k nodes devs st rule: node_loop.induct)
  case (2 v r c cs k nodes devs st)
  then obtain st1 d where 1: "createSimDev k (systemIDFirstOctet v) (int r) (int c) (v4StRoute v) (v6StRoute v) (blockName v) st = Inr (st1, d)"
    and r: "grows st1 st'" by (auto simp: bind_res_Inr)
  from 1 have "grows st st1" by (auto simp: createSimDev_def Let_def split: if_splits)
  with r show ?case by (rule grows_trans [rotated])
qed simp

lemma grows_GenerateTopology: "GenerateTopology v st = Inr (topo, v', st') \<Longrightarrow> grows st st'"
  by (auto simp: GenerateTopology_def Let_def bind_res_Inr dest!: grows_node_loop grows_links_loop split: if_splits intro: grows_trans)

lemma grows_Connect: "Connect topo e r c s = Inr s' \<Longrightarrow> grows (fst s) (fst s')"
  by (auto simp: Connect_def Let_def dest!: grows_createLink split: if_splits)

lemma grows_createISISBlock: "createISISBlock b idx st = Inr st' \<Longrightarrow> grows st st'"
  by (auto simp: createISISBlock_def bind_res_Inr dest!: grows_GenerateTopology grows_Connect split: if_splits intro: grows_trans)

lemma grows_block_loop: "block_loop bs idx st = Inr st' \<Longrightarrow> grows st st'"
  by (induction bs arbitrary: st) (auto simp: bind_res_Inr dest!: grows_createISISBlock intro: grows_trans)

lemma grows_erouter_loop: "erouter_loop isis agg ers st = Inr st' \<Longrightarrow> grows st st'"
proof (induction ers arbitrary: st)
  case (Cons er ers)
  then obtain st1 where 1: "(if isis then block_loop (ISISBlocks er) (length st) (st @ [configureOTGISIS er (emulatedRouter agg er)])
      else Inr (st @ [emulatedRouter agg er])) = Inr st1" and r: "grows st1 st'" by (auto simp: bind_res_Inr)
  from 1 have "grows st st1" by (auto split: if_splits dest!: grows_block_loop intro: grows_trans [OF grows_append])
  with r show ?case by (rule grows_trans [rotated])
qed simp


section \<open>The addresses of a block\<close>

definition flow_dests :: "otg_flow \<Rightarrow> string list" where
  "flow_dests f = map (\<lambda>k. ip_string (nat_to_be 4 (be_to_nat (To4 (ParseIP (flow_dst f))) + k))) [0..<unat (flow_dstCount f)]"

lemma block_data_simps:
  "\<exists>v. block_data b = SetLinkIP4FirstOctet (LinkIP4FirstOct b) v \<and> row v = Row b \<and> col v = Col b
     \<and> systemIDFirstOctet v = ISISIDFirstOct b \<and> linkMultiplier v = LinkMultiplier b"
  by (rule exI [of _ "block_data b"])
    (auto simp: block_data_def Let_def SetBlockName_def SetLinkMultiplier_def SetLinkIP4FirstOctet_def SetSystemIDFirstOctet_def
      SetCol_def SetRow_def NewGridIsisData_def V4RouteInfo_def V6RouteInfo_def)

lemma GenerateTopology_size:
  "GenerateTopology v st = Inr r \<Longrightarrow> 2 \<le> row v \<and> row v \<le> 255 \<and> 2 \<le> col v \<and> col v \<le> 255 \<and> systemIDFirstOctet v \<noteq> []"
  by (auto simp: GenerateTopology_def split: if_splits)

lemma grid_addrs_ifs: "set (grid_addrs [n..<length st] st) \<subseteq> snd ` v4_ifs st"
  by (auto simp: grid_addrs_def v4_ifs_def link_addrs_def image_iff) (metis nth_mem)

lemma createISISBlock_addrs:
  assumes "createISISBlock b idx st = Inr st'" and b: "0 < LinkIP4FirstOct b" "LinkIP4FirstOct b < 256" "0 \<le> LinkMultiplier b"
    and f: "f \<in> set (createAllTrafficFlows s d [b])"
  shows "set (flow_dests f) \<subseteq> snd ` v4_ifs st'"
proof -
  let ?oct = "LinkIP4FirstOct b"
  from assms(1) obtain topo v' st1 where g: "GenerateTopology (block_data b) st = Inr (topo, v', st1)" and "grows st1 st'"
    by (auto simp: createISISBlock_def bind_res_Inr split: if_splits dest!: grows_Connect)
  then have sub: "snd ` v4_ifs st1 \<subseteq> snd ` v4_ifs st'" by (intro image_mono grows_ifs)
  obtain v where v: "block_data b = SetLinkIP4FirstOctet ?oct v" "row v = Row b" "col v = Col b"
      "systemIDFirstOctet v = ISISIDFirstOct b" "linkMultiplier v = LinkMultiplier b"
    using block_data_simps by blast
  have size: "2 \<le> Row b" "Row b \<le> 255" "2 \<le> Col b" "Col b \<le> 255" "systemIDFirstOctet v \<noteq> []"
    using GenerateTopology_size [OF g] v by (simp_all add: SetLinkIP4FirstOctet_def)
  define rows where "rows = nat (Row b)"
  define cols where "cols = nat (Col b)"
  define links where "links = nat (linkMultiplier v) * ((cols - 1) * rows + (rows - 1) * cols)"
  have rc: "row v = int rows" "col v = int cols" "2 \<le> rows" "rows \<le> 255" "2 \<le> cols" "cols \<le> 255"
    using size v by (simp_all add: rows_def cols_def)
  from generate_grid [OF rc size(5) _ b(2) links_def, of st] g b v(1)
  have fit: "2 * links \<le> 2 ^ 24" and len: "length st1 = length st + rows * cols"
    and addrs: "set (grid_addrs [length st..<length st + rows * cols] st1) = set (block_addrs ?oct 0 (2 * links))"
    by (auto simp: grid_in_def split: if_splits dest: mset_eq_setD)
  have dst: "flow_dst f = itoa ?oct @ ''.0.0.0''"
    and n: "flow_dstCount f = of_int (((Col b - 1) * Row b + (Row b - 1) * Col b) * LinkMultiplier b * 2)"
    using f by (simp_all add: createAllTrafficFlows_def createAppendIPV4Flow_def Let_def)
  have "((Col b - 1) * Row b + (Row b - 1) * Col b) * LinkMultiplier b * 2 = int (2 * links)"
  proof -
    obtain r c m where e: "rows = Suc r" "cols = Suc c" "LinkMultiplier b = int m" 
      using rc(3,5) b(3) by (metis Suc_le_D numeral_2_eq_2 zero_le_imp_eq_int)
    then have "Row b = int (Suc r)" "Col b = int (Suc c)" using rc(1,2) v by simp_all
    with e v show ?thesis by (simp add: links_def algebra_simps)
  qed
  then have "flow_dstCount f = of_nat (2 * links)" unfolding n by (simp only: of_int_of_nat_eq)
  then have "unat (flow_dstCount f) = 2 * links" using fit by (simp only: unat_of_nat) simp
  moreover have "be_to_nat (To4 (ParseIP (itoa ?oct @ ''.0.0.0''))) = nat ?oct * 2 ^ 24"
  proof -
    have "nat ?oct * 2 ^ 24 \<le> 255 * 2 ^ 24" using b by (intro mult_right_mono) auto
    then have "nat ?oct * 2 ^ 24 < 2 ^ 32" by simp
    then show ?thesis using ip_at_first [of ?oct] b by (simp add: ip_at_def To4_v4_ip be_to_nat_nat_to_be)
  qed
  ultimately have "set (flow_dests f) = set (block_addrs ?oct 0 (2 * links))"
    using b by (simp add: dst flow_dests_def block_addrs_def)
  with addrs grid_addrs_ifs [of "length st" st1] sub len show ?thesis by simp
qed


section \<open>Flows of a test\<close>

definition routers :: "ATEData \<Rightarrow> AteEmulatedRouterData set" where
  "routers a = (\<Union>l \<in> set (Lags a). set (Erouters l))"

lemma block_loop_addrs:
  assumes "block_loop bs idx st = Inr st'" "b \<in> set bs" "0 < LinkIP4FirstOct b" "LinkIP4FirstOct b < 256" "0 \<le> LinkMultiplier b"
    "f \<in> set (createAllTrafficFlows s d [b])"
  shows "set (flow_dests f) \<subseteq> snd ` v4_ifs st'"
  using assms
proof (induction bs arbitrary: st)
  case (Cons x bs)
  then obtain st1 where 1: "createISISBlock x idx st = Inr st1" "block_loop bs idx st1 = Inr st'" by (auto simp: bind_res_Inr)
  show ?case
  proof (cases "b = x")
    case True
    with createISISBlock_addrs [OF 1(1) _ _ _ ] Cons.prems have "set (flow_dests f) \<subseteq> snd ` v4_ifs st1" by blast
    then show ?thesis using grows_ifs [OF grows_block_loop [OF 1(2)]] by blast
  next
    case False
    with Cons 1 show ?thesis by auto
  qed
qed simp

lemma erouter_ifs: "(er_Name er @ ''.Eth1.IPv4'', ATEIPv4 er) \<in> v4_ifs (st @ [d])"
  if "d = emulatedRouter agg er \<or> d = configureOTGISIS er (emulatedRouter agg er)"
  using that by (auto simp: v4_ifs_def emulatedRouter_def configureOTGISIS_def)

lemma erouter_loop_ifs:
  assumes "erouter_loop True agg ers st = Inr st'" "er \<in> set ers"
  shows "(er_Name er @ ''.Eth1.IPv4'', ATEIPv4 er) \<in> v4_ifs st'"
    and "b \<in> set (ISISBlocks er) \<Longrightarrow> 0 < LinkIP4FirstOct b \<Longrightarrow> LinkIP4FirstOct b < 256 \<Longrightarrow> 0 \<le> LinkMultiplier b \<Longrightarrow>
      f \<in> set (createAllTrafficFlows s d [b]) \<Longrightarrow> set (flow_dests f) \<subseteq> snd ` v4_ifs st'"
proof -
  from split_list [OF assms(2)] obtain xs ys where ers: "ers = xs @ er # ys" by blast
  have app: "erouter_loop i agg (xs @ ys) st = bind_res (erouter_loop i agg xs st) (erouter_loop i agg ys)" for i xs ys st
    by (induction xs arbitrary: st) (auto simp: bind_res_def split: sum.splits)
  from assms(1) obtain st0 st1 where
    1: "block_loop (ISISBlocks er) (length st0) (st0 @ [configureOTGISIS er (emulatedRouter agg er)]) = Inr st1"
    and "erouter_loop True agg ys st1 = Inr st'" by (auto simp: ers app bind_res_Inr)
  then have sub: "v4_ifs st1 \<subseteq> v4_ifs st'" by (intro grows_ifs grows_erouter_loop)
  show "(er_Name er @ ''.Eth1.IPv4'', ATEIPv4 er) \<in> v4_ifs st'"
    using erouter_ifs [of _ agg er st0] grows_ifs [OF grows_block_loop [OF 1]] sub by blast
  show "set (flow_dests f) \<subseteq> snd ` v4_ifs st'"
    if "b \<in> set (ISISBlocks er)" "0 < LinkIP4FirstOct b" "LinkIP4FirstOct b < 256" "0 \<le> LinkMultiplier b"
      "f \<in> set (createAllTrafficFlows s d [b])"
    using block_loop_addrs [OF 1 that] sub by blast
qed

lemma lag_loop_step:
  assumes "lag_loop port isis i ls s = Inr s'" "l \<in> set ls"
  shows "\<exists>st st1. erouter_loop isis (lag_Name l) (Erouters l) st = Inr st1 \<and> grows st1 (cfg_devices (fst s'))"
proof -
  have step: "erouter_loop isis (lag_Name x) (Erouters x) (cfg_devices (fst s)) = Inr (cfg_devices (fst s1))"
    if "lag_step port isis k x s = Inr s1" for k x s s1
    using that by (cases s; cases "erouter_loop isis (lag_Name x) (Erouters x) (cfg_devices (fst s))") (auto simp: lag_step_def bind_res_Inr)
  have grow: "grows (cfg_devices (fst s)) (cfg_devices (fst s'))" if "lag_loop port isis k xs s = Inr s'" for k xs s
    using that by (induction xs arbitrary: k s) (auto simp: bind_res_Inr dest!: step grows_erouter_loop intro: grows_trans)
  show ?thesis using assms
  proof (induction ls arbitrary: i s)
    case (Cons x ls)
    then obtain s1 where 1: "lag_step port isis i x s = Inr s1" "lag_loop port isis (Suc i) ls s1 = Inr s'" by (auto simp: bind_res_Inr)
    with step [OF 1(1)] grow [OF 1(2)] Cons show ?case by (cases "l = x") auto
  qed simp
qed

lemma ConfigureATE_router:
  assumes "ConfigureATE port a = Inr cfg" "ConfigureISIS a" "er \<in> routers a"
  obtains agg ers st st1 where "erouter_loop True agg ers st = Inr st1" "er \<in> set ers" "v4_ifs st1 \<subseteq> v4_ifs (cfg_devices cfg)"
proof -
  from assms(3) obtain l where l: "l \<in> set (Lags a)" "er \<in> set (Erouters l)" by (auto simp: routers_def)
  from assms(1,2) obtain s where s: "lag_loop port True 0 (Lags a) (\<lparr>cfg_ports = [], cfg_lags = [], cfg_devices = [], cfg_layer1 = []\<rparr>, []) = Inr s"
    "cfg_devices cfg = cfg_devices (fst s)" by (auto simp: ConfigureATE_def bind_res_Inr split: if_splits)
  from lag_loop_step [OF s(1) l(1)] show thesis using l(2) s(2) that grows_ifs by metis
qed

lemma set_AppendTrafficFlows:
  "set (AppendTrafficFlows a fs) = set fs \<union> (\<Union>(s, ds) \<in> set (TrafficFlowsMap a). \<Union>d \<in> set ds. \<Union>b \<in> set (ISISBlocks d). set (createAllTrafficFlows s d [b]))"
proof -
  have inner: "set (fold (\<lambda>d fs. fs @ createAllTrafficFlows s d (ISISBlocks d)) ds fs)
      = set fs \<union> (\<Union>d \<in> set ds. \<Union>b \<in> set (ISISBlocks d). set (createAllTrafficFlows s d [b]))" for s ds fs
    by (induction ds arbitrary: fs) (auto simp: createAllTrafficFlows_def)
  have "set (fold (\<lambda>(s, ds) fs. fold (\<lambda>d fs. fs @ createAllTrafficFlows s d (ISISBlocks d)) ds fs) m fs)
      = set fs \<union> (\<Union>(s, ds) \<in> set m. \<Union>d \<in> set ds. \<Union>b \<in> set (ISISBlocks d). set (createAllTrafficFlows s d [b]))" for m
    by (induction m arbitrary: fs) (auto simp: inner)
  then show ?thesis by (simp add: AppendTrafficFlows_def)
qed

lemma createISISBlock_iff:
  fixes st :: store
  assumes b: "Row b = int rows" "Col b = int cols" "2 \<le> rows" "rows \<le> 255" "2 \<le> cols" "cols \<le> 255" "ISISIDFirstOct b \<noteq> []"
    and oct: "0 < LinkIP4FirstOct b" "LinkIP4FirstOct b < 256"
    and links: "links = nat (LinkMultiplier b) * ((cols - 1) * rows + (rows - 1) * cols)" and idx: "idx < length st"
  shows "(\<exists>st'. createISISBlock b idx st = Inr st') \<longleftrightarrow> 2 * links + 2 \<le> 2 ^ 24"
proof -
  let ?oct = "LinkIP4FirstOct b"
  obtain v where v: "block_data b = SetLinkIP4FirstOctet ?oct v" "row v = Row b" "col v = Col b"
      "systemIDFirstOctet v = ISISIDFirstOct b" "linkMultiplier v = LinkMultiplier b"
    using block_data_simps by blast
  have G: "if ?oct = 0 \<or> 2 * links \<le> 2 ^ 24
    then \<exists>topo v' st'. GenerateTopology (block_data b) st = Inr (topo, v', st')
      \<and> grid_in (length st) rows cols (nat (linkMultiplier v)) topo st' \<and> take (length st) st' = st
      \<and> mset (grid_addrs [length st..<length st + rows * cols] st') = mset (block_addrs ?oct 0 (2 * links))
      \<and> ip_at ?oct (2 * links) (nextLinkIP4ToUse v') \<and> topo_IP4FirstOctet topo = ?oct
    else GenerateTopology (block_data b) st = Inl (NoFreeAddress ?oct)"
    unfolding v(1) by (rule generate_grid) (use b oct v links in auto)
  show ?thesis
  proof (cases "2 * links \<le> 2 ^ 24")
    case True
    with G obtain topo v' st' where g: "GenerateTopology (block_data b) st = Inr (topo, v', st')"
        "grid_in (length st) rows cols (nat (linkMultiplier v)) topo st'" "ip_at ?oct (2 * links) (nextLinkIP4ToUse v')"
        "topo_IP4FirstOctet topo = ?oct" by auto
    have len: "length st' = length st + rows * cols" and d: "Device topo 0 1 = Inr (length st + 1)"
      using g(2) b(3,5) by (auto simp: grid_in_def)
    have "1 < rows * cols" using b(3,5) mult_le_mono [of 2 rows 2 cols] by simp
    then have m: "makes_links (length st') ?oct (2 * links) [(idx, length st + 1)]
        (createLink idx (length st + 1) i j ?oct (topo_IP6FirstOctet topo) 1)" for i j
      using makes_createLink [of idx "length st'" "length st + 1" ?oct "2 * links" 1] idx len by simp
    have c: "Connect topo idx 0 1 s = createLink idx (length st + 1) (length (devices topo)) (gridNodes topo ! 0 ! 1) ?oct (topo_IP6FirstOctet topo) 1 s" for s
      using d g(4) by (auto simp: Connect_def Device_def Let_def split: if_splits)
    have "(\<exists>st'' ip. Connect topo idx 0 1 (st', nextLinkIP4ToUse v') = Inr (st'', ip)) \<longleftrightarrow> 2 * links + 2 \<le> 2 ^ 24"
      unfolding c using makes_linksD [OF m [of "length (devices topo)" "gridNodes topo ! 0 ! 1"] g(3)] True oct by (cases "2 * links + 2 \<le> 2 ^ 24") (auto simp: fits_def)
    moreover have "idx < length st'" using idx len by simp
    ultimately show ?thesis using g(1) by (auto simp: createISISBlock_def bind_res_def split: sum.splits)
  next
    case False
    with G oct show ?thesis by (simp add: createISISBlock_def bind_res_def)
  qed
qed

text \<open>C15: When the configuration of the traffic generator is built, every traffic flow of the test is well directed: it
  leaves on the IPv4 interface with the flow's source address, is received on an IPv4 interface, and every
  address it is sent to is the address of an interface of the configuration, the count of destinations having
  been computed by the closed formula and not from the grid.\<close>

theorem ConfigureATE_flows:
  assumes cfg: "ConfigureATE port a = Inr cfg" "ConfigureISIS a"
    and known: "\<forall>(s, ds) \<in> set (TrafficFlowsMap a). insert s (set ds) \<subseteq> routers a"
    and blocks: "\<forall>r \<in> routers a. \<forall>b \<in> set (ISISBlocks r). 0 < LinkIP4FirstOct b \<and> LinkIP4FirstOct b < 256 \<and> 0 \<le> LinkMultiplier b"
    and f: "f \<in> set (AppendTrafficFlows a [])"
  shows "(flow_tx f, flow_src f) \<in> v4_ifs (cfg_devices cfg) \<and> flow_rx f \<in> fst ` v4_ifs (cfg_devices cfg)
    \<and> set (flow_dests f) \<subseteq> snd ` v4_ifs (cfg_devices cfg)"
proof -
  from f obtain s ds d b where sd: "(s, ds) \<in> set (TrafficFlowsMap a)" "d \<in> set ds" and b: "b \<in> set (ISISBlocks d)"
    and fb: "f \<in> set (createAllTrafficFlows s d [b])" by (auto simp: set_AppendTrafficFlows)
  have "insert s (set ds) \<subseteq> routers a" using known sd(1) by blast
  with sd(2) have r: "s \<in> routers a" "d \<in> routers a" by auto
  have if1: "(er_Name er @ ''.Eth1.IPv4'', ATEIPv4 er) \<in> v4_ifs (cfg_devices cfg)" if "er \<in> routers a" for er
    by (rule ConfigureATE_router [OF cfg that]) (blast dest: erouter_loop_ifs(1))
  have "set (flow_dests f) \<subseteq> snd ` v4_ifs (cfg_devices cfg)"
  proof (rule ConfigureATE_router [OF cfg r(2)])
    fix agg ers st st1
    assume e: "erouter_loop True agg ers st = Inr st1" "d \<in> set ers" "v4_ifs st1 \<subseteq> v4_ifs (cfg_devices cfg)"
    from blocks r(2) b have "0 < LinkIP4FirstOct b" "LinkIP4FirstOct b < 256" "0 \<le> LinkMultiplier b" by auto
    from erouter_loop_ifs(2) [OF e(1,2) b this fb] e(3) show ?thesis by blast
  qed
  moreover have "flow_tx f = er_Name s @ ''.Eth1.IPv4''" "flow_src f = ATEIPv4 s" "flow_rx f = er_Name d @ ''.Eth1.IPv4''"
    using fb by (simp_all add: createAllTrafficFlows_def createAppendIPV4Flow_def Let_def)
  ultimately show ?thesis using if1 [OF r(1)] imageI [OF if1 [OF r(2)], of fst] by simp
qed

definition sample_router :: AteEmulatedRouterData where
  "sample_router =
     \<lparr>er_Name = ''R101'', DUTIPv4 = ''192.0.2.1'', ATEIPv4 = ''192.0.2.2'', LinkIPv4PLen = 30, DUTIPv6 = ''2001:db8::1'', ATEIPv6 = ''2001:db8::2'',
      LinkIPv6PLen = 126, EthMAC = ''02:55:10:10:00:00'', ISISAreaAddress = ''490001'', ISISSysID = ''640000000001'', er_VlanID = 101,
      ISISBlocks = [\<lparr>blk_Name = ''b'', Col = 2, Row = 2, ISISIDFirstOct = ''65'', LinkIP4FirstOct = 10,
        V4Pfx = \<lparr>FirstOctet = [], PfxLen = 0, pfx_Count = 0\<rparr>, V6Pfx = \<lparr>FirstOctet = [], PfxLen = 0, pfx_Count = 0\<rparr>, LinkMultiplier = 1\<rparr>],
      ISISLSPRefreshInterval = 0, ISISSPLifetime = 0\<rparr>"

definition sample_ate :: ATEData where
  "sample_ate =
     \<lparr>Lags = [\<lparr>lag_Name = ''lag1'', lag_Mac = ''02:55:10:10:10:01'', lag_Ports = [], Erouters = [sample_router]\<rparr>],
      TrafficFlowsMap = [(sample_router, [sample_router])], ConfigureISIS = True\<rparr>"

lemma sample_ate_runs: "\<exists>cfg. ConfigureATE Map.empty sample_ate = Inr cfg"
proof -
  let ?b = "hd (ISISBlocks sample_router)"
  obtain st where "createISISBlock ?b 0 [configureOTGISIS sample_router (emulatedRouter ''lag1'' sample_router)] = Inr st"
    using createISISBlock_iff [of ?b 2 2 4 0] by (fastforce simp: sample_router_def)
  then show ?thesis
    by (simp add: ConfigureATE_def sample_ate_def lag_step_def bind_res_def sample_router_def)
qed

theorem ConfigureATE_flows_witness:
  "\<exists>cfg f. ConfigureATE Map.empty sample_ate = Inr cfg \<and> AppendTrafficFlows sample_ate [] = [f]
     \<and> (flow_tx f, flow_src f) \<in> v4_ifs (cfg_devices cfg) \<and> set (flow_dests f) \<subseteq> snd ` v4_ifs (cfg_devices cfg)"
proof -
  obtain cfg where c: "ConfigureATE Map.empty sample_ate = Inr cfg" using sample_ate_runs by blast
  obtain f where f: "AppendTrafficFlows sample_ate [] = [f]"
    by (simp add: AppendTrafficFlows_def sample_ate_def createAllTrafficFlows_def sample_router_def)
  have "routers sample_ate = {sample_router}" by (simp add: routers_def sample_ate_def)
  then show ?thesis
    using ConfigureATE_flows [OF c, of f] f c by (auto simp: sample_ate_def sample_router_def)
qed


section \<open>Sub-interfaces and routers\<close>

text \<open>The first address of the \<open>k\<close>-th block of four from \<open>ip\<close> on.\<close>

definition ip_block :: "bytes \<Rightarrow> nat \<Rightarrow> bytes" where
  "ip_block ip k = (nextIP ^^ (4 * k)) ip"

lemma ip_block_0 [simp]: "ip_block ip 0 = ip"
  by (simp add: ip_block_def)

lemma ip_block_Suc: "NextIPMultiSteps (ip_block ip k) 4 = ip_block ip (Suc k)"
proof -
  have "4 * Suc k = 4 + 4 * k" by simp
  then show ?thesis unfolding ip_block_def by (simp only: funpow_add) (simp add: NextIPMultiSteps_def)
qed

lemma nextIP_pow:
  "length ((nextIP ^^ k) ip) = length ip \<and> be_to_nat ((nextIP ^^ k) ip) = (be_to_nat ip + k) mod 256 ^ length ip"
  by (induction k) (use be_to_nat_less [of ip] in \<open>auto simp: be_to_nat_nextIP mod_Suc_eq\<close>)

lemma be_to_nat_ip_block:
  "be_to_nat ip + 4 * k < 256 ^ length ip \<Longrightarrow> be_to_nat (ip_block ip k) = be_to_nat ip + 4 * k"
  unfolding ip_block_def using nextIP_pow [of "4 * k" ip] by simp

definition sub_at :: "int \<Rightarrow> bytes \<Rightarrow> bytes \<Rightarrow> nat \<Rightarrow> nat \<Rightarrow> nat \<Rightarrow> DUTSubInterfaceData" where
  "sub_at vlan ip4 ip6 nsub i j =
     \<lparr>sub_VlanID = vlan + int i * 100 + (int j + 1), sub_IPv4Address = ip_block ip4 (i * nsub + j),
      sub_IPv6Address = ip_block ip6 (i * nsub + j), sub_IPv4PrefixLen = 30, sub_IPv6PrefixLen = 126\<rparr>"

lemma sub_loop_eq:
  "sub_loop vlan (int i) n j (ip_block ip4 (i * nsub + j), ip_block ip6 (i * nsub + j)) =
     (map (sub_at vlan ip4 ip6 nsub i) [j..<j + n], ip_block ip4 (i * nsub + (j + n)), ip_block ip6 (i * nsub + (j + n)))"
proof (induction n arbitrary: j)
  case (Suc n)
  have "[j..<j + Suc n] = j # [Suc j..<Suc j + n]" using upt_conv_Cons [of j "j + Suc n"] by (simp del: upt_Suc)
  then show ?case using Suc.IH [of "Suc j"] by (simp add: ip_block_Suc sub_at_def del: upt_Suc)
qed simp

lemma agg_loop_eq:
  "map agg_SubInterfaces (agg_loop vlan nsub n i (ip_block ip4 (i * nsub), ip_block ip6 (i * nsub))) =
     map (\<lambda>i. map (sub_at vlan ip4 ip6 nsub i) [0..<nsub]) [i..<i + n]"
proof (induction n arbitrary: i)
  case (Suc n)
  have "[i..<i + Suc n] = i # [Suc i..<Suc i + n]" using upt_conv_Cons [of i "i + Suc n"] by (simp del: upt_Suc)
  moreover have "i * nsub + nsub = Suc i * nsub" by simp
  ultimately show ?case using sub_loop_eq [of vlan i nsub 0 ip4 nsub ip6] Suc.IH [of "Suc i"] by (simp del: upt_Suc add: add.commute)
qed simp

lemma enumerate_map_upt: "enumerate 0 (map f [0..<n]) = map (\<lambda>i. (i, f i)) [0..<n]"
  by (rule nth_equalityI) (simp_all add: nth_enumerate_eq)

lemma CreateATEEmulatedRouterData_eq:
  assumes "map agg_SubInterfaces aggs = map (\<lambda>i. map (f i) [0..<m]) [0..<n]"
  shows "CreateATEEmulatedRouterData aggs = concat (map (\<lambda>i. map (\<lambda>j. erouter_of i j (f i j)) [0..<m]) [0..<n])"
proof -
  have l: "length aggs = n" using arg_cong [OF assms, of length] by simp
  have "agg_SubInterfaces (aggs ! i) = map (f i) [0..<m]" if "i < n" for i
    using arg_cong [OF assms, of "\<lambda>xs. xs ! i"] that l by simp
  then have "map (\<lambda>(ai, a). map (\<lambda>(si, s). erouter_of ai si s) (enumerate 0 (agg_SubInterfaces a))) (enumerate 0 aggs)
      = map (\<lambda>i. map (\<lambda>j. erouter_of i j (f i j)) [0..<m]) [0..<n]"
    by (intro nth_equalityI) (auto simp: l nth_enumerate_eq enumerate_map_upt)
  then show ?thesis by (simp add: CreateATEEmulatedRouterData_def)
qed

lemma itoa_inject: "0 \<le> a \<Longrightarrow> 0 \<le> b \<Longrightarrow> itoa a = itoa b \<longleftrightarrow> a = b"
  by (auto simp: itoa_def)

lemma pair_code_inject: "j < 100 \<Longrightarrow> j' < 100 \<Longrightarrow> (i * 100 + j :: nat) = i' * 100 + j' \<longleftrightarrow> i = i' \<and> j = j'"
proof -
  have "(i * 100 + j) div 100 = i" "(i * 100 + j) mod 100 = j" if "j < 100" for i j :: nat using that by simp_all
  then show "j < 100 \<Longrightarrow> j' < 100 \<Longrightarrow> (i * 100 + j :: nat) = i' * 100 + j' \<longleftrightarrow> i = i' \<and> j = j'" by metis
qed

lemma distinct_grid_map:
  assumes "m \<le> 99" "\<And>i j i' j'. j < m \<Longrightarrow> j' < m \<Longrightarrow> g i j = g i' j' \<Longrightarrow> i * 100 + j = (i' * 100 + j' :: nat)"
  shows "distinct (concat (map (\<lambda>i. map (g i) [0..<m]) [0..<n]))"
proof -
  have inj: "i = i' \<and> j = j'" if "j < m" "j' < m" "g i j = g i' j'" for i j i' j'
    using assms(2) [OF that] that(1,2) assms(1) pair_code_inject [of j j' i i'] by simp
  have "distinct (concat (map (\<lambda>i. map (g i) [0..<m]) is))" if "distinct is" for "is"
    using that
  proof (induction "is")
    case (Cons i "is")
    moreover have "distinct (map (g i) [0..<m])" by (auto simp: distinct_map inj_on_def dest: inj)
    ultimately show ?case by (auto dest: inj)
  qed simp
  then show ?thesis by simp
qed

lemma grid_index: "i < n \<Longrightarrow> j < m \<Longrightarrow> i * m + j < n * (m :: nat)"
proof -
  assume "i < n" "j < m"
  then have "Suc i * m \<le> n * m" by (intro mult_right_mono) auto
  with \<open>j < m\<close> show ?thesis by simp
qed

lemma nth_grid_map:
  assumes "i < n" "j < m"
  shows "concat (map (\<lambda>i. map (g i) [0..<m]) [0..<n]) ! (i * m + j) = g i j"
proof -
  have "concat (map (\<lambda>i. map (g i) [0..<m]) [0..<n]) = map (case_prod g) (cells n m)"
    by (simp add: cells_def product_concat_map map_concat comp_def)
  also have "\<dots> = map (\<lambda>a. g (a div m) (a mod m)) [0..<n * m]" using assms by (simp add: cells_eq)
  finally show ?thesis using grid_index [OF assms] assms by simp
qed

text \<open>The links of a scale test, for at most 99 sub-interfaces a LAG: no two have the same VLAN, router name or
  system ID; the \<open>k\<close>-th link has the \<open>k\<close>-th block of four addresses, in which the device under test has the
  first address and the traffic generator the next one; a larger count ends the test.\<close>

theorem scale_links:
  assumes "0 \<le> initialVlanID" "i < n" "j < m" "m \<le> 99"
    and fits: "be_to_nat ip4 + 4 * (n * m) < 256 ^ length ip4"
  shows "\<exists>aggs. CreateDUTAggregateInterfacesData (int n) (int m) initialVlanID ip4 ip6 = Some aggs
    \<and> (let rs = CreateATEEmulatedRouterData aggs in
         length rs = n * m \<and> distinct (map er_Name rs) \<and> distinct (map ISISSysID rs) \<and> distinct (map er_VlanID rs)
         \<and> (\<exists>x y. length x = length ip4 \<and> length y = length ip4 \<and> be_to_nat x = be_to_nat ip4 + 4 * (i * m + j) \<and> be_to_nat y = be_to_nat x + 1
              \<and> DUTIPv4 (rs ! (i * m + j)) = ip_string x \<and> ATEIPv4 (rs ! (i * m + j)) = ip_string y))"
proof -
  let ?s = "sub_at initialVlanID ip4 ip6 m"
  define aggs where "aggs = agg_loop initialVlanID m n 0 (ip4, ip6)"
  define rs where "rs = concat (map (\<lambda>i. map (\<lambda>j. erouter_of i j (?s i j)) [0..<m]) [0..<n])"
  have c: "CreateDUTAggregateInterfacesData (int n) (int m) initialVlanID ip4 ip6 = Some aggs"
    using assms(4) by (simp add: CreateDUTAggregateInterfacesData_def aggs_def)
  have "map agg_SubInterfaces aggs = map (\<lambda>i. map (?s i) [0..<m]) [0..<n]"
    using agg_loop_eq [of initialVlanID m n 0 ip4 ip6] by (simp add: aggs_def)
  then have r: "CreateATEEmulatedRouterData aggs = rs" unfolding rs_def by (rule CreateATEEmulatedRouterData_eq)
  have name: "(int a + 1) * 100 + (int b + 1) = (int a' + 1) * 100 + (int b' + 1) \<Longrightarrow> a * 100 + b = a' * 100 + b'" for a b a' b'
    by (rule of_nat_eq_iff [where 'a = int, THEN iffD1]) simp
  have "distinct (map er_Name rs)" "distinct (map ISISSysID rs)"
    unfolding rs_def map_concat map_map comp_def
    by (rule distinct_grid_map [OF assms(4)], rule name, simp add: erouter_of_def Let_def itoa_inject)+
  moreover have "distinct (map er_VlanID rs)"
    unfolding rs_def map_concat map_map comp_def
    by (rule distinct_grid_map [OF assms(4)]) (simp add: erouter_of_def Let_def sub_at_def)
  moreover have "length rs = n * m" by (simp add: rs_def length_concat comp_def sum_list_triv)
  moreover have "rs ! (i * m + j) = erouter_of i j (?s i j)"
    unfolding rs_def by (rule nth_grid_map [OF assms(2,3)])
  moreover have k: "be_to_nat ip4 + 4 * (i * m + j) + 1 < 256 ^ length ip4"
  proof -
    have "b + 4 * x + 1 < z" if "b + 4 * y < z" "x < y" for b x y z :: nat using that by simp
    from this [OF fits grid_index [OF assms(2,3)]] show ?thesis .
  qed
  then have b: "be_to_nat (ip_block ip4 (i * m + j)) = be_to_nat ip4 + 4 * (i * m + j)" by (intro be_to_nat_ip_block) simp
  moreover have "be_to_nat (NextIPMultiSteps (ip_block ip4 (i * m + j)) 1) = be_to_nat ip4 + 4 * (i * m + j) + 1"
    using k b nextIP_pow [of "4 * (i * m + j)" ip4] nextIP_pow [of 1 "ip_block ip4 (i * m + j)"]
    by (simp add: NextIPMultiSteps_def ip_block_def)
  moreover have "length (ip_block ip4 (i * m + j)) = length ip4" "length (NextIPMultiSteps (ip_block ip4 (i * m + j)) 1) = length ip4"
    using nextIP_pow by (simp_all add: ip_block_def NextIPMultiSteps_def)
  ultimately have "length rs = n * m \<and> distinct (map er_Name rs) \<and> distinct (map ISISSysID rs) \<and> distinct (map er_VlanID rs)
      \<and> (\<exists>x y. length x = length ip4 \<and> length y = length ip4 \<and> be_to_nat x = be_to_nat ip4 + 4 * (i * m + j) \<and> be_to_nat y = be_to_nat x + 1
           \<and> DUTIPv4 (rs ! (i * m + j)) = ip_string x \<and> ATEIPv4 (rs ! (i * m + j)) = ip_string y)"
    by (intro conjI exI [of _ "ip_block ip4 (i * m + j)"] exI [of _ "NextIPMultiSteps (ip_block ip4 (i * m + j)) 1"])
      (simp_all only: erouter_of_def sub_at_def Let_def AteEmulatedRouterData.simps DUTSubInterfaceData.simps)
  with c r show ?thesis by (simp only: Let_def) blast
qed

theorem scale_links_witness:
  "\<exists>aggs. CreateDUTAggregateInterfacesData 2 3 100 [192, 0, 2, 0] [] = Some aggs
    \<and> (let rs = CreateATEEmulatedRouterData aggs in length rs = 6 \<and> distinct (map er_VlanID rs)
        \<and> (\<exists>x y. be_to_nat x = 0xC0000210 \<and> be_to_nat y = be_to_nat x + 1 \<and> DUTIPv4 (rs ! 4) = ip_string x \<and> ATEIPv4 (rs ! 4) = ip_string y))"
proof -
  have b: "be_to_nat [192, 0, 2, 0] = 0xC0000200" by (simp add: be_to_nat_def)
  show ?thesis using scale_links [of 100 1 2 1 3 "[192, 0, 2, 0]" "[]"] by (simp add: b Let_def) blast
qed

text \<open>The system ID of an emulated router has 13 hexadecimal digits and not the 12 of six octets.\<close>

lemma erouter_systemId_length:
  assumes "ai < 9" "si < 99"
  shows "length (ISISSysID (erouter_of ai si s)) = 13"
proof -
  define n where "n = (ai + 1) * 100 + (si + 1)"
  have n: "100 \<le> n" "n < 1000" using assms by (auto simp: n_def)
  have "itoa ((int ai + 1) * 100 + (int si + 1)) = dec n"
  proof -
    have "(int ai + 1) * 100 + (int si + 1) = int n" by (simp add: n_def)
    then show ?thesis by (simp add: itoa_def)
  qed
  moreover have "length (dec n) = 3"
  proof -
    have "\<not> n < 10" "\<not> n div 10 < 10" "n div 10 div 10 < 10" using n by linarith+
    then show ?thesis by (simp add: dec.simps [of n] dec.simps [of "n div 10"] dec.simps [of "n div 10 div 10"])
  qed
  ultimately show ?thesis by (simp add: erouter_of_def Let_def)
qed

text \<open>Nor has a LAG from the tenth on a MAC address, or a LAG of several ports distinct member names.\<close>

lemma otgMAC_tenth: "ParseMAC (otgMAC 9 1) \<noteq> None" "ParseMAC (otgMAC 10 1) = None"
  by code_simp+

lemma member_names:
  assumes "member_loop port i lag ps s = Inr (ports, members, fr)"
  shows "map (snd \<circ> snd) members = map (snd \<circ> snd) (fst (snd s)) @ replicate (length ps) (lag @ ''.'' @ dec (i + 1))"
  using assms
proof (induction port i lag ps s rule: member_loop.induct)
  case (2 port i lag p ps ports members fr)
  then show ?case by (auto split: option.splits)
qed auto


section \<open>From interfaces back to LAGs\<close>

lemma agg_of_sub: "CHR ''.'' \<notin> set s \<Longrightarrow> agg_of (s @ ''.'' @ t) = s"
proof -
  have "str_contains (s @ ''.'' @ t) ''.''" unfolding str_contains_iff by blast
  moreover have "CHR ''.'' \<notin> set s \<Longrightarrow> hd (str_split (CHR ''.'') (s @ ''.'' @ t)) = s"
    by (induction s) (auto split: list.splits)
  ultimately show "CHR ''.'' \<notin> set s \<Longrightarrow> agg_of (s @ ''.'' @ t) = s" by (simp add: agg_of_def)
qed

lemma agg_of_lag: "CHR ''.'' \<notin> set s \<Longrightarrow> agg_of s = s"
  by (auto simp: agg_of_def str_contains_iff)

lemma not_loopback: "\<not> hasPrefix (toLower s) ''lo'' \<Longrightarrow> \<not> hasPrefix (toLower (s @ ''.'' @ t)) ''lo''"
proof (induction s)
  case Nil
  then show ?case by (simp add: hasPrefix_def toLower_def ascii_lower_def)
next
  case (Cons c s)
  then show ?case by (cases s) (simp_all add: hasPrefix_def toLower_def ascii_lower_def)
qed

lemma findISISInterfaces_Some: "findISISInterfaces (map Some is) = Some (filter (\<lambda>i. \<not> hasPrefix (toLower i) ''lo'') is)"
  by (induction "is") simp_all

lemma fold_agg_same:
  "\<forall>i \<in> set is. agg_of i = a \<Longrightarrow> a \<in> set aggs \<Longrightarrow> fold (\<lambda>i aggs. if agg_of i \<in> set aggs then aggs else aggs @ [agg_of i]) is aggs = aggs"
  by (induction "is") auto

lemma fold_agg_lag:
  "is \<noteq> [] \<Longrightarrow> \<forall>i \<in> set is. agg_of i = a \<Longrightarrow> a \<notin> set aggs \<Longrightarrow>
     fold (\<lambda>i aggs. if agg_of i \<in> set aggs then aggs else aggs @ [agg_of i]) is aggs = aggs @ [a]"
  by (cases "is") (auto intro: fold_agg_same)

text \<open>C24: The interfaces on which a scale test enables IS-IS lead back to its LAGs: from what the device then
  reports - the loopback, and each LAG or its sub-interfaces - the check of the operational state and the clean-up
  find exactly the LAGs, each once, in order.\<close>

theorem ISIS_interfaces_roundtrip:
  assumes "distinct (map agg_LagName lags)" and "hasPrefix (toLower loopback0) ''lo''"
    and "\<forall>l \<in> set lags. CHR ''.'' \<notin> set (agg_LagName l) \<and> \<not> hasPrefix (toLower (agg_LagName l)) ''lo''
      \<and> (agg_IPv4 l \<noteq> [] \<or> agg_SubInterfaces l \<noteq> [])"
  shows "findAggregatesFromInterfaces (map Some (createISISInterfaceNames loopback0 lags)) = Some (map agg_LagName lags)"
proof -
  let ?names = "\<lambda>l. if agg_IPv4 l \<noteq> [] then [agg_LagName l] else map (\<lambda>s. agg_LagName l @ ''.'' @ itoa (sub_VlanID s)) (agg_SubInterfaces l)"
  let ?add = "\<lambda>i aggs. if agg_of i \<in> set aggs then aggs else aggs @ [agg_of i]"
  have lag: "?names l \<noteq> [] \<and> (\<forall>i \<in> set (?names l). agg_of i = agg_LagName l \<and> \<not> hasPrefix (toLower i) ''lo'')" if "l \<in> set lags" for l
    using that assms(3) not_loopback by (auto simp: agg_of_lag agg_of_sub simp del: append.simps)
  have "filter (\<lambda>i. \<not> hasPrefix (toLower i) ''lo'') (concat (map ?names lags)) = concat (map ?names lags)"
    using lag by (auto intro!: filter_True)
  moreover have "fold ?add (concat (map ?names ls)) aggs = aggs @ map agg_LagName ls"
    if "set ls \<subseteq> set lags" "distinct (map agg_LagName ls)" "set aggs \<inter> agg_LagName ` set ls = {}" for ls aggs
    using that
  proof (induction ls arbitrary: aggs)
    case (Cons l ls)
    have "fold ?add (?names l) aggs = aggs @ [agg_LagName l]"
      using lag [of l] Cons.prems by (intro fold_agg_lag) auto
    with Cons.IH [of "aggs @ [agg_LagName l]"] Cons.prems show ?case by auto
  qed simp
  from this [of lags "[]"] have "fold ?add (concat (map ?names lags)) [] = map agg_LagName lags" using assms(1) by simp
  ultimately show ?thesis
    using assms(2) by (simp add: findAggregatesFromInterfaces_def createISISInterfaceNames_def findISISInterfaces_Some del: map_map)
qed

theorem ISIS_interfaces_roundtrip_witness:
  "let sub = \<lparr>sub_VlanID = 101, sub_IPv4Address = [], sub_IPv6Address = [], sub_IPv4PrefixLen = 30, sub_IPv6PrefixLen = 126\<rparr>;
       lag = \<lparr>agg_Desc = [], agg_IPv4 = [], agg_LagName = ''Port-Channel1'', agg_OndatraPortsIdx = [0], agg_SubInterfaces = [sub, sub]\<rparr> in
   findAggregatesFromInterfaces (map Some (createISISInterfaceNames ''Loopback0'' [lag])) = Some [''Port-Channel1'']"
proof -
  let ?sub = "\<lparr>sub_VlanID = 101, sub_IPv4Address = [], sub_IPv6Address = [], sub_IPv4PrefixLen = 30, sub_IPv6PrefixLen = 126\<rparr>"
  let ?lag = "\<lparr>agg_Desc = [], agg_IPv4 = [], agg_LagName = ''Port-Channel1'', agg_OndatraPortsIdx = [0], agg_SubInterfaces = [?sub, ?sub]\<rparr>"
  have "hasPrefix (toLower ''Loopback0'') ''lo''" "\<not> hasPrefix (toLower ''Port-Channel1'') ''lo''" by code_simp+
  then show ?thesis using ISIS_interfaces_roundtrip [of "[?lag]" "''Loopback0''"] by (simp add: Let_def)
qed


section \<open>Checks\<close>

lemma loss_percent:
  fixes out inp :: "64 word"
  assumes "unat out < 2 ^ 56" "unat inp < 2 ^ 56" "out \<noteq> 0"
  shows "((out - inp) * 100) div out > 0 \<longleftrightarrow> unat inp > unat out \<or> unat out \<le> (unat out - unat inp) * 100"
proof (cases "unat inp \<le> unat out")
  case True
  then have d: "unat (out - inp) = unat out - unat inp" by (simp add: unat_sub word_le_nat_alt)
  have "(unat out - unat inp) * 100 < 2 ^ 64" using assms(1) by simp
  moreover have "unat (x * 100) = unat x * 100" if "unat x * 100 < 2 ^ 64" for x :: "64 word"
    using that by (simp add: unat_word_ariths)
  ultimately have "unat ((out - inp) * 100) = (unat out - unat inp) * 100" using d by metis
  then have "unat (((out - inp) * 100) div out) = (unat out - unat inp) * 100 div unat out" by (simp add: unat_div)
  moreover have "0 < unat out" using assms(3) by (simp add: unat_gt_0)
  ultimately show ?thesis using True by (simp add: word_less_nat_alt div_greater_zero_iff)
next
  case False
  define d where "d = unat inp - unat out"
  have d: "0 < d" "d < 2 ^ 56" "unat inp = unat out + d" using False assms by (auto simp: d_def)
  then have "inp = out + of_nat d" by (metis of_nat_add of_nat_unat ucast_id)
  moreover have "100 * d \<le> 2 ^ 64" using d by simp
  then have "(of_nat (2 ^ 64 - 100 * d) :: 64 word) = - of_nat (100 * d)" by (simp only: of_nat_diff) simp
  ultimately have "(out - inp) * 100 = of_nat (2 ^ 64 - 100 * d)" by simp
  then have "unat ((out - inp) * 100) = 2 ^ 64 - 100 * d" using d by (simp only: unat_of_nat) simp
  moreover have "unat out \<le> 2 ^ 64 - 100 * d" using assms(1) d by simp
  ultimately have "unat (((out - inp) * 100) div out) \<noteq> 0"
    using assms(3) by (simp add: unat_div div_eq_0_iff unat_gt_0)
  then show ?thesis using False by (simp add: word_gt_0 unat_gt_0)
qed

text \<open>The traffic check of the scale tests, for octet counters below \<open>2 ^ 56\<close>: it reports nothing exactly when
  every reported flow has sent something and has not received more than it sent, and less than one percent is lost. The
  comment of the function asks for no loss at all, and a flow that is not reported is only logged.\<close>

theorem CheckTraffic_ok:
  assumes "\<forall>c \<in> set flows. unat (OutOctets c) < 2 ^ 56 \<and> unat (InOctets c) < 2 ^ 56"
  shows "CheckTraffic flows = [] \<longleftrightarrow>
    (\<forall>c \<in> set flows. OutOctets c \<noteq> 0 \<and> unat (InOctets c) \<le> unat (OutOctets c)
       \<and> (unat (OutOctets c) - unat (InOctets c)) * 100 < unat (OutOctets c))"
proof -
  have "CheckTraffic flows = [] \<longleftrightarrow>
      (\<forall>c \<in> set flows. OutOctets c \<noteq> 0 \<and> \<not> ((OutOctets c - InOctets c) * 100) div OutOctets c > 0)"
    by (induction flows) (auto simp: CheckTraffic_def Let_def)
  also have "\<dots> \<longleftrightarrow> (\<forall>c \<in> set flows. OutOctets c \<noteq> 0 \<and> unat (InOctets c) \<le> unat (OutOctets c)
       \<and> (unat (OutOctets c) - unat (InOctets c)) * 100 < unat (OutOctets c))"
    using assms by (intro ball_cong refl conj_cong) (subst loss_percent, auto)
  finally show ?thesis .
qed

theorem CheckTraffic_ok_witness:
  "CheckTraffic [\<lparr>fc_name = ''f'', InOctets = 1399000, OutOctets = 1400000\<rparr>] = []"
  using CheckTraffic_ok [of "[\<lparr>fc_name = ''f'', InOctets = 1399000, OutOctets = 1400000\<rparr>]"] by simp

lemma add_adjs_set: "distinct ids \<Longrightarrow> distinct (add_adjs adjs ids) \<and> set (add_adjs adjs ids) = set ids \<union> {n. (n, True) \<in> set adjs}"
  by (induction adjs ids rule: add_adjs.induct) auto

text \<open>The neighbours that one trial finds up.\<close>

definition up_in :: "(string \<times> bool) list option list \<Rightarrow> string set" where
  "up_in vs = {n. \<exists>adjs. Some adjs \<in> set vs \<and> (n, True) \<in> set adjs}"

lemma adj_trial_set:
  "distinct ids \<Longrightarrow> distinct (fold (\<lambda>v ids. case v of None \<Rightarrow> ids | Some adjs \<Rightarrow> add_adjs adjs ids) vs ids)
     \<and> set (fold (\<lambda>v ids. case v of None \<Rightarrow> ids | Some adjs \<Rightarrow> add_adjs adjs ids) vs ids) = set ids \<union> up_in vs"
proof (induction vs arbitrary: ids)
  case (Cons v vs)
  have "up_in (v # vs) = (case v of None \<Rightarrow> {} | Some adjs \<Rightarrow> {n. (n, True) \<in> set adjs}) \<union> up_in vs"
    by (auto simp: up_in_def split: option.splits)
  with Cons add_adjs_set show ?case by (auto split: option.splits)
qed (simp add: up_in_def)

lemma adj_trials_set:
  assumes "distinct ids"
  shows "\<exists>k \<le> n. let r = adj_trials n i want report ids in distinct r \<and> set r = set ids \<union> (\<Union>t < k. up_in (report (i + t)))
    \<and> (want \<le> length r \<or> k = n)"
  using assms
proof (induction n arbitrary: i ids)
  case (Suc n)
  let ?ids = "fold (\<lambda>v ids. case v of None \<Rightarrow> ids | Some adjs \<Rightarrow> add_adjs adjs ids) (report i) ids"
  have s: "distinct ?ids" "set ?ids = set ids \<union> up_in (report i)" using adj_trial_set [OF Suc.prems] by auto
  show ?case
  proof (cases "want \<le> length ?ids")
    case True
    with s show ?thesis by (intro exI [of _ 1]) (simp add: Let_def lessThan_Suc)
  next
    case False
    obtain k where k: "k \<le> n" "let r = adj_trials n (Suc i) want report ?ids in distinct r
        \<and> set r = set ?ids \<union> (\<Union>t < k. up_in (report (Suc i + t))) \<and> (want \<le> length r \<or> k = n)"
      using Suc.IH [OF s(1), of "Suc i"] by blast
    have "(\<Union>t < Suc k. up_in (report (i + t))) = up_in (report i) \<union> (\<Union>t < k. up_in (report (Suc i + t)))"
      by (simp add: lessThan_Suc_eq_insert_0)
    with False k s show ?thesis by (intro exI [of _ "Suc k"]) (auto simp: Let_def)
  qed
qed simp

text \<open>Polling for adjacencies: the count is the number of different neighbours seen up in the polls made, at
  most ten, and the verdict says whether the count reached the wanted one; the polling stops early only then.\<close>

theorem FindISISAdjCount_polls:
  "\<exists>k \<le> 10. FindISISAdjCountNonStream want report =
       (card (\<Union>t < k. up_in (report t)), want \<le> card (\<Union>t < k. up_in (report t)))
     \<and> (want \<le> card (\<Union>t < k. up_in (report t)) \<or> k = 10)"
  using adj_trials_set [of "[]" 10 0 want report] distinct_card [of "adj_trials 10 0 want report []"]
  by (auto simp: FindISISAdjCountNonStream_def Let_def)

end
