(* ===== verification/Test_Tracker.thy ===== *)
theory Test_Tracker
  imports Addrundata Version_Order "HOL-Library.AList"
begin

text \<open>
  \<^verbatim>\<open>tools/addrundata/list_testtracker.go\<close>: the hierarchical test plan of a flat test suite, and its merge into an
  existing JSON plan.

  The pointers of the plan are modelled by a store: \<open>ttsall\<close> maps UUIDs to test cases, and the plan under
  construction holds UUIDs. Go maps are association lists with distinct keys, in the order the runtime
  iterates them; a JSON object is one too. \<^verbatim>\<open>sort.Slice\<close> is an insertion sort, which gives the sorted order that
  any sort gives when no two keys are equal. \<^verbatim>\<open>uuid.Parse\<close> is the parameter of \<open>Addrundata\<close>: the canonical
  text and whether it is a version 4 UUID. JSON text is ASCII; reading and writing files is not modelled.

  A merge puts every test case of the plan into the JSON object, keeps what it does not know, and does
  nothing the second time.
\<close>

section \<open>The plan\<close>

record ttCase =
  tt_metadata :: Metadata
  testDirs :: "(string \<times> string) list"

type_synonym ttSuite = "(string \<times> ttCase) list"
type_synonym ttPlan = "(string \<times> ttSuite) list"

definition reduceMetadata :: "Metadata \<Rightarrow> Metadata" where
  "reduceMetadata md =
     \<lparr>Uuid = Uuid md, PlanId = PlanId md, Description = Description md, md_Testbed = TESTBED_UNSPECIFIED, PlatformExceptions = [], Tags = []\<rparr>"

definition add_dir :: "string \<Rightarrow> string \<Rightarrow> ttCase \<Rightarrow> ttCase" where
  "add_dir rootdir testdir ttc =
     (let kind = (if isTestKind (testKind testdir) then testKind testdir else []);
          reldir = (case filepath_Rel rootdir testdir of Some d \<Rightarrow> d | None \<Rightarrow> []) in
      ttc\<lparr>testDirs := AList.update kind reldir (testDirs ttc)\<rparr>)"

type_synonym plan_state = "ttSuite \<times> (string \<times> string list) list \<times> bool"

definition build_step :: "string \<Rightarrow> string \<times> testcase \<Rightarrow> plan_state \<Rightarrow> plan_state" where
  "build_step rootdir = (\<lambda>(testdir, tc) (ttsall, ttp, ok).
     case existing tc of
       None \<Rightarrow> (ttsall, ttp, False)
     | Some e \<Rightarrow>
         (let u = Uuid e;
              ttc = (case map_of ttsall u of Some ttc \<Rightarrow> ttc | None \<Rightarrow> \<lparr>tt_metadata = e, testDirs = []\<rparr>) in
          if e \<noteq> tt_metadata ttc then (AList.update u ttc ttsall, ttp, False)
          else let sec = testSection (PlanId (tt_metadata ttc));
                   us = (case map_of ttp sec of Some us \<Rightarrow> us | None \<Rightarrow> []) in
            (AList.update u (add_dir rootdir testdir ttc) ttsall,
             AList.update sec (if u \<in> set us then us else us @ [u]) ttp, ok)))"

definition deref :: "plan_state \<Rightarrow> ttPlan \<times> bool" where
  "deref = (\<lambda>(ttsall, ttp, ok). (map (\<lambda>(sec, us). (sec, map (\<lambda>u. (u, the (map_of ttsall u))) us)) ttp, ok))"

definition ttBuildPlan :: "(string \<times> testcase) list \<Rightarrow> string \<Rightarrow> ttPlan \<times> bool" where
  "ttBuildPlan ts rootdir = deref (fold (build_step rootdir) ts ([], [], True))"


section \<open>JSON\<close>

datatype json = JNull | JBool bool | JNum int | JStr string | JArr "json list" | JObj "(string \<times> json) list"

type_synonym object = "(string \<times> json) list"

text \<open>Reading \<^verbatim>\<open>o[k]\<close> with a type assertion.\<close>

definition get_str :: "object \<Rightarrow> string \<Rightarrow> string option" where
  "get_str ob k = (case map_of ob k of Some (JStr s) \<Rightarrow> Some s | _ \<Rightarrow> None)"

definition get_obj :: "object \<Rightarrow> string \<Rightarrow> object option" where
  "get_obj ob k = (case map_of ob k of Some (JObj x) \<Rightarrow> Some x | _ \<Rightarrow> None)"

definition get_children :: "object \<Rightarrow> json list" where
  "get_children ob = (case map_of ob ''children'' of Some (JArr xs) \<Rightarrow> xs | _ \<Rightarrow> [])"

definition escape :: "char \<Rightarrow> string" where
  "escape c =
     (if c = CHR 0x22 then [CHR 0x5C, CHR 0x22]
      else if c = CHR 0x5C then [CHR 0x5C, CHR 0x5C]
      else if c = CHR 0x0A then [CHR 0x5C, CHR ''n'']
      else if c = CHR 0x0D then [CHR 0x5C, CHR ''r'']
      else if c = CHR 0x09 then [CHR 0x5C, CHR ''t'']
      else if c = CHR 0x08 then [CHR 0x5C, CHR ''b'']
      else if c = CHR 0x0C then [CHR 0x5C, CHR ''f'']
      else if code c < 0x20 \<or> c \<in> {CHR ''<'', CHR ''>'', CHR ''&''} then
        [CHR 0x5C, CHR ''u'', CHR ''0'', CHR ''0'', ''0123456789abcdef'' ! (code c div 16), ''0123456789abcdef'' ! (code c mod 16)]
      else [c])"

definition jsonQuote :: "string \<Rightarrow> string" where
  "jsonQuote s = CHR 0x22 # concat (map escape s) @ [CHR 0x22]"


section \<open>Sorting\<close>

fun insert_by :: "('a \<Rightarrow> 'a \<Rightarrow> bool) \<Rightarrow> 'a \<Rightarrow> 'a list \<Rightarrow> 'a list" where
  "insert_by lt x [] = [x]"
| "insert_by lt x (y # ys) = (if lt y x then y # insert_by lt x ys else x # y # ys)"

definition sort_slice :: "('a \<Rightarrow> 'a \<Rightarrow> bool) \<Rightarrow> 'a list \<Rightarrow> 'a list" where
  "sort_slice lt xs = foldr (insert_by lt) xs []"

definition plan_sortedKeys :: "ttPlan \<Rightarrow> string list" where
  "plan_sortedKeys ttp = sort_slice lessVersion (map fst ttp)"

definition suite_sortedKeys :: "ttSuite \<Rightarrow> string list" where
  "suite_sortedKeys tts =
     sort_slice (\<lambda>a b. lessVersion (PlanId (tt_metadata (the (map_of tts a)))) (PlanId (tt_metadata (the (map_of tts b))))) (map fst tts)"

definition builtinSortedKeys :: "(string \<times> string) list \<Rightarrow> string list" where
  "builtinSortedKeys m = sort_slice (<) (map fst m)"


section \<open>Test cases\<close>

definition repoTreeMain :: string where
  "repoTreeMain = ''https://github.com/openconfig/featureprofiles/tree/main''"

definition ttDesc :: "(string \<times> string) list \<Rightarrow> string" where
  "ttDesc dirs =
     (if dirs = [] then []
      else ''See code location:'' @ [CHR 0x0A]
        @ concat (map (\<lambda>kind. let kindstr = (case testKinds kind of Some k \<Rightarrow> k | None \<Rightarrow> ''Test'') in
            ''  - '' @ kindstr @ '': '' @ repoTreeMain @ ''/'' @ the (map_of dirs kind) @ [CHR 0x0A]) (builtinSortedKeys dirs)))"

definition defaultCaseAttrs :: object where
  "defaultCaseAttrs =
     [(''script'', JArr []), (''requirement'', JStr []), (''script_name'', JStr []), (''script_type'', JStr ''NA''),
      (''script_status'', JStr ''Needs Evaluation''), (''tags'', JStr []), (''priority'', JNum 0), (''duration'', JNum 0),
      (''goal'', JStr []), (''topology'', JNull)]"

definition case_title :: "ttCase \<Rightarrow> string" where
  "case_title ttc = PlanId (tt_metadata ttc) @ '': '' @ Description (tt_metadata ttc)"

definition set_default :: "string \<times> json \<Rightarrow> object \<Rightarrow> object" where
  "set_default = (\<lambda>(k, v) attrs. if map_of attrs k = None then AList.update k v attrs else attrs)"

definition case_merge :: "ttCase \<Rightarrow> object \<Rightarrow> object" where
  "case_merge ttc ob =
     (let ob = AList.update ''text'' (JStr (case_title ttc)) (AList.update ''type'' (JStr ''testcases'') ob);
          attrs = (case get_obj ob ''li_attr'' of Some attrs \<Rightarrow> attrs | None \<Rightarrow> []);
          attrs = AList.update ''rel'' (JStr ''testcases'') attrs;
          attrs = AList.update ''title'' (JStr (case_title ttc)) attrs;
          attrs = AList.update ''uuid'' (JStr (Uuid (tt_metadata ttc))) attrs;
          attrs = AList.update ''description'' (JStr (jsonQuote (ttDesc (testDirs ttc)))) attrs in
      AList.update ''li_attr'' (JObj (fold set_default defaultCaseAttrs attrs)) ob)"

record ttCaseKey =
  key_o :: object
  testUUID :: string
  testPlanID :: string

definition childCase :: "uuid_parse \<Rightarrow> json \<Rightarrow> ttCaseKey option" where
  "childCase parse child =
     (case child of
        JObj ob \<Rightarrow>
          (case get_obj ob ''li_attr'' of
             None \<Rightarrow> None
           | Some attrs \<Rightarrow>
               (case get_str attrs ''uuid'' of
                  None \<Rightarrow> None
                | Some u \<Rightarrow>
                    (case parse u of
                       Some (True, canon) \<Rightarrow>
                         Some \<lparr>key_o = ob, testUUID = canon,
                               testPlanID = (case get_str attrs ''title'' of
                                  None \<Rightarrow> []
                                | Some title \<Rightarrow>
                                    (case str_index title '':'' of Some i \<Rightarrow> trimSpace (take i title) | None \<Rightarrow> []))\<rparr>
                     | _ \<Rightarrow> None)))
      | _ \<Rightarrow> None)"


section \<open>Test suites\<close>

definition suite_empty :: "string \<Rightarrow> object" where
  "suite_empty sec =
     (let title = ''['' @ sec @ '']'' in
      [(''text'', JStr title), (''type'', JStr ''testsuites''),
       (''li_attr'', JObj [(''rel'', JStr ''testsuites''), (''title'', JStr title), (''description'', JStr (jsonQuote [])), (''tags'', JStr [])])])"

text \<open>\<^verbatim>\<open>bytp\<close>: of test cases with the same plan ID the last one stays.\<close>

definition by_plan :: "ttSuite \<Rightarrow> string \<Rightarrow> (string \<times> ttCase) option" where
  "by_plan tts = map_of (map (\<lambda>(u, ttc). (PlanId (tt_metadata ttc), u, ttc)) (rev tts))"

definition case_for :: "ttSuite \<Rightarrow> ttCaseKey \<Rightarrow> (string \<times> ttCase) option" where
  "case_for tts key =
     (case (if testPlanID key \<noteq> [] then by_plan tts (testPlanID key) else None) of
        Some (u, ttc) \<Rightarrow> Some (Uuid (tt_metadata ttc), ttc)
      | None \<Rightarrow> map_option (\<lambda>ttc. (testUUID key, ttc)) (map_of tts (testUUID key)))"

text \<open>One child of the old object: the new child, and the test case it stands for.\<close>

definition suite_child :: "uuid_parse \<Rightarrow> ttSuite \<Rightarrow> json \<Rightarrow> json \<times> string option" where
  "suite_child parse tts child =
     (case childCase parse child of
        None \<Rightarrow> (child, None)
      | Some key \<Rightarrow>
          (case case_for tts key of
             Some (u, ttc) \<Rightarrow> (JObj (case_merge ttc (key_o key)), Some u)
           | None \<Rightarrow> (child, None)))"

definition suite_merge :: "uuid_parse \<Rightarrow> ttSuite \<Rightarrow> object \<Rightarrow> object" where
  "suite_merge parse tts ob =
     (let rs = map (suite_child parse tts) (get_children ob);
          todos = filter (\<lambda>(u, _). Some u \<notin> snd ` set rs) tts in
      AList.update ''children'' (JArr (map fst rs @ map (\<lambda>u. JObj (case_merge (the (map_of todos u)) [])) (suite_sortedKeys todos))) ob)"


section \<open>The test plan\<close>

definition plan_empty :: object where
  "plan_empty =
     (let title = ''Feature Profiles Test Plan'' in
      [(''text'', JStr title), (''type'', JStr ''testplan''),
       (''li_attr'', JObj [(''rel'', JStr ''testplan''), (''title'', JStr title),
          (''introduction'', JStr (jsonQuote ''https://github.com/openconfig/featureprofiles''))])])"

text \<open>\<^verbatim>\<open>bracketRE\<close>: the text between the first opening bracket with a later closing one and the first closing
  one after it, not over a line end.\<close>

fun upto_bracket :: "string \<Rightarrow> string option" where
  "upto_bracket [] = None"
| "upto_bracket (c # s) =
     (if c = CHR '']'' then Some [] else if c = CHR 0x0A then None else map_option ((#) c) (upto_bracket s))"

fun bracketRE :: "string \<Rightarrow> string option" where
  "bracketRE [] = None"
| "bracketRE (c # s) =
     (if c = CHR ''['' then (case upto_bracket s of Some m \<Rightarrow> Some m | None \<Rightarrow> bracketRE s) else bracketRE s)"

definition childSuite :: "json \<Rightarrow> (object \<times> string) option" where
  "childSuite child =
     (case child of
        JObj ob \<Rightarrow>
          (case get_str ob ''text'' of
             None \<Rightarrow> None
           | Some text \<Rightarrow> map_option (\<lambda>sec. (ob, sec)) (bracketRE text))
      | _ \<Rightarrow> None)"

definition plan_child :: "uuid_parse \<Rightarrow> ttPlan \<Rightarrow> json \<Rightarrow> json \<times> string option" where
  "plan_child parse ttp child =
     (case childSuite child of
        None \<Rightarrow> (child, None)
      | Some (ob, sec) \<Rightarrow>
          (case map_of ttp sec of
             None \<Rightarrow> (child, None)
           | Some tts \<Rightarrow> (JObj (suite_merge parse tts ob), Some sec)))"

definition plan_merge :: "uuid_parse \<Rightarrow> ttPlan \<Rightarrow> object \<Rightarrow> object" where
  "plan_merge parse ttp ob =
     (let rs = map (plan_child parse ttp) (get_children ob);
          todos = filter (\<lambda>(sec, _). Some sec \<notin> snd ` set rs) ttp in
      AList.update ''children'' (JArr (map fst rs
        @ map (\<lambda>sec. JObj (suite_merge parse (the (map_of todos sec)) (suite_empty sec))) (plan_sortedKeys todos))) ob)"

text \<open>The whole command on a parsed existing plan, if there is one.\<close>

definition listTestTracker :: "uuid_parse \<Rightarrow> (string \<times> testcase) list \<Rightarrow> string \<Rightarrow> object option \<Rightarrow> object option run" where
  "listTestTracker parse ts featuredir mergejson =
     (if \<exists>(d, tc) \<in> set ts. existing tc = None then Panic
      else let ts = map (\<lambda>(d, tc). (d, tc\<lparr>existing := map_option reduceMetadata (existing tc)\<rparr>)) ts;
               (ttp, ok) = ttBuildPlan ts (filepath_Dir featuredir) in
        if \<not> ok then Ret None
        else Ret (Some (plan_merge parse ttp (fold (\<lambda>(k, v). AList.update k v) (case mergejson of Some m \<Rightarrow> m | None \<Rightarrow> []) plan_empty))))"


section \<open>Merging children\<close>

lemma set_sort_slice [simp]: "set (sort_slice lt xs) = set xs"
proof -
  have "set (insert_by lt x ys) = insert x (set ys)" for x ys by (induction ys) auto
  then show ?thesis by (induction xs) (simp_all add: sort_slice_def)
qed

text \<open>Both merges treat the children of an object in the same way. For parameters that are \<open>ok\<close>: a child that was
  merged is merged into itself, and so is a new child, which stands for its key.\<close>

locale merger =
  fixes ok :: "'p \<Rightarrow> bool" and child :: "'p \<Rightarrow> json \<Rightarrow> json \<times> string option" and keys :: "'p \<Rightarrow> string list"
    and new :: "'p \<Rightarrow> string \<Rightarrow> json" and srt :: "'p \<Rightarrow> string list \<Rightarrow> string list" and merge :: "'p \<Rightarrow> json list \<Rightarrow> json list"
  assumes child_again: "ok p \<Longrightarrow> child p (fst (child p x)) = child p x"
    and child_new: "ok p \<Longrightarrow> k \<in> set (keys p) \<Longrightarrow> child p (new p k) = (new p k, Some k)"
    and set_srt: "set (srt p ks) = set ks"
    and merge_eq: "ok p \<Longrightarrow> merge p xs = map (fst \<circ> child p) xs @ map (new p) (srt p (filter (\<lambda>k. Some k \<notin> (snd \<circ> child p) ` set xs) (keys p)))"
begin

lemma merge_complete: "ok p \<Longrightarrow> k \<in> set (keys p) \<Longrightarrow> \<exists>y \<in> set (merge p xs). child p y = (y, Some k)"
proof (cases "Some k \<in> (snd \<circ> child p) ` set xs")
  case True
  moreover assume "ok p" "k \<in> set (keys p)"
  ultimately obtain x where x: "x \<in> set xs" "snd (child p x) = Some k" by auto
  have "child p (fst (child p x)) = (fst (child p x), Some k)" using child_again [OF \<open>ok p\<close>, of x] x by (simp add: prod_eq_iff)
  moreover have "fst (child p x) \<in> set (merge p xs)" using x \<open>ok p\<close> by (simp add: merge_eq)
  ultimately show ?thesis by blast
next
  case False
  moreover assume "ok p" "k \<in> set (keys p)"
  ultimately show ?thesis using child_new [of p k] by (intro bexI [of _ "new p k"]) (simp_all add: merge_eq set_srt)
qed

lemma child_merged: "ok p \<Longrightarrow> y \<in> set (merge p xs) \<Longrightarrow> fst (child p y) = y"
  by (auto simp: merge_eq set_srt child_new child_again)

lemma merge_again: "ok p \<Longrightarrow> merge p (merge p xs) = merge p xs"
proof -
  assume p: "ok p"
  have "map (fst \<circ> child p) (merge p xs) = map id (merge p xs)" by (rule map_cong) (simp_all add: child_merged [OF p])
  moreover have "filter (\<lambda>k. Some k \<notin> (snd \<circ> child p) ` set (merge p xs)) (keys p) = []"
    using merge_complete [OF p] by (force simp: filter_empty_conv)
  moreover have "srt p [] = []" using set_srt [of p "[]"] by simp
  ultimately show ?thesis using p by (simp add: merge_eq [of p "merge p xs"])
qed

lemma merge_keeps: "ok p \<Longrightarrow> x \<in> set xs \<Longrightarrow> snd (child p x) = None \<Longrightarrow> fst (child p x) \<in> set (merge p xs)"
  by (simp add: merge_eq)

end


section \<open>Merging a test case\<close>

lemma map_of_update [simp]: "map_of (AList.update k v al) j = (if j = k then Some v else map_of al j)"
  by (simp add: AList.update_conv')

lemma update_same: "map_of al k = Some v \<Longrightarrow> AList.update k v al = al"
  by (rule AList.update_triv)

definition has_case :: "ttCase \<Rightarrow> object \<Rightarrow> bool" where
  "has_case ttc ob \<longleftrightarrow>
     map_of ob ''type'' = Some (JStr ''testcases'') \<and> map_of ob ''text'' = Some (JStr (case_title ttc))
     \<and> (\<exists>attrs. map_of ob ''li_attr'' = Some (JObj attrs) \<and> map_of attrs ''rel'' = Some (JStr ''testcases'')
          \<and> map_of attrs ''title'' = Some (JStr (case_title ttc)) \<and> map_of attrs ''uuid'' = Some (JStr (Uuid (tt_metadata ttc)))
          \<and> map_of attrs ''description'' = Some (JStr (jsonQuote (ttDesc (testDirs ttc))))
          \<and> fst ` set defaultCaseAttrs \<subseteq> dom (map_of attrs))"

lemma defaults_kept: "map_of attrs k = Some v \<Longrightarrow> map_of (fold set_default ds attrs) k = Some v"
proof (induction ds arbitrary: attrs)
  case (Cons d ds)
  have "map_of (set_default d attrs) k = Some v" using Cons.prems by (cases d) (auto simp: set_default_def)
  with Cons.IH show ?case by simp
qed simp

lemma defaults_set: "fst ` set ds \<subseteq> dom (map_of (fold set_default ds attrs))"
proof (induction ds arbitrary: attrs)
  case (Cons d ds)
  obtain k v where d: "d = (k, v)" by fastforce
  have "map_of (set_default d attrs) k \<noteq> None" by (simp add: d set_default_def)
  then have "k \<in> dom (map_of (fold set_default ds (set_default d attrs)))" using defaults_kept by fast
  with Cons d show ?case by simp
qed simp

lemma defaults_same: "fst ` set ds \<subseteq> dom (map_of attrs) \<Longrightarrow> fold set_default ds attrs = attrs"
  by (induction ds) (auto simp: set_default_def)

lemma case_merge_has: "has_case ttc (case_merge ttc ob)"
proof -
  let ?attrs = "case get_obj ob ''li_attr'' of Some attrs \<Rightarrow> attrs | None \<Rightarrow> []"
  let ?a = "AList.update ''description'' (JStr (jsonQuote (ttDesc (testDirs ttc)))) (AList.update ''uuid'' (JStr (Uuid (tt_metadata ttc)))
     (AList.update ''title'' (JStr (case_title ttc)) (AList.update ''rel'' (JStr ''testcases'') ?attrs)))"
  have "map_of (case_merge ttc ob) ''li_attr'' = Some (JObj (fold set_default defaultCaseAttrs ?a))"
    by (simp add: case_merge_def Let_def get_obj_def)
  moreover have "map_of (case_merge ttc ob) ''type'' = Some (JStr ''testcases'')" "map_of (case_merge ttc ob) ''text'' = Some (JStr (case_title ttc))"
    by (simp_all add: case_merge_def Let_def)
  ultimately show ?thesis unfolding has_case_def by (auto intro!: exI [of _ "fold set_default defaultCaseAttrs ?a"] defaults_kept defaults_set)
qed

lemma case_merge_same: "has_case ttc ob \<Longrightarrow> case_merge ttc ob = ob"
  by (auto simp: has_case_def case_merge_def Let_def get_obj_def update_same defaults_same)

definition good_case :: "uuid_parse \<Rightarrow> Metadata \<Rightarrow> bool" where
  "good_case parse md \<longleftrightarrow> parse (Uuid md) = Some (True, Uuid md) \<and> PlanId md \<noteq> [] \<and> CHR '':'' \<notin> set (PlanId md) \<and> trimSpace (PlanId md) = PlanId md"

lemma str_index_char: "c \<notin> set p \<Longrightarrow> str_index (p @ c # s) [c] = Some (length p)"
  by (induction p) (auto simp: hasPrefix_def)

lemma childCase_has:
  assumes "has_case ttc ob" "good_case parse (tt_metadata ttc)"
  shows "childCase parse (JObj ob) = Some \<lparr>key_o = ob, testUUID = Uuid (tt_metadata ttc), testPlanID = PlanId (tt_metadata ttc)\<rparr>"
proof -
  have "str_index (case_title ttc) '':'' = Some (length (PlanId (tt_metadata ttc)))"
    using assms(2) str_index_char [of "CHR '':''" "PlanId (tt_metadata ttc)"] by (simp add: case_title_def good_case_def)
  with assms show ?thesis by (auto simp: has_case_def good_case_def childCase_def get_obj_def get_str_def case_title_def)
qed


section \<open>Merging a test suite\<close>

definition wf_suite :: "uuid_parse \<Rightarrow> ttSuite \<Rightarrow> bool" where
  "wf_suite parse tts \<longleftrightarrow> distinct (map fst tts) \<and> distinct (map (\<lambda>x. PlanId (tt_metadata (snd x))) tts)
     \<and> (\<forall>(u, ttc) \<in> set tts. Uuid (tt_metadata ttc) = u \<and> good_case parse (tt_metadata ttc))"

lemma by_plan_lookup: "wf_suite parse tts \<Longrightarrow> (u, ttc) \<in> set tts \<Longrightarrow> by_plan tts (PlanId (tt_metadata ttc)) = Some (u, ttc)"
  unfolding by_plan_def by (rule map_of_is_SomeI) (force simp: wf_suite_def comp_def case_prod_beta rev_map [symmetric])+

lemma case_for_cases: "case_for tts key = Some (u, ttc) \<Longrightarrow> wf_suite parse tts \<Longrightarrow> (u, ttc) \<in> set tts"
  by (auto simp: case_for_def by_plan_def wf_suite_def split: option.splits if_splits dest!: map_of_SomeD)

lemma suite_child_has:
  assumes "wf_suite parse tts" "(u, ttc) \<in> set tts" "has_case ttc ob"
  shows "suite_child parse tts (JObj ob) = (JObj ob, Some u)"
proof -
  have g: "Uuid (tt_metadata ttc) = u" "good_case parse (tt_metadata ttc)" using assms by (auto simp: wf_suite_def)
  then have "case_for tts \<lparr>key_o = ob, testUUID = u, testPlanID = PlanId (tt_metadata ttc)\<rparr> = Some (u, ttc)"
    using by_plan_lookup [OF assms(1,2)] by (simp add: case_for_def good_case_def)
  with g childCase_has [OF assms(3)] show ?thesis by (simp add: suite_child_def case_merge_same [OF assms(3)])
qed

lemma suite_child_again:
  assumes "wf_suite parse tts"
  shows "suite_child parse tts (fst (suite_child parse tts x)) = suite_child parse tts x"
proof (cases "snd (suite_child parse tts x)")
  case None
  then have "fst (suite_child parse tts x) = x" by (auto simp: suite_child_def split: option.splits)
  then show ?thesis by simp
next
  case (Some u)
  then obtain key ttc where k: "childCase parse x = Some key" "case_for tts key = Some (u, ttc)"
    "suite_child parse tts x = (JObj (case_merge ttc (key_o key)), Some u)"
    by (auto simp: suite_child_def split: option.splits)
  with suite_child_has [OF assms case_for_cases [OF k(2) assms] case_merge_has] show ?thesis by simp
qed

definition suite_new :: "ttSuite \<Rightarrow> string \<Rightarrow> json" where
  "suite_new tts u = JObj (case_merge (the (map_of tts u)) [])"

lemma map_of_filter_key: "P k \<Longrightarrow> map_of (filter (\<lambda>(k, _). P k) xs) k = map_of xs k"
  by (induction xs) auto

lemma children_update [simp]: "get_children (AList.update ''children'' (JArr xs) ob) = xs"
  by (simp add: get_children_def)

text \<open>What the two merges do to the list of children.\<close>

definition suite_children :: "uuid_parse \<times> ttSuite \<Rightarrow> json list \<Rightarrow> json list" where
  "suite_children = (\<lambda>(parse, tts) xs. get_children (suite_merge parse tts [(''children'', JArr xs)]))"

lemma suite_merge_children: "suite_merge parse tts ob = AList.update ''children'' (JArr (suite_children (parse, tts) (get_children ob))) ob"
  by (simp add: suite_merge_def suite_children_def Let_def get_children_def)

definition suite_srt :: "uuid_parse \<times> ttSuite \<Rightarrow> string list \<Rightarrow> string list" where
  "suite_srt = (\<lambda>(parse, tts). sort_slice (\<lambda>a b. lessVersion (PlanId (tt_metadata (the (map_of tts a)))) (PlanId (tt_metadata (the (map_of tts b))))))"

lemma sort_slice_cong:
  assumes "\<And>x y. x \<in> set xs \<Longrightarrow> y \<in> set xs \<Longrightarrow> lt x y = lt' x y"
  shows "sort_slice lt xs = sort_slice lt' xs"
  using assms
proof (induction xs)
  case (Cons x xs)
  have i: "insert_by lt x ys = insert_by lt' x ys" if "set ys \<subseteq> set xs" for ys
    using that by (induction ys) (auto simp: Cons.prems)
  have "insert_by lt x (sort_slice lt' xs) = insert_by lt' x (sort_slice lt' xs)" by (rule i) simp
  with Cons show ?case by (simp add: sort_slice_def)
qed (simp add: sort_slice_def)

lemma todo_keys: "map fst (filter (\<lambda>(u, _). P u) xs) = filter P (map fst xs)"
  by (induction xs) auto

lemma todo_lookup: "u \<in> set (map fst (filter (\<lambda>(u, _). P u) xs)) \<Longrightarrow> map_of (filter (\<lambda>(u, _). P u) xs) u = map_of xs u"
  by (rule map_of_filter_key) auto

lemma suite_children_eq:
  "suite_children (parse, tts) xs = map (fst \<circ> suite_child parse tts) xs
     @ map (suite_new tts) (suite_srt (parse, tts) (filter (\<lambda>k. Some k \<notin> (snd \<circ> suite_child parse tts) ` set xs) (map fst tts)))"
proof -
  define P where "P u \<longleftrightarrow> Some u \<notin> (snd \<circ> suite_child parse tts) ` set xs" for u
  define todos where "todos = filter (\<lambda>(u, _). P u) tts"
  note lookup = todo_lookup [of _ P tts, folded todos_def]
  have "suite_children (parse, tts) xs = map (fst \<circ> suite_child parse tts) xs
      @ map (\<lambda>u. JObj (case_merge (the (map_of todos u)) [])) (suite_sortedKeys todos)"
    by (simp add: suite_children_def suite_merge_def Let_def todos_def P_def image_comp get_children_def)
  moreover have s: "suite_sortedKeys todos = suite_srt (parse, tts) (map fst todos)"
    unfolding suite_sortedKeys_def suite_srt_def case_prod_conv by (rule sort_slice_cong) (simp only: lookup)
  moreover have "map (\<lambda>u. JObj (case_merge (the (map_of todos u)) [])) (suite_sortedKeys todos) = map (suite_new tts) (suite_sortedKeys todos)"
    by (rule map_cong) (simp_all add: suite_sortedKeys_def suite_new_def lookup)
  ultimately show ?thesis by (simp add: todos_def todo_keys P_def)
qed

interpretation suites: merger "\<lambda>(parse, tts). wf_suite parse tts" "\<lambda>(parse, tts). suite_child parse tts" "\<lambda>(parse, tts). map fst tts"
  "\<lambda>(parse, tts). suite_new tts" suite_srt suite_children
proof
  fix p :: "uuid_parse \<times> ttSuite" and x k xs ks
  obtain parse tts where p: "p = (parse, tts)" by fastforce
  show "set (suite_srt p ks) = set ks" by (simp add: p suite_srt_def)
  assume "case p of (parse, tts) \<Rightarrow> wf_suite parse tts"
  then have wf: "wf_suite parse tts" by (simp add: p)
  show "(case p of (parse, tts) \<Rightarrow> suite_child parse tts) (fst ((case p of (parse, tts) \<Rightarrow> suite_child parse tts) x))
      = (case p of (parse, tts) \<Rightarrow> suite_child parse tts) x"
    using suite_child_again [OF wf] by (simp add: p)
  show "(case p of (parse, tts) \<Rightarrow> suite_child parse tts) ((case p of (parse, tts) \<Rightarrow> suite_new tts) k)
      = ((case p of (parse, tts) \<Rightarrow> suite_new tts) k, Some k)" if "k \<in> set (case p of (parse, tts) \<Rightarrow> map fst tts)"
  proof -
    from that obtain ttc where t: "(k, ttc) \<in> set tts" by (auto simp: p)
    then have "map_of tts k = Some ttc" using wf by (simp add: wf_suite_def)
    then show ?thesis using suite_child_has [OF wf t case_merge_has] by (simp add: p suite_new_def)
  qed
  show "suite_children p xs = map (fst \<circ> (case p of (parse, tts) \<Rightarrow> suite_child parse tts)) xs
      @ map ((case p of (parse, tts) \<Rightarrow> suite_new tts)) (suite_srt p (filter (\<lambda>k. Some k \<notin> (snd \<circ> (case p of (parse, tts) \<Rightarrow> suite_child parse tts)) ` set xs)
          (case p of (parse, tts) \<Rightarrow> map fst tts)))"
    by (simp only: p case_prod_conv suite_children_eq)
qed


lemma suite_merge_again: "wf_suite parse tts \<Longrightarrow> suite_merge parse tts (suite_merge parse tts ob) = suite_merge parse tts ob"
  using suites.merge_again [of "(parse, tts)"] by (simp add: suite_merge_children update_same)

lemma suite_merge_complete:
  assumes "wf_suite parse tts" "(u, ttc) \<in> set tts"
  shows "\<exists>ob'. JObj ob' \<in> set (get_children (suite_merge parse tts ob)) \<and> has_case ttc ob'"
proof -
  obtain y where y: "y \<in> set (suite_children (parse, tts) (get_children ob))" "suite_child parse tts y = (y, Some u)"
    using suites.merge_complete [of "(parse, tts)" u] assms by force
  from y(2) obtain key ttc' where k: "case_for tts key = Some (u, ttc')" "y = JObj (case_merge ttc' (key_o key))"
    by (auto simp: suite_child_def split: option.splits)
  from case_for_cases [OF k(1) assms(1)] assms have "ttc' = ttc" by (metis map_of_is_SomeI option.inject wf_suite_def)
  with y k case_merge_has [of ttc] show ?thesis by (auto simp: suite_merge_children)
qed


section \<open>Merging a test plan\<close>

definition wf_plan :: "uuid_parse \<Rightarrow> ttPlan \<Rightarrow> bool" where
  "wf_plan parse ttp \<longleftrightarrow> distinct (map fst ttp)
     \<and> (\<forall>(sec, tts) \<in> set ttp. wf_suite parse tts \<and> CHR '']'' \<notin> set sec \<and> CHR 0x0A \<notin> set sec)"

lemma childSuite_merge: "childSuite (JObj ob) = Some (ob, sec) \<Longrightarrow> childSuite (JObj (suite_merge parse tts ob)) = Some (suite_merge parse tts ob, sec)"
  by (auto simp: childSuite_def suite_merge_children get_str_def split: option.splits json.splits)

lemma childSuite_empty:
  assumes "CHR '']'' \<notin> set sec" "CHR 0x0A \<notin> set sec"
  shows "childSuite (JObj (suite_empty sec)) = Some (suite_empty sec, sec)"
proof -
  have "upto_bracket (sec @ '']'') = Some sec" using assms by (induction sec) auto
  then show ?thesis by (simp add: childSuite_def suite_empty_def Let_def get_str_def)
qed

lemma childSuite_obj: "childSuite x = Some (ob, sec) \<Longrightarrow> x = JObj ob"
  by (auto simp: childSuite_def split: json.splits option.splits)

lemma plan_child_again:
  assumes "wf_plan parse ttp"
  shows "plan_child parse ttp (fst (plan_child parse ttp x)) = plan_child parse ttp x"
proof (cases "snd (plan_child parse ttp x)")
  case None
  then have "fst (plan_child parse ttp x) = x" by (auto simp: plan_child_def split: option.splits)
  then show ?thesis by simp
next
  case (Some sec)
  then obtain ob tts where k: "childSuite x = Some (ob, sec)" "map_of ttp sec = Some tts"
    "plan_child parse ttp x = (JObj (suite_merge parse tts ob), Some sec)"
    by (auto simp: plan_child_def split: option.splits)
  have "wf_suite parse tts" using assms map_of_SomeD [OF k(2)] by (auto simp: wf_plan_def)
  moreover have "childSuite (JObj ob) = Some (ob, sec)" using k(1) childSuite_obj by metis
  ultimately show ?thesis using k childSuite_merge [of ob sec parse tts] by (simp add: plan_child_def [of _ _ "JObj _"] suite_merge_again)
qed

definition plan_new :: "uuid_parse \<Rightarrow> ttPlan \<Rightarrow> string \<Rightarrow> json" where
  "plan_new parse ttp sec = JObj (suite_merge parse (the (map_of ttp sec)) (suite_empty sec))"

definition plan_children :: "uuid_parse \<times> ttPlan \<Rightarrow> json list \<Rightarrow> json list" where
  "plan_children = (\<lambda>(parse, ttp) xs. get_children (plan_merge parse ttp [(''children'', JArr xs)]))"

lemma plan_merge_children: "plan_merge parse ttp ob = AList.update ''children'' (JArr (plan_children (parse, ttp) (get_children ob))) ob"
  by (simp add: plan_merge_def plan_children_def Let_def get_children_def)

lemma plan_children_eq:
  "plan_children (parse, ttp) xs = map (fst \<circ> plan_child parse ttp) xs
     @ map (plan_new parse ttp) (sort_slice lessVersion (filter (\<lambda>k. Some k \<notin> (snd \<circ> plan_child parse ttp) ` set xs) (map fst ttp)))"
proof -
  define P where "P u \<longleftrightarrow> Some u \<notin> (snd \<circ> plan_child parse ttp) ` set xs" for u
  define todos where "todos = filter (\<lambda>(u, _). P u) ttp"
  note lookup = todo_lookup [of _ P ttp, folded todos_def]
  have "plan_children (parse, ttp) xs = map (fst \<circ> plan_child parse ttp) xs
      @ map (\<lambda>sec. JObj (suite_merge parse (the (map_of todos sec)) (suite_empty sec))) (plan_sortedKeys todos)"
    by (simp add: plan_children_def plan_merge_def Let_def todos_def P_def image_comp get_children_def)
  moreover have "map (\<lambda>sec. JObj (suite_merge parse (the (map_of todos sec)) (suite_empty sec))) (plan_sortedKeys todos)
      = map (plan_new parse ttp) (plan_sortedKeys todos)"
    by (rule map_cong) (simp_all add: plan_sortedKeys_def plan_new_def lookup)
  ultimately show ?thesis by (simp add: plan_sortedKeys_def todos_def todo_keys P_def)
qed

interpretation plans: merger "\<lambda>(parse, ttp). wf_plan parse ttp" "\<lambda>(parse, ttp). plan_child parse ttp" "\<lambda>(parse, ttp). map fst ttp"
  "\<lambda>(parse, ttp). plan_new parse ttp" "\<lambda>_. sort_slice lessVersion" plan_children
proof
  fix p :: "uuid_parse \<times> ttPlan" and x k xs and ks :: "string list"
  obtain parse ttp where p: "p = (parse, ttp)" by fastforce
  show "set (sort_slice lessVersion ks) = set ks" by simp
  assume "case p of (parse, ttp) \<Rightarrow> wf_plan parse ttp"
  then have wf: "wf_plan parse ttp" by (simp add: p)
  show "(case p of (parse, ttp) \<Rightarrow> plan_child parse ttp) (fst ((case p of (parse, ttp) \<Rightarrow> plan_child parse ttp) x))
      = (case p of (parse, ttp) \<Rightarrow> plan_child parse ttp) x"
    using plan_child_again [OF wf] by (simp add: p)
  show "(case p of (parse, ttp) \<Rightarrow> plan_child parse ttp) ((case p of (parse, ttp) \<Rightarrow> plan_new parse ttp) k)
      = ((case p of (parse, ttp) \<Rightarrow> plan_new parse ttp) k, Some k)" if "k \<in> set (case p of (parse, ttp) \<Rightarrow> map fst ttp)"
  proof -
    from that obtain tts where t: "(k, tts) \<in> set ttp" by (auto simp: p)
    with wf have m: "map_of ttp k = Some tts" "wf_suite parse tts" "CHR '']'' \<notin> set k" "CHR 0x0A \<notin> set k" by (auto simp: wf_plan_def)
    then show ?thesis
      using childSuite_merge [OF childSuite_empty, of k parse tts] by (simp add: p plan_new_def plan_child_def suite_merge_again)
  qed
  show "plan_children p xs = map (fst \<circ> (case p of (parse, ttp) \<Rightarrow> plan_child parse ttp)) xs
      @ map ((case p of (parse, ttp) \<Rightarrow> plan_new parse ttp)) (sort_slice lessVersion (filter (\<lambda>k. Some k \<notin> (snd \<circ> (case p of (parse, ttp) \<Rightarrow> plan_child parse ttp)) ` set xs)
          (case p of (parse, ttp) \<Rightarrow> map fst ttp)))"
    by (simp only: p case_prod_conv plan_children_eq)
qed

lemma plan_merge_again: "wf_plan parse ttp \<Longrightarrow> plan_merge parse ttp (plan_merge parse ttp ob) = plan_merge parse ttp ob"
  using plans.merge_again [of "(parse, ttp)"] by (simp add: plan_merge_children update_same)

lemma plan_merge_complete:
  assumes "wf_plan parse ttp" "(sec, tts) \<in> set ttp" "(u, ttc) \<in> set tts"
  shows "\<exists>so co. JObj so \<in> set (get_children (plan_merge parse ttp ob)) \<and> childSuite (JObj so) = Some (so, sec)
    \<and> JObj co \<in> set (get_children so) \<and> has_case ttc co"
proof -
  obtain y where y: "y \<in> set (plan_children (parse, ttp) (get_children ob))" "plan_child parse ttp y = (y, Some sec)"
    using plans.merge_complete [of "(parse, ttp)" sec] assms by force
  from y(2) obtain so tts' where k: "childSuite y = Some (so, sec)" "map_of ttp sec = Some tts'" "y = JObj (suite_merge parse tts' so)"
    by (auto simp: plan_child_def split: option.splits)
  have "map_of ttp sec = Some tts" using assms by (simp add: wf_plan_def)
  with k have e: "tts' = tts" "y = JObj so" "so = suite_merge parse tts so" using childSuite_obj by (auto dest: childSuite_obj)
  have "wf_suite parse tts" using assms by (auto simp: wf_plan_def)
  then obtain co where "JObj co \<in> set (get_children (suite_merge parse tts so))" "has_case ttc co"
    using suite_merge_complete assms(3) by blast
  with y k e show ?thesis by (metis children_update plan_merge_children)
qed

lemma plan_merge_keeps:
  assumes "wf_plan parse ttp" "x \<in> set (get_children ob)" "childSuite x = None \<or> (\<exists>so sec. childSuite x = Some (so, sec) \<and> sec \<notin> fst ` set ttp)"
  shows "x \<in> set (get_children (plan_merge parse ttp ob))"
proof -
  have "plan_child parse ttp x = (x, None)"
    using assms(3) by (auto simp: plan_child_def split: option.splits dest!: map_of_SomeD intro: rev_image_eqI)
  then show ?thesis using plans.merge_keeps [of "(parse, ttp)" x] assms(1,2) by (simp add: plan_merge_children)
qed


section \<open>Building the plan\<close>

definition metas :: "(string \<times> testcase) list \<Rightarrow> Metadata set" where
  "metas ts = (\<Union>x \<in> set ts. set_option (existing (snd x)))"

definition inv_all :: "Metadata set \<Rightarrow> (string \<rightharpoonup> ttCase) \<Rightarrow> bool" where
  "inv_all M A \<longleftrightarrow> (\<forall>u c. A u = Some c \<longrightarrow> Uuid (tt_metadata c) = u \<and> tt_metadata c \<in> M) \<and> (\<forall>e \<in> M. A (Uuid e) \<noteq> None)"

definition inv_ttp :: "(string \<rightharpoonup> ttCase) \<Rightarrow> (string \<rightharpoonup> string list) \<Rightarrow> bool" where
  "inv_ttp A T \<longleftrightarrow>
     (\<forall>sec us. T sec = Some us \<longrightarrow> us \<noteq> [] \<and> distinct us \<and> (\<forall>u \<in> set us. \<exists>c. A u = Some c \<and> testSection (PlanId (tt_metadata c)) = sec))
     \<and> (\<forall>u c. A u = Some c \<longrightarrow> (\<exists>us. T (testSection (PlanId (tt_metadata c))) = Some us \<and> u \<in> set us))"

definition plan_inv :: "Metadata set \<Rightarrow> plan_state \<Rightarrow> bool" where
  "plan_inv M = (\<lambda>(ttsall, ttp, ok). ok \<and> distinct (map fst ttp) \<and> inv_all M (map_of ttsall) \<and> inv_ttp (map_of ttsall) (map_of ttp))"

lemma tt_metadata_add_dir [simp]: "tt_metadata (add_dir r d c) = tt_metadata c"
  by (simp add: add_dir_def Let_def)

lemma inv_all_step:
  assumes "inv_all M A" "tt_metadata c = e"
  shows "inv_all (insert e M) (A(Uuid e \<mapsto> c))"
  using assms by (auto simp: inv_all_def)

lemma inv_ttp_step:
  assumes inv: "inv_ttp A T" and c: "tt_metadata c = e" "\<And>c'. A u = Some c' \<Longrightarrow> tt_metadata c' = e"
    and us: "us = (case T (testSection (PlanId e)) of Some us \<Rightarrow> us | None \<Rightarrow> [])"
  shows "inv_ttp (A(u \<mapsto> c)) (T(testSection (PlanId e) \<mapsto> (if u \<in> set us then us else us @ [u])))"
proof -
  let ?sec = "testSection (PlanId e)"
  have old: "distinct us" "x \<in> set us \<Longrightarrow> \<exists>c. A x = Some c \<and> testSection (PlanId (tt_metadata c)) = ?sec" for x
    using inv us by (auto simp: inv_ttp_def split: option.splits)
  have other: "x \<noteq> u" if "T sec = Some xs" "x \<in> set xs" "sec \<noteq> ?sec" for sec xs x
    using inv that c(2) unfolding inv_ttp_def by blast
  show ?thesis
    unfolding inv_ttp_def
  proof (intro conjI allI impI ballI)
    fix sec xs x
    assume T: "(T(?sec \<mapsto> (if u \<in> set us then us else us @ [u]))) sec = Some xs"
    then show "distinct xs" "xs \<noteq> []" using inv old(1) by (auto simp: inv_ttp_def split: if_splits)
    assume x: "x \<in> set xs"
    show "\<exists>c'. (A(u \<mapsto> c)) x = Some c' \<and> testSection (PlanId (tt_metadata c')) = sec"
    proof (cases "sec = ?sec")
      case True
      with T x old(2) c(1) show ?thesis by (cases "x = u") (auto split: if_splits)
    next
      case False
      with T have "T sec = Some xs" by simp
      with False x other [of sec xs x] inv show ?thesis by (simp add: inv_ttp_def)
    qed
  next
    fix x c'
    assume A: "(A(u \<mapsto> c)) x = Some c'"
    show "\<exists>xs. (T(?sec \<mapsto> (if u \<in> set us then us else us @ [u]))) (testSection (PlanId (tt_metadata c'))) = Some xs \<and> x \<in> set xs"
    proof (cases "x = u")
      case True
      with A c show ?thesis by simp
    next
      case False
      with A have "A x = Some c'" by simp
      then obtain xs where xs: "T (testSection (PlanId (tt_metadata c'))) = Some xs" "x \<in> set xs" using inv unfolding inv_ttp_def by blast
      show ?thesis
      proof (cases "testSection (PlanId (tt_metadata c')) = ?sec")
        case True
        with xs us show ?thesis by simp
      next
        case False
        with xs show ?thesis by simp
      qed
    qed
  qed
qed

lemma map_of_update_fun: "map_of (AList.update k v al) = (map_of al)(k \<mapsto> v)"
  by (rule ext) simp

lemma plan_inv_step:
  assumes inv: "plan_inv M st" and e: "existing tc = Some e" and cons: "\<And>e'. e' \<in> M \<Longrightarrow> Uuid e' = Uuid e \<Longrightarrow> e' = e"
  shows "plan_inv (insert e M) (build_step rootdir (d, tc) st)"
proof -
  obtain ttsall ttp ok where st: "st = (ttsall, ttp, ok)" by (metis prod_cases3)
  note I = inv [unfolded plan_inv_def st case_prod_conv]
  define c where "c = (case map_of ttsall (Uuid e) of Some ttc \<Rightarrow> ttc | None \<Rightarrow> \<lparr>tt_metadata = e, testDirs = []\<rparr>)"
  define us where "us = (case map_of ttp (testSection (PlanId e)) of Some us \<Rightarrow> us | None \<Rightarrow> [])"
  have same: "tt_metadata c' = e" if "map_of ttsall (Uuid e) = Some c'" for c'
    using that I cons unfolding inv_all_def by blast
  then have c: "tt_metadata c = e" by (simp add: c_def split: option.splits)
  have "build_step rootdir (d, tc) st = (AList.update (Uuid e) (add_dir rootdir d c) ttsall,
      AList.update (testSection (PlanId e)) (if Uuid e \<in> set us then us else us @ [Uuid e]) ttp, ok)"
    by (simp only: build_step_def st prod.case e option.case Let_def c_def [symmetric] c us_def [symmetric] simp_thms if_False)
  moreover have "distinct (map fst (AList.update (testSection (PlanId e)) (if Uuid e \<in> set us then us else us @ [Uuid e]) ttp))"
    using I by (simp add: AList.distinct_update)
  ultimately show ?thesis
    using I c same inv_all_step [of M "map_of ttsall" "add_dir rootdir d c" e]
      inv_ttp_step [of "map_of ttsall" "map_of ttp" "add_dir rootdir d c" e "Uuid e" us] us_def
    by (simp add: plan_inv_def map_of_update_fun)
qed

lemma plan_inv_fold:
  assumes "\<forall>(d, tc) \<in> set ts. existing tc \<noteq> None" "\<And>e e'. e \<in> M \<union> metas ts \<Longrightarrow> e' \<in> M \<union> metas ts \<Longrightarrow> Uuid e' = Uuid e \<Longrightarrow> e' = e"
    "plan_inv M st"
  shows "plan_inv (M \<union> metas ts) (fold (build_step rootdir) ts st)"
  using assms
proof (induction ts arbitrary: M st)
  case (Cons x ts)
  obtain d tc where x: "x = (d, tc)" by fastforce
  with Cons.prems(1) obtain e where e: "existing tc = Some e" by auto
  have m: "M \<union> metas (x # ts) = insert e M \<union> metas ts" using x e by (auto simp: metas_def)
  have "plan_inv (insert e M) (build_step rootdir x st)"
    unfolding x using Cons.prems(2) m by (intro plan_inv_step [OF Cons.prems(3) e]) blast
  then have "plan_inv (insert e M \<union> metas ts) (fold (build_step rootdir) ts (build_step rootdir x st))"
    using Cons.prems(1,2) m by (intro Cons.IH) auto
  with m show ?case by simp
qed (simp add: metas_def)

definition plan_ok :: "uuid_parse \<Rightarrow> Metadata set \<Rightarrow> bool" where
  "plan_ok parse M \<longleftrightarrow>
     (\<forall>e \<in> M. good_case parse e \<and> CHR '']'' \<notin> set (PlanId e) \<and> CHR 0x0A \<notin> set (PlanId e))
     \<and> (\<forall>e \<in> M. \<forall>e' \<in> M. (Uuid e = Uuid e' \<longleftrightarrow> PlanId e = PlanId e') \<and> (Uuid e = Uuid e' \<longrightarrow> Description e = Description e'))"

lemma set_testSection: "set (testSection p) \<subseteq> set p"
  by (auto simp: testSection_def split: option.splits dest: in_set_takeD)

lemma deref_wf:
  assumes inv: "plan_inv M (ttsall, ttp, ok)" and ok: "plan_ok parse M"
  shows "wf_plan parse (fst (deref (ttsall, ttp, ok)))"
    and "e \<in> M \<Longrightarrow> (\<And>e'. e' \<in> M \<Longrightarrow> Uuid e' = Uuid e \<Longrightarrow> e' = e) \<Longrightarrow>
      \<exists>tts ttc. (testSection (PlanId e), tts) \<in> set (fst (deref (ttsall, ttp, ok))) \<and> (Uuid e, ttc) \<in> set tts \<and> tt_metadata ttc = e"
proof -
  let ?A = "map_of ttsall"
  have I: "distinct (map fst ttp)" "inv_all M ?A" "inv_ttp ?A (map_of ttp)" using inv by (simp_all add: plan_inv_def)
  let ?suite = "\<lambda>us. map (\<lambda>u. (u, the (?A u))) us"
  have keys: "map fst (fst (deref (ttsall, ttp, ok))) = map fst ttp" by (simp add: deref_def comp_def case_prod_beta)
  have wf: "wf_suite parse (?suite us) \<and> CHR '']'' \<notin> set sec \<and> CHR 0x0A \<notin> set sec" if "(sec, us) \<in> set ttp" for sec us
  proof -
    have us: "us \<noteq> []" "distinct us" "\<And>u. u \<in> set us \<Longrightarrow> \<exists>c. ?A u = Some c \<and> testSection (PlanId (tt_metadata c)) = sec"
    proof -
      have "map_of ttp sec = Some us" using I(1) that by simp
      with I(3) show "us \<noteq> []" "distinct us" "\<And>u. u \<in> set us \<Longrightarrow> \<exists>c. ?A u = Some c \<and> testSection (PlanId (tt_metadata c)) = sec"
        unfolding inv_ttp_def by blast+
    qed
    have md: "tt_metadata (the (?A u)) \<in> M \<and> Uuid (tt_metadata (the (?A u))) = u \<and> testSection (PlanId (tt_metadata (the (?A u)))) = sec"
      if "u \<in> set us" for u
      using us(3) [OF that] I(2) unfolding inv_all_def by force
    have "u = u'" if "u \<in> set us" "u' \<in> set us" "PlanId (tt_metadata (the (?A u))) = PlanId (tt_metadata (the (?A u')))" for u u'
      using md [OF that(1)] md [OF that(2)] that(3) ok unfolding plan_ok_def by metis
    then have "distinct (map (\<lambda>u. PlanId (tt_metadata (the (?A u)))) us)" using us(2) by (simp add: distinct_map inj_on_def)
    moreover have "good_case parse (tt_metadata (the (?A u)))" if "u \<in> set us" for u using md [OF that] ok by (simp add: plan_ok_def)
    ultimately have "wf_suite parse (?suite us)" using us(2) md by (auto simp: wf_suite_def comp_def)
    moreover obtain u where "u \<in> set us" using us(1) by (cases us) auto
    with md ok set_testSection have "CHR '']'' \<notin> set sec \<and> CHR 0x0A \<notin> set sec" unfolding plan_ok_def by blast
    ultimately show ?thesis by simp
  qed
  show "wf_plan parse (fst (deref (ttsall, ttp, ok)))"
    unfolding wf_plan_def keys using I(1) wf by (auto simp: deref_def)
  assume e: "e \<in> M" "\<And>e'. e' \<in> M \<Longrightarrow> Uuid e' = Uuid e \<Longrightarrow> e' = e"
  then obtain c where c: "?A (Uuid e) = Some c" "tt_metadata c = e" using I(2) unfolding inv_all_def by blast
  then obtain us where "map_of ttp (testSection (PlanId e)) = Some us" "Uuid e \<in> set us" using I(3) unfolding inv_ttp_def by blast
  with c show "\<exists>tts ttc. (testSection (PlanId e), tts) \<in> set (fst (deref (ttsall, ttp, ok))) \<and> (Uuid e, ttc) \<in> set tts \<and> tt_metadata ttc = e"
    by (intro exI [of _ "?suite us"] exI [of _ c]) (force simp: deref_def dest: map_of_SomeD)
qed

lemma reduce_simps [simp]: "Uuid (reduceMetadata e) = Uuid e" "PlanId (reduceMetadata e) = PlanId e" "Description (reduceMetadata e) = Description e"
  by (simp_all add: reduceMetadata_def)

text \<open>The plan of a suite whose metadata passes the checks of the tool.\<close>

lemma listTestTracker_plan:
  assumes all: "\<forall>(d, tc) \<in> set ts. existing tc \<noteq> None" and ok: "plan_ok parse (metas ts)"
  shows "\<exists>ttp. wf_plan parse ttp
    \<and> (\<forall>e \<in> metas ts. \<exists>tts ttc. (testSection (PlanId e), tts) \<in> set ttp \<and> (Uuid e, ttc) \<in> set tts \<and> tt_metadata ttc = reduceMetadata e)
    \<and> (\<forall>old. listTestTracker parse ts dir old =
         Ret (Some (plan_merge parse ttp (fold (\<lambda>(k, v). AList.update k v) (case old of Some m \<Rightarrow> m | None \<Rightarrow> []) plan_empty))))"
proof -
  let ?ts = "map (\<lambda>(d, tc). (d, tc\<lparr>existing := map_option reduceMetadata (existing tc)\<rparr>)) ts" and ?root = "filepath_Dir dir"
  have m: "metas ?ts = reduceMetadata ` metas ts" by (simp add: metas_def image_UN option.set_map case_prod_beta)
  have ok': "plan_ok parse (metas ?ts)" using ok unfolding m plan_ok_def good_case_def by (simp only: ball_simps reduce_simps)
  have eq: "e' = e" if "e \<in> metas ?ts" "e' \<in> metas ?ts" "Uuid e' = Uuid e" for e e'
  proof -
    from that(1,2) obtain x y where xy: "x \<in> metas ts" "y \<in> metas ts" "e = reduceMetadata x" "e' = reduceMetadata y" unfolding m by blast
    with that(3) have "Uuid y = Uuid x" by simp
    then have "PlanId y = PlanId x" "Description y = Description x" using ok xy(1,2) unfolding plan_ok_def by blast+
    with \<open>Uuid y = Uuid x\<close> xy show ?thesis by (simp add: reduceMetadata_def)
  qed
  obtain ttsall ttp ok where st: "fold (build_step ?root) ?ts ([], [], True) = (ttsall, ttp, ok)"
    by (cases "fold (build_step ?root) ?ts ([], [], True)")
  have "plan_inv ({} \<union> metas ?ts) (fold (build_step ?root) ?ts ([], [], True))"
    using all eq by (intro plan_inv_fold) (auto simp: plan_inv_def inv_all_def inv_ttp_def)
  then have inv: "plan_inv (metas ?ts) (ttsall, ttp, ok)" by (simp add: st)
  have "ok" using inv by (simp add: plan_inv_def)
  then have b: "ttBuildPlan ?ts ?root = (fst (deref (ttsall, ttp, ok)), True)" by (simp add: ttBuildPlan_def st deref_def)
  show ?thesis
  proof (intro exI [of _ "fst (deref (ttsall, ttp, ok))"] conjI ballI allI)
    show "wf_plan parse (fst (deref (ttsall, ttp, ok)))" by (rule deref_wf [OF inv ok'])
    show "\<exists>tts ttc. (testSection (PlanId e), tts) \<in> set (fst (deref (ttsall, ttp, ok))) \<and> (Uuid e, ttc) \<in> set tts \<and> tt_metadata ttc = reduceMetadata e"
      if "e \<in> metas ts" for e
      using deref_wf(2) [OF inv ok', of "reduceMetadata e"] that eq m by auto
    show "listTestTracker parse ts dir old = Ret (Some (plan_merge parse (fst (deref (ttsall, ttp, ok)))
        (fold (\<lambda>(k, v). AList.update k v) (case old of Some m \<Rightarrow> m | None \<Rightarrow> []) plan_empty)))" for old
      using all b by (auto simp: listTestTracker_def Let_def)
  qed
qed

lemma map_of_fold_update:
  assumes "distinct (map fst xs)"
  shows "map_of (fold (\<lambda>(k, v). AList.update k v) xs ys) k = (case map_of xs k of Some v \<Rightarrow> Some v | None \<Rightarrow> map_of ys k)"
  using assms
proof (induction xs arbitrary: ys)
  case (Cons x xs)
  obtain a b where x: "x = (a, b)" by fastforce
  have "map_of xs a = None" using Cons.prems x by (simp add: map_of_eq_None_iff)
  with Cons x show ?case by (cases "k = a") (simp_all split: option.splits)
qed simp

lemma distinct_fold_update: "distinct (map fst ys) \<Longrightarrow> distinct (map fst (fold (\<lambda>(k, v). AList.update k v) xs ys))"
  by (induction xs arbitrary: ys) (auto simp: AList.distinct_update)

lemma plan_empty_distinct: "distinct (map fst plan_empty)"
  by (simp add: plan_empty_def Let_def)

text \<open>C17: The test tracker command, on tests whose metadata is consistent: it succeeds; every test is in the resulting
  plan, in the suite of its section, with its title, UUID and description; children of the existing plan that
  are not test suites stay; and merging the result again changes nothing.\<close>

theorem listTestTracker_merges:
  assumes all: "\<forall>(d, tc) \<in> set ts. existing tc \<noteq> None" and ok: "plan_ok parse (metas ts)"
    and old: "distinct (map fst m)"
  shows "\<exists>ob. listTestTracker parse ts dir (Some m) = Ret (Some ob)
    \<and> (\<forall>e \<in> metas ts. \<exists>so co ttc. JObj so \<in> set (get_children ob) \<and> childSuite (JObj so) = Some (so, testSection (PlanId e))
         \<and> JObj co \<in> set (get_children so) \<and> has_case ttc co \<and> tt_metadata ttc = reduceMetadata e)
    \<and> (\<forall>x \<in> set (get_children m). childSuite x = None \<longrightarrow> x \<in> set (get_children ob))
    \<and> (\<exists>ob'. listTestTracker parse ts dir (Some ob) = Ret (Some ob') \<and> map_of ob' = map_of ob)"
proof -
  obtain ttp where wf: "wf_plan parse ttp"
    and plan: "\<forall>e \<in> metas ts. \<exists>tts ttc. (testSection (PlanId e), tts) \<in> set ttp \<and> (Uuid e, ttc) \<in> set tts \<and> tt_metadata ttc = reduceMetadata e"
    and run: "\<forall>old. listTestTracker parse ts dir old =
      Ret (Some (plan_merge parse ttp (fold (\<lambda>(k, v). AList.update k v) (case old of Some m \<Rightarrow> m | None \<Rightarrow> []) plan_empty)))"
    using listTestTracker_plan [OF all ok] by blast
  let ?fill = "\<lambda>xs. fold (\<lambda>(k, v). AList.update k v) xs plan_empty"
  define ob where "ob = plan_merge parse ttp (?fill m)"
  have r: "listTestTracker parse ts dir (Some m) = Ret (Some ob)" using run by (simp add: ob_def)
  have "\<exists>so co ttc. JObj so \<in> set (get_children ob) \<and> childSuite (JObj so) = Some (so, testSection (PlanId e))
      \<and> JObj co \<in> set (get_children so) \<and> has_case ttc co \<and> tt_metadata ttc = reduceMetadata e" if "e \<in> metas ts" for e
    using plan that plan_merge_complete [OF wf] unfolding ob_def by metis
  moreover have "x \<in> set (get_children ob)" if "x \<in> set (get_children m)" "childSuite x = None" for x
  proof -
    have "map_of plan_empty ''children'' = None" by (simp add: plan_empty_def Let_def)
    then have "get_children (?fill m) = get_children m"
      using map_of_fold_update [OF old, of plan_empty "''children''"] by (simp add: get_children_def split: option.splits)
    with that show ?thesis unfolding ob_def by (intro plan_merge_keeps [OF wf]) auto
  qed
  moreover have "\<exists>ob'. listTestTracker parse ts dir (Some ob) = Ret (Some ob') \<and> map_of ob' = map_of ob"
  proof (intro exI conjI)
    show "listTestTracker parse ts dir (Some ob) = Ret (Some (plan_merge parse ttp (?fill ob)))" using run by simp
    have d: "distinct (map fst ob)"
      unfolding ob_def plan_merge_children by (intro AList.distinct_update distinct_fold_update plan_empty_distinct)
    have "map_of ob k = None \<Longrightarrow> map_of plan_empty k = None" for k
      using map_of_fold_update [OF old, of plan_empty k] by (simp add: ob_def plan_merge_children split: option.splits if_splits)
    then have f: "map_of (?fill ob) = map_of ob"
      by (intro ext) (simp add: map_of_fold_update [OF d] split: option.splits)
    then have "get_children (?fill ob) = get_children ob" by (simp add: get_children_def)
    moreover have "plan_children (parse, ttp) (get_children ob) = get_children ob"
      using plans.merge_again [of "(parse, ttp)"] wf by (simp add: ob_def plan_merge_children)
    moreover have "map_of ob ''children'' = Some (JArr (get_children ob))" by (simp add: ob_def plan_merge_children)
    ultimately show "map_of (plan_merge parse ttp (?fill ob)) = map_of ob"
      by (intro ext) (simp add: plan_merge_children f)
  qed
  ultimately show ?thesis using r by blast
qed

theorem listTestTracker_merges_witness:
  "let e = \<lparr>Uuid = ''u'', PlanId = ''RT-1.2'', Description = ''d'', md_Testbed = TESTBED_UNSPECIFIED, PlatformExceptions = [], Tags = []\<rparr>;
       ts = [(''feature/a/tests/t'', \<lparr>markdown = None, existing = Some e, fixed = None\<rparr>)] in
   \<exists>ob so co. listTestTracker (\<lambda>u. Some (True, u)) ts ''feature'' (Some []) = Ret (Some ob)
     \<and> JObj so \<in> set (get_children ob) \<and> childSuite (JObj so) = Some (so, ''RT-1'') \<and> JObj co \<in> set (get_children so)"
proof -
  let ?e = "\<lparr>Uuid = ''u'', PlanId = ''RT-1.2'', Description = ''d'', md_Testbed = TESTBED_UNSPECIFIED, PlatformExceptions = [], Tags = []\<rparr>"
  let ?ts = "[(''feature/a/tests/t'', \<lparr>markdown = None, existing = Some ?e, fixed = None\<rparr>)]"
  have m: "metas ?ts = {?e}" by (simp add: metas_def)
  have "testSection ''RT-1.2'' = ''RT-1''" "trimSpace ''RT-1.2'' = ''RT-1.2''" by code_simp+
  then show ?thesis
    using listTestTracker_merges [of ?ts "\<lambda>u. Some (True, u)" "[]" "''feature''"] unfolding m Let_def
    by (simp add: plan_ok_def good_case_def) blast
qed

end
