(* ===== verification/Deviations.thy ===== *)
theory Deviations
  imports FP_Prelude "HOL-Library.Multiset"
begin


record Metadata_Deviations =
  default_network_instance :: string
  static_protocol_name :: string
  default_bgp_instance_name :: string
  default_ni_gnmi_server_name :: string
  max_out_fib_route_count :: "32 word"
  urpf_config_oc_unsupported :: bool
  interface_policy_forwarding_unsupported :: bool
  cpu_missing_ancestor :: bool
  interface_ref_config_unsupported :: bool
  require_routed_subinterface_0 :: bool
  gnoi_switchover_reason_missing_user_initiated :: bool
  p4rt_unsetelectionid_primary_allowed :: bool
  bkup_arbitration_resp_code :: bool
  backup_nhg_requires_vrf_with_decap :: bool
  ate_port_link_state_operations_unsupported :: bool
  ate_ipv6_flow_label_unsupported :: bool






section \<open>Lookup\<close>







section \<open>Accessors\<close>

text \<open>An accessor is a function of what the lookup gives.\<close>

definition or_default :: "string \<Rightarrow> string" where
  "or_default s = (if s \<noteq> [] then s else ''DEFAULT'')"


definition StaticProtocolName :: "('e, Metadata_Deviations) res \<Rightarrow> ('e, string) res" where
  "StaticProtocolName l = bind_res l (\<lambda>d. Inr (or_default (static_protocol_name d)))"

definition DefaultBgpInstanceName :: "('e, Metadata_Deviations) res \<Rightarrow> ('e, string) res" where
  "DefaultBgpInstanceName l = bind_res l (\<lambda>d. Inr (or_default (default_bgp_instance_name d)))"

definition DefaultNiGnmiServerName :: "('e, Metadata_Deviations) res \<Rightarrow> ('e, string) res" where
  "DefaultNiGnmiServerName l = bind_res l (\<lambda>d. Inr (or_default (default_ni_gnmi_server_name d)))"

definition MaxOutFIBRouteCount :: "('e, Metadata_Deviations) res \<Rightarrow> ('e, 32 word) res" where
  "MaxOutFIBRouteCount l = bind_res l (\<lambda>d. Inr (if max_out_fib_route_count d \<noteq> 0 then max_out_fib_route_count d else 2500000))"

definition URPFConfigOCUnsupported :: "('e, Metadata_Deviations) res \<Rightarrow> ('e, bool) res" where
  "URPFConfigOCUnsupported l = bind_res l (\<lambda>d. Inr (interface_policy_forwarding_unsupported d))"

text \<open>The flags that were set on the command line, with their values. A flag goes before the lookup, which is then
  not made.\<close>

definition isFlagSet :: "(string \<times> bool) list \<Rightarrow> string \<Rightarrow> bool" where
  "isFlagSet flags name = fold (\<lambda>(n, _) visited. if n = name then True else visited) flags False"

definition by_flag :: "string \<Rightarrow> (Metadata_Deviations \<Rightarrow> bool) \<Rightarrow> (string \<times> bool) list \<Rightarrow> ('e, Metadata_Deviations) res \<Rightarrow> ('e, bool) res" where
  "by_flag name field flags l =
     (if isFlagSet flags name then Inr (the (map_of flags name)) else bind_res l (\<lambda>d. Inr (field d)))"

definition CPUMissingAncestor :: "(string \<times> bool) list \<Rightarrow> ('e, Metadata_Deviations) res \<Rightarrow> ('e, bool) res" where
  "CPUMissingAncestor = by_flag ''deviation_cpu_missing_ancestor'' cpu_missing_ancestor"

definition InterfaceRefConfigUnsupported :: "(string \<times> bool) list \<Rightarrow> ('e, Metadata_Deviations) res \<Rightarrow> ('e, bool) res" where
  "InterfaceRefConfigUnsupported = by_flag ''deviation_interface_ref_config_unsupported'' interface_ref_config_unsupported"

definition RequireRoutedSubinterface0 :: "(string \<times> bool) list \<Rightarrow> ('e, Metadata_Deviations) res \<Rightarrow> ('e, bool) res" where
  "RequireRoutedSubinterface0 = by_flag ''deviation_require_routed_subinterface_0'' require_routed_subinterface_0"

definition GNOISwitchoverReasonMissingUserInitiated :: "(string \<times> bool) list \<Rightarrow> ('e, Metadata_Deviations) res \<Rightarrow> ('e, bool) res" where
  "GNOISwitchoverReasonMissingUserInitiated =
     by_flag ''deviation_gnoi_switchover_reason_missing_user_initiated'' gnoi_switchover_reason_missing_user_initiated"

definition P4rtUnsetElectionIDPrimaryAllowed :: "(string \<times> bool) list \<Rightarrow> ('e, Metadata_Deviations) res \<Rightarrow> ('e, bool) res" where
  "P4rtUnsetElectionIDPrimaryAllowed = by_flag ''deviation_p4rt_unsetelectionid_primary_allowed'' p4rt_unsetelectionid_primary_allowed"

definition P4rtBackupArbitrationResponseCode :: "(string \<times> bool) list \<Rightarrow> ('e, Metadata_Deviations) res \<Rightarrow> ('e, bool) res" where
  "P4rtBackupArbitrationResponseCode = by_flag ''deviation_bkup_arbitration_resp_code'' bkup_arbitration_resp_code"

definition BackupNHGRequiresVrfWithDecap :: "(string \<times> bool) list \<Rightarrow> ('e, Metadata_Deviations) res \<Rightarrow> ('e, bool) res" where
  "BackupNHGRequiresVrfWithDecap = by_flag ''deviation_backup_nhg_requires_vrf_with_decap'' backup_nhg_requires_vrf_with_decap"

definition ATEPortLinkStateOperationsUnsupported :: "(string \<times> bool) list \<Rightarrow> ('e, Metadata_Deviations) res \<Rightarrow> ('e, bool) res" where
  "ATEPortLinkStateOperationsUnsupported =
     by_flag ''deviation_ate_port_link_state_operations_unsupported'' ate_port_link_state_operations_unsupported"

definition ATEIPv6FlowLabelUnsupported :: "(string \<times> bool) list \<Rightarrow> ('e, Metadata_Deviations) res \<Rightarrow> ('e, bool) res" where
  "ATEIPv6FlowLabelUnsupported = by_flag ''deviation_ate_ipv6_flow_label_unsupported'' ate_ipv6_flow_label_unsupported"


section \<open>What the lookup finds\<close>













lemma isFlagSet_iff: "isFlagSet flags name \<longleftrightarrow> name \<in> fst ` set flags"
proof -
  have "fold (\<lambda>(n, _) visited. if n = name then True else visited) fs b \<longleftrightarrow> b \<or> name \<in> fst ` set fs" for b and fs :: "(string \<times> bool) list"
    by (induction fs arbitrary: b) auto
  then show ?thesis by (simp add: isFlagSet_def)
qed

text \<open>A flag that is set decides, also when the lookup would fail; one that is not set leaves the metadata's value.\<close>

lemma by_flag_set: "distinct (map fst flags) \<Longrightarrow> (name, b) \<in> set flags \<Longrightarrow> by_flag name field flags l = Inr b"
  by (force simp: by_flag_def isFlagSet_iff)

lemma by_flag_unset: "name \<notin> fst ` set flags \<Longrightarrow> by_flag name field flags (Inr d) = Inr (field d)"
  by (simp add: by_flag_def isFlagSet_iff bind_res_def)

text \<open>The deviation for uRPF has no effect: its accessor reads another field.\<close>

lemma URPF_ignored: "URPFConfigOCUnsupported (Inr (d\<lparr>urpf_config_oc_unsupported := b\<rparr>)) = URPFConfigOCUnsupported (Inr d)"
  by (simp add: URPFConfigOCUnsupported_def bind_res_def)

end
