(* ===== verification/Rundata.thy ===== *)
theory Rundata
  imports FP_Prelude Go_Path "HOL-Library.List_Lexorder" "HOL-Library.Char_ord" "HOL-Library.AList"
begin

text \<open>
  \<^verbatim>\<open>internal/rundata\<close>: the properties of a test run - facts on the build, the repository, the flags, the topology
  and the devices (\<^verbatim>\<open>rundata.go\<close>, \<^verbatim>\<open>local.go\<close>, \<^verbatim>\<open>dut.go\<close>) -, with \<^verbatim>\<open>internal/pathutil\<close> and the search of
  \<^verbatim>\<open>internal/components\<close> it uses.

  What a device, the Go runtime and the Git library answer is an argument, \<open>None\<close> for an error. The map of
  properties is an association list without duplicate keys. Go maps that are iterated are lists in the order of
  the runtime. Logging and the time stamps are not modelled.

  The theorems: which source decides vendor, model and version; the path of a test in the repository; the summary
  of the topology.
\<close>

type_synonym properties = "(string \<times> string) list"

abbreviation put_prop :: "string \<Rightarrow> string \<Rightarrow> properties \<Rightarrow> properties" where
  "put_prop \<equiv> AList.update"


section \<open>Facts on a device\<close>

record DUTInfo =
  di_Vendor :: string
  di_Model :: string
  di_OSVer :: string

datatype component_type = CHASSIS | OPERATING_SYSTEM | OtherType

record component =
  MfgName :: "string option"
  PartNo :: "string option"
  c_Description :: "string option"
  SoftwareVersion :: "string option"

text \<open>The answers of a device: the types of its components (a component may have none), the components, the
  software version of a component and of the system, and the LLDP description.\<close>

record answers =
  component_types :: "(string \<times> component_type option) list option"
  get_component :: "string \<Rightarrow> component option"
  component_version :: "string \<Rightarrow> string option"
  system_version :: "string option"
  lldp_description :: "string option"

definition FindByType :: "component_type \<Rightarrow> answers \<Rightarrow> string list option" where
  "FindByType want y =
     (case component_types y of
        None \<Rightarrow> None
      | Some vs \<Rightarrow>
          (let names = concat (map (\<lambda>(name, v). case v of None \<Rightarrow> [] | Some got \<Rightarrow> if got \<noteq> want then [] else [name]) vs) in
           if length names < 1 then None else Some names))"

definition chassis_fields :: "component \<Rightarrow> DUTInfo \<Rightarrow> DUTInfo" where
  "chassis_fields cmp di =
     (let di = (case MfgName cmp of Some s \<Rightarrow> if di_Vendor di = [] then di\<lparr>di_Vendor := s\<rparr> else di | None \<Rightarrow> di);
          di = (case PartNo cmp of Some s \<Rightarrow> if di_Model di = [] then di\<lparr>di_Model := s\<rparr> else di | None \<Rightarrow> di);
          di = (case c_Description cmp of
                  Some desc \<Rightarrow>
                    if hasPrefix (di_Vendor di) ''Cisco'' \<or> hasPrefix (di_Vendor di) ''Nokia'' \<or> di_Model di = []
                    then di\<lparr>di_Model := desc\<rparr> else di
                | None \<Rightarrow> di) in
      case SoftwareVersion cmp of Some s \<Rightarrow> if di_OSVer di = [] then di\<lparr>di_OSVer := s\<rparr> else di | None \<Rightarrow> di)"

definition setFromComponentChassis :: "answers \<Rightarrow> DUTInfo \<Rightarrow> DUTInfo" where
  "setFromComponentChassis y di =
     (if di_Vendor di \<noteq> [] \<and> di_Model di \<noteq> [] \<and> di_OSVer di \<noteq> [] then di
      else case FindByType CHASSIS y of
        None \<Rightarrow> di
      | Some chassisIDs \<Rightarrow> (case get_component y (hd chassisIDs) of None \<Rightarrow> di | Some cmp \<Rightarrow> chassis_fields cmp di))"

definition setFromComponentOS :: "answers \<Rightarrow> DUTInfo \<Rightarrow> DUTInfo" where
  "setFromComponentOS y di =
     (if di_OSVer di \<noteq> [] then di
      else case FindByType OPERATING_SYSTEM y of
        None \<Rightarrow> di
      | Some osIDs \<Rightarrow> (case component_version y (hd osIDs) of None \<Rightarrow> di | Some v \<Rightarrow> di\<lparr>di_OSVer := v\<rparr>))"

definition juniper :: string where
  "juniper = ''Juniper Networks, Inc.''"

definition srlinux :: string where
  "srlinux = ''SRLinux-v''"

text \<open>After an error the description is the empty string.\<close>

definition setFromLLDP :: "answers \<Rightarrow> DUTInfo \<Rightarrow> DUTInfo" where
  "setFromLLDP y di =
     (if di_Vendor di \<noteq> [] \<and> di_OSVer di \<noteq> [] then di
      else let lldp = (case lldp_description y of Some s \<Rightarrow> s | None \<Rightarrow> []);
               di = (if str_contains lldp juniper then di\<lparr>di_Vendor := juniper\<rparr> else di) in
        if hasPrefix lldp srlinux
        then let di = (if di_Vendor di = [] then di\<lparr>di_Vendor := ''Nokia''\<rparr> else di) in
          (if di_OSVer di = [] then di\<lparr>di_OSVer := drop (length srlinux) (hd (str_split (CHR '' '') lldp))\<rparr> else di)
        else di)"

definition setFromSystem :: "answers \<Rightarrow> DUTInfo \<Rightarrow> DUTInfo" where
  "setFromSystem y di =
     (if di_OSVer di = [] then (case system_version y of None \<Rightarrow> di | Some v \<Rightarrow> di\<lparr>di_OSVer := v\<rparr>) else di)"

definition NewDUTInfo :: "answers \<Rightarrow> DUTInfo" where
  "NewDUTInfo y =
     setFromLLDP y (setFromComponentOS y (setFromComponentChassis y (setFromSystem y \<lparr>di_Vendor = [], di_Model = [], di_OSVer = []\<rparr>)))"

text \<open>\<open>vendors\<close> are the names of the vendors in the code's order, upper case as the enumeration has them.\<close>

definition vendors :: "string list" where
  "vendors = [''ARISTA'', ''CISCO'', ''DELL'', ''JUNIPER'', ''IXIA'', ''CIENA'', ''PALOALTO'', ''ZPE'', ''NOKIA'']"

definition shortVendor :: "DUTInfo \<Rightarrow> string" where
  "shortVendor di =
     (if di_Vendor di = [] then []
      else let fullUpper = toUpper (di_Vendor di) in
        case find (\<lambda>v. str_contains fullUpper (toUpper v)) vendors of
          Some v \<Rightarrow> toUpper v
        | None \<Rightarrow>
            if str_contains fullUpper ''PALO ALTO'' then ''PALOALTO''
            else hd (str_split (CHR '' '') fullUpper))"

text \<open>\<^verbatim>\<open>Cisco (.*?) .*\<close>: the word after the first \<^verbatim>\<open>Cisco\<close> that is followed by another space on its line.\<close>

definition upto_space :: "string \<Rightarrow> string option" where
  "upto_space s =
     (let w = takeWhile (\<lambda>c. c \<noteq> CHR '' '' \<and> c \<noteq> CHR 0x0A) s; r = drop (length w) s in
      if r \<noteq> [] \<and> hd r = CHR '' '' then Some w else None)"

fun ciscoRE :: "string \<Rightarrow> string option" where
  "ciscoRE [] = None"
| "ciscoRE (c # s) =
     (case (if hasPrefix (c # s) ''Cisco '' then upto_space (drop 6 (c # s)) else None) of
        Some m \<Rightarrow> Some m
      | None \<Rightarrow> ciscoRE s)"

text \<open>\<^verbatim>\<open>JNP.* \[(.*)\]\<close>: on the line of the first \<^verbatim>\<open>JNP\<close> that matches, from the last bracket opened after a space
  and closed later to the last closing bracket.\<close>

definition in_brackets :: "string \<Rightarrow> string option" where
  "in_brackets line =
     (case str_last_index line '']'' of
        None \<Rightarrow> None
      | Some j \<Rightarrow>
          (case str_last_index (take j line) '' ['' of
             None \<Rightarrow> None
           | Some i \<Rightarrow> Some (drop (i + 2) (take j line))))"

fun jnpRE :: "string \<Rightarrow> string option" where
  "jnpRE [] = None"
| "jnpRE (c # s) =
     (case (if hasPrefix (c # s) ''JNP'' then in_brackets (takeWhile (\<lambda>c. c \<noteq> CHR 0x0A) (drop 3 (c # s))) else None) of
        Some m \<Rightarrow> Some m
      | None \<Rightarrow> jnpRE s)"

definition shortModel :: "DUTInfo \<Rightarrow> string" where
  "shortModel di =
     (case ciscoRE (di_Model di) of
        Some m \<Rightarrow> m
      | None \<Rightarrow> (case jnpRE (di_Model di) of Some m \<Rightarrow> m | None \<Rightarrow> di_Model di))"

definition di_put :: "DUTInfo \<Rightarrow> string \<Rightarrow> properties \<Rightarrow> properties" where
  "di_put di i m =
     (let m = (if di_Vendor di \<noteq> [] then put_prop (i @ ''.vendor'') (shortVendor di) (put_prop (i @ ''.vendor.full'') (di_Vendor di) m) else m);
          m = (if di_Model di \<noteq> [] then put_prop (i @ ''.model'') (shortModel di) (put_prop (i @ ''.model.full'') (di_Model di) m) else m) in
      if di_OSVer di \<noteq> [] then put_prop (i @ ''.os_version'') (di_OSVer di) m else m)"

text \<open>The devices of a reservation, each with its number of ports and its answers if it can be dialled.\<close>

definition dutsInfo :: "(string \<times> answers option) list \<Rightarrow> properties \<Rightarrow> properties" where
  "dutsInfo duts m = fold (\<lambda>(i, y) m. case y of None \<Rightarrow> m | Some y \<Rightarrow> di_put (NewDUTInfo y) i m) duts m"


section \<open>Local facts\<close>

record build_info =
  GoVersion :: string
  bi_Path :: string
  Main_Path :: string
  Main_Version :: string
  Main_Sum :: string
  Settings :: "(string \<times> string) list"

definition buildInfo :: "build_info option \<Rightarrow> properties \<Rightarrow> properties" where
  "buildInfo bi m =
     (case bi of
        None \<Rightarrow> m
      | Some b \<Rightarrow>
          fold (\<lambda>(k, v). put_prop (''build.settings.'' @ k) v) (Settings b)
            (put_prop ''build.main.sum'' (Main_Sum b) (put_prop ''build.main.version'' (Main_Version b)
              (put_prop ''build.main.path'' (Main_Path b) (put_prop ''build.path'' (bi_Path b) (put_prop ''build.go_version'' (GoVersion b) m))))))"

record repository =
  worktree :: "string option"
  origin_urls :: "string list option"
  head_commit :: "(string \<times> string) option"
  git_status :: "(string \<times> bool) option"

definition gitOrigin :: "repository \<Rightarrow> string option" where
  "gitOrigin repo = (case origin_urls repo of None \<Rightarrow> None | Some urls \<Rightarrow> if urls = [] then None else Some (hd urls))"

definition gitInfoWithRepo :: "repository \<Rightarrow> properties \<Rightarrow> properties \<times> string" where
  "gitInfoWithRepo repo m =
     (case worktree repo of
        None \<Rightarrow> (m, [])
      | Some root \<Rightarrow>
          (let m = (case gitOrigin repo of None \<Rightarrow> m | Some u \<Rightarrow> put_prop ''git.origin'' u m);
               m = (case head_commit repo of None \<Rightarrow> m
                    | Some (hash, t) \<Rightarrow> put_prop ''git.commit_timestamp'' t (put_prop ''git.commit'' hash m));
               m = (case git_status repo of None \<Rightarrow> m
                    | Some (s, clean) \<Rightarrow> put_prop ''git.clean'' (if clean then ''true'' else ''false'') (put_prop ''git.status'' s m)) in
           (m, root)))"

definition gitInfo :: "repository option \<Rightarrow> properties \<Rightarrow> properties \<times> string" where
  "gitInfo repo m = (case repo of None \<Rightarrow> (m, []) | Some r \<Rightarrow> gitInfoWithRepo r m)"

definition fp_part :: string where
  "fp_part = ''/featureprofiles/''"

definition fpPath :: "string \<Rightarrow> string" where
  "fpPath testPath =
     (case str_last_index testPath fp_part of
        None \<Rightarrow> []
      | Some i \<Rightarrow>
          (let i = i + length fp_part in
           case str_last_index testPath ''/'' of
             None \<Rightarrow> []
           | Some j \<Rightarrow> if j < i then [] else drop i (take j testPath)))"

text \<open>The files of the call stack, innermost first; the loop ends at the last frame without looking at it.\<close>

definition testPath :: "string list \<Rightarrow> string \<Rightarrow> string" where
  "testPath frames wd =
     (case find (\<lambda>f. hasSuffix f ''_test.go'') (butlast frames) of
        None \<Rightarrow> []
      | Some file \<Rightarrow>
          if wd = [] then fpPath file
          else let dir = filepath_Dir file; prefix = filepath_Clean wd @ ''/'' in
            if hasPrefix dir prefix then drop (length prefix) dir else [])"

text \<open>The flags that were set: name, value, default.\<close>

definition deviationInfo :: "(string \<times> string \<times> string) list \<Rightarrow> properties \<Rightarrow> properties" where
  "deviationInfo fs m =
     fold (\<lambda>(name, value, defValue) m.
       if \<not> hasPrefix name ''deviation_'' then m
       else if defValue = value then m
       else put_prop (''deviation.'' @ drop (length ''deviation_'') name) value m) fs m"

definition local ::
  "build_info option \<Rightarrow> repository option \<Rightarrow> string list \<Rightarrow> (string \<times> string \<times> string) list \<Rightarrow> properties \<Rightarrow> properties" where
  "local bi repo frames flags m =
     (let (m, wd) = gitInfo repo (buildInfo bi m);
          tp = testPath frames wd;
          m = (if tp \<noteq> [] then put_prop ''test.path'' tp m else m) in
      deviationInfo flags m)"


section \<open>Properties of a run\<close>

record reservation =
  rv_ATEs :: "(string \<times> nat) list"
  rv_DUTs :: "(string \<times> nat \<times> answers option) list"

text \<open>\<^verbatim>\<open>sort.Strings\<close> gives the sorted list of its argument.\<close>

definition topology :: "reservation \<Rightarrow> string" where
  "topology resv =
     (let nports = fold (\<lambda>(k, n). AList.update k n) (rv_ATEs resv @ map (\<lambda>(k, n, _). (k, n)) (rv_DUTs resv)) [];
          topKeys = sort (map fst (rv_ATEs resv) @ map fst (rv_DUTs resv)) in
      str_join '','' (map (\<lambda>k. k @ '':'' @ dec (the (map_of nports k))) topKeys))"

record run_metadata =
  rm_Uuid :: string
  rm_PlanId :: string
  rm_Description :: string

definition Properties ::
  "run_metadata \<Rightarrow> (properties \<Rightarrow> properties) \<Rightarrow> string \<Rightarrow> bool \<Rightarrow> reservation option \<Rightarrow> properties" where
  "Properties md loc knownIssueURL collectDUTInfo resv =
     (let m = loc [];
          m = (if rm_Uuid md \<noteq> [] then put_prop ''test.uuid'' (rm_Uuid md) m else m);
          m = (if rm_PlanId md \<noteq> [] then put_prop ''test.plan_id'' (rm_PlanId md) m else m);
          m = (if rm_Description md \<noteq> [] then put_prop ''test.description'' (rm_Description md) m else m);
          m = (if knownIssueURL \<noteq> [] then put_prop ''known_issue_url'' knownIssueURL m else m) in
      case resv of
        None \<Rightarrow> m
      | Some r \<Rightarrow>
          (let m = put_prop ''topology'' (topology r) m in
           if collectDUTInfo then dutsInfo (map (\<lambda>(i, _, y). (i, y)) (rv_DUTs r)) m else m))"


section \<open>The root of the repository\<close>

definition computeRootPath :: "string \<Rightarrow> string option" where
  "computeRootPath wd =
     (case str_last_index wd fp_part of
        None \<Rightarrow> None
      | Some rootIdx \<Rightarrow> Some (take (rootIdx + length fp_part - 1) wd))"

text \<open>The cached path, which an error leaves empty.\<close>

definition RootPath :: "string option \<Rightarrow> string \<Rightarrow> string option \<times> string" where
  "RootPath getwd rootPath =
     (if rootPath \<noteq> [] then (Some rootPath, rootPath)
      else case getwd of
        None \<Rightarrow> (None, rootPath)
      | Some wd \<Rightarrow> (case computeRootPath wd of None \<Rightarrow> (None, []) | Some r \<Rightarrow> (Some r, r)))"


section \<open>Which source decides\<close>

definition first_of :: "string option list \<Rightarrow> string" where
  "first_of xs = (case filter (\<lambda>x. x \<noteq> None \<and> x \<noteq> Some []) xs of Some s # _ \<Rightarrow> s | _ \<Rightarrow> [])"

lemma first_of_simps [simp]:
  "first_of [] = []" "first_of (None # xs) = first_of xs" "first_of (Some s # xs) = (if s = [] then first_of xs else s)"
  by (simp_all add: first_of_def)

lemma first_of_append: "first_of (xs @ ys) = (if first_of xs = [] then first_of ys else first_of xs)"
proof (induction xs)
  case (Cons x xs)
  then show ?case by (cases x) auto
qed simp

text \<open>The chassis, the version of the operating system, and the version in the LLDP text, if the device has them.\<close>

definition chassis :: "answers \<Rightarrow> component option" where
  "chassis y = (case FindByType CHASSIS y of None \<Rightarrow> None | Some ids \<Rightarrow> get_component y (hd ids))"

definition os_version :: "answers \<Rightarrow> string option" where
  "os_version y = (case FindByType OPERATING_SYSTEM y of None \<Rightarrow> None | Some ids \<Rightarrow> component_version y (hd ids))"

definition lldp_text :: "answers \<Rightarrow> string" where
  "lldp_text y = (case lldp_description y of Some s \<Rightarrow> s | None \<Rightarrow> [])"

definition srlinux_version :: "answers \<Rightarrow> string option" where
  "srlinux_version y =
     (if hasPrefix (lldp_text y) srlinux then Some (drop (length srlinux) (hd (str_split (CHR '' '') (lldp_text y)))) else None)"

definition mfg :: "answers \<Rightarrow> string" where
  "mfg y = first_of [Option.bind (chassis y) MfgName]"

lemma chassis_fields_vendor: "di_Vendor di = [] \<Longrightarrow> di_Vendor (chassis_fields c di) = first_of [MfgName c]"
  by (cases "MfgName c"; cases "PartNo c"; cases "c_Description c"; cases "SoftwareVersion c") (simp_all add: chassis_fields_def Let_def)

lemma chassis_fields_osver: "di_OSVer (chassis_fields c di) = first_of [Some (di_OSVer di), SoftwareVersion c]"
  by (cases "MfgName c"; cases "PartNo c"; cases "c_Description c"; cases "SoftwareVersion c") (simp_all add: chassis_fields_def Let_def)

lemma chassis_fields_model:
  assumes "di_Vendor di = []" "di_Model di = []"
  shows "di_Model (chassis_fields c di) = (case c_Description c of
      Some d \<Rightarrow> if hasPrefix (first_of [MfgName c]) ''Cisco'' \<or> hasPrefix (first_of [MfgName c]) ''Nokia'' then d else first_of [PartNo c, Some d]
    | None \<Rightarrow> first_of [PartNo c])"
  using assms
  by (cases "MfgName c"; cases "PartNo c"; cases "c_Description c"; cases "SoftwareVersion c") (simp_all add: chassis_fields_def Let_def)

lemma dut_sources:
  "di_OSVer (NewDUTInfo y) = first_of [system_version y, Option.bind (chassis y) SoftwareVersion, os_version y, srlinux_version y]
   \<and> di_Model (NewDUTInfo y) =
       (case Option.bind (chassis y) c_Description of
          Some d \<Rightarrow> if hasPrefix (mfg y) ''Cisco'' \<or> hasPrefix (mfg y) ''Nokia'' then d else first_of [Option.bind (chassis y) PartNo, Some d]
        | None \<Rightarrow> first_of [Option.bind (chassis y) PartNo])
   \<and> di_Vendor (NewDUTInfo y) =
       (if mfg y \<noteq> [] \<and> first_of [system_version y, Option.bind (chassis y) SoftwareVersion, os_version y] \<noteq> [] then mfg y
        else if str_contains (lldp_text y) juniper then juniper
        else if mfg y = [] \<and> hasPrefix (lldp_text y) srlinux then ''Nokia''
        else mfg y)"
proof -
  define d1 where "d1 = setFromSystem y \<lparr>di_Vendor = [], di_Model = [], di_OSVer = []\<rparr>"
  have d1: "di_Vendor d1 = []" "di_Model d1 = []" "di_OSVer d1 = first_of [system_version y]"
    by (auto simp: d1_def setFromSystem_def split: option.splits)
  define d2 where "d2 = setFromComponentChassis y d1"
  have "d2 = (case chassis y of None \<Rightarrow> d1 | Some c \<Rightarrow> chassis_fields c d1)"
    using d1 by (simp add: d2_def setFromComponentChassis_def chassis_def split: option.splits)
  then have d2: "di_Vendor d2 = mfg y" "di_OSVer d2 = first_of [system_version y, Option.bind (chassis y) SoftwareVersion]"
      "di_Model d2 = (case Option.bind (chassis y) c_Description of
          Some d \<Rightarrow> if hasPrefix (mfg y) ''Cisco'' \<or> hasPrefix (mfg y) ''Nokia'' then d else first_of [Option.bind (chassis y) PartNo, Some d]
        | None \<Rightarrow> first_of [Option.bind (chassis y) PartNo])"
  proof -
    assume e: "d2 = (case chassis y of None \<Rightarrow> d1 | Some c \<Rightarrow> chassis_fields c d1)"
    show "di_Vendor d2 = mfg y" using d1(1) by (cases "chassis y") (simp_all add: e mfg_def chassis_fields_vendor)
    show "di_OSVer d2 = first_of [system_version y, Option.bind (chassis y) SoftwareVersion]"
      using d1(3) by (cases "chassis y"; cases "system_version y") (simp_all add: e chassis_fields_osver)
    show "di_Model d2 = (case Option.bind (chassis y) c_Description of
          Some d \<Rightarrow> if hasPrefix (mfg y) ''Cisco'' \<or> hasPrefix (mfg y) ''Nokia'' then d else first_of [Option.bind (chassis y) PartNo, Some d]
        | None \<Rightarrow> first_of [Option.bind (chassis y) PartNo])"
      using d1(1,2) by (cases "chassis y") (simp_all add: e mfg_def chassis_fields_model split: option.split)
  qed
  define d3 where "d3 = setFromComponentOS y d2"
  have d3: "di_Vendor d3 = mfg y" "di_Model d3 = di_Model d2"
      "di_OSVer d3 = first_of [system_version y, Option.bind (chassis y) SoftwareVersion, os_version y]"
    using d2(1,2) first_of_append [of "[system_version y, Option.bind (chassis y) SoftwareVersion]" "[os_version y]"]
    by (simp_all add: d3_def setFromComponentOS_def os_version_def split: option.splits)
  have n: "NewDUTInfo y = setFromLLDP y d3" by (simp add: NewDUTInfo_def d1_def d2_def d3_def)
  have "di_Model (NewDUTInfo y) = di_Model d3" by (simp add: n setFromLLDP_def Let_def)
  moreover have "di_Vendor (NewDUTInfo y) =
       (if mfg y \<noteq> [] \<and> di_OSVer d3 \<noteq> [] then mfg y
        else if str_contains (lldp_text y) juniper then juniper
        else if mfg y = [] \<and> hasPrefix (lldp_text y) srlinux then ''Nokia''
        else mfg y)"
    using d3(1) by (simp add: n setFromLLDP_def Let_def lldp_text_def juniper_def)
  moreover have "di_OSVer (NewDUTInfo y) = first_of [Some (di_OSVer d3), srlinux_version y]"
    by (simp add: n setFromLLDP_def Let_def lldp_text_def srlinux_version_def)
  ultimately show ?thesis
    using d2(3) d3(2,3) first_of_append [of "[system_version y, Option.bind (chassis y) SoftwareVersion, os_version y]" "[srlinux_version y]"] by simp
qed

text \<open>The facts on a device, from its answers. Version: the first that is not empty of the system's, the
  chassis', the operating system's and the one in the LLDP text. Model: the description of the chassis for
  Cisco and Nokia and where there is no part number, the part number otherwise. Vendor: the manufacturer of the
  chassis; but when that or the version before LLDP is missing, an LLDP text that names Juniper decides, and
  one of SR Linux decides for Nokia if there is no manufacturer.\<close>

theorem NewDUTInfo_sources:
  "di_OSVer (NewDUTInfo y) = first_of [system_version y, Option.bind (chassis y) SoftwareVersion, os_version y, srlinux_version y]
   \<and> di_Model (NewDUTInfo y) =
       (case Option.bind (chassis y) c_Description of
          Some d \<Rightarrow> if hasPrefix (mfg y) ''Cisco'' \<or> hasPrefix (mfg y) ''Nokia'' then d else first_of [Option.bind (chassis y) PartNo, Some d]
        | None \<Rightarrow> first_of [Option.bind (chassis y) PartNo])
   \<and> di_Vendor (NewDUTInfo y) =
       (if mfg y \<noteq> [] \<and> first_of [system_version y, Option.bind (chassis y) SoftwareVersion, os_version y] \<noteq> [] then mfg y
        else if str_contains (lldp_text y) juniper then juniper
        else if mfg y = [] \<and> hasPrefix (lldp_text y) srlinux then ''Nokia''
        else mfg y)"
  by (rule dut_sources)

text \<open>With an empty version a manufacturer that is known is replaced.\<close>

lemma vendor_overwritten:
  assumes "chassis y = Some \<lparr>MfgName = Some ''Arista Networks'', PartNo = None, c_Description = None, SoftwareVersion = None\<rparr>"
    "system_version y = None" "os_version y = None" "lldp_description y = Some juniper"
  shows "di_Vendor (NewDUTInfo y) = juniper"
proof -
  have "str_contains juniper juniper" unfolding str_contains_iff by (intro exI [of _ "[]"]) simp
  then show ?thesis using dut_sources [of y] assms by (simp add: mfg_def lldp_text_def)
qed


section \<open>The path of a test\<close>

lemma last_index_here:
  assumes "\<not> str_contains (tl p @ s) p" "p \<noteq> []"
  shows "str_last_index (r @ p @ s) p = Some (length r)"
proof -
  obtain i where i: "str_last_index (r @ p @ s) p = Some i" using str_last_index_None [of "r @ p @ s" p r s] by (cases "str_last_index (r @ p @ s) p") auto
  then obtain u v where uv: "r @ p @ s = u @ p @ v" "length u = i" using str_last_index_Some by blast
  have "length r \<le> i" using str_last_index_max [OF i refl] .
  moreover have "\<not> length r < i"
  proof
    assume "length r < i"
    then obtain w where w: "u = r @ w" "w \<noteq> []" using uv
      by (metis append_eq_append_conv_if append_take_drop_id length_drop less_nat_zero_code list.size(3) zero_less_diff order_less_imp_le)
    with uv(1) have "p @ s = w @ p @ v" by simp
    then have "tl p @ s = tl w @ p @ v" using w(2) assms(2) by (metis tl_append2)
    with assms(1) show False unfolding str_contains_iff by blast
  qed
  ultimately show ?thesis using i by simp
qed

text \<open>Both ways of finding the path of a test agree: for a test file in directory \<open>p\<close> of a checkout of the
  repository (a directory named \<^verbatim>\<open>featureprofiles\<close>, with no directory of that name below it), the path relative to the
  Git working tree and the path without one are \<open>p\<close>, and the root of the repository is found as its checkout.\<close>

theorem testPath_agrees:
  fixes root p fname :: string
  defines "wd \<equiv> root @ ''/featureprofiles''"
  defines "f \<equiv> wd @ ''/'' @ p @ ''/'' @ fname"
  assumes frames: "find (\<lambda>f. hasSuffix f ''_test.go'') (butlast frames) = Some f"
    and fname: "CHR ''/'' \<notin> set fname" and inner: "\<not> str_contains (tl fp_part @ p @ ''/'' @ fname) fp_part"
    and clean: "filepath_Clean wd = wd" "filepath_Dir f = wd @ ''/'' @ p"
  shows "testPath frames wd = p \<and> testPath frames [] = p \<and> computeRootPath f = Some wd"
proof -
  have fp: "f = root @ fp_part @ p @ ''/'' @ fname" by (simp add: f_def wd_def fp_part_def)
  have i: "str_last_index f fp_part = Some (length root)" unfolding fp by (rule last_index_here [OF inner]) (simp add: fp_part_def)
  have "str_last_index (((root @ fp_part) @ p) @ ''/'' @ fname) ''/'' = Some (length ((root @ fp_part) @ p))"
    using fname by (intro last_index_here) (auto simp: str_contains_iff)
  then have j: "str_last_index f ''/'' = Some (length root + length fp_part + length p)" by (simp add: fp)
  have "fpPath f = p" by (simp add: fpPath_def i j) (simp add: fp)
  moreover have "hasPrefix (wd @ ''/'' @ p) (wd @ ''/'')" by (simp add: hasPrefix_def)
  moreover have "wd \<noteq> []" by (simp add: wd_def)
  moreover have "computeRootPath f = Some wd"
    by (simp add: computeRootPath_def i) (simp add: fp wd_def fp_part_def)
  ultimately show ?thesis using frames clean by (simp add: testPath_def Let_def)
qed

theorem testPath_agrees_witness:
  "let frames = [''/go/x.go'', ''/src/featureprofiles/feature/a/a_test.go'', ''/go/asm.s''] in
   testPath frames ''/src/featureprofiles'' = ''feature/a'' \<and> testPath frames [] = ''feature/a''"
proof -
  let ?frames = "[''/go/x.go'', ''/src/featureprofiles/feature/a/a_test.go'', ''/go/asm.s'']"
  have "find (\<lambda>f. hasSuffix f ''_test.go'') (butlast ?frames) = Some ((''/src'' @ ''/featureprofiles'') @ ''/'' @ ''feature/a'' @ ''/'' @ ''a_test.go'')"
    "\<not> str_contains (tl fp_part @ ''feature/a'' @ ''/'' @ ''a_test.go'') fp_part"
    "filepath_Clean (''/src'' @ ''/featureprofiles'') = ''/src'' @ ''/featureprofiles''"
    "filepath_Dir ((''/src'' @ ''/featureprofiles'') @ ''/'' @ ''feature/a'' @ ''/'' @ ''a_test.go'') = (''/src'' @ ''/featureprofiles'') @ ''/'' @ ''feature/a''"
    by code_simp+
  from testPath_agrees [OF this(1) _ this(2-4)] show ?thesis by simp
qed


section \<open>The topology\<close>

lemma fold_update_distinct:
  assumes "distinct (map fst xs)"
  shows "map_of (fold (\<lambda>(k, n). AList.update k n) xs ys) k = (case map_of xs k of Some v \<Rightarrow> Some v | None \<Rightarrow> map_of ys k)"
  using assms
proof (induction xs arbitrary: ys)
  case (Cons x xs)
  obtain a b where x: "x = (a, b)" by fastforce
  have "map_of xs a = None" using Cons.prems x by (simp add: map_of_eq_None_iff)
  with Cons x show ?case by (cases "k = a") (simp_all add: AList.update_conv' split: option.splits)
qed simp

text \<open>The devices of a reservation with their ports.\<close>

definition rv_ports :: "reservation \<Rightarrow> (string \<times> nat) list" where
  "rv_ports r = rv_ATEs r @ map (\<lambda>(k, n, _). (k, n)) (rv_DUTs r)"

text \<open>The summary of the topology lists every device once, in the order of the names, with its number of ports, when
  no two devices have the same name.\<close>

lemma topology_lists:
  assumes "distinct (map fst (rv_ports r))"
  shows "topology r = str_join '','' (map (\<lambda>(k, n). k @ '':'' @ dec n) (sort_key fst (rv_ports r)))"
proof -
  have k: "map fst (rv_ATEs r) @ map fst (rv_DUTs r) = map fst (rv_ports r)" by (simp add: rv_ports_def comp_def case_prod_beta)
  have s: "sort (map fst (rv_ports r)) = map fst (sort_key fst (rv_ports r))"
    by (rule properties_for_sort) simp_all
  have "map (\<lambda>k. k @ '':'' @ dec (the (map_of (fold (\<lambda>(k, n). AList.update k n) (rv_ports r) []) k))) (map fst (sort_key fst (rv_ports r)))
      = map (\<lambda>(k, n). k @ '':'' @ dec n) (sort_key fst (rv_ports r))"
    using assms by (auto simp: fold_update_distinct split: option.splits dest: eq_key_imp_eq_value)
  then show ?thesis unfolding topology_def Let_def rv_ports_def [symmetric] k s by (rule arg_cong)
qed

end
