(* ===== verification/Vrf_Policy.thy ===== *)
theory Vrf_Policy
  imports Scale_Traffic "HOL-Library.AList" "HOL-Library.List_Lexorder" "HOL-Library.Char_ord"
begin

text \<open>
  The VRF selection policies: \<^verbatim>\<open>internal/vrfpolicy/vrfpolicy.go\<close>, and the policies of
  \<^verbatim>\<open>internal/cfgplugins/policyforwarding.go\<close> for the full-scale configuration
  (\<^verbatim>\<open>ConfigureVRFSelectionPolicyOC\<close>) and for policy-based routing (\<^verbatim>\<open>NewPolicyForwardingVRFSelection\<close>).

  Of the generated OpenConfig structures the fields the code sets are modelled. A map of the structures is an
  association list with distinct keys; \<^verbatim>\<open>GetOrCreateX(k)\<close> is the entry of \<open>k\<close> or an empty one, and a change
  through the pointer it returns updates the entry of \<open>k\<close>. A nil dereference is \<open>None\<close>. The deviations of the
  device are an argument, and the requests sent to it are the result.

  What a policy means is the OpenConfig reading of its rules: they are tried in the order of their sequence
  identifiers, a rule matches when all its conditions hold, and the first one that matches decides
  (\<open>first_match\<close>). The theorems compare that with \<open>te_decision\<close>, the traffic engineering scheme the policies
  are meant to implement.
\<close>

section \<open>OpenConfig policy forwarding\<close>

datatype ethertype = ETHERTYPE_IPV4 | ETHERTYPE_IPV6

record oc_ip =
  DscpSet :: "byte list"
  Protocol :: "byte option"
  SourceAddress :: "string option"

record oc_action =
  DecapNetworkInstance :: "string option"
  PostDecapNetworkInstance :: "string option"
  DecapFallbackNetworkInstance :: "string option"
  NetworkInstance :: "string option"

record oc_rule =
  L2_Ethertype :: "ethertype option"
  Ipv4 :: "oc_ip option"
  Ipv6 :: "oc_ip option"
  Action :: "oc_action option"

datatype policy_type = Policy_Type_UNSET | VRF_SELECTION_POLICY

record oc_policy =
  Policy_Type :: policy_type
  Policy_Rule :: "(32 word \<times> oc_rule) list"

record oc_interface =
  ApplyVrfSelectionPolicy :: "string option"
  InterfaceRef :: "(string \<times> 32 word) option"

record oc_policy_forwarding =
  Pf_Policy :: "(string \<times> oc_policy) list"
  Pf_Interface :: "(string \<times> oc_interface) list"

abbreviation no_ip :: oc_ip where "no_ip \<equiv> \<lparr>DscpSet = [], Protocol = None, SourceAddress = None\<rparr>"

abbreviation no_action :: oc_action where
  "no_action \<equiv> \<lparr>DecapNetworkInstance = None, PostDecapNetworkInstance = None, DecapFallbackNetworkInstance = None,
     NetworkInstance = None\<rparr>"

abbreviation no_rule :: oc_rule where
  "no_rule \<equiv> \<lparr>L2_Ethertype = None, Ipv4 = None, Ipv6 = None, Action = None\<rparr>"

abbreviation no_pf :: oc_policy_forwarding where "no_pf \<equiv> \<lparr>Pf_Policy = [], Pf_Interface = []\<rparr>"

abbreviation no_policy :: oc_policy where "no_policy \<equiv> \<lparr>Policy_Type = Policy_Type_UNSET, Policy_Rule = []\<rparr>"

definition get_or :: "'v \<Rightarrow> ('k \<times> 'v) list \<Rightarrow> 'k \<Rightarrow> 'v" where
  "get_or d kvs k = (case map_of kvs k of None \<Rightarrow> d | Some v \<Rightarrow> v)"

definition on_rule :: "32 word \<Rightarrow> (oc_rule \<Rightarrow> oc_rule) \<Rightarrow> oc_policy \<Rightarrow> oc_policy" where
  "on_rule k f pol = pol\<lparr>Policy_Rule := AList.update k (f (get_or no_rule (Policy_Rule pol) k)) (Policy_Rule pol)\<rparr>"

definition on_policy :: "string \<Rightarrow> (oc_policy \<Rightarrow> oc_policy) \<Rightarrow> oc_policy_forwarding \<Rightarrow> oc_policy_forwarding" where
  "on_policy k f pf = pf\<lparr>Pf_Policy := AList.update k (f (get_or no_policy (Pf_Policy pf) k)) (Pf_Policy pf)\<rparr>"

definition set_ni :: "string \<Rightarrow> oc_rule \<Rightarrow> oc_rule" where
  "set_ni v r = r\<lparr>Action := Some ((case Action r of None \<Rightarrow> no_action | Some a \<Rightarrow> a)\<lparr>NetworkInstance := Some v\<rparr>)\<rparr>"

text \<open>The requests the code sends.\<close>

datatype gnmi_req =
    ReplaceL3VRF string
  | ReplacePF string oc_policy_forwarding
  | UpdatePF string oc_policy_forwarding
  | DeletePFInterface string string

record pf_dev =
  PfRequireSequentialOrderPbrRules :: bool
  PfRequireMatchDefaultRule :: bool
  InterfaceRefInterfaceIDFormat :: bool
  InterfaceIDFormatRequiredForPolicyForwarding :: bool
  InterfaceRefConfigUnsupported :: bool
  DefaultNetworkInstance :: string


section \<open>What a policy decides\<close>

record packet =
  pkt_v6 :: bool
  pkt_proto :: byte
  pkt_dscp :: byte
  pkt_src :: bytes

definition in_prefix :: "string \<Rightarrow> bytes \<Rightarrow> bool" where
  "in_prefix s ip =
     (case ParseCIDR s of
        None \<Rightarrow> False
      | Some (_, n) \<Rightarrow> length ip = length (netIP n) \<and> maskIP ip (netMask n) = netIP n)"

definition ip_matches :: "oc_ip \<Rightarrow> packet \<Rightarrow> bool" where
  "ip_matches i p \<longleftrightarrow>
     (DscpSet i = [] \<or> pkt_dscp p \<in> set (DscpSet i))
     \<and> (case Protocol i of None \<Rightarrow> True | Some n \<Rightarrow> pkt_proto p = n)
     \<and> (case SourceAddress i of None \<Rightarrow> True | Some s \<Rightarrow> in_prefix s (pkt_src p))"

definition rule_matches :: "packet \<Rightarrow> oc_rule \<Rightarrow> bool" where
  "rule_matches p r \<longleftrightarrow>
     (case L2_Ethertype r of None \<Rightarrow> True | Some e \<Rightarrow> pkt_v6 p \<longleftrightarrow> e = ETHERTYPE_IPV6)
     \<and> (case Ipv4 r of None \<Rightarrow> True | Some i \<Rightarrow> \<not> pkt_v6 p \<and> ip_matches i p)
     \<and> (case Ipv6 r of None \<Rightarrow> True | Some i \<Rightarrow> pkt_v6 p \<and> ip_matches i p)"

fun try_rules :: "packet \<Rightarrow> (32 word \<times> oc_rule) list \<Rightarrow> oc_action option" where
  "try_rules p [] = None"
| "try_rules p ((_, r) # rs) = (if rule_matches p r then Action r else try_rules p rs)"

definition first_match :: "(32 word \<times> oc_rule) list \<Rightarrow> packet \<Rightarrow> oc_action option" where
  "first_match rs p = try_rules p (sort_key fst rs)"

definition decap_action :: "string \<Rightarrow> string \<Rightarrow> oc_action" where
  "decap_action v fb = \<lparr>DecapNetworkInstance = Some ''DECAP_TE_VRF'', PostDecapNetworkInstance = Some v,
     DecapFallbackNetworkInstance = Some fb, NetworkInstance = None\<rparr>"

definition ni_action :: "string \<Rightarrow> oc_action" where
  "ni_action v = no_action\<lparr>NetworkInstance := Some v\<rparr>"

text \<open>Traffic of the two tunnel sources (IP-in-IP, protocol 4, or IPv6-in-IP, 41) is decapsulated, and what comes out goes
  to the VRF of its DSCP; other traffic goes to the VRF of its DSCP if \<open>plain\<close>. What has no VRF goes to the
  default network instance.\<close>

definition transit_vrf :: "bytes \<Rightarrow> string option" where
  "transit_vrf src =
     (if src = [198, 51, 100, 222] then Some ''TE_VRF_222'' else if src = [198, 51, 100, 111] then Some ''TE_VRF_111'' else None)"

definition te_decision :: "(byte \<Rightarrow> string option) \<Rightarrow> bool \<Rightarrow> string \<Rightarrow> packet \<Rightarrow> oc_action" where
  "te_decision enc plain dflt p =
     (case if \<not> pkt_v6 p \<and> pkt_proto p \<in> {4, 41} then transit_vrf (pkt_src p) else None of
        Some fb \<Rightarrow> decap_action (case enc (pkt_dscp p) of None \<Rightarrow> dflt | Some v \<Rightarrow> v) fb
      | None \<Rightarrow> ni_action (case if plain then enc (pkt_dscp p) else None of None \<Rightarrow> dflt | Some v \<Rightarrow> v))"


section \<open>\<^verbatim>\<open>vrfpolicy.go\<close>\<close>

definition VRFPolicyW :: string where "VRFPolicyW = ''vrf_selection_policy_w''"
definition VRFPolicyC :: string where "VRFPolicyC = ''vrf_selection_policy_c''"

abbreviation niDecapTeVrf :: string where "niDecapTeVrf \<equiv> ''DECAP_TE_VRF''"
abbreviation niEncapTeVrfA :: string where "niEncapTeVrfA \<equiv> ''ENCAP_TE_VRF_A''"
abbreviation niEncapTeVrfB :: string where "niEncapTeVrfB \<equiv> ''ENCAP_TE_VRF_B''"
abbreviation niTeVrf111 :: string where "niTeVrf111 \<equiv> ''TE_VRF_111''"
abbreviation niTeVrf222 :: string where "niTeVrf222 \<equiv> ''TE_VRF_222''"
abbreviation niDefault :: string where "niDefault \<equiv> ''DEFAULT''"
abbreviation ipv4OuterSrc111WithMask :: string where "ipv4OuterSrc111WithMask \<equiv> ''198.51.100.111/32''"
abbreviation ipv4OuterSrc222WithMask :: string where "ipv4OuterSrc222WithMask \<equiv> ''198.51.100.222/32''"
abbreviation dscpEncapA :: "byte list" where "dscpEncapA \<equiv> [10, 18]"
abbreviation dscpEncapB :: "byte list" where "dscpEncapB \<equiv> [20, 28]"

text \<open>\<^verbatim>\<open>dscpSet\<close> is a slice, which may be nil.\<close>

record ipInfo =
  protocol :: byte
  dscpSet :: "byte list option"
  sourceAddr :: string

record pf_action =
  decapNI :: string
  postDecapNI :: string
  decapFallbackNI :: string
  networkInstance :: string

record policyFwRule =
  seqID :: "32 word"
  ipv4 :: "ipInfo option"
  ipv6 :: "ipInfo option"
  action :: "pf_action option"

definition configNonDefaultNetworkInstance :: "gnmi_req list" where
  "configNonDefaultNetworkInstance =
     map ReplaceL3VRF [niDecapTeVrf, niEncapTeVrfA, niEncapTeVrfB, ''ENCAP_TE_VRF_C'', ''ENCAP_TE_VRF_D'', niTeVrf111,
       niTeVrf222, ''REPAIR_VRF'']"

definition some_if :: "string \<Rightarrow> string option \<Rightarrow> string option" where
  "some_if s old = (if s \<noteq> [] then Some s else old)"

definition build_ipv4 :: "ipInfo \<Rightarrow> oc_ip \<Rightarrow> oc_ip" where
  "build_ipv4 i ip =
     ip\<lparr>DscpSet := (case dscpSet i of None \<Rightarrow> DscpSet ip | Some ds \<Rightarrow> ds),
        Protocol := (if protocol i \<noteq> 0 then Some (protocol i) else Protocol ip),
        SourceAddress := some_if (sourceAddr i) (SourceAddress ip)\<rparr>"

definition build_ipv6 :: "ipInfo \<Rightarrow> oc_ip \<Rightarrow> oc_ip" where
  "build_ipv6 i ip = ip\<lparr>DscpSet := (case dscpSet i of None \<Rightarrow> DscpSet ip | Some ds \<Rightarrow> ds)\<rparr>"

definition build_action :: "pf_action \<Rightarrow> oc_action \<Rightarrow> oc_action" where
  "build_action a oa =
     oa\<lparr>DecapNetworkInstance := some_if (decapNI a) (DecapNetworkInstance oa),
        PostDecapNetworkInstance := some_if (postDecapNI a) (PostDecapNetworkInstance oa),
        DecapFallbackNetworkInstance := some_if (decapFallbackNI a) (DecapFallbackNetworkInstance oa),
        NetworkInstance := some_if (networkInstance a) (NetworkInstance oa)\<rparr>"

text \<open>The body of the loop, on the rule \<open>r\<close> that \<^verbatim>\<open>GetOrCreateRule\<close> returned.\<close>

definition build_rule :: "policyFwRule \<Rightarrow> oc_rule \<Rightarrow> oc_rule option" where
  "build_rule pr r =
     (case (case ipv4 pr of
              Some i \<Rightarrow> Some (r\<lparr>Ipv4 := Some (build_ipv4 i (case Ipv4 r of None \<Rightarrow> no_ip | Some ip \<Rightarrow> ip))\<rparr>)
            | None \<Rightarrow>
                (case ipv6 pr of
                   None \<Rightarrow> None
                 | Some i \<Rightarrow> Some (r\<lparr>Ipv6 := Some (build_ipv6 i (case Ipv6 r of None \<Rightarrow> no_ip | Some ip \<Rightarrow> ip))\<rparr>))) of
        None \<Rightarrow> None
      | Some r1 \<Rightarrow>
          (case action pr of
             None \<Rightarrow> None
           | Some a \<Rightarrow> Some (r1\<lparr>Action := Some (build_action a (case Action r1 of None \<Rightarrow> no_action | Some oa \<Rightarrow> oa))\<rparr>)))"

fun build_rules :: "policyFwRule list \<Rightarrow> (32 word \<times> oc_rule) list \<Rightarrow> (32 word \<times> oc_rule) list option" where
  "build_rules [] rs = Some rs"
| "build_rules (pr # prs) rs =
     (case build_rule pr (get_or no_rule rs (seqID pr)) of
        None \<Rightarrow> None
      | Some r \<Rightarrow> build_rules prs (AList.update (seqID pr) r rs))"

text \<open>The name of the network instance does not occur in the policies of the instance, which are the result.\<close>

definition buildVRFSelectionPolicy :: "string \<Rightarrow> policyFwRule list \<Rightarrow> oc_policy_forwarding option" where
  "buildVRFSelectionPolicy policyName pfRules =
     map_option
       (\<lambda>rs. no_pf\<lparr>Pf_Policy := [(policyName, \<lparr>Policy_Type = VRF_SELECTION_POLICY, Policy_Rule = rs\<rparr>)]\<rparr>)
       (build_rules pfRules [])"

definition decapRule :: "32 word \<Rightarrow> byte \<Rightarrow> byte list option \<Rightarrow> string \<Rightarrow> string \<Rightarrow> string \<Rightarrow> policyFwRule" where
  "decapRule n proto ds src post fb =
     \<lparr>seqID = n, ipv4 = Some \<lparr>protocol = proto, dscpSet = ds, sourceAddr = src\<rparr>, ipv6 = None,
      action = Some \<lparr>decapNI = niDecapTeVrf, postDecapNI = post, decapFallbackNI = fb, networkInstance = []\<rparr>\<rparr>"

definition dscpRule4 :: "32 word \<Rightarrow> byte list \<Rightarrow> string \<Rightarrow> policyFwRule" where
  "dscpRule4 n ds ni =
     \<lparr>seqID = n, ipv4 = Some \<lparr>protocol = 0, dscpSet = Some ds, sourceAddr = []\<rparr>, ipv6 = None,
      action = Some \<lparr>decapNI = [], postDecapNI = [], decapFallbackNI = [], networkInstance = ni\<rparr>\<rparr>"

definition dscpRule6 :: "32 word \<Rightarrow> byte list \<Rightarrow> string \<Rightarrow> policyFwRule" where
  "dscpRule6 n ds ni =
     \<lparr>seqID = n, ipv4 = None, ipv6 = Some \<lparr>protocol = 0, dscpSet = Some ds, sourceAddr = []\<rparr>,
      action = Some \<lparr>decapNI = [], postDecapNI = [], decapFallbackNI = [], networkInstance = ni\<rparr>\<rparr>"

text \<open>The twelve rules the two policies share.\<close>

definition pfRules12 :: "policyFwRule list" where
  "pfRules12 =
     [decapRule 1 4 (Some dscpEncapA) ipv4OuterSrc222WithMask niEncapTeVrfA niTeVrf222,
      decapRule 2 41 (Some dscpEncapA) ipv4OuterSrc222WithMask niEncapTeVrfA niTeVrf222,
      decapRule 3 4 (Some dscpEncapA) ipv4OuterSrc111WithMask niEncapTeVrfA niTeVrf111,
      decapRule 4 41 (Some dscpEncapA) ipv4OuterSrc111WithMask niEncapTeVrfA niTeVrf111,
      decapRule 5 4 (Some dscpEncapB) ipv4OuterSrc222WithMask niEncapTeVrfB niTeVrf222,
      decapRule 6 41 (Some dscpEncapB) ipv4OuterSrc222WithMask niEncapTeVrfB niTeVrf222,
      decapRule 7 4 (Some dscpEncapB) ipv4OuterSrc111WithMask niEncapTeVrfB niTeVrf111,
      decapRule 8 41 (Some dscpEncapB) ipv4OuterSrc111WithMask niEncapTeVrfB niTeVrf111,
      decapRule 9 4 None ipv4OuterSrc222WithMask niDefault niTeVrf222,
      decapRule 10 41 None ipv4OuterSrc222WithMask niDefault niTeVrf222,
      decapRule 11 4 None ipv4OuterSrc111WithMask niDefault niTeVrf111,
      decapRule 12 41 None ipv4OuterSrc111WithMask niDefault niTeVrf111]"

definition pfRules16 :: "policyFwRule list" where
  "pfRules16 =
     pfRules12 @
     [dscpRule4 13 dscpEncapA niEncapTeVrfA,
      dscpRule6 14 dscpEncapA niEncapTeVrfA,
      dscpRule4 15 dscpEncapB niEncapTeVrfB,
      dscpRule6 16 dscpEncapB niEncapTeVrfB]"

text \<open>\<^verbatim>\<open>pfRule10.seqID = 910\<close> and so on, for every rule from the tenth.\<close>

definition sequential :: "pf_dev \<Rightarrow> policyFwRule list \<Rightarrow> policyFwRule list" where
  "sequential dut rules =
     (if PfRequireSequentialOrderPbrRules dut
      then take 9 rules @ map (\<lambda>r. r\<lparr>seqID := 900 + seqID r\<rparr>) (drop 9 rules) else rules)"

definition default_rules :: "pf_dev \<Rightarrow> 32 word \<Rightarrow> string \<Rightarrow> oc_policy \<Rightarrow> oc_policy" where
  "default_rules dut n dflt pol =
     (if PfRequireMatchDefaultRule dut
      then on_rule (900 + n + 1) (\<lambda>r. set_ni dflt (r\<lparr>L2_Ethertype := Some ETHERTYPE_IPV6\<rparr>))
             (on_rule (900 + n) (\<lambda>r. set_ni dflt (r\<lparr>L2_Ethertype := Some ETHERTYPE_IPV4\<rparr>)) pol)
      else on_rule n (set_ni dflt) pol)"

definition BuildVRFSelectionPolicyW :: "pf_dev \<Rightarrow> (gnmi_req list \<times> oc_policy_forwarding) option" where
  "BuildVRFSelectionPolicyW dut =
     map_option (\<lambda>niP. (configNonDefaultNetworkInstance, on_policy VRFPolicyW (default_rules dut 13 niDefault) niP))
       (buildVRFSelectionPolicy VRFPolicyW (sequential dut pfRules12))"

definition BuildVRFSelectionPolicyC :: "pf_dev \<Rightarrow> (gnmi_req list \<times> oc_policy_forwarding) option" where
  "BuildVRFSelectionPolicyC dut =
     map_option (\<lambda>niP. (configNonDefaultNetworkInstance, on_policy VRFPolicyC (default_rules dut 17 niDefault) niP))
       (buildVRFSelectionPolicy VRFPolicyC (sequential dut pfRules16))"

datatype policy_err = UnsupportedPolicy string | PolicyPanic

definition apply_interface :: "pf_dev \<Rightarrow> string \<Rightarrow> string \<Rightarrow> string \<Rightarrow> oc_policy_forwarding \<Rightarrow> oc_policy_forwarding" where
  "apply_interface dut interfaceID port policyName pf =
     pf\<lparr>Pf_Interface := AList.update interfaceID
       \<lparr>ApplyVrfSelectionPolicy = Some policyName,
        InterfaceRef = (if InterfaceRefConfigUnsupported dut then None else Some (port, 0))\<rparr> (Pf_Interface pf)\<rparr>"

definition pf_interface_id :: "pf_dev \<Rightarrow> string \<Rightarrow> string" where
  "pf_interface_id dut port =
     (if InterfaceRefInterfaceIDFormat dut \<or> InterfaceIDFormatRequiredForPolicyForwarding dut then port @ ''.0'' else port)"

definition ConfigureVRFSelectionPolicy :: "pf_dev \<Rightarrow> string \<Rightarrow> string \<Rightarrow> (policy_err, gnmi_req list) res" where
  "ConfigureVRFSelectionPolicy dut port1 policyName =
     bind_res
       (if policyName = VRFPolicyC
        then (case BuildVRFSelectionPolicyC dut of None \<Rightarrow> Inl PolicyPanic | Some x \<Rightarrow> Inr x)
        else if policyName = VRFPolicyW
        then (case BuildVRFSelectionPolicyW dut of None \<Rightarrow> Inl PolicyPanic | Some x \<Rightarrow> Inr x)
        else Inl (UnsupportedPolicy policyName))
       (\<lambda>(reqs, niForwarding).
          Inr (reqs @ [ReplacePF (DefaultNetworkInstance dut)
                         (apply_interface dut (pf_interface_id dut port1) port1 policyName niForwarding)]))"

definition DeletePolicyForwarding :: "pf_dev \<Rightarrow> string \<Rightarrow> gnmi_req list" where
  "DeletePolicyForwarding dut port = [DeletePFInterface (DefaultNetworkInstance dut) (pf_interface_id dut port)]"


section \<open>\<^verbatim>\<open>policyforwarding.go\<close>\<close>

text \<open>The loops add rules one by one with the next sequence identifier: the state is the identifier and the policy.\<close>

definition add_rule :: "(oc_rule \<Rightarrow> oc_rule) \<Rightarrow> 32 word \<times> oc_policy \<Rightarrow> 32 word \<times> oc_policy" where
  "add_rule f st = (fst st + 1, on_rule (fst st) f (snd st))"

definition outer_prefix :: "string \<Rightarrow> string" where
  "outer_prefix src = src @ ''/'' @ dec 32"

definition scale_decap_rule :: "byte \<Rightarrow> string \<Rightarrow> byte list option \<Rightarrow> string \<Rightarrow> string \<Rightarrow> oc_rule \<Rightarrow> oc_rule" where
  "scale_decap_rule proto src ds post fb r =
     (let ip = (case Ipv4 r of None \<Rightarrow> no_ip | Some i \<Rightarrow> i);
          act = (case Action r of None \<Rightarrow> no_action | Some a \<Rightarrow> a) in
      r\<lparr>Ipv4 := Some (ip\<lparr>DscpSet := (case ds of None \<Rightarrow> DscpSet ip | Some d \<Rightarrow> d), Protocol := Some proto,
                        SourceAddress := Some (outer_prefix src)\<rparr>),
        Action := Some (act\<lparr>DecapNetworkInstance := Some DecapVRFStr, PostDecapNetworkInstance := Some post,
                          DecapFallbackNetworkInstance := Some fb\<rparr>)\<rparr>)"

definition scale_dscp_rule4 :: "byte list \<Rightarrow> string \<Rightarrow> oc_rule \<Rightarrow> oc_rule" where
  "scale_dscp_rule4 ds vrf r = set_ni vrf (r\<lparr>Ipv4 := Some ((case Ipv4 r of None \<Rightarrow> no_ip | Some i \<Rightarrow> i)\<lparr>DscpSet := ds\<rparr>)\<rparr>)"

definition scale_dscp_rule6 :: "byte list \<Rightarrow> string \<Rightarrow> oc_rule \<Rightarrow> oc_rule" where
  "scale_dscp_rule6 ds vrf r = set_ni vrf (r\<lparr>Ipv6 := Some ((case Ipv6 r of None \<Rightarrow> no_ip | Some i \<Rightarrow> i)\<lparr>DscpSet := ds\<rparr>)\<rparr>)"

definition dscp_set :: "nat \<Rightarrow> byte list" where
  "dscp_set i = (let (d1, d2) = EncapVRFDSCP i in [d1, d2])"

definition outer_fallback :: "string \<Rightarrow> string" where
  "outer_fallback src = (if src = IPv4OuterSrc111 then TransitVRF111Str else TransitVRF222Str)"

definition encap_decap_rules :: "nat \<times> string \<Rightarrow> (oc_rule \<Rightarrow> oc_rule) list" where
  "encap_decap_rules iv =
     concat (map (\<lambda>src. map (\<lambda>proto. scale_decap_rule proto src (Some (dscp_set (fst iv))) (snd iv) (outer_fallback src)) [4, 41])
       [IPv4OuterSrc222, IPv4OuterSrc111])"

definition default_decap_rules :: "string \<Rightarrow> (oc_rule \<Rightarrow> oc_rule) list" where
  "default_decap_rules defaultVRF =
     map (\<lambda>(proto, src, fallback). scale_decap_rule proto src None defaultVRF fallback)
       [(4, IPv4OuterSrc222, TransitVRF222Str), (41, IPv4OuterSrc222, TransitVRF222Str),
        (4, IPv4OuterSrc111, TransitVRF111Str), (41, IPv4OuterSrc111, TransitVRF111Str)]"

definition plain_dscp_rules :: "nat \<times> string \<Rightarrow> (oc_rule \<Rightarrow> oc_rule) list" where
  "plain_dscp_rules iv = [scale_dscp_rule4 (dscp_set (fst iv)) (snd iv), scale_dscp_rule6 (dscp_set (fst iv)) (snd iv)]"

definition last_rules :: "pf_dev \<Rightarrow> (oc_rule \<Rightarrow> oc_rule) list" where
  "last_rules dut =
     (let defaultVRF = DefaultNetworkInstance dut in
      if PfRequireMatchDefaultRule dut
      then [\<lambda>r. set_ni defaultVRF (r\<lparr>L2_Ethertype := Some ETHERTYPE_IPV4\<rparr>),
            \<lambda>r. set_ni defaultVRF (r\<lparr>L2_Ethertype := Some ETHERTYPE_IPV6\<rparr>)]
      else [set_ni defaultVRF])"

definition scale_policy :: "pf_dev \<Rightarrow> string list \<Rightarrow> oc_policy" where
  "scale_policy dut encapVRFs =
     (let st0 = (1, no_policy\<lparr>Policy_Type := VRF_SELECTION_POLICY\<rparr>);
          st1 = fold (\<lambda>iv st. fold add_rule (encap_decap_rules iv) st) (List.enumerate 0 encapVRFs) st0;
          st2 = fold add_rule (default_decap_rules (DefaultNetworkInstance dut)) st1;
          st3 = fold (\<lambda>iv st. fold add_rule (plain_dscp_rules iv) st) (List.enumerate 0 encapVRFs) st2;
          st4 = fold add_rule (last_rules dut) st3
      in snd st4)"

definition VRFPolC :: string where "VRFPolC = ''vrf_selection_policy_c''"

definition ConfigureVRFSelectionPolicyOC :: "pf_dev \<Rightarrow> string \<Rightarrow> string list \<Rightarrow> gnmi_req list" where
  "ConfigureVRFSelectionPolicyOC dut port1 encapVRFs =
     (let pf = no_pf\<lparr>Pf_Policy := [(VRFPolC, scale_policy dut encapVRFs)]\<rparr>;
          interfaceID = (if InterfaceRefInterfaceIDFormat dut then port1 @ ''.0'' else port1)
      in [ReplacePF (DefaultNetworkInstance dut) (apply_interface dut interfaceID port1 VRFPolC pf)])"

record PbrRule =
  Sequence :: "32 word"
  EtherType :: "ethertype option"
  EncapVrf :: string

definition getPbrRules :: "pf_dev \<Rightarrow> PbrRule list" where
  "getPbrRules dut =
     (let vrfDefault = DefaultNetworkInstance dut in
      if PfRequireMatchDefaultRule dut
      then [\<lparr>Sequence = 17, EtherType = Some ETHERTYPE_IPV4, EncapVrf = vrfDefault\<rparr>,
            \<lparr>Sequence = 18, EtherType = Some ETHERTYPE_IPV6, EncapVrf = vrfDefault\<rparr>]
      else [\<lparr>Sequence = 17, EtherType = None, EncapVrf = vrfDefault\<rparr>])"

definition seqIDOffset :: "pf_dev \<Rightarrow> 32 word \<Rightarrow> 32 word" where
  "seqIDOffset dut i = (if PfRequireSequentialOrderPbrRules dut then i + 10 else i)"

definition pbr_rule :: "pf_dev \<Rightarrow> PbrRule \<Rightarrow> oc_rule \<Rightarrow> oc_rule" where
  "pbr_rule dut pRule r =
     (let r1 = (if PfRequireMatchDefaultRule dut \<and> EtherType pRule \<noteq> None then r\<lparr>L2_Ethertype := EtherType pRule\<rparr> else r)
      in if EncapVrf pRule \<noteq> [] then set_ni (EncapVrf pRule) r1 else r1)"

definition NewPolicyForwardingVRFSelection :: "pf_dev \<Rightarrow> string \<Rightarrow> gnmi_req list \<Rightarrow> gnmi_req list" where
  "NewPolicyForwardingVRFSelection dut name sb =
     sb @ [UpdatePF (DefaultNetworkInstance dut)
       (no_pf\<lparr>Pf_Policy := [(name,
          fold (\<lambda>pr. on_rule (seqIDOffset dut (Sequence pr)) (pbr_rule dut pr)) (getPbrRules dut)
            (no_policy\<lparr>Policy_Type := VRF_SELECTION_POLICY\<rparr>))]\<rparr>)]"


section \<open>Rule lists\<close>

definition decide :: "packet \<Rightarrow> oc_rule list \<Rightarrow> oc_action option" where
  "decide p rs = Option.bind (List.find (rule_matches p) rs) Action"

lemma decide_simps [simp]:
  "decide p [] = None"
  "decide p (r # rs) = (if rule_matches p r then Action r else decide p rs)"
  by (simp_all add: decide_def)

lemma try_rules_decide: "try_rules p rs = decide p (map snd rs)"
  by (induction p rs rule: try_rules.induct) simp_all

lemma decide_append:
  assumes "\<forall>r\<in>set rs. Action r \<noteq> None"
  shows "decide p (rs @ rs') = (case decide p rs of None \<Rightarrow> decide p rs' | Some a \<Rightarrow> Some a)"
  using assms by (induction rs) auto

lemma first_match_sorted: "sorted (map fst rs) \<Longrightarrow> first_match rs p = decide p (map snd rs)"
  by (simp add: first_match_def try_rules_decide sorted_sort_id sort_key_id_if_sorted)

lemma update_fresh: "k \<notin> fst ` set rs \<Longrightarrow> AList.update k v rs = rs @ [(k, v)]"
  by (induction rs) auto

lemma get_or_fresh: "k \<notin> fst ` set rs \<Longrightarrow> get_or d rs k = d"
  by (auto simp: get_or_def split: option.splits dest: map_of_SomeD) (metis fst_conv image_eqI map_of_SomeD)

text \<open>The rule built from an empty one.\<close>

definition oc_of :: "policyFwRule \<Rightarrow> oc_rule" where
  "oc_of pr = the (build_rule pr no_rule)"

lemma build_rules_fresh:
  assumes "distinct (map fst rs @ map seqID prs)" "\<forall>pr\<in>set prs. build_rule pr no_rule \<noteq> None"
  shows "build_rules prs rs = Some (rs @ map (\<lambda>pr. (seqID pr, oc_of pr)) prs)"
  using assms
proof (induction prs arbitrary: rs)
  case (Cons pr prs)
  have "seqID pr \<notin> fst ` set rs" using Cons.prems(1) by auto
  moreover obtain r where "build_rule pr no_rule = Some r" using Cons.prems(2) by auto
  ultimately show ?case
    using Cons.prems Cons.IH [of "rs @ [(seqID pr, r)]"] by (simp add: get_or_fresh update_fresh oc_of_def)
qed simp

lemma on_rule_fresh:
  "k \<notin> fst ` set (Policy_Rule pol) \<Longrightarrow> on_rule k f pol = pol\<lparr>Policy_Rule := Policy_Rule pol @ [(k, f no_rule)]\<rparr>"
  by (simp add: on_rule_def get_or_fresh update_fresh)

text \<open>Adding rules with the next identifier enumerates them.\<close>

lemma fold_add_rule:
  assumes "unat n + length fs < 2 ^ 32" "\<forall>k\<in>fst ` set (Policy_Rule pol). k < n"
  shows "fold add_rule fs (n, pol) =
           (n + of_nat (length fs),
            pol\<lparr>Policy_Rule := Policy_Rule pol @ map (\<lambda>(i, f). (n + of_nat i, f no_rule)) (List.enumerate 0 fs)\<rparr>)"
  using assms
proof (induction fs arbitrary: n pol)
  case (Cons f fs)
  have n: "unat (n + 1) = Suc (unat n)" using Cons.prems(1) by (simp add: unat_word_ariths)
  have lt: "n < n + 1" using n by (simp add: word_less_nat_alt)
  let ?pol = "pol\<lparr>Policy_Rule := Policy_Rule pol @ [(n, f no_rule)]\<rparr>"
  have "n \<notin> fst ` set (Policy_Rule pol)" using Cons.prems(2) by auto
  then have "fold add_rule (f # fs) (n, pol) = fold add_rule fs (n + 1, ?pol)"
    by (simp add: add_rule_def on_rule_fresh)
  also have "\<dots> = (n + 1 + of_nat (length fs),
      ?pol\<lparr>Policy_Rule := Policy_Rule ?pol @ map (\<lambda>(i, f). (n + 1 + of_nat i, f no_rule)) (List.enumerate 0 fs)\<rparr>)"
    using Cons.prems n lt by (intro Cons.IH) (auto dest: less_trans)
  also have "map (\<lambda>(i, f). (n + 1 + of_nat i, f no_rule)) (List.enumerate 0 fs)
      = map (\<lambda>(i, f). (n + of_nat i, f no_rule)) (List.enumerate 1 fs)"
    by (rule nth_equalityI) (simp_all add: nth_enumerate_eq algebra_simps)
  finally show ?case by (simp add: algebra_simps)
qed simp


section \<open>Matching\<close>

lemma mask_255: "(255 :: byte) = mask 8"
  by (simp add: mask_eq_exp_minus_1)

lemma outer_blocks:
  "ParseCIDR ipv4OuterSrc222WithMask =
     Some (v4InV6Prefix @ [198, 51, 100, 222], \<lparr>netIP = [198, 51, 100, 222], netMask = [255, 255, 255, 255]\<rparr>)"
  "ParseCIDR ipv4OuterSrc111WithMask =
     Some (v4InV6Prefix @ [198, 51, 100, 111], \<lparr>netIP = [198, 51, 100, 111], netMask = [255, 255, 255, 255]\<rparr>)"
  by (simp_all add: ip_eval)

lemma in_prefix_outer:
  "in_prefix ipv4OuterSrc222WithMask ip \<longleftrightarrow> ip = [198, 51, 100, 222]"
  "in_prefix ipv4OuterSrc111WithMask ip \<longleftrightarrow> ip = [198, 51, 100, 111]"
proof -
  have msk: "length ip = 4 \<Longrightarrow> maskIP ip [255, 255, 255, 255] = ip" for ip
  proof -
    assume "length ip = 4"
    then obtain a b c d where "ip = [a, b, c, d]" by (auto simp: length_Suc_conv eval_nat_numeral)
    moreover have "and x 255 = x" for x :: byte by (rule bit_word_eqI) (simp add: bit_and_iff mask_255 bit_mask_iff)
    ultimately show ?thesis by (simp add: maskIP_def)
  qed
  show "in_prefix ipv4OuterSrc222WithMask ip \<longleftrightarrow> ip = [198, 51, 100, 222]"
    "in_prefix ipv4OuterSrc111WithMask ip \<longleftrightarrow> ip = [198, 51, 100, 111]"
    using msk [of ip] by (auto simp: in_prefix_def outer_blocks)
qed

lemma outer_prefixes:
  "outer_prefix IPv4OuterSrc222 = ipv4OuterSrc222WithMask"
  "outer_prefix IPv4OuterSrc111 = ipv4OuterSrc111WithMask"
  by code_simp+

definition tunnel_fallback :: "packet \<Rightarrow> string option" where
  "tunnel_fallback p = (if \<not> pkt_v6 p \<and> pkt_proto p \<in> {4, 41} then transit_vrf (pkt_src p) else None)"

definition encAB :: "byte \<Rightarrow> string option" where
  "encAB d = (if d \<in> {10, 18} then Some niEncapTeVrfA else if d \<in> {20, 28} then Some niEncapTeVrfB else None)"

lemma te_decision_alt:
  "te_decision enc plain dflt p =
     (case tunnel_fallback p of
        Some fb \<Rightarrow> decap_action (case enc (pkt_dscp p) of None \<Rightarrow> dflt | Some v \<Rightarrow> v) fb
      | None \<Rightarrow> ni_action (case if plain then enc (pkt_dscp p) else None of None \<Rightarrow> dflt | Some v \<Rightarrow> v))"
  by (simp add: te_decision_def tunnel_fallback_def)

lemmas build_simps = build_rule_def build_ipv4_def build_ipv6_def build_action_def some_if_def

lemma decap_rule_matches:
  "rule_matches p (oc_of (decapRule n q (Some [d1, d2]) s v fb)) \<longleftrightarrow>
     \<not> pkt_v6 p \<and> (pkt_dscp p = d1 \<or> pkt_dscp p = d2) \<and> (q = 0 \<or> pkt_proto p = q) \<and> (s = [] \<or> in_prefix s (pkt_src p))"
  "rule_matches p (oc_of (decapRule n q None s v fb)) \<longleftrightarrow>
     \<not> pkt_v6 p \<and> (q = 0 \<or> pkt_proto p = q) \<and> (s = [] \<or> in_prefix s (pkt_src p))"
  by (simp_all add: oc_of_def decapRule_def build_simps rule_matches_def ip_matches_def)

lemma dscp_rule_matches:
  "rule_matches p (oc_of (dscpRule4 n [d1, d2] v)) \<longleftrightarrow> \<not> pkt_v6 p \<and> (pkt_dscp p = d1 \<or> pkt_dscp p = d2)"
  "rule_matches p (oc_of (dscpRule6 n [d1, d2] v)) \<longleftrightarrow> pkt_v6 p \<and> (pkt_dscp p = d1 \<or> pkt_dscp p = d2)"
  by (simp_all add: oc_of_def dscpRule4_def dscpRule6_def build_simps rule_matches_def ip_matches_def)

lemma oc_of_actions [simp]:
  "v \<noteq> [] \<Longrightarrow> fb \<noteq> [] \<Longrightarrow> Action (oc_of (decapRule n q ds s v fb)) = Some (decap_action v fb)"
  "v \<noteq> [] \<Longrightarrow> Action (oc_of (dscpRule4 n ds' v)) = Some (ni_action v)"
  "v \<noteq> [] \<Longrightarrow> Action (oc_of (dscpRule6 n ds' v)) = Some (ni_action v)"
  by (simp_all add: oc_of_def decapRule_def dscpRule4_def dscpRule6_def build_simps decap_action_def ni_action_def)

lemma decide_pfRules12:
  "decide p (map oc_of pfRules12) =
     map_option (decap_action (case encAB (pkt_dscp p) of None \<Rightarrow> niDefault | Some v \<Rightarrow> v)) (tunnel_fallback p)"
proof (cases "pkt_v6 p \<or> pkt_proto p \<notin> {4, 41} \<or> transit_vrf (pkt_src p) = None")
  case True
  then show ?thesis
    by (auto simp: pfRules12_def decap_rule_matches in_prefix_outer tunnel_fallback_def transit_vrf_def split: if_splits)
next
  case False
  then have "\<not> pkt_v6 p" and "pkt_proto p = 4 \<or> pkt_proto p = 41"
    and "pkt_src p = [198, 51, 100, 222] \<or> pkt_src p = [198, 51, 100, 111]"
    by (auto simp: transit_vrf_def split: if_splits)
  then show ?thesis
    by (elim disjE; simp add: pfRules12_def decap_rule_matches in_prefix_outer tunnel_fallback_def transit_vrf_def encAB_def)
qed

lemma actions_pfRules12: "\<forall>r\<in>set (map oc_of pfRules12). Action r \<noteq> None"
  by (simp add: pfRules12_def)

lemma decide_pfRules16:
  "decide p (map oc_of pfRules16) =
     (case tunnel_fallback p of
        Some fb \<Rightarrow> Some (decap_action (case encAB (pkt_dscp p) of None \<Rightarrow> niDefault | Some v \<Rightarrow> v) fb)
      | None \<Rightarrow> map_option ni_action (encAB (pkt_dscp p)))"
  by (cases "tunnel_fallback p")
    (simp_all add: pfRules16_def decide_append [OF actions_pfRules12] decide_pfRules12 dscp_rule_matches encAB_def)

lemma actions_pfRules16: "\<forall>r\<in>set (map oc_of pfRules16). Action r \<noteq> None"
  using actions_pfRules12 by (simp add: pfRules16_def ball_Un)

lemma oc_of_seqID [simp]: "oc_of (r\<lparr>seqID := n\<rparr>) = oc_of r"
  by (simp add: oc_of_def build_rule_def split: option.split)

lemma oc_of_sequential: "map oc_of (sequential dut rules) = map oc_of rules"
  by (simp add: sequential_def comp_def) (metis append_take_drop_id map_append)

section \<open>The policies W and C\<close>

text \<open>The rules of a policy, given the numbered rules it is built from.\<close>

definition rules_of :: "pf_dev \<Rightarrow> policyFwRule list \<Rightarrow> 32 word \<Rightarrow> (32 word \<times> oc_rule) list" where
  "rules_of dut rules n =
     map (\<lambda>pr. (seqID pr, oc_of pr)) (sequential dut rules) @
     (if PfRequireMatchDefaultRule dut
      then [(900 + n, set_ni niDefault (no_rule\<lparr>L2_Ethertype := Some ETHERTYPE_IPV4\<rparr>)),
            (900 + n + 1, set_ni niDefault (no_rule\<lparr>L2_Ethertype := Some ETHERTYPE_IPV6\<rparr>))]
      else [(n, set_ni niDefault no_rule)])"

definition numbered :: "pf_dev \<Rightarrow> policyFwRule list \<Rightarrow> 32 word \<Rightarrow> bool" where
  "numbered dut rules n \<longleftrightarrow>
     distinct (map fst (rules_of dut rules n)) \<and> (\<forall>pr\<in>set (sequential dut rules). build_rule pr no_rule \<noteq> None)"

lemma build_policy:
  assumes "numbered dut rules n"
  shows "map_option (on_policy name (default_rules dut n niDefault)) (buildVRFSelectionPolicy name (sequential dut rules))
           = Some \<lparr>Pf_Policy = [(name, \<lparr>Policy_Type = VRF_SELECTION_POLICY, Policy_Rule = rules_of dut rules n\<rparr>)],
                   Pf_Interface = []\<rparr>"
proof -
  have "build_rules (sequential dut rules) [] = Some (map (\<lambda>pr. (seqID pr, oc_of pr)) (sequential dut rules))"
    using assms build_rules_fresh [of "[]" "sequential dut rules"]
    by (simp add: numbered_def rules_of_def comp_def split: if_splits)
  then show ?thesis
    using assms
    by (auto simp: buildVRFSelectionPolicy_def on_policy_def get_or_def default_rules_def on_rule_fresh numbered_def rules_of_def image_image)
qed

lemma numbered_policies:
  "numbered dut pfRules12 13" "numbered dut pfRules16 17"
  by (cases "PfRequireSequentialOrderPbrRules dut"; cases "PfRequireMatchDefaultRule dut";
      simp add: numbered_def rules_of_def sequential_def pfRules16_def pfRules12_def decapRule_def dscpRule4_def dscpRule6_def
        build_rule_def)+

lemma ordered_policies:
  assumes "PfRequireSequentialOrderPbrRules dut \<longrightarrow> PfRequireMatchDefaultRule dut"
  shows "sorted (map fst (rules_of dut pfRules12 13))" "sorted (map fst (rules_of dut pfRules16 17))"
  using assms
  by (cases "PfRequireSequentialOrderPbrRules dut"; cases "PfRequireMatchDefaultRule dut";
      simp add: rules_of_def sequential_def pfRules16_def pfRules12_def decapRule_def dscpRule4_def dscpRule6_def)+

lemma set_ni_simps [simp]:
  "Action (set_ni v \<lparr>L2_Ethertype = e, Ipv4 = i4, Ipv6 = i6, Action = None\<rparr>) = Some (ni_action v)"
  "rule_matches p (set_ni v r) \<longleftrightarrow> rule_matches p r"
  by (simp_all add: set_ni_def ni_action_def rule_matches_def)

lemma rule_matches_ethertype [simp]:
  "rule_matches p \<lparr>L2_Ethertype = None, Ipv4 = None, Ipv6 = None, Action = a\<rparr>"
  "rule_matches p \<lparr>L2_Ethertype = Some e, Ipv4 = None, Ipv6 = None, Action = a\<rparr> \<longleftrightarrow> (pkt_v6 p \<longleftrightarrow> e = ETHERTYPE_IPV6)"
  by (simp_all add: rule_matches_def)

lemma decide_rules_of:
  assumes "\<forall>r\<in>set (map oc_of rules). Action r \<noteq> None"
  shows "decide p (map snd (rules_of dut rules n)) =
           (case decide p (map oc_of rules) of None \<Rightarrow> Some (ni_action niDefault) | Some a \<Rightarrow> Some a)"
proof -
  have "map snd (rules_of dut rules n) = map oc_of rules @ map snd (drop (length rules) (rules_of dut rules n))"
    using oc_of_sequential [of dut rules] by (simp add: rules_of_def sequential_def comp_def split: if_splits)
  moreover have "decide p (map snd (drop (length rules) (rules_of dut rules n))) = Some (ni_action niDefault)"
    by (simp add: rules_of_def sequential_def)
  ultimately show ?thesis using decide_append [OF assms] by (simp split: option.split)
qed

text \<open>What the two policies decide.\<close>

lemma policy_decisions:
  assumes "PfRequireSequentialOrderPbrRules dut \<longrightarrow> PfRequireMatchDefaultRule dut"
  shows "first_match (rules_of dut pfRules12 13) p = Some (te_decision encAB False niDefault p)"
    and "first_match (rules_of dut pfRules16 17) p = Some (te_decision encAB True niDefault p)"
  by (cases "tunnel_fallback p"; cases "encAB (pkt_dscp p)";
      simp add: first_match_sorted ordered_policies [OF assms] decide_rules_of actions_pfRules12 actions_pfRules16
        decide_pfRules12 decide_pfRules16 te_decision_alt)+

section \<open>The full-scale policy\<close>

text \<open>The rules of the policy, without their numbers, for VRFs numbered as in \<open>ivs\<close>.\<close>

definition plain_rules :: "(oc_rule \<Rightarrow> oc_rule) list \<Rightarrow> oc_rule list" where
  "plain_rules fs = map (\<lambda>f. f no_rule) fs"

definition enc_of :: "(nat \<times> string) list \<Rightarrow> byte \<Rightarrow> string option" where
  "enc_of ivs d = map_option snd (List.find (\<lambda>iv. d \<in> set (dscp_set (fst iv))) ivs)"

definition scale_rules :: "pf_dev \<Rightarrow> string list \<Rightarrow> (oc_rule \<Rightarrow> oc_rule) list" where
  "scale_rules dut vrfs =
     concat (map encap_decap_rules (List.enumerate 0 vrfs)) @ default_decap_rules (DefaultNetworkInstance dut)
     @ concat (map plain_dscp_rules (List.enumerate 0 vrfs)) @ last_rules dut"

lemma plain_rules_append [simp]:
  "plain_rules [] = []" "plain_rules (xs @ ys) = plain_rules xs @ plain_rules ys"
  by (simp_all add: plain_rules_def)

lemma scale_policy_fold:
  "scale_policy dut vrfs = snd (fold add_rule (scale_rules dut vrfs) (1, no_policy\<lparr>Policy_Type := VRF_SELECTION_POLICY\<rparr>))"
proof -
  have "fold (\<lambda>iv st. fold add_rule (g iv) st) ivs st = fold add_rule (concat (map g ivs)) st" for g st
    and ivs :: "(nat \<times> string) list"
    by (induction ivs arbitrary: st) simp_all
  then show ?thesis by (simp add: scale_policy_def scale_rules_def Let_def)
qed

lemma length_scale_rules: "length (scale_rules dut vrfs) \<le> 6 * length vrfs + 6"
proof -
  have "length (concat (map encap_decap_rules ivs)) = 4 * length ivs" "length (concat (map plain_dscp_rules ivs)) = 2 * length ivs" for ivs
    by (induction ivs) (simp_all add: encap_decap_rules_def plain_dscp_rules_def)
  then show ?thesis by (simp add: scale_rules_def default_decap_rules_def last_rules_def Let_def)
qed

lemma scale_policy_rules:
  assumes "length vrfs < 2 ^ 29"
  shows "Policy_Type (scale_policy dut vrfs) = VRF_SELECTION_POLICY"
    and "first_match (Policy_Rule (scale_policy dut vrfs)) p = decide p (plain_rules (scale_rules dut vrfs))"
proof -
  let ?fs = "scale_rules dut vrfs"
  let ?rs = "map (\<lambda>(i, f). (1 + of_nat i :: 32 word, f no_rule)) (List.enumerate 0 ?fs)"
  have len: "length ?fs + 1 < 2 ^ 32" using assms length_scale_rules [of dut vrfs] by simp
  then have pol: "scale_policy dut vrfs = \<lparr>Policy_Type = VRF_SELECTION_POLICY, Policy_Rule = ?rs\<rparr>"
    by (simp add: scale_policy_fold fold_add_rule)
  then show "Policy_Type (scale_policy dut vrfs) = VRF_SELECTION_POLICY" by simp
  have "unat (1 + of_nat i :: 32 word) = 1 + i" if "i < length ?fs" for i
    using that len by (simp add: unat_word_ariths unat_of_nat)
  then have "sorted (map fst ?rs)"
    by (auto simp: sorted_iff_nth_mono nth_enumerate_eq word_le_nat_alt)
  moreover have "map snd ?rs = plain_rules ?fs"
    by (rule nth_equalityI) (simp_all add: nth_enumerate_eq plain_rules_def)
  ultimately show "first_match (Policy_Rule (scale_policy dut vrfs)) p = decide p (plain_rules ?fs)"
    by (simp add: pol first_match_sorted)
qed

lemma scale_decap_rule_simps [simp]:
  "rule_matches p (scale_decap_rule q src (Some (dscp_set i)) v fb no_rule) \<longleftrightarrow>
     \<not> pkt_v6 p \<and> pkt_dscp p \<in> set (dscp_set i) \<and> pkt_proto p = q \<and> in_prefix (outer_prefix src) (pkt_src p)"
  "rule_matches p (scale_decap_rule q src None v fb no_rule) \<longleftrightarrow>
     \<not> pkt_v6 p \<and> pkt_proto p = q \<and> in_prefix (outer_prefix src) (pkt_src p)"
  "Action (scale_decap_rule q src ds v fb no_rule) = Some (decap_action v fb)"
  "rule_matches p (scale_dscp_rule4 (dscp_set i) v no_rule) \<longleftrightarrow> \<not> pkt_v6 p \<and> pkt_dscp p \<in> set (dscp_set i)"
  "rule_matches p (scale_dscp_rule6 (dscp_set i) v no_rule) \<longleftrightarrow> pkt_v6 p \<and> pkt_dscp p \<in> set (dscp_set i)"
  "Action (scale_dscp_rule4 ds' v no_rule) = Some (ni_action v)"
  "Action (scale_dscp_rule6 ds' v no_rule) = Some (ni_action v)"
  by (auto simp: scale_decap_rule_def scale_dscp_rule4_def scale_dscp_rule6_def rule_matches_def ip_matches_def
      decap_action_def DecapVRFStr_def dscp_set_def EncapVRFDSCP_def set_ni_def ni_action_def Let_def)

lemmas scale_consts = outer_fallback_def outer_prefixes in_prefix_outer TransitVRF111Str_def TransitVRF222Str_def
  tunnel_fallback_def transit_vrf_def

lemma outer_src_neq [simp]: "IPv4OuterSrc222 \<noteq> IPv4OuterSrc111"
  by (simp add: IPv4OuterSrc222_def IPv4OuterSrc111_def)

lemma decide_encap_decap:
  "decide p (plain_rules (encap_decap_rules (i, v)) @ rs) =
     (case tunnel_fallback p of
        Some fb \<Rightarrow> if pkt_dscp p \<in> set (dscp_set i) then Some (decap_action v fb) else decide p rs
      | None \<Rightarrow> decide p rs)"
  by (auto simp: plain_rules_def encap_decap_rules_def scale_consts)

lemma decide_encap_decaps:
  "decide p (plain_rules (concat (map encap_decap_rules ivs)) @ rs) =
     (case tunnel_fallback p of
        Some fb \<Rightarrow> (case enc_of ivs (pkt_dscp p) of Some v \<Rightarrow> Some (decap_action v fb) | None \<Rightarrow> decide p rs)
      | None \<Rightarrow> decide p rs)"
  by (induction ivs) (auto simp: decide_encap_decap enc_of_def split: option.split)

lemma decide_plain_dscp:
  "decide p (plain_rules (concat (map plain_dscp_rules ivs)) @ rs) =
     (case enc_of ivs (pkt_dscp p) of Some v \<Rightarrow> Some (ni_action v) | None \<Rightarrow> decide p rs)"
proof (induction ivs)
  case (Cons iv ivs)
  have "plain_rules (plain_dscp_rules iv) =
      [scale_dscp_rule4 (dscp_set (fst iv)) (snd iv) no_rule, scale_dscp_rule6 (dscp_set (fst iv)) (snd iv) no_rule]"
    by (simp add: plain_rules_def plain_dscp_rules_def)
  then show ?case using Cons by (simp add: enc_of_def)
qed (simp add: enc_of_def)

lemma decide_default_decap:
  "decide p (plain_rules (default_decap_rules dv) @ rs) =
     (case tunnel_fallback p of Some fb \<Rightarrow> Some (decap_action dv fb) | None \<Rightarrow> decide p rs)"
  by (auto simp: plain_rules_def default_decap_rules_def scale_consts)

lemma decide_last: "decide p (plain_rules (last_rules dut)) = Some (ni_action (DefaultNetworkInstance dut))"
  by (simp add: plain_rules_def last_rules_def Let_def)

lemma decide_scale_rules:
  "decide p (plain_rules (scale_rules dut vrfs)) =
     Some (te_decision (enc_of (List.enumerate 0 vrfs)) True (DefaultNetworkInstance dut) p)"
  by (simp add: scale_rules_def decide_encap_decaps decide_default_decap decide_plain_dscp decide_last te_decision_alt
      split: option.split)

text \<open>The DSCP values of the VRFs: two consecutive ones each, from 10.\<close>

definition dscp_vrf :: "string list \<Rightarrow> byte \<Rightarrow> string option" where
  "dscp_vrf vrfs d =
     (if 10 \<le> unat d \<and> unat d < 10 + 2 * length vrfs then Some (vrfs ! ((unat d - 10) div 2)) else None)"

lemma dscp_set_iff:
  assumes "i < 123"
  shows "d \<in> set (dscp_set i) \<longleftrightarrow> 10 \<le> unat d \<and> (unat d - 10) div 2 = i"
proof -
  have "unat (10 + of_nat i * 2 :: byte) = 10 + 2 * i" "unat (11 + of_nat i * 2 :: byte) = 11 + 2 * i"
    using assms by (simp_all add: unat_word_ariths unat_of_nat)
  then have "d \<in> set (dscp_set i) \<longleftrightarrow> unat d = 10 + 2 * i \<or> unat d = 11 + 2 * i"
    by (simp add: dscp_set_def EncapVRFDSCP_def) (metis word_unat_eq_iff)
  also have "\<dots> \<longleftrightarrow> 10 \<le> unat d \<and> (unat d - 10) div 2 = i" by auto
  finally show ?thesis .
qed

lemma enc_of_enumerate:
  assumes "k + length vrfs \<le> 123"
  shows "enc_of (List.enumerate k vrfs) d =
           (if 10 + 2 * k \<le> unat d \<and> unat d < 10 + 2 * (k + length vrfs) then Some (vrfs ! ((unat d - 10) div 2 - k)) else None)"
  using assms
proof (induction vrfs arbitrary: k)
  case (Cons v vrfs)
  show ?case
  proof (cases "10 \<le> unat d \<and> (unat d - 10) div 2 = k")
    case True
    then have "d \<in> set (dscp_set k)" using Cons.prems by (simp add: dscp_set_iff)
    moreover have "10 + 2 * k \<le> unat d" "unat d < 12 + 2 * k" using True by auto
    ultimately show ?thesis using True by (simp add: enc_of_def)
  next
    case False
    then have "d \<notin> set (dscp_set k)" using Cons.prems by (simp add: dscp_set_iff)
    then have "enc_of (List.enumerate k (v # vrfs)) d = enc_of (List.enumerate (Suc k) vrfs) d" by (simp add: enc_of_def)
    moreover have "(unat d - 10) div 2 - k = Suc ((unat d - 10) div 2 - Suc k)" if "12 + 2 * k \<le> unat d"
      using that by linarith
    moreover have "10 + 2 * k \<le> unat d \<longleftrightarrow> 12 + 2 * k \<le> unat d" using False by linarith
    ultimately show ?thesis using Cons.IH [of "Suc k"] Cons.prems by (auto simp: nth_Cons')
  qed
qed (simp add: enc_of_def)

lemma enc_of_dscp_vrf: "length vrfs \<le> 123 \<Longrightarrow> enc_of (List.enumerate 0 vrfs) = dscp_vrf vrfs"
  by (rule ext) (simp add: enc_of_enumerate dscp_vrf_def)


section \<open>Correctness of the policies\<close>

text \<open>The network instances an action names.\<close>

definition action_vrfs :: "oc_action \<Rightarrow> string set" where
  "action_vrfs a = set_option (DecapNetworkInstance a) \<union> set_option (PostDecapNetworkInstance a)
     \<union> set_option (DecapFallbackNetworkInstance a) \<union> set_option (NetworkInstance a)"

lemma te_decision_vrfs:
  "action_vrfs (te_decision encAB plain niDefault p) \<subseteq> insert niDefault {v. ReplaceL3VRF v \<in> set configNonDefaultNetworkInstance}"
  by (auto simp: te_decision_alt action_vrfs_def decap_action_def ni_action_def encAB_def tunnel_fallback_def transit_vrf_def
      configNonDefaultNetworkInstance_def split: option.splits if_splits)

lemma VRFPolicy_neq [simp]: "VRFPolicyW \<noteq> VRFPolicyC" "VRFPolicyC \<noteq> VRFPolicyW"
  by (simp_all add: VRFPolicyW_def VRFPolicyC_def)

lemma BuildVRFSelectionPolicy_rules:
  "BuildVRFSelectionPolicyW dut =
     Some (configNonDefaultNetworkInstance,
       \<lparr>Pf_Policy = [(VRFPolicyW, \<lparr>Policy_Type = VRF_SELECTION_POLICY, Policy_Rule = rules_of dut pfRules12 13\<rparr>)], Pf_Interface = []\<rparr>)"
  "BuildVRFSelectionPolicyC dut =
     Some (configNonDefaultNetworkInstance,
       \<lparr>Pf_Policy = [(VRFPolicyC, \<lparr>Policy_Type = VRF_SELECTION_POLICY, Policy_Rule = rules_of dut pfRules16 17\<rparr>)], Pf_Interface = []\<rparr>)"
  using build_policy [OF numbered_policies(1) [of dut], of VRFPolicyW] build_policy [OF numbered_policies(2) [of dut], of VRFPolicyC]
  by (auto simp: BuildVRFSelectionPolicyW_def BuildVRFSelectionPolicyC_def)

text \<open>C10: \<^verbatim>\<open>ConfigureVRFSelectionPolicy\<close> creates the VRFs and then sends one policy, applied to the port. For every
  packet the first rule that matches takes the decision of the traffic engineering scheme: tunnelled traffic of the
  two sources is decapsulated into the VRF of its DSCP, with the transit VRF of its source as fallback; policy C
  also selects the VRF of other traffic by DSCP, policy W does not. Each network instance named in a decision is
  one of those created or \<^verbatim>\<open>DEFAULT\<close>, which the rules name whatever the device calls its default instance. The deviation that
  renumbers the rules has to come with the one that makes the default rules match on the Ethernet type.\<close>

theorem ConfigureVRFSelectionPolicy_decides:
  assumes "policyName \<in> {VRFPolicyW, VRFPolicyC}"
    and "PfRequireSequentialOrderPbrRules dut \<longrightarrow> PfRequireMatchDefaultRule dut"
  shows "\<exists>pf rs. ConfigureVRFSelectionPolicy dut port1 policyName =
             Inr (configNonDefaultNetworkInstance @ [ReplacePF (DefaultNetworkInstance dut) pf])
           \<and> Pf_Policy pf = [(policyName, \<lparr>Policy_Type = VRF_SELECTION_POLICY, Policy_Rule = rs\<rparr>)]
           \<and> Pf_Interface pf = [(pf_interface_id dut port1, \<lparr>ApplyVrfSelectionPolicy = Some policyName,
                 InterfaceRef = (if InterfaceRefConfigUnsupported dut then None else Some (port1, 0))\<rparr>)]
           \<and> (\<forall>p. first_match rs p = Some (te_decision encAB (policyName = VRFPolicyC) niDefault p)
                 \<and> action_vrfs (te_decision encAB (policyName = VRFPolicyC) niDefault p)
                     \<subseteq> insert niDefault {v. ReplaceL3VRF v \<in> set configNonDefaultNetworkInstance})"
proof (cases "policyName = VRFPolicyC")
  case True
  then show ?thesis
    using policy_decisions(2) [OF assms(2)] te_decision_vrfs
    by (simp add: ConfigureVRFSelectionPolicy_def BuildVRFSelectionPolicy_rules apply_interface_def)
next
  case False
  then show ?thesis
    using policy_decisions(1) [OF assms(2)] te_decision_vrfs assms(1)
    by (simp add: ConfigureVRFSelectionPolicy_def BuildVRFSelectionPolicy_rules apply_interface_def)
qed

definition ex_pf_dev :: pf_dev where
  "ex_pf_dev = \<lparr>PfRequireSequentialOrderPbrRules = True, PfRequireMatchDefaultRule = True, InterfaceRefInterfaceIDFormat = True,
     InterfaceIDFormatRequiredForPolicyForwarding = False, InterfaceRefConfigUnsupported = False, DefaultNetworkInstance = ''default''\<rparr>"

definition ex_packet :: "byte \<Rightarrow> packet" where
  "ex_packet d = \<lparr>pkt_v6 = False, pkt_proto = 41, pkt_dscp = d, pkt_src = [198, 51, 100, 222]\<rparr>"

text \<open>On a device with both deviations, a tunnelled packet with DSCP 28 goes to VRF B after decapsulation.\<close>

theorem ConfigureVRFSelectionPolicy_decides_witness:
  "\<exists>pf rs. ConfigureVRFSelectionPolicy ex_pf_dev ''eth1'' VRFPolicyC =
       Inr (configNonDefaultNetworkInstance @ [ReplacePF ''default'' pf])
     \<and> map fst (Pf_Interface pf) = [''eth1.0''] \<and> map_of (Pf_Policy pf) VRFPolicyC = Some \<lparr>Policy_Type = VRF_SELECTION_POLICY, Policy_Rule = rs\<rparr>
     \<and> first_match rs (ex_packet 28) = Some (decap_action ''ENCAP_TE_VRF_B'' ''TE_VRF_222'')"
proof -
  have "te_decision encAB True niDefault (ex_packet 28) = decap_action ''ENCAP_TE_VRF_B'' ''TE_VRF_222''"
    by (simp add: te_decision_def ex_packet_def transit_vrf_def encAB_def)
  then show ?thesis
    using ConfigureVRFSelectionPolicy_decides [of VRFPolicyC ex_pf_dev "''eth1''"]
    by (fastforce simp: ex_pf_dev_def pf_interface_id_def)
qed

lemma ConfigureVRFSelectionPolicy_unsupported:
  "ConfigureVRFSelectionPolicy dut port1 policyName = Inl e \<longleftrightarrow>
     policyName \<notin> {VRFPolicyW, VRFPolicyC} \<and> e = UnsupportedPolicy policyName"
  by (auto simp: ConfigureVRFSelectionPolicy_def BuildVRFSelectionPolicy_rules)

text \<open>With both deviations the rules are in the same order by number and by decimal text, the order of the keys of a
  JSON object: this is what the identifiers from 910 achieve.\<close>

lemma rules_text_order:
  assumes "PfRequireSequentialOrderPbrRules dut" "PfRequireMatchDefaultRule dut"
  shows "sorted (map (\<lambda>r. dec (unat (fst r))) (rules_of dut pfRules12 13))"
    and "sorted (map (\<lambda>r. dec (unat (fst r))) (rules_of dut pfRules16 17))"
  using assms
  by (simp_all add: rules_of_def sequential_def pfRules16_def pfRules12_def decapRule_def dscpRule4_def dscpRule6_def
      dec.simps digit_char_def)

lemma decide_first_nine:
  "decide p (map oc_of (take 9 pfRules12)) =
     (if tunnel_fallback p \<noteq> None \<and> (encAB (pkt_dscp p) \<noteq> None \<or> pkt_proto p = 4 \<and> pkt_src p = [198, 51, 100, 222])
      then Some (te_decision encAB plain niDefault p) else None)"
proof (cases "tunnel_fallback p")
  case None
  then show ?thesis
    by (auto simp: pfRules12_def decap_rule_matches in_prefix_outer tunnel_fallback_def transit_vrf_def split: if_splits)
next
  case (Some fb)
  then have "\<not> pkt_v6 p" and "pkt_proto p = 4 \<or> pkt_proto p = 41"
    and "pkt_src p = [198, 51, 100, 222] \<or> pkt_src p = [198, 51, 100, 111]"
    by (auto simp: tunnel_fallback_def transit_vrf_def split: if_splits)
  then show ?thesis
    by (elim disjE; simp add: pfRules12_def decap_rule_matches in_prefix_outer te_decision_alt tunnel_fallback_def
        transit_vrf_def encAB_def)
qed

text \<open>With the first deviation alone the default rule of policy C, number 17, comes before the rules from 910, which
  then never match: the policy no longer selects a VRF for traffic that is not tunnelled, nor decapsulates tunnelled
  traffic without a VRF, protocol 4 from the source 222 excepted.\<close>

lemma default_rule_shadows:
  assumes "PfRequireSequentialOrderPbrRules dut" "\<not> PfRequireMatchDefaultRule dut"
  shows "first_match (rules_of dut pfRules16 17) p =
      Some (if tunnel_fallback p \<noteq> None \<and> (encAB (pkt_dscp p) \<noteq> None \<or> pkt_proto p = 4 \<and> pkt_src p = [198, 51, 100, 222])
            then te_decision encAB True niDefault p else ni_action niDefault)"
proof -
  let ?rs = "rules_of dut pfRules16 17"
  have "sort_key fst ?rs = take 9 ?rs @ last ?rs # drop 9 (butlast ?rs)"
    using assms
    by (simp add: rules_of_def sequential_def pfRules16_def pfRules12_def decapRule_def dscpRule4_def dscpRule6_def)
  moreover have "map snd (take 9 ?rs) = map oc_of (take 9 pfRules12)"
    using assms by (simp add: rules_of_def sequential_def pfRules16_def pfRules12_def)
  moreover have "\<forall>r\<in>set (map oc_of (take 9 pfRules12)). Action r \<noteq> None" by (simp add: pfRules12_def)
  moreover have "snd (last ?rs) = set_ni niDefault no_rule" using assms by (simp add: rules_of_def)
  ultimately show ?thesis
    by (simp add: first_match_def try_rules_decide decide_append decide_first_nine [where plain = True])
qed

text \<open>C11: \<^verbatim>\<open>ConfigureVRFSelectionPolicyOC\<close> is the same scheme for any number of VRFs up to 123: the DSCP values 10 and 11
  select the first, 12 and 13 the second, and so on, and the order of the generated rules makes every packet take
  the decision of the scheme, on devices with and without a match on the default rule.\<close>

theorem ConfigureVRFSelectionPolicyOC_decides:
  assumes "length encapVRFs \<le> 123"
  shows "\<exists>pf rs. ConfigureVRFSelectionPolicyOC dut port1 encapVRFs = [ReplacePF (DefaultNetworkInstance dut) pf]
           \<and> Pf_Policy pf = [(VRFPolC, \<lparr>Policy_Type = VRF_SELECTION_POLICY, Policy_Rule = rs\<rparr>)]
           \<and> (\<forall>p. first_match rs p = Some (te_decision (dscp_vrf encapVRFs) True (DefaultNetworkInstance dut) p))"
proof -
  let ?pol = "scale_policy dut encapVRFs"
  have len: "length encapVRFs < 2 ^ 29" using assms by simp
  have "?pol = \<lparr>Policy_Type = VRF_SELECTION_POLICY, Policy_Rule = Policy_Rule ?pol\<rparr>"
    using scale_policy_rules(1) [OF len, of dut] by (cases ?pol) simp
  moreover have "first_match (Policy_Rule ?pol) p = Some (te_decision (dscp_vrf encapVRFs) True (DefaultNetworkInstance dut) p)" for p
    by (simp add: scale_policy_rules(2) [OF len] decide_scale_rules enc_of_dscp_vrf [OF assms])
  ultimately show ?thesis by (force simp: ConfigureVRFSelectionPolicyOC_def apply_interface_def Let_def)
qed

theorem ConfigureVRFSelectionPolicyOC_decides_witness:
  "\<exists>pf rs. ConfigureVRFSelectionPolicyOC ex_pf_dev ''eth1'' [''ENCAP_TE_VRF_A'', ''ENCAP_TE_VRF_B''] = [ReplacePF ''default'' pf]
     \<and> Pf_Policy pf = [(VRFPolC, \<lparr>Policy_Type = VRF_SELECTION_POLICY, Policy_Rule = rs\<rparr>)]
     \<and> first_match rs (ex_packet 13) = Some (decap_action ''ENCAP_TE_VRF_B'' ''TE_VRF_222'')"
proof -
  have "te_decision (dscp_vrf [''ENCAP_TE_VRF_A'', ''ENCAP_TE_VRF_B'']) True ''default'' (ex_packet 13)
      = decap_action ''ENCAP_TE_VRF_B'' ''TE_VRF_222''"
    by (simp add: te_decision_def ex_packet_def transit_vrf_def dscp_vrf_def)
  then show ?thesis
    using ConfigureVRFSelectionPolicyOC_decides [of "[''ENCAP_TE_VRF_A'', ''ENCAP_TE_VRF_B'']" ex_pf_dev "''eth1''"]
    by (fastforce simp: ex_pf_dev_def)
qed

text \<open>The policy of \<^verbatim>\<open>NewPolicyForwardingVRFSelection\<close> sends every packet to the default network instance.\<close>

lemma NewPolicyForwardingVRFSelection_default:
  assumes "DefaultNetworkInstance dut \<noteq> []"
  shows "\<exists>rs. NewPolicyForwardingVRFSelection dut name sb =
             sb @ [UpdatePF (DefaultNetworkInstance dut)
               \<lparr>Pf_Policy = [(name, \<lparr>Policy_Type = VRF_SELECTION_POLICY, Policy_Rule = rs\<rparr>)], Pf_Interface = []\<rparr>]
           \<and> (\<forall>p. first_match rs p = Some (ni_action (DefaultNetworkInstance dut)))"
  using assms
  by (cases "PfRequireMatchDefaultRule dut")
    (auto simp: NewPolicyForwardingVRFSelection_def getPbrRules_def seqIDOffset_def pbr_rule_def on_rule_fresh first_match_sorted Let_def)
end
