(* ===== verification/Testbed_Binding.thy ===== *)
theory Testbed_Binding
  imports FP_Prelude "HOL-Library.AList" "HOL-Library.Multiset"
begin

text \<open>
  \<^verbatim>\<open>topologies/binding\<close>: how the devices of a test bed are bound to real ones (\<^verbatim>\<open>binding.go\<close>, \<^verbatim>\<open>dynamic.go\<close>,
  \<^verbatim>\<open>new.go\<close>), with which options they are dialled (\<^verbatim>\<open>options.go\<close>), and how they are reset (\<^verbatim>\<open>reset.go\<close>).

  The messages of the binding file are records; a message field that may be nil is an option, an enumeration is
  its number, with 0 for the unspecified value. \<^verbatim>\<open>proto.Merge\<close> sets the scalar fields that are not zero in the
  source. A Go map is an association list with distinct keys; a loop over it runs over a list of its keys in the
  order of the runtime, which is an argument. Calls to devices and to the chassis are recorded in a log; the answer to a call is
  the parameter \<open>answer\<close>, which may depend on the calls before it: \<open>None\<close> is an error, and for a new session
  the answer is its identifier. Files are read by parameters, the solver of \<^verbatim>\<open>portgraph\<close> is one. A nil dereference is an
  error value. Time-outs in contexts and the bodies of SSH sessions are not modelled.
\<close>

section \<open>Messages\<close>

record Options =
  Target :: string
  Insecure :: bool
  SkipVerify :: bool
  Username :: string
  Password :: string
  SessionId :: int
  Timeout :: int
  MaxRecvMsgSize :: int
  MutualTls :: bool
  TrustBundleFile :: string
  CertFile :: string
  KeyFile :: string

definition no_options :: Options where
  "no_options = \<lparr>Target = [], Insecure = False, SkipVerify = False, Username = [], Password = [], SessionId = 0, Timeout = 0,
     MaxRecvMsgSize = 0, MutualTls = False, TrustBundleFile = [], CertFile = [], KeyFile = []\<rparr>"

record bind_port =
  bpId :: string
  bpName :: string
  bpSpeed :: int
  bpPmd :: int

record Configs =
  Cli :: "string list"
  CliFile :: "string list"
  GnmiSetFile :: "string list"
  GribiFlush :: bool

record bind_device =
  bdId :: string
  bdName :: string
  bdOptions :: "Options option"
  bdPorts :: "bind_port list"
  bdConfig :: "Configs option"
  bdSsh :: "Options option"
  bdGnmi :: "Options option"
  bdGnoi :: "Options option"
  bdGnsi :: "Options option"
  bdGribi :: "Options option"
  bdP4rt :: "Options option"
  bdIxnetwork :: "Options option"
  bdOtg :: "Options option"
  bdVendor :: int
  bdHardwareModel :: string
  bdSoftwareVersion :: string
  bdGnpsi :: "Options option"

record resolver =
  rDuts :: "bind_device list"
  rAtes :: "bind_device list"
  rOptions :: "Options option"
  rDynamic :: bool
  rLinks :: "(string \<times> string) list"

record tb_port =
  tpId :: string
  tpSpeed :: int
  tpPmd :: int

record tb_device =
  tdId :: string
  tdVendor :: int
  tdHardwareModel :: string
  tdSoftwareVersion :: string
  tdPorts :: "tb_port list"

record testbed =
  tbDuts :: "tb_device list"
  tbAtes :: "tb_device list"


section \<open>\<^verbatim>\<open>options.go\<close>\<close>

definition over_str :: "string \<Rightarrow> string \<Rightarrow> string" where
  "over_str d s = (if s \<noteq> [] then s else d)"

definition over_int :: "int \<Rightarrow> int \<Rightarrow> int" where
  "over_int d s = (if s \<noteq> 0 then s else d)"

definition proto_merge :: "Options \<Rightarrow> Options \<Rightarrow> Options" where
  "proto_merge dst src =
     \<lparr>Target = over_str (Target dst) (Target src), Insecure = (Insecure dst \<or> Insecure src),
      SkipVerify = (SkipVerify dst \<or> SkipVerify src), Username = over_str (Username dst) (Username src),
      Password = over_str (Password dst) (Password src), SessionId = over_int (SessionId dst) (SessionId src),
      Timeout = over_int (Timeout dst) (Timeout src), MaxRecvMsgSize = over_int (MaxRecvMsgSize dst) (MaxRecvMsgSize src),
      MutualTls = (MutualTls dst \<or> MutualTls src), TrustBundleFile = over_str (TrustBundleFile dst) (TrustBundleFile src),
      CertFile = over_str (CertFile dst) (CertFile src), KeyFile = over_str (KeyFile dst) (KeyFile src)\<rparr>"

definition merge :: "Options option list \<Rightarrow> Options" where
  "merge bopts = fold (\<lambda>bopt result. case bopt of None \<Rightarrow> result | Some b \<Rightarrow> proto_merge result b) bopts no_options"

datatype service = GNMI | GNOI | GNSI | GRIBI | P4RT | GNPSI | OTG

record svcParams =
  svc_port :: nat
  optsFn :: "bind_device \<Rightarrow> Options option"

text \<open>The port flags are read when the package is initialized, before the command line is parsed, so that the ports are
  the defaults of the flags.\<close>

definition dutSvcParams :: "service \<Rightarrow> svcParams option" where
  "dutSvcParams s =
     (case s of
        GNMI \<Rightarrow> Some \<lparr>svc_port = 9339, optsFn = bdGnmi\<rparr>
      | GNOI \<Rightarrow> Some \<lparr>svc_port = 9339, optsFn = bdGnoi\<rparr>
      | GNSI \<Rightarrow> Some \<lparr>svc_port = 9339, optsFn = bdGnsi\<rparr>
      | GRIBI \<Rightarrow> Some \<lparr>svc_port = 9340, optsFn = bdGribi\<rparr>
      | P4RT \<Rightarrow> Some \<lparr>svc_port = 9559, optsFn = bdP4rt\<rparr>
      | GNPSI \<Rightarrow> Some \<lparr>svc_port = 6070, optsFn = bdGnpsi\<rparr>
      | OTG \<Rightarrow> None)"

definition ateSvcParams :: "service \<Rightarrow> svcParams option" where
  "ateSvcParams s =
     (case s of
        GNMI \<Rightarrow> Some \<lparr>svc_port = 50051, optsFn = bdGnmi\<rparr>
      | OTG \<Rightarrow> Some \<lparr>svc_port = 40051, optsFn = bdOtg\<rparr>
      | _ \<Rightarrow> None)"

definition resolver_grpc :: "resolver \<Rightarrow> bind_device \<Rightarrow> svcParams \<Rightarrow> Options" where
  "resolver_grpc r dev params =
     (let targetOpts = no_options\<lparr>Target := bdName dev @ '':'' @ dec (svc_port params)\<rparr>
      in merge [Some targetOpts, rOptions r, bdOptions dev, optsFn params dev])"

definition resolver_ssh :: "resolver \<Rightarrow> bind_device \<Rightarrow> Options" where
  "resolver_ssh r dev = merge [Some (no_options\<lparr>Target := bdName dev\<rparr>), rOptions r, bdOptions dev, bdSsh dev]"

definition resolver_ixnetwork :: "resolver \<Rightarrow> bind_device \<Rightarrow> Options" where
  "resolver_ixnetwork r dev = merge [Some (no_options\<lparr>Target := bdName dev\<rparr>), rOptions r, bdOptions dev, bdIxnetwork dev]"


section \<open>The environment\<close>

record creds =
  cr_username :: string
  cr_password :: string
  cr_secure :: bool

datatype dial_option =
    WithDisableRetry
  | TransportInsecure
  | TransportSkipVerify
  | TransportMutualTls string string string
  | PerRPCCredentials creds
  | MaxCallRecvMsgSize int
  | UnaryRetry int
  | StreamRetry int
  | UnaryDefaultTimeout int
  | StreamDefaultTimeout int

record Dialer =
  DevicePort :: nat
  DialTarget :: string
  DialOpts :: "dial_option list"

datatype call =
    SshDial string Options
  | RunCommand string string
  | GrpcDial string service Dialer
  | GnmiSet string string
  | GnmiSetCli string string
  | GribiFlushAll string
  | IxConnect string string string string
  | FetchSession string int
  | NewSession string
  | DeleteSession string int

record env =
  answer :: "call list \<Rightarrow> call \<Rightarrow> int option"
  read_file :: "string \<Rightarrow> string option"
  parse_set :: "string \<Rightarrow> string option"
  load_pem :: "string \<Rightarrow> string \<Rightarrow> string \<Rightarrow> bool"

datatype bind_err =
    OnlyOneReservation
  | NoReservation
  | FetchUnsupported
  | MissingBinding string
  | MissingPort string string
  | VendorMismatch int int
  | ModelMismatch string string
  | VersionMismatch string string
  | SpeedMismatch int int
  | PmdMismatch int int
  | Errors "bind_err list"
  | UnknownService service
  | CertFilesUnset
  | CertLoad
  | CallFailed call
  | FileError string
  | OtgUnset
  | OtgAndIxnetwork string
  | UnknownPort string
  | TestbedGraph
  | NoSolution
  | NilDereference
  | NoBindingFlag

text \<open>An operation with effects takes and returns the log.\<close>

type_synonym 'a io = "call list \<Rightarrow> (bind_err, 'a) res \<times> call list"

definition ret :: "'a \<Rightarrow> 'a io" where
  "ret x log = (Inr x, log)"

definition fail :: "bind_err \<Rightarrow> 'a io" where
  "fail e log = (Inl e, log)"

definition bind_io :: "'a io \<Rightarrow> ('a \<Rightarrow> 'b io) \<Rightarrow> 'b io" where
  "bind_io m f log = (case m log of (Inl e, log1) \<Rightarrow> (Inl e, log1) | (Inr x, log1) \<Rightarrow> f x log1)"

definition lift_res :: "(bind_err, 'a) res \<Rightarrow> 'a io" where
  "lift_res r log = (r, log)"

definition call :: "env \<Rightarrow> call \<Rightarrow> int io" where
  "call w c log = (case answer w log c of None \<Rightarrow> (Inl (CallFailed c), log @ [c]) | Some n \<Rightarrow> (Inr n, log @ [c]))"

fun each :: "('a \<Rightarrow> unit io) \<Rightarrow> 'a list \<Rightarrow> unit io" where
  "each f [] = ret ()"
| "each f (x # xs) = bind_io (f x) (\<lambda>_. each f xs)"


section \<open>Dial options\<close>

definition loadCertificates :: "env \<Rightarrow> Options \<Rightarrow> (bind_err, unit) res" where
  "loadCertificates w bopts =
     (if CertFile bopts = [] \<or> KeyFile bopts = [] \<or> TrustBundleFile bopts = [] then Inl CertFilesUnset
      else if load_pem w (TrustBundleFile bopts) (CertFile bopts) (KeyFile bopts) then Inr () else Inl CertLoad)"

definition dialOpts :: "env \<Rightarrow> Options \<Rightarrow> (bind_err, dial_option list) res" where
  "dialOpts w bopts =
     bind_res
       (if Insecure bopts then Inr [TransportInsecure]
        else if SkipVerify bopts then Inr [TransportSkipVerify]
        else if MutualTls bopts
        then bind_res (loadCertificates w bopts)
               (\<lambda>_. Inr [TransportMutualTls (CertFile bopts) (KeyFile bopts) (TrustBundleFile bopts)])
        else Inr [])
       (\<lambda>tc. Inr
          (WithDisableRetry # tc
           @ (if Username bopts \<noteq> []
              then [PerRPCCredentials \<lparr>cr_username = Username bopts, cr_password = Password bopts, cr_secure = \<not> Insecure bopts\<rparr>] else [])
           @ (if MaxRecvMsgSize bopts \<noteq> 0 then [MaxCallRecvMsgSize (MaxRecvMsgSize bopts)] else [])
           @ (if Timeout bopts \<noteq> 0
              then [UnaryRetry (Timeout bopts), StreamRetry (Timeout bopts), UnaryDefaultTimeout (Timeout bopts),
                    StreamDefaultTimeout (Timeout bopts)] else [])))"

definition makeDialer :: "env \<Rightarrow> svcParams \<Rightarrow> Options \<Rightarrow> (bind_err, Dialer) res" where
  "makeDialer w params bopts =
     bind_res (dialOpts w bopts) (\<lambda>opts. Inr \<lparr>DevicePort = svc_port params, DialTarget = Target bopts, DialOpts = opts\<rparr>)"

definition dut_Dialer :: "env \<Rightarrow> resolver \<Rightarrow> bind_device \<Rightarrow> service \<Rightarrow> (bind_err, Dialer) res" where
  "dut_Dialer w r dev svc =
     (case dutSvcParams svc of
        None \<Rightarrow> Inl (UnknownService svc)
      | Some params \<Rightarrow> makeDialer w params (resolver_grpc r dev params))"

definition gnmiRecvMsgSizeDefault :: int where "gnmiRecvMsgSizeDefault = 100 * 1024 * 1024"

definition ate_Dialer :: "env \<Rightarrow> resolver \<Rightarrow> bind_device \<Rightarrow> service \<Rightarrow> (bind_err, Dialer) res" where
  "ate_Dialer w r dev svc =
     (case ateSvcParams svc of
        None \<Rightarrow> Inl (UnknownService svc)
      | Some params \<Rightarrow>
          (let bopts = resolver_grpc r dev params;
               bopts = (if MaxRecvMsgSize bopts = 0 then bopts\<lparr>MaxRecvMsgSize := gnmiRecvMsgSizeDefault\<rparr> else bopts)
           in makeDialer w params bopts))"

text \<open>The options of \<^verbatim>\<open>DialGRPCWithPort\<close>: the transport of the device, no credentials.\<close>

definition port_options :: "resolver \<Rightarrow> bind_device \<Rightarrow> nat \<Rightarrow> Options" where
  "port_options r dev port =
     (let raw = resolver_grpc r dev \<lparr>svc_port = port, optsFn = (\<lambda>_. None)\<rparr>;
          noTransportCreds = (\<not> Insecure raw \<and> \<not> SkipVerify raw \<and> \<not> MutualTls raw)
      in no_options\<lparr>Insecure := Insecure raw \<or> noTransportCreds, SkipVerify := SkipVerify raw, MutualTls := MutualTls raw,
           CertFile := CertFile raw, KeyFile := KeyFile raw, TrustBundleFile := TrustBundleFile raw,
           MaxRecvMsgSize := MaxRecvMsgSize raw, Timeout := Timeout raw, Target := Target raw\<rparr>)"

definition DialGRPCWithPort :: "env \<Rightarrow> resolver \<Rightarrow> bind_device \<Rightarrow> nat \<Rightarrow> (bind_err, Dialer) res" where
  "DialGRPCWithPort w r dev port = makeDialer w \<lparr>svc_port = port, optsFn = (\<lambda>_. None)\<rparr> (port_options r dev port)"

definition RPCUsername :: "resolver \<Rightarrow> bind_device \<Rightarrow> string" where
  "RPCUsername r dev = Username (merge [rOptions r, bdOptions dev])"

definition RPCPassword :: "resolver \<Rightarrow> bind_device \<Rightarrow> string" where
  "RPCPassword r dev = Password (merge [rOptions r, bdOptions dev])"

text \<open>The metadata of the outgoing context: the values of a key.\<close>

definition GetRequestMetadata :: "creds \<Rightarrow> (string \<Rightarrow> string list) option \<Rightarrow> string \<times> string" where
  "GetRequestMetadata c md =
     (let get = (\<lambda>k. case md of None \<Rightarrow> [] | Some m \<Rightarrow> (case m k of [] \<Rightarrow> [] | v # _ \<Rightarrow> v))
      in (over_str (cr_username c) (get ''username''), over_str (cr_password c) (get ''password'')))"


section \<open>Reservations\<close>

record bound_port =
  portName :: string
  portPMD :: int
  portSpeed :: int

record Dims =
  dimName :: string
  dimVendor :: int
  dimHardwareModel :: string
  dimSoftwareVersion :: string
  dimPorts :: "(string \<times> bound_port) list"

record staticDUT =
  dut_dims :: Dims
  dut_dev :: bind_device

record staticATE =
  ate_dims :: Dims
  ate_dev :: bind_device
  ixweb :: bool
  ixsess :: "int option"

record Reservation =
  resvID :: string
  DUTs :: "(string \<times> staticDUT) list"
  ATEs :: "(string \<times> staticATE) list"

definition by_id :: "('a \<Rightarrow> string) \<Rightarrow> 'a list \<Rightarrow> (string \<times> 'a) list" where
  "by_id f xs = fold (\<lambda>x m. AList.update (f x) x m) xs []"

definition port_step :: "bind_device \<Rightarrow> (string \<times> bind_port) list \<Rightarrow> tb_port \<Rightarrow>
    (string \<times> bound_port) list \<times> bind_err list \<Rightarrow> (string \<times> bound_port) list \<times> bind_err list" where
  "port_step bd bports tport st =
     (case map_of bports (tpId tport) of
        None \<Rightarrow> (fst st, snd st @ [MissingPort (tpId tport) (bdId bd)])
      | Some bport \<Rightarrow>
          (AList.update (tpId tport) \<lparr>portName = bpName bport, portPMD = bpPmd bport, portSpeed = bpSpeed bport\<rparr> (fst st),
           snd st
           @ (if tpSpeed tport \<noteq> 0 \<and> tpSpeed tport \<noteq> bpSpeed bport then [SpeedMismatch (bpSpeed bport) (tpSpeed tport)] else [])
           @ (if tpPmd tport \<noteq> 0 \<and> tpPmd tport \<noteq> bpPmd bport then [PmdMismatch (bpPmd bport) (tpPmd tport)] else [])))"

definition staticPorts :: "tb_port list \<Rightarrow> bind_device \<Rightarrow> (string \<times> bound_port) list \<times> bind_err list" where
  "staticPorts tports bd = fold (port_step bd (by_id bpId (bdPorts bd))) tports ([], [])"

definition staticDims :: "tb_device \<Rightarrow> bind_device \<Rightarrow> Dims \<times> bind_err list" where
  "staticDims td bd =
     (let (portmap, portErrs) = staticPorts (tdPorts td) bd in
      (\<lparr>dimName = bdName bd, dimVendor = bdVendor bd, dimHardwareModel = bdHardwareModel bd,
        dimSoftwareVersion = bdSoftwareVersion bd, dimPorts = portmap\<rparr>,
       (if tdVendor td \<noteq> 0 \<and> bdVendor bd \<noteq> tdVendor td then [VendorMismatch (bdVendor bd) (tdVendor td)] else [])
       @ (if tdHardwareModel td \<noteq> [] \<and> bdHardwareModel bd \<noteq> tdHardwareModel td
          then [ModelMismatch (bdHardwareModel bd) (tdHardwareModel td)] else [])
       @ (if tdSoftwareVersion td \<noteq> [] \<and> bdSoftwareVersion bd \<noteq> tdSoftwareVersion td
          then [VersionMismatch (bdSoftwareVersion bd) (tdSoftwareVersion td)] else [])
       @ portErrs))"

definition bind_step :: "(Dims \<Rightarrow> bind_device \<Rightarrow> 'd) \<Rightarrow> (string \<times> bind_device) list \<Rightarrow> tb_device \<Rightarrow>
    (string \<times> 'd) list \<times> bind_err list \<Rightarrow> (string \<times> 'd) list \<times> bind_err list" where
  "bind_step mk bdevs td st =
     (case map_of bdevs (tdId td) of
        None \<Rightarrow> (fst st, snd st @ [MissingBinding (tdId td)])
      | Some bd \<Rightarrow>
          (let (dims, dimErrs) = staticDims td bd in (AList.update (tdId td) (mk dims bd) (fst st), snd st @ dimErrs)))"

definition mk_dut :: "Dims \<Rightarrow> bind_device \<Rightarrow> staticDUT" where
  "mk_dut dims bd = \<lparr>dut_dims = dims, dut_dev = bd\<rparr>"

definition mk_ate :: "Dims \<Rightarrow> bind_device \<Rightarrow> staticATE" where
  "mk_ate dims bd = \<lparr>ate_dims = dims, ate_dev = bd, ixweb = False, ixsess = None\<rparr>"

definition staticReservation :: "testbed \<Rightarrow> resolver \<Rightarrow> Reservation \<times> bind_err list" where
  "staticReservation tb r =
     (let (duts, errs1) = fold (bind_step mk_dut (by_id bdId (rDuts r))) (tbDuts tb) ([], []);
          (ates, errs2) = fold (bind_step mk_ate (by_id bdId (rAtes r))) (tbAtes tb) ([], errs1)
      in (\<lparr>resvID = [], DUTs = duts, ATEs = ates\<rparr>, errs2))"


section \<open>\<^verbatim>\<open>dynamic.go\<close>\<close>

text \<open>A node of the concrete graph is its index, a port the index of its node and its own. The testbed's devices
  and ports are named by their indices likewise (devices under test first).\<close>

type_synonym pref = "nat \<times> nat"

record concrete_node =
  cnDesc :: string
  cnPorts :: "(string \<times> (string \<times> string) list) list"
  cnAttrs :: "(string \<times> string) list"

record concrete_graph =
  cgNodes :: "concrete_node list"
  cgEdges :: "(pref \<times> pref) list"

text \<open>What the code uses of \<^verbatim>\<open>portgraph\<close>: the names of its attributes, the names of the values of an enumeration, the
  abstract graph of a test bed with the device and port of its nodes, and the solver.\<close>

record ('ag, 'an, 'ap) portgraph =
  NameAttr :: string
  SpeedAttr :: string
  PMDAttr :: string
  RoleAttr :: string
  HWAttr :: string
  SWAttr :: string
  RoleDUT :: string
  RoleATE :: string
  speed_name :: "int \<Rightarrow> string"
  pmd_name :: "int \<Rightarrow> string"
  TestbedToAbstractGraph :: "testbed \<Rightarrow> ('ag \<times> ('an \<Rightarrow> nat) \<times> ('ap \<Rightarrow> pref)) option"
  Solve :: "'ag \<Rightarrow> concrete_graph \<Rightarrow> (('an \<times> nat) list \<times> ('ap \<times> pref) list) option"

definition attr_if :: "bool \<Rightarrow> string \<Rightarrow> string \<Rightarrow> (string \<times> string) list \<Rightarrow> (string \<times> string) list" where
  "attr_if b k v m = (if b then AList.update k v m else m)"

definition concrete_port :: "('ag, 'an, 'ap) portgraph \<Rightarrow> bind_port \<Rightarrow> string \<times> (string \<times> string) list" where
  "concrete_port pg ap =
     (bpName ap,
      attr_if (bpPmd ap \<noteq> 0) (PMDAttr pg) (pmd_name pg (bpPmd ap))
        (attr_if (bpSpeed ap \<noteq> 0) (SpeedAttr pg) (speed_name pg (bpSpeed ap))
          (attr_if (bpName ap \<noteq> []) (NameAttr pg) (bpName ap) [])))"

definition addDevice :: "('ag, 'an, 'ap) portgraph \<Rightarrow> string \<Rightarrow> bind_device \<Rightarrow> concrete_node" where
  "addDevice pg devRole dev =
     \<lparr>cnDesc = bdName dev, cnPorts = map (concrete_port pg) (bdPorts dev),
      cnAttrs = attr_if (bdSoftwareVersion dev \<noteq> []) (SWAttr pg) (bdSoftwareVersion dev)
        (attr_if (bdHardwareModel dev \<noteq> []) (HWAttr pg) (bdHardwareModel dev)
          (attr_if (bdName dev \<noteq> []) (NameAttr pg) (bdName dev) [(RoleAttr pg, devRole)]))\<rparr>"

text \<open>\<^verbatim>\<open>qualName2Port\<close>: the qualified name of every port, in the order of the assignments.\<close>

definition qual_names :: "bind_device list \<Rightarrow> (string \<times> pref) list" where
  "qual_names devs =
     concat (map (\<lambda>(i, dev). map (\<lambda>(j, ap). (bdName dev @ '':'' @ bpName ap, (i, j))) (List.enumerate 0 (bdPorts dev)))
       (List.enumerate 0 devs))"

definition qual_port :: "bind_device list \<Rightarrow> string \<Rightarrow> pref option" where
  "qual_port devs = map_of (rev (qual_names devs))"

fun link_edges :: "(string \<Rightarrow> pref option) \<Rightarrow> (string \<times> string) list \<Rightarrow> (bind_err, (pref \<times> pref) list) res" where
  "link_edges q [] = Inr []"
| "link_edges q ((a, b) # links) =
     (case q a of
        None \<Rightarrow> Inl (UnknownPort a)
      | Some pa \<Rightarrow>
          (case q b of
             None \<Rightarrow> Inl (UnknownPort b)
           | Some pb \<Rightarrow> bind_res (link_edges q links) (\<lambda>es. Inr ((pa, pb) # es))))"

definition protoToConcreteGraph :: "('ag, 'an, 'ap) portgraph \<Rightarrow> resolver \<Rightarrow> (bind_err, concrete_graph) res" where
  "protoToConcreteGraph pg bpb =
     bind_res (link_edges (qual_port (rDuts bpb @ rAtes bpb)) (rLinks bpb))
       (\<lambda>es. Inr \<lparr>cgNodes = map (addDevice pg (RoleDUT pg)) (rDuts bpb) @ map (addDevice pg (RoleATE pg)) (rAtes bpb), cgEdges = es\<rparr>)"

text \<open>A port or device that is not in the maps is nil, and reading its name a nil dereference.\<close>

fun dyn_ports :: "(pref \<Rightarrow> bind_port option) \<Rightarrow> nat \<Rightarrow> (nat \<times> tb_port) list \<Rightarrow> (string \<times> bound_port) list \<Rightarrow>
    (bind_err, (string \<times> bound_port) list) res" where
  "dyn_ports pmap i [] m = Inr m"
| "dyn_ports pmap i ((j, tport) # ps) m =
     (case pmap (i, j) of
        None \<Rightarrow> Inl NilDereference
      | Some bport \<Rightarrow>
          dyn_ports pmap i ps
            (AList.update (tpId tport) \<lparr>portName = bpName bport, portPMD = bpPmd bport, portSpeed = bpSpeed bport\<rparr> m))"

definition dynDims :: "nat \<times> tb_device \<Rightarrow> bind_device option \<Rightarrow> (pref \<Rightarrow> bind_port option) \<Rightarrow> (bind_err, Dims) res" where
  "dynDims itd bd pmap =
     (case bd of
        None \<Rightarrow> Inl NilDereference
      | Some bd \<Rightarrow>
          bind_res (dyn_ports pmap (fst itd) (List.enumerate 0 (tdPorts (snd itd))) [])
            (\<lambda>ports. Inr \<lparr>dimName = bdName bd, dimVendor = bdVendor bd, dimHardwareModel = bdHardwareModel bd,
                dimSoftwareVersion = bdSoftwareVersion bd, dimPorts = ports\<rparr>))"

fun dyn_devices :: "(Dims \<Rightarrow> bind_device \<Rightarrow> 'd) \<Rightarrow> (nat \<Rightarrow> bind_device option) \<Rightarrow> (pref \<Rightarrow> bind_port option) \<Rightarrow>
    (nat \<times> tb_device) list \<Rightarrow> (string \<times> 'd) list \<Rightarrow> (bind_err, (string \<times> 'd) list) res" where
  "dyn_devices mk dmap pmap [] m = Inr m"
| "dyn_devices mk dmap pmap (itd # ds) m =
     bind_res (dynDims itd (dmap (fst itd)) pmap)
       (\<lambda>dims. dyn_devices mk dmap pmap ds (AList.update (tdId (snd itd)) (mk dims (the (dmap (fst itd)))) m))"

definition nth_opt :: "'a list \<Rightarrow> nat \<Rightarrow> 'a option" where
  "nth_opt xs i = (if i < length xs then Some (xs ! i) else None)"

definition node_device :: "resolver \<Rightarrow> nat \<Rightarrow> bind_device option" where
  "node_device r = nth_opt (rDuts r @ rAtes r)"

definition graph_port :: "resolver \<Rightarrow> pref \<Rightarrow> bind_port option" where
  "graph_port r p = Option.bind (node_device r (fst p)) (\<lambda>d. nth_opt (bdPorts d) (snd p))"

definition tbDev2BindDev :: "resolver \<Rightarrow> ('an \<Rightarrow> nat) \<Rightarrow> ('an \<times> nat) list \<Rightarrow> nat \<Rightarrow> bind_device option" where
  "tbDev2BindDev r absNode2Dev node2Node i =
     Option.bind (map_of (rev (map (\<lambda>(a, c). (absNode2Dev a, c)) node2Node)) i) (node_device r)"

definition tbPort2BindPort :: "resolver \<Rightarrow> ('ap \<Rightarrow> pref) \<Rightarrow> ('ap \<times> pref) list \<Rightarrow> pref \<Rightarrow> bind_port option" where
  "tbPort2BindPort r absPort2Port port2Port p =
     Option.bind (map_of (rev (map (\<lambda>(a, c). (absPort2Port a, c)) port2Port)) p) (graph_port r)"

definition assignmentToReservation :: "resolver \<Rightarrow> testbed \<Rightarrow> ('an \<Rightarrow> nat) \<Rightarrow> ('ap \<Rightarrow> pref) \<Rightarrow>
    ('an \<times> nat) list \<Rightarrow> ('ap \<times> pref) list \<Rightarrow> (bind_err, Reservation) res" where
  "assignmentToReservation r tb absNode2Dev absPort2Port node2Node port2Port =
     (let dmap = tbDev2BindDev r absNode2Dev node2Node;
          pmap = tbPort2BindPort r absPort2Port port2Port
      in bind_res (dyn_devices mk_dut dmap pmap (List.enumerate 0 (tbDuts tb)) [])
           (\<lambda>duts. bind_res (dyn_devices mk_ate dmap pmap (List.enumerate (length (tbDuts tb)) (tbAtes tb)) [])
              (\<lambda>ates. Inr \<lparr>resvID = [], DUTs = duts, ATEs = ates\<rparr>)))"

definition dynamicReservation :: "('ag, 'an, 'ap) portgraph \<Rightarrow> testbed \<Rightarrow> resolver \<Rightarrow> (bind_err, Reservation) res" where
  "dynamicReservation pg tb r =
     (case TestbedToAbstractGraph pg tb of
        None \<Rightarrow> Inl TestbedGraph
      | Some (abstractGraph, absNode2Dev, absPort2Port) \<Rightarrow>
          bind_res (protoToConcreteGraph pg r)
            (\<lambda>superGraph.
               case Solve pg abstractGraph superGraph of
                 None \<Rightarrow> Inl NoSolution
               | Some (node2Node, port2Port) \<Rightarrow> assignmentToReservation r tb absNode2Dev absPort2Port node2Node port2Port))"

definition reservation :: "('ag, 'an, 'ap) portgraph \<Rightarrow> testbed \<Rightarrow> resolver \<Rightarrow> (bind_err, Reservation) res" where
  "reservation pg tb r =
     (if rDynamic r then dynamicReservation pg tb r
      else let (resv, errs) = staticReservation tb r in if errs = [] then Inr resv else Inl (Errors errs))"


section \<open>\<^verbatim>\<open>reset.go\<close>\<close>

definition dialConn :: "env \<Rightarrow> string \<Rightarrow> service \<Rightarrow> (bind_err, Dialer) res \<Rightarrow> unit io" where
  "dialConn w name svc dialer =
     bind_io (lift_res dialer) (\<lambda>d. bind_io (call w (GrpcDial name svc d)) (\<lambda>_. ret ()))"

definition dut_dial :: "env \<Rightarrow> resolver \<Rightarrow> bind_device \<Rightarrow> service \<Rightarrow> unit io" where
  "dut_dial w r dev svc = dialConn w (bdName dev) svc (dut_Dialer w r dev svc)"

text \<open>The result is the request time-out set on the transport, if any.\<close>

definition DialOTG :: "env \<Rightarrow> resolver \<Rightarrow> bind_device \<Rightarrow> int option io" where
  "DialOTG w r dev =
     (if bdOtg dev = None then fail OtgUnset
      else bind_io (dialConn w (bdName dev) OTG (ate_Dialer w r dev OTG))
             (\<lambda>_. let t = Timeout (resolver_grpc r dev (the (ateSvcParams OTG))) in ret (if t \<noteq> 0 then Some t else None)))"

definition DialCLI :: "env \<Rightarrow> resolver \<Rightarrow> bind_device \<Rightarrow> unit io" where
  "DialCLI w r dev = bind_io (call w (SshDial (bdName dev) (resolver_ssh r dev))) (\<lambda>_. ret ())"

fun read_all :: "(string \<Rightarrow> string option) \<Rightarrow> string list \<Rightarrow> (bind_err, string list) res" where
  "read_all rd [] = Inr []"
| "read_all rd (f # fs) =
     (case rd f of
        None \<Rightarrow> Inl (FileError f)
      | Some c \<Rightarrow> bind_res (read_all rd fs) (\<lambda>cs. Inr (c # cs)))"

definition resetCLI :: "env \<Rightarrow> resolver \<Rightarrow> bind_device \<Rightarrow> unit io" where
  "resetCLI w r dev =
     bind_io (lift_res (read_all (read_file w) (case bdConfig dev of None \<Rightarrow> [] | Some c \<Rightarrow> CliFile c)))
       (\<lambda>fromFiles.
          let conf = str_join ''\<newline>'' ((case bdConfig dev of None \<Rightarrow> [] | Some c \<Rightarrow> Cli c) @ fromFiles) in
          if conf = [] then ret ()
          else bind_io (DialCLI w r dev) (\<lambda>_. bind_io (call w (RunCommand (bdName dev) conf)) (\<lambda>_. ret ())))"

definition readGNMI :: "env \<Rightarrow> string \<Rightarrow> string option" where
  "readGNMI w path = Option.bind (read_file w path) (parse_set w)"

definition resetGNMI :: "env \<Rightarrow> resolver \<Rightarrow> bind_device \<Rightarrow> unit io" where
  "resetGNMI w r dev =
     bind_io (lift_res (read_all (readGNMI w) (case bdConfig dev of None \<Rightarrow> [] | Some c \<Rightarrow> GnmiSetFile c)))
       (\<lambda>setReq.
          if setReq = [] then ret ()
          else bind_io (dut_dial w r dev GNMI)
                 (\<lambda>_. each (\<lambda>req. bind_io (call w (GnmiSet (bdName dev) req)) (\<lambda>_. ret ())) setReq))"

definition resetGRIBI :: "env \<Rightarrow> resolver \<Rightarrow> bind_device \<Rightarrow> unit io" where
  "resetGRIBI w r dev =
     (if (case bdConfig dev of None \<Rightarrow> False | Some c \<Rightarrow> GribiFlush c)
      then bind_io (dut_dial w r dev GRIBI) (\<lambda>_. bind_io (call w (GribiFlushAll (bdName dev))) (\<lambda>_. ret ()))
      else ret ())"

definition dut_reset :: "env \<Rightarrow> resolver \<Rightarrow> bind_device \<Rightarrow> unit io" where
  "dut_reset w r dev = bind_io (resetCLI w r dev) (\<lambda>_. bind_io (resetGNMI w r dev) (\<lambda>_. resetGRIBI w r dev))"

definition PushConfig :: "env \<Rightarrow> resolver \<Rightarrow> bind_device \<Rightarrow> string \<Rightarrow> bool \<Rightarrow> unit io" where
  "PushConfig w r dev config do_reset =
     bind_io (if do_reset then resetGNMI w r dev else ret ())
       (\<lambda>_. if config = [] then ret ()
            else bind_io (dut_dial w r dev GNMI) (\<lambda>_. bind_io (call w (GnmiSetCli (bdName dev) config)) (\<lambda>_. ret ())))"


section \<open>The binding\<close>

record staticBind =
  bind_r :: resolver
  resv :: "Reservation option"
  pushConfig :: bool

definition reset :: "env \<Rightarrow> string list \<Rightarrow> resolver \<Rightarrow> Reservation \<Rightarrow> unit io" where
  "reset w ord r rv =
     each (\<lambda>k. case map_of (DUTs rv) k of None \<Rightarrow> ret () | Some d \<Rightarrow> dut_reset w r (dut_dev d)) ord"

text \<open>A session of a chassis; both fields of the device are set when a call succeeds.\<close>

definition ixWeb :: "env \<Rightarrow> Options \<Rightarrow> staticATE \<Rightarrow> call list \<Rightarrow> (bind_err, unit) res \<times> staticATE \<times> call list" where
  "ixWeb w opts a log =
     (if ixweb a then (Inr (), a, log)
      else let c = (if Username opts = [] \<and> Password opts = []
                    then IxConnect (bdName (ate_dev a)) (Target opts) ''admin'' ''admin''
                    else IxConnect (bdName (ate_dev a)) (Target opts) (Username opts) (Password opts))
           in (case call w c log of
                 (Inl e, log1) \<Rightarrow> (Inl e, a, log1)
               | (Inr _, log1) \<Rightarrow> (Inr (), a\<lparr>ixweb := True\<rparr>, log1)))"

definition ixSession :: "env \<Rightarrow> Options \<Rightarrow> staticATE \<Rightarrow> call list \<Rightarrow> (bind_err, unit) res \<times> staticATE \<times> call list" where
  "ixSession w opts a log =
     (if ixsess a \<noteq> None then (Inr (), a, log)
      else case ixWeb w opts a log of
          (Inl e, a1, log1) \<Rightarrow> (Inl e, a1, log1)
        | (Inr _, a1, log1) \<Rightarrow>
            (let c = (if SessionId opts > 0 then FetchSession (bdName (ate_dev a)) (SessionId opts) else NewSession (bdName (ate_dev a)))
             in case call w c log1 of
                  (Inl e, log2) \<Rightarrow> (Inl e, a1, log2)
                | (Inr n, log2) \<Rightarrow> (Inr (), a1\<lparr>ixsess := Some n\<rparr>, log2)))"

definition DialIxNetwork :: "env \<Rightarrow> resolver \<Rightarrow> staticATE \<Rightarrow> call list \<Rightarrow> (bind_err, unit) res \<times> staticATE \<times> call list" where
  "DialIxNetwork w r a = ixSession w (resolver_ixnetwork r (ate_dev a)) a"

fun reserveIxSessions :: "env \<Rightarrow> resolver \<Rightarrow> string list \<Rightarrow> (string \<times> staticATE) list \<Rightarrow> call list \<Rightarrow>
    (bind_err, unit) res \<times> (string \<times> staticATE) list \<times> call list" where
  "reserveIxSessions w r [] ates log = (Inr (), ates, log)"
| "reserveIxSessions w r (k # ks) ates log =
     (case map_of ates k of
        None \<Rightarrow> reserveIxSessions w r ks ates log
      | Some a \<Rightarrow>
          (if bdIxnetwork (ate_dev a) = None then reserveIxSessions w r ks ates log
           else case DialIxNetwork w r a log of
               (Inl e, a1, log1) \<Rightarrow> (Inl e, AList.update k a1 ates, log1)
             | (Inr _, a1, log1) \<Rightarrow> reserveIxSessions w r ks (AList.update k a1 ates) log1))"

definition release_one :: "env \<Rightarrow> resolver \<Rightarrow> staticATE \<Rightarrow> unit io" where
  "release_one w r a =
     (case ixsess a of
        None \<Rightarrow> ret ()
      | Some n \<Rightarrow>
          if SessionId (resolver_ixnetwork r (ate_dev a)) = 0
          then bind_io (call w (DeleteSession (bdName (ate_dev a)) n)) (\<lambda>_. ret ()) else ret ())"

definition releaseIxSessions :: "env \<Rightarrow> resolver \<Rightarrow> string list \<Rightarrow> (string \<times> staticATE) list \<Rightarrow> unit io" where
  "releaseIxSessions w r ord ates =
     each (\<lambda>k. case map_of ates k of None \<Rightarrow> ret () | Some a \<Rightarrow> release_one w r a) ord"

definition Reserve :: "env \<Rightarrow> ('ag, 'an, 'ap) portgraph \<Rightarrow> string list \<Rightarrow> string list \<Rightarrow> testbed \<Rightarrow> staticBind \<Rightarrow> call list \<Rightarrow>
    (bind_err, Reservation) res \<times> staticBind \<times> call list" where
  "Reserve w pg ord1 ord2 tb b log =
     (if resv b \<noteq> None then (Inl OnlyOneReservation, b, log)
      else case reservation pg tb (bind_r b) of
          Inl e \<Rightarrow> (Inl e, b, log)
        | Inr rv \<Rightarrow>
            (let rv = rv\<lparr>resvID := ''STATIC''\<rparr>; b1 = b\<lparr>resv := Some rv\<rparr> in
             case (if pushConfig b then reset w ord1 (bind_r b) rv else ret ()) log of
               (Inl e, log1) \<Rightarrow> (Inl e, b1, log1)
             | (Inr _, log1) \<Rightarrow>
                 (case reserveIxSessions w (bind_r b) ord2 (ATEs rv) log1 of
                    (Inl e, ates, log2) \<Rightarrow> (Inl e, b\<lparr>resv := Some (rv\<lparr>ATEs := ates\<rparr>)\<rparr>, log2)
                  | (Inr _, ates, log2) \<Rightarrow> (Inr (rv\<lparr>ATEs := ates\<rparr>), b\<lparr>resv := Some (rv\<lparr>ATEs := ates\<rparr>)\<rparr>, log2))))"

definition Release :: "env \<Rightarrow> string list \<Rightarrow> staticBind \<Rightarrow> call list \<Rightarrow> (bind_err, unit) res \<times> staticBind \<times> call list" where
  "Release w ord b log =
     (case resv b of
        None \<Rightarrow> (Inl NoReservation, b, log)
      | Some rv \<Rightarrow>
          (case releaseIxSessions w (bind_r b) ord (ATEs rv) log of
             (Inl e, log1) \<Rightarrow> (Inl e, b, log1)
           | (Inr _, log1) \<Rightarrow> (Inr (), b\<lparr>resv := None\<rparr>, log1)))"

definition FetchReservation :: "staticBind \<Rightarrow> string \<Rightarrow> (bind_err, Reservation) res" where
  "FetchReservation b ident = Inl FetchUnsupported"


section \<open>\<^verbatim>\<open>new.go\<close>\<close>

definition staticBinding :: "bool \<Rightarrow> resolver \<Rightarrow> (bind_err, staticBind) res" where
  "staticBinding push b =
     (case List.find (\<lambda>ate. bdOtg ate \<noteq> None \<and> bdIxnetwork ate \<noteq> None) (rAtes b) of
        Some ate \<Rightarrow> Inl (OtgAndIxnetwork (bdName ate))
      | None \<Rightarrow> Inr \<lparr>bind_r = b, resv = None, pushConfig = push\<rparr>)"

datatype bind_kind = PluginBind string string | StaticBindFile string | KneTopo string | KneConfig string

record bind_flags =
  pluginFile :: string
  pluginArgs :: string
  bindingFile :: string
  kneTopo :: string
  kneConfig :: string

definition newBind :: "bind_flags \<Rightarrow> (bind_err, bind_kind) res" where
  "newBind fl =
     (if pluginFile fl \<noteq> [] then Inr (PluginBind (pluginFile fl) (pluginArgs fl))
      else if bindingFile fl \<noteq> [] then Inr (StaticBindFile (bindingFile fl))
      else if kneTopo fl \<noteq> [] then Inr (KneTopo (kneTopo fl))
      else if kneConfig fl \<noteq> [] then Inr (KneConfig (kneConfig fl))
      else Inl NoBindingFlag)"


section \<open>Which option wins\<close>

text \<open>A scalar field under \<^verbatim>\<open>proto.Merge\<close>: an unset source keeps the destination, a set one replaces it.\<close>

locale overlay =
  fixes unset :: 'a and over :: "'a \<Rightarrow> 'a \<Rightarrow> 'a"
  assumes over_unset: "over d unset = d"
    and over_set: "s \<noteq> unset \<Longrightarrow> over d s = s"
begin

definition first_set :: "'a list \<Rightarrow> 'a" where
  "first_set xs = (case filter (\<lambda>x. x \<noteq> unset) xs of [] \<Rightarrow> unset | x # _ \<Rightarrow> x)"

lemma first_set_simps [simp]:
  "first_set [] = unset"
  "first_set (x # xs) = (if x = unset then first_set xs else x)"
  by (simp_all add: first_set_def)

lemma over_assoc: "over (over a b) c = over a (over b c)"
  by (cases "b = unset"; cases "c = unset") (simp_all add: over_unset over_set)

lemma first_set_append: "first_set (xs @ ys) = over (first_set ys) (first_set xs)"
  by (induction xs) (simp_all add: over_unset over_set)

lemma fold_over: "fold (\<lambda>s d. over d s) xs d = over d (first_set (rev xs))"
  by (induction xs arbitrary: d) (simp_all add: over_unset over_assoc first_set_append)

end

interpretation str: overlay "[] :: string" over_str
  by unfold_locales (simp_all add: over_str_def)

interpretation num: overlay "0 :: int" over_int
  by unfold_locales (simp_all add: over_int_def)

interpretation flag: overlay False "(\<or>)"
  by unfold_locales simp_all

lemma flag_first_set: "flag.first_set bs \<longleftrightarrow> True \<in> set bs"
  by (induction bs) auto

abbreviation given :: "Options option list \<Rightarrow> Options list" where
  "given bopts \<equiv> concat (map (\<lambda>b. case b of None \<Rightarrow> [] | Some x \<Rightarrow> [x]) bopts)"

lemma merge_given: "merge bopts = fold (\<lambda>b result. proto_merge result b) (given bopts) no_options"
proof -
  have "fold (\<lambda>bopt result. case bopt of None \<Rightarrow> result | Some b \<Rightarrow> proto_merge result b) bopts x =
      fold (\<lambda>b result. proto_merge result b) (given bopts) x" for x
    by (induction bopts arbitrary: x) (simp_all split: option.split)
  then show ?thesis by (simp add: merge_def)
qed

text \<open>Every field of a merge is that of the last of the given options that sets it.\<close>

lemma fold_proto_merge:
  "Target (fold (\<lambda>b r. proto_merge r b) bs x) = over_str (Target x) (str.first_set (rev (map Target bs)))"
  "Username (fold (\<lambda>b r. proto_merge r b) bs x) = over_str (Username x) (str.first_set (rev (map Username bs)))"
  "Password (fold (\<lambda>b r. proto_merge r b) bs x) = over_str (Password x) (str.first_set (rev (map Password bs)))"
  "SessionId (fold (\<lambda>b r. proto_merge r b) bs x) = over_int (SessionId x) (num.first_set (rev (map SessionId bs)))"
  "Timeout (fold (\<lambda>b r. proto_merge r b) bs x) = over_int (Timeout x) (num.first_set (rev (map Timeout bs)))"
  "MaxRecvMsgSize (fold (\<lambda>b r. proto_merge r b) bs x) = over_int (MaxRecvMsgSize x) (num.first_set (rev (map MaxRecvMsgSize bs)))"
  "Insecure (fold (\<lambda>b r. proto_merge r b) bs x) = (Insecure x \<or> flag.first_set (rev (map Insecure bs)))"
  "SkipVerify (fold (\<lambda>b r. proto_merge r b) bs x) = (SkipVerify x \<or> flag.first_set (rev (map SkipVerify bs)))"
  "MutualTls (fold (\<lambda>b r. proto_merge r b) bs x) = (MutualTls x \<or> flag.first_set (rev (map MutualTls bs)))"
  by (induction bs arbitrary: x)
    (simp_all add: proto_merge_def str.first_set_append num.first_set_append flag.first_set_append str.over_assoc num.over_assoc
      str.over_unset num.over_unset)

text \<open>The levels of options for a service, the most specific first.\<close>

definition option_levels :: "resolver \<Rightarrow> bind_device \<Rightarrow> svcParams \<Rightarrow> Options list" where
  "option_levels r dev params = given [optsFn params dev, bdOptions dev, rOptions r]"

text \<open>The options with which a service of a device is dialled. A text or number is that of the service, if set, else that
  of the device, else that of the binding file; the target is by default the name of the device with the port of
  the service. A flag is set if it is set at any of the three levels, so that a more specific level cannot clear
  it.\<close>

theorem resolver_grpc_precedence:
  "Target (resolver_grpc r dev params) =
     str.first_set (map Target (option_levels r dev params) @ [bdName dev @ '':'' @ dec (svc_port params)])
   \<and> Username (resolver_grpc r dev params) = str.first_set (map Username (option_levels r dev params))
   \<and> Password (resolver_grpc r dev params) = str.first_set (map Password (option_levels r dev params))
   \<and> Timeout (resolver_grpc r dev params) = num.first_set (map Timeout (option_levels r dev params))
   \<and> MaxRecvMsgSize (resolver_grpc r dev params) = num.first_set (map MaxRecvMsgSize (option_levels r dev params))
   \<and> (Insecure (resolver_grpc r dev params) \<longleftrightarrow> True \<in> set (map Insecure (option_levels r dev params)))
   \<and> (SkipVerify (resolver_grpc r dev params) \<longleftrightarrow> True \<in> set (map SkipVerify (option_levels r dev params)))
   \<and> (MutualTls (resolver_grpc r dev params) \<longleftrightarrow> True \<in> set (map MutualTls (option_levels r dev params)))"
  unfolding option_levels_def resolver_grpc_def Let_def merge_given fold_proto_merge flag_first_set
  by (auto simp: no_options_def str.over_unset num.over_unset over_str_def over_int_def split: option.split)


section \<open>Credentials\<close>

definition transport :: "dial_option \<Rightarrow> bool" where
  "transport d = (case d of TransportInsecure \<Rightarrow> True | TransportSkipVerify \<Rightarrow> True | TransportMutualTls _ _ _ \<Rightarrow> True | _ \<Rightarrow> False)"

text \<open>C38: Credentials that require transport security are never combined with an insecure transport, so that gRPC does not
  reject the combination, and credentials are sent in clear text only if the options ask for an insecure transport.
  \<^verbatim>\<open>DialGRPCWithPort\<close> sends no credentials at all, and always chooses exactly one transport.\<close>

theorem dial_credentials:
  assumes "dialOpts w bopts = Inr opts"
  shows "(\<forall>c. PerRPCCredentials c \<in> set opts \<longrightarrow>
             (cr_secure c \<longleftrightarrow> TransportInsecure \<notin> set opts) \<and> (TransportInsecure \<in> set opts \<longleftrightarrow> Insecure bopts)
             \<and> cr_username c = Username bopts \<and> cr_password c = Password bopts)
         \<and> length (filter transport opts) \<le> 1
         \<and> (\<forall>r dev port d. DialGRPCWithPort w r dev port = Inr d \<longrightarrow>
              (\<forall>c. PerRPCCredentials c \<notin> set (DialOpts d)) \<and> length (filter transport (DialOpts d)) = 1)"
proof (intro conjI allI impI)
  fix c assume "PerRPCCredentials c \<in> set opts"
  then show "cr_secure c \<longleftrightarrow> TransportInsecure \<notin> set opts" "TransportInsecure \<in> set opts \<longleftrightarrow> Insecure bopts"
    "cr_username c = Username bopts" "cr_password c = Password bopts"
    using assms by (auto simp: dialOpts_def bind_res_Inr_iff split: if_splits)
next
  show "length (filter transport opts) \<le> 1"
    using assms by (auto simp: dialOpts_def bind_res_Inr_iff transport_def split: if_splits)
next
  fix r dev port d c assume "DialGRPCWithPort w r dev port = Inr d"
  then show "PerRPCCredentials c \<notin> set (DialOpts d)" "length (filter transport (DialOpts d)) = 1"
    by (auto simp: DialGRPCWithPort_def makeDialer_def port_options_def no_options_def dialOpts_def bind_res_Inr_iff transport_def Let_def
        split: if_splits)
qed

definition ex_env :: env where
  "ex_env = \<lparr>answer = (\<lambda>log c. Some (int (length log))), read_file = (\<lambda>f. Some f), parse_set = Some, load_pem = (\<lambda>_ _ _. True)\<rparr>"

theorem dial_credentials_witness:
  "dialOpts ex_env (no_options\<lparr>Username := ''admin'', SkipVerify := True\<rparr>) =
     Inr [WithDisableRetry, TransportSkipVerify, PerRPCCredentials \<lparr>cr_username = ''admin'', cr_password = [], cr_secure = True\<rparr>]
   \<and> length (filter transport
        [WithDisableRetry, TransportSkipVerify, PerRPCCredentials \<lparr>cr_username = ''admin'', cr_password = [], cr_secure = True\<rparr>]) \<le> 1"
proof -
  have *: "dialOpts ex_env (no_options\<lparr>Username := ''admin'', SkipVerify := True\<rparr>) =
      Inr [WithDisableRetry, TransportSkipVerify, PerRPCCredentials \<lparr>cr_username = ''admin'', cr_password = [], cr_secure = True\<rparr>]"
    by (simp add: dialOpts_def no_options_def)
  then show ?thesis using dial_credentials [OF *] by simp
qed


section \<open>Static reservations\<close>

text \<open>The last element with a given identifier, which is the one a map filled in order holds.\<close>

definition last_with :: "('a \<Rightarrow> string) \<Rightarrow> 'a list \<Rightarrow> string \<Rightarrow> 'a option" where
  "last_with f xs k = map_of (rev (map (\<lambda>x. (f x, x)) xs)) k"

lemma lookup_fold_update:
  "map_of (fold (\<lambda>x m. AList.update (f x) (g x) m) xs m) k = (map_of m ++ map_of (rev (map (\<lambda>x. (f x, g x)) xs))) k"
  by (induction xs arbitrary: m) (auto simp: update_conv' map_add_def split: option.split)

lemma map_of_by_id: "map_of (by_id f xs) k = last_with f xs k"
  by (simp add: by_id_def lookup_fold_update last_with_def)

lemma last_with_in: "last_with f xs k = Some x \<Longrightarrow> x \<in> set xs \<and> f x = k"
  by (auto simp: last_with_def dest!: map_of_SomeD)

lemma last_with_distinct: "distinct (map f xs) \<Longrightarrow> x \<in> set xs \<Longrightarrow> last_with f xs (f x) = Some x"
  unfolding last_with_def
  by (rule map_of_is_SomeI) (auto simp: comp_def simp flip: rev_map)

definition port_fits :: "bind_device \<Rightarrow> tb_port \<Rightarrow> bool" where
  "port_fits bd tp \<longleftrightarrow>
     (\<exists>bp. last_with bpId (bdPorts bd) (tpId tp) = Some bp \<and> tpSpeed tp \<in> {0, bpSpeed bp} \<and> tpPmd tp \<in> {0, bpPmd bp})"

text \<open>A bound device fits one of the test bed if it has what the test bed asks for.\<close>

definition device_fits :: "tb_device \<Rightarrow> bind_device \<Rightarrow> bool" where
  "device_fits td bd \<longleftrightarrow>
     tdVendor td \<in> {0, bdVendor bd} \<and> tdHardwareModel td \<in> {[], bdHardwareModel bd}
     \<and> tdSoftwareVersion td \<in> {[], bdSoftwareVersion bd} \<and> (\<forall>tp\<in>set (tdPorts td). port_fits bd tp)"

definition bound_of :: "bind_port \<Rightarrow> bound_port" where
  "bound_of bp = \<lparr>portName = bpName bp, portPMD = bpPmd bp, portSpeed = bpSpeed bp\<rparr>"

text \<open>A loop that fills a map and collects errors.\<close>

lemma fold_collect:
  assumes "\<And>x m es. step x (m, es) =
      (case v x of None \<Rightarrow> m | Some y \<Rightarrow> AList.update (f x) y m, es @ err x)"
  shows "snd (fold step xs (m, es)) = es @ concat (map err xs)"
    and "(\<forall>x\<in>set xs. v x \<noteq> None) \<Longrightarrow> fst (fold step xs (m, es)) = fold (\<lambda>x m. AList.update (f x) (the (v x)) m) xs m"
  by (induction xs arbitrary: m es) (auto simp: assms)

definition port_errors :: "bind_device \<Rightarrow> tb_port \<Rightarrow> bind_err list" where
  "port_errors bd tp = snd (port_step bd (by_id bpId (bdPorts bd)) tp ([], []))"

lemma port_step_collect:
  "port_step bd (by_id bpId (bdPorts bd)) tp (m, es) =
     (case map_option bound_of (last_with bpId (bdPorts bd) (tpId tp)) of None \<Rightarrow> m | Some y \<Rightarrow> AList.update (tpId tp) y m,
      es @ port_errors bd tp)"
  by (simp add: port_step_def port_errors_def map_of_by_id bound_of_def split: option.split)

lemma port_errors_iff: "port_errors bd tp = [] \<longleftrightarrow> port_fits bd tp"
  by (auto simp: port_errors_def port_step_def map_of_by_id port_fits_def split: option.split)

lemma staticPorts_errs: "snd (staticPorts tps bd) = [] \<longleftrightarrow> (\<forall>tp\<in>set tps. port_fits bd tp)"
  by (simp add: staticPorts_def fold_collect(1) [OF port_step_collect] port_errors_iff)

lemma staticPorts_ports:
  assumes "\<forall>tp\<in>set tps. port_fits bd tp" "tp \<in> set tps" "distinct (map tpId tps)"
  shows "map_of (fst (staticPorts tps bd)) (tpId tp) = map_option bound_of (last_with bpId (bdPorts bd) (tpId tp))"
proof -
  let ?v = "\<lambda>tp. map_option bound_of (last_with bpId (bdPorts bd) (tpId tp))"
  have "\<forall>tp\<in>set tps. ?v tp \<noteq> None" using assms(1) by (auto simp: port_fits_def)
  then have "map_of (fst (staticPorts tps bd)) (tpId tp) = map_of (rev (map (\<lambda>x. (tpId x, the (?v x))) tps)) (tpId tp)"
    by (simp add: staticPorts_def fold_collect(2) [OF port_step_collect] lookup_fold_update)
  also have "\<dots> = Some (the (?v tp))"
    using assms(2,3) by (intro map_of_is_SomeI) (auto simp: comp_def simp flip: rev_map)
  finally show ?thesis using assms(1,2) by (auto simp: port_fits_def)
qed

definition device_errors :: "tb_device \<Rightarrow> bind_device \<Rightarrow> bind_err list" where
  "device_errors td bd = snd (staticDims td bd)"

lemma device_errors_iff: "device_errors td bd = [] \<longleftrightarrow> device_fits td bd"
  using staticPorts_errs [of "tdPorts td" bd]
  by (auto simp: device_errors_def staticDims_def device_fits_def split: prod.split)

definition bind_errors :: "bind_device list \<Rightarrow> tb_device \<Rightarrow> bind_err list" where
  "bind_errors bds td = (case last_with bdId bds (tdId td) of None \<Rightarrow> [MissingBinding (tdId td)] | Some bd \<Rightarrow> device_errors td bd)"

lemma bind_step_collect:
  "bind_step mk (by_id bdId bds) td (m, es) =
     (case map_option (\<lambda>bd. mk (fst (staticDims td bd)) bd) (last_with bdId bds (tdId td)) of
        None \<Rightarrow> m | Some y \<Rightarrow> AList.update (tdId td) y m, es @ bind_errors bds td)"
  by (simp add: bind_step_def bind_errors_def device_errors_def map_of_by_id split: option.split prod.split)

definition bound_to :: "bind_device list \<Rightarrow> tb_device \<Rightarrow> bind_device \<Rightarrow> bool" where
  "bound_to bds td bd \<longleftrightarrow> last_with bdId bds (tdId td) = Some bd \<and> device_fits td bd"

lemma bind_errors_iff: "bind_errors bds td = [] \<longleftrightarrow> (\<exists>bd. bound_to bds td bd)"
  by (auto simp: bind_errors_def bound_to_def device_errors_iff split: option.split)

lemma staticReservation_errs:
  "snd (staticReservation tb r) = [] \<longleftrightarrow>
     (\<forall>td\<in>set (tbDuts tb). \<exists>bd. bound_to (rDuts r) td bd) \<and> (\<forall>td\<in>set (tbAtes tb). \<exists>bd. bound_to (rAtes r) td bd)"
  by (simp add: staticReservation_def case_prod_beta fold_collect(1) [OF bind_step_collect] bind_errors_iff)

text \<open>How a device of the test bed is bound: to the device \<open>bd\<close> of the binding file, each port to the port with its
  identifier.\<close>

definition dims_of :: "tb_device \<Rightarrow> bind_device \<Rightarrow> Dims \<Rightarrow> bool" where
  "dims_of td bd d \<longleftrightarrow>
     dimName d = bdName bd \<and> dimVendor d = bdVendor bd \<and> dimHardwareModel d = bdHardwareModel bd
     \<and> dimSoftwareVersion d = bdSoftwareVersion bd
     \<and> (\<forall>tp\<in>set (tdPorts td). map_of (dimPorts d) (tpId tp) = map_option bound_of (last_with bpId (bdPorts bd) (tpId tp))
            \<and> map_of (dimPorts d) (tpId tp) \<noteq> None)"

lemma staticDims_dims_of:
  assumes "device_fits td bd" "distinct (map tpId (tdPorts td))"
  shows "dims_of td bd (fst (staticDims td bd))"
  using assms staticPorts_ports [of "tdPorts td" bd]
  by (auto simp: dims_of_def staticDims_def device_fits_def port_fits_def split: prod.split)

lemma bind_fold_lookup:
  assumes "\<forall>td\<in>set tds. \<exists>bd. bound_to bds td bd" "distinct (map tdId tds)" "bound_to bds td bd" "td \<in> set tds"
  shows "map_of (fst (fold (bind_step mk (by_id bdId bds)) tds ([], es))) (tdId td) = Some (mk (fst (staticDims td bd)) bd)"
proof -
  let ?v = "\<lambda>td. map_option (\<lambda>bd. mk (fst (staticDims td bd)) bd) (last_with bdId bds (tdId td))"
  have "\<forall>td\<in>set tds. ?v td \<noteq> None" using assms(1) by (auto simp: bound_to_def)
  then have "map_of (fst (fold (bind_step mk (by_id bdId bds)) tds ([], es))) (tdId td) =
      map_of (rev (map (\<lambda>x. (tdId x, the (?v x))) tds)) (tdId td)"
    by (simp add: fold_collect(2) [OF bind_step_collect] lookup_fold_update)
  also have "\<dots> = Some (the (?v td))"
    using assms(2,4) by (intro map_of_is_SomeI) (auto simp: comp_def simp flip: rev_map)
  finally show ?thesis using assms(3) by (simp add: bound_to_def)
qed

lemma bind_fold_dims:
  assumes "\<forall>td\<in>set tds. \<exists>bd. bound_to bds td bd" "distinct (map tdId tds)" "td \<in> set tds" "distinct (map tpId (tdPorts td))"
  shows "\<exists>bd. map_of (fst (fold (bind_step mk (by_id bdId bds)) tds ([], es))) (tdId td) = Some (mk (fst (staticDims td bd)) bd)
           \<and> bound_to bds td bd \<and> dims_of td bd (fst (staticDims td bd))"
proof -
  obtain bd where bd: "bound_to bds td bd" using assms(1,3) by blast
  then have "dims_of td bd (fst (staticDims td bd))" using staticDims_dims_of assms(4) by (simp add: bound_to_def)
  then show ?thesis using bd bind_fold_lookup [OF assms(1,2) bd assms(3)] by blast
qed

lemma keys_fold_update: "fst ` set (fold (\<lambda>x m. AList.update (f x) (g x) m) xs m) = fst ` set m \<union> f ` set xs"
  by (induction xs arbitrary: m) (auto simp: update_conv' simp flip: dom_map_of_conv_image_fst)

lemma bind_fold_keys:
  assumes "\<forall>td\<in>set tds. \<exists>bd. bound_to bds td bd"
  shows "fst ` set (fst (fold (bind_step mk (by_id bdId bds)) tds ([], es))) = tdId ` set tds"
proof -
  have "\<forall>td\<in>set tds. map_option (\<lambda>bd. mk (fst (staticDims td bd)) bd) (last_with bdId bds (tdId td)) \<noteq> None"
    using assms by (auto simp: bound_to_def)
  then show ?thesis by (simp add: fold_collect(2) [OF bind_step_collect] keys_fold_update)
qed

definition testbed_ids :: "testbed \<Rightarrow> bool" where
  "testbed_ids tb \<longleftrightarrow> distinct (map tdId (tbDuts tb)) \<and> distinct (map tdId (tbAtes tb))
     \<and> (\<forall>td\<in>set (tbDuts tb @ tbAtes tb). distinct (map tpId (tdPorts td)))"

text \<open>C13: For a test bed whose identifiers are distinct, a static reservation succeeds exactly when every device of
  the test bed is bound to one that fits, and then reserves exactly those, each with its ports; otherwise the errors of
  all devices are reported.\<close>

theorem static_reservation_binds:
  assumes "\<not> rDynamic r" "testbed_ids tb"
  shows "if (\<forall>td\<in>set (tbDuts tb). \<exists>bd. bound_to (rDuts r) td bd) \<and> (\<forall>td\<in>set (tbAtes tb). \<exists>bd. bound_to (rAtes r) td bd)
         then \<exists>rv. reservation pg tb r = Inr rv
                \<and> fst ` set (DUTs rv) = tdId ` set (tbDuts tb) \<and> fst ` set (ATEs rv) = tdId ` set (tbAtes tb)
                \<and> (\<forall>td\<in>set (tbDuts tb). \<exists>d bd. map_of (DUTs rv) (tdId td) = Some d \<and> dut_dev d = bd
                       \<and> bound_to (rDuts r) td bd \<and> dims_of td bd (dut_dims d))
                \<and> (\<forall>td\<in>set (tbAtes tb). \<exists>a bd. map_of (ATEs rv) (tdId td) = Some a \<and> ate_dev a = bd
                       \<and> bound_to (rAtes r) td bd \<and> dims_of td bd (ate_dims a) \<and> ixsess a = None)
         else \<exists>es. reservation pg tb r = Inl (Errors es) \<and> es \<noteq> []
                \<and> es = concat (map (bind_errors (rDuts r)) (tbDuts tb)) @ concat (map (bind_errors (rAtes r)) (tbAtes tb))"
    (is "if ?ok then ?good else ?bad")
proof (cases ?ok)
  case True
  let ?rv = "fst (staticReservation tb r)"
  have rv: "reservation pg tb r = Inr ?rv"
    using True assms(1) staticReservation_errs [of tb r] by (simp add: reservation_def case_prod_beta)
  have duts: "DUTs ?rv = fst (fold (bind_step mk_dut (by_id bdId (rDuts r))) (tbDuts tb) ([], []))"
    and ates: "ATEs ?rv = fst (fold (bind_step mk_ate (by_id bdId (rAtes r))) (tbAtes tb)
        ([], snd (fold (bind_step mk_dut (by_id bdId (rDuts r))) (tbDuts tb) ([], []))))"
    by (simp_all add: staticReservation_def case_prod_beta)
  have "\<exists>d bd. map_of (DUTs ?rv) (tdId td) = Some d \<and> dut_dev d = bd \<and> bound_to (rDuts r) td bd \<and> dims_of td bd (dut_dims d)"
    if "td \<in> set (tbDuts tb)" for td
    using True assms(2) that bind_fold_dims [of "tbDuts tb" "rDuts r" td mk_dut "[]"]
    by (fastforce simp: duts testbed_ids_def mk_dut_def)
  moreover have "\<exists>a bd. map_of (ATEs ?rv) (tdId td) = Some a \<and> ate_dev a = bd \<and> bound_to (rAtes r) td bd
      \<and> dims_of td bd (ate_dims a) \<and> ixsess a = None"
    if "td \<in> set (tbAtes tb)" for td
    using True assms(2) that bind_fold_dims [of "tbAtes tb" "rAtes r" td mk_ate]
    by (fastforce simp: ates testbed_ids_def mk_ate_def)
  moreover have "fst ` set (DUTs ?rv) = tdId ` set (tbDuts tb)" "fst ` set (ATEs ?rv) = tdId ` set (tbAtes tb)"
    using True unfolding duts ates by (simp_all add: bind_fold_keys)
  ultimately show ?thesis using True rv by auto
next
  case False
  let ?es = "snd (staticReservation tb r)"
  have "?es \<noteq> []" using False staticReservation_errs [of tb r] by simp
  moreover have "?es = concat (map (bind_errors (rDuts r)) (tbDuts tb)) @ concat (map (bind_errors (rAtes r)) (tbAtes tb))"
    by (simp add: staticReservation_def case_prod_beta fold_collect(1) [OF bind_step_collect])
  ultimately have ?bad using assms(1) by (simp add: reservation_def case_prod_beta)
  then show ?thesis using False by simp
qed

definition ex_bind_device :: bind_device where
  "ex_bind_device = \<lparr>bdId = ''dut'', bdName = ''host1'', bdOptions = None,
     bdPorts = [\<lparr>bpId = ''port1'', bpName = ''Ethernet1'', bpSpeed = 5, bpPmd = 0\<rparr>], bdConfig = None, bdSsh = None, bdGnmi = None, bdGnoi = None,
     bdGnsi = None, bdGribi = None, bdP4rt = None, bdIxnetwork = None, bdOtg = None, bdVendor = 1, bdHardwareModel = ''hw'',
     bdSoftwareVersion = [], bdGnpsi = None\<rparr>"

definition ex_ate_device :: bind_device where
  "ex_ate_device = ex_bind_device\<lparr>bdId := ''ate'', bdName := ''chassis'', bdIxnetwork := Some no_options, bdPorts := []\<rparr>"

definition ex_resolver :: resolver where
  "ex_resolver = \<lparr>rDuts = [ex_bind_device], rAtes = [ex_ate_device], rOptions = None, rDynamic = False, rLinks = []\<rparr>"

definition ex_testbed :: testbed where
  "ex_testbed =
     \<lparr>tbDuts = [\<lparr>tdId = ''dut'', tdVendor = 1, tdHardwareModel = [], tdSoftwareVersion = [],
                 tdPorts = [\<lparr>tpId = ''port1'', tpSpeed = 5, tpPmd = 0\<rparr>]\<rparr>],
      tbAtes = [\<lparr>tdId = ''ate'', tdVendor = 0, tdHardwareModel = [], tdSoftwareVersion = [], tdPorts = []\<rparr>]\<rparr>"

text \<open>A solver for a test bed with one device under test: the first device of the binding file.\<close>

definition ex_portgraph :: "(unit, unit, nat) portgraph" where
  "ex_portgraph = \<lparr>NameAttr = ''name'', SpeedAttr = ''speed'', PMDAttr = ''pmd'', RoleAttr = ''role'', HWAttr = ''hw'', SWAttr = ''sw'',
     RoleDUT = ''DUT'', RoleATE = ''ATE'', speed_name = (\<lambda>n. dec (nat n)), pmd_name = (\<lambda>n. dec (nat n)),
     TestbedToAbstractGraph = (\<lambda>tb. Some ((), \<lambda>_. 0, \<lambda>j. (0, j))),
     Solve = (\<lambda>_ g. Some ([((), 0)], map (\<lambda>j. (j, (0, j))) [0..<length (cnPorts (hd (cgNodes g)))]))\<rparr>"

lemmas ex_binding_defs = ex_resolver_def ex_testbed_def ex_bind_device_def ex_ate_device_def

theorem static_reservation_binds_witness:
  "\<exists>rv d bp. reservation ex_portgraph ex_testbed ex_resolver = Inr rv
     \<and> map_of (DUTs rv) ''dut'' = Some d \<and> dut_dev d = ex_bind_device
     \<and> map_of (dimPorts (dut_dims d)) ''port1'' = Some bp \<and> portName bp = ''Ethernet1''"
proof -
  have "bound_to (rDuts ex_resolver) (hd (tbDuts ex_testbed)) ex_bind_device"
    "bound_to (rAtes ex_resolver) (hd (tbAtes ex_testbed)) ex_ate_device"
    by (simp_all add: bound_to_def last_with_def device_fits_def port_fits_def ex_binding_defs)
  moreover have "\<not> rDynamic ex_resolver" "testbed_ids ex_testbed"
    "tbDuts ex_testbed = [hd (tbDuts ex_testbed)]" "tbAtes ex_testbed = [hd (tbAtes ex_testbed)]"
    by (simp_all add: testbed_ids_def ex_binding_defs)
  ultimately obtain rv where rv: "reservation ex_portgraph ex_testbed ex_resolver = Inr rv"
    and d: "\<forall>td\<in>set (tbDuts ex_testbed). \<exists>d bd. map_of (DUTs rv) (tdId td) = Some d \<and> dut_dev d = bd
        \<and> bound_to (rDuts ex_resolver) td bd \<and> dims_of td bd (dut_dims d)"
    using static_reservation_binds [of ex_resolver ex_testbed ex_portgraph]
    by (smt (verit) empty_iff insert_iff list.set)
  have "hd (tbDuts ex_testbed) \<in> set (tbDuts ex_testbed)" by (simp add: ex_binding_defs)
  then obtain d where "map_of (DUTs rv) ''dut'' = Some d" "bound_to (rDuts ex_resolver) (hd (tbDuts ex_testbed)) (dut_dev d)"
    and dims: "dims_of (hd (tbDuts ex_testbed)) (dut_dev d) (dut_dims d)"
    using d by (fastforce simp: ex_binding_defs)
  moreover from this have dev: "dut_dev d = ex_bind_device"
    by (simp add: bound_to_def last_with_def ex_resolver_def ex_testbed_def) (simp add: ex_bind_device_def)
  moreover have "map_of (dimPorts (dut_dims d)) ''port1'' = Some \<lparr>portName = ''Ethernet1'', portPMD = 0, portSpeed = 5\<rparr>"
    using dims unfolding dev by (simp add: dims_of_def last_with_def bound_of_def ex_testbed_def ex_bind_device_def)
  ultimately show ?thesis using rv by auto
qed


section \<open>Sessions\<close>

text \<open>The sessions that are open on the chassis after the calls of a log: those created and not deleted, by device.\<close>

definition session_step :: "env \<Rightarrow> call list \<Rightarrow> call \<Rightarrow> (string \<times> int) multiset \<Rightarrow> (string \<times> int) multiset" where
  "session_step w log c S =
     (case answer w log c of
        None \<Rightarrow> S
      | Some n \<Rightarrow> (case c of NewSession k \<Rightarrow> S + {#(k, n)#} | DeleteSession k m \<Rightarrow> S - {#(k, m)#} | _ \<Rightarrow> S))"

fun sessions_from :: "env \<Rightarrow> call list \<Rightarrow> call list \<Rightarrow> (string \<times> int) multiset \<Rightarrow> (string \<times> int) multiset" where
  "sessions_from w log [] S = S"
| "sessions_from w log (c # cs) S = sessions_from w (log @ [c]) cs (session_step w log c S)"

definition open_sessions :: "env \<Rightarrow> call list \<Rightarrow> (string \<times> int) multiset" where
  "open_sessions w log = sessions_from w [] log {#}"

lemma open_sessions_snoc: "open_sessions w (log @ [c]) = session_step w log c (open_sessions w log)"
proof -
  have "sessions_from w pre (log @ [c]) S = session_step w (pre @ log) c (sessions_from w pre log S)" for pre S
    by (induction w pre log S rule: sessions_from.induct) simp_all
  then show ?thesis by (simp add: open_sessions_def)
qed

text \<open>Operations that neither create nor delete sessions.\<close>

definition quiet :: "env \<Rightarrow> 'a io \<Rightarrow> bool" where
  "quiet w m \<longleftrightarrow> (\<forall>log. open_sessions w (snd (m log)) = open_sessions w log)"

lemma quietD: "quiet w m \<Longrightarrow> m log = (x, log') \<Longrightarrow> open_sessions w log' = open_sessions w log"
  unfolding quiet_def by (metis snd_conv)

named_theorems quiet_intros

lemma quiet_basic [quiet_intros]: "quiet w (ret x)" "quiet w (fail e)" "quiet w (lift_res r)"
  by (simp_all add: quiet_def ret_def fail_def lift_res_def)

lemma quiet_bind [quiet_intros]: "quiet w m \<Longrightarrow> (\<And>x. quiet w (f x)) \<Longrightarrow> quiet w (bind_io m f)"
  unfolding quiet_def bind_io_def by (auto split: prod.splits sum.splits) (metis snd_conv)+

lemma quiet_each [quiet_intros]: "(\<And>x. quiet w (f x)) \<Longrightarrow> quiet w (each f xs)"
  by (induction xs) (simp_all add: quiet_intros)

lemma quiet_call:
  "(\<And>k n. c \<noteq> NewSession k \<and> c \<noteq> DeleteSession k n) \<Longrightarrow> quiet w (call w c)"
  by (auto simp: quiet_def call_def open_sessions_snoc session_step_def split: option.split call.split)

lemma quiet_calls [quiet_intros]:
  "quiet w (call w (SshDial k p))" "quiet w (call w (RunCommand k s))" "quiet w (call w (GrpcDial k v d))"
  "quiet w (call w (GnmiSet k s))" "quiet w (call w (GribiFlushAll k))" "quiet w (call w (GnmiSetCli k s))"
  by (simp_all add: quiet_call)

lemma quiet_dut_reset: "quiet w (dut_reset w r dev)"
  unfolding dut_reset_def resetCLI_def resetGNMI_def resetGRIBI_def dut_dial_def dialConn_def DialCLI_def Let_def
  by (auto intro!: quiet_intros)

lemma quiet_reset: "quiet w (reset w ord r rv)"
  unfolding reset_def by (rule quiet_each) (auto intro!: quiet_intros quiet_dut_reset split: option.split)

text \<open>The sessions of the traffic generators in a list of keys: those the binding created itself.\<close>

definition own_session :: "resolver \<Rightarrow> (string \<times> staticATE) list \<Rightarrow> string \<Rightarrow> (string \<times> int) multiset" where
  "own_session r ates k =
     (case map_of ates k of
        None \<Rightarrow> {#}
      | Some a \<Rightarrow>
          (case ixsess a of
             None \<Rightarrow> {#}
           | Some n \<Rightarrow> if SessionId (resolver_ixnetwork r (ate_dev a)) > 0 then {#} else {#(bdName (ate_dev a), n)#}))"

definition own_sessions :: "resolver \<Rightarrow> (string \<times> staticATE) list \<Rightarrow> string list \<Rightarrow> (string \<times> int) multiset" where
  "own_sessions r ates ks = sum_list (map (own_session r ates) ks)"

lemma ixWeb_ok:
  assumes "ixWeb w opts a log = (Inr (), a1, log1)"
  shows "ate_dev a1 = ate_dev a \<and> ixsess a1 = ixsess a \<and> open_sessions w log1 = open_sessions w log"
  using assms quiet_call [of "IxConnect _ _ _ _" w]
  by (auto simp: ixWeb_def call_def open_sessions_snoc session_step_def Let_def split: if_splits option.splits)

lemma DialIxNetwork_ok:
  assumes "DialIxNetwork w r a log = (Inr (), a1, log1)" "ixsess a = None"
  shows "\<exists>n. ate_dev a1 = ate_dev a \<and> ixsess a1 = Some n
     \<and> open_sessions w log1 = open_sessions w log
         + (if SessionId (resolver_ixnetwork r (ate_dev a)) > 0 then {#} else {#(bdName (ate_dev a), n)#})"
proof -
  let ?opts = "resolver_ixnetwork r (ate_dev a)"
  obtain a0 log0 where 0: "ixWeb w ?opts a log = (Inr (), a0, log0)"
    using assms by (auto simp: DialIxNetwork_def ixSession_def split: prod.splits sum.splits)
  then show ?thesis
    using assms ixWeb_ok [OF 0]
    by (auto simp: DialIxNetwork_def ixSession_def call_def open_sessions_snoc session_step_def Let_def
        split: prod.splits sum.splits option.splits if_splits)
qed

lemma own_sessions_update:
  "k \<notin> set ks \<Longrightarrow> own_sessions r (AList.update k a ates) ks = own_sessions r ates ks"
  by (auto simp: own_sessions_def own_session_def update_conv' intro!: arg_cong [where f = sum_list] map_cong)

lemma map_fst_update: "map_of m k = Some x \<Longrightarrow> map fst (AList.update k y m) = map fst m"
  by (simp add: update_keys) (metis map_of_SomeD fst_conv image_eqI)

lemma reserveIxSessions_fst:
  "map fst (fst (snd (reserveIxSessions w r ks ates log))) = map fst ates"
  by (induction w r ks ates log rule: reserveIxSessions.induct)
    (auto simp: map_fst_update split: option.split prod.split sum.split)

text \<open>What reserving the sessions of the traffic generators \<open>ks\<close> does: it touches no other, gives a session to those that
  use one, and opens exactly the own sessions.\<close>

definition sessions_reserved :: "env \<Rightarrow> resolver \<Rightarrow> string list \<Rightarrow> (string \<times> staticATE) list \<Rightarrow> call list \<Rightarrow>
    (string \<times> staticATE) list \<Rightarrow> call list \<Rightarrow> bool" where
  "sessions_reserved w r ks ates log ates' log' \<longleftrightarrow>
     (\<forall>k. k \<notin> set ks \<longrightarrow> map_of ates' k = map_of ates k)
     \<and> (\<forall>k\<in>set ks. \<forall>a'. map_of ates' k = Some a' \<longrightarrow> (ixsess a' \<noteq> None \<longleftrightarrow> bdIxnetwork (ate_dev a') \<noteq> None))
     \<and> map fst ates' = map fst ates
     \<and> open_sessions w log' = open_sessions w log + own_sessions r ates' ks"

lemma sessions_reserved_skip:
  assumes "sessions_reserved w r ks ates log ates' log'" "k \<notin> set ks"
    "\<And>a. map_of ates k = Some a \<Longrightarrow> ixsess a = None \<and> bdIxnetwork (ate_dev a) = None"
  shows "sessions_reserved w r (k # ks) ates log ates' log'"
proof -
  have "own_session r ates' k = {#}" using assms by (auto simp: sessions_reserved_def own_session_def split: option.split)
  then show ?thesis using assms by (fastforce simp: sessions_reserved_def own_sessions_def)
qed

lemma sessions_reserved_dial:
  assumes "sessions_reserved w r ks (AList.update k a1 ates) log1 ates' log'" "k \<notin> set ks"
    "map_of ates k = Some a" "bdIxnetwork (ate_dev a) \<noteq> None" "ate_dev a1 = ate_dev a" "ixsess a1 = Some n"
    "open_sessions w log1 = open_sessions w log
       + (if SessionId (resolver_ixnetwork r (ate_dev a)) > 0 then {#} else {#(bdName (ate_dev a), n)#})"
  shows "sessions_reserved w r (k # ks) ates log ates' log'"
proof -
  have "own_session r ates' k = (if SessionId (resolver_ixnetwork r (ate_dev a)) > 0 then {#} else {#(bdName (ate_dev a), n)#})"
    using assms by (simp add: sessions_reserved_def own_session_def update_conv')
  then show ?thesis using assms by (auto simp: sessions_reserved_def own_sessions_def update_conv' map_fst_update)
qed

lemma reserveIxSessions_ok:
  assumes "reserveIxSessions w r ks ates log = (Inr (), ates', log')" "distinct ks"
    "\<forall>k\<in>set ks. \<forall>a. map_of ates k = Some a \<longrightarrow> ixsess a = None"
  shows "sessions_reserved w r ks ates log ates' log'"
  using assms
proof (induction w r ks ates log rule: reserveIxSessions.induct)
  case (2 w r k ks ates log)
  note prems = "2.prems" and IH = "2.IH"
  have k: "k \<notin> set ks" "distinct ks" using prems(2) by auto
  show ?case
  proof (cases "\<exists>a. map_of ates k = Some a \<and> bdIxnetwork (ate_dev a) \<noteq> None")
    case False
    then have "reserveIxSessions w r ks ates log = (Inr (), ates', log')" using prems(1) by (auto split: option.splits if_splits)
    then have "sessions_reserved w r ks ates log ates' log'"
      using IH(1,2) False prems(3) k(2) by (cases "map_of ates k") auto
    then show ?thesis using k(1) False prems(3) by (intro sessions_reserved_skip) auto
  next
    case True
    then obtain a where a: "map_of ates k = Some a" "bdIxnetwork (ate_dev a) \<noteq> None" "ixsess a = None" using prems(3) by auto
    then obtain a1 log1 where d: "DialIxNetwork w r a log = (Inr (), a1, log1)"
      and rest: "reserveIxSessions w r ks (AList.update k a1 ates) log1 = (Inr (), ates', log')"
      using prems(1) by (auto split: prod.splits sum.splits)
    have "sessions_reserved w r ks (AList.update k a1 ates) log1 ates' log'"
      using IH(3) [OF a(1,2) d [symmetric] refl refl rest k(2)] prems(3) k by (auto simp: update_conv' split: if_splits)
    then show ?thesis using sessions_reserved_dial k(1) a(1,2) DialIxNetwork_ok [OF d a(3)] by blast
  qed
qed (simp add: sessions_reserved_def own_sessions_def)

text \<open>Releasing deletes them.\<close>

lemma release_one_ok:
  assumes "(case map_of ates k of None \<Rightarrow> ret () | Some a \<Rightarrow> release_one w r a) log = (Inr (), log1)"
    "\<And>a. map_of ates k = Some a \<Longrightarrow> 0 \<le> SessionId (resolver_ixnetwork r (ate_dev a))"
  shows "open_sessions w log1 = open_sessions w log - own_session r ates k"
proof (cases "map_of ates k")
  case (Some a)
  then show ?thesis
    using assms
    by (auto simp: release_one_def bind_io_def ret_def call_def own_session_def open_sessions_snoc session_step_def
        split: option.splits if_splits)
qed (use assms in \<open>simp add: ret_def own_session_def\<close>)

lemma releaseIxSessions_ok:
  assumes "releaseIxSessions w r ks ates log = (Inr (), log')"
    "\<forall>k\<in>set ks. \<forall>a. map_of ates k = Some a \<longrightarrow> 0 \<le> SessionId (resolver_ixnetwork r (ate_dev a))"
  shows "open_sessions w log' = open_sessions w log - own_sessions r ates ks"
  using assms
proof (induction ks arbitrary: log)
  case (Cons k ks)
  obtain log1 where 1: "(case map_of ates k of None \<Rightarrow> ret () | Some a \<Rightarrow> release_one w r a) log = (Inr (), log1)"
    and 2: "releaseIxSessions w r ks ates log1 = (Inr (), log')"
    using Cons.prems(1) by (auto simp: releaseIxSessions_def bind_io_def split: prod.splits sum.splits)
  have "open_sessions w log1 = open_sessions w log - own_session r ates k"
    using release_one_ok [OF 1] Cons.prems(2) by simp
  then show ?case using Cons.IH [OF 2] Cons.prems(2) by (simp add: own_sessions_def)
qed (simp add: releaseIxSessions_def ret_def own_sessions_def)

lemma own_sessions_perm: "mset ks = mset ks' \<Longrightarrow> own_sessions r ates ks = own_sessions r ates ks'"
  unfolding own_sessions_def by (metis mset_map sum_mset_sum_list)

text \<open>A new reservation has no sessions yet, and its traffic generators have distinct keys.\<close>

definition fresh_ates :: "(string \<times> staticATE) list \<Rightarrow> bool" where
  "fresh_ates m \<longleftrightarrow> distinct (map fst m) \<and> (\<forall>a\<in>snd ` set m. ixsess a = None)"

lemma fresh_update: "fresh_ates m \<Longrightarrow> fresh_ates (AList.update k (mk_ate d b) m)"
proof -
  have "set (AList.update k v m) \<subseteq> insert (k, v) (set m)" for v :: staticATE by (induction m) auto
  then show "fresh_ates m \<Longrightarrow> fresh_ates (AList.update k (mk_ate d b) m)"
    by (fastforce simp: fresh_ates_def distinct_update mk_ate_def)
qed

lemma fresh_bind: "fresh_ates (fst st) \<Longrightarrow> fresh_ates (fst (fold (bind_step mk_ate bds) tds st))"
  by (induction tds arbitrary: st) (auto simp: bind_step_def fresh_update split: option.split prod.split)

lemma fresh_dyn: "fresh_ates m \<Longrightarrow> dyn_devices mk_ate dmap pmap ds m = Inr m' \<Longrightarrow> fresh_ates m'"
  by (induction ds arbitrary: m) (auto simp: bind_res_Inr_iff dest: fresh_update)

lemma fresh_Nil: "fresh_ates []"
  by (simp add: fresh_ates_def)

lemma reservation_fresh:
  assumes "reservation pg tb r = Inr rv"
  shows "fresh_ates (ATEs rv)"
proof (cases "rDynamic r")
  case True
  then show ?thesis
    using assms
    by (auto simp: reservation_def dynamicReservation_def assignmentToReservation_def bind_res_Inr_iff Let_def
        split: option.splits) (erule fresh_dyn [OF fresh_Nil])
next
  case False
  then show ?thesis
    using assms
    by (auto simp: reservation_def staticReservation_def case_prod_beta fresh_Nil split: if_splits intro!: fresh_bind)
qed

lemma Reserve_ok:
  assumes "Reserve w pg ord1 ord2 tb b log = (Inr rv, b1, log1)"
  obtains rv0 :: Reservation and log0 where "resv b = None" "b1 = b\<lparr>resv := Some rv\<rparr>" "fresh_ates (ATEs rv0)"
    "open_sessions w log0 = open_sessions w log"
    "reserveIxSessions w (bind_r b) ord2 (ATEs rv0) log0 = (Inr (), ATEs rv, log1)"
proof -
  obtain rv0 where rv0: "reservation pg tb (bind_r b) = Inr rv0" and b: "resv b = None"
    using assms by (auto simp: Reserve_def split: if_splits sum.splits)
  let ?rv = "rv0\<lparr>resvID := ''STATIC''\<rparr>"
  obtain log0 where 0: "(if pushConfig b then reset w ord1 (bind_r b) ?rv else ret ()) log = (Inr (), log0)"
    and 1: "reserveIxSessions w (bind_r b) ord2 (ATEs rv0) log0 = (Inr (), ATEs rv, log1)" "b1 = b\<lparr>resv := Some rv\<rparr>"
    using assms rv0 b by (fastforce simp: Reserve_def Let_def split: prod.splits sum.splits)
  have "open_sessions w log0 = open_sessions w log"
    using 0 quietD [OF quiet_reset, of w ord1 "bind_r b" ?rv] quietD [OF quiet_basic(1)] by (cases "pushConfig b") auto
  then show ?thesis using that b 1 reservation_fresh [OF rv0] by blast
qed

text \<open>C12: A reservation that succeeds opens a session for exactly those traffic generators that are configured to use one; and
  once it is released, the binding is as before and no session it created is left open, whatever the orders in which
  the maps are iterated.\<close>

theorem reserve_release_sessions:
  assumes "Reserve w pg ord1 ord2 tb b log = (Inr rv, b1, log1)"
    and "Release w ord3 b1 log1 = (Inr (), b2, log2)"
    and "mset ord2 = mset (map fst (ATEs rv))" "mset ord3 = mset (map fst (ATEs rv))"
    and "\<forall>a\<in>snd ` set (ATEs rv). 0 \<le> SessionId (resolver_ixnetwork (bind_r b) (ate_dev a))"
  shows "b2 = b \<and> open_sessions w log2 = open_sessions w log
         \<and> open_sessions w log1 = open_sessions w log + own_sessions (bind_r b) (ATEs rv) ord2
         \<and> (\<forall>a\<in>snd ` set (ATEs rv). ixsess a \<noteq> None \<longleftrightarrow> bdIxnetwork (ate_dev a) \<noteq> None)"
proof -
  obtain rv0 :: Reservation and log0 where b: "resv b = None" "b1 = b\<lparr>resv := Some rv\<rparr>" and fresh: "fresh_ates (ATEs rv0)"
    and log0: "open_sessions w log0 = open_sessions w log"
    and ix: "reserveIxSessions w (bind_r b) ord2 (ATEs rv0) log0 = (Inr (), ATEs rv, log1)"
    using Reserve_ok [OF assms(1)] .
  have keys: "map fst (ATEs rv) = map fst (ATEs rv0)" using reserveIxSessions_fst [of w "bind_r b" ord2 "ATEs rv0" log0] ix by simp
  have dist: "distinct (map fst (ATEs rv))" using fresh keys by (simp add: fresh_ates_def)
  then have ord2: "distinct ord2" using mset_eq_imp_distinct_iff [OF assms(3)] by simp
  have sets: "fst ` set (ATEs rv) = set ord2" using mset_eq_setD [OF assms(3)] by simp
  have lookup: "map_of (ATEs rv) k = Some a \<longleftrightarrow> (k, a) \<in> set (ATEs rv)" for k a using dist by simp
  have res: "sessions_reserved w (bind_r b) ord2 (ATEs rv0) log0 (ATEs rv) log1"
    using ix ord2 fresh by (intro reserveIxSessions_ok) (auto simp: fresh_ates_def dest: map_of_SomeD)
  obtain rel: "releaseIxSessions w (bind_r b) ord3 (ATEs rv) log1 = (Inr (), log2)" and b2: "b2 = b1\<lparr>resv := None\<rparr>"
    using assms(2) b(2) by (auto simp: Release_def split: prod.splits sum.splits)
  have "open_sessions w log2 = open_sessions w log1 - own_sessions (bind_r b) (ATEs rv) ord3"
    using rel assms(5) by (intro releaseIxSessions_ok) (force simp: lookup)+
  moreover have "own_sessions (bind_r b) (ATEs rv) ord3 = own_sessions (bind_r b) (ATEs rv) ord2"
    using assms(3,4) by (intro own_sessions_perm) simp
  moreover have "\<forall>a\<in>snd ` set (ATEs rv). ixsess a \<noteq> None \<longleftrightarrow> bdIxnetwork (ate_dev a) \<noteq> None"
  proof
    fix a assume "a \<in> snd ` set (ATEs rv)"
    then obtain k where k: "(k, a) \<in> set (ATEs rv)" by auto
    then have "k \<in> set ord2" using sets by force
    then show "ixsess a \<noteq> None \<longleftrightarrow> bdIxnetwork (ate_dev a) \<noteq> None" using res k lookup by (simp add: sessions_reserved_def)
  qed
  ultimately show ?thesis using res log0 b b2 by (simp add: sessions_reserved_def)
qed

definition ex_bind :: staticBind where
  "ex_bind = \<lparr>bind_r = ex_resolver, resv = None, pushConfig = True\<rparr>"

text \<open>A binding whose only traffic generator has a session of its own.\<close>

theorem reserve_release_sessions_witness:
  "\<exists>rv b1 log1 b2 log2.
     Reserve ex_env ex_portgraph [''dut''] [''ate''] ex_testbed ex_bind [] = (Inr rv, b1, log1)
     \<and> Release ex_env [''ate''] b1 log1 = (Inr (), b2, log2) \<and> resv b1 = Some rv \<and> b2 = ex_bind
     \<and> open_sessions ex_env log1 = {#(''chassis'', 1)#} \<and> open_sessions ex_env log2 = {#}"
proof -
  define X where "X = Reserve ex_env ex_portgraph [''dut''] [''ate''] ex_testbed ex_bind []"
  have X: "\<not> isl (fst X)" "resv (fst (snd X)) = Some (projr (fst X))" "map fst (ATEs (projr (fst X))) = [''ate'']"
    "snd (snd X) = [IxConnect ''chassis'' ''chassis'' ''admin'' ''admin'', NewSession ''chassis'']"
    "map (\<lambda>a. SessionId (resolver_ixnetwork ex_resolver (ate_dev (snd a)))) (ATEs (projr (fst X))) = [0]"
    "\<not> isl (fst (Release ex_env [''ate''] (fst (snd X)) (snd (snd X))))"
    unfolding X_def by code_simp+
  then obtain rv b1 log1 b2 log2 where
    r: "Reserve ex_env ex_portgraph [''dut''] [''ate''] ex_testbed ex_bind [] = (Inr rv, b1, log1)"
      "Release ex_env [''ate''] b1 log1 = (Inr (), b2, log2)"
    and rv: "resv b1 = Some rv" "map fst (ATEs rv) = [''ate'']" "log1 = [IxConnect ''chassis'' ''chassis'' ''admin'' ''admin'', NewSession ''chassis'']"
      "map (\<lambda>a. SessionId (resolver_ixnetwork ex_resolver (ate_dev (snd a)))) (ATEs rv) = [0]"
    unfolding X_def [symmetric]
    by (cases X; cases "fst X"; cases "Release ex_env [''ate''] (fst (snd X)) (snd (snd X))";
        cases "fst (Release ex_env [''ate''] (fst (snd X)) (snd (snd X)))") auto
  have "\<forall>a\<in>snd ` set (ATEs rv). 0 \<le> SessionId (resolver_ixnetwork (bind_r ex_bind) (ate_dev a))"
    using rv(4) by (auto simp: ex_bind_def map_eq_Cons_conv)
  then have "b2 = ex_bind \<and> open_sessions ex_env log2 = open_sessions ex_env []"
    using reserve_release_sessions [OF r] rv(2) by simp
  moreover have "open_sessions ex_env log1 = {#(''chassis'', 1)#}"
    by (simp add: rv(3) open_sessions_def session_step_def ex_env_def)
  ultimately show ?thesis using r rv(1) by (auto simp: open_sessions_def)
qed

text \<open>A reservation that fails because the test bed cannot be bound changes nothing. One that fails later, while devices are
  reset or sessions are opened, is kept although it is not returned: until it is released every further attempt is
  refused.\<close>

theorem Reserve_failure:
  assumes "Reserve w pg ord1 ord2 tb b log = (Inl e, b1, log1)"
  shows "if resv b = None \<and> \<not> isl (reservation pg tb (bind_r b))
         then resv b1 \<noteq> None
              \<and> (\<forall>tb' ord1' ord2' log'. Reserve w pg ord1' ord2' tb' b1 log' = (Inl OnlyOneReservation, b1, log'))
         else b1 = b \<and> log1 = log"
  using assms by (auto simp: Reserve_def Let_def split: if_splits sum.splits prod.splits)

text \<open>The connection to the traffic generator fails.\<close>

theorem Reserve_failure_witness:
  "\<exists>e b1 log1. Reserve (ex_env\<lparr>answer := \<lambda>_ _. None\<rparr>) ex_portgraph [''dut''] [''ate''] ex_testbed ex_bind [] = (Inl e, b1, log1)
     \<and> Reserve ex_env ex_portgraph [''dut''] [''ate''] ex_testbed b1 log1 = (Inl OnlyOneReservation, b1, log1)"
proof -
  have "isl (fst (Reserve (ex_env\<lparr>answer := \<lambda>_ _. None\<rparr>) ex_portgraph [''dut''] [''ate''] ex_testbed ex_bind []))"
    and ok: "resv ex_bind = None \<and> \<not> isl (reservation ex_portgraph ex_testbed (bind_r ex_bind))"
    by code_simp+
  then obtain e b1 log1 where
    r: "Reserve (ex_env\<lparr>answer := \<lambda>_ _. None\<rparr>) ex_portgraph [''dut''] [''ate''] ex_testbed ex_bind [] = (Inl e, b1, log1)"
    by (metis eq_fst_iff isl_def)
  then have "resv b1 \<noteq> None" using Reserve_failure [OF r] ok by simp
  then show ?thesis using r by (auto simp: Reserve_def)
qed

text \<open>With a negative session identifier a session is created and never deleted.\<close>

lemma negative_session_kept:
  assumes "SessionId (resolver_ixnetwork r (ate_dev a)) < 0"
  shows "release_one w r a = ret ()"
    and "ixsess a = None \<Longrightarrow> DialIxNetwork w r a log = (Inr (), a1, log1) \<Longrightarrow> last log1 = NewSession (bdName (ate_dev a))"
  using assms
  by (auto simp: release_one_def DialIxNetwork_def ixSession_def ixWeb_def call_def Let_def
      split: option.splits prod.splits sum.splits if_splits)


section \<open>Dynamic reservations\<close>

lemma link_edges_iff:
  "link_edges q links = Inr es \<longleftrightarrow>
     (\<forall>(a, b)\<in>set links. q a \<noteq> None \<and> q b \<noteq> None) \<and> es = map (\<lambda>(a, b). (the (q a), the (q b))) links"
  by (induction q links arbitrary: es rule: link_edges.induct) (auto simp: bind_res_Inr_iff split: option.splits)

lemma map_snd_enum: "map (\<lambda>x. f (snd x)) (List.enumerate n xs) = map f xs"
  by (rule nth_equalityI) (simp_all add: nth_enumerate_eq)

text \<open>What the maps of the code have to give for the reservation not to fail.\<close>

definition solved :: "testbed \<Rightarrow> (nat \<Rightarrow> bind_device option) \<Rightarrow> (pref \<Rightarrow> bind_port option) \<Rightarrow> bool" where
  "solved tb dmap pmap \<longleftrightarrow>
     (\<forall>(i, td)\<in>set (List.enumerate 0 (tbDuts tb @ tbAtes tb)). \<exists>bd. dmap i = Some bd
        \<and> (\<forall>j<length (tdPorts td). \<exists>bp\<in>set (bdPorts bd). pmap (i, j) = Some bp))"

lemma dyn_ports_solved:
  assumes "\<forall>(j, tp)\<in>set ps. pmap (i, j) \<noteq> None"
  shows "dyn_ports pmap i ps m = Inr (fold (\<lambda>(j, tp) m. AList.update (tpId tp) (bound_of (the (pmap (i, j)))) m) ps m)"
  using assms by (induction pmap i ps m rule: dyn_ports.induct) (auto simp: bound_of_def split: option.split)

definition dyn_dims :: "(nat \<Rightarrow> bind_device option) \<Rightarrow> (pref \<Rightarrow> bind_port option) \<Rightarrow> nat \<times> tb_device \<Rightarrow> Dims" where
  "dyn_dims dmap pmap itd =
     (let bd = the (dmap (fst itd)) in
      \<lparr>dimName = bdName bd, dimVendor = bdVendor bd, dimHardwareModel = bdHardwareModel bd, dimSoftwareVersion = bdSoftwareVersion bd,
       dimPorts = fold (\<lambda>(j, tp) m. AList.update (tpId tp) (bound_of (the (pmap (fst itd, j)))) m)
         (List.enumerate 0 (tdPorts (snd itd))) []\<rparr>)"

lemma dyn_devices_solved:
  assumes "\<forall>(i, td)\<in>set ds. dmap i \<noteq> None \<and> (\<forall>j<length (tdPorts td). pmap (i, j) \<noteq> None)"
  shows "dyn_devices mk dmap pmap ds m =
           Inr (fold (\<lambda>itd m. AList.update (tdId (snd itd)) (mk (dyn_dims dmap pmap itd) (the (dmap (fst itd)))) m) ds m)"
  using assms
proof (induction ds arbitrary: m)
  case (Cons itd ds)
  obtain i td where itd: "itd = (i, td)" by (cases itd)
  have "\<forall>(j, tp)\<in>set (List.enumerate 0 (tdPorts td)). pmap (i, j) \<noteq> None"
    using Cons.prems by (auto simp: itd in_set_enumerate_eq)
  then have "dynDims itd (dmap i) pmap = Inr (dyn_dims dmap pmap itd)"
    using Cons.prems by (auto simp: itd dynDims_def dyn_ports_solved dyn_dims_def Let_def)
  then show ?case using Cons by (simp add: itd)
qed simp

text \<open>How a device is bound dynamically: every port to one of the device that the solver chose.\<close>

definition dyn_bound :: "(nat \<Rightarrow> bind_device option) \<Rightarrow> (pref \<Rightarrow> bind_port option) \<Rightarrow> nat \<times> tb_device \<Rightarrow> Dims \<Rightarrow> bind_device \<Rightarrow> bool" where
  "dyn_bound dmap pmap itd d bd \<longleftrightarrow>
     dmap (fst itd) = Some bd \<and> dimName d = bdName bd \<and> dimVendor d = bdVendor bd
     \<and> dimHardwareModel d = bdHardwareModel bd \<and> dimSoftwareVersion d = bdSoftwareVersion bd
     \<and> (\<forall>j<length (tdPorts (snd itd)). \<exists>bp\<in>set (bdPorts bd). pmap (fst itd, j) = Some bp
          \<and> map_of (dimPorts d) (tpId (tdPorts (snd itd) ! j)) = Some (bound_of bp))"

lemma dyn_dims_bound:
  assumes "dmap i = Some bd" "\<forall>j<length (tdPorts td). \<exists>bp\<in>set (bdPorts bd). pmap (i, j) = Some bp" "distinct (map tpId (tdPorts td))"
  shows "dyn_bound dmap pmap (i, td) (dyn_dims dmap pmap (i, td)) bd"
proof -
  have "map_of (dimPorts (dyn_dims dmap pmap (i, td))) (tpId (tdPorts td ! j)) = Some (bound_of (the (pmap (i, j))))"
    if "j < length (tdPorts td)" for j
  proof -
    have "map_of (rev (map (\<lambda>x. (tpId (snd x), bound_of (the (pmap (i, fst x))))) (List.enumerate 0 (tdPorts td)))) (tpId (tdPorts td ! j))
        = Some (bound_of (the (pmap (i, j))))"
      using that assms(3)
      by (intro map_of_is_SomeI) (auto simp: comp_def map_snd_enum in_set_enumerate_eq image_iff intro!: bexI [of _ "(j, tdPorts td ! j)"] simp flip: rev_map)
    then show ?thesis
      using lookup_fold_update [of "\<lambda>x. tpId (snd x)" "\<lambda>x. bound_of (the (pmap (i, fst x)))" "List.enumerate 0 (tdPorts td)" "[]"]
      by (simp add: dyn_dims_def Let_def case_prod_beta')
  qed
  then show ?thesis using assms(1,2) by (fastforce simp: dyn_bound_def dyn_dims_def Let_def)
qed

lemma dyn_fold_lookup:
  assumes "(i, td) \<in> set (List.enumerate n tds)" "distinct (map tdId tds)"
  shows "map_of (fold (\<lambda>itd m. AList.update (tdId (snd itd)) (g itd) m) (List.enumerate n tds) []) (tdId td) = Some (g (i, td))"
proof -
  have "map_of (rev (map (\<lambda>x. (tdId (snd x), g x)) (List.enumerate n tds))) (tdId td) = Some (g (i, td))"
    using assms by (intro map_of_is_SomeI) (auto simp: comp_def map_snd_enum image_iff intro!: bexI [of _ "(i, td)"] simp flip: rev_map)
  then show ?thesis by (simp add: lookup_fold_update)
qed

lemma dynamic_reservation_solved:
  assumes "rDynamic r" "TestbedToAbstractGraph pg tb = Some (ag, nd, pd)" "protoToConcreteGraph pg r = Inr cg"
    "Solve pg ag cg = Some (n2n, p2p)" "solved tb (tbDev2BindDev r nd n2n) (tbPort2BindPort r pd p2p)"
  shows "reservation pg tb r = Inr \<lparr>resvID = [],
      DUTs = fold (\<lambda>itd m. AList.update (tdId (snd itd)) (mk_dut (dyn_dims (tbDev2BindDev r nd n2n) (tbPort2BindPort r pd p2p) itd)
               (the (tbDev2BindDev r nd n2n (fst itd)))) m) (List.enumerate 0 (tbDuts tb)) [],
      ATEs = fold (\<lambda>itd m. AList.update (tdId (snd itd)) (mk_ate (dyn_dims (tbDev2BindDev r nd n2n) (tbPort2BindPort r pd p2p) itd)
               (the (tbDev2BindDev r nd n2n (fst itd)))) m) (List.enumerate (length (tbDuts tb)) (tbAtes tb)) []\<rparr>"
proof -
  have "\<forall>(i, td)\<in>set (List.enumerate 0 (tbDuts tb)) \<union> set (List.enumerate (length (tbDuts tb)) (tbAtes tb)).
      tbDev2BindDev r nd n2n i \<noteq> None \<and> (\<forall>j<length (tdPorts td). tbPort2BindPort r pd p2p (i, j) \<noteq> None)"
    using assms(5) unfolding solved_def enumerate_append_eq by (fastforce simp: ball_Un)
  then show ?thesis
    using assms(1-4)
    by (simp add: reservation_def dynamicReservation_def assignmentToReservation_def dyn_devices_solved ball_Un Let_def)
qed

text \<open>What \<^verbatim>\<open>portgraph\<close> promises. The abstract graph has one node for each device of the test bed, duts first, and one port for each port, which belongs to the node of
  its device. A solution assigns every node of the abstract graph a node of the concrete graph of the same role, no two the same, and every port a port of the
  node that is assigned to its own node.\<close>

record ('an, 'ap) abstract_graph =
  ag_nodes :: "'an set"
  ag_ports :: "'ap set"
  ag_node_of :: "'ap \<Rightarrow> 'an"

definition tb_devices :: "testbed \<Rightarrow> tb_device list" where "tb_devices tb = tbDuts tb @ tbAtes tb"

definition graph_of_testbed :: "testbed \<Rightarrow> ('an, 'ap) abstract_graph \<Rightarrow> ('an \<Rightarrow> nat) \<Rightarrow> ('ap \<Rightarrow> pref) \<Rightarrow> bool" where
  "graph_of_testbed tb g nd pd \<longleftrightarrow>
     bij_betw nd (ag_nodes g) {..<length (tb_devices tb)}
     \<and> bij_betw pd (ag_ports g) {(i, j). i < length (tb_devices tb) \<and> j < length (tdPorts (tb_devices tb ! i))}
     \<and> (\<forall>x\<in>ag_ports g. ag_node_of g x \<in> ag_nodes g \<and> nd (ag_node_of g x) = fst (pd x))"

definition solution ::
  "('ag, 'an, 'ap) portgraph \<Rightarrow> testbed \<Rightarrow> ('an, 'ap) abstract_graph \<Rightarrow> ('an \<Rightarrow> nat) \<Rightarrow> concrete_graph \<Rightarrow> ('an \<times> nat) list \<Rightarrow> ('ap \<times> pref) list \<Rightarrow> bool" where
  "solution pg tb g nd cg n2n p2p \<longleftrightarrow>
     distinct (map fst n2n) \<and> fst ` set n2n = ag_nodes g \<and> distinct (map snd n2n)
     \<and> (\<forall>(a, c)\<in>set n2n. c < length (cgNodes cg)
          \<and> map_of (cnAttrs (cgNodes cg ! c)) (RoleAttr pg) = Some (if nd a < length (tbDuts tb) then RoleDUT pg else RoleATE pg))
     \<and> distinct (map fst p2p) \<and> fst ` set p2p = ag_ports g
     \<and> (\<forall>(x, c, k)\<in>set p2p. (ag_node_of g x, c) \<in> set n2n \<and> k < length (cnPorts (cgNodes cg ! c)))"

text \<open>The concrete graph has one node for each device of the binding file, with its ports and its role.\<close>

definition bind_devices :: "resolver \<Rightarrow> bind_device list" where "bind_devices r = rDuts r @ rAtes r"

definition role_attr_own :: "('ag, 'an, 'ap) portgraph \<Rightarrow> bool" where
  "role_attr_own pg \<longleftrightarrow> RoleAttr pg \<notin> {NameAttr pg, HWAttr pg, SWAttr pg} \<and> RoleDUT pg \<noteq> RoleATE pg"

lemma addDevice_role: "role_attr_own pg \<Longrightarrow> map_of (cnAttrs (addDevice pg role dev)) (RoleAttr pg) = Some role"
  by (auto simp: addDevice_def role_attr_own_def attr_if_def update_conv')

lemma addDevice_ports: "length (cnPorts (addDevice pg role dev)) = length (bdPorts dev)"
  by (simp add: addDevice_def)

lemma concrete_nodes:
  assumes "protoToConcreteGraph pg r = Inr cg" and "c < length (cgNodes cg)"
  shows "length (cgNodes cg) = length (bind_devices r)" and "length (cnPorts (cgNodes cg ! c)) = length (bdPorts (bind_devices r ! c))"
    and "role_attr_own pg \<Longrightarrow> map_of (cnAttrs (cgNodes cg ! c)) (RoleAttr pg) = Some (if c < length (rDuts r) then RoleDUT pg else RoleATE pg)"
proof -
  have cg: "cgNodes cg = map (addDevice pg (RoleDUT pg)) (rDuts r) @ map (addDevice pg (RoleATE pg)) (rAtes r)"
    using assms(1) by (auto simp: protoToConcreteGraph_def bind_res_Inr_iff)
  show "length (cgNodes cg) = length (bind_devices r)" by (simp add: cg bind_devices_def)
  show "length (cnPorts (cgNodes cg ! c)) = length (bdPorts (bind_devices r ! c))"
    using assms(2) by (auto simp: cg bind_devices_def nth_append addDevice_ports)
  show "role_attr_own pg \<Longrightarrow> map_of (cnAttrs (cgNodes cg ! c)) (RoleAttr pg) = Some (if c < length (rDuts r) then RoleDUT pg else RoleATE pg)"
    using assms(2) by (auto simp: cg nth_append addDevice_role)
qed

text \<open>The maps of the code give what is assigned.\<close>

lemma map_of_renamed:
  assumes "(a, c) \<in> set al" "distinct (map fst al)" "inj_on f (fst ` set al)"
  shows "map_of (rev (map (\<lambda>(a, c). (f a, c)) al)) (f a) = Some c"
proof (rule map_of_is_SomeI)
  have "map (\<lambda>x. fst (case x of (a, c) \<Rightarrow> (f a, c))) al = map f (map fst al)" by auto
  then have "distinct (map fst (map (\<lambda>(a, c). (f a, c)) al))" using assms(2,3) by (simp add: comp_def distinct_map inj_on_def image_iff) 
  then show "distinct (map fst (rev (map (\<lambda>(a, c). (f a, c)) al)))" by (simp flip: rev_map)
  show "(f a, c) \<in> set (rev (map (\<lambda>(a, c). (f a, c)) al))" using assms(1) by force
qed

lemma assigned_device:
  assumes g: "graph_of_testbed tb g nd pd" and s: "solution pg tb g nd cg n2n p2p" and cg: "protoToConcreteGraph pg r = Inr cg" and "(a, c) \<in> set n2n"
  shows "tbDev2BindDev r nd n2n (nd a) = Some (bind_devices r ! c)" and "c < length (bind_devices r)"
proof -
  have "inj_on nd (fst ` set n2n)" using g s by (auto simp: graph_of_testbed_def solution_def bij_betw_def)
  then have m: "map_of (rev (map (\<lambda>(a, c). (nd a, c)) n2n)) (nd a) = Some c" using s assms(4) by (intro map_of_renamed) (auto simp: solution_def)
  show l: "c < length (bind_devices r)" using s assms(4) concrete_nodes(1) [OF cg] by (fastforce simp: solution_def)
  then show "tbDev2BindDev r nd n2n (nd a) = Some (bind_devices r ! c)" by (simp add: tbDev2BindDev_def m node_device_def nth_opt_def bind_devices_def)
qed

lemma assigned_port:
  assumes g: "graph_of_testbed tb g nd pd" and s: "solution pg tb g nd cg n2n p2p" and cg: "protoToConcreteGraph pg r = Inr cg" and x: "(x, c, k) \<in> set p2p"
  shows "tbPort2BindPort r pd p2p (pd x) = Some (bdPorts (bind_devices r ! c) ! k)" and "k < length (bdPorts (bind_devices r ! c))"
proof -
  have "inj_on pd (fst ` set p2p)" using g s by (auto simp: graph_of_testbed_def solution_def bij_betw_def)
  then have m: "map_of (rev (map (\<lambda>(a, c). (pd a, c)) p2p)) (pd x) = Some (c, k)" using s x by (intro map_of_renamed) (auto simp: solution_def)
  have a: "(ag_node_of g x, c) \<in> set n2n" and k: "k < length (cnPorts (cgNodes cg ! c))" using s x by (auto simp: solution_def)
  then have c: "c < length (cgNodes cg)" using s by (auto simp: solution_def)
  then show kl: "k < length (bdPorts (bind_devices r ! c))" using k concrete_nodes(2) [OF cg c] by simp
  have "c < length (bind_devices r)" using assigned_device(2) [OF g s cg a] .
  then show "tbPort2BindPort r pd p2p (pd x) = Some (bdPorts (bind_devices r ! c) ! k)"
    using kl by (simp add: tbPort2BindPort_def m graph_port_def node_device_def nth_opt_def bind_devices_def)
qed


text \<open>The reservation of the device at position \<open>i\<close> of the test bed, by the assignment.\<close>

definition bound_as :: "resolver \<Rightarrow> ('an \<Rightarrow> nat) \<Rightarrow> ('ap \<Rightarrow> pref) \<Rightarrow> ('an \<times> nat) list \<Rightarrow> ('ap \<times> pref) list \<Rightarrow> nat \<Rightarrow> tb_device \<Rightarrow> Dims \<Rightarrow> bind_device \<Rightarrow> bool" where
  "bound_as r nd pd n2n p2p i td d bd \<longleftrightarrow>
     (\<exists>a c. (a, c) \<in> set n2n \<and> nd a = i \<and> c < length (bind_devices r) \<and> bd = bind_devices r ! c
        \<and> dimName d = bdName bd \<and> dimVendor d = bdVendor bd \<and> dimHardwareModel d = bdHardwareModel bd \<and> dimSoftwareVersion d = bdSoftwareVersion bd
        \<and> (\<forall>j<length (tdPorts td). \<exists>x k. (x, c, k) \<in> set p2p \<and> pd x = (i, j) \<and> k < length (bdPorts bd)
             \<and> map_of (dimPorts d) (tpId (tdPorts td ! j)) = Some (bound_of (bdPorts bd ! k))))"

lemma assigned_ports:
  assumes g: "graph_of_testbed tb g nd pd" and s: "solution pg tb g nd cg n2n p2p" and a: "(a, c) \<in> set n2n"
    and j: "j < length (tdPorts (tb_devices tb ! nd a))"
  shows "\<exists>x k. (x, c, k) \<in> set p2p \<and> pd x = (nd a, j)"
proof -
  have "fst ` set n2n = ag_nodes g" using s by (simp add: solution_def)
  then have "a \<in> ag_nodes g" using a by force
  then have "nd a < length (tb_devices tb)" using g by (auto simp: graph_of_testbed_def bij_betw_def)
  then have "(nd a, j) \<in> pd ` ag_ports g" using g j by (auto simp: graph_of_testbed_def bij_betw_def)
  then obtain x where x: "x \<in> ag_ports g" "pd x = (nd a, j)" by auto
  then have "x \<in> fst ` set p2p" using s by (simp add: solution_def)
  then obtain c' k where p: "(x, c', k) \<in> set p2p" by auto
  then have a': "(ag_node_of g x, c') \<in> set n2n" using s by (auto simp: solution_def)
  have "nd (ag_node_of g x) = nd a" "ag_node_of g x \<in> ag_nodes g" using g x by (auto simp: graph_of_testbed_def)
  then have "ag_node_of g x = a" using g \<open>a \<in> ag_nodes g\<close> by (auto simp: graph_of_testbed_def bij_betw_def inj_on_def)
  then have "c' = c" using a a' s by (auto simp: solution_def dest: eq_key_imp_eq_value)
  then show ?thesis using p x(2) by blast
qed

lemma assigned_role:
  assumes "role_attr_own pg" and s: "solution pg tb g nd cg n2n p2p" and cg: "protoToConcreteGraph pg r = Inr cg" and a: "(a, c) \<in> set n2n"
  shows "nd a < length (tbDuts tb) \<longleftrightarrow> c < length (rDuts r)"
proof -
  have "c < length (cgNodes cg)" "map_of (cnAttrs (cgNodes cg ! c)) (RoleAttr pg) = Some (if nd a < length (tbDuts tb) then RoleDUT pg else RoleATE pg)"
    using s a by (auto simp: solution_def)
  then show ?thesis using concrete_nodes(3) [OF cg _ assms(1), of c] assms(1) by (auto simp: role_attr_own_def split: if_splits)
qed

lemma solution_bound:
  assumes g: "graph_of_testbed tb g nd pd" and s: "solution pg tb g nd cg n2n p2p" and cg: "protoToConcreteGraph pg r = Inr cg"
    and i: "i < length (tb_devices tb)" and dist: "distinct (map tpId (tdPorts (tb_devices tb ! i)))"
  shows "\<exists>bd. tbDev2BindDev r nd n2n i = Some bd \<and> (\<forall>j<length (tdPorts (tb_devices tb ! i)). \<exists>bp\<in>set (bdPorts bd). tbPort2BindPort r pd p2p (i, j) = Some bp)
     \<and> bound_as r nd pd n2n p2p i (tb_devices tb ! i) (dyn_dims (tbDev2BindDev r nd n2n) (tbPort2BindPort r pd p2p) (i, tb_devices tb ! i)) bd"
proof -
  let ?dmap = "tbDev2BindDev r nd n2n" and ?pmap = "tbPort2BindPort r pd p2p" and ?td = "tb_devices tb ! i"
  have "i \<in> nd ` ag_nodes g" using g i by (auto simp: graph_of_testbed_def bij_betw_def)
  then obtain a where "a \<in> ag_nodes g" "nd a = i" by auto
  then have "a \<in> fst ` set n2n" using s by (simp add: solution_def)
  then obtain c where a: "(a, c) \<in> set n2n" "nd a = i" using \<open>nd a = i\<close> by auto
  let ?bd = "bind_devices r ! c"
  have dev: "?dmap i = Some ?bd" "c < length (bind_devices r)" using assigned_device [OF g s cg a(1)] a(2) by auto
  have port: "\<exists>x k. (x, c, k) \<in> set p2p \<and> pd x = (i, j) \<and> k < length (bdPorts ?bd) \<and> ?pmap (i, j) = Some (bdPorts ?bd ! k)"
    if j: "j < length (tdPorts ?td)" for j
  proof -
    obtain x k where x: "(x, c, k) \<in> set p2p" "pd x = (i, j)" using assigned_ports [OF g s a(1), of j] j a(2) by auto
    then show ?thesis using assigned_port [OF g s cg x(1)] by auto
  qed
  then have ports: "\<forall>j<length (tdPorts ?td). \<exists>bp\<in>set (bdPorts ?bd). ?pmap (i, j) = Some bp" by (meson nth_mem)
  have b: "dyn_bound ?dmap ?pmap (i, ?td) (dyn_dims ?dmap ?pmap (i, ?td)) ?bd" using dev(1) ports dist by (rule dyn_dims_bound)
  have "bound_as r nd pd n2n p2p i ?td (dyn_dims ?dmap ?pmap (i, ?td)) ?bd"
    unfolding bound_as_def
  proof (rule exI [of _ a], rule exI [of _ c], intro conjI allI impI)
    fix j assume j: "j < length (tdPorts ?td)"
    from port [OF j] obtain x k where x: "(x, c, k) \<in> set p2p \<and> pd x = (i, j) \<and> k < length (bdPorts ?bd)" "?pmap (i, j) = Some (bdPorts ?bd ! k)" by blast
    then have "map_of (dimPorts (dyn_dims ?dmap ?pmap (i, ?td))) (tpId (tdPorts ?td ! j)) = Some (bound_of (bdPorts ?bd ! k))"
      using b j by (auto simp: dyn_bound_def)
    then show "\<exists>x k. (x, c, k) \<in> set p2p \<and> pd x = (i, j) \<and> k < length (bdPorts ?bd)
       \<and> map_of (dimPorts (dyn_dims ?dmap ?pmap (i, ?td))) (tpId (tdPorts ?td ! j)) = Some (bound_of (bdPorts ?bd ! k))" using x(1) by blast
  qed (use a dev(2) b in \<open>simp_all add: dyn_bound_def\<close>)
  then show ?thesis using dev(1) ports by blast
qed


text \<open>C37: When the port graph has a solution, a dynamic reservation succeeds and reserves exactly the devices of the test bed: each as the device of the binding file
  whose node the solver assigned to its node, devices under test as such and traffic generators as such, and every port as the port of that device that the solver
  assigned to it.\<close>

theorem dynamic_reservation_binds:
  assumes "rDynamic r" "testbed_ids tb" "role_attr_own pg"
    and "TestbedToAbstractGraph pg tb = Some (ag, nd, pd)" "graph_of_testbed tb g nd pd"
    and "protoToConcreteGraph pg r = Inr cg" "Solve pg ag cg = Some (n2n, p2p)" "solution pg tb g nd cg n2n p2p"
  shows "\<exists>rv. reservation pg tb r = Inr rv
     \<and> (\<forall>i<length (tbDuts tb). \<exists>d. map_of (DUTs rv) (tdId (tbDuts tb ! i)) = Some d
          \<and> bound_as r nd pd n2n p2p i (tbDuts tb ! i) (dut_dims d) (dut_dev d) \<and> dut_dev d \<in> set (rDuts r))
     \<and> (\<forall>i<length (tbAtes tb). \<exists>a. map_of (ATEs rv) (tdId (tbAtes tb ! i)) = Some a
          \<and> bound_as r nd pd n2n p2p (length (tbDuts tb) + i) (tbAtes tb ! i) (ate_dims a) (ate_dev a) \<and> ate_dev a \<in> set (rAtes r))
     \<and> fst ` set (DUTs rv) = tdId ` set (tbDuts tb) \<and> fst ` set (ATEs rv) = tdId ` set (tbAtes tb)"
proof -
  let ?dmap = "tbDev2BindDev r nd n2n" and ?pmap = "tbPort2BindPort r pd p2p"
  have ids: "distinct (map tpId (tdPorts (tb_devices tb ! i)))" if "i < length (tb_devices tb)" for i
    using assms(2) nth_mem [OF that] by (auto simp: testbed_ids_def tb_devices_def)
  note bound = solution_bound [OF assms(5,8,6) _ ids]
  have sol: "solved tb ?dmap ?pmap"
    unfolding solved_def using bound by (fastforce simp: in_set_enumerate_eq tb_devices_def)
  have the_dev: "bound_as r nd pd n2n p2p i (tb_devices tb ! i) (dyn_dims ?dmap ?pmap (i, tb_devices tb ! i)) (the (?dmap i))"
    if "i < length (tb_devices tb)" for i using bound [OF that that] by auto
  have role: "the (?dmap i) \<in> set (if i < length (tbDuts tb) then rDuts r else rAtes r)" if "i < length (tb_devices tb)" for i
  proof -
    from the_dev [OF that] obtain a c where a: "(a, c) \<in> set n2n" "nd a = i" "c < length (bind_devices r)" "the (?dmap i) = bind_devices r ! c"
      by (auto simp: bound_as_def)
    then show ?thesis using assigned_role [OF assms(3,8,6) a(1)] by (auto simp: bind_devices_def nth_append)
  qed
  have duts: "map_of (fold (\<lambda>itd m. AList.update (tdId (snd itd)) (h itd) m) (List.enumerate 0 (tbDuts tb)) []) (tdId (tbDuts tb ! i)) = Some (h (i, tbDuts tb ! i))"
    if "i < length (tbDuts tb)" for i and h :: "nat \<times> tb_device \<Rightarrow> _"
    using that assms(2) by (intro dyn_fold_lookup) (auto simp: in_set_enumerate_eq testbed_ids_def)
  have ates: "map_of (fold (\<lambda>itd m. AList.update (tdId (snd itd)) (h itd) m) (List.enumerate (length (tbDuts tb)) (tbAtes tb)) []) (tdId (tbAtes tb ! i))
      = Some (h (length (tbDuts tb) + i, tbAtes tb ! i))"
    if "i < length (tbAtes tb)" for i and h :: "nat \<times> tb_device \<Rightarrow> _"
    using that assms(2) by (intro dyn_fold_lookup) (auto simp: in_set_enumerate_eq testbed_ids_def)
  have keys: "(\<lambda>x. tdId (snd x)) ` set (List.enumerate n tds) = tdId ` set tds" for n tds
    using arg_cong [OF map_snd_enum [of tdId n tds], of set] by simp
  have dut: "bound_as r nd pd n2n p2p i (tbDuts tb ! i) (dyn_dims ?dmap ?pmap (i, tbDuts tb ! i)) (the (?dmap i)) \<and> the (?dmap i) \<in> set (rDuts r)"
    if "i < length (tbDuts tb)" for i using that the_dev [of i] role [of i] by (simp add: tb_devices_def nth_append)
  have ate: "bound_as r nd pd n2n p2p (length (tbDuts tb) + i) (tbAtes tb ! i) (dyn_dims ?dmap ?pmap (length (tbDuts tb) + i, tbAtes tb ! i)) (the (?dmap (length (tbDuts tb) + i)))
      \<and> the (?dmap (length (tbDuts tb) + i)) \<in> set (rAtes r)"
    if "i < length (tbAtes tb)" for i using that the_dev [of "length (tbDuts tb) + i"] role [of "length (tbDuts tb) + i"] by (simp add: tb_devices_def nth_append)
  show ?thesis
    unfolding dynamic_reservation_solved [OF assms(1,4,6,7) sol]
    by (simp add: keys_fold_update keys duts ates dut ate mk_dut_def mk_ate_def)
qed


theorem dynamic_reservation_binds_witness:
  "\<exists>rv d bp. reservation ex_portgraph (ex_testbed\<lparr>tbAtes := []\<rparr>) (ex_resolver\<lparr>rDynamic := True, rAtes := []\<rparr>) = Inr rv
     \<and> map_of (DUTs rv) ''dut'' = Some d \<and> dimName (dut_dims d) = ''host1''
     \<and> map_of (dimPorts (dut_dims d)) ''port1'' = Some bp \<and> portName bp = ''Ethernet1''"
proof -
  let ?r = "ex_resolver\<lparr>rDynamic := True, rAtes := []\<rparr>" and ?tb = "ex_testbed\<lparr>tbAtes := []\<rparr>"
  let ?g = "\<lparr>ag_nodes = {()}, ag_ports = {0 :: nat}, ag_node_of = \<lambda>_. ()\<rparr>"
  obtain cg where cg: "protoToConcreteGraph ex_portgraph ?r = Inr cg" "Solve ex_portgraph () cg = Some ([((), 0)], [(0, (0, 0))])"
    and sol: "solution ex_portgraph ?tb ?g (\<lambda>_. 0) cg [((), 0)] [(0, (0, 0))]"
    by (simp add: protoToConcreteGraph_def ex_portgraph_def addDevice_def ex_binding_defs solution_def attr_if_def)
  have pre: "rDynamic ?r" "testbed_ids ?tb" "role_attr_own ex_portgraph" "TestbedToAbstractGraph ex_portgraph ?tb = Some ((), \<lambda>_. 0, \<lambda>j. (0, j))"
    by (simp_all add: testbed_ids_def ex_testbed_def ex_portgraph_def role_attr_own_def)
  have gr: "graph_of_testbed ?tb ?g (\<lambda>_. 0) (\<lambda>j. (0, j))"
    by (auto simp: graph_of_testbed_def tb_devices_def ex_testbed_def bij_betw_def)
  obtain rv where rv: "reservation ex_portgraph ?tb ?r = Inr rv"
    and "\<forall>i<length (tbDuts ?tb). \<exists>d. map_of (DUTs rv) (tdId (tbDuts ?tb ! i)) = Some d
          \<and> bound_as ?r (\<lambda>_. 0) (\<lambda>j. (0, j)) [((), 0)] [(0, (0, 0))] i (tbDuts ?tb ! i) (dut_dims d) (dut_dev d) \<and> dut_dev d \<in> set (rDuts ?r)"
    using dynamic_reservation_binds [OF pre gr cg sol] by (elim exE conjE) (rule that)
  then obtain d where "map_of (DUTs rv) ''dut'' = Some d"
    "bound_as ?r (\<lambda>_. 0) (\<lambda>j. (0, j)) [((), 0)] [(0 :: nat, (0, 0))] 0 (hd (tbDuts ex_testbed)) (dut_dims d) (dut_dev d)"
    by (auto simp: ex_testbed_def)
  then show ?thesis using rv by (auto simp: bound_as_def bound_of_def bind_devices_def ex_binding_defs)
qed

end
