(* ===== verification/Readme_Spec.thy ===== *)
theory Readme_Spec
  imports FP_Prelude "HOL-Library.AList" "HOL-Library.List_Lexorder" "HOL-Library.Char_ord"
begin

text \<open>
  The checks of the coverage section of test READMEs: the block of a Markdown document
  (\<^verbatim>\<open>tools/internal/mdocspec/md.go\<close>), the paths and RPCs it lists (\<^verbatim>\<open>ocspec.go\<close>), the validation of both
  (\<^verbatim>\<open>tools/internal/ocpaths/ocpaths.go\<close>, \<^verbatim>\<open>tools/internal/ocrpcs\<close>) and the command that runs them
  (\<^verbatim>\<open>tools/validate_readme_spec\<close>).

  A Markdown document is the sequence of nodes that the walk over its syntax tree enters, each with its next siblings; a YAML
  document is the nested map it decodes to; the parsers and the walk are third-party packages. Go maps are association lists with distinct keys, in the order the runtime iterates them. The lookup of a
  path in the YANG schema, the names of components and the RPCs of a repository are parameters. Strings are
  ordered bytewise, as in Go. Downloading repositories and reading files are not modelled.
\<close>

section \<open>\<^verbatim>\<open>md.go\<close>\<close>

definition OCSpecHeading :: string where "OCSpecHeading = ''OpenConfig Path and RPC Coverage''"
definition CanonicalOCHeading :: string where "CanonicalOCHeading = ''Canonical OC''"

text \<open>A heading with its level and first line, if it has one; a fenced code block with its language, if it has one, and its
  lines.\<close>

datatype md_kind = Heading nat "string option" | FencedCodeBlock "string option" "string list" | OtherNode

type_synonym md_doc = "(md_kind \<times> md_kind list) list"

definition fetchHeading :: "md_kind \<Rightarrow> string \<Rightarrow> nat option" where
  "fetchHeading k specHeading =
     (case k of Heading level l \<Rightarrow> if l = Some specHeading then Some level else None | _ \<Rightarrow> None)"

definition codeBlock :: "md_kind \<Rightarrow> string \<Rightarrow> string list option" where
  "codeBlock k lang =
     (case k of FencedCodeBlock l ls \<Rightarrow> if l = Some lang \<and> lang \<noteq> [] then Some ls else None | _ \<Rightarrow> None)"

definition end_of_section :: "nat \<Rightarrow> md_kind \<Rightarrow> bool" where
  "end_of_section level k = (case k of Heading l _ \<Rightarrow> l \<le> level | _ \<Rightarrow> False)"

text \<open>The loop over the next siblings of a heading.\<close>

fun section_block :: "nat \<Rightarrow> string \<Rightarrow> md_kind list \<Rightarrow> string list option" where
  "section_block level lang [] = None"
| "section_block level lang (n # rest) =
     (if end_of_section level n then None
      else case codeBlock n lang of Some c \<Rightarrow> Some c | None \<Rightarrow> section_block level lang rest)"

text \<open>A handler gets the lines of a block and the output so far, and says whether the walk stops.\<close>

type_synonym 'o handler = "string list \<Rightarrow> 'o \<Rightarrow> 'o \<times> bool"

definition processYAMLBlock :: "string handler" where
  "processYAMLBlock ls out = (out @ concat ls, True)"

definition processJSONBlock :: "string list handler" where
  "processJSONBlock ls ocs = (if concat ls \<noteq> [] then ocs @ [concat ls] else ocs, False)"

definition renderCodeBlock :: "string \<Rightarrow> string \<Rightarrow> 'o handler \<Rightarrow> md_kind \<Rightarrow> md_kind list \<Rightarrow> 'o \<Rightarrow> 'o \<times> bool" where
  "renderCodeBlock specHeading lang h n siblings out =
     (case fetchHeading n specHeading of
        None \<Rightarrow> (out, False)
      | Some level \<Rightarrow> (case section_block level lang siblings of None \<Rightarrow> (out, False) | Some c \<Rightarrow> h c out))"

text \<open>The callback of the walk, on the nodes as they are entered, until it stops the walk.\<close>

fun walk :: "string \<Rightarrow> string \<Rightarrow> 'o handler \<Rightarrow> md_doc \<Rightarrow> 'o \<Rightarrow> 'o \<times> bool" where
  "walk specHeading lang h [] out = (out, False)"
| "walk specHeading lang h ((n, siblings) # rest) out =
     (case renderCodeBlock specHeading lang h n siblings out of
        (out1, True) \<Rightarrow> (out1, True)
      | (out1, False) \<Rightarrow> walk specHeading lang h rest out1)"

definition yaml_Render :: "md_doc \<Rightarrow> string" where
  "yaml_Render doc = fst (walk OCSpecHeading ''yaml'' processYAMLBlock doc [])"

definition json_Render :: "md_doc \<Rightarrow> string list" where
  "json_Render doc = fst (walk CanonicalOCHeading ''json'' processJSONBlock doc [])"


section \<open>\<^verbatim>\<open>ocspec.go\<close>\<close>

datatype yval = YString string | YList "yval list" | YOther

type_synonym yaml_doc = "(string \<times> (string \<times> (string \<times> yval) list) list) list"

record OCPath_proto =
  op_Name :: string
  op_PlatformType :: "string option"
  op_Featureprofileid :: string

datatype spec_err =
    NotFoundErr
  | BadYAML
  | TypesNotList string
  | TypesEmpty string
  | TypeNotString string nat
  | TypeDuplicate string string nat
  | BadProperty string string
  | NoRPCs
  | NoMethods

fun platform_types :: "string \<Rightarrow> nat \<Rightarrow> yval list \<Rightarrow> string list \<Rightarrow> (spec_err, string list) res" where
  "platform_types name i [] types = Inr types"
| "platform_types name i (p # ps) types =
     (case p of
        YString sp \<Rightarrow>
          (if sp \<in> set types then Inl (TypeDuplicate name sp i) else platform_types name (Suc i) ps (types @ [sp]))
      | _ \<Rightarrow> Inl (TypeNotString name i))"

fun path_properties :: "string \<Rightarrow> (string \<times> yval) list \<Rightarrow> string list \<Rightarrow> (spec_err, string list) res" where
  "path_properties name [] types = Inr types"
| "path_properties name ((propertyName, property) # props) types =
     (if propertyName = ''platform_type''
      then (case property of
              YList ps \<Rightarrow>
                (if ps = [] then Inl (TypesEmpty name)
                 else bind_res (platform_types name 0 ps types) (path_properties name props))
            | _ \<Rightarrow> Inl (TypesNotList name))
      else if propertyName = ''value'' \<or> propertyName = ''values'' then path_properties name props types
      else Inl (BadProperty name propertyName))"

definition path_protos :: "string \<Rightarrow> string list \<Rightarrow> OCPath_proto list" where
  "path_protos name types =
     (if types = [] then [\<lparr>op_Name = name, op_PlatformType = None, op_Featureprofileid = []\<rparr>]
      else map (\<lambda>t. \<lparr>op_Name = name, op_PlatformType = Some t, op_Featureprofileid = []\<rparr>) (sort types))"

fun all_paths :: "(string \<times> (string \<times> yval) list) list \<Rightarrow> string list \<Rightarrow> (spec_err, OCPath_proto list) res" where
  "all_paths paths [] = Inr []"
| "all_paths paths (name # names) =
     bind_res (path_properties name (case map_of paths name of None \<Rightarrow> [] | Some ps \<Rightarrow> ps) [])
       (\<lambda>types. bind_res (all_paths paths names) (\<lambda>ps. Inr (path_protos name types @ ps)))"

text \<open>The values under \<^verbatim>\<open>rpcs\<close> are read for their keys only.\<close>

definition parseYAML :: "yaml_doc option \<Rightarrow> (spec_err, OCPath_proto list \<times> (string \<times> string list) list) res" where
  "parseYAML source =
     (case source of
        None \<Rightarrow> Inl BadYAML
      | Some s \<Rightarrow>
          (let paths = (case map_of s ''paths'' of None \<Rightarrow> [] | Some p \<Rightarrow> p) in
           bind_res (all_paths paths (sort (map fst paths)))
             (\<lambda>protoPaths.
                case map_of s ''rpcs'' of
                  None \<Rightarrow> Inl NoRPCs
                | Some rpcs \<Rightarrow>
                    (if list_all (\<lambda>r. snd r = []) rpcs then Inl NoMethods
                     else Inr (protoPaths, map (\<lambda>r. (fst r, map (\<lambda>m. fst r @ ''.'' @ m) (sort (map fst (snd r))))) (sort_key fst rpcs))))))"

definition Parse :: "(string \<Rightarrow> yaml_doc option) \<Rightarrow> md_doc \<Rightarrow> (spec_err, OCPath_proto list \<times> (string \<times> string list) list) res" where
  "Parse unmarshal doc = (if yaml_Render doc = [] then Inl NotFoundErr else parseYAML (unmarshal (yaml_Render doc)))"


section \<open>\<^verbatim>\<open>ocpaths.go\<close>\<close>

datatype entry_kind = LeafEntry | LeafListEntry | DirectoryEntry

datatype entry = Entry (entry_kind: entry_kind) (Dir: "(string \<times> entry) list")

type_synonym ocpath_key = "string \<times> string"

record OCPath =
  Key :: ocpath_key
  FeatureprofileID :: string

datatype path_err =
    NoLeadingSlash string
  | TrailingSlash string
  | PathNotFound string string
  | NotALeaf string
  | UnexpectedComponent string string
  | InvalidComponent string string
  | BadFeatureprofileID string
  | DuplicateEntry ocpath_key
  | SchemaErr

definition componentPrefix :: string where "componentPrefix = ''/components/component''"

text \<open>The regular expression \<^verbatim>\<open>^([a-z0-9]+_)*[a-z0-9]+$\<close>; \<open>b\<close> says whether the current word has a character.\<close>

definition word_char :: "char \<Rightarrow> bool" where
  "word_char c \<longleftrightarrow> CHR ''a'' \<le> c \<and> c \<le> CHR ''z'' \<or> CHR ''0'' \<le> c \<and> c \<le> CHR ''9''"

fun fpid_match :: "bool \<Rightarrow> string \<Rightarrow> bool" where
  "fpid_match b [] = b"
| "fpid_match b (c # cs) = (if word_char c then fpid_match True cs else b \<and> c = CHR ''_'' \<and> fpid_match False cs)"

definition featureprofileIDMatcher :: "string \<Rightarrow> bool" where
  "featureprofileIDMatcher s = fpid_match False s"

fun remaining_path :: "entry \<Rightarrow> string list \<Rightarrow> string" where
  "remaining_path e [] = []"
| "remaining_path e (ele # eles) =
     (case map_of (Dir e) ele of None \<Rightarrow> str_join ''/'' (ele # eles) | Some next \<Rightarrow> remaining_path next eles)"

definition validatePath :: "(entry \<Rightarrow> string \<Rightarrow> entry option) \<Rightarrow> string list \<Rightarrow> entry \<Rightarrow> OCPath \<Rightarrow> (path_err, unit) res" where
  "validatePath fnd cnames root ocpath =
     (let path = fst (Key ocpath); component = snd (Key ocpath) in
      if \<not> hasPrefix path ''/'' then Inl (NoLeadingSlash path)
      else if hasSuffix path ''/'' then Inl (TrailingSlash path)
      else case fnd root path of
          None \<Rightarrow> Inl (PathNotFound path (remaining_path root (tl (str_split (CHR ''/'') path))))
        | Some e \<Rightarrow>
            (if entry_kind e \<noteq> LeafEntry \<and> entry_kind e \<noteq> LeafListEntry then Inl (NotALeaf path)
             else if \<not> hasPrefix path componentPrefix \<and> component \<noteq> [] then Inl (UnexpectedComponent path component)
             else if hasPrefix path componentPrefix \<and> component \<notin> set cnames then Inl (InvalidComponent path component)
             else if FeatureprofileID ocpath \<noteq> [] \<and> \<not> featureprofileIDMatcher (FeatureprofileID ocpath)
             then Inl (BadFeatureprofileID (FeatureprofileID ocpath))
             else Inr ()))"

definition insert_path :: "(ocpath_key \<times> OCPath) list \<Rightarrow> OCPath \<Rightarrow> (path_err, (ocpath_key \<times> OCPath) list) res" where
  "insert_path dstMap src =
     (if map_of dstMap (Key src) \<noteq> None then Inl (DuplicateEntry (Key src)) else Inr (AList.update (Key src) src dstMap))"

definition convertOCPath :: "OCPath_proto \<Rightarrow> OCPath" where
  "convertOCPath p =
     \<lparr>Key = (op_Name p, case op_PlatformType p of None \<Rightarrow> [] | Some t \<Rightarrow> t), FeatureprofileID = op_Featureprofileid p\<rparr>"

text \<open>The state of the loop: valid paths, invalid paths, errors.\<close>

type_synonym paths_state = "(ocpath_key \<times> OCPath) list \<times> (ocpath_key \<times> OCPath) list \<times> path_err list"

definition validate_step :: "(OCPath \<Rightarrow> (path_err, unit) res) \<Rightarrow> OCPath_proto \<Rightarrow> paths_state \<Rightarrow> paths_state" where
  "validate_step validate proto st =
     (case st of (ocpaths, invalidOCPaths, errs) \<Rightarrow>
        (let ocpath = convertOCPath proto in
         case validate ocpath of
           Inl e \<Rightarrow> (ocpaths, AList.update (Key ocpath) ocpath invalidOCPaths, errs @ [e])
         | Inr _ \<Rightarrow>
             (case insert_path ocpaths ocpath of
                Inl e \<Rightarrow> (ocpaths, invalidOCPaths, errs @ [e])
              | Inr m \<Rightarrow> (m, invalidOCPaths, errs))))"

text \<open>\<^verbatim>\<open>getSchemaFakeroot\<close>: the OpenConfig modules, in the order of the map of modules. When the modules do not parse, the result is
  a nil root without an error.\<close>

definition getSchemaFakeroot :: "string list option \<Rightarrow> (string list \<Rightarrow> (string \<times> entry) list option) \<Rightarrow> (path_err, entry option) res" where
  "getSchemaFakeroot files parse =
     (case files of
        None \<Rightarrow> Inl SchemaErr
      | Some fs \<Rightarrow>
          (case parse fs of
             None \<Rightarrow> Inr None
           | Some mods \<Rightarrow>
               Inr (Some (Entry DirectoryEntry
                 (fold (\<lambda>m d. if hasPrefix (fst m) ''openconfig-'' then fold (\<lambda>c d. AList.update (fst c) (snd c) d) (Dir (snd m)) d else d)
                    mods [])))))"

text \<open>The loop of \<^verbatim>\<open>ValidatePaths\<close>, from the root that \<^verbatim>\<open>getSchemaFakeroot\<close> returns; an empty map stands for nil.\<close>

definition ValidatePaths :: "(entry \<Rightarrow> string \<Rightarrow> entry option) \<Rightarrow> string list \<Rightarrow> entry \<Rightarrow> OCPath_proto list \<Rightarrow> paths_state" where
  "ValidatePaths fnd cnames root protos = fold (validate_step (validatePath fnd cnames root)) protos ([], [], [])"


section \<open>\<^verbatim>\<open>ocrpcs\<close>\<close>

text \<open>The statements of a proto file that the visitor looks at.\<close>

datatype proto_stmt = PackageStmt string | ServiceStmt string "string list" | OtherStmt

record rpcServiceAccumulator =
  packageName :: string
  currentService :: string
  acc_rpcs :: "string list"

definition VisitRPC :: "string \<Rightarrow> rpcServiceAccumulator \<Rightarrow> rpcServiceAccumulator" where
  "VisitRPC r v =
     v\<lparr>acc_rpcs := acc_rpcs v @ [trimPrefix (packageName v) ''openconfig.'' @ ''.'' @ currentService v @ ''.'' @ r]\<rparr>"

fun visit :: "proto_stmt \<Rightarrow> rpcServiceAccumulator \<Rightarrow> rpcServiceAccumulator" where
  "visit (PackageStmt p) v = v\<lparr>packageName := p\<rparr>"
| "visit (ServiceStmt s rs) v = fold VisitRPC rs (v\<lparr>currentService := s\<rparr>)"
| "visit OtherStmt v = v"

definition Read :: "(string \<Rightarrow> proto_stmt list list option) \<Rightarrow> string \<Rightarrow> string list option" where
  "Read protos api =
     map_option
       (\<lambda>fs. concat (map (\<lambda>f. acc_rpcs (fold visit f \<lparr>packageName = [], currentService = [], acc_rpcs = []\<rparr>)) fs))
       (protos api)"

datatype rpc_err = ReadErr string | RPCNotFound string string

definition rpc_step :: "string \<Rightarrow> string list \<Rightarrow> string \<Rightarrow> nat \<times> rpc_err list \<Rightarrow> nat \<times> rpc_err list" where
  "rpc_step api rpcs name st = (if name \<notin> set rpcs then (fst st, snd st @ [RPCNotFound api name]) else (Suc (fst st), snd st))"

fun rpc_loop :: "(string \<Rightarrow> string list option) \<Rightarrow> (string \<times> string list) list \<Rightarrow> nat \<times> rpc_err list \<Rightarrow> nat \<times> rpc_err list" where
  "rpc_loop rd [] st = st"
| "rpc_loop rd ((api, names) # ps) st =
     (case rd api of
        None \<Rightarrow> (0, [ReadErr api])
      | Some rpcs \<Rightarrow> rpc_loop rd ps (fold (rpc_step api rpcs) names st))"

definition ValidateRPCs :: "(string \<Rightarrow> proto_stmt list list option) \<Rightarrow> (string \<times> string list) list \<Rightarrow> nat \<times> rpc_err list" where
  "ValidateRPCs protos protocols = rpc_loop (Read protos) protocols (0, [])"


section \<open>\<^verbatim>\<open>validate_readme_spec\<close>\<close>

text \<open>What the command uses: the YAML decoder, the schema and the protos.\<close>

record readme_env =
  unmarshal :: "string \<Rightarrow> yaml_doc option"
  schema_find :: "entry \<Rightarrow> string \<Rightarrow> entry option"
  schema_root :: entry
  component_names :: "string list"
  api_protos :: "string \<Rightarrow> proto_stmt list list option"

definition readme_ok :: "readme_env \<Rightarrow> md_doc \<Rightarrow> bool" where
  "readme_ok env doc =
     (case Parse (unmarshal env) doc of
        Inl _ \<Rightarrow> False
      | Inr (ocPaths, ocRPCs) \<Rightarrow>
          snd (snd (ValidatePaths (schema_find env) (component_names env) (schema_root env) ocPaths)) = []
          \<and> snd (ValidateRPCs (api_protos env) ocRPCs) = [])"

text \<open>The files with errors, of those that are not exempt; the program fails if there are any.\<close>

definition erredFiles :: "readme_env \<Rightarrow> string list \<Rightarrow> (string \<Rightarrow> md_doc) \<Rightarrow> string list \<Rightarrow> string list" where
  "erredFiles env exempt read files = filter (\<lambda>f. f \<notin> set exempt \<and> \<not> readme_ok env (read f)) files"


section \<open>\<^verbatim>\<open>nosimage/validate\<close>\<close>

record NOSImageProfile =
  SoftwareVersion :: string
  HardwareName :: string
  nos_Ocpaths :: "OCPath_proto list"
  nos_OcProtocols :: "(string \<times> string list) list"

datatype nos_exit = NosOk nat nat | NosMissing string | NosInvalid

text \<open>The outcome for a profile that was read and a schema that was downloaded: the counts of valid paths and RPCs, or a failure.\<close>

definition nosimage_main :: "readme_env \<Rightarrow> NOSImageProfile \<Rightarrow> nos_exit" where
  "nosimage_main env profile =
     (if SoftwareVersion profile = [] then NosMissing ''Software version''
      else if HardwareName profile = [] then NosMissing ''HW name''
      else case ValidatePaths (schema_find env) (component_names env) (schema_root env) (nos_Ocpaths profile) of
             (paths, invalidPaths, perrs) \<Rightarrow>
               (case ValidateRPCs (api_protos env) (nos_OcProtocols profile) of
                  (rpcValidCount, rerrs) \<Rightarrow> (if perrs \<noteq> [] \<or> rerrs \<noteq> [] then NosInvalid else NosOk (length paths) rpcValidCount)))"


section \<open>Blocks of a document\<close>

text \<open>The blocks of a document, in document order: the first block of the language in the section of each heading.\<close>

definition node_blocks :: "string \<Rightarrow> string \<Rightarrow> md_kind \<times> md_kind list \<Rightarrow> string list list" where
  "node_blocks specHeading lang d =
     (case fetchHeading (fst d) specHeading of
        None \<Rightarrow> []
      | Some level \<Rightarrow> (case section_block level lang (snd d) of None \<Rightarrow> [] | Some c \<Rightarrow> [c]))"

definition spec_blocks :: "string \<Rightarrow> string \<Rightarrow> md_doc \<Rightarrow> string list list" where
  "spec_blocks specHeading lang doc = concat (map (node_blocks specHeading lang) doc)"

fun feed :: "'o handler \<Rightarrow> string list list \<Rightarrow> 'o \<Rightarrow> 'o \<times> bool" where
  "feed h [] out = (out, False)"
| "feed h (b # bs) out = (case h b out of (out1, True) \<Rightarrow> (out1, True) | (out1, False) \<Rightarrow> feed h bs out1)"

lemma feed_append:
  "feed h (bs @ cs) out = (case feed h bs out of (out1, True) \<Rightarrow> (out1, True) | (out1, False) \<Rightarrow> feed h cs out1)"
  by (induction h bs out rule: feed.induct) (auto split: prod.split bool.split)

lemma renderCodeBlock_feed: "renderCodeBlock specHeading lang h n siblings out = feed h (node_blocks specHeading lang (n, siblings)) out"
  by (auto simp: renderCodeBlock_def node_blocks_def split: option.split prod.split bool.split)

lemma walk_feed: "walk specHeading lang h doc out = feed h (spec_blocks specHeading lang doc) out"
  by (induction specHeading lang h doc out rule: walk.induct)
    (auto simp: renderCodeBlock_feed spec_blocks_def feed_append split: prod.split bool.split)

lemma feed_json: "feed processJSONBlock bs ocs = (ocs @ filter (\<lambda>b. b \<noteq> []) (map concat bs), False)"
  by (induction bs arbitrary: ocs) (auto simp: processJSONBlock_def)

text \<open>The two renderers work on the same blocks: the coverage section is the first block of the document, the canonical
  configurations are all that are not empty.\<close>

theorem renderers_blocks:
  "yaml_Render doc = (case spec_blocks OCSpecHeading ''yaml'' doc of [] \<Rightarrow> [] | b # _ \<Rightarrow> concat b)
   \<and> json_Render doc = filter (\<lambda>b. b \<noteq> []) (map concat (spec_blocks CanonicalOCHeading ''json'' doc))"
  by (simp add: yaml_Render_def json_Render_def walk_feed feed_json processYAMLBlock_def split: list.split)


section \<open>Validation of paths\<close>

text \<open>The regular expression is: words of lower-case letters and digits, joined by underscores.\<close>

lemma fpid_match_split:
  "fpid_match b s \<longleftrightarrow>
     (case str_split (CHR ''_'') s of
        [] \<Rightarrow> False
      | w # ws \<Rightarrow> list_all word_char w \<and> (b \<or> w \<noteq> []) \<and> list_all (\<lambda>w. w \<noteq> [] \<and> list_all word_char w) ws)"
proof (induction b s rule: fpid_match.induct)
  case (2 b c cs)
  have "\<not> word_char (CHR ''_'')" by (simp add: word_char_def less_eq_char_def)
  then show ?case using 2 by (auto split: list.splits)
qed simp

text \<open>What \<^verbatim>\<open>Find\<close> of the YANG package promises for a path from the root: the entry reached by its elements, each the name of an entry. Elements with dots or with
  the prefix of a module are read as names here.\<close>

fun schema_walk :: "entry \<Rightarrow> string list \<Rightarrow> entry option" where
  "schema_walk e [] = Some e"
| "schema_walk e (x # xs) = (case map_of (Dir e) x of None \<Rightarrow> None | Some e' \<Rightarrow> schema_walk e' xs)"

definition finds :: "(entry \<Rightarrow> string \<Rightarrow> entry option) \<Rightarrow> bool" where
  "finds fnd \<longleftrightarrow> (\<forall>root path. hasPrefix path ''/'' \<longrightarrow> fnd root path = schema_walk root (tl (str_split (CHR ''/'') path)))"

lemma remaining_path_suffix:
  assumes "schema_walk e eles = None"
  shows "\<exists>pre ele post. eles = pre @ ele # post \<and> remaining_path e eles = str_join ''/'' (ele # post)
     \<and> (\<exists>e'. schema_walk e pre = Some e' \<and> map_of (Dir e') ele = None)"
  using assms
proof (induction e eles rule: schema_walk.induct)
  case (2 e x xs)
  show ?case
  proof (cases "map_of (Dir e) x")
    case None
    then have "x # xs = [] @ x # xs \<and> remaining_path e (x # xs) = str_join ''/'' (x # xs) \<and> schema_walk e [] = Some e" by simp
    then show ?thesis using None by blast
  next
    case (Some e')
    then obtain pre ele post where "xs = pre @ ele # post" "remaining_path e' xs = str_join ''/'' (ele # post)"
      "\<exists>e''. schema_walk e' pre = Some e'' \<and> map_of (Dir e'') ele = None"
      using 2 by auto
    then have "x # xs = (x # pre) @ ele # post \<and> remaining_path e (x # xs) = str_join ''/'' (ele # post)
        \<and> (\<exists>e''. schema_walk e (x # pre) = Some e'' \<and> map_of (Dir e'') ele = None)"
      using Some by simp
    then show ?thesis by blast
  qed
qed simp


text \<open>A valid path names a leaf of the schema; it has a component exactly when it is a path of components, and then a known one; its profile
  id, if any, is a sequence of words.\<close>

definition valid_ocpath :: "string list \<Rightarrow> entry \<Rightarrow> OCPath \<Rightarrow> bool" where
  "valid_ocpath cnames root c \<longleftrightarrow>
     hasPrefix (fst (Key c)) ''/'' \<and> \<not> hasSuffix (fst (Key c)) ''/''
     \<and> (\<exists>e. schema_walk root (tl (str_split (CHR ''/'') (fst (Key c)))) = Some e \<and> entry_kind e \<noteq> DirectoryEntry)
     \<and> (if hasPrefix (fst (Key c)) componentPrefix then snd (Key c) \<in> set cnames else snd (Key c) = [])
     \<and> (FeatureprofileID c = [] \<or> list_all (\<lambda>w. w \<noteq> [] \<and> list_all word_char w) (str_split (CHR ''_'') (FeatureprofileID c)))"

lemma featureprofileIDMatcher_words:
  "featureprofileIDMatcher s \<longleftrightarrow> list_all (\<lambda>w. w \<noteq> [] \<and> list_all word_char w) (str_split (CHR ''_'') s)"
proof -
  have "str_split (CHR ''_'') s \<noteq> []" by (induction s) (auto split: list.split)
  then show ?thesis by (auto simp: featureprofileIDMatcher_def fpid_match_split split: list.split)
qed

lemma leaf_kinds: "(k \<noteq> LeafEntry \<and> k \<noteq> LeafListEntry) \<longleftrightarrow> k = DirectoryEntry" by (cases k) auto

lemma validatePath_valid:
  assumes "finds fnd"
  shows "(validatePath fnd cnames root c = Inr ()) = valid_ocpath cnames root c"
proof -
  have f: "fnd root p = schema_walk root (tl (str_split (CHR ''/'') p))" if "hasPrefix p ''/''" for p
    using assms that by (simp add: finds_def)
  show ?thesis
    by (cases "hasPrefix (fst (Key c)) ''/''")
      (auto simp: validatePath_def valid_ocpath_def Let_def f leaf_kinds featureprofileIDMatcher_words split: option.split)
qed

abbreviation proto_key :: "OCPath_proto \<Rightarrow> ocpath_key" where "proto_key p \<equiv> Key (convertOCPath p)"

definition accepts :: "(OCPath \<Rightarrow> (path_err, unit) res) \<Rightarrow> OCPath_proto \<Rightarrow> bool" where
  "accepts v p \<longleftrightarrow> v (convertOCPath p) = Inr ()"

lemma validate_step_accepts:
  "accepts v p \<Longrightarrow> proto_key p \<in> fst ` set good \<Longrightarrow> validate_step v p (good, bad, errs) = (good, bad, errs @ [DuplicateEntry (proto_key p)])"
  "accepts v p \<Longrightarrow> proto_key p \<notin> fst ` set good
     \<Longrightarrow> validate_step v p (good, bad, errs) = (AList.update (proto_key p) (convertOCPath p) good, bad, errs)"
  by (auto simp: accepts_def validate_step_def insert_path_def map_of_eq_None_iff Let_def)

lemma validate_step_rejects:
  "\<not> accepts v p \<Longrightarrow> \<exists>e. v (convertOCPath p) = Inl e
     \<and> validate_step v p (good, bad, errs) = (good, AList.update (proto_key p) (convertOCPath p) bad, errs @ [e])"
  by (cases "v (convertOCPath p)") (auto simp: accepts_def validate_step_def Let_def)

lemma AList_update_keys: "fst ` set (AList.update k v al) = insert k (fst ` set al)"
  by (simp add: dom_map_of_conv_image_fst [symmetric] update_conv')

lemma validate_fold_keys:
  assumes "fold (validate_step v) ps (good, bad, errs) = (good', bad', errs')"
  shows "fst ` set good' = fst ` set good \<union> proto_key ` set (filter (accepts v) ps)"
    and "fst ` set bad' = fst ` set bad \<union> proto_key ` set (filter (\<lambda>p. \<not> accepts v p) ps)"
proof -
  have "fst ` set good' = fst ` set good \<union> proto_key ` set (filter (accepts v) ps)
      \<and> fst ` set bad' = fst ` set bad \<union> proto_key ` set (filter (\<lambda>p. \<not> accepts v p) ps)"
    using assms
  proof (induction ps arbitrary: good bad errs)
    case (Cons p ps)
    consider (dup) "accepts v p" "proto_key p \<in> fst ` set good" | (ins) "accepts v p" "proto_key p \<notin> fst ` set good"
      | (rej) "\<not> accepts v p" by blast
    then show ?case
    proof cases
      case dup
      then have "fold (validate_step v) ps (good, bad, errs @ [DuplicateEntry (proto_key p)]) = (good', bad', errs')"
        using Cons.prems by (simp add: validate_step_accepts)
      from Cons.IH [OF this] show ?thesis using dup by (simp add: insert_absorb)
    next
      case ins
      then have "fold (validate_step v) ps (AList.update (proto_key p) (convertOCPath p) good, bad, errs) = (good', bad', errs')"
        using Cons.prems by (simp add: validate_step_accepts)
      from Cons.IH [OF this] show ?thesis using ins by (simp add: AList_update_keys)
    next
      case rej
      then obtain e where "fold (validate_step v) ps (good, AList.update (proto_key p) (convertOCPath p) bad, errs @ [e]) = (good', bad', errs')"
        using Cons.prems validate_step_rejects [of v p good bad errs] by auto
      from Cons.IH [OF this] show ?thesis using rej by (simp add: AList_update_keys)
    qed
  qed simp
  then show "fst ` set good' = fst ` set good \<union> proto_key ` set (filter (accepts v) ps)"
    and "fst ` set bad' = fst ` set bad \<union> proto_key ` set (filter (\<lambda>p. \<not> accepts v p) ps)" by blast+
qed

lemma validate_fold_errs:
  "snd (snd (fold (validate_step v) ps (good, bad, errs))) = [] \<longleftrightarrow>
     errs = [] \<and> (\<forall>p\<in>set ps. accepts v p) \<and> distinct (map proto_key ps) \<and> proto_key ` set ps \<inter> fst ` set good = {}"
proof (induction ps arbitrary: good bad errs)
  case (Cons p ps)
  consider (dup) "accepts v p" "proto_key p \<in> fst ` set good" | (ins) "accepts v p" "proto_key p \<notin> fst ` set good"
    | (rej) "\<not> accepts v p" by blast
  then show ?case
  proof cases
    case dup
    then show ?thesis using Cons.IH [of good bad "errs @ [DuplicateEntry (proto_key p)]"] by (simp add: validate_step_accepts)
  next
    case ins
    then show ?thesis using Cons.IH [of "AList.update (proto_key p) (convertOCPath p) good" bad errs]
      by (auto simp: validate_step_accepts AList_update_keys)
  next
    case rej
    then obtain e where "validate_step v p (good, bad, errs) = (good, AList.update (proto_key p) (convertOCPath p) bad, errs @ [e])"
      using validate_step_rejects by blast
    then show ?thesis using rej Cons.IH [of good "AList.update (proto_key p) (convertOCPath p) bad" "errs @ [e]"] by simp
  qed
qed simp

text \<open>C20: The first map of \<^verbatim>\<open>ValidatePaths\<close> has the keys of the valid paths, the second those of the invalid ones; there is no error when all paths are
  valid and no two have the same key.\<close>

theorem ValidatePaths_partition:
  assumes "finds fnd" and "ValidatePaths fnd cnames root protos = (ocpaths, invalid, errs)"
  shows "fst ` set ocpaths = proto_key ` {p \<in> set protos. valid_ocpath cnames root (convertOCPath p)}
    \<and> fst ` set invalid = proto_key ` {p \<in> set protos. \<not> valid_ocpath cnames root (convertOCPath p)}
    \<and> (errs = [] \<longleftrightarrow> (\<forall>p\<in>set protos. valid_ocpath cnames root (convertOCPath p)) \<and> distinct (map proto_key protos))"
proof -
  have acc: "accepts (validatePath fnd cnames root) p = valid_ocpath cnames root (convertOCPath p)" for p
    by (simp add: accepts_def validatePath_valid [OF assms(1)])
  note r = assms(2) [unfolded ValidatePaths_def]
  have "errs = [] \<longleftrightarrow> (\<forall>p\<in>set protos. valid_ocpath cnames root (convertOCPath p)) \<and> distinct (map proto_key protos)"
    using validate_fold_errs [of "validatePath fnd cnames root" protos "[]" "[]" "[]"] r by (simp add: acc)
  then show ?thesis using validate_fold_keys [OF r] by (simp add: acc)
qed


section \<open>The coverage block\<close>

text \<open>The keys of a Go map are distinct.\<close>

definition wf_yaml :: "yaml_doc \<Rightarrow> bool" where
  "wf_yaml s \<longleftrightarrow> distinct (map fst s) \<and> list_all (\<lambda>m. distinct (map fst (snd m)) \<and> list_all (\<lambda>p. distinct (map fst (snd p))) (snd m)) s"

lemma platform_types_distinct:
  "platform_types name i ps types = Inr ts \<Longrightarrow> distinct types \<Longrightarrow> distinct ts"
  by (induction name i ps types rule: platform_types.induct) (auto split: yval.splits if_splits)

lemma path_properties_distinct:
  "path_properties name props types = Inr ts \<Longrightarrow> distinct types \<Longrightarrow> distinct ts"
  by (induction name props types rule: path_properties.induct)
    (auto simp: bind_res_Inr_iff split: yval.splits if_splits dest: platform_types_distinct)

lemma path_protos_keys:
  "proto_key ` set (path_protos name types) \<subseteq> {name} \<times> UNIV"
  "distinct types \<Longrightarrow> distinct (map proto_key (path_protos name types))"
  by (auto simp: path_protos_def convertOCPath_def comp_def distinct_map inj_on_def)

lemma all_paths_keys:
  "all_paths paths names = Inr ps \<Longrightarrow> distinct names \<Longrightarrow> distinct (map proto_key ps) \<and> proto_key ` set ps \<subseteq> set names \<times> UNIV"
proof (induction paths names arbitrary: ps rule: all_paths.induct)
  case (2 paths name names)
  then obtain types qs where t: "path_properties name (case map_of paths name of None \<Rightarrow> [] | Some ps \<Rightarrow> ps) [] = Inr types"
    and q: "all_paths paths names = Inr qs" and ps: "ps = path_protos name types @ qs"
    by (auto simp: bind_res_Inr_iff)
  have "distinct types" using path_properties_distinct [OF t] by simp
  moreover have "distinct (map proto_key qs)" "proto_key ` set qs \<subseteq> set names \<times> UNIV" using "2.IH" [OF q] "2.prems" by auto
  moreover have "name \<notin> set names" using "2.prems" by simp
  ultimately show ?case using path_protos_keys(1) [of name types] path_protos_keys(2) [of types name] ps by fastforce
qed simp

lemma parseYAML_distinct:
  assumes "parseYAML (Some s) = Inr (paths, rpcs)" and "wf_yaml s"
  shows "distinct (map proto_key paths)"
proof -
  let ?p = "case map_of s ''paths'' of None \<Rightarrow> [] | Some p \<Rightarrow> p"
  have "distinct (map fst ?p)"
    using assms(2) by (auto simp: wf_yaml_def list_all_iff dest!: map_of_SomeD split: option.split)
  moreover have "all_paths ?p (sort (map fst ?p)) = Inr paths"
    using assms(1) by (auto simp: parseYAML_def Let_def bind_res_Inr_iff split: option.splits if_splits)
  ultimately show ?thesis using all_paths_keys by fastforce
qed


section \<open>RPCs\<close>

text \<open>A file with one package statement, before its services, contributes the methods of its services, each with the name of the package.\<close>

fun stmt_rpcs :: "string \<Rightarrow> proto_stmt \<Rightarrow> string list" where
  "stmt_rpcs p (ServiceStmt s rs) = map (\<lambda>r. trimPrefix p ''openconfig.'' @ ''.'' @ s @ ''.'' @ r) rs"
| "stmt_rpcs p _ = []"

lemma VisitRPC_fold:
  "acc_rpcs (fold VisitRPC rs v) = acc_rpcs v @ map (\<lambda>r. trimPrefix (packageName v) ''openconfig.'' @ ''.'' @ currentService v @ ''.'' @ r) rs"
  "packageName (fold VisitRPC rs v) = packageName v"
  by (induction rs arbitrary: v) (simp_all add: VisitRPC_def)

lemma visit_services:
  "list_all (\<lambda>st. \<nexists>p. st = PackageStmt p) stmts \<Longrightarrow>
   acc_rpcs (fold visit stmts v) = acc_rpcs v @ concat (map (stmt_rpcs (packageName v)) stmts)
   \<and> packageName (fold visit stmts v) = packageName v"
proof (induction stmts arbitrary: v)
  case (Cons st stmts)
  then show ?case by (cases st) (simp_all add: VisitRPC_fold)
qed simp

text \<open>The RPCs of a repository.\<close>

lemma Read_rpcs:
  assumes "protos api = Some fs"
    and "\<And>f. f \<in> set fs \<Longrightarrow> \<exists>p stmts. f = PackageStmt p # stmts \<and> list_all (\<lambda>st. \<nexists>q. st = PackageStmt q) stmts"
  shows "\<exists>rs. Read protos api = Some rs \<and>
     set rs = {trimPrefix p ''openconfig.'' @ ''.'' @ s @ ''.'' @ r | p stmts s ms r.
                PackageStmt p # stmts \<in> set fs \<and> ServiceStmt s ms \<in> set stmts \<and> r \<in> set ms}"
proof -
  have stmt: "x \<in> set (stmt_rpcs p st) \<longleftrightarrow> (\<exists>s ms r. st = ServiceStmt s ms \<and> r \<in> set ms \<and> x = trimPrefix p ''openconfig.'' @ ''.'' @ s @ ''.'' @ r)"
    for x p st by (cases st) auto
  have fl: "x \<in> set (acc_rpcs (fold visit f \<lparr>packageName = [], currentService = [], acc_rpcs = []\<rparr>)) \<longleftrightarrow>
      (\<exists>p stmts s ms r. f = PackageStmt p # stmts \<and> ServiceStmt s ms \<in> set stmts \<and> r \<in> set ms
         \<and> x = trimPrefix p ''openconfig.'' @ ''.'' @ s @ ''.'' @ r)" if "f \<in> set fs" for x f
  proof -
    obtain p stmts where f: "f = PackageStmt p # stmts" and ok: "list_all (\<lambda>st. \<nexists>q. st = PackageStmt q) stmts"
      using assms(2) \<open>f \<in> set fs\<close> by blast
    show ?thesis unfolding f by (simp add: visit_services [OF ok] stmt) blast
  qed
  let ?rs = "concat (map (\<lambda>f. acc_rpcs (fold visit f \<lparr>packageName = [], currentService = [], acc_rpcs = []\<rparr>)) fs)"
  have "x \<in> set ?rs \<longleftrightarrow> (\<exists>p stmts s ms r. x = trimPrefix p ''openconfig.'' @ ''.'' @ s @ ''.'' @ r
      \<and> PackageStmt p # stmts \<in> set fs \<and> ServiceStmt s ms \<in> set stmts \<and> r \<in> set ms)" for x
    unfolding set_concat set_map by (simp add: fl) blast
  then have "set ?rs = {trimPrefix p ''openconfig.'' @ ''.'' @ s @ ''.'' @ r | p stmts s ms r.
      PackageStmt p # stmts \<in> set fs \<and> ServiceStmt s ms \<in> set stmts \<and> r \<in> set ms}"
    by (intro set_eqI) simp
  moreover have "Read protos api = Some ?rs" using assms(1) by (simp add: Read_def)
  ultimately show ?thesis by blast
qed

lemma rpc_step_fold:
  "snd (fold (rpc_step api rpcs) names st) = [] \<longleftrightarrow> snd st = [] \<and> set names \<subseteq> set rpcs"
  by (induction names arbitrary: st) (auto simp: rpc_step_def)

lemma rpc_loop_errs:
  "snd (rpc_loop rd ps st) = [] \<longleftrightarrow>
     (\<forall>(api, names)\<in>set ps. \<exists>rs. rd api = Some rs \<and> set names \<subseteq> set rs) \<and> (snd st = [] \<or> (\<exists>(api, _)\<in>set ps. rd api = None))"
  by (induction rd ps st rule: rpc_loop.induct) (auto simp: rpc_step_fold split: option.split)


section \<open>The command\<close>

text \<open>The documented behaviour of the YAML decoder and of the schema lookup.\<close>

definition env_ok :: "readme_env \<Rightarrow> bool" where
  "env_ok env \<longleftrightarrow> finds (schema_find env) \<and> (\<forall>s d. unmarshal env s = Some d \<longrightarrow> wf_yaml d)"

text \<open>C19: A README passes exactly when its coverage block parses, every path it lists is a valid path of the schema and every method it lists is
  an RPC of its repository.\<close>

theorem readme_ok_iff:
  assumes "env_ok env"
  shows "readme_ok env doc \<longleftrightarrow>
     (\<exists>paths rpcs. Parse (unmarshal env) doc = Inr (paths, rpcs)
        \<and> (\<forall>p\<in>set paths. valid_ocpath (component_names env) (schema_root env) (convertOCPath p))
        \<and> (\<forall>(api, names)\<in>set rpcs. \<exists>rs. Read (api_protos env) api = Some rs \<and> set names \<subseteq> set rs))"
proof (cases "Parse (unmarshal env) doc")
  case (Inr r)
  obtain paths rpcs where r: "r = (paths, rpcs)" by (cases r)
  have "distinct (map proto_key paths)"
    using Inr r assms parseYAML_distinct
    by (auto simp: Parse_def env_ok_def parseYAML_def split: if_splits option.splits)
  moreover obtain good bad errs where v: "ValidatePaths (schema_find env) (component_names env) (schema_root env) paths = (good, bad, errs)"
    by (cases "ValidatePaths (schema_find env) (component_names env) (schema_root env) paths")
  ultimately have "errs = [] \<longleftrightarrow> (\<forall>p\<in>set paths. valid_ocpath (component_names env) (schema_root env) (convertOCPath p))"
    using validate_fold_errs [of "validatePath (schema_find env) (component_names env) (schema_root env)" paths "[]" "[]" "[]"]
      validatePath_valid [of "schema_find env"] assms by (simp add: env_ok_def accepts_def ValidatePaths_def)
  then show ?thesis using Inr r v by (auto simp: readme_ok_def ValidateRPCs_def rpc_loop_errs)
qed (simp add: readme_ok_def)

lemma fold_inserted:
  "(\<forall>p\<in>set ps. accepts v p) \<Longrightarrow> distinct (map proto_key ps) \<Longrightarrow> proto_key ` set ps \<inter> fst ` set good = {} \<Longrightarrow>
   length (fst (fold (validate_step v) ps (good, bad, errs))) = length good + length ps"
proof (induction ps arbitrary: good)
  case (Cons p ps)
  have "length (AList.update k x al) = Suc (length al)" if "k \<notin> fst ` set al" for k :: ocpath_key and x :: OCPath and al
    using that by (induction al) auto
  then show ?case using Cons by (auto simp: validate_step_accepts AList_update_keys)
qed simp

lemma rpc_step_count:
  "set names \<subseteq> set rpcs \<Longrightarrow> fst (fold (rpc_step api rpcs) names st) = fst st + length names"
  by (induction names arbitrary: st) (auto simp: rpc_step_def)

lemma rpc_loop_count:
  "(\<forall>(api, names)\<in>set ps. \<exists>rs. rd api = Some rs \<and> set names \<subseteq> set rs) \<Longrightarrow>
   fst (rpc_loop rd ps st) = fst st + sum_list (map (length \<circ> snd) ps)"
proof (induction rd ps st rule: rpc_loop.induct)
  case (2 rd api names ps st)
  then obtain rs where rs: "rd api = Some rs" "set names \<subseteq> set rs" by auto
  then show ?case using "2.IH" [OF rs(1)] "2.prems" by (simp add: rpc_step_count)
qed simp

text \<open>A profile passes with all its paths and RPCs counted exactly when it names its software and hardware, its paths are valid and
  different, and its RPCs exist.\<close>

theorem nosimage_main_ok:
  assumes "finds (schema_find env)"
  shows "nosimage_main env pr = NosOk n m \<longleftrightarrow>
     SoftwareVersion pr \<noteq> [] \<and> HardwareName pr \<noteq> []
     \<and> (\<forall>p\<in>set (nos_Ocpaths pr). valid_ocpath (component_names env) (schema_root env) (convertOCPath p)) \<and> distinct (map proto_key (nos_Ocpaths pr))
     \<and> (\<forall>(api, names)\<in>set (nos_OcProtocols pr). \<exists>rs. Read (api_protos env) api = Some rs \<and> set names \<subseteq> set rs)
     \<and> n = length (nos_Ocpaths pr) \<and> m = sum_list (map (length \<circ> snd) (nos_OcProtocols pr))"
proof -
  let ?v = "validatePath (schema_find env) (component_names env) (schema_root env)"
  obtain g b e where v: "fold (validate_step ?v) (nos_Ocpaths pr) ([], [], []) = (g, b, e)" by (cases "fold (validate_step ?v) (nos_Ocpaths pr) ([], [], [])")
  obtain c f where r: "rpc_loop (Read (api_protos env)) (nos_OcProtocols pr) (0, []) = (c, f)" by (cases "rpc_loop (Read (api_protos env)) (nos_OcProtocols pr) (0, [])")
  have "accepts ?v p = valid_ocpath (component_names env) (schema_root env) (convertOCPath p)" for p
    by (simp add: accepts_def validatePath_valid [OF assms])
  note acc = this
  have "e = [] \<longleftrightarrow> (\<forall>p\<in>set (nos_Ocpaths pr). accepts ?v p) \<and> distinct (map proto_key (nos_Ocpaths pr))"
    using validate_fold_errs [of ?v "nos_Ocpaths pr" "[]" "[]" "[]"] v by simp
  moreover have "f = [] \<longleftrightarrow> (\<forall>(api, names)\<in>set (nos_OcProtocols pr). \<exists>rs. Read (api_protos env) api = Some rs \<and> set names \<subseteq> set rs)"
    using rpc_loop_errs [of "Read (api_protos env)" "nos_OcProtocols pr" "(0, [])"] r by simp
  moreover have "e = [] \<Longrightarrow> length g = length (nos_Ocpaths pr)"
    using fold_inserted [of "nos_Ocpaths pr" ?v "[]" "[]" "[]"] v calculation(1) by simp
  moreover have "f = [] \<Longrightarrow> c = sum_list (map (length \<circ> snd) (nos_OcProtocols pr))"
    using rpc_loop_count [of "nos_OcProtocols pr" "Read (api_protos env)" "(0, [])"] r calculation(2) by simp
  ultimately show ?thesis using v r by (auto simp: nosimage_main_def ValidatePaths_def ValidateRPCs_def acc)
qed

definition sample_env :: readme_env where
  "sample_env =
     \<lparr>unmarshal = (\<lambda>_. Some [(''paths'', [(''/system/name'', [])]), (''rpcs'', [(''gnmi'', [(''gNMI.Set'', YOther)])])]),
      schema_find = (\<lambda>root path. schema_walk root (tl (str_split (CHR ''/'') path))),
      schema_root = Entry DirectoryEntry [(''system'', Entry DirectoryEntry [(''name'', Entry LeafEntry [])])],
      component_names = [''CHASSIS''],
      api_protos = (\<lambda>api. if api = ''gnmi'' then Some [[PackageStmt ''gnmi'', ServiceStmt ''gNMI'' [''Get'', ''Set'']]] else None)\<rparr>"

definition sample_doc :: md_doc where
  "sample_doc =
     (let block = FencedCodeBlock (Some ''yaml'') [''paths: ...''] in
      [(Heading 2 (Some ''OpenConfig Path and RPC Coverage''), [block]), (block, [])])"

lemma sample_Parse:
  "Parse (unmarshal sample_env) sample_doc =
     Inr ([\<lparr>op_Name = ''/system/name'', op_PlatformType = None, op_Featureprofileid = []\<rparr>], [(''gnmi'', [''gnmi.gNMI.Set''])])"
  by (simp add: Parse_def sample_env_def sample_doc_def Let_def yaml_Render_def OCSpecHeading_def renderCodeBlock_def fetchHeading_def
      end_of_section_def codeBlock_def processYAMLBlock_def parseYAML_def path_protos_def)

lemma sample_Read: "Read (api_protos sample_env) ''gnmi'' = Some [''gnmi.gNMI.Get'', ''gnmi.gNMI.Set'']"
  by (simp add: Read_def sample_env_def VisitRPC_def trimPrefix_def hasPrefix_def)

theorem readme_ok_iff_witness: "env_ok sample_env \<and> readme_ok sample_env sample_doc"
proof
  show e: "env_ok sample_env" by (simp add: env_ok_def sample_env_def finds_def wf_yaml_def)
  show "readme_ok sample_env sample_doc"
    unfolding readme_ok_iff [OF e] sample_Parse
    by (simp add: sample_Read) (simp add: sample_env_def valid_ocpath_def convertOCPath_def componentPrefix_def hasPrefix_def hasSuffix_def)
qed

theorem ValidatePaths_partition_witness:
  "finds (schema_find sample_env) \<and>
   fst ` set (fst (ValidatePaths (schema_find sample_env) [''CHASSIS''] (schema_root sample_env)
     [\<lparr>op_Name = ''/system/name'', op_PlatformType = None, op_Featureprofileid = []\<rparr>,
      \<lparr>op_Name = ''/system'', op_PlatformType = None, op_Featureprofileid = []\<rparr>])) = {(''/system/name'', [])}"
proof
  show f: "finds (schema_find sample_env)" by (simp add: sample_env_def finds_def)
  let ?ps = "[\<lparr>op_Name = ''/system/name'', op_PlatformType = None, op_Featureprofileid = []\<rparr>,
      \<lparr>op_Name = ''/system'', op_PlatformType = None, op_Featureprofileid = []\<rparr>]"
  obtain g b e where v: "ValidatePaths (schema_find sample_env) [''CHASSIS''] (schema_root sample_env) ?ps = (g, b, e)"
    by (cases "ValidatePaths (schema_find sample_env) [''CHASSIS''] (schema_root sample_env) ?ps")
  have "{p \<in> set ?ps. valid_ocpath [''CHASSIS''] (schema_root sample_env) (convertOCPath p)} = {hd ?ps}"
    by (auto simp: sample_env_def valid_ocpath_def convertOCPath_def componentPrefix_def hasPrefix_def hasSuffix_def)
  then show "fst ` set (fst (ValidatePaths (schema_find sample_env) [''CHASSIS''] (schema_root sample_env) ?ps)) = {(''/system/name'', [])}"
    using ValidatePaths_partition [OF f v] v by (simp add: convertOCPath_def)
qed
end
