(* ===== verification/Doc_Tools.thy ===== *)
theory Doc_Tools
  imports Go_Path Version_Order "HOL-Library.AList"
begin

text \<open>
  The tools that go over the tests of the repository: the test registry (\<^verbatim>\<open>tools/sync_test_registry\<close>,
  \<^verbatim>\<open>tools/sort_testregistry\<close>), the gap analysis (\<^verbatim>\<open>tools/gap-analyzer\<close>), the test plan documents of the wiki
  (\<^verbatim>\<open>tools/wikidoc\<close>) and the badge of the CI trigger (\<^verbatim>\<open>tools/ci-trigger/badge.go\<close>).

  A walk over a directory tree is the sequence of its files, each with what reading and decoding it gives; the listing of a directory and
  the answers of the web service are parameters. A map filled by a tool is an association list.
\<close>

section \<open>The test registry\<close>

record Test =
  test_Id :: string
  test_Version :: "32 word"
  test_Description :: string
  test_Readme :: "string list"
  test_Exec :: string

record TestRegistry =
  reg_Name :: string
  reg_Test :: "Test list"

subsection \<open>\<^verbatim>\<open>sort_testregistry.go\<close>\<close>

text \<open>The registry is modelled as the message that is read and written: the comments and the formatting of the text file are not.
  The state of the loop: the identifiers in the order of their first test, and the tests of each.\<close>

definition collect_step :: "Test \<Rightarrow> string list \<times> (string \<rightharpoonup> Test list) \<Rightarrow> string list \<times> (string \<rightharpoonup> Test list)" where
  "collect_step t st =
     (let (ids, tests) = (if snd st (test_Id t) = None then (fst st @ [test_Id t], (snd st)(test_Id t \<mapsto> [])) else st);
          existing = (case tests (test_Id t) of None \<Rightarrow> [] | Some ts \<Rightarrow> ts) in
      if t \<in> set existing then (ids, tests) else (ids, tests(test_Id t \<mapsto> existing @ [t])))"

definition sort_testregistry :: "TestRegistry \<Rightarrow> TestRegistry" where
  "sort_testregistry r =
     (let (ids, tests) = fold collect_step (reg_Test r) ([], Map.empty) in
      \<lparr>reg_Name = reg_Name r, reg_Test = concat (map (\<lambda>i. case tests i of None \<Rightarrow> [] | Some ts \<Rightarrow> ts) (sort ids))\<rparr>)"

subsection \<open>\<^verbatim>\<open>sync_test_registry.go\<close>\<close>

definition filepath_Join :: "string \<Rightarrow> string \<Rightarrow> string" where
  "filepath_Join dir name = (if dir = [] then filepath_Clean name else filepath_Clean (dir @ ''/'' @ name))"

definition githubURL :: "string \<Rightarrow> string" where
  "githubURL path = ''https://github.com/openconfig/featureprofiles/blob/main/'' @ path"

text \<open>A listing: the names of a directory, in order, and whether they are directories themselves.\<close>

type_synonym listing = "(string \<times> bool) list"

definition findExecURL :: "(string \<Rightarrow> listing option) \<Rightarrow> string \<Rightarrow> string" where
  "findExecURL readDir dir =
     (case readDir dir of
        None \<Rightarrow> []
      | Some files \<Rightarrow>
          (case find (\<lambda>f. \<not> snd f \<and> hasSuffix (fst f) ''_test.go'') files of
             None \<Rightarrow> []
           | Some f \<Rightarrow> githubURL (filepath_Join dir (fst f))))"

record plan_metadata =
  md_uuid :: string
  md_plan_id :: string
  md_description :: string

datatype registry_err = BadMetadata string | EmptyPlanId string | DuplicatePlanId string

definition processMetadataFile ::
  "(string \<Rightarrow> listing option) \<Rightarrow> string \<times> plan_metadata option \<Rightarrow> (string \<times> Test) list \<Rightarrow> (registry_err, (string \<times> Test) list) res" where
  "processMetadataFile readDir f tests =
     (case snd f of
        None \<Rightarrow> Inl (BadMetadata (fst f))
      | Some m \<Rightarrow>
          (if md_plan_id m = [] then Inl (EmptyPlanId (fst f))
           else if map_of tests (md_plan_id m) \<noteq> None then Inl (DuplicatePlanId (md_plan_id m))
           else Inr (tests @ [(md_plan_id m,
                  \<lparr>test_Id = md_plan_id m, test_Version = 0, test_Description = md_description m,
                   test_Readme = [githubURL (filepath_Join (filepath_Dir (fst f)) ''README.md'')],
                   test_Exec = findExecURL readDir (filepath_Dir (fst f))\<rparr>)])))"

text \<open>The walk, over the files named \<^verbatim>\<open>metadata.textproto\<close>.\<close>

fun loadTestsFromDir ::
  "(string \<Rightarrow> listing option) \<Rightarrow> (string \<times> plan_metadata option) list \<Rightarrow> (string \<times> Test) list \<Rightarrow> (registry_err, (string \<times> Test) list) res" where
  "loadTestsFromDir readDir [] tests = Inr tests"
| "loadTestsFromDir readDir (f # fs) tests = bind_res (processMetadataFile readDir f tests) (loadTestsFromDir readDir fs)"

definition generateRegistry :: "string \<Rightarrow> (string \<times> Test) list \<Rightarrow> TestRegistry" where
  "generateRegistry name tests =
     \<lparr>reg_Name = name, reg_Test = concat (map (\<lambda>i. case map_of tests i of None \<Rightarrow> [] | Some t \<Rightarrow> [t]) (sort (map fst tests)))\<rparr>"

text \<open>The name of an existing registry is kept.\<close>

definition sync_registry ::
  "TestRegistry option \<Rightarrow> (string \<Rightarrow> listing option) \<Rightarrow> (string \<times> plan_metadata option) list \<Rightarrow> (registry_err, TestRegistry) res" where
  "sync_registry old readDir fs =
     (let registryName = (case old of None \<Rightarrow> ''WBB Test Registry'' | Some r \<Rightarrow> if reg_Name r \<noteq> [] then reg_Name r else ''WBB Test Registry'') in
      bind_res (loadTestsFromDir readDir fs []) (\<lambda>tests. Inr (generateRegistry registryName tests)))"


section \<open>The gap analysis\<close>

text \<open>\<^verbatim>\<open>\s\<close> of Go's regular expressions.\<close>

definition re_space :: "char \<Rightarrow> bool" where
  "re_space c \<longleftrightarrow> c \<in> {CHR 0x09, CHR 0x0A, CHR 0x0C, CHR 0x0D, CHR '' ''}"

text \<open>\<^verbatim>\<open>key\s*"([^"]+)"\<close> at the start of a string, and its leftmost match.\<close>

definition field_here :: "string \<Rightarrow> string \<Rightarrow> string option" where
  "field_here key s =
     (if \<not> hasPrefix s key then None
      else case dropWhile re_space (drop (length key) s) of
             [] \<Rightarrow> None
           | q # r \<Rightarrow>
               (let v = takeWhile (\<lambda>c. c \<noteq> CHR 0x22) r in
                if q = CHR 0x22 \<and> v \<noteq> [] \<and> length v < length r then Some v else None))"

fun find_field :: "string \<Rightarrow> string \<Rightarrow> string option" where
  "find_field key [] = field_here key []"
| "find_field key (c # s) = (case field_here key (c # s) of Some v \<Rightarrow> Some v | None \<Rightarrow> find_field key s)"

record FNTTest =
  fnt_ID :: string
  fnt_Description :: string
  RequirementFile :: string
  AutomationFile :: string
  TestDir :: string

definition parseMetadata :: "string \<Rightarrow> string option \<Rightarrow> FNTTest option" where
  "parseMetadata path data =
     map_option
       (\<lambda>content. \<lparr>fnt_ID = (case find_field ''plan_id:'' content of None \<Rightarrow> [] | Some v \<Rightarrow> v),
                   fnt_Description = (case find_field ''description:'' content of None \<Rightarrow> [] | Some v \<Rightarrow> v),
                   RequirementFile = [], AutomationFile = [], TestDir = filepath_Dir path\<rparr>)
       data"

definition entry_step :: "string \<times> bool \<Rightarrow> FNTTest \<Rightarrow> FNTTest" where
  "entry_step e test =
     (if snd e then test
      else if fst e = ''README.md'' then test\<lparr>RequirementFile := fst e\<rparr>
      else if hasSuffix (fst e) ''.go'' then test\<lparr>AutomationFile := fst e\<rparr>
      else test)"

text \<open>One file named \<^verbatim>\<open>metadata.textproto\<close>, with its content if it can be read.\<close>

definition visit_metadata :: "(string \<Rightarrow> listing option) \<Rightarrow> string \<times> string option \<Rightarrow> FNTTest list \<Rightarrow> FNTTest list" where
  "visit_metadata readDir f tests =
     (case parseMetadata (fst f) (snd f) of
        None \<Rightarrow> tests
      | Some test \<Rightarrow>
          (if fnt_ID test = [] then tests
           else case readDir (TestDir test) of
                  None \<Rightarrow> tests
                | Some es \<Rightarrow>
                    (let t = fold entry_step es test in
                     if RequirementFile t \<noteq> [] \<and> AutomationFile t \<noteq> [] then tests @ [t] else tests)))"

definition findFNTTests :: "(string \<Rightarrow> listing option) \<Rightarrow> (string \<times> string option) list \<Rightarrow> FNTTest list" where
  "findFNTTests readDir fs = fold (visit_metadata readDir) fs []"

text \<open>What one HTTP request gives, and the decoded answer.\<close>

datatype http_result = RequestFailed string | BodyFailed string | Response nat string

record APIPart =
  part_Text :: string
  Thought :: bool

record APIResponse =
  Candidates :: "APIPart list list"
  resp_Error :: "string option"

datatype gap_err =
    HTTPErr string
  | BodyErr string
  | StatusErr nat string
  | BadResponse
  | APIErr string
  | NoCandidates
  | NoAnswer
  | BadGapResult string

text \<open>The attempts; \<open>n\<close> of them are left and \<open>i\<close> were made.\<close>

fun attempts :: "(nat \<Rightarrow> http_result) \<Rightarrow> nat \<Rightarrow> nat \<Rightarrow> gap_err \<Rightarrow> (gap_err, string) res" where
  "attempts do i 0 lastErr = Inl lastErr"
| "attempts do i (Suc n) lastErr =
     (case do i of
        RequestFailed e \<Rightarrow> attempts do (Suc i) n (HTTPErr e)
      | BodyFailed e \<Rightarrow> attempts do (Suc i) n (BodyErr e)
      | Response status body \<Rightarrow> (if status \<noteq> 200 then attempts do (Suc i) n (StatusErr status body) else Inr body))"

definition fence :: string where "fence = [CHR 0x60, CHR 0x60, CHR 0x60]"

definition clean_text :: "string \<Rightarrow> string" where
  "clean_text resultText =
     (let cleanText = trimSpace resultText in
      if hasPrefix cleanText (fence @ ''json'') then trimSuffix (trimSpace (trimPrefix cleanText (fence @ ''json''))) fence
      else if hasPrefix cleanText fence then trimSuffix (trimSpace (trimPrefix cleanText fence)) fence
      else cleanText)"

definition answer_text :: "APIPart list \<Rightarrow> string" where
  "answer_text parts = (case find (\<lambda>p. \<not> Thought p) parts of None \<Rightarrow> [] | Some p \<Rightarrow> part_Text p)"

definition gap_answer :: "(string \<Rightarrow> APIResponse option) \<Rightarrow> (string \<Rightarrow> (bool \<times> string) option) \<Rightarrow> string \<Rightarrow> (gap_err, bool \<times> string) res" where
  "gap_answer decode decode_gap respBody =
     (case decode respBody of
        None \<Rightarrow> Inl BadResponse
      | Some apiResp \<Rightarrow>
          (case resp_Error apiResp of
             Some m \<Rightarrow> Inl (APIErr m)
           | None \<Rightarrow>
               (if Candidates apiResp = [] \<or> hd (Candidates apiResp) = [] then Inl NoCandidates
                else let resultText = answer_text (hd (Candidates apiResp)) in
                  if resultText = [] then Inl NoAnswer
                  else case decode_gap (clean_text resultText) of
                         None \<Rightarrow> Inl (BadGapResult resultText)
                       | Some g \<Rightarrow> Inr g)))"

definition callGemini ::
  "(string \<Rightarrow> APIResponse option) \<Rightarrow> (string \<Rightarrow> (bool \<times> string) option) \<Rightarrow> (nat \<Rightarrow> http_result) \<Rightarrow> (gap_err, bool \<times> string) res" where
  "callGemini decode decode_gap do = bind_res (attempts do 1 3 BadResponse) (gap_answer decode decode_gap)"

definition escape_value :: "string \<Rightarrow> string" where
  "escape_value s = concat (map (\<lambda>c. if c = CHR 0x0D then ''%0D'' else if c = CHR 0x0A then ''%0A'' else [c]) s)"

datatype failure =
    ReadFailure string string
  | AnalysisFailure string gap_err
  | GapFailure string string string

definition readmePath :: "FNTTest \<Rightarrow> string" where "readmePath t = filepath_Join (TestDir t) (RequirementFile t)"
definition autoPath :: "FNTTest \<Rightarrow> string" where "autoPath t = filepath_Join (TestDir t) (AutomationFile t)"

definition testsToRun :: "string \<Rightarrow> FNTTest list \<Rightarrow> FNTTest list" where
  "testsToRun changedFilesStr allTests =
     (let changed = set (str_split (CHR '','') changedFilesStr) in
      filter (\<lambda>t. readmePath t \<in> changed \<or> autoPath t \<in> changed) allTests)"

text \<open>The failure of a test, if any: a file that cannot be read, an analysis that fails, a gap.\<close>

definition analyze ::
  "(string \<Rightarrow> string option) \<Rightarrow> (string \<Rightarrow> string \<Rightarrow> (gap_err, bool \<times> string) res) \<Rightarrow> FNTTest \<Rightarrow> failure list" where
  "analyze read call t =
     (case read (readmePath t) of
        None \<Rightarrow> [ReadFailure (readmePath t) (fnt_ID t)]
      | Some readme \<Rightarrow>
          (case read (autoPath t) of
             None \<Rightarrow> [ReadFailure (autoPath t) (fnt_ID t)]
           | Some auto \<Rightarrow>
               (case call readme auto of
                  Inl e \<Rightarrow> [AnalysisFailure (fnt_ID t) e]
                | Inr (gapFound, gapDesc) \<Rightarrow> (if gapFound then [GapFailure (readmePath t) (fnt_ID t) (escape_value gapDesc)] else []))))"

text \<open>The failures printed and the exit code.\<close>

definition gap_main ::
  "(string \<Rightarrow> string option) \<Rightarrow> (string \<Rightarrow> string \<Rightarrow> (gap_err, bool \<times> string) res) \<Rightarrow> FNTTest list \<Rightarrow> string \<Rightarrow> failure list \<times> nat" where
  "gap_main read call allTests changedFilesStr =
     (if changedFilesStr = [] then ([], 0)
      else let failures = concat (map (analyze read call) (testsToRun changedFilesStr allTests)) in
        (failures, if failures \<noteq> [] then 1 else 0))"


section \<open>Documents of the wiki\<close>

record testDoc =
  doc_Name :: string
  doc_Title :: string
  doc_Path :: string

text \<open>A metadata file, its decoded content and whether there is a README beside it; the documents by UUID. Decoding errors end the walk.\<close>

definition doc_of :: "string \<Rightarrow> plan_metadata \<Rightarrow> testDoc" where
  "doc_of path md =
     \<lparr>doc_Name = filepath_Base (filepath_Dir path), doc_Title = md_plan_id md @ '': '' @ md_description md,
      doc_Path = filepath_Dir path @ ''/README.md''\<rparr>"

fun walk_docs :: "(string \<times> plan_metadata option \<times> bool) list \<Rightarrow> (string \<times> testDoc) list \<Rightarrow> (string, (string \<times> testDoc) list) res" where
  "walk_docs [] docMap = Inr docMap"
| "walk_docs ((path, md, has_readme) # fs) docMap =
     (case md of
        None \<Rightarrow> Inl path
      | Some m \<Rightarrow> walk_docs fs (if has_readme then AList.update (md_uuid m) (doc_of path m) docMap else docMap))"

text \<open>The order of the documents is that of the map; they are sorted afterwards.\<close>

definition fetchTestDocs :: "(string \<times> plan_metadata option \<times> bool) list \<Rightarrow> (string, testDoc list) res" where
  "fetchTestDocs fs = bind_res (walk_docs fs []) (\<lambda>docMap. Inr (map snd docMap))"

text \<open>The matches of \<^verbatim>\<open>[0-9]+|[a-z]+\<close>.\<close>

definition is_lower :: "char \<Rightarrow> bool" where "is_lower c \<longleftrightarrow> CHR ''a'' \<le> c \<and> c \<le> CHR ''z''"

function find_all :: "string \<Rightarrow> string list" where
  "find_all [] = []"
| "find_all (c # s) =
     (if is_digit c then takeWhile is_digit (c # s) # find_all (dropWhile is_digit s)
      else if is_lower c then takeWhile is_lower (c # s) # find_all (dropWhile is_lower s)
      else find_all s)"
  by pat_completeness auto
termination by (relation "measure length") (auto simp: less_Suc_eq_le length_dropWhile_le)

definition sort_tokens :: "string \<Rightarrow> string list" where "sort_tokens title = find_all (toLower title)"

text \<open>\<^verbatim>\<open>strconv.Atoi\<close> of a match: a number only for digits.\<close>

definition atoi_digits :: "string \<Rightarrow> int option" where
  "atoi_digits w = (if list_all is_digit w then atoi w else None)"

fun title_less :: "string list \<Rightarrow> string list \<Rightarrow> bool" where
  "title_less [] ys \<longleftrightarrow> ys \<noteq> []"
| "title_less (x # xs) [] \<longleftrightarrow> False"
| "title_less (x # xs) (y # ys) \<longleftrightarrow>
     (if x = y then title_less xs ys
      else case (atoi_digits x, atoi_digits y) of (Some xv, Some yv) \<Rightarrow> xv < yv | _ \<Rightarrow> x < y)"

definition docs_less :: "testDoc \<Rightarrow> testDoc \<Rightarrow> bool" where
  "docs_less d e = title_less (sort_tokens (doc_Title d)) (sort_tokens (doc_Title e))"

text \<open>The files written, by path; a later file replaces an earlier one of the same path.\<close>

definition wikiPath :: string where "wikiPath = ''/testplans/''"

fun writeTestDocs :: "(string \<Rightarrow> string option) \<Rightarrow> string \<Rightarrow> testDoc list \<Rightarrow> (string \<rightharpoonup> string) \<Rightarrow> (string, string \<rightharpoonup> string) res" where
  "writeTestDocs read rootPath [] disk = Inr disk"
| "writeTestDocs read rootPath (doc # docs) disk =
     (case read (doc_Path doc) of
        None \<Rightarrow> Inl (doc_Path doc)
      | Some f \<Rightarrow> writeTestDocs read rootPath docs (disk(rootPath @ wikiPath @ doc_Name doc @ ''.md'' \<mapsto> f)))"


section \<open>The badge\<close>

record badge =
  badge_Color :: string
  badge_Label :: string
  badge_LabelAnchor :: int
  badge_LabelWidth :: int
  badge_Message :: string
  badge_MessageAnchor :: int
  badge_MessageWidth :: int
  badge_Width :: int

definition estimateStringWidth :: "string \<Rightarrow> int" where
  "estimateStringWidth s = 10 + 7 * int (length s)"

definition svgBadge :: "string \<Rightarrow> string \<Rightarrow> badge" where
  "svgBadge label message =
     (let l = toLower label; m = toLower message;
          color = (if m = ''success'' then ''#4C1'' else if m = ''failure'' then ''#E05D44'' else ''#9F9F9F'');
          lw = (if estimateStringWidth l < 80 then 80 else estimateStringWidth l);
          mw = (if estimateStringWidth m < 200 then 200 else estimateStringWidth m) in
      \<lparr>badge_Color = color, badge_Label = l, badge_LabelAnchor = lw div 2, badge_LabelWidth = lw, badge_Message = m,
       badge_MessageAnchor = lw + mw div 2, badge_MessageWidth = mw, badge_Width = lw + mw\<rparr>)"


section \<open>Registries are sorted\<close>

text \<open>Duplicates are dropped after their first occurrence.\<close>

definition dedup :: "'a list \<Rightarrow> 'a list" where "dedup xs = rev (remdups (rev xs))"

lemma dedup_snoc [simp]: "dedup (xs @ [x]) = (if x \<in> set xs then dedup xs else dedup xs @ [x])"
  by (simp add: dedup_def)

lemma dedup_simps [simp]: "dedup [] = []" "dedup [x] = [x]" "set (dedup xs) = set xs" "distinct (dedup xs)"
  by (simp_all add: dedup_def)

lemma filter_dedup: "filter P (dedup xs) = dedup (filter P xs)"
  by (induction xs rule: rev_induct) auto

lemma dedup_distinct: "distinct xs \<Longrightarrow> dedup xs = xs"
  by (simp add: dedup_def distinct_remdups_id)

lemma filter_no_key: "k \<notin> f ` set xs \<Longrightarrow> filter (\<lambda>x. f x = k) xs = []"
  by (auto simp: filter_empty_conv)

lemma collect_invariant:
  "fold collect_step ts ([], Map.empty) =
     (dedup (map test_Id ts), \<lambda>i. if i \<in> test_Id ` set ts then Some (dedup (filter (\<lambda>t. test_Id t = i) ts)) else None)"
proof (induction ts rule: rev_induct)
  case (snoc t ts)
  then show ?case by (auto simp: collect_step_def fun_eq_iff Let_def filter_no_key)
qed simp

text \<open>The groups of the elements with the same key, in the order of the keys, are a stable sort.\<close>

lemma mset_filter_disj: "(\<And>x. \<not> (P x \<and> Q x)) \<Longrightarrow> mset (filter P xs) + mset (filter Q xs) = mset (filter (\<lambda>x. P x \<or> Q x) xs)"
  by (induction xs) auto

lemma mset_groups:
  "distinct ks \<Longrightarrow> mset (concat (map (\<lambda>k. filter (\<lambda>x. f x = k) xs) ks)) = mset (filter (\<lambda>x. f x \<in> set ks) xs)"
proof (induction ks)
  case (Cons k ks)
  then show ?case using mset_filter_disj [of "\<lambda>x. f x = k" "\<lambda>x. f x \<in> set ks" xs] by auto
qed simp

lemma filter_groups:
  "distinct ks \<Longrightarrow> filter (\<lambda>x. f x = k) (concat (map (\<lambda>k. filter (\<lambda>x. f x = k) xs) ks)) = (if k \<in> set ks then filter (\<lambda>x. f x = k) xs else [])"
proof (induction ks)
  case (Cons j ks)
  have "filter (\<lambda>x. f x = j \<and> f x = k) xs = (if j = k then filter (\<lambda>x. f x = k) xs else [])" by (auto intro: filter_cong simp: filter_empty_conv)
  with Cons show ?case by (cases "j = k") simp_all
qed simp

lemma sorted_groups: "sorted ks \<Longrightarrow> sorted (map f (concat (map (\<lambda>k. filter (\<lambda>x. f x = k) xs) ks)))"
proof (induction ks)
  case (Cons k ks)
  have "sorted (map f (filter (\<lambda>x. f x = k) xs))" by (rule sorted_map_same)
  then show ?case using Cons by (auto simp: sorted_append)
qed simp

lemma concat_groups:
  assumes "sorted ks" and "distinct ks" and "f ` set xs \<subseteq> set ks"
  shows "concat (map (\<lambda>k. filter (\<lambda>x. f x = k) xs) ks) = sort_key f xs"
proof (rule properties_for_sort_key [symmetric])
  have "filter (\<lambda>x. f x \<in> set ks) xs = xs" using assms(3) by (auto intro: filter_True)
  then show "mset (concat (map (\<lambda>k. filter (\<lambda>x. f x = k) xs) ks)) = mset xs" using mset_groups [OF assms(2), of f xs] by simp
  fix x assume "x \<in> set (concat (map (\<lambda>k. filter (\<lambda>x. f x = k) xs) ks))"
  then have "f x \<in> set ks" by auto
  then show "filter (\<lambda>y. f x = f y) (concat (map (\<lambda>k. filter (\<lambda>x. f x = k) xs) ks)) = filter (\<lambda>y. f x = f y) xs"
    using filter_groups [OF assms(2), of f "f x" xs] by (simp add: eq_commute)
qed (rule sorted_groups [OF assms(1)])

lemma sort_testregistry_eq: "sort_testregistry r = r\<lparr>reg_Test := sort_key test_Id (dedup (reg_Test r))\<rparr>"
proof -
  let ?ts = "reg_Test r"
  have "concat (map (\<lambda>i. case (if i \<in> test_Id ` set ?ts then Some (dedup (filter (\<lambda>t. test_Id t = i) ?ts)) else None) of None \<Rightarrow> [] | Some ts \<Rightarrow> ts)
        (sort (dedup (map test_Id ?ts)))) = concat (map (\<lambda>i. filter (\<lambda>t. test_Id t = i) (dedup ?ts)) (sort (dedup (map test_Id ?ts))))"
    by (auto simp: filter_dedup intro!: arg_cong [where f = concat])
  also have "\<dots> = sort_key test_Id (dedup ?ts)" by (rule concat_groups) auto
  finally show ?thesis by (simp add: sort_testregistry_def collect_invariant)
qed

text \<open>Sorting keeps the name and the set of tests, drops duplicates, orders the tests by identifier and leaves tests of one identifier in their
  order; sorting again changes nothing.\<close>

theorem sort_testregistry_stable:
  "reg_Name (sort_testregistry r) = reg_Name r
   \<and> reg_Test (sort_testregistry r) = sort_key test_Id (dedup (reg_Test r))
   \<and> sort_testregistry (sort_testregistry r) = sort_testregistry r"
proof -
  have "dedup (sort_key test_Id (dedup (reg_Test r))) = sort_key test_Id (dedup (reg_Test r))" by (rule dedup_distinct) simp
  then show ?thesis by (simp add: sort_testregistry_eq sort_key_id_if_sorted)
qed

definition plan_of :: "string \<times> plan_metadata option \<Rightarrow> string" where
  "plan_of f = (case snd f of None \<Rightarrow> [] | Some m \<Rightarrow> md_plan_id m)"

definition test_of :: "(string \<Rightarrow> listing option) \<Rightarrow> string \<times> plan_metadata option \<Rightarrow> Test" where
  "test_of readDir f =
     \<lparr>test_Id = plan_of f, test_Version = 0, test_Description = (case snd f of None \<Rightarrow> [] | Some m \<Rightarrow> md_description m),
      test_Readme = [githubURL (filepath_Join (filepath_Dir (fst f)) ''README.md'')],
      test_Exec = findExecURL readDir (filepath_Dir (fst f))\<rparr>"

lemma processMetadataFile_Inr:
  "processMetadataFile readDir f tests = Inr tests' \<longleftrightarrow>
     plan_of f \<noteq> [] \<and> plan_of f \<notin> fst ` set tests \<and> tests' = tests @ [(plan_of f, test_of readDir f)]"
  by (auto simp: processMetadataFile_def plan_of_def test_of_def map_of_eq_None_iff split: option.split)

lemma loadTestsFromDir_Inr:
  "loadTestsFromDir readDir fs tests = Inr tests' \<longleftrightarrow>
     [] \<notin> plan_of ` set fs \<and> distinct (map plan_of fs) \<and> plan_of ` set fs \<inter> fst ` set tests = {}
     \<and> tests' = tests @ map (\<lambda>f. (plan_of f, test_of readDir f)) fs"
proof (induction fs arbitrary: tests)
  case (Cons f fs)
  then show ?case by (auto simp: bind_res_Inr_iff processMetadataFile_Inr)
qed auto

lemma filter_map_of:
  "distinct (map g fs) \<Longrightarrow> (\<And>f. test_Id (h f) = g f) \<Longrightarrow>
   (case map_of (map (\<lambda>f. (g f, h f)) fs) i of None \<Rightarrow> [] | Some t \<Rightarrow> [t]) = filter (\<lambda>t. test_Id t = i) (map h fs)"
proof (induction fs)
  case (Cons a fs)
  have "g a \<notin> g ` set fs \<Longrightarrow> filter (\<lambda>t. test_Id t = g a) (map h fs) = []"
    using Cons.prems(2) by (intro filter_no_key) (auto simp: image_iff)
  with Cons show ?case by auto
qed simp

lemma generateRegistry_sort:
  assumes "distinct (map plan_of fs)"
  shows "generateRegistry name (map (\<lambda>f. (plan_of f, test_of readDir f)) fs) = \<lparr>reg_Name = name, reg_Test = sort_key test_Id (map (test_of readDir) fs)\<rparr>"
proof -
  have "test_Id (test_of readDir f) = plan_of f" for f by (simp add: test_of_def)
  note f = filter_map_of [of plan_of fs "test_of readDir", OF assms this]
  have "concat (map (\<lambda>i. filter (\<lambda>t. test_Id t = i) (map (test_of readDir) fs)) (sort (map plan_of fs))) = sort_key test_Id (map (test_of readDir) fs)"
    by (rule concat_groups) (use assms in \<open>auto simp: test_of_def\<close>)
  then show ?thesis by (simp add: generateRegistry_def f comp_def)
qed

text \<open>C33: The registry is generated exactly when every metadata file decodes and has a plan identifier of its own; it then has one test for each, by
  identifier, and the sorting tool leaves it as it is.\<close>

theorem sync_registry_complete:
  "(\<exists>r. sync_registry old readDir fs = Inr r) = ([] \<notin> plan_of ` set fs \<and> distinct (map plan_of fs))
   \<and> (\<forall>r. sync_registry old readDir fs = Inr r \<longrightarrow>
        reg_Test r = sort_key test_Id (map (test_of readDir) fs) \<and> sort_testregistry r = r)"
proof -
  have ok: "sync_registry old readDir fs = Inr r \<longleftrightarrow> [] \<notin> plan_of ` set fs \<and> distinct (map plan_of fs)
      \<and> r = \<lparr>reg_Name = (case old of None \<Rightarrow> ''WBB Test Registry'' | Some r \<Rightarrow> if reg_Name r \<noteq> [] then reg_Name r else ''WBB Test Registry''),
             reg_Test = sort_key test_Id (map (test_of readDir) fs)\<rparr>" for r
    by (auto simp: sync_registry_def Let_def bind_res_Inr_iff loadTestsFromDir_Inr generateRegistry_sort)
  have "dedup (sort_key test_Id (map (test_of readDir) fs)) = sort_key test_Id (map (test_of readDir) fs)" if "distinct (map plan_of fs)"
  proof (rule dedup_distinct)
    have "map test_Id (map (test_of readDir) fs) = map plan_of fs" by (simp add: test_of_def)
    then have "distinct (map test_Id (map (test_of readDir) fs))" using that by metis
    moreover have "distinct (map test_Id ts) \<Longrightarrow> distinct ts" for ts by (simp add: distinct_map)
    ultimately have "distinct (map (test_of readDir) fs)" by blast
    then show "distinct (sort_key test_Id (map (test_of readDir) fs))" by simp
  qed
  then show ?thesis by (auto simp: ok sort_testregistry_eq sort_key_id_if_sorted)
qed

text \<open>Two tests with a plan identifier of their own, in the other order.\<close>

definition sample_files :: "(string \<times> plan_metadata option) list" where
  "sample_files =
     [(''feature/b/b_test/metadata.textproto'', Some \<lparr>md_uuid = ''1'', md_plan_id = ''RT-2'', md_description = ''B''\<rparr>),
      (''feature/a/a_test/metadata.textproto'', Some \<lparr>md_uuid = ''2'', md_plan_id = ''RT-1'', md_description = ''A''\<rparr>)]"

definition sample_listing :: "string \<Rightarrow> listing option" where
  "sample_listing dir = Some [(''README.md'', False), (''a_test.go'', False), (''util.go'', False)]"

theorem sync_registry_complete_witness:
  "\<exists>r. sync_registry None sample_listing sample_files = Inr r \<and> map test_Id (reg_Test r) = [''RT-1'', ''RT-2''] \<and> sort_testregistry r = r"
proof -
  have ok: "[] \<notin> plan_of ` set sample_files \<and> distinct (map plan_of sample_files)" by (simp add: sample_files_def plan_of_def)
  then obtain r where r: "sync_registry None sample_listing sample_files = Inr r"
    using sync_registry_complete [of None sample_listing sample_files] by blast
  moreover have "reg_Test r = sort_key test_Id (map (test_of sample_listing) sample_files) \<and> sort_testregistry r = r"
    using sync_registry_complete [of None sample_listing sample_files] r by blast
  moreover have "map test_Id (sort_key test_Id (map (test_of sample_listing) sample_files)) = [''RT-1'', ''RT-2'']"
    by (simp add: sample_files_def test_of_def plan_of_def)
  ultimately show ?thesis by auto
qed


section \<open>The gap analysis\<close>

text \<open>The body is that of the first of the attempts that is answered with status 200.\<close>

definition answered :: "http_result \<Rightarrow> bool" where
  "answered r \<longleftrightarrow> (case r of Response status _ \<Rightarrow> status = 200 | _ \<Rightarrow> False)"

lemma attempts_step:
  "attempts do i (Suc n) e = (if answered (do i) then Inr (case do i of Response _ b \<Rightarrow> b | _ \<Rightarrow> [])
     else attempts do (Suc i) n (case do i of RequestFailed e \<Rightarrow> HTTPErr e | BodyFailed e \<Rightarrow> BodyErr e | Response s b \<Rightarrow> StatusErr s b))"
  by (simp add: answered_def split: http_result.split)

declare attempts.simps(2) [simp del]

lemma attempts_first:
  "attempts do i n e = Inr body \<longleftrightarrow> (\<exists>j<n. do (i + j) = Response 200 body \<and> (\<forall>k<j. \<not> answered (do (i + k))))"
proof (induction n arbitrary: i e)
  case (Suc n)
  have shift: "(\<exists>j<Suc n. P j) \<longleftrightarrow> P 0 \<or> (\<exists>j<n. P (Suc j))" for P by (metis Suc_less_eq gr0_conv_Suc less_Suc_eq_0_disj)
  have all: "(\<forall>k<Suc j. P k) \<longleftrightarrow> P 0 \<and> (\<forall>k<j. P (Suc k))" for P and j :: nat by (metis less_Suc_eq_0_disj)
  show ?case
  proof (cases "answered (do i)")
    case True
    then show ?thesis by (auto simp: attempts_step shift all answered_def split: http_result.splits)
  next
    case False
    then have "do i \<noteq> Response 200 body" by (auto simp: answered_def)
    with False show ?thesis by (simp add: attempts_step shift all Suc)
  qed
qed simp

text \<open>An analysis answers when one of three requests is answered and the answer holds a result in a part that is not a thought.\<close>

lemma callGemini_Inr:
  "callGemini decode decode_gap do = Inr g \<longleftrightarrow>
     (\<exists>j<3. \<exists>body resp. do (Suc j) = Response 200 body \<and> (\<forall>k<j. \<not> answered (do (Suc k))) \<and> decode body = Some resp
        \<and> resp_Error resp = None \<and> Candidates resp \<noteq> [] \<and> answer_text (hd (Candidates resp)) \<noteq> []
        \<and> decode_gap (clean_text (answer_text (hd (Candidates resp)))) = Some g)"
proof -
  have ans: "answer_text ps \<noteq> [] \<Longrightarrow> ps \<noteq> []" for ps by (auto simp: answer_text_def)
  have "gap_answer decode decode_gap body = Inr g \<longleftrightarrow> (\<exists>resp. decode body = Some resp \<and> resp_Error resp = None \<and> Candidates resp \<noteq> []
      \<and> answer_text (hd (Candidates resp)) \<noteq> [] \<and> decode_gap (clean_text (answer_text (hd (Candidates resp)))) = Some g)" for body
    using ans [of "hd (Candidates (the (decode body)))"] by (auto simp: gap_answer_def Let_def split: option.split)
  then show ?thesis by (auto simp: callGemini_def bind_res_Inr_iff attempts_first)
qed

text \<open>Values of GitHub commands have no line breaks.\<close>

lemma escape_value_lines: "CHR 0x0A \<notin> set (escape_value s) \<and> CHR 0x0D \<notin> set (escape_value s)"
  by (auto simp: escape_value_def split: if_splits)

text \<open>The Go file of a test is the last of its directory, whatever its name.\<close>

definition go_files :: "listing \<Rightarrow> string list" where
  "go_files es = map fst (filter (\<lambda>e. \<not> snd e \<and> fst e \<noteq> ''README.md'' \<and> hasSuffix (fst e) ''.go'') es)"

lemma entry_fold:
  "AutomationFile (fold entry_step es t) = (if go_files es = [] then AutomationFile t else last (go_files es))
   \<and> RequirementFile (fold entry_step es t) = (if (''README.md'', False) \<in> set es then ''README.md'' else RequirementFile t)
   \<and> TestDir (fold entry_step es t) = TestDir t \<and> fnt_ID (fold entry_step es t) = fnt_ID t"
proof (induction es arbitrary: t)
  case (Cons e es)
  then show ?case by (cases e) (auto simp: entry_step_def go_files_def)
qed (simp add: go_files_def)

text \<open>The analysis and the registry may thus look at different files of a test; here the analysis takes the helper and not the test.\<close>

theorem automation_not_test:
  "AutomationFile (fold entry_step [(''README.md'', False), (''a_test.go'', False), (''util.go'', False)]
     \<lparr>fnt_ID = [], fnt_Description = [], RequirementFile = [], AutomationFile = [], TestDir = ''d''\<rparr>) = ''util.go''
   \<and> findExecURL sample_listing ''d'' = githubURL ''d/a_test.go''"
  by (simp add: entry_fold go_files_def findExecURL_def sample_listing_def githubURL_def) code_simp

definition passes :: "(string \<Rightarrow> string option) \<Rightarrow> (string \<Rightarrow> string \<Rightarrow> (gap_err, bool \<times> string) res) \<Rightarrow> FNTTest \<Rightarrow> bool" where
  "passes read call t \<longleftrightarrow> (\<exists>readme auto desc. read (readmePath t) = Some readme \<and> read (autoPath t) = Some auto \<and> call readme auto = Inr (False, desc))"

lemma analyze_passes: "analyze read call t = [] \<longleftrightarrow> passes read call t"
  by (auto simp: analyze_def passes_def split: option.split sum.split)

text \<open>The command succeeds exactly when every test with a changed README or a changed Go file is read and analysed without a gap; otherwise
  it prints a failure for each test that does not pass.\<close>

theorem gap_main_exit:
  "(snd (gap_main read call ts changed) = 0 \<longleftrightarrow> changed = [] \<or> (\<forall>t\<in>set (testsToRun changed ts). passes read call t))
   \<and> (changed \<noteq> [] \<longrightarrow> length (fst (gap_main read call ts changed)) = length (filter (\<lambda>t. \<not> passes read call t) (testsToRun changed ts)))"
proof -
  have one: "length (analyze read call t) = (if passes read call t then 0 else 1)" for t
    using analyze_passes [of read call t] by (auto simp: analyze_def split: option.split sum.split if_splits)
  have "length (concat (map (analyze read call) xs)) = length (filter (\<lambda>t. \<not> passes read call t) xs)" for xs
    by (induction xs) (simp_all add: one)
  moreover have "concat (map (analyze read call) xs) = [] \<longleftrightarrow> (\<forall>t\<in>set xs. passes read call t)" for xs
    by (auto simp: analyze_passes)
  ultimately show ?thesis by (simp add: gap_main_def Let_def)
qed


section \<open>The order of titles\<close>

text \<open>The tokens that the order is meant for: words, and numbers without leading zeros that fit an \<^verbatim>\<open>int\<close>.\<close>

definition canonical_token :: "string \<Rightarrow> bool" where
  "canonical_token w \<longleftrightarrow> w \<noteq> [] \<and> (list_all is_lower w \<or> w = dec (dec_value w) \<and> int (dec_value w) \<le> 9223372036854775807)"

text \<open>Numbers come before words and are compared by value.\<close>

definition token_key :: "string \<Rightarrow> nat \<times> nat \<times> string" where
  "token_key w = (if list_all is_digit w then (0, dec_value w, []) else (1, 0, w))"

lemma dec_int_value: "dec_int d = int (dec_value d)"
proof -
  have "foldl (\<lambda>a c. 10 * a + int (digit_val c)) (int n) d = int (foldl (\<lambda>a c. 10 * a + digit_val c) n d)" for n
  proof (induction d arbitrary: n)
    case (Cons c d)
    show ?case using Cons [of "10 * n + digit_val c"] by simp
  qed simp
  from this [of 0] show ?thesis by (simp add: dec_int_def dec_value_def)
qed

lemma digit_less_lower: "is_digit a \<Longrightarrow> is_lower b \<Longrightarrow> a < b"
  by (simp add: is_digit_def is_lower_def less_eq_char_def less_char_def)

lemma lower_not_digit: "is_lower b \<Longrightarrow> \<not> is_digit b"
  using digit_less_lower [of b b] by blast

lemma canonical_cases:
  assumes "canonical_token w"
  obtains (number) n where "w = dec n" "atoi_digits w = Some (int n)" "token_key w = (0, n, [])" "list_all is_digit w"
  | (word) "list_all is_lower w" "w \<noteq> []" "atoi_digits w = None" "token_key w = (1, 0, w)"
proof (cases "list_all is_lower w")
  case True
  then have "w \<noteq> []" "\<not> list_all is_digit w" using assms lower_not_digit by (cases w; auto simp: canonical_token_def)+
  then show ?thesis using True word by (simp add: atoi_digits_def token_key_def)
next
  case False
  then obtain n where n: "w = dec n" "int n \<le> 9223372036854775807" using assms by (auto simp: canonical_token_def)
  then have "atoi_digits w = Some (int n)" by (simp add: atoi_digits_def atoi_def dec_digits dec_int_value)
  then show ?thesis using number [of n] n by (simp add: token_key_def dec_digits)
qed

lemma digits_less_letters: "list_all is_digit x \<Longrightarrow> x \<noteq> [] \<Longrightarrow> list_all is_lower y \<Longrightarrow> y \<noteq> [] \<Longrightarrow> x < y \<and> \<not> y < x"
  using digit_less_lower by (cases x; cases y) (auto simp: less_imp_not_less dest: less_imp_neq)

lemma token_compare:
  assumes "canonical_token x" and "canonical_token y"
  shows "(x = y) = (token_key x = token_key y)"
    and "(case (atoi_digits x, atoi_digits y) of (Some xv, Some yv) \<Rightarrow> xv < yv | _ \<Rightarrow> x < y) = (token_key x < token_key y)"
  using assms(1) assms(2)
  by (cases rule: canonical_cases; cases rule: canonical_cases [OF assms(2)];
      auto simp: digits_less_letters dest: digits_less_letters)+

lemma title_less_key:
  "list_all canonical_token xs \<Longrightarrow> list_all canonical_token ys \<Longrightarrow> title_less xs ys = (map token_key xs < map token_key ys)"
proof (induction xs ys rule: title_less.induct)
  case (1 ys)
  show ?case by (cases ys) simp_all
next
  case (3 x xs y ys)
  then have "canonical_token x" "canonical_token y" by simp_all
  note c = token_compare [OF this]
  show ?case
  proof (cases "x = y")
    case False
    then have "token_key x \<noteq> token_key y" using c(1) by simp
    then show ?thesis using False c(2) by simp
  qed (use 3 in simp)
qed simp

definition canonical_title :: "testDoc \<Rightarrow> bool" where
  "canonical_title d \<longleftrightarrow> list_all canonical_token (sort_tokens (doc_Title d))"

text \<open>On such titles the comparison is a strict weak order: by numbers as numbers and by words, lexicographically. Documents are left unordered
  only if their titles have the same tokens.\<close>

theorem docs_less_order:
  assumes "canonical_title d" and "canonical_title e" and "canonical_title f"
  shows "(docs_less d e \<longleftrightarrow> map token_key (sort_tokens (doc_Title d)) < map token_key (sort_tokens (doc_Title e)))
    \<and> (docs_less d e \<and> docs_less e f \<longrightarrow> docs_less d f)
    \<and> (\<not> docs_less d e \<and> \<not> docs_less e d \<longleftrightarrow> sort_tokens (doc_Title d) = sort_tokens (doc_Title e))"
proof -
  have key: "docs_less a b \<longleftrightarrow> map token_key (sort_tokens (doc_Title a)) < map token_key (sort_tokens (doc_Title b))"
    if "canonical_title a" "canonical_title b" for a b
    using that unfolding docs_less_def canonical_title_def by (rule title_less_key)
  have "map token_key xs = map token_key ys \<longleftrightarrow> xs = ys" if "list_all canonical_token xs" "list_all canonical_token ys" for xs ys
    using that token_compare(1) by (induction xs ys rule: list_induct2') auto
  then have "map token_key (sort_tokens (doc_Title d)) = map token_key (sort_tokens (doc_Title e)) \<longleftrightarrow> sort_tokens (doc_Title d) = sort_tokens (doc_Title e)"
    using assms by (simp add: canonical_title_def)
  then show ?thesis using key assms by (auto simp: not_less intro: antisym)
qed

definition title_doc :: "string \<Rightarrow> testDoc" where
  "title_doc t = \<lparr>doc_Name = [], doc_Title = t, doc_Path = []\<rparr>"

theorem docs_less_order_witness: "docs_less (title_doc ''RT-1.9: a'') (title_doc ''RT-1.10: b'') \<and> docs_less (title_doc ''RT-1.9: a'') (title_doc ''TE-1: c'')"
proof -
  have c: "canonical_title (title_doc ''RT-1.9: a'')" "canonical_title (title_doc ''RT-1.10: b'')" "canonical_title (title_doc ''TE-1: c'')" by code_simp+
  have "map token_key (sort_tokens (doc_Title (title_doc ''RT-1.9: a''))) < map token_key (sort_tokens (doc_Title (title_doc ''RT-1.10: b'')))"
    "map token_key (sort_tokens (doc_Title (title_doc ''RT-1.10: b''))) < map token_key (sort_tokens (doc_Title (title_doc ''TE-1: c'')))" by code_simp+
  with docs_less_order [OF c] docs_less_order [OF c(2,3,1)] show ?thesis by blast
qed

text \<open>With leading zeros it is not: two titles can be left unordered with a third that is between them.\<close>

lemma title_less_zeros:
  "\<not> title_less [''01'', ''b''] [''1'', ''a''] \<and> \<not> title_less [''1'', ''a''] [''01'', ''b'']
   \<and> \<not> title_less [''1'', ''a''] [''01'', ''a''] \<and> \<not> title_less [''01'', ''a''] [''1'', ''a''] \<and> title_less [''01'', ''a''] [''01'', ''b'']"
  by code_simp


section \<open>The documents\<close>

lemma walk_docs_keys:
  "walk_docs fs docMap = Inr m \<Longrightarrow> distinct (map fst docMap) \<Longrightarrow>
     distinct (map fst m) \<and> fst ` set m = fst ` set docMap \<union> {md_uuid md | p md. (p, Some md, True) \<in> set fs}"
proof (induction fs docMap rule: walk_docs.induct)
  case (2 path md has_readme fs docMap)
  then obtain a where a: "md = Some a" by (auto split: option.splits)
  let ?d = "if has_readme then AList.update (md_uuid a) (doc_of path a) docMap else docMap"
  have "fst ` set ?d = fst ` set docMap \<union> (if has_readme then {md_uuid a} else {})"
    by (auto simp: dom_map_of_conv_image_fst [symmetric] update_conv')
  moreover have "distinct (map fst ?d)" using "2.prems"(2) by (simp add: distinct_update)
  ultimately show ?case using "2.IH" [OF a] "2.prems"(1) a by auto
qed simp

text \<open>The documents are as many as the UUIDs of the tests with a README.\<close>

lemma fetchTestDocs_uuids:
  assumes "fetchTestDocs fs = Inr docs"
  shows "length docs = card {md_uuid md | p md. (p, Some md, True) \<in> set fs}"
proof -
  from assms obtain m where m: "walk_docs fs [] = Inr m" "docs = map snd m" by (auto simp: fetchTestDocs_def bind_res_Inr_iff)
  have "distinct (map fst m)" and k: "fst ` set m = {md_uuid md | p md. (p, Some md, True) \<in> set fs}" using walk_docs_keys [OF m(1)] by simp_all
  then have "length docs = card (fst ` set m)" using distinct_card [of "map fst m"] m(2) by simp
  then show ?thesis by (simp only: k)
qed

lemma writeTestDocs_last:
  assumes "writeTestDocs read root docs disk = Inr disk'"
  shows "disk' (root @ wikiPath @ name @ ''.md'') =
     (case filter (\<lambda>d. doc_Name d = name) docs of [] \<Rightarrow> disk (root @ wikiPath @ name @ ''.md'') | ds \<Rightarrow> read (doc_Path (last ds)))"
  using assms
proof (induction read root docs disk rule: writeTestDocs.induct)
  case (2 read root doc docs disk)
  then obtain f where f: "read (doc_Path doc) = Some f" by (auto split: option.splits)
  then have "writeTestDocs read root docs (disk(root @ wikiPath @ doc_Name doc @ ''.md'' \<mapsto> f)) = Inr disk'" using "2.prems" by simp
  from "2.IH" [OF f this] show ?case using f by (auto split: list.splits)
qed simp

text \<open>All documents are on disk under the names of their tests if these are different; of two tests with the same directory name the later
  document replaces the earlier one.\<close>

theorem writeTestDocs_documents:
  assumes "writeTestDocs read root docs Map.empty = Inr disk"
  shows "(distinct (map doc_Name docs) \<longrightarrow> (\<forall>d\<in>set docs. disk (root @ wikiPath @ doc_Name d @ ''.md'') = read (doc_Path d)))
    \<and> (\<forall>ds d es e fs. docs = ds @ d # es @ e # fs \<and> doc_Name d = doc_Name e \<and> doc_Name e \<notin> doc_Name ` set fs
         \<longrightarrow> disk (root @ wikiPath @ doc_Name d @ ''.md'') = read (doc_Path e))"
proof (intro conjI impI allI ballI)
  note w = writeTestDocs_last [OF assms]
  fix d assume dis: "distinct (map doc_Name docs)" and d: "d \<in> set docs"
  then have "filter (\<lambda>x. doc_Name x = doc_Name d) docs = [d]"
    by (induction docs) (auto simp: filter_empty_conv image_iff)
  then show "disk (root @ wikiPath @ doc_Name d @ ''.md'') = read (doc_Path d)" by (simp add: w)
next
  note w = writeTestDocs_last [OF assms]
  fix ds d es e fs assume a: "docs = ds @ d # es @ e # fs \<and> doc_Name d = doc_Name e \<and> doc_Name e \<notin> doc_Name ` set fs"
  then have "filter (\<lambda>x. doc_Name x = doc_Name e) fs = []" by (auto simp: filter_empty_conv image_iff)
  then obtain us where "filter (\<lambda>x. doc_Name x = doc_Name d) docs = us @ [e]" using a by auto
  then show "disk (root @ wikiPath @ doc_Name d @ ''.md'') = read (doc_Path e)" by (cases us) (simp_all add: w)
qed

theorem writeTestDocs_documents_witness:
  "\<exists>disk. writeTestDocs (\<lambda>p. Some p) ''out'' [\<lparr>doc_Name = ''t'', doc_Title = ''A'', doc_Path = ''a/t/README.md''\<rparr>, \<lparr>doc_Name = ''t'', doc_Title = ''B'', doc_Path = ''b/t/README.md''\<rparr>]
      Map.empty = Inr disk \<and> disk (''out/testplans/t.md'') = Some ''b/t/README.md''"
proof -
  let ?d = "\<lparr>doc_Name = ''t'', doc_Title = ''A'', doc_Path = ''a/t/README.md''\<rparr>"
  let ?e = "\<lparr>doc_Name = ''t'', doc_Title = ''B'', doc_Path = ''b/t/README.md''\<rparr>"
  obtain disk where w: "writeTestDocs (\<lambda>p. Some p) ''out'' [?d, ?e] Map.empty = Inr disk" by simp
  have "[?d, ?e] = [] @ ?d # [] @ ?e # [] \<and> doc_Name ?d = doc_Name ?e \<and> doc_Name ?e \<notin> doc_Name ` set []" by simp
  with writeTestDocs_documents [OF w] have "disk (''out'' @ wikiPath @ doc_Name ?d @ ''.md'') = Some (doc_Path ?e)" by blast
  then show ?thesis using w by (auto simp: wikiPath_def)
qed

text \<open>The texts of a badge are inside their boxes, and the boxes fill it.\<close>

lemma svgBadge_layout:
  "0 < badge_LabelAnchor (svgBadge l m) \<and> badge_LabelAnchor (svgBadge l m) < badge_LabelWidth (svgBadge l m)
   \<and> badge_LabelWidth (svgBadge l m) < badge_MessageAnchor (svgBadge l m) \<and> badge_MessageAnchor (svgBadge l m) < badge_Width (svgBadge l m)
   \<and> badge_Width (svgBadge l m) = badge_LabelWidth (svgBadge l m) + badge_MessageWidth (svgBadge l m)
   \<and> estimateStringWidth (badge_Label (svgBadge l m)) \<le> badge_LabelWidth (svgBadge l m)
   \<and> estimateStringWidth (badge_Message (svgBadge l m)) \<le> badge_MessageWidth (svgBadge l m)"
proof -
  have half: "0 < w div 2 \<and> w div 2 < w" if "80 \<le> w" for w :: int using that by presburger
  show ?thesis by (simp add: svgBadge_def Let_def half)
qed
end
