(* ===== verification/Device_Helpers.thy ===== *)
theory Device_Helpers
  imports FP_Prelude "HOL-Library.AList"
begin

text \<open>
  Helpers for devices: the ACL entries of P4RT and the P4RT nodes of ports (\<^verbatim>\<open>internal/p4rtutils\<close>), the components of a
  device and their caches (\<^verbatim>\<open>internal/components\<close>), interface attributes (\<^verbatim>\<open>internal/attrs\<close>) and port speeds
  (\<^verbatim>\<open>internal/fptest/portspeed.go\<close>).

  What a device answers is a parameter. The generated OpenConfig structs are records with the fields that the code sets.
\<close>

unbundle bit_operations_syntax

section \<open>\<^verbatim>\<open>p4rtutils.go\<close>: ACL entries\<close>

type_synonym byte = "8 word"

record ACLWbbIngressTableEntryInfo =
  acl_Type :: nat
  IsIpv4 :: byte
  IsIpv6 :: byte
  EtherType :: "16 word"
  EtherTypeMask :: "16 word"
  acl_TTL :: byte
  TTLMask :: byte
  OuterVlanID :: "16 word"
  OuterVlanIDMask :: "16 word"
  acl_Priority :: "32 word"
  acl_Metadata :: string

datatype field_match = FieldOptional nat "byte list" | FieldTernary nat "byte list" "byte list"

record acl_update =
  upd_Type :: nat
  TableId :: nat
  upd_Match :: "field_match list"
  ActionId :: nat
  upd_Priority :: "32 word"
  upd_Metadata :: string

definition WbbTableMap :: "string \<rightharpoonup> nat" where "WbbTableMap = [''acl_wbb_ingress_table'' \<mapsto> 33554691]"

definition WbbActionsMap :: "string \<rightharpoonup> nat" where
  "WbbActionsMap = [''acl_wbb_ingress_copy'' \<mapsto> 16777479, ''acl_wbb_ingress_trap'' \<mapsto> 16777480]"

definition WbbMatchMap :: "string \<rightharpoonup> nat" where
  "WbbMatchMap = [''is_ipv4'' \<mapsto> 1, ''is_ipv6'' \<mapsto> 2, ''ether_type'' \<mapsto> 3, ''ttl'' \<mapsto> 4, ''outer_vlan_id'' \<mapsto> 5]"

text \<open>Looking up a missing key of a Go map gives zero.\<close>

definition at :: "(string \<rightharpoonup> nat) \<Rightarrow> string \<Rightarrow> nat" where
  "at m k = (case m k of None \<Rightarrow> 0 | Some v \<Rightarrow> v)"

definition ether_bytes :: "16 word \<Rightarrow> byte list" where
  "ether_bytes x = [ucast (drop_bit 8 x), ucast (x AND 0xFF)]"

definition vlan_bytes :: "16 word \<Rightarrow> byte list" where
  "vlan_bytes x = [ucast (drop_bit 8 x AND 0xF), ucast (x AND 0xFF)]"

definition matchFields :: "ACLWbbIngressTableEntryInfo \<Rightarrow> field_match list" where
  "matchFields info =
     (if IsIpv4 info > 0 then [FieldOptional (at WbbMatchMap ''is_ipv4'') [IsIpv4 info]] else [])
     @ (if IsIpv6 info > 0 then [FieldOptional (at WbbMatchMap ''is_ipv6'') [IsIpv6 info]] else [])
     @ (if EtherTypeMask info > 0
        then [FieldTernary (at WbbMatchMap ''ether_type'') (ether_bytes (EtherType info)) (ether_bytes (EtherTypeMask info))] else [])
     @ (if TTLMask info > 0 then [FieldTernary (at WbbMatchMap ''ttl'') [acl_TTL info] [TTLMask info]] else [])
     @ (if OuterVlanIDMask info > 0
        then [FieldTernary (at WbbMatchMap ''outer_vlan_id'') (vlan_bytes (OuterVlanID info)) (vlan_bytes (OuterVlanIDMask info))] else [])"

definition aclWbbIngressTableEntryGet :: "ACLWbbIngressTableEntryInfo \<Rightarrow> acl_update" where
  "aclWbbIngressTableEntryGet info =
     \<lparr>upd_Type = acl_Type info, TableId = at WbbTableMap ''acl_wbb_ingress_table'', upd_Match = matchFields info,
      ActionId = at WbbActionsMap ''acl_wbb_ingress_trap'',
      upd_Priority = (if acl_Priority info = 0 \<and> length (matchFields info) > 0 then 1 else acl_Priority info),
      upd_Metadata = acl_Metadata info\<rparr>"

text \<open>A nil entry ends the program.\<close>

fun ACLWbbIngressTableEntryGet :: "ACLWbbIngressTableEntryInfo option list \<Rightarrow> acl_update list option" where
  "ACLWbbIngressTableEntryGet [] = Some []"
| "ACLWbbIngressTableEntryGet (None # infoList) = None"
| "ACLWbbIngressTableEntryGet (Some info # infoList) =
     map_option (\<lambda>us. aclWbbIngressTableEntryGet info # us) (ACLWbbIngressTableEntryGet infoList)"


section \<open>\<^verbatim>\<open>p4rtutils.go\<close>: nodes of ports\<close>

text \<open>The ports of the device (identifier and name) and what the device says: the hardware port of an interface, the parent and the
  type of a component.\<close>

datatype comp_type = INTEGRATED_CIRCUIT | OtherHardware nat | SoftwareType nat

record p4_device =
  dev_ports :: "(string \<times> string) list"
  hardwarePort :: "string \<Rightarrow> string option"
  parent :: "string \<Rightarrow> string option"
  compType :: "string \<Rightarrow> comp_type option"

definition add_port :: "p4_device \<Rightarrow> string \<times> string \<Rightarrow> (string \<times> string list) list \<Rightarrow> (string \<times> string list) list" where
  "add_port dut p ports =
     (case hardwarePort dut (snd p) of
        None \<Rightarrow> ports
      | Some v \<Rightarrow> (case map_of ports v of None \<Rightarrow> ports @ [(v, [fst p])] | Some ids \<Rightarrow> AList.update v (ids @ [fst p]) ports))"

definition port_node :: "p4_device \<Rightarrow> string \<Rightarrow> string option" where
  "port_node dut hp =
     (case parent dut hp of
        None \<Rightarrow> None
      | Some v \<Rightarrow> (if compType dut v = Some INTEGRATED_CIRCUIT then Some v else None))"

text \<open>The loops over the hardware ports, in the order \<open>ord\<close> of the runtime: the loop over the nodes visits the same keys.\<close>

definition P4RTNodesByPort :: "((string \<times> string list) list \<Rightarrow> (string \<times> string list) list) \<Rightarrow> p4_device \<Rightarrow> (string \<rightharpoonup> string)" where
  "P4RTNodesByPort ord dut =
     (let ports = fold (add_port dut) (dev_ports dut) [] in
      fold (\<lambda>(hp, ids) res. case port_node dut hp of None \<Rightarrow> res | Some v \<Rightarrow> fold (\<lambda>p r. r(p \<mapsto> v)) ids res) (ord ports) Map.empty)"


section \<open>\<^verbatim>\<open>components.go\<close>\<close>

record Component =
  comp_Name :: string
  comp_Type :: "comp_type option"
  OperActive :: bool

text \<open>The cache of the package, by the name of the device; \<open>fetch\<close> is what the device answers now.\<close>

type_synonym components_cache = "string \<rightharpoonup> Component list"

definition fetchCachedComponents :: "string \<Rightarrow> Component list \<Rightarrow> components_cache \<Rightarrow> Component list \<times> components_cache" where
  "fetchCachedComponents dut fetch cache =
     (case cache dut of Some cached \<Rightarrow> (cached, cache) | None \<Rightarrow> (fetch, cache(dut \<mapsto> fetch)))"

definition is_hardware :: "comp_type \<Rightarrow> bool" where
  "is_hardware t \<longleftrightarrow> (case t of SoftwareType _ \<Rightarrow> False | _ \<Rightarrow> True)"

definition FindComponentsByType :: "string \<Rightarrow> Component list \<Rightarrow> comp_type \<Rightarrow> components_cache \<Rightarrow> string list \<times> components_cache" where
  "FindComponentsByType dut fetch cType cache =
     (let (components, cache') = fetchCachedComponents dut fetch cache in
      (map comp_Name (filter (\<lambda>c. case comp_Type c of None \<Rightarrow> False | Some v \<Rightarrow> is_hardware v \<and> v = cType) components), cache'))"

definition FindSWComponentsByType :: "string \<Rightarrow> Component list \<Rightarrow> comp_type \<Rightarrow> components_cache \<Rightarrow> string list \<times> components_cache" where
  "FindSWComponentsByType dut fetch cType cache =
     (let (components, cache') = fetchCachedComponents dut fetch cache in
      (map comp_Name (filter (\<lambda>c. case comp_Type c of None \<Rightarrow> False | Some v \<Rightarrow> \<not> is_hardware v \<and> v = cType) components), cache'))"

definition FindActiveComponentsByType :: "Component list \<Rightarrow> comp_type \<Rightarrow> string list" where
  "FindActiveComponentsByType fetch cType =
     map comp_Name (filter (\<lambda>c. case comp_Type c of None \<Rightarrow> False | Some v \<Rightarrow> is_hardware v \<and> v = cType \<and> OperActive c) fetch)"

definition FindMatchingStrings :: "string list \<Rightarrow> (string \<Rightarrow> bool) \<Rightarrow> string list" where
  "FindMatchingStrings components r = filter r components"

record path =
  path_Origin :: string
  path_Elem :: "(string \<times> (string \<times> string) list) list"

definition GetSubcomponentPath :: "string \<Rightarrow> bool \<Rightarrow> path" where
  "GetSubcomponentPath name useNameOnly =
     (if useNameOnly then \<lparr>path_Origin = [], path_Elem = [(name, [])]\<rparr>
      else \<lparr>path_Origin = ''openconfig'', path_Elem = [(''components'', []), (''component'', [(''name'', name)])]\<rparr>)"

text \<open>\<^verbatim>\<open>FindByType\<close> has the helper by value: a missing cache is created for the call only. \<open>lookup\<close> is what the device answers: the names and
  types of its components, or an error.\<close>

datatype find_err = LookupErr | NoneMatch nat

type_synonym type_cache = "(comp_type \<times> string list) list option"

definition names_of_type :: "(string \<times> comp_type option) list \<Rightarrow> comp_type \<Rightarrow> string list" where
  "names_of_type values want = map fst (filter (\<lambda>v. snd v = Some want) values)"

definition FindByType ::
  "(string \<times> comp_type option) list option \<Rightarrow> comp_type \<Rightarrow> type_cache \<Rightarrow> (find_err, string list) res \<times> type_cache" where
  "FindByType lookup want typeCache =
     (case (case typeCache of None \<Rightarrow> None | Some c \<Rightarrow> map_of c want) of
        Some cached \<Rightarrow> (Inr cached, typeCache)
      | None \<Rightarrow>
          (case lookup of
             None \<Rightarrow> (Inl LookupErr, typeCache)
           | Some values \<Rightarrow>
               (let names = names_of_type values want in
                if length names < 1 then (Inl (NoneMatch (length values)), typeCache)
                else (Inr names, map_option (\<lambda>c. (want, names) # c) typeCache))))"

datatype role = PRIMARY | SECONDARY | OtherRole

datatype cc_err = NoRole string | BadRole string | MissingController

fun standby_loop :: "(string \<Rightarrow> role option) \<Rightarrow> string list \<Rightarrow> string \<times> string \<Rightarrow> (cc_err, string \<times> string) res" where
  "standby_loop roles [] st = Inr st"
| "standby_loop roles (supervisor # ss) (standbyCC, activeCC) =
     (case roles supervisor of
        None \<Rightarrow> Inl (NoRole supervisor)
      | Some SECONDARY \<Rightarrow> standby_loop roles ss (supervisor, activeCC)
      | Some PRIMARY \<Rightarrow> standby_loop roles ss (standbyCC, supervisor)
      | Some OtherRole \<Rightarrow> Inl (BadRole supervisor))"

definition FindStandbyControllerCard :: "(string \<Rightarrow> role option) \<Rightarrow> string list \<Rightarrow> (cc_err, string \<times> string) res" where
  "FindStandbyControllerCard roles supervisors =
     bind_res (standby_loop roles supervisors ([], [])) (\<lambda>(standbyCC, activeCC).
       if standbyCC = [] \<or> activeCC = [] then Inl MissingController else Inr (standbyCC, activeCC))"

datatype optical_err = ManualName | NoTransceiver | NoOpticalChannel

definition OpticalChannelComponentFromPort :: "bool \<Rightarrow> bool \<Rightarrow> string \<Rightarrow> (string \<Rightarrow> string) \<Rightarrow> (optical_err, string) res" where
  "OpticalChannelComponentFromPort missing_mapping arista transceiverName channel0 =
     (if missing_mapping
      then (if arista then Inr (transceiverName @ ''-Optical0'') else Inl ManualName)
      else if transceiverName = [] then Inl NoTransceiver
      else if channel0 transceiverName = [] then Inl NoOpticalChannel
      else Inr (channel0 transceiverName))"


section \<open>\<^verbatim>\<open>attrs.go\<close>\<close>

record Attributes =
  att_IPv4 :: string
  att_IPv4Sec :: string
  att_IPv6 :: string
  att_MAC :: string
  att_Desc :: string
  att_Subinterface :: "32 word"
  att_IPv4Len :: byte
  att_IPv4LenSec :: byte
  att_IPv6Len :: byte
  att_MTU :: "16 word"
  att_Duplex :: string

record attr_deviations =
  InterfaceEnabled :: bool
  OmitL2MTU :: bool
  IPv4MissingEnabled :: bool

record address =
  PrefixLength :: "byte option"
  Secondary :: bool

record 'm ip_config =
  ip_Enabled :: bool
  ip_Mtu :: "'m option"
  Address :: "string \<rightharpoonup> address"

record subinterface =
  sub_Ipv4 :: "(16 word) ip_config option"
  sub_Ipv6 :: "(32 word) ip_config option"

datatype DuplexMode = DUPLEX_UNSET | DUPLEX_FULL | DUPLEX_HALF

record Interface =
  if_Name :: string
  if_Description :: "string option"
  if_ethernet :: bool
  if_Enabled :: bool
  if_Mtu :: "(16 word) option"
  if_MacAddress :: "string option"
  if_DuplexMode :: DuplexMode
  if_Subinterface :: "32 word \<rightharpoonup> subinterface"

definition IPv4CIDR :: "Attributes \<Rightarrow> string" where "IPv4CIDR a = att_IPv4 a @ ''/'' @ dec (unat (att_IPv4Len a))"
definition IPv6CIDR :: "Attributes \<Rightarrow> string" where "IPv6CIDR a = att_IPv6 a @ ''/'' @ dec (unat (att_IPv6Len a))"

definition new_ip :: "'m ip_config" where "new_ip = \<lparr>ip_Enabled = False, ip_Mtu = None, Address = Map.empty\<rparr>"
definition new_sub :: subinterface where "new_sub = \<lparr>sub_Ipv4 = None, sub_Ipv6 = None\<rparr>"
definition new_address :: address where "new_address = \<lparr>PrefixLength = None, Secondary = False\<rparr>"

definition getOrCreate :: "'a \<Rightarrow> 'a option \<Rightarrow> 'a" where "getOrCreate d x = (case x of None \<Rightarrow> d | Some y \<Rightarrow> y)"

definition set_address :: "string \<Rightarrow> (address \<Rightarrow> address) \<Rightarrow> 'm ip_config \<Rightarrow> 'm ip_config" where
  "set_address ip f c = c\<lparr>Address := (Address c)(ip \<mapsto> f (getOrCreate new_address (Address c ip)))\<rparr>"

definition set_enabled :: "bool \<Rightarrow> 'm ip_config \<Rightarrow> 'm ip_config" where
  "set_enabled b c = (if b then c\<lparr>ip_Enabled := True\<rparr> else c)"

definition set_length :: "byte \<Rightarrow> address \<Rightarrow> address" where
  "set_length l a = (if l > 0 then a\<lparr>PrefixLength := Some l\<rparr> else a)"

definition config_v4 :: "Attributes \<Rightarrow> attr_deviations \<Rightarrow> subinterface \<Rightarrow> subinterface" where
  "config_v4 a dv s =
     (if att_IPv4 a = [] then s
      else let s4 = set_enabled (InterfaceEnabled dv \<and> \<not> IPv4MissingEnabled dv) (getOrCreate new_ip (sub_Ipv4 s));
               s4 = (if att_MTU a > 0 then s4\<lparr>ip_Mtu := Some (att_MTU a)\<rparr> else s4) in
           s\<lparr>sub_Ipv4 := Some (set_address (att_IPv4 a) (set_length (att_IPv4Len a)) s4)\<rparr>)"

definition config_v4sec :: "Attributes \<Rightarrow> attr_deviations \<Rightarrow> subinterface \<Rightarrow> subinterface" where
  "config_v4sec a dv s =
     (if att_IPv4Sec a = [] then s
      else let s4 = set_enabled (InterfaceEnabled dv \<and> \<not> IPv4MissingEnabled dv) (getOrCreate new_ip (sub_Ipv4 s)) in
           s\<lparr>sub_Ipv4 := Some (set_address (att_IPv4Sec a)
               (\<lambda>x. if att_IPv4LenSec a > 0 then x\<lparr>PrefixLength := Some (att_IPv4LenSec a), Secondary := True\<rparr> else x) s4)\<rparr>)"

definition config_v6 :: "Attributes \<Rightarrow> attr_deviations \<Rightarrow> subinterface \<Rightarrow> subinterface" where
  "config_v6 a dv s =
     (if att_IPv6 a = [] then s
      else let s6 = getOrCreate new_ip (sub_Ipv6 s);
               s6 = (if att_MTU a > 0 then s6\<lparr>ip_Mtu := Some (ucast (att_MTU a))\<rparr> else s6) in
           s\<lparr>sub_Ipv6 := Some (set_address (att_IPv6 a) (set_length (att_IPv6Len a)) (set_enabled (InterfaceEnabled dv) s6))\<rparr>)"

definition config_ethernet :: "Attributes \<Rightarrow> attr_deviations \<Rightarrow> Interface \<Rightarrow> Interface" where
  "config_ethernet a dv intf =
     (let i = (if att_Desc a \<noteq> [] then intf\<lparr>if_Description := Some (att_Desc a)\<rparr> else intf);
          i = i\<lparr>if_ethernet := True\<rparr>;
          i = (if InterfaceEnabled dv then i\<lparr>if_Enabled := True\<rparr> else i);
          i = (if att_MTU a > 0 \<and> \<not> OmitL2MTU dv then i\<lparr>if_Mtu := Some (att_MTU a + 14)\<rparr> else i);
          i = (if att_MAC a \<noteq> [] then i\<lparr>if_MacAddress := Some (att_MAC a)\<rparr> else i) in
      if att_Duplex a = ''FULL'' then i\<lparr>if_DuplexMode := DUPLEX_FULL\<rparr>
      else if att_Duplex a = ''HALF'' then i\<lparr>if_DuplexMode := DUPLEX_HALF\<rparr> else i)"

definition ConfigOCInterface :: "Attributes \<Rightarrow> attr_deviations \<Rightarrow> Interface \<Rightarrow> Interface" where
  "ConfigOCInterface a dv intf =
     (let i = config_ethernet a dv intf;
          s = getOrCreate new_sub (if_Subinterface i (att_Subinterface a)) in
      i\<lparr>if_Subinterface := (if_Subinterface i)(att_Subinterface a \<mapsto> config_v6 a dv (config_v4sec a dv (config_v4 a dv s)))\<rparr>)"

definition NewOCInterface :: "Attributes \<Rightarrow> string \<Rightarrow> attr_deviations \<Rightarrow> Interface" where
  "NewOCInterface a name dv =
     ConfigOCInterface a dv
       \<lparr>if_Name = name, if_Description = None, if_ethernet = False, if_Enabled = False, if_Mtu = None, if_MacAddress = None,
        if_DuplexMode = DUPLEX_UNSET, if_Subinterface = Map.empty\<rparr>"


section \<open>\<^verbatim>\<open>portspeed.go\<close>\<close>

datatype Speed = Speed1Gb | Speed5Gb | Speed10Gb | Speed100Gb | Speed400Gb | Speed800Gb | OtherSpeed

datatype ethernet_speed =
    SPEED_UNSET | SPEED_10MB | SPEED_100MB | SPEED_1GB | SPEED_2500MB | SPEED_5GB | SPEED_10GB | SPEED_25GB | SPEED_40GB | SPEED_50GB
  | SPEED_100GB | SPEED_200GB | SPEED_400GB | SPEED_600GB | SPEED_800GB | SPEED_OTHER

fun portSpeed :: "Speed \<Rightarrow> ethernet_speed option" where
  "portSpeed Speed1Gb = Some SPEED_1GB"
| "portSpeed Speed5Gb = Some SPEED_5GB"
| "portSpeed Speed10Gb = Some SPEED_10GB"
| "portSpeed Speed100Gb = Some SPEED_100GB"
| "portSpeed Speed400Gb = Some SPEED_400GB"
| "portSpeed Speed800Gb = Some SPEED_800GB"
| "portSpeed OtherSpeed = None"

fun enumToSpeedInfoMap :: "ethernet_speed \<Rightarrow> (string \<times> 64 word) option" where
  "enumToSpeedInfoMap SPEED_10MB = Some (''10M'', 10000000)"
| "enumToSpeedInfoMap SPEED_100MB = Some (''100M'', 100000000)"
| "enumToSpeedInfoMap SPEED_1GB = Some (''1G'', 1000000000)"
| "enumToSpeedInfoMap SPEED_2500MB = Some (''2500M'', 2500000000)"
| "enumToSpeedInfoMap SPEED_5GB = Some (''5G'', 5000000000)"
| "enumToSpeedInfoMap SPEED_10GB = Some (''10G'', 10000000000)"
| "enumToSpeedInfoMap SPEED_25GB = Some (''25G'', 25000000000)"
| "enumToSpeedInfoMap SPEED_40GB = Some (''40G'', 40000000000)"
| "enumToSpeedInfoMap SPEED_50GB = Some (''50G'', 50000000000)"
| "enumToSpeedInfoMap SPEED_100GB = Some (''100G'', 100000000000)"
| "enumToSpeedInfoMap SPEED_200GB = Some (''200G'', 200000000000)"
| "enumToSpeedInfoMap SPEED_400GB = Some (''400G'', 400000000000)"
| "enumToSpeedInfoMap SPEED_600GB = Some (''600G'', 600000000000)"
| "enumToSpeedInfoMap SPEED_800GB = Some (''800G'', 800000000000)"
| "enumToSpeedInfoMap _ = None"

text \<open>The update sent to the device, if any.\<close>

definition SetPortSpeed :: "Speed \<Rightarrow> ethernet_speed option" where "SetPortSpeed s = portSpeed s"

definition GetIfSpeed :: "Speed \<Rightarrow> ethernet_speed" where
  "GetIfSpeed s = (case portSpeed s of None \<Rightarrow> SPEED_UNSET | Some v \<Rightarrow> v)"

definition EthernetSpeedToUint64 :: "ethernet_speed \<Rightarrow> 64 word" where
  "EthernetSpeedToUint64 speed = (case enumToSpeedInfoMap speed of None \<Rightarrow> 0 | Some i \<Rightarrow> snd i)"


section \<open>What an ACL entry matches\<close>

text \<open>The header of a packet, in the fields of the table, and the matches of P4Runtime, where a byte string stands for a number, high byte first: an optional field is
  equal, a ternary field agrees on the bits of its mask. A VLAN identifier has twelve bits.\<close>

definition be_value :: "byte list \<Rightarrow> nat" where
  "be_value = foldl (\<lambda>n b. n * 256 + unat b) 0"

record acl_packet =
  pkt_ipv4 :: byte
  pkt_ipv6 :: byte
  pkt_ether :: "16 word"
  pkt_ttl :: byte
  pkt_vlan :: "12 word"

definition packet_field :: "acl_packet \<Rightarrow> nat \<Rightarrow> nat" where
  "packet_field p i =
     (if i = 1 then unat (pkt_ipv4 p) else if i = 2 then unat (pkt_ipv6 p) else if i = 3 then unat (pkt_ether p)
      else if i = 4 then unat (pkt_ttl p) else if i = 5 then unat (pkt_vlan p) else 0)"

fun field_matches :: "acl_packet \<Rightarrow> field_match \<Rightarrow> bool" where
  "field_matches p (FieldOptional i v) = (packet_field p i = be_value v)"
| "field_matches p (FieldTernary i v m) = (packet_field p i AND be_value m = be_value v AND be_value m)"

definition entry_matches :: "acl_packet \<Rightarrow> acl_update \<Rightarrow> bool" where
  "entry_matches p u \<longleftrightarrow> list_all (field_matches p) (upd_Match u)"

lemma byte_masks: "(0xFF :: 16 word) = mask 8" "(0xF :: 16 word) = mask 4" "(0xFFF :: 16 word) = mask 12"
  by (simp_all add: mask_eq_exp_minus_1)

lemma be_value_byte: "be_value [b] = unat b" by (simp add: be_value_def)

lemma low_bits:
  "unat (x AND 0xFF) = unat x mod 256" "unat (y AND 0xF) = unat y mod 16" for x y :: "16 word"
proof -
  have "x AND 0xFF = take_bit 8 x" "y AND 0xF = take_bit 4 y" by (simp_all add: take_bit_eq_mask byte_masks)
  then show "unat (x AND 0xFF) = unat x mod 256" "unat (y AND 0xF) = unat y mod 16"
    by (simp_all add: take_bit_eq_mod unat_mod)
qed

lemma high_byte: "unat (drop_bit 8 x) = unat x div 256" for x :: "16 word"
  by (simp add: drop_bit_eq_div unat_div)

lemma byte_of: "unat (ucast x :: byte) = unat x mod 256" for x :: "16 word"
  by (simp add: unsigned_ucast_eq take_bit_eq_mod)

text \<open>The bytes are the numbers, high byte first.\<close>

lemma be_value_ether: "be_value (ether_bytes x) = unat x"
proof -
  have "unat x div 256 < 256" using unsigned_less [of x, where 'a = nat] by simp
  then show ?thesis by (simp add: be_value_def ether_bytes_def byte_of high_byte low_bits)
qed

lemma be_value_vlan: "be_value (vlan_bytes x) = unat (ucast x :: 12 word)"
proof -
  have "unat x mod 4096 = unat x div 256 mod 16 * 256 + unat x mod 256" using mod_mult2_eq [of "unat x" 256 16] by simp
  then show ?thesis by (simp add: be_value_def vlan_bytes_def byte_of high_byte low_bits unsigned_ucast_eq take_bit_eq_mod)
qed

lemma unat_masked: "unat x AND unat m = unat y AND unat m \<longleftrightarrow> x AND m = y AND m" for x y m :: "'a::len word"
  by (simp add: word_unat_eq_iff unsigned_and_eq)

lemma match_ids:
  "at WbbMatchMap ''is_ipv4'' = 1" "at WbbMatchMap ''is_ipv6'' = 2" "at WbbMatchMap ''ether_type'' = 3" "at WbbMatchMap ''ttl'' = 4"
  "at WbbMatchMap ''outer_vlan_id'' = 5"
  by (simp_all add: at_def WbbMatchMap_def)

lemma field_if: "list_all P (if c then [x] else []) \<longleftrightarrow> (c \<longrightarrow> P x)" by simp

lemma guard_flag: "(0 < v \<longrightarrow> x = v) \<longleftrightarrow> v = 0 \<or> x = v" for v :: "'a::len word" by (auto simp: word_gt_0)
lemma guard_mask: "(0 < m \<longrightarrow> x AND m = y AND m) \<longleftrightarrow> x AND m = y AND m" for m :: "'a::len word" by (cases "m = 0") (auto simp: word_gt_0)

text \<open>C29: An entry, read as P4Runtime reads its byte strings, matches the packets that its description asks for: the given value of a flag, if it is not zero, and the
  bits of every mask, of the VLAN identifier the lower twelve.\<close>

theorem acl_entry_matches:
  "(entry_matches p (aclWbbIngressTableEntryGet info) \<longleftrightarrow>
     (IsIpv4 info = 0 \<or> pkt_ipv4 p = IsIpv4 info) \<and> (IsIpv6 info = 0 \<or> pkt_ipv6 p = IsIpv6 info)
     \<and> pkt_ether p AND EtherTypeMask info = EtherType info AND EtherTypeMask info
     \<and> pkt_ttl p AND TTLMask info = acl_TTL info AND TTLMask info
     \<and> pkt_vlan p AND ucast (OuterVlanIDMask info) = ucast (OuterVlanID info) AND ucast (OuterVlanIDMask info))"
proof -
  have v: "(0 < OuterVlanIDMask info \<longrightarrow> pkt_vlan p AND ucast (OuterVlanIDMask info) = ucast (OuterVlanID info) AND ucast (OuterVlanIDMask info))
      \<longleftrightarrow> pkt_vlan p AND ucast (OuterVlanIDMask info) = ucast (OuterVlanID info) AND ucast (OuterVlanIDMask info)"
    by (cases "OuterVlanIDMask info = 0") (auto simp: word_gt_0)
  show ?thesis
    unfolding entry_matches_def aclWbbIngressTableEntryGet_def acl_update.select_convs matchFields_def list_all_append field_if match_ids field_matches.simps
      be_value_ether be_value_vlan be_value_byte
    by (simp add: packet_field_def unat_masked guard_mask v flip: guard_flag word_unat_eq_iff)
qed

lemma sint_small: "unat (w :: 32 word) < 2147483648 \<Longrightarrow> sint w = uint w"
proof -
  assume "unat w < 2147483648"
  then have "int (unat w) < 2147483648" by linarith
  then have "uint w < 2147483648" by simp
  moreover have "0 \<le> uint w" by simp
  then have "- 2147483648 \<le> uint w" by linarith
  ultimately show ?thesis by (simp add: sint_uint signed_take_bit_int_eq_self_iff)
qed

lemma sint_large: "2147483648 \<le> unat (w :: 32 word) \<Longrightarrow> sint w < 0"
proof -
  assume "2147483648 \<le> unat w"
  then have "2147483648 \<le> int (unat w)" by linarith
  moreover have "uint w < 4294967296" using uint_lt2p [of w] by simp
  ultimately have "uint w div 2147483648 = 1" by simp
  then show ?thesis by (simp add: sint_uint bit_iff_odd)
qed

text \<open>An entry with a match has a positive priority, as P4RT requires, exactly when the given priority fits in 31 bits.\<close>

theorem acl_priority_positive:
  assumes "matchFields info \<noteq> []"
  shows "0 < sint (upd_Priority (aclWbbIngressTableEntryGet info)) \<longleftrightarrow> unat (acl_Priority info) < 2147483648"
proof (cases "acl_Priority info = 0")
  case True
  then show ?thesis using assms by (simp add: aclWbbIngressTableEntryGet_def)
next
  case False
  then have pos: "0 < uint (acl_Priority info)" by (metis uint_0_iff uint_ge_0 order_le_imp_less_or_eq)
  have "upd_Priority (aclWbbIngressTableEntryGet info) = acl_Priority info" using False by (simp add: aclWbbIngressTableEntryGet_def)
  then show ?thesis using pos sint_small [of "acl_Priority info"] sint_large [of "acl_Priority info"]
    by (cases "unat (acl_Priority info) < 2147483648") auto
qed

theorem acl_priority_positive_witness:
  "sint (upd_Priority (aclWbbIngressTableEntryGet
     \<lparr>acl_Type = 1, IsIpv4 = 1, IsIpv6 = 0, EtherType = 0, EtherTypeMask = 0, acl_TTL = 0, TTLMask = 0, OuterVlanID = 0, OuterVlanIDMask = 0,
      acl_Priority = 0, acl_Metadata = []\<rparr>)) > 0"
  by (subst acl_priority_positive) (simp_all add: matchFields_def)


section \<open>Nodes of ports\<close>

definition port_pairs :: "(string \<times> string list) list \<Rightarrow> (string \<times> string) set" where
  "port_pairs ports = {(i, hp). \<exists>ids. (hp, ids) \<in> set ports \<and> i \<in> set ids}"

lemma set_AList_update: "distinct (map fst al) \<Longrightarrow> set (AList.update k v al) = insert (k, v) {x \<in> set al. fst x \<noteq> k}"
proof (induction al)
  case (Cons x al)
  have "k \<notin> fst ` set al \<Longrightarrow> {x \<in> set al. fst x \<noteq> k} = set al" by force
  with Cons show ?case by (cases x) auto
qed simp

lemma port_pairs_update:
  assumes "distinct (map fst ports)" and "map_of ports v = Some ids"
  shows "port_pairs (AList.update v (ids @ [i]) ports) = insert (i, v) (port_pairs ports)"
proof -
  have "(v, js) \<in> set ports \<longleftrightarrow> js = ids" for js using assms by (metis map_of_eq_Some_iff map_of_is_SomeI option.inject)
  then have "(a, b) \<in> port_pairs (AList.update v (ids @ [i]) ports) \<longleftrightarrow> (a, b) \<in> insert (i, v) (port_pairs ports)" for a b
    by (cases "b = v") (auto simp: port_pairs_def set_AList_update [OF assms(1)])
  then show ?thesis by auto
qed

lemma add_port_pairs:
  assumes "distinct (map fst ports)"
  shows "distinct (map fst (add_port dut p ports))"
    and "port_pairs (add_port dut p ports) = port_pairs ports \<union> {(fst p, v) | v. hardwarePort dut (snd p) = Some v}"
proof -
  show "distinct (map fst (add_port dut p ports))"
    using assms by (auto simp: add_port_def distinct_update map_of_eq_None_iff split: option.split)
  show "port_pairs (add_port dut p ports) = port_pairs ports \<union> {(fst p, v) | v. hardwarePort dut (snd p) = Some v}"
  proof (cases "hardwarePort dut (snd p)")
    case (Some v)
    show ?thesis
    proof (cases "map_of ports v")
      case None
      then show ?thesis using Some by (auto simp: add_port_def port_pairs_def)
    next
      fix ids assume "map_of ports v = Some ids"
      then show ?thesis using Some port_pairs_update [OF assms] by (simp add: add_port_def)
    qed
  qed (simp add: add_port_def)
qed

lemma ports_pairs:
  "distinct (map fst ports) \<Longrightarrow> port_pairs (fold (add_port dut) ps ports) = port_pairs ports \<union> {(i, v). \<exists>n. (i, n) \<in> set ps \<and> hardwarePort dut n = Some v}"
proof (induction ps arbitrary: ports)
  case (Cons p ps)
  then show ?case using add_port_pairs [OF Cons.prems, of dut p] by (cases p) auto
qed simp

lemma fold_upd_same: "fold (\<lambda>p r. r(p \<mapsto> v)) ids r i = (if i \<in> set ids then Some v else r i)"
  by (induction ids arbitrary: r) auto

text \<open>A port is mapped to the parent of its hardware port if that is an integrated circuit, whatever the order of the loops.\<close>

theorem P4RTNodesByPort_nodes:
  assumes "distinct (map fst (dev_ports dut))" and "\<And>xs. set (ord xs) = set xs"
  shows "P4RTNodesByPort ord dut i = Some v \<longleftrightarrow>
     (\<exists>n hp. (i, n) \<in> set (dev_ports dut) \<and> hardwarePort dut n = Some hp \<and> parent dut hp = Some v \<and> compType dut v = Some INTEGRATED_CIRCUIT)"
proof -
  let ?f = "\<lambda>(hp, ids) res. case port_node dut hp of None \<Rightarrow> res | Some v \<Rightarrow> fold (\<lambda>p r. r(p \<mapsto> v)) ids res"
  have sound: "fold ?f ports r i = Some v \<Longrightarrow> r i = Some v \<or> (\<exists>hp. (i, hp) \<in> port_pairs ports \<and> port_node dut hp = Some v)" for ports r v
  proof (induction ports arbitrary: r)
    case (Cons x ports)
    obtain hp ids where x: "x = (hp, ids)" by (cases x)
    from Cons.IH [of "?f x r"] Cons.prems show ?case by (auto simp: x port_pairs_def fold_upd_same split: option.splits if_splits)
  qed simp
  have complete: "r i \<noteq> None \<or> (\<exists>hp w. (i, hp) \<in> port_pairs ports \<and> port_node dut hp = Some w) \<Longrightarrow> fold ?f ports r i \<noteq> None" for ports r
  proof (induction ports arbitrary: r)
    case (Cons x ports)
    obtain hp ids where x: "x = (hp, ids)" by (cases x)
    have "?f x r i \<noteq> None \<or> (\<exists>hp w. (i, hp) \<in> port_pairs ports \<and> port_node dut hp = Some w)"
      using Cons.prems by (auto simp: x port_pairs_def fold_upd_same split: option.split)
    from Cons.IH [of "?f x r", OF this] show ?case by simp
  qed (simp add: port_pairs_def)
  let ?ports = "ord (fold (add_port dut) (dev_ports dut) [])"
  have "port_pairs ?ports = port_pairs (fold (add_port dut) (dev_ports dut) [])" by (simp add: port_pairs_def assms(2))
  then have pairs: "(i, hp) \<in> port_pairs ?ports \<longleftrightarrow> (\<exists>n. (i, n) \<in> set (dev_ports dut) \<and> hardwarePort dut n = Some hp)" for hp
    by (simp add: ports_pairs) (simp add: port_pairs_def)
  have uniq: "(i, n) \<in> set (dev_ports dut) \<Longrightarrow> (i, n') \<in> set (dev_ports dut) \<Longrightarrow> n = n'" for n n'
    using assms(1) by (metis map_of_is_SomeI option.inject)
  have node: "port_node dut hp = Some w \<longleftrightarrow> parent dut hp = Some w \<and> compType dut w = Some INTEGRATED_CIRCUIT" for hp w
    by (auto simp: port_node_def split: option.split)
  show ?thesis
  proof
    assume "P4RTNodesByPort ord dut i = Some v"
    then show "\<exists>n hp. (i, n) \<in> set (dev_ports dut) \<and> hardwarePort dut n = Some hp \<and> parent dut hp = Some v \<and> compType dut v = Some INTEGRATED_CIRCUIT"
      using sound [of ?ports Map.empty v] by (auto simp: P4RTNodesByPort_def pairs node)
  next
    assume "\<exists>n hp. (i, n) \<in> set (dev_ports dut) \<and> hardwarePort dut n = Some hp \<and> parent dut hp = Some v \<and> compType dut v = Some INTEGRATED_CIRCUIT"
    then obtain n hp where n: "(i, n) \<in> set (dev_ports dut)" "hardwarePort dut n = Some hp" "port_node dut hp = Some v" using node by auto
    then have "fold ?f ?ports Map.empty i \<noteq> None" using complete [of Map.empty ?ports] pairs by blast
    then obtain w where w: "fold ?f ?ports Map.empty i = Some w" by blast
    then obtain hp' where "(i, hp') \<in> port_pairs ?ports" "port_node dut hp' = Some w" using sound by fastforce
    then have "w = v" using n uniq pairs by (metis option.inject)
    then show "P4RTNodesByPort ord dut i = Some v" using w by (simp add: P4RTNodesByPort_def)
  qed
qed

definition sample_device :: p4_device where
  "sample_device = \<lparr>dev_ports = [(''port1'', ''Ethernet1''), (''port2'', ''Ethernet2'')],
     hardwarePort = [''Ethernet1'' \<mapsto> ''Port1'', ''Ethernet2'' \<mapsto> ''Port2''], parent = [''Port1'' \<mapsto> ''chip0'', ''Port2'' \<mapsto> ''fan''],
     compType = [''chip0'' \<mapsto> INTEGRATED_CIRCUIT, ''fan'' \<mapsto> OtherHardware 7]\<rparr>"

theorem P4RTNodesByPort_nodes_witness:
  "P4RTNodesByPort rev sample_device ''port1'' = Some ''chip0'' \<and> P4RTNodesByPort rev sample_device ''port2'' = None"
proof -
  have d: "distinct (map fst (dev_ports sample_device))" by (simp add: sample_device_def)
  note n = P4RTNodesByPort_nodes [OF d, of rev, OF set_rev]
  have "P4RTNodesByPort rev sample_device ''port1'' = Some ''chip0''" unfolding n by (simp add: sample_device_def)
  moreover have "P4RTNodesByPort rev sample_device ''port2'' \<noteq> Some w" for w unfolding n by (auto simp: sample_device_def)
  ultimately show ?thesis by auto
qed


section \<open>Components\<close>

text \<open>The names found for a device are those of its first answer: later changes of the device are not seen, except for active components.\<close>

theorem FindComponentsByType_cached:
  assumes "FindComponentsByType dut fetch t cache = (names, cache')"
  shows "(\<forall>fetch'. FindComponentsByType dut fetch' t cache' = (names, cache'))
    \<and> (\<forall>fetch' u. fst (FindSWComponentsByType dut fetch' u cache') = fst (FindSWComponentsByType dut fetch u cache))
    \<and> (\<forall>d. d \<noteq> dut \<longrightarrow> cache' d = cache d)"
  using assms by (auto simp: FindComponentsByType_def FindSWComponentsByType_def fetchCachedComponents_def split: option.splits)

text \<open>A successful search is remembered if there is a cache, and the cache only holds answers of the device.\<close>

lemma FindByType_cached:
  assumes "FindByType l want c = (Inr names, c')"
  shows "names \<noteq> [] \<or> (\<exists>m. c = Some m \<and> map_of m want = Some [])" and "c \<noteq> None \<Longrightarrow> FindByType l' want c' = (Inr names, c')" and "c = None \<Longrightarrow> c' = None"
  using assms by (auto simp: FindByType_def Let_def Suc_le_eq split: option.splits if_splits)

lemma standby_loop_Inr:
  "standby_loop roles ss (s, a) = Inr (s', a') \<longleftrightarrow>
     (\<forall>x\<in>set ss. roles x = Some PRIMARY \<or> roles x = Some SECONDARY)
     \<and> s' = last (s # filter (\<lambda>x. roles x = Some SECONDARY) ss) \<and> a' = last (a # filter (\<lambda>x. roles x = Some PRIMARY) ss)"
  by (induction roles ss "(s, a)" arbitrary: s a rule: standby_loop.induct) (auto split: option.split role.split)

text \<open>For two controller cards of different roles the standby and the active one are found; two of the same role are an error.\<close>

theorem FindStandbyControllerCard_two:
  assumes "x \<noteq> []" and "y \<noteq> []"
  shows "(FindStandbyControllerCard roles [x, y] = Inr (x, y) \<longleftrightarrow> roles x = Some SECONDARY \<and> roles y = Some PRIMARY)
    \<and> (FindStandbyControllerCard roles [x, y] = Inr (y, x) \<longleftrightarrow> roles y = Some SECONDARY \<and> roles x = Some PRIMARY)
    \<and> (roles x = roles y \<longrightarrow> (\<exists>e. FindStandbyControllerCard roles [x, y] = Inl e))"
  using assms by (auto simp: FindStandbyControllerCard_def split: option.splits role.splits)


section \<open>Interfaces\<close>

text \<open>The layer 2 MTU is 14 above the MTU, unless the 16 bits overflow.\<close>

theorem ConfigOCInterface_mtu:
  assumes "att_MTU a > 0" and "\<not> OmitL2MTU dv"
  shows "\<exists>m. if_Mtu (ConfigOCInterface a dv i) = Some m
    \<and> unat m = (if unat (att_MTU a) \<le> 65521 then unat (att_MTU a) + 14 else unat (att_MTU a) + 14 - 65536)"
proof -
  have "unat (att_MTU a) < 65536" using unsigned_less [of "att_MTU a"] by simp
  then have "unat (att_MTU a + 14) = (if unat (att_MTU a) \<le> 65521 then unat (att_MTU a) + 14 else unat (att_MTU a) + 14 - 65536)"
    by (auto simp: unat_word_ariths mod_if)
  then show ?thesis using assms by (simp add: ConfigOCInterface_def config_ethernet_def Let_def)
qed

text \<open>Configuring touches one subinterface, on which the addresses get the prefix lengths of the attributes.\<close>

lemma ConfigOCInterface_address:
  "s \<noteq> att_Subinterface a \<Longrightarrow> if_Subinterface (ConfigOCInterface a dv i) s = if_Subinterface i s"
  "att_IPv4 a \<noteq> [] \<Longrightarrow> att_IPv4 a \<noteq> att_IPv4Sec a \<Longrightarrow> att_IPv4Len a > 0 \<Longrightarrow>
     \<exists>sub c ad. if_Subinterface (ConfigOCInterface a dv i) (att_Subinterface a) = Some sub \<and> sub_Ipv4 sub = Some c
       \<and> Address c (att_IPv4 a) = Some ad \<and> PrefixLength ad = Some (att_IPv4Len a)"
  "att_IPv6 a \<noteq> [] \<Longrightarrow> att_IPv6Len a > 0 \<Longrightarrow>
     \<exists>sub c ad. if_Subinterface (ConfigOCInterface a dv i) (att_Subinterface a) = Some sub \<and> sub_Ipv6 sub = Some c
       \<and> Address c (att_IPv6 a) = Some ad \<and> PrefixLength ad = Some (att_IPv6Len a)"
  by (auto simp: ConfigOCInterface_def config_ethernet_def config_v4_def config_v4sec_def config_v6_def set_address_def set_enabled_def set_length_def
      getOrCreate_def Let_def)

text \<open>The speeds that are configured are known as numbers.\<close>

fun speed_bits :: "Speed \<Rightarrow> nat" where
  "speed_bits Speed1Gb = 1 * 10 ^ 9" | "speed_bits Speed5Gb = 5 * 10 ^ 9" | "speed_bits Speed10Gb = 10 * 10 ^ 9"
| "speed_bits Speed100Gb = 100 * 10 ^ 9" | "speed_bits Speed400Gb = 400 * 10 ^ 9" | "speed_bits Speed800Gb = 800 * 10 ^ 9" | "speed_bits OtherSpeed = 0"

lemma GetIfSpeed_bits: "unat (EthernetSpeedToUint64 (GetIfSpeed s)) = speed_bits s"
  by (cases s) (simp_all add: EthernetSpeedToUint64_def GetIfSpeed_def)
end
