(* ===== verification/Access_Control.thy ===== *)
theory Access_Control
  imports FP_Prelude "HOL-Library.AList" "HOL-Library.Word"
begin

text \<open>
  Access lists (\<^verbatim>\<open>internal/cfgplugins/acl.go\<close>), static routes (\<^verbatim>\<open>internal/cfgplugins/staticroute.go\<close>) and authorization policies
  (\<^verbatim>\<open>internal/security/authz/authz.go\<close>).

  The generated OpenConfig structs are records with the fields that the code sets. A batch is the list of its operations; the commands that
  are sent to the device at once are kept in the same list, each as a constructor of its own. The device is a parameter. The JSON text of a
  policy is its tree; a nil slice is \<open>None\<close>.
\<close>

section \<open>\<^verbatim>\<open>acl.go\<close>\<close>

datatype acl_type = ACL_UNSET | ACL_IPV4 | ACL_IPV6 | ACL_OTHER

text \<open>Types and codes of ICMP are values of generated enumerations; zero is unset.\<close>

record AclTerm =
  SeqID :: "32 word"
  term_Description :: string
  Permit :: bool
  IPSrc :: string
  IPDst :: string
  L4SrcPort :: "32 word"
  L4SrcPortRange :: string
  L4DstPort :: "32 word"
  L4DstPortRange :: string
  ICMPCode :: int
  ICMPType :: int
  IPInitialFragment :: bool
  term_Protocol :: "8 word"
  Log :: bool

record AclParams =
  acl_Name :: string
  DefaultPermit :: bool
  ACLType :: acl_type
  Intf :: string
  Ingress :: bool
  Terms :: "AclTerm list"
  Update :: bool

definition ICMPv4ProtocolNum :: "8 word" where "ICMPv4ProtocolNum = 1"
definition ICMPv6ProtocolNum :: "8 word" where "ICMPv6ProtocolNum = 58"
definition TCPProtocolNum :: "8 word" where "TCPProtocolNum = 6"
definition UDPProtocolNum :: "8 word" where "UDPProtocolNum = 17"
definition DefaultEntryID :: "32 word" where "DefaultEntryID = 990"
definition matchAllV4 :: string where "matchAllV4 = ''0.0.0.0/0''"
definition matchAllV6 :: string where "matchAllV6 = ''::/0''"

definition zero_term :: AclTerm where
  "zero_term = \<lparr>SeqID = 0, term_Description = [], Permit = False, IPSrc = [], IPDst = [], L4SrcPort = 0, L4SrcPortRange = [], L4DstPort = 0,
     L4DstPortRange = [], ICMPCode = 0, ICMPType = 0, IPInitialFragment = False, term_Protocol = 0, Log = False\<rparr>"

definition defaultRuleV4 :: AclTerm where
  "defaultRuleV4 = zero_term\<lparr>SeqID := DefaultEntryID, IPSrc := matchAllV4, IPDst := matchAllV4\<rparr>"

definition defaultRuleV6 :: AclTerm where
  "defaultRuleV6 = zero_term\<lparr>SeqID := DefaultEntryID, IPSrc := matchAllV6, IPDst := matchAllV6\<rparr>"

text \<open>The generated enumeration values of the four messages of neighbour discovery: their types and codes.\<close>

record ndp_values =
  ndp_na :: "int \<times> int"
  ndp_ns :: "int \<times> int"
  ndp_rs :: "int \<times> int"
  ndp_ra :: "int \<times> int"

definition ndp_rule :: "32 word \<Rightarrow> string \<Rightarrow> int \<times> int \<Rightarrow> AclTerm" where
  "ndp_rule k d v =
     zero_term\<lparr>SeqID := DefaultEntryID - k, term_Description := d, term_Protocol := ICMPv6ProtocolNum, ICMPType := fst v, ICMPCode := snd v,
       Permit := True, IPSrc := matchAllV6, IPDst := matchAllV6\<rparr>"

definition ndpACLRules :: "ndp_values \<Rightarrow> AclTerm list" where
  "ndpACLRules e =
     [ndp_rule 40 ''neighbor-advertisement'' (ndp_na e), ndp_rule 30 ''neighbor-solicitation'' (ndp_ns e),
      ndp_rule 20 ''router-solicitation'' (ndp_rs e), ndp_rule 10 ''router-advertisement'' (ndp_ra e)]"

record ip_match =
  SourceAddress :: "string option"
  DestinationAddress :: "string option"
  ip_Protocol :: "(8 word) option"
  icmp :: "(int \<times> int) option"

record transport_match =
  SourcePort :: "(16 word) option"
  SourcePortSet :: "string option"
  DestinationPort :: "(16 word) option"
  DestinationPortSet :: "string option"

record AclEntry =
  accept :: "bool option"
  log_syslog :: bool
  entry_Ipv4 :: "ip_match option"
  entry_Ipv6 :: "ip_match option"
  Transport :: "transport_match option"

definition new_ip_match :: ip_match where
  "new_ip_match = \<lparr>SourceAddress = None, DestinationAddress = None, ip_Protocol = None, icmp = None\<rparr>"

definition new_transport :: transport_match where
  "new_transport = \<lparr>SourcePort = None, SourcePortSet = None, DestinationPort = None, DestinationPortSet = None\<rparr>"

definition new_entry :: AclEntry where
  "new_entry = \<lparr>accept = None, log_syslog = False, entry_Ipv4 = None, entry_Ipv6 = None, Transport = None\<rparr>"

definition or_new :: "'a \<Rightarrow> 'a option \<Rightarrow> 'a" where "or_new d x = (case x of None \<Rightarrow> d | Some y \<Rightarrow> y)"

definition set_ip :: "8 word \<Rightarrow> AclTerm \<Rightarrow> ip_match \<Rightarrow> ip_match" where
  "set_ip icmp_num t m =
     (let m = (if IPSrc t \<noteq> [] then m\<lparr>SourceAddress := Some (IPSrc t)\<rparr> else m);
          m = (if IPDst t \<noteq> [] then m\<lparr>DestinationAddress := Some (IPDst t)\<rparr> else m) in
      if term_Protocol t = 0 then m
      else let m = m\<lparr>ip_Protocol := Some (term_Protocol t)\<rparr> in
        if term_Protocol t = icmp_num then m\<lparr>icmp := Some (ICMPType t, ICMPCode t)\<rparr> else m)"

definition set_transport :: "AclTerm \<Rightarrow> transport_match \<Rightarrow> transport_match" where
  "set_transport t m =
     (let m = (if L4SrcPort t \<noteq> 0 then m\<lparr>SourcePort := Some (ucast (L4SrcPort t))\<rparr> else m);
          m = (if L4SrcPortRange t \<noteq> [] then m\<lparr>SourcePortSet := Some (L4SrcPortRange t)\<rparr> else m);
          m = (if L4DstPort t \<noteq> 0 then m\<lparr>DestinationPort := Some (ucast (L4DstPort t))\<rparr> else m) in
      if L4DstPortRange t \<noteq> [] then m\<lparr>DestinationPortSet := Some (L4DstPortRange t)\<rparr> else m)"

definition set_entry :: "acl_type \<Rightarrow> AclTerm \<Rightarrow> AclEntry \<Rightarrow> AclEntry" where
  "set_entry aclType t entry =
     (let e = entry\<lparr>accept := Some (Permit t)\<rparr>;
          e = (if Log t then e\<lparr>log_syslog := True\<rparr> else e);
          e = (if aclType = ACL_IPV4 then e\<lparr>entry_Ipv4 := Some (set_ip ICMPv4ProtocolNum t (or_new new_ip_match (entry_Ipv4 e)))\<rparr>
               else if aclType = ACL_IPV6 then e\<lparr>entry_Ipv6 := Some (set_ip ICMPv6ProtocolNum t (or_new new_ip_match (entry_Ipv6 e)))\<rparr> else e) in
      if term_Protocol t = TCPProtocolNum \<or> term_Protocol t = UDPProtocolNum
      then e\<lparr>Transport := Some (set_transport t (or_new new_transport (Transport e)))\<rparr> else e)"

type_synonym acl_set = "(32 word \<times> AclEntry) list"

definition createACLEntry :: "acl_type \<Rightarrow> AclTerm \<Rightarrow> acl_set \<Rightarrow> acl_set" where
  "createACLEntry aclType t aclSet =
     AList.update (SeqID t) (set_entry aclType t (or_new new_entry (map_of aclSet (SeqID t)))) aclSet"

datatype acl_op =
    UpdateSet string acl_type acl_set
  | ReplaceSet string acl_type acl_set
  | ReplaceInterface string bool string acl_type
  | DeleteInterfaceSet string bool string acl_type
  | DeleteSet string acl_type

definition ConfigureACL :: "ndp_values \<Rightarrow> bool \<Rightarrow> AclParams \<Rightarrow> acl_op list \<Rightarrow> acl_op list" where
  "ConfigureACL ndp icmp_unsupported params batch =
     (let aclSet = fold (createACLEntry (ACLType params)) (Terms params) [] in
      if Update params then batch @ [UpdateSet (acl_Name params) (ACLType params) aclSet]
      else
        let defaultTerm = (if ACLType params = ACL_IPV6 then defaultRuleV6 else defaultRuleV4)\<lparr>Permit := DefaultPermit params\<rparr>;
            aclSet = (if ACLType params = ACL_IPV6 \<and> \<not> icmp_unsupported then fold (createACLEntry (ACLType params)) (ndpACLRules ndp) aclSet else aclSet);
            aclSet = createACLEntry (ACLType params) defaultTerm aclSet in
        batch @ [ReplaceSet (acl_Name params) (ACLType params) aclSet,
                 ReplaceInterface (Intf params) (Ingress params) (acl_Name params) (ACLType params)])"

text \<open>\<open>None\<close> is the fatal error.\<close>

definition DeleteACL :: "AclParams \<Rightarrow> acl_op list \<Rightarrow> acl_op list option" where
  "DeleteACL params batch =
     (if acl_Name params = [] \<or> ACLType params = ACL_UNSET \<or> Intf params = [] then None
      else Some (batch @ [DeleteInterfaceSet (Intf params) (Ingress params) (acl_Name params) (ACLType params), DeleteSet (acl_Name params) (ACLType params)]))"

text \<open>The commands for Arista devices.\<close>

definition nl :: string where "nl = [CHR 0x0A]"
definition tab :: string where "tab = [CHR 0x09]"

definition EnableACLCountersFromCLI :: "bool \<Rightarrow> AclParams \<Rightarrow> string option" where
  "EnableACLCountersFromCLI arista params =
     (if arista
      then Some ((case ACLType params of ACL_IPV4 \<Rightarrow> ''ip'' | ACL_IPV6 \<Rightarrow> ''ipv6'' | _ \<Rightarrow> []) @ '' access-list '' @ acl_Name params @ nl
             @ tab @ ''counters per-entry'' @ nl @ tab @ ''!'')
      else None)"

definition ndp_line :: "AclTerm \<Rightarrow> string" where
  "ndp_line t = dec (unat (SeqID t)) @ '' permit icmpv6 '' @ IPSrc t @ '' '' @ IPDst t @ '' '' @ term_Description t @ nl"

definition ConfigureNDPRulesFromCLI :: "ndp_values \<Rightarrow> bool \<Rightarrow> AclParams \<Rightarrow> (unit, string option) res" where
  "ConfigureNDPRulesFromCLI ndp arista params =
     (if ACLType params \<noteq> ACL_IPV6 then Inl ()
      else Inr (if arista
                then Some (''ipv6 access-list '' @ acl_Name params @ nl @ tab @ concat (map ndp_line (ndpACLRules ndp)) @ nl @ tab @ ''!'')
                else None))"


section \<open>\<^verbatim>\<open>staticroute.go\<close>\<close>

text \<open>The encapsulation types that the code names; the rest is one value.\<close>

datatype encap = UDPV4 | UDPV6 | OTHER_ENCAP

record StaticRouteCfg =
  sr_NetworkInstance :: string
  sr_Prefix :: string
  NextHops :: "(string \<times> string) list"
  NexthopGroup :: bool
  NexthopGroupName :: string
  Metric :: "32 word"
  Recurse :: bool
  NextHopIntf :: string
  RemoveStaticRoute :: bool
  PolicyName :: string
  Rule_name :: string
  TrafficType :: encap
  IPType :: string
  NextHopAddr :: string

record NextHop =
  nh_addr :: "string option"
  nh_Metric :: "(32 word) option"
  nh_Recurse :: bool
  nh_Interface :: "string option"
  nh_NextNetworkInstance :: "string option"

record Static =
  st_Prefix :: string
  st_group :: "string option"
  st_NextHop :: "(string \<times> NextHop) list"

record route_device =
  default_ni :: string
  protocol_name :: string
  nhg_oc_unsupported :: bool
  vrf_nhg_unsupported :: bool
  is_arista :: bool

datatype route_op = UpdateProtocol string string Static | ReplaceStatic string string string Static | CLIConfig string

datatype route_err = NilCfg | NotHandled

definition normalizeNIName :: "string \<Rightarrow> route_device \<Rightarrow> string" where
  "normalizeNIName niName d = (if niName = ''DEFAULT'' then default_ni d else niName)"

definition new_nh :: NextHop where
  "new_nh = \<lparr>nh_addr = None, nh_Metric = None, nh_Recurse = False, nh_Interface = None, nh_NextNetworkInstance = None\<rparr>"

definition add_nh :: "StaticRouteCfg \<Rightarrow> string \<times> string \<Rightarrow> Static \<Rightarrow> Static" where
  "add_nh cfg kv s =
     (let nh = (or_new new_nh (map_of (st_NextHop s) (fst kv)))\<lparr>nh_addr := Some (snd kv)\<rparr>;
          nh = (if Metric cfg \<noteq> 0 then nh\<lparr>nh_Metric := Some (Metric cfg)\<rparr> else nh);
          nh = (if Recurse cfg then nh\<lparr>nh_Recurse := True\<rparr> else nh) in
      s\<lparr>st_NextHop := AList.update (fst kv) nh (st_NextHop s)\<rparr>)"

definition route_cli :: "StaticRouteCfg \<Rightarrow> string" where
  "route_cli cfg = ''ipv6 route '' @ sr_Prefix cfg @ '' nexthop-group '' @ NexthopGroupName cfg"

definition groupType :: "encap \<Rightarrow> string" where
  "groupType t = (case t of UDPV4 \<Rightarrow> ''ipv4'' | UDPV6 \<Rightarrow> ''ipv6'' | OTHER_ENCAP \<Rightarrow> [])"

definition staticRouteToNextHopGroupCLI :: "route_device \<Rightarrow> StaticRouteCfg \<Rightarrow> route_op list" where
  "staticRouteToNextHopGroupCLI d cfg =
     (if is_arista d
      then [CLIConfig (nl @ tab @ tab @ tab @ tab @ ''traffic-policies'' @ nl @ tab @ tab @ tab @ tab @ ''traffic-policy '' @ PolicyName cfg @ nl
              @ ''      '' @ tab @ tab @ tab @ ''match '' @ Rule_name cfg @ '' '' @ groupType (TrafficType cfg) @ nl
              @ ''         '' @ tab @ tab @ ''actions'' @ nl @ ''            '' @ tab @ ''redirect next-hop group '' @ NexthopGroupName cfg)]
      else [])"

text \<open>The next hops in the order in which the map is enumerated.\<close>

definition oc_static :: "StaticRouteCfg \<Rightarrow> Static" where
  "oc_static cfg =
     (let s = \<lparr>st_Prefix = sr_Prefix cfg, st_group = (if NexthopGroup cfg then Some (NexthopGroupName cfg) else None), st_NextHop = []\<rparr>;
          s = fold (add_nh cfg) (NextHops cfg) s in
      if NextHopIntf cfg \<noteq> []
      then s\<lparr>st_NextHop := AList.update ''0'' ((or_new new_nh (map_of (st_NextHop s) ''0''))\<lparr>nh_Interface := Some (NextHopIntf cfg)\<rparr>) (st_NextHop s)\<rparr>
      else s)"

definition empty_static :: "StaticRouteCfg \<Rightarrow> Static" where
  "empty_static cfg = \<lparr>st_Prefix = sr_Prefix cfg, st_group = None, st_NextHop = []\<rparr>"

definition NewStaticRouteCfg :: "StaticRouteCfg option \<Rightarrow> route_device \<Rightarrow> route_op list \<Rightarrow> (route_err, Static) res \<times> route_op list" where
  "NewStaticRouteCfg c d batch =
     (case c of
        None \<Rightarrow> (Inl NilCfg, batch)
      | Some cfg \<Rightarrow>
          (if NexthopGroup cfg \<and> nhg_oc_unsupported d
           then (if is_arista d
                 then (Inr (empty_static cfg),
                       batch @ (if RemoveStaticRoute cfg then [CLIConfig (''no '' @ route_cli cfg)]
                                else CLIConfig (route_cli cfg) # staticRouteToNextHopGroupCLI d cfg))
                 else (Inl NotHandled, batch))
           else let ni = normalizeNIName (sr_NetworkInstance cfg) d; s = oc_static cfg in
             (Inr s, batch @ [UpdateProtocol ni (protocol_name d) s, ReplaceStatic ni (protocol_name d) (sr_Prefix cfg) s])))"

definition ConfigureStaticRoute :: "string \<Rightarrow> string \<Rightarrow> string \<Rightarrow> string \<Rightarrow> route_device \<Rightarrow> route_op list \<Rightarrow> (route_err, Static) res \<times> route_op list" where
  "ConfigureStaticRoute ni prefix index nextHop d batch =
     NewStaticRouteCfg (Some \<lparr>sr_NetworkInstance = ni, sr_Prefix = prefix, NextHops = [(index, nextHop)], NexthopGroup = False, NexthopGroupName = [],
       Metric = 0, Recurse = False, NextHopIntf = [], RemoveStaticRoute = False, PolicyName = [], Rule_name = [], TrafficType = OTHER_ENCAP, IPType = [], NextHopAddr = []\<rparr>) d batch"

text \<open>An unsupported vendor is reported and the configuration goes on: the flag says so.\<close>

definition NewStaticVRFRoute ::
  "(string \<times> string \<times> string \<times> string) option \<Rightarrow> route_device \<Rightarrow> route_op list \<Rightarrow> (route_err, Static option) res \<times> bool \<times> route_op list" where
  "NewStaticVRFRoute c d batch =
     (case c of
        None \<Rightarrow> (Inl NilCfg, False, batch)
      | Some (networkInstance, prefix, nextHopGroup, protocolStr) \<Rightarrow>
          (if vrf_nhg_unsupported d \<and> is_arista d
           then (Inr None, False, batch @ [CLIConfig (nl @ tab @ tab @ tab @ tab @ protocolStr @ '' route vrf '' @ networkInstance @ '' '' @ prefix
                   @ '' nexthop-group '' @ nextHopGroup @ nl @ tab @ tab @ tab)])
           else let ni = normalizeNIName networkInstance d; s = \<lparr>st_Prefix = prefix, st_group = Some nextHopGroup, st_NextHop = []\<rparr> in
             (Inr (Some s), vrf_nhg_unsupported d, batch @ [UpdateProtocol ni (protocol_name d) s, ReplaceStatic ni (protocol_name d) prefix s])))"

text \<open>The struct for the route into the other network instance is built and dropped; only commands are sent.\<close>

definition StaticRouteNextNetworkInstance :: "bool \<Rightarrow> route_device \<Rightarrow> StaticRouteCfg \<Rightarrow> Static \<times> route_op list" where
  "StaticRouteNextNetworkInstance unsupported d cfg =
     (if unsupported
      then (empty_static cfg,
            if is_arista d
            then [CLIConfig (IPType cfg @ '' route vrf '' @ sr_NetworkInstance cfg @ '' '' @ NextHopAddr cfg @ '' egress-vrf default '' @ sr_Prefix cfg @ nl @ tab @ tab @ tab)]
            else [])
      else ((empty_static cfg)\<lparr>st_NextHop := [(''0'', new_nh\<lparr>nh_NextNetworkInstance := Some ''DEFAULT'', nh_addr := Some (sr_Prefix cfg)\<rparr>)]\<rparr>, []))"


section \<open>\<^verbatim>\<open>authz.go\<close>\<close>

record Rule =
  rule_Name :: string
  Principals :: "string list option"
  Paths :: "string list option"

record AuthorizationPolicy =
  pol_Name :: string
  AllowRules :: "Rule list option"
  DenyRules :: "Rule list option"

text \<open>\<^verbatim>\<open>append\<close> to a slice that may be nil.\<close>

definition append_slice :: "'a list option \<Rightarrow> 'a \<Rightarrow> 'a list option" where
  "append_slice xs x = Some ((case xs of None \<Rightarrow> [] | Some ys \<Rightarrow> ys) @ [x])"

definition createRule :: "string \<Rightarrow> string list option \<Rightarrow> string list \<Rightarrow> Rule" where
  "createRule name users rpcs =
     fold (\<lambda>p r. r\<lparr>Paths := append_slice (Paths r) p\<rparr>) rpcs \<lparr>rule_Name = name, Principals = None, Paths = None\<rparr>\<lparr>Principals := users\<rparr>"

definition AddAllowRules :: "string \<Rightarrow> string list option \<Rightarrow> string list \<Rightarrow> AuthorizationPolicy \<Rightarrow> AuthorizationPolicy" where
  "AddAllowRules name users rpcs p = p\<lparr>AllowRules := append_slice (AllowRules p) (createRule name users rpcs)\<rparr>"

definition AddDenyRules :: "string \<Rightarrow> string list option \<Rightarrow> string list \<Rightarrow> AuthorizationPolicy \<Rightarrow> AuthorizationPolicy" where
  "AddDenyRules name users rpcs p = p\<lparr>DenyRules := append_slice (DenyRules p) (createRule name users rpcs)\<rparr>"

definition NewAuthorizationPolicy :: "string \<Rightarrow> AuthorizationPolicy" where
  "NewAuthorizationPolicy name = \<lparr>pol_Name = name, AllowRules = None, DenyRules = None\<rparr>"

text \<open>JSON trees, and the encoding by the tags of the structs: a nil slice is null, and the rules are left out when there are none.\<close>

datatype policy_json = JNull | JStr string | JArr "policy_json list" | JObj "(string \<times> policy_json) list"

definition strings_json :: "string list option \<Rightarrow> policy_json" where
  "strings_json xs = (case xs of None \<Rightarrow> JNull | Some ys \<Rightarrow> JArr (map JStr ys))"

definition rule_json :: "Rule \<Rightarrow> policy_json" where
  "rule_json r =
     JObj [(''name'', JStr (rule_Name r)), (''source'', JObj [(''principals'', strings_json (Principals r))]),
           (''request'', JObj [(''paths'', strings_json (Paths r))])]"

definition rules_field :: "string \<Rightarrow> Rule list option \<Rightarrow> (string \<times> policy_json) list" where
  "rules_field k rs = (case rs of None \<Rightarrow> [] | Some xs \<Rightarrow> if xs = [] then [] else [(k, JArr (map rule_json xs))])"

definition Marshal :: "AuthorizationPolicy \<Rightarrow> policy_json" where
  "Marshal p = JObj ((''name'', JStr (pol_Name p)) # rules_field ''allow_rules'' (AllowRules p) @ rules_field ''deny_rules'' (DenyRules p))"

text \<open>Decoding into a fresh value: a missing key or null leaves the zero value, another type is an error. Objects have their keys spelled as in the
  tags, each at most once.\<close>

definition string_of :: "policy_json option \<Rightarrow> string option" where
  "string_of j = (case j of None \<Rightarrow> Some [] | Some JNull \<Rightarrow> Some [] | Some (JStr s) \<Rightarrow> Some s | _ \<Rightarrow> None)"

definition slice_of :: "(policy_json \<Rightarrow> 'a option) \<Rightarrow> policy_json option \<Rightarrow> 'a list option option" where
  "slice_of f j = (case j of None \<Rightarrow> Some None | Some JNull \<Rightarrow> Some None | Some (JArr xs) \<Rightarrow> map_option Some (those (map f xs)) | _ \<Rightarrow> None)"

definition fields_of :: "policy_json option \<Rightarrow> (string \<rightharpoonup> policy_json) option" where
  "fields_of j = (case j of None \<Rightarrow> Some Map.empty | Some JNull \<Rightarrow> Some Map.empty | Some (JObj fs) \<Rightarrow> Some (map_of fs) | _ \<Rightarrow> None)"

definition rule_of :: "policy_json \<Rightarrow> Rule option" where
  "rule_of j =
     (case fields_of (Some j) of None \<Rightarrow> None
      | Some fs \<Rightarrow>
        (case (string_of (fs ''name''), fields_of (fs ''source''), fields_of (fs ''request'')) of
           (Some n, Some s, Some q) \<Rightarrow>
             (case (slice_of (\<lambda>x. string_of (Some x)) (s ''principals''), slice_of (\<lambda>x. string_of (Some x)) (q ''paths'')) of
                (Some us, Some ps) \<Rightarrow> Some \<lparr>rule_Name = n, Principals = us, Paths = ps\<rparr>
              | _ \<Rightarrow> None)
         | _ \<Rightarrow> None))"

definition Unmarshal :: "policy_json \<Rightarrow> AuthorizationPolicy option" where
  "Unmarshal j =
     (case fields_of (Some j) of None \<Rightarrow> None
      | Some fs \<Rightarrow>
        (case (string_of (fs ''name''), slice_of rule_of (fs ''allow_rules''), slice_of rule_of (fs ''deny_rules'')) of
           (Some n, Some a, Some d) \<Rightarrow> Some \<lparr>pol_Name = n, AllowRules = a, DenyRules = d\<rparr>
         | _ \<Rightarrow> None))"

text \<open>The service of the device on a state \<open>'s\<close>: uploads, finalizing, reading back and probing.\<close>

datatype get_code = FailedPrecondition | UnknownCode | OtherCode

datatype action = ACTION_PERMIT | ACTION_DENY | ACTION_UNSPECIFIED

record 's authz_device =
  upload :: "string \<Rightarrow> 64 word \<Rightarrow> policy_json \<Rightarrow> bool \<Rightarrow> 's \<Rightarrow> 's option"
  finalize :: "'s \<Rightarrow> 's option"
  get_policy :: "'s \<Rightarrow> (get_code, string \<times> 64 word \<times> policy_json) res"
  probe :: "'s \<Rightarrow> string \<Rightarrow> string \<Rightarrow> action option"

text \<open>\<^verbatim>\<open>Get\<close>: \<open>None\<close> is fatal; the flag says that an error was reported.\<close>

definition Get :: "'s authz_device \<Rightarrow> 64 word \<Rightarrow> 's \<Rightarrow> (bool \<times> AuthorizationPolicy) option" where
  "Get dev now s =
     (case get_policy dev s of
        Inl FailedPrecondition \<Rightarrow> Some (False, \<lparr>pol_Name = [], AllowRules = None, DenyRules = None\<rparr>)
      | Inl _ \<Rightarrow> None
      | Inr (version, createdOn, policy) \<Rightarrow> map_option (\<lambda>p. (version = [] \<or> createdOn > now, p)) (Unmarshal policy))"

datatype rotate_err = UploadFailed | GetFailed | NotSame | FinalizeFailed

text \<open>The error leaves the device in the state in which the stream was closed.\<close>

definition checked_get :: "'s authz_device \<Rightarrow> 64 word \<Rightarrow> AuthorizationPolicy \<Rightarrow> 's \<Rightarrow> (rotate_err, bool) res" where
  "checked_get dev now p s = (case Get dev now s of None \<Rightarrow> Inl GetFailed | Some (e, q) \<Rightarrow> if p \<noteq> q then Inl NotSame else Inr e)"

definition Rotate :: "'s authz_device \<Rightarrow> 64 word \<Rightarrow> string \<Rightarrow> 64 word \<Rightarrow> bool \<Rightarrow> AuthorizationPolicy \<Rightarrow> 's \<Rightarrow> (rotate_err, bool) res \<times> 's" where
  "Rotate dev now version createdOn force p s =
     (case upload dev version createdOn (Marshal p) force s of
        None \<Rightarrow> (Inl UploadFailed, s)
      | Some s1 \<Rightarrow>
          (case checked_get dev now p s1 of
             Inl e \<Rightarrow> (Inl e, s1)
           | Inr e1 \<Rightarrow>
               (case finalize dev s1 of
                  None \<Rightarrow> (Inl FinalizeFailed, s1)
                | Some s2 \<Rightarrow> (map_sum id (\<lambda>e2. e1 \<or> e2) (checked_get dev now p s2), s2))))"

datatype verify_opt = ExceptDeny | HardVerify

text \<open>The state of the loop over the options: the expected action, the expected code of the execution (0 is OK, 7 is PermissionDenied), and
  whether to execute.\<close>

fun verify_step :: "verify_opt \<Rightarrow> action \<times> nat \<times> bool \<Rightarrow> action \<times> nat \<times> bool" where
  "verify_step ExceptDeny (expectedRes, expectedExecErr, hardVerify) = (ACTION_DENY, 7, hardVerify)"
| "verify_step HardVerify (expectedRes, expectedExecErr, hardVerify) = (expectedRes, expectedExecErr, False)"

definition verify_opts :: "verify_opt list \<Rightarrow> action \<times> nat \<times> bool" where
  "verify_opts opts = fold verify_step opts (ACTION_PERMIT, 0, False)"

text \<open>\<^verbatim>\<open>Verify\<close>: does the test go on? \<open>exec\<close> executes the RPC as the user and gives the code of the result.\<close>

definition Verify :: "'s authz_device \<Rightarrow> (string \<Rightarrow> nat) \<Rightarrow> 's \<Rightarrow> string \<Rightarrow> string \<Rightarrow> verify_opt list \<Rightarrow> bool" where
  "Verify dev exec s user rpc opts =
     (case verify_opts opts of (expectedRes, expectedExecErr, hardVerify) \<Rightarrow>
        (case probe dev s user rpc of
           None \<Rightarrow> False
         | Some a \<Rightarrow> a = expectedRes \<and> (hardVerify \<longrightarrow> exec rpc = expectedExecErr)))"

definition LoadPolicyFromJSONFile :: "AuthorizationPolicy list \<Rightarrow> (string \<rightharpoonup> AuthorizationPolicy)" where
  "LoadPolicyFromJSONFile policies = fold (\<lambda>p m. m(pol_Name p \<mapsto> p)) policies Map.empty"


section \<open>What an access list decides\<close>

text \<open>A packet, with the enumeration values of its ICMP type and code. \<open>net\<close> says whether an address is in a prefix, \<open>rng\<close> whether a port is in
  a range.\<close>

record 'a term_packet =
  pk_src :: 'a
  pk_dst :: 'a
  pk_proto :: "8 word"
  pk_icmp :: "int \<times> int"
  pk_sport :: "16 word"
  pk_dport :: "16 word"

definition opt_all :: "('a \<Rightarrow> bool) \<Rightarrow> 'a option \<Rightarrow> bool" where
  "opt_all f x = (case x of None \<Rightarrow> True | Some y \<Rightarrow> f y)"

lemma opt_all_simps [simp]: "opt_all f None" "opt_all f (Some y) = f y" by (simp_all add: opt_all_def)

definition enum_ok :: "int \<Rightarrow> int \<Rightarrow> bool" where "enum_ok x v \<longleftrightarrow> x = 0 \<or> v = x"

definition ip_ok :: "(string \<Rightarrow> 'a \<Rightarrow> bool) \<Rightarrow> 'a term_packet \<Rightarrow> ip_match \<Rightarrow> bool" where
  "ip_ok net p m \<longleftrightarrow>
     opt_all (\<lambda>a. net a (pk_src p)) (SourceAddress m) \<and> opt_all (\<lambda>a. net a (pk_dst p)) (DestinationAddress m)
     \<and> opt_all (\<lambda>n. pk_proto p = n) (ip_Protocol m)
     \<and> opt_all (\<lambda>x. enum_ok (fst x) (fst (pk_icmp p)) \<and> enum_ok (snd x) (snd (pk_icmp p))) (icmp m)"

definition transport_ok :: "(string \<Rightarrow> 16 word \<Rightarrow> bool) \<Rightarrow> 'a term_packet \<Rightarrow> transport_match \<Rightarrow> bool" where
  "transport_ok rng p m \<longleftrightarrow>
     opt_all (\<lambda>n. pk_sport p = n) (SourcePort m) \<and> opt_all (\<lambda>r. rng r (pk_sport p)) (SourcePortSet m)
     \<and> opt_all (\<lambda>n. pk_dport p = n) (DestinationPort m) \<and> opt_all (\<lambda>r. rng r (pk_dport p)) (DestinationPortSet m)"

definition entry_ok :: "(string \<Rightarrow> 'a \<Rightarrow> bool) \<Rightarrow> (string \<Rightarrow> 16 word \<Rightarrow> bool) \<Rightarrow> 'a term_packet \<Rightarrow> AclEntry \<Rightarrow> bool" where
  "entry_ok net rng p e \<longleftrightarrow>
     opt_all (ip_ok net p) (entry_Ipv4 e) \<and> opt_all (ip_ok net p) (entry_Ipv6 e) \<and> opt_all (transport_ok rng p) (Transport e)"

text \<open>Entries are tried by their sequence numbers; the first that matches decides.\<close>

definition acl_decide :: "(string \<Rightarrow> 'a \<Rightarrow> bool) \<Rightarrow> (string \<Rightarrow> 16 word \<Rightarrow> bool) \<Rightarrow> acl_set \<Rightarrow> 'a term_packet \<Rightarrow> bool option" where
  "acl_decide net rng es p = (case find (\<lambda>x. entry_ok net rng p (snd x)) (sort_key fst es) of None \<Rightarrow> None | Some x \<Rightarrow> accept (snd x))"

text \<open>What a term asks for, its ports as the 16 bits that the code keeps of them.\<close>

definition term_matches :: "(string \<Rightarrow> 'a \<Rightarrow> bool) \<Rightarrow> (string \<Rightarrow> 16 word \<Rightarrow> bool) \<Rightarrow> 8 word \<Rightarrow> 'a term_packet \<Rightarrow> AclTerm \<Rightarrow> bool" where
  "term_matches net rng icmp_num p t \<longleftrightarrow>
     (IPSrc t = [] \<or> net (IPSrc t) (pk_src p)) \<and> (IPDst t = [] \<or> net (IPDst t) (pk_dst p))
     \<and> (term_Protocol t = 0 \<or> pk_proto p = term_Protocol t)
     \<and> (term_Protocol t = icmp_num \<longrightarrow> enum_ok (ICMPType t) (fst (pk_icmp p)) \<and> enum_ok (ICMPCode t) (snd (pk_icmp p)))
     \<and> (term_Protocol t = TCPProtocolNum \<or> term_Protocol t = UDPProtocolNum \<longrightarrow>
          (L4SrcPort t = 0 \<or> pk_sport p = ucast (L4SrcPort t)) \<and> (L4SrcPortRange t = [] \<or> rng (L4SrcPortRange t) (pk_sport p))
          \<and> (L4DstPort t = 0 \<or> pk_dport p = ucast (L4DstPort t)) \<and> (L4DstPortRange t = [] \<or> rng (L4DstPortRange t) (pk_dport p)))"

definition icmp_of :: "acl_type \<Rightarrow> 8 word" where "icmp_of ty = (if ty = ACL_IPV4 then ICMPv4ProtocolNum else ICMPv6ProtocolNum)"

lemma set_ip_ok:
  "icmp_num \<noteq> 0 \<Longrightarrow> ip_ok net p (set_ip icmp_num t new_ip_match) \<longleftrightarrow>
     (IPSrc t = [] \<or> net (IPSrc t) (pk_src p)) \<and> (IPDst t = [] \<or> net (IPDst t) (pk_dst p))
     \<and> (term_Protocol t = 0 \<or> pk_proto p = term_Protocol t)
     \<and> (term_Protocol t = icmp_num \<longrightarrow> enum_ok (ICMPType t) (fst (pk_icmp p)) \<and> enum_ok (ICMPCode t) (snd (pk_icmp p)))"
  by (auto simp: ip_ok_def set_ip_def new_ip_match_def Let_def)

lemma set_transport_ok:
  "transport_ok rng p (set_transport t new_transport) \<longleftrightarrow>
     (L4SrcPort t = 0 \<or> pk_sport p = ucast (L4SrcPort t)) \<and> (L4SrcPortRange t = [] \<or> rng (L4SrcPortRange t) (pk_sport p))
     \<and> (L4DstPort t = 0 \<or> pk_dport p = ucast (L4DstPort t)) \<and> (L4DstPortRange t = [] \<or> rng (L4DstPortRange t) (pk_dport p))"
  by (auto simp: transport_ok_def set_transport_def new_transport_def Let_def)

definition fresh_entry :: "acl_type \<Rightarrow> AclTerm \<Rightarrow> AclEntry" where "fresh_entry ty t = set_entry ty t new_entry"

lemma fresh_entry_simps:
  "accept (fresh_entry ty t) = Some (Permit t)"
  "entry_Ipv4 (fresh_entry ty t) = (if ty = ACL_IPV4 then Some (set_ip ICMPv4ProtocolNum t new_ip_match) else None)"
  "entry_Ipv6 (fresh_entry ty t) = (if ty = ACL_IPV6 then Some (set_ip ICMPv6ProtocolNum t new_ip_match) else None)"
  "Transport (fresh_entry ty t) =
     (if term_Protocol t = TCPProtocolNum \<or> term_Protocol t = UDPProtocolNum then Some (set_transport t new_transport) else None)"
  by (simp_all add: fresh_entry_def set_entry_def new_entry_def or_new_def Let_def)

lemma fresh_entry_ok:
  assumes "ty = ACL_IPV4 \<or> ty = ACL_IPV6"
  shows "entry_ok net rng p (fresh_entry ty t) = term_matches net rng (icmp_of ty) p t"
proof -
  have nz: "ICMPv4ProtocolNum \<noteq> 0" "ICMPv6ProtocolNum \<noteq> 0" by (simp_all add: ICMPv4ProtocolNum_def ICMPv6ProtocolNum_def)
  show ?thesis
  proof (cases "term_Protocol t = TCPProtocolNum \<or> term_Protocol t = UDPProtocolNum")
    case True
    then show ?thesis using assms nz by (elim disjE) (simp_all add: entry_ok_def term_matches_def fresh_entry_simps icmp_of_def set_ip_ok set_transport_ok)
  next
    case False
    then show ?thesis using assms nz by (elim disjE) (simp_all add: entry_ok_def term_matches_def fresh_entry_simps icmp_of_def set_ip_ok)
  qed
qed

lemma update_new_key: "k \<notin> fst ` set al \<Longrightarrow> AList.update k v al = al @ [(k, v)]"
  by (induction al) auto

lemma createACLEntry_fresh:
  "distinct (map SeqID ts) \<Longrightarrow> SeqID ` set ts \<inter> fst ` set es = {} \<Longrightarrow>
   fold (createACLEntry ty) ts es = es @ map (\<lambda>t. (SeqID t, fresh_entry ty t)) ts"
proof (induction ts arbitrary: es)
  case (Cons t ts)
  then have new: "SeqID t \<notin> fst ` set es" by auto
  then have "map_of es (SeqID t) = None" by (simp add: map_of_eq_None_iff)
  then have "createACLEntry ty t es = es @ [(SeqID t, fresh_entry ty t)]"
    using new by (simp add: createACLEntry_def update_new_key fresh_entry_def or_new_def)
  then show ?case using Cons.IH [of "es @ [(SeqID t, fresh_entry ty t)]"] Cons.prems by auto
qed simp

lemma sort_key_append:
  assumes "sorted (map f ys)" and "\<forall>x\<in>set xs. \<forall>y\<in>set ys. f x \<le> f y"
  shows "sort_key f (xs @ ys) = sort_key f xs @ ys"
proof (rule properties_for_sort_key)
  show "sorted (map f (sort_key f xs @ ys))" using assms by (simp add: sorted_append)
  show "filter (\<lambda>x. f k = f x) (sort_key f xs @ ys) = filter (\<lambda>x. f k = f x) (xs @ ys)" for k
    using sort_key_stable [of f "f k" xs] by (simp add: eq_commute)
qed simp

lemma insort_key_map: "insort_key f (g x) (map g xs) = map g (insort_key (\<lambda>x. f (g x)) x xs)"
  by (induction xs) auto

lemma sort_key_map: "sort_key f (map g xs) = map g (sort_key (\<lambda>x. f (g x)) xs)"
  by (induction xs) (simp_all add: insort_key_map)

lemma find_append: "find P (xs @ ys) = (case find P xs of None \<Rightarrow> find P ys | Some x \<Rightarrow> Some x)"
  by (induction xs) auto

lemma find_map_pair: "find (\<lambda>x. P (snd x)) (map (\<lambda>t. (k t, g t)) ts) = map_option (\<lambda>t. (k t, g t)) (find (\<lambda>t. P (g t)) ts)"
  by (induction ts) auto

text \<open>The decision for a list of terms with different sequence numbers.\<close>

lemma decide_terms:
  assumes "ty = ACL_IPV4 \<or> ty = ACL_IPV6"
  shows "acl_decide net rng (map (\<lambda>t. (SeqID t, fresh_entry ty t)) ts) p = map_option Permit (find (term_matches net rng (icmp_of ty) p) (sort_key SeqID ts))"
  by (simp add: acl_decide_def sort_key_map find_map_pair fresh_entry_ok [OF assms] map_option.compositionality fresh_entry_simps split: option.split)

definition ndp_terms :: "ndp_values \<Rightarrow> bool \<Rightarrow> acl_type \<Rightarrow> AclTerm list" where
  "ndp_terms ndp icmp_unsupported ty = (if ty = ACL_IPV6 \<and> \<not> icmp_unsupported then ndpACLRules ndp else [])"

definition default_term :: "AclParams \<Rightarrow> AclTerm" where
  "default_term params = (if ACLType params = ACL_IPV6 then defaultRuleV6 else defaultRuleV4)\<lparr>Permit := DefaultPermit params\<rparr>"

lemma SeqID_default [simp]: "SeqID (default_term params) = 990"
  by (simp add: default_term_def defaultRuleV4_def defaultRuleV6_def DefaultEntryID_def)

lemma SeqID_ndp: "map SeqID (ndpACLRules ndp) = [950, 960, 970, 980]"
  by (simp add: ndpACLRules_def ndp_rule_def DefaultEntryID_def)

text \<open>C18: Terms numbered below 950 decide in their order; after them messages of neighbour discovery are accepted by an IPv6 list, where the device supports
  the types of ICMP; everything else is decided by the default.\<close>

theorem ConfigureACL_decides:
  assumes ty: "ACLType params = ACL_IPV4 \<or> ACLType params = ACL_IPV6" and "\<not> Update params"
    and dist: "distinct (map SeqID (Terms params))" and low: "\<forall>t\<in>set (Terms params). SeqID t < 950"
    and all: "\<And>a. net matchAllV4 a \<and> net matchAllV6 a"
  shows "\<exists>es. ConfigureACL ndp unsup params batch =
       batch @ [ReplaceSet (acl_Name params) (ACLType params) es, ReplaceInterface (Intf params) (Ingress params) (acl_Name params) (ACLType params)]
     \<and> (\<forall>p. acl_decide net rng es p =
          Some (case find (term_matches net rng (icmp_of (ACLType params)) p) (sort_key SeqID (Terms params)) of
                  Some t \<Rightarrow> Permit t
                | None \<Rightarrow> list_ex (term_matches net rng (icmp_of (ACLType params)) p) (ndp_terms ndp unsup (ACLType params)) \<or> DefaultPermit params))"
proof -
  let ?ty = "ACLType params"
  let ?rest = "ndp_terms ndp unsup ?ty @ [default_term params]"
  let ?es = "map (\<lambda>t. (SeqID t, fresh_entry ?ty t)) (Terms params @ ?rest)"
  let ?m = "term_matches net rng (icmp_of ?ty)"
  have seq: "map SeqID ?rest = (if ?ty = ACL_IPV6 \<and> \<not> unsup then [950, 960, 970, 980, 990] else [990])" by (simp add: ndp_terms_def SeqID_ndp)
  then have rest: "sorted (map SeqID ?rest)" "distinct (map SeqID ?rest)" and "\<forall>k\<in>set (map SeqID ?rest). 950 \<le> k" by (simp_all only: seq) simp_all
  then have high: "950 \<le> SeqID t" if "t \<in> set ?rest" for t using that by fastforce
  have lt: "SeqID t < SeqID u" if "t \<in> set (Terms params)" "u \<in> set ?rest" for t u using low high that by (meson order_less_le_trans)
  have "distinct (map SeqID (Terms params @ ?rest))" using dist rest(2) lt by (fastforce simp: distinct_append)
  then have es: "fold (createACLEntry ?ty) (Terms params @ ?rest) [] = ?es" using createACLEntry_fresh [of "Terms params @ ?rest" "[]"] by simp
  have conf: "ConfigureACL ndp unsup params batch =
       batch @ [ReplaceSet (acl_Name params) ?ty ?es, ReplaceInterface (Intf params) (Ingress params) (acl_Name params) ?ty]"
    using assms(2) es unfolding ConfigureACL_def Let_def default_term_def ndp_terms_def by (auto simp del: map_append)
  have dflt: "?m p (default_term params)" for p
    using all by (simp add: term_matches_def default_term_def defaultRuleV4_def defaultRuleV6_def zero_term_def enum_ok_def TCPProtocolNum_def UDPProtocolNum_def)
  have perm: "t \<in> set (ndp_terms ndp unsup ?ty) \<Longrightarrow> Permit t" for t by (auto simp: ndp_terms_def ndpACLRules_def ndp_rule_def split: if_splits)
  have last: "map_option Permit (find (?m p) ?rest) = Some (list_ex (?m p) (ndp_terms ndp unsup ?ty) \<or> DefaultPermit params)" for p
  proof (cases "find (?m p) (ndp_terms ndp unsup ?ty)")
    case None
    then have "\<not> list_ex (?m p) (ndp_terms ndp unsup ?ty)" by (simp add: find_None_iff list_ex_iff)
    moreover have "Permit (default_term params) = DefaultPermit params" by (simp add: default_term_def)
    ultimately show ?thesis using None dflt by (simp add: find_append)
  next
    case (Some t)
    then have "t \<in> set (ndp_terms ndp unsup ?ty)" "?m p t" by (auto simp: find_Some_iff)
    then show ?thesis using Some perm by (auto simp: find_append list_ex_iff)
  qed
  have "sort_key SeqID (Terms params @ ?rest) = sort_key SeqID (Terms params) @ ?rest"
    by (rule sort_key_append) (use rest(1) lt in \<open>auto simp: less_imp_le\<close>)
  then have "acl_decide net rng ?es p = (case find (?m p) (sort_key SeqID (Terms params)) of Some t \<Rightarrow> Some (Permit t) | None \<Rightarrow> map_option Permit (find (?m p) ?rest))" for p
    unfolding decide_terms [OF ty] by (simp add: find_append split: option.split)
  then have "acl_decide net rng ?es p = Some (case find (?m p) (sort_key SeqID (Terms params)) of Some t \<Rightarrow> Permit t
      | None \<Rightarrow> list_ex (?m p) (ndp_terms ndp unsup ?ty) \<or> DefaultPermit params)" for p
    unfolding last by (simp split: option.split)
  then show ?thesis using conf by blast
qed

definition sample_acl :: AclParams where
  "sample_acl = \<lparr>acl_Name = ''acl1'', DefaultPermit = True, ACLType = ACL_IPV4, Intf = ''eth0'', Ingress = True,
     Terms = [zero_term\<lparr>SeqID := 10, IPSrc := ''a'', term_Protocol := 6, L4DstPort := 22\<rparr>], Update = False\<rparr>"

definition sample_net :: "string \<Rightarrow> string \<Rightarrow> bool" where "sample_net n a \<longleftrightarrow> n = matchAllV4 \<or> n = matchAllV6 \<or> a = n"

definition sample_ndp :: ndp_values where "sample_ndp = \<lparr>ndp_na = (1, 1), ndp_ns = (2, 1), ndp_rs = (3, 1), ndp_ra = (4, 1)\<rparr>"

definition sample_packet :: "16 word \<Rightarrow> string term_packet" where
  "sample_packet port = \<lparr>pk_src = ''a'', pk_dst = ''b'', pk_proto = 6, pk_icmp = (0, 0), pk_sport = 5000, pk_dport = port\<rparr>"

text \<open>The list drops packets to port 22 from one network and accepts everything else.\<close>

theorem ConfigureACL_decides_witness:
  "\<exists>es. ConfigureACL sample_ndp False sample_acl [] = [ReplaceSet ''acl1'' ACL_IPV4 es, ReplaceInterface ''eth0'' True ''acl1'' ACL_IPV4]
     \<and> acl_decide sample_net (\<lambda>_ _. False) es (sample_packet 22) = Some False \<and> acl_decide sample_net (\<lambda>_ _. False) es (sample_packet 23) = Some True"
proof -
  have h: "ACLType sample_acl = ACL_IPV4 \<or> ACLType sample_acl = ACL_IPV6" "\<not> Update sample_acl" "distinct (map SeqID (Terms sample_acl))"
    "\<forall>t\<in>set (Terms sample_acl). SeqID t < 950"
    by (simp_all add: sample_acl_def zero_term_def)
  have n: "sample_net matchAllV4 a \<and> sample_net matchAllV6 a" for a by (simp add: sample_net_def)
  have "acl_Name sample_acl = ''acl1''" "Intf sample_acl = ''eth0''" "Ingress sample_acl = True" "ACLType sample_acl = ACL_IPV4" by (simp_all add: sample_acl_def)
  note s = this
  obtain es where c: "ConfigureACL sample_ndp False sample_acl [] = [ReplaceSet ''acl1'' ACL_IPV4 es, ReplaceInterface ''eth0'' True ''acl1'' ACL_IPV4]"
    and d: "\<And>p. acl_decide sample_net (\<lambda>_ _. False) es p =
          Some (case find (term_matches sample_net (\<lambda>_ _. False) (icmp_of ACL_IPV4) p) (sort_key SeqID (Terms sample_acl)) of
                  Some t \<Rightarrow> Permit t
                | None \<Rightarrow> list_ex (term_matches sample_net (\<lambda>_ _. False) (icmp_of ACL_IPV4) p) (ndp_terms sample_ndp False ACL_IPV4) \<or> DefaultPermit sample_acl)"
    using ConfigureACL_decides [OF h, where net = sample_net and ndp = sample_ndp and unsup = False and batch = "[]" and rng = "\<lambda>_ _. False", OF n]
    unfolding s append_Nil by auto
  have "acl_decide sample_net (\<lambda>_ _. False) es (sample_packet 22) = Some False \<and> acl_decide sample_net (\<lambda>_ _. False) es (sample_packet 23) = Some True"
    by (simp add: d sample_acl_def sample_packet_def term_matches_def sample_net_def zero_term_def icmp_of_def ICMPv4ProtocolNum_def TCPProtocolNum_def
        UDPProtocolNum_def ndp_terms_def matchAllV4_def matchAllV6_def)
  then show ?thesis using c by blast
qed

text \<open>Ports above 65535 are cut to 16 bits.\<close>

lemma set_transport_truncates: "DestinationPort (set_transport (zero_term\<lparr>L4DstPort := 65558\<rparr>) new_transport) = Some 22"
  by (simp add: set_transport_def zero_term_def new_transport_def)


section \<open>Static routes\<close>

lemma add_nh_lookup:
  "map_of (st_NextHop (add_nh cfg kv s)) k =
     (if k = fst kv then Some ((or_new new_nh (map_of (st_NextHop s) k))\<lparr>nh_addr := Some (snd kv),
         nh_Metric := (if Metric cfg \<noteq> 0 then Some (Metric cfg) else nh_Metric (or_new new_nh (map_of (st_NextHop s) k))),
         nh_Recurse := Recurse cfg \<or> nh_Recurse (or_new new_nh (map_of (st_NextHop s) k))\<rparr>)
      else map_of (st_NextHop s) k)"
  by (auto simp: add_nh_def Let_def update_conv')

definition nh_for :: "StaticRouteCfg \<Rightarrow> string \<Rightarrow> NextHop" where
  "nh_for cfg a = \<lparr>nh_addr = Some a, nh_Metric = (if Metric cfg \<noteq> 0 then Some (Metric cfg) else None), nh_Recurse = Recurse cfg, nh_Interface = None, nh_NextNetworkInstance = None\<rparr>"

lemma add_nh_fold:
  "distinct (map fst nhs) \<Longrightarrow> fst ` set nhs \<inter> dom (map_of (st_NextHop s)) = {} \<Longrightarrow>
   map_of (st_NextHop (fold (add_nh cfg) nhs s)) k = (case map_of nhs k of Some a \<Rightarrow> Some (nh_for cfg a) | None \<Rightarrow> map_of (st_NextHop s) k)"
proof (induction nhs arbitrary: s)
  case (Cons x nhs)
  obtain i a where x: "x = (i, a)" by (cases x)
  have none: "map_of (st_NextHop s) i = None" using Cons.prems(2) x by auto
  have "dom (map_of (st_NextHop (add_nh cfg x s))) = insert i (dom (map_of (st_NextHop s)))" by (auto simp: add_nh_lookup x)
  then have "map_of (st_NextHop (fold (add_nh cfg) nhs (add_nh cfg x s))) k =
      (case map_of nhs k of Some a \<Rightarrow> Some (nh_for cfg a) | None \<Rightarrow> map_of (st_NextHop (add_nh cfg x s)) k)"
    using Cons.prems x by (intro Cons.IH) auto
  moreover have "i \<notin> fst ` set nhs" using Cons.prems(1) x by simp
  then have "map_of nhs i = None" by (simp add: map_of_eq_None_iff)
  ultimately show ?case using none x by (auto simp: add_nh_lookup nh_for_def or_new_def new_nh_def split: option.split)
qed simp

text \<open>Unless next-hop groups need commands, the route is replaced as a whole, with its next hops, whatever the order of the map; an interface is added to the next
  hop with index 0.\<close>

theorem NewStaticRouteCfg_route:
  assumes "distinct (map fst (NextHops cfg))" and "\<not> (NexthopGroup cfg \<and> nhg_oc_unsupported d)"
  shows "\<exists>s. NewStaticRouteCfg (Some cfg) d batch = (Inr s, batch @ [UpdateProtocol (normalizeNIName (sr_NetworkInstance cfg) d) (protocol_name d) s,
        ReplaceStatic (normalizeNIName (sr_NetworkInstance cfg) d) (protocol_name d) (sr_Prefix cfg) s])
     \<and> (\<forall>k. k \<noteq> ''0'' \<or> NextHopIntf cfg = [] \<longrightarrow> map_of (st_NextHop s) k = map_option (nh_for cfg) (map_of (NextHops cfg) k))
     \<and> (NextHopIntf cfg \<noteq> [] \<longrightarrow> map_of (st_NextHop s) ''0'' =
          Some ((case map_of (NextHops cfg) ''0'' of Some a \<Rightarrow> nh_for cfg a | None \<Rightarrow> new_nh)\<lparr>nh_Interface := Some (NextHopIntf cfg)\<rparr>))"
proof -
  let ?s = "\<lparr>st_Prefix = sr_Prefix cfg, st_group = (if NexthopGroup cfg then Some (NexthopGroupName cfg) else None), st_NextHop = []\<rparr>"
  have f: "map_of (st_NextHop (fold (add_nh cfg) (NextHops cfg) ?s)) k = map_option (nh_for cfg) (map_of (NextHops cfg) k)" for k
    using add_nh_fold [OF assms(1), of ?s cfg k] by (simp split: option.split)
  have "NewStaticRouteCfg (Some cfg) d batch = (Inr (oc_static cfg), batch @ [UpdateProtocol (normalizeNIName (sr_NetworkInstance cfg) d) (protocol_name d) (oc_static cfg),
        ReplaceStatic (normalizeNIName (sr_NetworkInstance cfg) d) (protocol_name d) (sr_Prefix cfg) (oc_static cfg)])"
    using assms(2) by (auto simp: NewStaticRouteCfg_def Let_def)
  moreover have "k \<noteq> ''0'' \<or> NextHopIntf cfg = [] \<Longrightarrow> map_of (st_NextHop (oc_static cfg)) k = map_option (nh_for cfg) (map_of (NextHops cfg) k)" for k
    using f by (auto simp: oc_static_def Let_def update_conv')
  moreover have "NextHopIntf cfg \<noteq> [] \<Longrightarrow> map_of (st_NextHop (oc_static cfg)) ''0'' =
      Some ((case map_of (NextHops cfg) ''0'' of Some a \<Rightarrow> nh_for cfg a | None \<Rightarrow> new_nh)\<lparr>nh_Interface := Some (NextHopIntf cfg)\<rparr>)"
    using f by (auto simp: oc_static_def Let_def update_conv' or_new_def split: option.split)
  ultimately show ?thesis by blast
qed

text \<open>Where OpenConfig supports routes into another instance, nothing is sent to the device.\<close>

lemma StaticRouteNextNetworkInstance_sends_nothing: "snd (StaticRouteNextNetworkInstance False d cfg) = []"
  by (simp add: StaticRouteNextNetworkInstance_def)


section \<open>Authorization policies\<close>

text \<open>The policies that the package builds.\<close>

inductive built :: "AuthorizationPolicy \<Rightarrow> bool" where
  new: "built (NewAuthorizationPolicy name)"
| allow: "built p \<Longrightarrow> built (AddAllowRules name users rpcs p)"
| deny: "built p \<Longrightarrow> built (AddDenyRules name users rpcs p)"

lemma those_map_inverse: "(\<And>x. x \<in> set xs \<Longrightarrow> f (g x) = Some x) \<Longrightarrow> those (map f (map g xs)) = Some xs"
  by (induction xs) auto

lemma strings_roundtrip: "slice_of (\<lambda>x. string_of (Some x)) (Some (strings_json xs)) = Some xs"
proof (cases xs)
  case (Some ys)
  have "those (map (\<lambda>x. string_of (Some x)) (map JStr ys)) = Some ys" by (rule those_map_inverse) (simp add: string_of_def)
  then show ?thesis using Some by (simp add: slice_of_def strings_json_def comp_def)
qed (simp add: slice_of_def strings_json_def)

lemma string_of_JStr: "string_of (Some (JStr s)) = Some s" by (simp add: string_of_def)

lemma rule_roundtrip: "rule_of (rule_json r) = Some r"
  by (simp add: rule_of_def rule_json_def fields_of_def string_of_JStr strings_roundtrip)

lemma rules_roundtrip:
  "slice_of rule_of (map_of (rules_field k rs) k) = Some (if rs = Some [] then None else rs)"
proof (cases rs)
  case (Some xs)
  have "those (map rule_of (map rule_json xs)) = Some xs" by (rule those_map_inverse) (simp add: rule_roundtrip)
  then show ?thesis using Some by (simp add: rules_field_def slice_of_def comp_def)
qed (simp add: rules_field_def slice_of_def)

lemma Unmarshal_Marshal:
  "Unmarshal (Marshal p) = Some \<lparr>pol_Name = pol_Name p, AllowRules = (if AllowRules p = Some [] then None else AllowRules p),
     DenyRules = (if DenyRules p = Some [] then None else DenyRules p)\<rparr>"
proof -
  have other: "map_of (rules_field k rs) k' = None" if "k \<noteq> k'" for k k' rs using that by (simp add: rules_field_def split: option.split)
  have "map_of ((''name'', JStr (pol_Name p)) # rules_field ''allow_rules'' (AllowRules p) @ rules_field ''deny_rules'' (DenyRules p)) ''allow_rules''
      = map_of (rules_field ''allow_rules'' (AllowRules p)) ''allow_rules''"
    by (simp add: map_add_def other split: option.split)
  moreover have "map_of ((''name'', JStr (pol_Name p)) # rules_field ''allow_rules'' (AllowRules p) @ rules_field ''deny_rules'' (DenyRules p)) ''deny_rules''
      = map_of (rules_field ''deny_rules'' (DenyRules p)) ''deny_rules''"
    by (simp add: map_add_def other split: option.split)
  ultimately show ?thesis by (simp add: Unmarshal_def Marshal_def fields_of_def string_of_JStr rules_roundtrip)
qed

lemma built_roundtrip: "built p \<Longrightarrow> Unmarshal (Marshal p) = Some p"
proof -
  assume "built p"
  then have "AllowRules p \<noteq> Some [] \<and> DenyRules p \<noteq> Some []"
    by (induction rule: built.induct) (simp_all add: NewAuthorizationPolicy_def AddAllowRules_def AddDenyRules_def append_slice_def)
  then show ?thesis by (simp add: Unmarshal_Marshal)
qed

text \<open>C23: Decoding inverts encoding on exactly the policies without an empty list of rules that is not nil; the policies built with the package are such.\<close>

theorem policy_roundtrip:
  "(Unmarshal (Marshal p) = Some p \<longleftrightarrow> AllowRules p \<noteq> Some [] \<and> DenyRules p \<noteq> Some []) \<and> (built p \<longrightarrow> Unmarshal (Marshal p) = Some p)"
proof -
  have r: "Unmarshal (Marshal p) = Some p \<longleftrightarrow> AllowRules p \<noteq> Some [] \<and> DenyRules p \<noteq> Some []"
    unfolding Unmarshal_Marshal by (cases p) auto
  then show ?thesis using built_roundtrip by blast
qed

theorem policy_roundtrip_witness:
  "Unmarshal (Marshal (AddDenyRules ''r'' (Some [''u'']) [''/gnmi.gNMI/Set''] (NewAuthorizationPolicy ''p''))) =
     Some (AddDenyRules ''r'' (Some [''u'']) [''/gnmi.gNMI/Set''] (NewAuthorizationPolicy ''p''))"
  using policy_roundtrip [of "AddDenyRules ''r'' (Some [''u'']) [''/gnmi.gNMI/Set''] (NewAuthorizationPolicy ''p'')"] built.new built.deny by blast

text \<open>The users and paths that a rule names.\<close>

definition covers :: "Rule \<Rightarrow> string \<Rightarrow> string \<Rightarrow> bool" where
  "covers r u path \<longleftrightarrow> (case Principals r of None \<Rightarrow> False | Some us \<Rightarrow> u \<in> set us) \<and> (case Paths r of None \<Rightarrow> False | Some ps \<Rightarrow> path \<in> set ps)"

definition covered :: "Rule list option \<Rightarrow> string \<Rightarrow> string \<Rightarrow> bool" where
  "covered rs u path \<longleftrightarrow> (case rs of None \<Rightarrow> False | Some xs \<Rightarrow> list_ex (\<lambda>r. covers r u path) xs)"

text \<open>A policy permits what an allow rule names and no deny rule does.\<close>

definition permits :: "AuthorizationPolicy \<Rightarrow> string \<Rightarrow> string \<Rightarrow> bool" where
  "permits p u path \<longleftrightarrow> covered (AllowRules p) u path \<and> \<not> covered (DenyRules p) u path"

lemma createRule_fields:
  "Principals (createRule name users rpcs) = users \<and> rule_Name (createRule name users rpcs) = name
   \<and> Paths (createRule name users rpcs) = (if rpcs = [] then None else Some rpcs)"
proof -
  have "Paths (fold (\<lambda>p r. r\<lparr>Paths := append_slice (Paths r) p\<rparr>) qs r) =
      (if qs = [] then Paths r else Some ((case Paths r of None \<Rightarrow> [] | Some ys \<Rightarrow> ys) @ qs))
     \<and> rule_Name (fold (\<lambda>p r. r\<lparr>Paths := append_slice (Paths r) p\<rparr>) qs r) = rule_Name r" for qs and r :: Rule
    by (induction qs arbitrary: r) (auto simp: append_slice_def)
  then show ?thesis by (simp add: createRule_def)
qed

lemma covers_createRule: "covers (createRule name users rpcs) u path \<longleftrightarrow> (\<exists>us. users = Some us \<and> u \<in> set us) \<and> path \<in> set rpcs"
  by (auto simp: covers_def createRule_fields split: option.split)

lemma covered_append: "covered (append_slice rs r) u path \<longleftrightarrow> covered rs u path \<or> covers r u path"
  by (auto simp: covered_def append_slice_def split: option.split)

text \<open>An allow rule adds exactly its users and RPCs, as far as they are not denied; a deny rule takes exactly them away.\<close>

theorem rules_extend_policy:
  "permits (AddAllowRules name (Some us) rpcs p) u path \<longleftrightarrow>
     permits p u path \<or> (u \<in> set us \<and> path \<in> set rpcs \<and> \<not> covered (DenyRules p) u path)"
  "permits (AddDenyRules name (Some us) rpcs p) u path \<longleftrightarrow> permits p u path \<and> \<not> (u \<in> set us \<and> path \<in> set rpcs)"
  by (auto simp: permits_def AddAllowRules_def AddDenyRules_def covered_append covers_createRule)

text \<open>What gNSI promises: an upload is effective at once, and finalizing keeps it.\<close>

definition lawful :: "'s authz_device \<Rightarrow> bool" where
  "lawful dev \<longleftrightarrow> (\<forall>v c j f s. \<exists>s1 s2. upload dev v c j f s = Some s1 \<and> get_policy dev s1 = Inr (v, c, j)
      \<and> finalize dev s1 = Some s2 \<and> get_policy dev s2 = Inr (v, c, j))"

lemma lawfulE:
  assumes "lawful dev"
  obtains s1 s2 where "upload dev v c j f s = Some s1" "get_policy dev s1 = Inr (v, c, j)" "finalize dev s1 = Some s2" "get_policy dev s2 = Inr (v, c, j)"
  using assms [unfolded lawful_def, rule_format, of v c j f s] by (elim exE conjE) (rule that)

lemma checked_get_Inr: "checked_get dev now p s = Inr e \<Longrightarrow> Get dev now s = Some (e, p)"
  by (cases "Get dev now s") (auto simp: checked_get_def split: if_splits)

lemma Rotate_checked:
  assumes "Rotate dev now version createdOn force p s = (Inr e, s')"
  shows "\<exists>e2. checked_get dev now p s' = Inr e2"
proof (cases "upload dev version createdOn (Marshal p) force s")
  case (Some s1)
  then obtain e1 where e1: "checked_get dev now p s1 = Inr e1" using assms by (cases "checked_get dev now p s1") (simp_all add: Rotate_def)
  then obtain s2 where "finalize dev s1 = Some s2" using assms Some by (cases "finalize dev s1") (simp_all add: Rotate_def)
  then show ?thesis using assms Some e1 by (cases "checked_get dev now p s2") (auto simp: Rotate_def)
qed (use assms in \<open>simp add: Rotate_def\<close>)

text \<open>A rotation that succeeds leaves the policy on the device; on a device that keeps its promises every policy built with the package is installed.\<close>

theorem Rotate_installs:
  "(\<forall>e s'. Rotate dev now version createdOn force p s = (Inr e, s') \<longrightarrow> (\<exists>e'. Get dev now s' = Some (e', p)))
   \<and> (lawful dev \<and> built p \<and> version \<noteq> [] \<and> createdOn \<le> now \<longrightarrow> (\<exists>s'. Rotate dev now version createdOn force p s = (Inr False, s')))"
proof (intro conjI allI impI)
  fix e s' assume r: "Rotate dev now version createdOn force p s = (Inr e, s')"
  from Rotate_checked [OF r] obtain e2 where "checked_get dev now p s' = Inr e2" by (elim exE)
  then have "Get dev now s' = Some (e2, p)" by (rule checked_get_Inr)
  then show "\<exists>e'. Get dev now s' = Some (e', p)" ..
next
  assume a: "lawful dev \<and> built p \<and> version \<noteq> [] \<and> createdOn \<le> now"
  then have rt: "Unmarshal (Marshal p) = Some p" by (simp add: built_roundtrip)
  from a have "lawful dev" by blast
  then obtain s1 s2 where s: "upload dev version createdOn (Marshal p) force s = Some s1" "get_policy dev s1 = Inr (version, createdOn, Marshal p)"
    "finalize dev s1 = Some s2" "get_policy dev s2 = Inr (version, createdOn, Marshal p)"
    by (rule lawfulE)
  then show "\<exists>s'. Rotate dev now version createdOn force p s = (Inr False, s')"
    using a rt by (simp add: Rotate_def checked_get_def Get_def not_less)
qed

text \<open>The option to execute the RPC has no effect: the RPC is never executed.\<close>

theorem Verify_never_executes:
  "Verify dev exec s user rpc opts = Verify dev exec' s user rpc (filter (\<lambda>opt. opt \<noteq> HardVerify) opts)"
proof -
  have drop: "fold verify_step opts (r, c, False) = fold verify_step (filter (\<lambda>opt. opt \<noteq> HardVerify) opts) (r, c, False)" for r c
  proof (induction opts arbitrary: r c)
    case (Cons x xs)
    then show ?case by (cases x) simp_all
  qed simp
  have "\<exists>r' c'. fold verify_step opts (r, c, False) = (r', c', False)" for r c
  proof (induction opts arbitrary: r c)
    case (Cons x xs)
    then show ?case by (cases x) simp_all
  qed simp
  then obtain r c where "verify_opts opts = (r, c, False)" unfolding verify_opts_def by blast
  moreover from this have "verify_opts (filter (\<lambda>opt. opt \<noteq> HardVerify) opts) = (r, c, False)" unfolding verify_opts_def drop by simp
  ultimately show ?thesis by (simp add: Verify_def split: option.split)
qed

text \<open>A device that keeps its last upload.\<close>

definition simple_device :: "(string \<times> 64 word \<times> policy_json) option authz_device" where
  "simple_device = \<lparr>upload = (\<lambda>v c j f s. Some (Some (v, c, j))), finalize = Some,
     get_policy = (\<lambda>s. case s of None \<Rightarrow> Inl FailedPrecondition | Some r \<Rightarrow> Inr r), probe = (\<lambda>s u r. Some ACTION_DENY)\<rparr>"

theorem Rotate_installs_witness:
  "\<exists>s'. Rotate simple_device 7 ''v1'' 5 False (NewAuthorizationPolicy ''p'') None = (Inr False, s')"
proof -
  have "lawful simple_device \<and> built (NewAuthorizationPolicy ''p'') \<and> ''v1'' \<noteq> [] \<and> (5 :: 64 word) \<le> 7"
    by (simp add: lawful_def simple_device_def built.new)
  then show ?thesis using Rotate_installs [of simple_device 7 "''v1''" 5 False "NewAuthorizationPolicy ''p''" None] by blast
qed

theorem NewStaticRouteCfg_route_witness:
  "\<exists>s ops. NewStaticRouteCfg (Some \<lparr>sr_NetworkInstance = ''DEFAULT'', sr_Prefix = ''p'', NextHops = [(''1'', ''a''), (''2'', ''b'')], NexthopGroup = False,
      NexthopGroupName = [], Metric = 0, Recurse = True, NextHopIntf = [], RemoveStaticRoute = False, PolicyName = [], Rule_name = [], TrafficType = OTHER_ENCAP, IPType = [], NextHopAddr = []\<rparr>)
      \<lparr>default_ni = ''default'', protocol_name = ''STATIC'', nhg_oc_unsupported = False, vrf_nhg_unsupported = False, is_arista = True\<rparr> [] = (Inr s, ops)
    \<and> map_of (st_NextHop s) ''2'' = Some \<lparr>nh_addr = Some ''b'', nh_Metric = None, nh_Recurse = True, nh_Interface = None, nh_NextNetworkInstance = None\<rparr>"
proof -
  let ?cfg = "\<lparr>sr_NetworkInstance = ''DEFAULT'', sr_Prefix = ''p'', NextHops = [(''1'', ''a''), (''2'', ''b'')], NexthopGroup = False,
      NexthopGroupName = [], Metric = 0, Recurse = True, NextHopIntf = [], RemoveStaticRoute = False, PolicyName = [], Rule_name = [], TrafficType = OTHER_ENCAP, IPType = [], NextHopAddr = []\<rparr>"
  let ?d = "\<lparr>default_ni = ''default'', protocol_name = ''STATIC'', nhg_oc_unsupported = False, vrf_nhg_unsupported = False, is_arista = True\<rparr>"
  have "distinct (map fst (NextHops ?cfg))" "\<not> (NexthopGroup ?cfg \<and> nhg_oc_unsupported ?d)" by simp_all
  from NewStaticRouteCfg_route [OF this, of "[]"] show ?thesis by (auto simp: nh_for_def)
qed
end
