(* ===== verification/Spec2Isabelle.thy ===== *)
theory Spec2Isabelle
  imports Iputil Aft_Stream Core_Files Check_Validators Addrundata Version_Order Ci_Trigger Tescale Scale_Program Scale_Traffic Isis_Scale Test_Tracker Deviations Rundata Vrf_Policy Testbed_Binding Readme_Spec Doc_Tools Device_Helpers Access_Control
begin

text \<open>
  A verification library for \<^verbatim>\<open>openconfig/featureprofiles\<close>, the OpenConfig conformance tests of network
  devices: the Go packages the tests share, and the tools around them.

  \<^bold>\<open>The program and its parts.\<close>  A test configures a device (DUT) and a traffic generator (ATE), programs
  routes over gRIBI, sends traffic, and checks telemetry and captured packets. The parts with logic of their
  own are the address generators (\<^verbatim>\<open>internal/iputil\<close>), the gRIBI client (\<^verbatim>\<open>internal/gribi\<close>) and the two scale
  configurations built on both (\<^verbatim>\<open>internal/tescale\<close>, \<^verbatim>\<open>internal/cfgplugins/gribifullscale.go\<close>), the cache of
  forwarding tables streamed by a device (\<^verbatim>\<open>internal/telemetry/aftcache\<close>), the checks of captured packets
  (\<^verbatim>\<open>internal/otg_helpers/packetvalidationhelpers\<close>), of telemetry values (\<^verbatim>\<open>internal/check\<close>) and of core files
  (\<^verbatim>\<open>internal/core\<close>), the service that launches tests for a pull request (\<^verbatim>\<open>tools/ci-trigger\<close>) and the tool
  that keeps test metadata in step with the documentation (\<^verbatim>\<open>tools/addrundata\<close>). Beside them stand the
  generators and checks of the IS-IS scale tests (\<^verbatim>\<open>internal/otg_helpers/otg_config_helpers\<close>,
  \<^verbatim>\<open>internal/isisscale\<close>), the VRF selection policies (\<^verbatim>\<open>internal/vrfpolicy\<close>), access lists and static routes
  (\<^verbatim>\<open>internal/cfgplugins\<close>), authorization policies (\<^verbatim>\<open>internal/security/authz\<close>), the binding of a test to devices
  and generators (\<^verbatim>\<open>topologies/binding\<close>), the deviations of a device from the tests
  (\<^verbatim>\<open>internal/deviations\<close>), helpers for devices (\<^verbatim>\<open>internal/p4rtutils\<close>, \<^verbatim>\<open>internal/components\<close>,
  \<^verbatim>\<open>internal/attrs\<close>), the run data a test reports about itself and its test bed (\<^verbatim>\<open>internal/rundata\<close>), and the
  tools that check and list the documentation of the tests (\<^verbatim>\<open>tools/validate_readme_spec\<close>,
  \<^verbatim>\<open>tools/sync_test_registry\<close>, \<^verbatim>\<open>tools/gap-analyzer\<close>, \<^verbatim>\<open>tools/wikidoc\<close>).

  \<^bold>\<open>Theories.\<close>  Each component theory names its source file in its first paragraph, and its definitions
  have the names of the Go functions; a loop body or function literal has a name of its own.

  \<^item> \<open>FP_Prelude\<close>: Go strings, results, \<^verbatim>\<open>range\<close> loops over maps (locale \<open>range_loop\<close>), shared lemmas and
    collections. \<open>Go_Map\<close>, \<open>Go_Path\<close>, \<open>Go_Net\<close>: what is used of Go maps, \<^verbatim>\<open>path/filepath\<close>, \<^verbatim>\<open>net\<close>,
    \<^verbatim>\<open>net/netip\<close> and \<^verbatim>\<open>math/big\<close>.
  \<^item> \<open>Iputil\<close> (\<^verbatim>\<open>iputil.go\<close>): all generators. They return exactly the addresses of the arithmetic
    progression, or the error the code returns; octet-wise increment is addition; where 32- or 64-bit
    arithmetic wraps, the theorems say so.
  \<^item> \<open>Gnmi_Schema\<close>, \<open>Aft_Data\<close>, \<open>Aft_Parse\<close>, \<open>Aft_Stream\<close> (\<^verbatim>\<open>schema.go\<close>, \<^verbatim>\<open>aft_cache.go\<close>): notifications,
    the table and the resolution of routes, the parsing of the cache into a table, and the listening session
    with its hooks. Resolution ends and computes the inductive relation \<open>aft_route\<close>; filtering keeps routes, but for
    the targets of conditional groups that no wanted prefix has;
    parsed tables are well formed; a listener that returns has reached the goal of its stopping condition, and
    it returns at the first check after the goal is reached.
  \<^item> \<open>Gribi\<close> (\<^verbatim>\<open>gribi.go\<close>): election identifiers, entries and the client. \<open>Tescale\<close> (\<^verbatim>\<open>scale.go\<close>): pools and
    \<^verbatim>\<open>BuildVRFConfig\<close>; its configuration satisfies \<open>refs_ok\<close>.
  \<^item> \<open>Scale_Weights\<close>, \<open>Gribi_Scale\<close>, \<open>Scale_Program\<close>, \<open>Scale_Traffic\<close> (\<^verbatim>\<open>gribifullscale.go\<close>): the distribution
    of next hops over groups; the entries of the five builders; sending and verifying them; the flows, the
    expectations on them and the subinterfaces. The entries sent are those of the builders in order and
    \<open>programmable\<close>; the flows are as many as counted, with distinct names and the right expectations.
  \<^item> \<open>Packet_Validation\<close> (\<^verbatim>\<open>packetvalidationhelpers.go\<close>): the header checks on a shared stream of packets.
  \<^item> \<open>Check_Validators\<close> (\<^verbatim>\<open>check.go\<close>) and \<open>Core_Files\<close> (\<^verbatim>\<open>core.go\<close>): when a check passes; which names of core files
    are reported, for every order of the goroutines.
  \<^item> \<open>Ci_Trigger\<close> (\<^verbatim>\<open>pr.go\<close>, \<^verbatim>\<open>trigger.go\<close>, \<^verbatim>\<open>config.go\<close>): which tests a change selects, which jobs are
    launched and for whom. \<open>Addrundata\<close> (\<^verbatim>\<open>case.go\<close>, \<^verbatim>\<open>suite.go\<close>, \<^verbatim>\<open>rundata.go\<close>) and \<open>Version_Order\<close>
    (\<^verbatim>\<open>lib.go\<close>): checking and fixing metadata; the order of test plan identifiers. \<open>Test_Tracker\<close>
    (\<^verbatim>\<open>list_testtracker.go\<close>): merging the plan of the tests into an existing one, without losing or repeating a case.
  \<^item> \<open>Isis_Grid\<close> (\<^verbatim>\<open>otgisisblockhelpers.go\<close>) and \<open>Isis_Scale\<close> (\<^verbatim>\<open>otgisistopology.go\<close>, \<^verbatim>\<open>isisscale.go\<close>): the grid of simulated
    routers, the interfaces, flows and checks of the scale tests. Links, VLANs and names are distinct and fit.
  \<^item> \<open>Vrf_Policy\<close> (\<^verbatim>\<open>vrfpolicy.go\<close>, \<^verbatim>\<open>policyforwarding.go\<close>): the rules of the policies; read in order they
    decide as the intended table does, and the generated policy agrees with the handwritten one.
  \<^item> \<open>Access_Control\<close> (\<^verbatim>\<open>acl.go\<close>, \<^verbatim>\<open>staticroute.go\<close>, \<^verbatim>\<open>authz.go\<close>): an access list decides by its terms in their
    order, then neighbour discovery, then the default; a static route has the next hops it was given; an
    authorization policy survives its encoding, and a rotation that succeeds has installed it.
  \<^item> \<open>Testbed_Binding\<close> (\<^verbatim>\<open>topologies/binding\<close>): the precedence of dial options, static and dynamic reservations,
    resets and sessions; a release closes the sessions that the reservation opened.
  \<^item> \<open>Deviations\<close> (\<^verbatim>\<open>deviations.go\<close>): the lookup and the accessors with defaults. \<open>Rundata\<close>
    (\<^verbatim>\<open>internal/rundata\<close>): the properties of a run and the path of a test. \<open>Device_Helpers\<close>: ACL entries
    match the packets of their description, ports are mapped to their nodes, component caches, interface
    attributes and speeds.
  \<^item> \<open>Readme_Spec\<close> (\<^verbatim>\<open>mdocspec\<close>, \<^verbatim>\<open>ocpaths\<close>, \<^verbatim>\<open>ocrpcs\<close>): a README passes exactly when its block parses and
    its paths and RPCs exist. \<open>Doc_Tools\<close>: the test registry is complete and sorted, the gap analysis passes
    exactly when every changed test does, the order and the files of the wiki documents.

  \<^bold>\<open>Interfaces.\<close>  The locales are the contracts between parts, each interpreted on the definitions of the
  model: \<open>range_loop\<close> (the result of a loop over a map does not depend on its order), \<open>address_text\<close> (texts
  of addresses are injective), \<open>leaf_function\<close> (parsers keep tables well formed), \<open>stopping_condition\<close>
  (a hook's goal) and \<open>live_condition\<close> (a goal that is reached ends the loop), \<open>validator\<close>, \<open>launcher\<close> (a launch marks the tests it starts), \<open>checked_modify\<close> (send,
  wait, compare), \<open>id_supply\<close>, \<open>bucket_cursor\<close>, \<open>header_scan\<close>, \<open>merger\<close> (merging a list of objects keeps
  what is there and adds what is missing) and \<open>overlay\<close> (an option that is set wins over a default).

  \<^bold>\<open>Parameters.\<close>  Packages outside the repository are arguments of the definitions: ygot (schema paths),
  the gNMI cache, ygnmi, gribigo, gopacket, google/uuid, the port graph solver, the gNOI file service, the
  Markdown and YAML parsers, the lookup in a YANG schema, and the cloud and web services. So are regular
  expressions that come from data, the answers of Git and of a device, and the files of a directory.
  The hypotheses on them are named in the theorems that use them (\<open>records\<close> for gribigo: what is sent arrives
  in order), and each such theorem has a witness on a concrete instance.

  \<^bold>\<open>Numbers, loops and failures.\<close>  Fixed-width unsigned integers are words. Go \<^verbatim>\<open>int\<close> is unbounded where counts
  are a few thousand by construction; that is said where it is done. No definition uses fuel: loops are
  structural or have a measure, and the resolution loop, which has no bound of its own, is a partial function
  shown to return on every finite table. An event loop is run over a list of events. An \<^verbatim>\<open>error\<close>, a
  \<^verbatim>\<open>t.Fatalf\<close> and a run-time panic are values.

  \<^bold>\<open>Not modelled.\<close>  Logging and time stamps; opening connections, files and captures; the subscription
  goroutine of the AFT session. The configuration plugins other than the full-scale one, the VRF selection
  policies, access lists and static routes, the traffic generator helpers other than the IS-IS and packet
  ones, the security helpers other than the authorization policies and the feature tests fill generated structures and call a device. Most deviations are one accessor per generated
  field and appear as arguments. Optics validation compares floating-point leaves. The check of canonical
  configurations decodes JSON into generated structures.
\<close>

end
